(* ===== verification/Prelude.thy ===== *)
theory Prelude
  imports Main "HOL-Library.Word" "HOL-Library.Monad_Syntax"
begin

text \<open>
  Shared vocabulary of the development: the machine integer types of the C code, the
  error numbers of \<^verbatim>\<open>nuttx/include/errno.h\<close>, and generic lemmas on options, lists
  and words.

  Calling convention of the models.  A C function that reads and writes state is an HOL
  function that takes the state and returns the result together with the new state.  When
  the C call can run into undefined behaviour (a NULL dereference, an array index out of
  range, a division by zero) or can block for ever, the HOL function returns an option and
  the value None stands for that outcome; a function that always returns stays total.
  Return codes are integers, negated error numbers on failure, as in the code.
\<close>

unbundle bit_operations_syntax

type_synonym u8 = "8 word"
type_synonym u16 = "16 word"
type_synonym u32 = "32 word"

section \<open>Return codes\<close>

abbreviation (input) OK :: int where "OK \<equiv> 0"
abbreviation (input) ERROR :: int where "ERROR \<equiv> - 1"
abbreviation (input) EPERM :: int where "EPERM \<equiv> 1"
abbreviation (input) ENOENT :: int where "ENOENT \<equiv> 2"
abbreviation (input) EINTR :: int where "EINTR \<equiv> 4"
abbreviation (input) EIO :: int where "EIO \<equiv> 5"
abbreviation (input) ENXIO :: int where "ENXIO \<equiv> 6"
abbreviation (input) EBADF :: int where "EBADF \<equiv> 9"
abbreviation (input) EAGAIN :: int where "EAGAIN \<equiv> 11"
abbreviation (input) ENOMEM :: int where "ENOMEM \<equiv> 12"
abbreviation (input) EACCES :: int where "EACCES \<equiv> 13"
abbreviation (input) EBUSY :: int where "EBUSY \<equiv> 16"
abbreviation (input) EEXIST :: int where "EEXIST \<equiv> 17"
abbreviation (input) ENODEV :: int where "ENODEV \<equiv> 19"
abbreviation (input) EINVAL :: int where "EINVAL \<equiv> 22"
abbreviation (input) EMFILE :: int where "EMFILE \<equiv> 24"
abbreviation (input) ENOTTY :: int where "ENOTTY \<equiv> 25"
abbreviation (input) ENOSYS :: int where "ENOSYS \<equiv> 88"

section \<open>Generic lemmas\<close>

lemma bind_eq_Some_conv_ex:
  "Option.bind x f = Some y \<longleftrightarrow> (\<exists>a. x = Some a \<and> f a = Some y)"
  by (cases x) simp_all

lemma unat_lt_2p: "unat (x :: 'a :: len word) < 2 ^ LENGTH('a)"
  by (rule unsigned_less)

lemma unat_u8_lt [simp]: "unat (x :: u8) < 256"
  using unat_lt_2p [of x] by simp

lemma unat_u16_lt [simp]: "unat (x :: u16) < 65536"
  using unat_lt_2p [of x] by simp

lemma unat_u32_lt [simp]: "unat (x :: u32) < 4294967296"
  using unat_lt_2p [of x] by simp

lemma unat_mult_no_wrap:
  "unat x * unat y < 2 ^ LENGTH('a) \<Longrightarrow> unat (x * y :: 'a :: len word) = unat x * unat y"
  by (simp add: unat_word_ariths)

lemma unat_add_no_wrap:
  "unat x + unat y < 2 ^ LENGTH('a) \<Longrightarrow> unat (x + y :: 'a :: len word) = unat x + unat y"
  by (simp add: unat_word_ariths)

lemma unat_sub_no_wrap:
  "unat y \<le> unat x \<Longrightarrow> unat (x - y :: 'a :: len word) = unat x - unat y"
  by (rule unat_sub) (simp add: word_le_nat_alt)

lemma unat_drop_bit_div: "unat (drop_bit n x :: 'a :: len word) = unat x div 2 ^ n"
  by (subst unat_drop_bit_eq) (simp only: drop_bit_eq_div)

section \<open>Decimal numbers\<close>

text \<open>The output of the format \<^verbatim>\<open>%d\<close> for a number that is not negative.\<close>

function decimal :: "nat \<Rightarrow> string" where
  "decimal n = (if n < 10 then [char_of (48 + n)] else decimal (n div 10) @ [char_of (48 + n mod 10)])"
  by pat_completeness auto

termination
  by (relation "measure id") auto

declare decimal.simps [simp del]

end
