(* ===== verification/Pwm_Types.thy ===== *)
theory Pwm_Types
  imports Prelude
begin

text \<open>
  The data that user code, the PWM upper half and a PWM lower half exchange
  (\<^verbatim>\<open>include/nuttx/drivers/pwm.h\<close>), with CONFIG_PWM_MULTICHAN and four channels, and the
  operation table of a lower half over its hardware state.
\<close>

record pwm_chan_s =
  duty :: u32
  channel :: u8

record pwm_info_s =
  frequency :: u32
  channels :: "pwm_chan_s list"

abbreviation (input) CONFIG_PWM_NCHANNELS :: nat where "CONFIG_PWM_NCHANNELS \<equiv> 4"

definition pwm_info_ok :: "pwm_info_s \<Rightarrow> bool" where
  "pwm_info_ok info \<longleftrightarrow> length (channels info) = CONFIG_PWM_NCHANNELS"

abbreviation (input) PWMIOC_SETCHARACTERISTICS :: int where "PWMIOC_SETCHARACTERISTICS \<equiv> 0x0c01"
abbreviation (input) PWMIOC_GETCHARACTERISTICS :: int where "PWMIOC_GETCHARACTERISTICS \<equiv> 0x0c02"
abbreviation (input) PWMIOC_START :: int where "PWMIOC_START \<equiv> 0x0c03"
abbreviation (input) PWMIOC_STOP :: int where "PWMIOC_STOP \<equiv> 0x0c04"

text \<open>A zero-initialised info structure, as kmm_zalloc leaves it.\<close>

definition pwm_info_zero :: pwm_info_s where
  "pwm_info_zero =
     \<lparr>frequency = 0, channels = replicate CONFIG_PWM_NCHANNELS \<lparr>duty = 0, channel = 0\<rparr>\<rparr>"

text \<open>The lower half operations act on a hardware state of type 'h.\<close>

record 'h pwm_ops_s =
  op_setup :: "'h \<Rightarrow> (int \<times> 'h) option"
  op_shutdown :: "'h \<Rightarrow> (int \<times> 'h) option"
  op_start :: "pwm_info_s \<Rightarrow> 'h \<Rightarrow> (int \<times> 'h) option"
  op_stop :: "'h \<Rightarrow> (int \<times> 'h) option"
  op_ioctl :: "int \<Rightarrow> 'h \<Rightarrow> (int \<times> 'h) option"

lemma pwm_info_zero_ok [simp]: "pwm_info_ok pwm_info_zero"
  by (simp add: pwm_info_ok_def pwm_info_zero_def)

end
