(* ===== verification/Ioctl_Arg.thy ===== *)
theory Ioctl_Arg
  imports Pwm_Types
begin

text \<open>
  The argument of an ioctl call.  In C it is an unsigned long that the driver casts to the
  pointer type it expects; here the pointed-to data is carried by value, and a driver that
  writes through the pointer returns the updated argument.  The I2C message of
  \<^verbatim>\<open>include/nuttx/i2c/i2c_master.h\<close> is declared here as well.
\<close>

record i2c_msg_s =
  msg_frequency :: u32
  msg_addr :: u16
  msg_flags :: u16
  msg_buffer :: "u8 list"
  msg_length :: nat

abbreviation (input) I2C_M_READ :: u16 where "I2C_M_READ \<equiv> 0x0001"
abbreviation (input) I2C_M_TEN :: u16 where "I2C_M_TEN \<equiv> 0x0002"
abbreviation (input) I2C_M_NOSTOP :: u16 where "I2C_M_NOSTOP \<equiv> 0x0040"
abbreviation (input) I2C_M_NOSTART :: u16 where "I2C_M_NOSTART \<equiv> 0x0080"
abbreviation (input) I2CIOC_TRANSFER :: int where "I2CIOC_TRANSFER \<equiv> 0x2101"
abbreviation (input) I2CIOC_RESET :: int where "I2CIOC_RESET \<equiv> 0x2102"

datatype ioctl_arg =
    Arg_ulong nat
  | Arg_pwm_info pwm_info_s
  | Arg_i2c_transfer "i2c_msg_s list"

end
