(* ===== verification/Ieee.thy ===== *)
theory Ieee
  imports Complex_Main
begin

text \<open>
  Binary floating point arithmetic as the C code uses it, on the numbers themselves: an operation
  is the exact operation on rationals followed by \<^verbatim>\<open>ieee_round p\<close>, rounding to the nearest number
  with a significand of p bits, ties to even (p is 53 for double and 24 for float).  The numbers
  in this program lie between 2 to the power -30 and 2 to the power 40 or are zero, far inside
  the exponent range of both formats, so overflow, subnormal numbers and signed zeros do not
  arise.
\<close>

definition pow2 :: "int \<Rightarrow> rat" where
  "pow2 k = (if 0 \<le> k then 2 ^ nat k else 1 / 2 ^ nat (- k))"

text \<open>The number of binary digits.\<close>

function bits :: "int \<Rightarrow> nat" where
  "bits n = (if n \<le> 0 then 0 else Suc (bits (n div 2)))"
  by pat_completeness auto

termination
  by (relation "measure nat") auto

declare bits.simps [simp del]

text \<open>The exponent of the leading binary digit of a positive number.\<close>

definition exponent_of :: "rat \<Rightarrow> int" where
  "exponent_of x =
     (let (a, b) = quotient_of x;
          e = int (bits a) - int (bits b)
      in if pow2 e \<le> x then e else e - 1)"

definition round_half_even :: "rat \<Rightarrow> int" where
  "round_half_even x =
     (let f = \<lfloor>x\<rfloor>; r = x - of_int f
      in if r < 1 / 2 then f else if 1 / 2 < r then f + 1 else if even f then f else f + 1)"

definition ieee_round :: "nat \<Rightarrow> rat \<Rightarrow> rat" where
  "ieee_round p x =
     (if x = 0 then 0
      else let q = pow2 (exponent_of \<bar>x\<bar> - int p + 1) in of_int (round_half_even (x / q)) * q)"

section \<open>Powers of two\<close>

lemma pow2_pos [simp]: "0 < pow2 k"
  by (simp add: pow2_def)

lemma pow2_abs [simp]: "\<bar>pow2 k\<bar> = pow2 k" "pow2 k \<noteq> 0"
  by (simp_all add: pow2_def)

lemma pow2_1 [simp]: "pow2 1 = 2" "pow2 0 = 1"
  by (simp_all add: pow2_def)

lemma pow2_powi: "pow2 k = 2 powi k"
  by (simp add: pow2_def power_int_def field_simps)

lemma pow2_add: "pow2 (j + k) = pow2 j * pow2 k"
  by (simp add: pow2_powi power_int_add)

lemma pow2_mono: "j \<le> k \<Longrightarrow> pow2 j \<le> pow2 k"
  by (simp add: pow2_powi power_int_increasing)

lemma pow2_minus_nat: "pow2 (- int n) = 1 / 2 ^ n"
  by (simp add: pow2_def)

lemma pow2_nat [simp]: "pow2 (int n) = 2 ^ n"
  by (simp add: pow2_def)

lemma pow2_diff_nat: "pow2 (int m - int n) = 2 ^ m / 2 ^ n"
  using pow2_add [of "int m" "- int n"] by (simp add: pow2_minus_nat)

lemma bits_bounds: "0 < n \<Longrightarrow> 2 ^ bits n \<le> 2 * n \<and> n < 2 ^ bits n"
proof (induction n rule: bits.induct)
  case (1 n)
  show ?case
  proof (cases "n = 1")
    case True
    then show ?thesis by (simp add: bits.simps [of 1] bits.simps [of 0])
  next
    case False
    then have "2 ^ bits (n div 2) \<le> 2 * (n div 2) \<and> n div 2 < 2 ^ bits (n div 2)" using 1 by simp
    moreover have "bits n = Suc (bits (n div 2))" using 1(2) by (subst bits.simps) simp
    ultimately show ?thesis by auto
  qed
qed

lemma exponent_of_bounds:
  assumes "0 < x"
  shows "pow2 (exponent_of x) \<le> x" and "x < 2 * pow2 (exponent_of x)"
proof -
  obtain a b where q: "quotient_of x = (a, b)" by force
  have b: "0 < b" using q by (rule quotient_of_denom_pos)
  have x: "x = of_int a / of_int b" using q by (rule quotient_of_div)
  have a: "0 < a" using assms x b by (simp add: zero_less_divide_iff)
  define A B where "A = bits a" and "B = bits b"
  define e where "e = int A - int B"
  have i: "2 ^ A \<le> 2 * a" "a < 2 ^ A" "2 ^ B \<le> 2 * b" "b < 2 ^ B"
    using bits_bounds [OF a] bits_bounds [OF b] by (simp_all add: A_def B_def)
  have "of_int (2 ^ A) \<le> (of_int (2 * a) :: rat)" "(of_int a :: rat) < of_int (2 ^ A)"
    "of_int (2 ^ B) \<le> (of_int (2 * b) :: rat)" "(of_int b :: rat) < of_int (2 ^ B)"
    using i by (simp_all only: of_int_le_iff of_int_less_iff)
  then have ra: "2 ^ A \<le> 2 * (of_int a :: rat)" "(of_int a :: rat) < 2 ^ A"
    and rb: "2 ^ B \<le> 2 * (of_int b :: rat)" "(of_int b :: rat) < 2 ^ B" by simp_all
  have bb: "0 < (of_int b :: rat)" using b by simp
  have pe: "pow2 e = 2 ^ A / 2 ^ B" unfolding e_def by (rule pow2_diff_nat)
  have "x < 2 ^ A / of_int b" unfolding x using ra(2) bb by (rule divide_strict_right_mono)
  also have "\<dots> = (2 * 2 ^ A) / (2 * of_int b)" by simp
  also have "\<dots> \<le> (2 * 2 ^ A) / 2 ^ B" by (rule divide_left_mono [OF rb(1)]) (use bb in simp_all)
  finally have up: "x < 2 * pow2 e" unfolding pe by simp
  have "pow2 e \<le> (2 * of_int a) / 2 ^ B" unfolding pe using ra(1) by (simp add: divide_right_mono)
  also have "\<dots> \<le> (2 * of_int a) / of_int b"
    by (rule divide_left_mono) (use rb(2) bb a in simp_all)
  finally have lo: "pow2 e \<le> 2 * x" unfolding x by simp
  have ee: "exponent_of x = (if pow2 e \<le> x then e else e - 1)"
    using q by (simp add: exponent_of_def e_def A_def B_def)
  have h: "pow2 (e - 1) = pow2 e / 2" using pow2_add [of e "- 1"] by (simp add: pow2_def)
  show "pow2 (exponent_of x) \<le> x" "x < 2 * pow2 (exponent_of x)" using ee up lo h by auto
qed

section \<open>Rounding\<close>

lemma round_half_even_error: "\<bar>of_int (round_half_even x) - x\<bar> \<le> 1 / 2"
proof -
  have "of_int \<lfloor>x\<rfloor> \<le> x" "x < of_int \<lfloor>x\<rfloor> + 1" by linarith+
  then show ?thesis unfolding round_half_even_def Let_def by (auto simp: abs_le_iff)
qed

lemma round_half_even_int [simp]: "round_half_even (of_int m) = m"
  by (simp add: round_half_even_def)

lemma ieee_round_error: "\<bar>ieee_round p x - x\<bar> \<le> \<bar>x\<bar> / 2 ^ p"
proof (cases "x = 0")
  case False
  define e q where "e = exponent_of \<bar>x\<bar>" and "q = pow2 (e - int p + 1)"
  have "pow2 (e + - int p + 1) = pow2 e * pow2 (- int p) * pow2 1" by (simp only: pow2_add)
  then have q: "0 < q" "q = 2 * pow2 e / 2 ^ p" by (simp_all add: q_def pow2_minus_nat)
  have "ieee_round p x - x = (of_int (round_half_even (x / q)) - x / q) * q"
    using False q(1) by (simp add: ieee_round_def e_def q_def left_diff_distrib Let_def)
  then have "\<bar>ieee_round p x - x\<bar> = \<bar>of_int (round_half_even (x / q)) - x / q\<bar> * q" using q(1) by (simp add: abs_mult)
  also have "\<dots> \<le> 1 / 2 * q" by (rule mult_right_mono [OF round_half_even_error]) (use q(1) in simp)
  also have "\<dots> = pow2 e / 2 ^ p" using q(2) by simp
  also have "\<dots> \<le> \<bar>x\<bar> / 2 ^ p" using exponent_of_bounds(1) [of "\<bar>x\<bar>"] False by (simp add: e_def divide_right_mono)
  finally show ?thesis .
qed (simp add: ieee_round_def)

text \<open>A number with at most p significant bits is not changed.\<close>

lemma ieee_round_exact:
  assumes "\<bar>m\<bar> < 2 ^ p"
  shows "ieee_round p (of_int m * pow2 k) = of_int m * pow2 k"
proof (cases "m = 0")
  case False
  define x e where "x = of_int m * pow2 k" and "e = exponent_of \<bar>x\<bar>"
  have ax: "\<bar>x\<bar> = of_int \<bar>m\<bar> * pow2 k" by (simp add: x_def abs_mult)
  have "pow2 e \<le> \<bar>x\<bar>" unfolding e_def using False by (intro exponent_of_bounds) (simp add: x_def)
  also have "\<bar>x\<bar> < 2 ^ p * pow2 k"
  proof -
    have "(of_int \<bar>m\<bar> :: rat) < of_int (2 ^ p)" using assms by (simp only: of_int_less_iff)
    then show ?thesis unfolding ax by (intro mult_strict_right_mono) simp_all
  qed
  also have "\<dots> = pow2 (int p + k)" by (simp add: pow2_add)
  finally have "pow2 e < pow2 (int p + k)" .
  then have "e < int p + k" using pow2_mono [of "int p + k" e] by (meson leD leI)
  define n where "n = nat (k - (e - int p + 1))"
  have n: "k = e - int p + 1 + int n" using \<open>e < int p + k\<close> by (simp add: n_def)
  define q where "q = pow2 (e - int p + 1)"
  have "x / q = of_int (m * 2 ^ n)" unfolding x_def n q_def pow2_add by simp
  then have "ieee_round p x = of_int (m * 2 ^ n) * q"
    using False unfolding ieee_round_def e_def [symmetric] q_def [symmetric] Let_def
    by (simp only: round_half_even_int) (simp add: x_def)
  also have "\<dots> = x" unfolding x_def n q_def pow2_add by simp
  finally show ?thesis unfolding x_def .
qed (simp add: ieee_round_def)

lemma exponent_of_unique:
  assumes "pow2 e \<le> x" "x < 2 * pow2 e"
  shows "exponent_of x = e"
proof -
  have "0 < x" using assms(1) pow2_pos [of e] by linarith
  note b = exponent_of_bounds [OF this]
  have m: "2 * pow2 j \<le> pow2 k" if "j < k" for j k
    using pow2_mono [of "j + 1" k] pow2_add [of j 1] that by simp
  show ?thesis
    using m [of e "exponent_of x"] m [of "exponent_of x" e] assms b by linarith
qed

lemma round_half_even_eq: "\<bar>x - of_int n\<bar> < 1 / 2 \<Longrightarrow> round_half_even x = n"
proof -
  assume a: "\<bar>x - of_int n\<bar> < 1 / 2"
  have "\<bar>of_int (round_half_even x) - (of_int n :: rat)\<bar> < 1"
    using a round_half_even_error [of x] by linarith
  then have "\<bar>round_half_even x - n\<bar> < 1" by linarith
  then show ?thesis by simp
qed

text \<open>Rounding by exhibiting the result: n units of the last place, which is 2 to the power k.\<close>

lemma ieee_round_eq:
  assumes "pow2 (k + int p - 1) \<le> x" "x < 2 * pow2 (k + int p - 1)" "\<bar>x / pow2 k - of_int n\<bar> < 1 / 2"
  shows "ieee_round p x = of_int n * pow2 k"
proof -
  have "0 < x" using assms(1) pow2_pos [of "k + int p - 1"] by linarith
  then show ?thesis
    using exponent_of_unique [OF assms(1,2)] round_half_even_eq [OF assms(3)] by (simp add: ieee_round_def)
qed

lemma ieee_round_between:
  assumes "l \<le> x" "x \<le> h" "0 < l"
  shows "l * (1 - 1 / 2 ^ p) \<le> ieee_round p x" "ieee_round p x \<le> h * (1 + 1 / 2 ^ p)"
proof -
  have "\<bar>ieee_round p x - x\<bar> \<le> x / 2 ^ p" using ieee_round_error [of p x] assms by simp
  then have e: "x * (1 - 1 / 2 ^ p) \<le> ieee_round p x" "ieee_round p x \<le> x * (1 + 1 / 2 ^ p)"
    by (auto simp: abs_le_iff algebra_simps)
  have "(1 :: rat) / 2 ^ p \<le> 1" by simp
  then show "l * (1 - 1 / 2 ^ p) \<le> ieee_round p x"
    using mult_right_mono [OF assms(1), of "1 - 1 / 2 ^ p"] e(1) by simp
  have "x * (1 + 1 / 2 ^ p) \<le> h * (1 + 1 / 2 ^ p)" by (rule mult_right_mono [OF assms(2)]) simp
  then show "ieee_round p x \<le> h * (1 + 1 / 2 ^ p)" using e(2) by linarith
qed

end
