(* ===== verification/Motor.thy ===== *)
theory Motor
  imports Ioctl_Arg Ieee
begin

text \<open>
  The motor side of the flight controller application (\<^verbatim>\<open>apps/chewie\<close>): the PWM output wrapper
  \<^verbatim>\<open>drivers/pwm_out/drv_pwm_out.c\<close>, the motor driver \<^verbatim>\<open>drivers/motor/drv_motor.c\<close> with the
  constants of \<^verbatim>\<open>drivers/drv_motor.h\<close>, and the test program \<^verbatim>\<open>test_motor\<close> of
  \<^verbatim>\<open>chewie_main.c\<close>, in the configuration of \<^verbatim>\<open>apps/chewie/Kconfig\<close>.  The program is a client
  of the operating system: the system calls are a record of functions on a system state.  A
  sleep records the state that the system rests in.  Messages to the console are left out.
\<close>

section \<open>The system calls\<close>

record 's syscalls =
  sys_open :: "string option \<Rightarrow> int \<Rightarrow> 's \<Rightarrow> (int \<times> 's) option"
  sys_close :: "int \<Rightarrow> 's \<Rightarrow> (int \<times> 's) option"
  sys_ioctl :: "int \<Rightarrow> int \<Rightarrow> ioctl_arg \<Rightarrow> 's \<Rightarrow> (int \<times> ioctl_arg \<times> 's) option"

section \<open>PWM output\<close>

definition drv_pwm_init :: "'s syscalls \<Rightarrow> string option \<Rightarrow> 's \<Rightarrow> (int \<times> 's) option" where
  "drv_pwm_init sys devpath s =
     (case devpath of
        None \<Rightarrow> Some (- 1, s)
      | Some p \<Rightarrow> do {
          (fd, s) \<leftarrow> sys_open sys (Some p) 1 s;
          Some (if fd < 0 then - 1 else fd, s)
        })"

definition drv_pwm_start :: "'s syscalls \<Rightarrow> int \<Rightarrow> 's \<Rightarrow> (int \<times> 's) option" where
  "drv_pwm_start sys fd s = do {
     (ret, _, s) \<leftarrow> sys_ioctl sys fd PWMIOC_START (Arg_ulong 0) s;
     Some (if ret < 0 then - 1 else 0, s)
   }"

definition drv_pwm_stop :: "'s syscalls \<Rightarrow> int \<Rightarrow> 's \<Rightarrow> (int \<times> 's) option" where
  "drv_pwm_stop sys fd s = do {
     (ret, _, s) \<leftarrow> sys_ioctl sys fd PWMIOC_STOP (Arg_ulong 0) s;
     Some (if ret < 0 then - 1 else 0, s)
   }"

definition drv_pwm_update_info :: "'s syscalls \<Rightarrow> int \<Rightarrow> pwm_info_s \<Rightarrow> 's \<Rightarrow> (int \<times> 's) option" where
  "drv_pwm_update_info sys fd info s = do {
     (ret, _, s) \<leftarrow> sys_ioctl sys fd PWMIOC_SETCHARACTERISTICS (Arg_pwm_info info) s;
     Some (if ret < 0 then - 1 else 0, s)
   }"

definition drv_pwm_deinit :: "'s syscalls \<Rightarrow> int \<Rightarrow> 's \<Rightarrow> 's option" where
  "drv_pwm_deinit sys fd s = do { (_, s) \<leftarrow> sys_close sys fd s; Some s }"

section \<open>Configuration and throttle values\<close>

abbreviation (input) CONFIG_CHEWIE_NUM_OF_CHANNELS :: nat where "CONFIG_CHEWIE_NUM_OF_CHANNELS \<equiv> 4"
abbreviation (input) CONFIG_CHEWIE_MOTOR_PWM_FREQUENCY :: nat where "CONFIG_CHEWIE_MOTOR_PWM_FREQUENCY \<equiv> 400"
abbreviation (input) PWM_MIN_THROTTLE_PLUSE_US :: nat where "PWM_MIN_THROTTLE_PLUSE_US \<equiv> 1000"
abbreviation (input) PWM_MAX_THROTTLE_PLUSE_US :: nat where "PWM_MAX_THROTTLE_PLUSE_US \<equiv> 2000"
abbreviation (input) PWM_ARMED_THROTTLE_PLUSE_US :: nat where "PWM_ARMED_THROTTLE_PLUSE_US \<equiv> 900"
abbreviation (input) PWM_OUT_DEVICE_PATH_PREFIX :: string where "PWM_OUT_DEVICE_PATH_PREFIX \<equiv> ''/dev/pwm_out_motor_''"

definition CHEWIE_NUM_OF_MOTOR_PWM_DEV :: nat where
  "CHEWIE_NUM_OF_MOTOR_PWM_DEV =
     CONFIG_CHEWIE_NUM_OF_CHANNELS div 4 + (if CONFIG_CHEWIE_NUM_OF_CHANNELS mod 4 = 0 then 0 else 1)"

abbreviation double :: "rat \<Rightarrow> rat" where "double \<equiv> ieee_round 53"

definition PLUSE_US_TO_DUTY :: "nat \<Rightarrow> nat \<Rightarrow> u32" where
  "PLUSE_US_TO_DUTY us freq =
     word_of_int \<lfloor>double (double (of_nat us / double (double (1 / of_nat freq) * 1000000)) * 0xffff)\<rfloor>"

definition MAX_THROTTLE_DUTY :: u32 where
  "MAX_THROTTLE_DUTY = PLUSE_US_TO_DUTY PWM_MAX_THROTTLE_PLUSE_US CONFIG_CHEWIE_MOTOR_PWM_FREQUENCY"

definition MIN_THROTTLE_DUTY :: u32 where
  "MIN_THROTTLE_DUTY = PLUSE_US_TO_DUTY PWM_MIN_THROTTLE_PLUSE_US CONFIG_CHEWIE_MOTOR_PWM_FREQUENCY"

definition ARMED_THROTTLE_DUTY :: u32 where
  "ARMED_THROTTLE_DUTY = PLUSE_US_TO_DUTY PWM_ARMED_THROTTLE_PLUSE_US CONFIG_CHEWIE_MOTOR_PWM_FREQUENCY"

section \<open>The motor driver\<close>

text \<open>\<^verbatim>\<open>_g_motors_state\<close> and the duty cycles of \<^verbatim>\<open>g_motor_state\<close>.\<close>

record motor_state_s =
  pwms_info :: "pwm_info_s list"
  pwm_devs_fd :: "int list"
  freq :: u32
  dutys :: "u32 list"

text \<open>The program: its motor state, the system, and the rests so far.\<close>

record 's app =
  mot :: motor_state_s
  os :: 's
  naps :: "(nat \<times> 's) list"

definition sleep :: "nat \<Rightarrow> 's app \<Rightarrow> 's app" where
  "sleep n a = a\<lparr>naps := naps a @ [(n, os a)]\<rparr>"

definition devpath :: "nat \<Rightarrow> string" where
  "devpath i = PWM_OUT_DEVICE_PATH_PREFIX @ decimal i"

definition set_chan :: "nat \<Rightarrow> nat \<Rightarrow> (pwm_chan_s \<Rightarrow> pwm_chan_s) \<Rightarrow> motor_state_s \<Rightarrow> motor_state_s" where
  "set_chan j k f m =
     m\<lparr>pwms_info := (pwms_info m)[j := (pwms_info m ! j)\<lparr>channels :=
        (channels (pwms_info m ! j))[k := f (channels (pwms_info m ! j) ! k)]\<rparr>]\<rparr>"

text \<open>The initialisation of the two state structures.\<close>

definition init_dev_state :: "nat \<Rightarrow> motor_state_s \<Rightarrow> motor_state_s" where
  "init_dev_state i m =
     fold (\<lambda>j. set_chan i j (\<lambda>c. c\<lparr>channel := of_nat (j + 1), duty := ARMED_THROTTLE_DUTY\<rparr>))
       (filter (\<lambda>j. i * CONFIG_PWM_NCHANNELS + j < CONFIG_CHEWIE_NUM_OF_CHANNELS) [0..<CONFIG_PWM_NCHANNELS])
       (m\<lparr>pwm_devs_fd := (pwm_devs_fd m)[i := - 1],
          pwms_info := (pwms_info m)[i := (pwms_info m ! i)\<lparr>frequency := of_nat CONFIG_CHEWIE_MOTOR_PWM_FREQUENCY\<rparr>]\<rparr>)"

definition init_state :: "motor_state_s \<Rightarrow> motor_state_s" where
  "init_state m =
     (let m = fold init_dev_state [0..<CHEWIE_NUM_OF_MOTOR_PWM_DEV]
                (m\<lparr>freq := of_nat CONFIG_CHEWIE_MOTOR_PWM_FREQUENCY\<rparr>)
      in m\<lparr>dutys := fold (\<lambda>i ds. ds[i := ARMED_THROTTLE_DUTY]) [0..<CONFIG_CHEWIE_NUM_OF_CHANNELS] (dutys m)\<rparr>)"

fun close_all :: "'s syscalls \<Rightarrow> int list \<Rightarrow> 's \<Rightarrow> 's option" where
  "close_all sys [] s = Some s"
| "close_all sys (fd # fds) s = do {
     s \<leftarrow> (if fd \<ge> 0 then do { (_, s) \<leftarrow> sys_close sys fd s; Some s } else Some s);
     close_all sys fds s
   }"

definition errout_with_dev :: "'s syscalls \<Rightarrow> 's app \<Rightarrow> (int \<times> 's app) option" where
  "errout_with_dev sys a = do {
     s \<leftarrow> close_all sys (take CHEWIE_NUM_OF_MOTOR_PWM_DEV (pwm_devs_fd (mot a))) (os a);
     Some (- 1, a\<lparr>os := s\<rparr>)
   }"

fun init_devs :: "'s syscalls \<Rightarrow> nat list \<Rightarrow> 's app \<Rightarrow> (int \<times> 's app) option" where
  "init_devs sys [] a = Some (0, a)"
| "init_devs sys (i # is) a = do {
     (fd, s) \<leftarrow> drv_pwm_init sys (Some (devpath i)) (os a);
     let a = a\<lparr>mot := (mot a)\<lparr>pwm_devs_fd := (pwm_devs_fd (mot a))[i := fd]\<rparr>, os := s\<rparr>;
     if fd < 0 then errout_with_dev sys a
     else do {
       (ret, s) \<leftarrow> drv_pwm_update_info sys fd (pwms_info (mot a) ! i) (os a);
       let a = a\<lparr>os := s\<rparr>;
       if ret < 0 then errout_with_dev sys a
       else do {
         (ret, s) \<leftarrow> drv_pwm_start sys fd (os a);
         let a = a\<lparr>os := s\<rparr>;
         if ret < 0 then errout_with_dev sys a else init_devs sys is a
       }
     }
   }"

definition drv_motor_init :: "'s syscalls \<Rightarrow> 's app \<Rightarrow> (int \<times> 's app) option" where
  "drv_motor_init sys a = init_devs sys [0..<CHEWIE_NUM_OF_MOTOR_PWM_DEV] (a\<lparr>mot := init_state (mot a)\<rparr>)"

text \<open>The duty cycle that a request ends up with.\<close>

definition limit_duty :: "u32 \<Rightarrow> u32" where
  "limit_duty d =
     (let x = d;
          x = (if d > MAX_THROTTLE_DUTY then MAX_THROTTLE_DUTY else x)
      in if d < ARMED_THROTTLE_DUTY then ARMED_THROTTLE_DUTY else x)"

text \<open>One pass of the loop per motor i; j is the device and k its channel, both 8 bit counters.\<close>

fun update_loop :: "'s syscalls \<Rightarrow> nat list \<Rightarrow> u8 \<Rightarrow> u8 \<Rightarrow> 's app \<Rightarrow> 's app option" where
  "update_loop sys [] j k a = Some a"
| "update_loop sys (i # is) j k a =
     (let a = a\<lparr>mot := set_chan (unat j) (unat k) (\<lambda>c. c\<lparr>duty := limit_duty (dutys (mot a) ! i)\<rparr>) (mot a)\<rparr>
      in if k \<ge> of_nat CONFIG_PWM_NCHANNELS - 1
         then do {
           (_, s) \<leftarrow> drv_pwm_update_info sys (pwm_devs_fd (mot a) ! unat j) (pwms_info (mot a) ! unat j) (os a);
           update_loop sys is (j + 1) (- 1 + 1) (a\<lparr>os := s\<rparr>)
         }
         else update_loop sys is j (k + 1) a)"

definition drv_motor_update :: "'s syscalls \<Rightarrow> 's app \<Rightarrow> (int \<times> 's app) option" where
  "drv_motor_update sys a = do {
     a \<leftarrow> update_loop sys [0..<CONFIG_CHEWIE_NUM_OF_CHANNELS] 0 0 a;
     Some (0, a)
   }"

definition set_all_dutys :: "u32 \<Rightarrow> 's app \<Rightarrow> 's app" where
  "set_all_dutys d a =
     a\<lparr>mot := (mot a)\<lparr>dutys := fold (\<lambda>i ds. ds[i := d]) [0..<CONFIG_CHEWIE_NUM_OF_CHANNELS] (dutys (mot a))\<rparr>\<rparr>"

definition drv_motor_esc_init :: "'s syscalls \<Rightarrow> 's app \<Rightarrow> (int \<times> 's app) option" where
  "drv_motor_esc_init sys a = do {
     (ret, a) \<leftarrow> drv_motor_update sys (set_all_dutys MAX_THROTTLE_DUTY a);
     if ret < 0 then Some (- 1, a)
     else do {
       let a = sleep 3 a;
       (ret, a) \<leftarrow> drv_motor_update sys (set_all_dutys MIN_THROTTLE_DUTY a);
       if ret < 0 then Some (- 1, a) else Some (0, sleep 3 a)
     }
   }"

fun deinit_loop :: "'s syscalls \<Rightarrow> nat list \<Rightarrow> 's app \<Rightarrow> 's app option" where
  "deinit_loop sys [] a = Some a"
| "deinit_loop sys (i # is) a = do {
     (_, s) \<leftarrow> drv_pwm_stop sys (pwm_devs_fd (mot a) ! i) (os a);
     s \<leftarrow> drv_pwm_deinit sys (pwm_devs_fd (mot a) ! i) s;
     deinit_loop sys is (a\<lparr>mot := (mot a)\<lparr>pwm_devs_fd := (pwm_devs_fd (mot a))[i := - 1]\<rparr>, os := s\<rparr>)
   }"

definition drv_motor_deinit :: "'s syscalls \<Rightarrow> 's app \<Rightarrow> 's app option" where
  "drv_motor_deinit sys a = deinit_loop sys [0..<CHEWIE_NUM_OF_MOTOR_PWM_DEV] a"

section \<open>The test program\<close>

definition HALF_THROTTLE_DUTY :: u32 where
  "HALF_THROTTLE_DUTY =
     word_of_int \<lfloor>double (of_nat (unat MIN_THROTTLE_DUTY) +
                         double (of_nat (unat (MAX_THROTTLE_DUTY - MIN_THROTTLE_DUTY)) * (1 / 2)))\<rfloor>"

definition errout :: "'s syscalls \<Rightarrow> 's app \<Rightarrow> (int \<times> 's app) option" where
  "errout sys a = do { a \<leftarrow> drv_motor_deinit sys a; Some (- 1, a) }"

text \<open>Setting all motors to one value, updating and sleeping, with the result of the update.\<close>

definition drive :: "'s syscalls \<Rightarrow> u32 \<Rightarrow> 's app \<Rightarrow> (int \<times> 's app) option" where
  "drive sys d a = drv_motor_update sys (set_all_dutys d a)"

definition test_motor :: "'s syscalls \<Rightarrow> 's app \<Rightarrow> (int \<times> 's app) option" where
  "test_motor sys a = do {
     (ret, a) \<leftarrow> drv_motor_init sys a;
     if ret < 0 then errout sys a
     else do {
       (ret, a) \<leftarrow> drv_motor_esc_init sys a;
       if ret < 0 then errout sys a
       else do {
         (_, a) \<leftarrow> drive sys (ARMED_THROTTLE_DUTY + 874) a;
         (_, a) \<leftarrow> drive sys (ARMED_THROTTLE_DUTY + 874 + 874) (sleep 1 a);
         (_, a) \<leftarrow> drive sys (ARMED_THROTTLE_DUTY + 874 + 874 + 874) (sleep 1 a);
         (ret, a) \<leftarrow> drive sys HALF_THROTTLE_DUTY (sleep 1 a);
         if ret < 0 then errout sys a
         else do {
           (ret, a) \<leftarrow> drive sys ARMED_THROTTLE_DUTY (sleep 5 a);
           if ret < 0 then errout sys a
           else do {
             a \<leftarrow> drv_motor_deinit sys (sleep 5 a);
             Some (0, a)
           }
         }
       }
     }
   }"

text \<open>The entry point of the unit test build.\<close>

definition chewie_test_main :: "'s syscalls \<Rightarrow> 's app \<Rightarrow> (int \<times> 's app) option" where
  "chewie_test_main sys a = do { (_, a) \<leftarrow> test_motor sys a; Some (0, a) }"

end
