(* ===== verification/Mm_Memory.thy ===== *)
theory Mm_Memory
  imports Prelude
begin

text \<open>
  The memory of the processor as bytes, with the 32 bit loads and stores (little endian) that the compiler makes
  of accesses to a field, and the byte loops of \<^verbatim>\<open>memcpy\<close> and \<^verbatim>\<open>memset\<close>.  Addresses are natural numbers; a store
  keeps the low 32 bits of a value.
\<close>

section \<open>Memory\<close>

type_synonym mem = "nat \<Rightarrow> u8"

definition ld :: "nat \<Rightarrow> mem \<Rightarrow> nat" where
  "ld a m = unat (m a) + 256 * (unat (m (a + 1)) + 256 * (unat (m (a + 2)) + 256 * unat (m (a + 3))))"

definition st :: "nat \<Rightarrow> nat \<Rightarrow> mem \<Rightarrow> mem" where
  "st a v m = m(a := word_of_nat v, a + 1 := word_of_nat (v div 256), a + 2 := word_of_nat (v div 65536),
                a + 3 := word_of_nat (v div 16777216))"

fun memcpy :: "nat \<Rightarrow> nat \<Rightarrow> nat \<Rightarrow> mem \<Rightarrow> mem" where
  "memcpy pout pin 0 m = m"
| "memcpy pout pin (Suc n) m = memcpy (pout + 1) (pin + 1) n (m(pout := m pin))"

fun memset :: "nat \<Rightarrow> u8 \<Rightarrow> nat \<Rightarrow> mem \<Rightarrow> mem" where
  "memset p c 0 m = m"
| "memset p c (Suc n) m = memset (p + 1) c n (m(p := c))"

section \<open>Lemmas\<close>

lemma word4_lt:
  "\<lbrakk>a < 256; b < 256; c < 256; d < 256\<rbrakk> \<Longrightarrow> a + 256 * (b + 256 * (c + 256 * d)) < (4294967296 :: nat)"
  by (simp add: algebra_simps)

lemma ld_lt [simp]: "ld a m < 4294967296"
  unfolding ld_def by (rule word4_lt) simp_all

lemma unat_byte: "unat (word_of_nat v :: u8) = v mod 256"
  by (simp add: unat_of_nat)

lemma bytes_of_word:
  assumes "v < (4294967296 :: nat)"
  shows "v mod 256 + 256 * (v div 256 mod 256 + 256 * (v div 65536 mod 256 + 256 * (v div 16777216 mod 256))) = v"
proof -
  have "v div 16777216 < 256" using assms by simp
  moreover have "v div 65536 = 256 * (v div 16777216) + v div 65536 mod 256"
    using mult_div_mod_eq [of 256 "v div 65536"] by (simp add: div_mult2_eq [symmetric])
  moreover have "v div 256 = 256 * (v div 65536) + v div 256 mod 256"
    using mult_div_mod_eq [of 256 "v div 256"] by (simp add: div_mult2_eq [symmetric])
  moreover have "v = 256 * (v div 256) + v mod 256" by simp
  ultimately show ?thesis by (simp add: algebra_simps)
qed

lemma ld_st [simp]: "v < 4294967296 \<Longrightarrow> ld a (st a v m) = v"
  using bytes_of_word [of v] by (simp add: ld_def st_def unat_byte)

lemma ld_st_other: "a + 4 \<le> b \<or> b + 4 \<le> a \<Longrightarrow> ld a (st b v m) = ld a m"
  by (auto simp: ld_def st_def)

lemma st_other: "a < b \<or> b + 4 \<le> a \<Longrightarrow> st b v m a = m a"
  by (auto simp: st_def)

lemma ld_cong: "(\<And>i. i < 4 \<Longrightarrow> m' (a + i) = m (a + i)) \<Longrightarrow> ld a m' = ld a m"
proof -
  assume *: "\<And>i. i < 4 \<Longrightarrow> m' (a + i) = m (a + i)"
  show ?thesis using * [of 0] * [of 1] * [of 2] * [of 3] by (simp add: ld_def)
qed

lemma memset_apply: "memset p c n m a = (if p \<le> a \<and> a < p + n then c else m a)"
proof (induction p c n m rule: memset.induct)
  case (2 p c n m)
  show ?case unfolding memset.simps 2 by auto
qed auto

text \<open>The copy goes upwards: it moves a block correctly when the target is below the source.\<close>

lemma memcpy_apply:
  "pout \<le> pin \<or> pin + n \<le> pout \<Longrightarrow>
   memcpy pout pin n m a = (if pout \<le> a \<and> a < pout + n then m (pin + (a - pout)) else m a)"
proof (induction pout pin n m rule: memcpy.induct)
  case (2 pout pin n m)
  have "memcpy (pout + 1) (pin + 1) n (m(pout := m pin)) a =
    (if pout + 1 \<le> a \<and> a < pout + 1 + n then (m(pout := m pin)) (pin + 1 + (a - (pout + 1))) else (m(pout := m pin)) a)"
    using 2(2) by (intro 2(1)) auto
  then show ?case unfolding memcpy.simps using 2(2) by (auto simp: Suc_diff_Suc)
qed auto

end
