(* ===== verification/Semaphore.thy ===== *)
theory Semaphore
  imports Prelude
begin

text \<open>
  Counting semaphores as one caller sees them (\<^verbatim>\<open>sched/semaphore/sem_wait.c\<close> and
  \<^verbatim>\<open>sem_post.c\<close>, without priority inheritance).  A wait on an available semaphore takes one
  count.  Otherwise the caller blocks; how each blocking wait of the future ends is recorded in
  \<^verbatim>\<open>wakes\<close>: 0 when another task posts and hands the count over, a negated error number when a
  signal interrupts the wait.  In both cases the count is back at the value it had when the
  caller blocked (the wait decremented it, the post or the cancellation incremented it).  An
  empty list stands for a wait that never ends.
\<close>

section \<open>Model\<close>

record sem_t =
  semcount :: int
  wakes :: "int list"

definition nxsem_init :: "int \<Rightarrow> int list \<Rightarrow> sem_t" where
  "nxsem_init v ws = \<lparr>semcount = v, wakes = ws\<rparr>"

definition nxsem_wait :: "sem_t \<Rightarrow> (int \<times> sem_t) option" where
  "nxsem_wait s =
     (if 0 < semcount s then Some (OK, s\<lparr>semcount := semcount s - 1\<rparr>)
      else case wakes s of
             [] \<Rightarrow> None
           | r # rs \<Rightarrow> Some (r, s\<lparr>wakes := rs\<rparr>))"

definition nxsem_post :: "sem_t \<Rightarrow> int \<times> sem_t" where
  "nxsem_post s = (OK, s\<lparr>semcount := semcount s + 1\<rparr>)"

text \<open>The loop \<^verbatim>\<open>do { ret = nxsem_wait(sem); } while (ret == -EINTR);\<close> that the inode tree and the
  file table use: signals do not end the wait.\<close>

function sem_take_loop :: "sem_t \<Rightarrow> sem_t option" where
  "sem_take_loop s =
     (case nxsem_wait s of
        None \<Rightarrow> None
      | Some (ret, s') \<Rightarrow> if ret = - EINTR then sem_take_loop s' else Some s')"
  by pat_completeness auto

termination
  by (relation "measure (\<lambda>s. length (wakes s))")
    (auto simp: nxsem_wait_def split: if_splits list.splits)

declare sem_take_loop.simps [simp del]

section \<open>Lemmas\<close>

lemma nxsem_wait_free [simp]:
  "0 < semcount s \<Longrightarrow> nxsem_wait s = Some (OK, s\<lparr>semcount := semcount s - 1\<rparr>)"
  by (simp add: nxsem_wait_def)

lemma nxsem_post_sel [simp]:
  "fst (nxsem_post s) = OK" "semcount (snd (nxsem_post s)) = semcount s + 1"
  "wakes (snd (nxsem_post s)) = wakes s"
  by (simp_all add: nxsem_post_def)

lemma nxsem_wait_post:
  "0 < semcount s \<Longrightarrow> nxsem_wait s = Some (r, s') \<Longrightarrow> snd (nxsem_post s') = s"
  by (auto simp: nxsem_post_def)

lemma nxsem_take_give [simp]:
  "snd (nxsem_post (s\<lparr>semcount := semcount s - 1\<rparr>)) = s"
  by (simp add: nxsem_post_def)

lemma sem_take_free [simp]:
  "0 < semcount s \<Longrightarrow> sem_take_loop s = Some (s\<lparr>semcount := semcount s - 1\<rparr>)"
  by (subst sem_take_loop.simps) simp

end
