(* ===== verification/Mm_Heap.thy ===== *)
theory Mm_Heap
  imports Mm_Memory Semaphore
begin

text \<open>
  The memory manager (\<^verbatim>\<open>mm/mm_heap\<close>) on the bytes of the memory.  A heap has one or two regions that are tiled
  by chunks; each chunk starts with its size and the size of the chunk before it, whose top bit says that the
  chunk itself is allocated.  The free chunks are in one doubly linked list that runs through an
  array of list heads, one for each power of two; the links of a free chunk are the first two words of its data.
  The array is in memory at the address \<^verbatim>\<open>mm_nodelist\<close>.

  The sizes of the code are 32 bit numbers: sums and differences that are kept in a variable are reduced
  modulo \<open>2 ^ 32\<close>.  Addresses are natural numbers; the null pointer is 0.
\<close>

section \<open>Constants and structures\<close>

abbreviation (input) MM_MIN_SHIFT :: nat where "MM_MIN_SHIFT \<equiv> 4"
abbreviation (input) MM_MIN_CHUNK :: nat where "MM_MIN_CHUNK \<equiv> 16"
abbreviation (input) MM_MAX_CHUNK :: nat where "MM_MAX_CHUNK \<equiv> 4194304"
abbreviation (input) MM_NNODES :: nat where "MM_NNODES \<equiv> 19"
abbreviation (input) MM_GRAN_MASK :: nat where "MM_GRAN_MASK \<equiv> 15"
abbreviation (input) MM_ALLOC_BIT :: nat where "MM_ALLOC_BIT \<equiv> 2147483648"
abbreviation (input) SIZEOF_MM_ALLOCNODE :: nat where "SIZEOF_MM_ALLOCNODE \<equiv> 8"
abbreviation (input) SIZEOF_MM_FREENODE :: nat where "SIZEOF_MM_FREENODE \<equiv> 16"
abbreviation (input) CONFIG_MM_REGIONS :: nat where "CONFIG_MM_REGIONS \<equiv> 2"
abbreviation (input) NO_HOLDER :: int where "NO_HOLDER \<equiv> - 1"

definition not32 :: "nat \<Rightarrow> nat" where
  "not32 a = 4294967295 - a"

definition sub32 :: "nat \<Rightarrow> nat \<Rightarrow> nat" where
  "sub32 a b = (a + 4294967296 - b) mod 4294967296"

definition MM_ALIGN_UP :: "nat \<Rightarrow> nat" where
  "MM_ALIGN_UP a = (a + MM_GRAN_MASK) mod 4294967296 AND not32 MM_GRAN_MASK"

definition MM_ALIGN_DOWN :: "nat \<Rightarrow> nat" where
  "MM_ALIGN_DOWN a = a AND not32 MM_GRAN_MASK"

text \<open>The fields of \<^verbatim>\<open>struct mm_freenode_s\<close>, of which \<^verbatim>\<open>struct mm_allocnode_s\<close> has the first two.\<close>

definition nsize :: "nat \<Rightarrow> mem \<Rightarrow> nat" where
  "nsize n m = ld n m"

definition npreceding :: "nat \<Rightarrow> mem \<Rightarrow> nat" where
  "npreceding n m = ld (n + 4) m"

definition nflink :: "nat \<Rightarrow> mem \<Rightarrow> nat" where
  "nflink n m = ld (n + 8) m"

definition nblink :: "nat \<Rightarrow> mem \<Rightarrow> nat" where
  "nblink n m = ld (n + 12) m"

definition put_size :: "nat \<Rightarrow> nat \<Rightarrow> mem \<Rightarrow> mem" where
  "put_size n v m = st n v m"

definition put_preceding :: "nat \<Rightarrow> nat \<Rightarrow> mem \<Rightarrow> mem" where
  "put_preceding n v m = st (n + 4) v m"

definition put_flink :: "nat \<Rightarrow> nat \<Rightarrow> mem \<Rightarrow> mem" where
  "put_flink n v m = st (n + 8) v m"

definition put_blink :: "nat \<Rightarrow> nat \<Rightarrow> mem \<Rightarrow> mem" where
  "put_blink n v m = st (n + 12) v m"

text \<open>The test and the update of the size of the preceding chunk that keeps the allocation bit.\<close>

definition is_alloc :: "nat \<Rightarrow> mem \<Rightarrow> bool" where
  "is_alloc n m \<longleftrightarrow> npreceding n m AND MM_ALLOC_BIT \<noteq> 0"

definition update_preceding :: "nat \<Rightarrow> nat \<Rightarrow> mem \<Rightarrow> mem" where
  "update_preceding n v m = put_preceding n (v OR (npreceding n m AND MM_ALLOC_BIT)) m"

record mm_heap_s =
  mm_semaphore :: sem_t
  mm_holder :: int
  mm_counts_held :: int
  mm_heapsize :: nat
  mm_heapstart :: "nat list"
  mm_heapend :: "nat list"
  mm_nregions :: nat
  mm_nodelist :: nat

type_synonym mm_state = "mm_heap_s \<times> mem"

definition node_head :: "mm_heap_s \<Rightarrow> nat \<Rightarrow> nat" where
  "node_head heap i = mm_nodelist heap + SIZEOF_MM_FREENODE * i"

section \<open>The semaphore of the heap\<close>

definition mm_seminitialize :: "int list \<Rightarrow> mm_heap_s \<Rightarrow> mm_heap_s" where
  "mm_seminitialize ws heap =
     heap\<lparr>mm_semaphore := nxsem_init 1 ws, mm_holder := NO_HOLDER, mm_counts_held := 0\<rparr>"

definition nxsem_trywait :: "sem_t \<Rightarrow> int \<times> sem_t" where
  "nxsem_trywait s = (if 0 < semcount s then (OK, s\<lparr>semcount := semcount s - 1\<rparr>) else (- EAGAIN, s))"

definition mm_trysemaphore :: "int \<Rightarrow> mm_heap_s \<Rightarrow> int \<times> mm_heap_s" where
  "mm_trysemaphore my_pid heap =
     (if mm_holder heap = my_pid then (OK, heap\<lparr>mm_counts_held := mm_counts_held heap + 1\<rparr>)
      else let (ret, s) = nxsem_trywait (mm_semaphore heap)
           in if ret < 0 then (ret, heap\<lparr>mm_semaphore := s\<rparr>)
              else (OK, heap\<lparr>mm_semaphore := s, mm_holder := my_pid, mm_counts_held := 1\<rparr>))"

definition mm_takesemaphore :: "int \<Rightarrow> mm_heap_s \<Rightarrow> mm_heap_s option" where
  "mm_takesemaphore my_pid heap =
     (if mm_holder heap = my_pid then Some (heap\<lparr>mm_counts_held := mm_counts_held heap + 1\<rparr>)
      else do {
        s \<leftarrow> sem_take_loop (mm_semaphore heap);
        Some (heap\<lparr>mm_semaphore := s, mm_holder := my_pid, mm_counts_held := 1\<rparr>)
      })"

definition mm_givesemaphore :: "mm_heap_s \<Rightarrow> mm_heap_s" where
  "mm_givesemaphore heap =
     (if 1 < mm_counts_held heap then heap\<lparr>mm_counts_held := mm_counts_held heap - 1\<rparr>
      else heap\<lparr>mm_holder := NO_HOLDER, mm_counts_held := 0, mm_semaphore := snd (nxsem_post (mm_semaphore heap))\<rparr>)"

section \<open>The list of free chunks\<close>

function ndx_loop :: "nat \<Rightarrow> nat \<Rightarrow> nat" where
  "ndx_loop sz ndx = (if 1 < sz then ndx_loop (drop_bit 1 sz) (ndx + 1) else ndx)"
  by pat_completeness auto

termination
  by (relation "measure fst") (auto simp: drop_bit_Suc)

declare ndx_loop.simps [simp del]

definition mm_size2ndx :: "nat \<Rightarrow> nat" where
  "mm_size2ndx sz = (if MM_MAX_CHUNK \<le> sz then MM_NNODES - 1 else ndx_loop (drop_bit MM_MIN_SHIFT sz) 0)"

text \<open>The place of a chunk of the given size: the node before it and the one behind it.\<close>

partial_function (option) chunk_place :: "nat \<Rightarrow> nat \<Rightarrow> nat \<Rightarrow> mem \<Rightarrow> (nat \<times> nat) option" where
  "chunk_place sz prev next m =
     (if next \<noteq> 0 \<and> nsize next m \<noteq> 0 \<and> nsize next m < sz then chunk_place sz next (nflink next m) m
      else Some (prev, next))"

declare chunk_place.simps [code]

definition mm_addfreechunk :: "mm_heap_s \<Rightarrow> nat \<Rightarrow> mem \<Rightarrow> mem option" where
  "mm_addfreechunk heap node m = do {
     let head = node_head heap (mm_size2ndx (nsize node m));
     (prev, next) \<leftarrow> chunk_place (nsize node m) head (nflink head m) m;
     let m = put_flink prev node m;
     let m = put_blink node prev m;
     let m = put_flink node next m;
     Some (if next \<noteq> 0 then put_blink next node m else m)
   }"

text \<open>The removal of a node from the list, which the code writes out in each place.\<close>

definition unlink_node :: "nat \<Rightarrow> mem \<Rightarrow> mem" where
  "unlink_node node m =
     (let m = put_flink (nblink node m) (nflink node m) m
      in if nflink node m \<noteq> 0 then put_blink (nflink node m) (nblink node m) m else m)"

section \<open>Allocation\<close>

partial_function (option) find_chunk :: "nat \<Rightarrow> nat \<Rightarrow> mem \<Rightarrow> nat option" where
  "find_chunk alignsize node m =
     (if node \<noteq> 0 \<and> nsize node m < alignsize then find_chunk alignsize (nflink node m) m else Some node)"

declare find_chunk.simps [code]

text \<open>The chunk that has been found is taken out of the list, split when the rest is large enough for a chunk,
  and marked as allocated.\<close>

definition take_chunk :: "mm_heap_s \<Rightarrow> nat \<Rightarrow> nat \<Rightarrow> mem \<Rightarrow> mem option" where
  "take_chunk heap alignsize node m = do {
     let m = unlink_node node m;
     let remaining = sub32 (nsize node m) alignsize;
     m \<leftarrow> (if SIZEOF_MM_FREENODE \<le> remaining
       then do {
         let next = node + nsize node m;
         let remainder = node + alignsize;
         let m = put_size remainder remaining m;
         let m = put_preceding remainder alignsize m;
         let m = put_size node alignsize m;
         let m = update_preceding next remaining m;
         mm_addfreechunk heap remainder m
       }
       else Some m);
     Some (put_preceding node (npreceding node m OR MM_ALLOC_BIT) m)
   }"

definition mm_malloc :: "int \<Rightarrow> nat \<Rightarrow> mm_state \<Rightarrow> (nat \<times> mm_state) option" where
  "mm_malloc pid sz s =
     (if sz < 1 then Some (0, s)
      else do {
        let (heap, m) = s;
        let alignsize = MM_ALIGN_UP (sz + SIZEOF_MM_ALLOCNODE);
        heap \<leftarrow> mm_takesemaphore pid heap;
        let ndx = (if MM_MAX_CHUNK \<le> alignsize then MM_NNODES - 1 else mm_size2ndx alignsize);
        node \<leftarrow> find_chunk alignsize (nflink (node_head heap ndx) m) m;
        (ret, m) \<leftarrow> (if node \<noteq> 0
          then do { m \<leftarrow> take_chunk heap alignsize node m; Some (node + SIZEOF_MM_ALLOCNODE, m) }
          else Some (0, m));
        Some (ret, mm_givesemaphore heap, m)
      })"

section \<open>Release\<close>

text \<open>The chunk behind node is merged when it is free; the result is the next chunk after that.\<close>

definition merge_next :: "nat \<Rightarrow> mem \<Rightarrow> nat \<times> mem" where
  "merge_next node m =
     (let next = node + nsize node m
      in if \<not> is_alloc next m
         then let andbeyond = next + nsize next m;
                  m = unlink_node next m;
                  m = put_size node (nsize node m + nsize next m) m;
                  m = update_preceding andbeyond (nsize node m) m
              in (andbeyond, m)
         else (next, m))"

text \<open>The chunk before node is merged when it is free; the result is the chunk that node belongs to then.\<close>

definition merge_prev :: "nat \<Rightarrow> nat \<Rightarrow> mem \<Rightarrow> nat \<times> mem" where
  "merge_prev node next m =
     (let prev = node - npreceding node m
      in if \<not> is_alloc prev m
         then let m = unlink_node prev m;
                  m = put_size prev (nsize prev m + nsize node m) m;
                  m = update_preceding next (nsize prev m) m
              in (prev, m)
         else (node, m))"

definition mm_free :: "int \<Rightarrow> nat \<Rightarrow> mm_state \<Rightarrow> mm_state option" where
  "mm_free pid mem s =
     (if mem = 0 then Some s
      else do {
        let (heap, m) = s;
        heap \<leftarrow> mm_takesemaphore pid heap;
        let node = mem - SIZEOF_MM_ALLOCNODE;
        let m = put_preceding node (npreceding node m AND not32 MM_ALLOC_BIT) m;
        let (next, m) = merge_next node m;
        let (node, m) = merge_prev node next m;
        m \<leftarrow> mm_addfreechunk heap node m;
        Some (mm_givesemaphore heap, m)
      })"

section \<open>Initialisation\<close>

definition mm_addregion :: "nat \<Rightarrow> nat \<Rightarrow> mm_state \<Rightarrow> mm_state option" where
  "mm_addregion heapstart heapsize s = do {
     let (heap, m) = s;
     let IDX = mm_nregions heap;
     let heapbase = MM_ALIGN_UP heapstart;
     let heapend = MM_ALIGN_DOWN ((heapstart + heapsize) mod 4294967296);
     let heapsize = sub32 heapend heapbase;
     let heap = heap\<lparr>mm_heapsize := (mm_heapsize heap + heapsize) mod 4294967296\<rparr>;
     if IDX < CONFIG_MM_REGIONS
     then do {
       let heap = heap\<lparr>mm_heapstart := (mm_heapstart heap)[IDX := heapbase]\<rparr>;
       let m = put_size heapbase SIZEOF_MM_ALLOCNODE m;
       let m = put_preceding heapbase MM_ALLOC_BIT m;
       let node = heapbase + SIZEOF_MM_ALLOCNODE;
       let m = put_size node (sub32 heapsize (2 * SIZEOF_MM_ALLOCNODE)) m;
       let m = put_preceding node SIZEOF_MM_ALLOCNODE m;
       let last = heapend - SIZEOF_MM_ALLOCNODE;
       let heap = heap\<lparr>mm_heapend := (mm_heapend heap)[IDX := last]\<rparr>;
       let m = put_size last SIZEOF_MM_ALLOCNODE m;
       let m = put_preceding last (nsize node m OR MM_ALLOC_BIT) m;
       let heap = heap\<lparr>mm_nregions := IDX + 1\<rparr>;
       m \<leftarrow> mm_addfreechunk heap node m;
       Some (heap, m)
     }
     else None
   }"

fun link_heads :: "mm_heap_s \<Rightarrow> nat list \<Rightarrow> mem \<Rightarrow> mem" where
  "link_heads heap [] m = m"
| "link_heads heap (i # is) m =
     link_heads heap is (put_blink (node_head heap i) (node_head heap (i - 1))
       (put_flink (node_head heap (i - 1)) (node_head heap i) m))"

definition mm_initialize :: "int list \<Rightarrow> nat \<Rightarrow> nat \<Rightarrow> mm_state \<Rightarrow> mm_state option" where
  "mm_initialize ws heapstart heapsize s = do {
     let (heap, m) = s;
     let heap = heap\<lparr>mm_heapsize := 0, mm_nregions := 0\<rparr>;
     let m = memset (mm_nodelist heap) 0 (SIZEOF_MM_FREENODE * MM_NNODES) m;
     let m = link_heads heap [1..<MM_NNODES] m;
     let heap = mm_seminitialize ws heap;
     mm_addregion heapstart heapsize (heap, m)
   }"

section \<open>Reallocation\<close>

definition mm_shrinkchunk :: "mm_heap_s \<Rightarrow> nat \<Rightarrow> nat \<Rightarrow> mem \<Rightarrow> mem option" where
  "mm_shrinkchunk heap node sz m =
     (let next = node + nsize node m
      in if \<not> is_alloc next m
         then let andbeyond = next + nsize next m;
                  m = unlink_node next m;
                  newnode = node + sz;
                  m = put_size newnode (sub32 (nsize next m + nsize node m) sz) m;
                  m = put_preceding newnode sz m;
                  m = put_size node sz m;
                  m = update_preceding andbeyond (nsize newnode m) m
              in mm_addfreechunk heap newnode m
         else if (sz + SIZEOF_MM_FREENODE) mod 4294967296 \<le> nsize node m
         then let newnode = node + sz;
                  m = put_size newnode (sub32 (nsize node m) sz) m;
                  m = put_preceding newnode sz m;
                  m = put_size node sz m;
                  m = put_preceding next (nsize newnode m OR MM_ALLOC_BIT) m
              in mm_addfreechunk heap newnode m
         else Some m)"

text \<open>How many bytes are taken from the free chunk before and from the one behind.\<close>

definition realloc_takes :: "nat \<Rightarrow> nat \<Rightarrow> nat \<Rightarrow> nat \<times> nat" where
  "realloc_takes needed prevsize nextsize =
     (let (takeprev, takenext, needed) =
        (if 0 < prevsize \<and> (prevsize \<le> nextsize \<or> nextsize < 1)
         then if prevsize < needed then (prevsize, needed - prevsize, 0) else (needed, 0, 0)
         else (0, 0, needed))
      in if 0 < nextsize \<and> needed \<noteq> 0
         then if nextsize < needed then (needed - nextsize, nextsize) else (0, needed)
         else (takeprev, takenext))"

text \<open>The extension into the chunk before; the results are the new address of the data, the chunk and its size.\<close>

definition realloc_prev ::
  "mm_heap_s \<Rightarrow> nat \<Rightarrow> nat \<Rightarrow> nat \<Rightarrow> nat \<Rightarrow> nat \<Rightarrow> nat \<Rightarrow> nat \<Rightarrow> mem \<Rightarrow> (nat \<times> nat \<times> nat \<times> mem) option" where
  "realloc_prev heap oldmem oldnode oldsize prev prevsize next takeprev m =
     (if takeprev \<noteq> 0
      then do {
        let m = unlink_node prev m;
        let newnode = oldnode - takeprev;
        m \<leftarrow> (if takeprev < prevsize
          then do {
            let m = put_size prev (sub32 (nsize prev m) takeprev) m;
            let m = put_size newnode (oldsize + takeprev) m;
            let m = put_preceding newnode (nsize prev m OR MM_ALLOC_BIT) m;
            let m = update_preceding next (nsize newnode m) m;
            mm_addfreechunk heap prev m
          }
          else do {
            let m = put_size newnode (nsize newnode m + oldsize) m;
            let m = put_preceding newnode (npreceding newnode m OR MM_ALLOC_BIT) m;
            Some (update_preceding next (nsize newnode m) m)
          });
        let oldsize = nsize newnode m;
        let newmem = newnode + SIZEOF_MM_ALLOCNODE;
        Some (newmem, newnode, oldsize, memcpy newmem oldmem (sub32 oldsize SIZEOF_MM_ALLOCNODE) m)
      }
      else Some (oldmem, oldnode, oldsize, m))"

text \<open>The extension into the chunk behind.\<close>

definition realloc_next :: "mm_heap_s \<Rightarrow> nat \<Rightarrow> nat \<Rightarrow> nat \<Rightarrow> nat \<Rightarrow> nat \<Rightarrow> mem \<Rightarrow> mem option" where
  "realloc_next heap oldnode oldsize next nextsize takenext m =
     (if takenext \<noteq> 0
      then let andbeyond = next + nextsize;
               m = unlink_node next m;
               m = put_size oldnode (oldsize + takenext) m;
               newnode = oldnode + nsize oldnode m
           in if takenext < nextsize
              then let m = put_size newnode (nextsize - takenext) m;
                       m = put_preceding newnode (nsize oldnode m) m;
                       m = update_preceding andbeyond (nsize newnode m) m
                   in mm_addfreechunk heap newnode m
              else Some (update_preceding andbeyond (nsize oldnode m) m)
      else Some m)"

definition mm_realloc :: "int \<Rightarrow> nat \<Rightarrow> nat \<Rightarrow> mm_state \<Rightarrow> (nat \<times> mm_state) option" where
  "mm_realloc pid oldmem sz s =
     (if oldmem = 0 then mm_malloc pid sz s
      else if sz < 1 then do { s \<leftarrow> mm_free pid oldmem s; Some (0, s) }
      else do {
        let (heap, m) = s;
        let newsize = MM_ALIGN_UP (sz + SIZEOF_MM_ALLOCNODE);
        let oldnode = oldmem - SIZEOF_MM_ALLOCNODE;
        heap \<leftarrow> mm_takesemaphore pid heap;
        let oldsize = nsize oldnode m;
        if newsize \<le> oldsize
        then do {
          m \<leftarrow> (if newsize < oldsize then mm_shrinkchunk heap oldnode newsize m else Some m);
          Some (oldmem, mm_givesemaphore heap, m)
        }
        else do {
          let next = oldnode + nsize oldnode m;
          let nextsize = (if is_alloc next m then 0 else nsize next m);
          let prev = oldnode - (npreceding oldnode m AND not32 MM_ALLOC_BIT);
          let prevsize = (if is_alloc prev m then 0 else nsize prev m);
          if newsize \<le> (nextsize + prevsize + oldsize) mod 4294967296
          then do {
            let (takeprev, takenext) = realloc_takes (newsize - oldsize) prevsize nextsize;
            (newmem, oldnode, oldsize, m) \<leftarrow> realloc_prev heap oldmem oldnode oldsize prev prevsize next takeprev m;
            m \<leftarrow> realloc_next heap oldnode oldsize next nextsize takenext m;
            Some (newmem, mm_givesemaphore heap, m)
          }
          else do {
            (newmem, heap, m) \<leftarrow> mm_malloc pid sz (mm_givesemaphore heap, m);
            if newmem \<noteq> 0
            then do {
              s \<leftarrow> mm_free pid oldmem (heap, memcpy newmem oldmem oldsize m);
              Some (newmem, s)
            }
            else Some (newmem, heap, m)
          }
        }
      })"

section \<open>Aligned and cleared memory\<close>

text \<open>The part of \<^verbatim>\<open>mm_memalign\<close> that frees the leading bytes: the new start of the data, the chunk, and the
  size of the data.\<close>

definition align_chunk_start :: "mm_heap_s \<Rightarrow> nat \<Rightarrow> nat \<Rightarrow> nat \<Rightarrow> nat \<Rightarrow> mem \<Rightarrow> (nat \<times> nat \<times> nat \<times> mem) option" where
  "align_chunk_start heap alignment rawchunk node allocsize m =
     (let mask = sub32 alignment 1;
          alignedchunk = (rawchunk + mask) mod 4294967296 AND not32 mask
      in if alignedchunk \<noteq> rawchunk
         then let next = node + nsize node m;
                  newnode = sub32 alignedchunk SIZEOF_MM_ALLOCNODE;
                  precedingsize = sub32 newnode node;
                  alignedchunk = (if precedingsize < SIZEOF_MM_FREENODE then (alignedchunk + alignment) mod 4294967296
                                  else alignedchunk);
                  newnode = sub32 alignedchunk SIZEOF_MM_ALLOCNODE;
                  precedingsize = sub32 newnode node;
                  m = put_size newnode (sub32 next newnode) m;
                  m = put_preceding newnode (precedingsize OR MM_ALLOC_BIT) m;
                  m = put_size node precedingsize m;
                  m = put_preceding node (npreceding node m AND not32 MM_ALLOC_BIT) m;
                  m = update_preceding next (nsize newnode m) m;
                  allocsize = sub32 (nsize newnode m) SIZEOF_MM_ALLOCNODE
              in do { m \<leftarrow> mm_addfreechunk heap node m; Some (alignedchunk, newnode, allocsize, m) }
         else Some (alignedchunk, node, allocsize, m))"

definition mm_memalign :: "int \<Rightarrow> nat \<Rightarrow> nat \<Rightarrow> mm_state \<Rightarrow> (nat \<times> mm_state) option" where
  "mm_memalign pid alignment sz s =
     (if alignment \<le> MM_MIN_CHUNK then mm_malloc pid sz s
      else do {
        let sz = MM_ALIGN_UP sz;
        let allocsize = (sz + 2 * alignment) mod 4294967296;
        (rawchunk, heap, m) \<leftarrow> mm_malloc pid allocsize s;
        if rawchunk = 0 then Some (0, heap, m)
        else do {
          heap \<leftarrow> mm_takesemaphore pid heap;
          let node = rawchunk - SIZEOF_MM_ALLOCNODE;
          (alignedchunk, node, allocsize, m) \<leftarrow> align_chunk_start heap alignment rawchunk node allocsize m;
          let sz = MM_ALIGN_UP (sz + SIZEOF_MM_ALLOCNODE);
          m \<leftarrow> (if sz < allocsize then mm_shrinkchunk heap node sz m else Some m);
          Some (alignedchunk, mm_givesemaphore heap, m)
        }
      })"

definition mm_zalloc :: "int \<Rightarrow> nat \<Rightarrow> mm_state \<Rightarrow> (nat \<times> mm_state) option" where
  "mm_zalloc pid sz s = do {
     (alloc, heap, m) \<leftarrow> mm_malloc pid sz s;
     Some (alloc, heap, if alloc \<noteq> 0 then memset alloc 0 sz m else m)
   }"

definition mm_calloc :: "int \<Rightarrow> nat \<Rightarrow> nat \<Rightarrow> mm_state \<Rightarrow> (nat \<times> mm_state) option" where
  "mm_calloc pid n elem_size s =
     (if 0 < n \<and> 0 < elem_size \<and> n \<le> 4294967295 div elem_size then mm_zalloc pid (n * elem_size) s
      else Some (0, s))"

section \<open>Information and extension\<close>

record mallinfo =
  arena :: nat
  ordblks :: int
  mxordblk :: nat
  uordblks :: nat
  fordblks :: nat

text \<open>The nodes of one region are added up.\<close>

partial_function (option) count_nodes :: "nat \<Rightarrow> nat \<Rightarrow> mem \<Rightarrow> mallinfo \<Rightarrow> mallinfo option" where
  "count_nodes node heapend m info =
     (if node < heapend
      then count_nodes (node + nsize node m) heapend m
        (if is_alloc node m then info\<lparr>uordblks := (uordblks info + nsize node m) mod 4294967296\<rparr>
         else info\<lparr>ordblks := ordblks info + 1, mxordblk := max (mxordblk info) (nsize node m),
                   fordblks := (fordblks info + nsize node m) mod 4294967296\<rparr>)
      else Some info)"

declare count_nodes.simps [code]

fun count_regions :: "int \<Rightarrow> nat list \<Rightarrow> mm_state \<Rightarrow> mallinfo \<Rightarrow> (mallinfo \<times> mm_heap_s) option" where
  "count_regions pid [] (heap, m) info = Some (info, heap)"
| "count_regions pid (region # regions) (heap, m) info = do {
     heap \<leftarrow> mm_takesemaphore pid heap;
     info \<leftarrow> count_nodes (mm_heapstart heap ! region) (mm_heapend heap ! region) m info;
     count_regions pid regions (mm_givesemaphore heap, m)
       (info\<lparr>uordblks := (uordblks info + SIZEOF_MM_ALLOCNODE) mod 4294967296\<rparr>)
   }"

definition mm_mallinfo :: "int \<Rightarrow> mm_state \<Rightarrow> (int \<times> mallinfo \<times> mm_state) option" where
  "mm_mallinfo pid s = do {
     let (heap, m) = s;
     (info, heap) \<leftarrow> count_regions pid [0..<mm_nregions heap] (heap, m)
       \<lparr>arena = 0, ordblks = 0, mxordblk = 0, uordblks = 0, fordblks = 0\<rparr>;
     Some (OK, info\<lparr>arena := mm_heapsize heap\<rparr>, heap, m)
   }"

definition mm_extend :: "int \<Rightarrow> nat \<Rightarrow> nat \<Rightarrow> nat \<Rightarrow> mm_state \<Rightarrow> mm_state option" where
  "mm_extend pid mem sz region s = do {
     let (heap, m) = s;
     let blockend = (mem + sz) mod 4294967296;
     heap \<leftarrow> mm_takesemaphore pid heap;
     if region < CONFIG_MM_REGIONS
     then do {
       let oldnode = mm_heapend heap ! region;
       let m = put_size oldnode sz m;
       let newnode = sub32 blockend SIZEOF_MM_ALLOCNODE;
       let m = put_size newnode SIZEOF_MM_ALLOCNODE m;
       let m = put_preceding newnode (nsize oldnode m OR MM_ALLOC_BIT) m;
       let heap = heap\<lparr>mm_heapend := (mm_heapend heap)[region := newnode]\<rparr>;
       mm_free pid mem (mm_givesemaphore heap, m)
     }
     else None
   }"

definition mm_brkaddr :: "nat \<Rightarrow> mm_heap_s \<Rightarrow> nat option" where
  "mm_brkaddr region heap =
     (if region < CONFIG_MM_REGIONS
      then let brkaddr = mm_heapend heap ! region
           in Some (if brkaddr \<noteq> 0 then brkaddr + SIZEOF_MM_ALLOCNODE else 0)
      else None)"

definition mm_heapmember :: "nat \<Rightarrow> mm_heap_s \<Rightarrow> bool" where
  "mm_heapmember mem heap \<longleftrightarrow>
     list_ex (\<lambda>i. mm_heapstart heap ! i < mem \<and> mem < mm_heapend heap ! i) [0..<mm_nregions heap]"

end
