(* ===== verification/Mm_User.thy ===== *)
theory Mm_User
  imports Mm_Heap
begin

text \<open>
  The heap of the C library (\<^verbatim>\<open>mm/umm_heap\<close>): the calls that the programs make.
\<close>

section \<open>The user heap\<close>

text \<open>The calls of the C library in the flat build: they are calls of the manager on the one heap \<^verbatim>\<open>g_mmheap\<close>, which
  is the state.\<close>

definition umm_initialize :: "int list \<Rightarrow> nat \<Rightarrow> nat \<Rightarrow> mm_state \<Rightarrow> mm_state option" where
  "umm_initialize ws heap_start heap_size s = mm_initialize ws heap_start heap_size s"

definition umm_addregion :: "nat \<Rightarrow> nat \<Rightarrow> mm_state \<Rightarrow> mm_state option" where
  "umm_addregion heap_start heap_size s = mm_addregion heap_start heap_size s"

definition umm_malloc :: "int \<Rightarrow> nat \<Rightarrow> mm_state \<Rightarrow> (nat \<times> mm_state) option" where
  "umm_malloc pid sz s = mm_malloc pid sz s"

definition umm_free :: "int \<Rightarrow> nat \<Rightarrow> mm_state \<Rightarrow> mm_state option" where
  "umm_free pid mem s = mm_free pid mem s"

definition umm_realloc :: "int \<Rightarrow> nat \<Rightarrow> nat \<Rightarrow> mm_state \<Rightarrow> (nat \<times> mm_state) option" where
  "umm_realloc pid oldmem sz s = mm_realloc pid oldmem sz s"

definition umm_zalloc :: "int \<Rightarrow> nat \<Rightarrow> mm_state \<Rightarrow> (nat \<times> mm_state) option" where
  "umm_zalloc pid sz s = mm_zalloc pid sz s"

definition umm_calloc :: "int \<Rightarrow> nat \<Rightarrow> nat \<Rightarrow> mm_state \<Rightarrow> (nat \<times> mm_state) option" where
  "umm_calloc pid n elem_size s = mm_calloc pid n elem_size s"

definition umm_memalign :: "int \<Rightarrow> nat \<Rightarrow> nat \<Rightarrow> mm_state \<Rightarrow> (nat \<times> mm_state) option" where
  "umm_memalign pid alignment sz s = mm_memalign pid alignment sz s"

definition umm_mallinfo :: "int \<Rightarrow> mm_state \<Rightarrow> (mallinfo \<times> mm_state) option" where
  "umm_mallinfo pid s = do { (ret, info, s) \<leftarrow> mm_mallinfo pid s; Some (info, s) }"

definition umm_extend :: "int \<Rightarrow> nat \<Rightarrow> nat \<Rightarrow> nat \<Rightarrow> mm_state \<Rightarrow> mm_state option" where
  "umm_extend pid mem sz region s = mm_extend pid mem sz region s"

definition umm_brkaddr :: "nat \<Rightarrow> mm_state \<Rightarrow> nat option" where
  "umm_brkaddr region s = mm_brkaddr region (fst s)"

definition umm_heapmember :: "nat \<Rightarrow> mm_state \<Rightarrow> bool" where
  "umm_heapmember mem s = mm_heapmember mem (fst s)"

definition umm_trysemaphore :: "int \<Rightarrow> mm_state \<Rightarrow> int \<times> mm_state" where
  "umm_trysemaphore pid s = (let (ret, heap) = mm_trysemaphore pid (fst s) in (ret, heap, snd s))"

definition umm_givesemaphore :: "mm_state \<Rightarrow> mm_state" where
  "umm_givesemaphore s = (mm_givesemaphore (fst s), snd s)"

lemmas umm_defs = umm_malloc_def umm_free_def umm_realloc_def umm_zalloc_def umm_calloc_def umm_memalign_def umm_mallinfo_def umm_extend_def

end
