(* ===== verification/Imu.thy ===== *)
theory Imu
  imports Ioctl_Arg Ieee Motor Mm_User
begin

text \<open>
  The attitude sensor side of the application (\<^verbatim>\<open>apps/chewie\<close>): the I2C library
  \<^verbatim>\<open>lib/i2c/lib_i2c.c\<close>, the driver \<^verbatim>\<open>drivers/imu/JY901B/drv_imu_jy901b.c\<close> of the JY901B sensor with the
  structures of \<^verbatim>\<open>drivers/drv_imu.h\<close>, and the main loop of \<^verbatim>\<open>chewie_main.c\<close>, with the defaults of
  \<^verbatim>\<open>apps/chewie/Kconfig\<close>.  The structure of the library is in the bytes of the heap that the memory
  manager administers, so a store past the end of its block reaches whatever is behind it.  A floating
  point value is a rational number; the arithmetic rounds as in IEEE 754 (without the exponent limits,
  which these values do not reach).
\<close>

section \<open>Library\<close>

text \<open>The contents of a \<^verbatim>\<open>struct lib_i2c_s\<close>; the last field of the structure, \<^verbatim>\<open>start\<close>, is never used.\<close>

record lib_i2c_s =
  l_frequency :: u32
  l_addr :: u16
  l_fd :: int

abbreviation (input) off_frequency :: nat where "off_frequency \<equiv> 0"
abbreviation (input) off_addr :: nat where "off_addr \<equiv> 4"
abbreviation (input) off_fd :: nat where "off_fd \<equiv> 8"

text \<open>Loads and stores of a half word, and of a signed word.\<close>

definition ld16 :: "nat \<Rightarrow> mem \<Rightarrow> nat" where
  "ld16 p m = unat (m p) + 256 * unat (m (p + 1))"

definition st16 :: "nat \<Rightarrow> nat \<Rightarrow> mem \<Rightarrow> mem" where
  "st16 p v m = m(p := word_of_nat v, p + 1 := word_of_nat (v div 256))"

definition ld_int :: "nat \<Rightarrow> mem \<Rightarrow> int" where
  "ld_int p m = sint (word_of_nat (ld p m) :: 32 word)"

definition st_int :: "nat \<Rightarrow> int \<Rightarrow> mem \<Rightarrow> mem" where
  "st_int p v m = st p (nat (v mod 4294967296)) m"

text \<open>The structure that a pointer leads to; None stands for the access through a null pointer.\<close>

definition lib_at :: "nat \<Rightarrow> mem \<Rightarrow> lib_i2c_s option" where
  "lib_at p m = (if p = 0 then None
     else Some \<lparr>l_frequency = word_of_nat (ld (p + off_frequency) m), l_addr = word_of_nat (ld16 (p + off_addr) m),
                l_fd = ld_int (p + off_fd) m\<rparr>)"

text \<open>The structures of \<^verbatim>\<open>drv_imu.h\<close>, a float each.\<close>

record mpu_params =
  acc_pitch :: rat
  acc_roll :: rat
  acc_yaw :: rat
  gyro_pitch :: rat
  gyro_roll :: rat
  gyro_yaw :: rat
  mag_pitch :: rat
  mag_roll :: rat
  mag_yaw :: rat
  angle_pitch :: rat
  angle_roll :: rat
  angle_yaw :: rat

text \<open>The program: the system, the heap, its task, and the static variables of the driver; 0 is the null
  pointer.\<close>

record 's imu =
  osys :: 's
  uheap :: mm_state
  me :: int
  imu_i2c :: nat
  imu_update :: bool
  drv_imu_date :: mpu_params

abbreviation (input) sizeof_ptr :: nat where "sizeof_ptr \<equiv> 4"

text \<open>A store of the program.\<close>

definition poke :: "(mem \<Rightarrow> mem) \<Rightarrow> 's imu \<Rightarrow> 's imu" where
  "poke f a = a\<lparr>uheap := (fst (uheap a), f (snd (uheap a)))\<rparr>"

abbreviation memory :: "'s imu \<Rightarrow> mem" where "memory a \<equiv> snd (uheap a)"

text \<open>\<^verbatim>\<open>sizeof(_lib_i2c_s)\<close> is the size of the pointer, not of the structure.\<close>

definition lib_i2c_open ::
  "'s syscalls \<Rightarrow> string \<Rightarrow> u32 \<Rightarrow> u16 \<Rightarrow> 's imu \<Rightarrow> (nat \<times> 's imu) option" where
  "lib_i2c_open sys path hz adr a = do {
     (p, h) \<leftarrow> umm_malloc (me a) sizeof_ptr (uheap a);
     let a = a\<lparr>uheap := h\<rparr>;
     if p = 0 then Some (0, a)
     else do {
       let a = poke (st (p + off_frequency) (unat hz)) a;
       let a = poke (st16 (p + off_addr) (unat (ucast adr :: u8))) a;
       (fd, s) \<leftarrow> sys_open sys (Some path) 1 (osys a);
       let a = poke (st_int (p + off_fd) fd) (a\<lparr>osys := s\<rparr>);
       if fd < 0
       then do { h \<leftarrow> umm_free (me a) p (uheap a); Some (0, a\<lparr>uheap := h\<rparr>) }
       else Some (p, a)
     }
   }"

text \<open>The two messages of a register read, and the call.  The buffer is passed by value and comes back
  with the returned messages.\<close>

definition read_msgs :: "lib_i2c_s \<Rightarrow> u8 \<Rightarrow> u8 list \<Rightarrow> nat \<Rightarrow> i2c_msg_s list" where
  "read_msgs l regaddr buffer len =
     [\<lparr>msg_frequency = l_frequency l, msg_addr = l_addr l, msg_flags = I2C_M_NOSTOP,
       msg_buffer = [regaddr], msg_length = 1\<rparr>,
      \<lparr>msg_frequency = l_frequency l, msg_addr = l_addr l, msg_flags = I2C_M_READ,
       msg_buffer = buffer, msg_length = len\<rparr>]"

definition lib_i2c_read_mult_block ::
  "'s syscalls \<Rightarrow> nat \<Rightarrow> u8 \<Rightarrow> u8 list \<Rightarrow> nat \<Rightarrow> 's imu \<Rightarrow> (int \<times> u8 list \<times> 's imu) option" where
  "lib_i2c_read_mult_block sys lp regaddr buffer len a = do {
     l \<leftarrow> lib_at lp (memory a);
     (ret, arg, s) \<leftarrow> sys_ioctl sys (l_fd l) I2CIOC_TRANSFER (Arg_i2c_transfer (read_msgs l regaddr buffer len)) (osys a);
     let buffer = (case arg of Arg_i2c_transfer [_, m] \<Rightarrow> msg_buffer m | _ \<Rightarrow> buffer);
     Some (if ret < 0 then - 1 else 0, buffer, a\<lparr>osys := s\<rparr>)
   }"

text \<open>The buffer of \<^verbatim>\<open>lib_i2c_read\<close> is not where \<^verbatim>\<open>result\<close> points to but the parameter itself: the data
  replace two of the four bytes ptr of the pointer, which is then dropped, and the caller's memory stays
  as it is.\<close>

definition lib_i2c_read :: "'s syscalls \<Rightarrow> nat \<Rightarrow> u8 \<Rightarrow> u8 list \<Rightarrow> 's imu \<Rightarrow> (int \<times> 's imu) option" where
  "lib_i2c_read sys lp regaddr ptr a = do {
     l \<leftarrow> lib_at lp (memory a);
     (ret, _, s) \<leftarrow> sys_ioctl sys (l_fd l) I2CIOC_TRANSFER (Arg_i2c_transfer (read_msgs l regaddr ptr 2)) (osys a);
     Some (if ret < 0 then - 1 else 0, a\<lparr>osys := s\<rparr>)
   }"

text \<open>The file descriptor is read before the test of the pointer.\<close>

definition lib_i2c_deinit :: "'s syscalls \<Rightarrow> nat \<Rightarrow> 's imu \<Rightarrow> 's imu option" where
  "lib_i2c_deinit sys lp a = do {
     l \<leftarrow> lib_at lp (memory a);
     a \<leftarrow> (if l_fd l \<ge> 0 then do { (_, s) \<leftarrow> sys_close sys (l_fd l) (osys a); Some (a\<lparr>osys := s\<rparr>) } else Some a);
     if lp \<noteq> 0 then do { h \<leftarrow> umm_free (me a) lp (uheap a); Some (a\<lparr>uheap := h\<rparr>) } else Some a
   }"

section \<open>Sensor driver\<close>

abbreviation (input) IMU_I2C_DEV_PATH :: string where "IMU_I2C_DEV_PATH \<equiv> ''/dev/i2c2''"
abbreviation (input) IMU_I2C_FREQUENCY :: u32 where "IMU_I2C_FREQUENCY \<equiv> 400000"

text \<open>Registers of the sensor.\<close>

abbreviation (input) AX :: u8 where "AX \<equiv> 0x34"
abbreviation (input) AY :: u8 where "AY \<equiv> 0x35"
abbreviation (input) AZ :: u8 where "AZ \<equiv> 0x36"
abbreviation (input) GX :: u8 where "GX \<equiv> 0x37"
abbreviation (input) GY :: u8 where "GY \<equiv> 0x38"
abbreviation (input) GZ :: u8 where "GZ \<equiv> 0x39"
abbreviation (input) HX :: u8 where "HX \<equiv> 0x3a"
abbreviation (input) HY :: u8 where "HY \<equiv> 0x3b"
abbreviation (input) HZ :: u8 where "HZ \<equiv> 0x3c"
abbreviation (input) Roll :: u8 where "Roll \<equiv> 0x3d"
abbreviation (input) Pitch :: u8 where "Pitch \<equiv> 0x3e"
abbreviation (input) Yaw :: u8 where "Yaw \<equiv> 0x3f"

definition imu_init :: "'s syscalls \<Rightarrow> 's imu \<Rightarrow> (int \<times> 's imu) option" where
  "imu_init sys a = do {
     (lp, a) \<leftarrow> lib_i2c_open sys IMU_I2C_DEV_PATH IMU_I2C_FREQUENCY 0x50 a;
     let a = a\<lparr>imu_i2c := lp\<rparr>;
     if lp = 0 then do {
       a \<leftarrow> lib_i2c_deinit sys (imu_i2c a) a;
       Some (- 1, a\<lparr>imu_i2c := 0\<rparr>)
     }
     else Some (0, a)
   }"

text \<open>A register of the sensor: two bytes, the low one first, as a signed number.\<close>

definition REVERT_REG_DATA :: "u8 list \<Rightarrow> nat \<Rightarrow> int" where
  "REVERT_REG_DATA buf i = sint (word_of_int (or (push_bit 8 (uint (buf ! (i + 1)))) (uint (buf ! i))) :: 16 word)"

abbreviation float :: "rat \<Rightarrow> rat" where "float \<equiv> ieee_round 24"

text \<open>\<^verbatim>\<open>x / 32768.0 * scale\<close> in double precision, stored in a float; and an integer stored in a float.\<close>

definition scaled :: "int \<Rightarrow> rat \<Rightarrow> rat" where
  "scaled x scale = float (double (double (of_int x / 32768) * scale))"

definition decode_sample :: "u8 list \<Rightarrow> mpu_params" where
  "decode_sample buf =
     \<lparr>acc_pitch = scaled (REVERT_REG_DATA buf 0) 16,
      acc_roll = scaled (REVERT_REG_DATA buf 2) 16,
      acc_yaw = scaled (- 1 * REVERT_REG_DATA buf 4) 16,
      gyro_pitch = scaled (REVERT_REG_DATA buf 6) 2000,
      gyro_roll = scaled (REVERT_REG_DATA buf 8) 2000,
      gyro_yaw = scaled (- 1 * REVERT_REG_DATA buf 10) 2000,
      mag_pitch = float (of_int (REVERT_REG_DATA buf 12)),
      mag_roll = float (of_int (REVERT_REG_DATA buf 14)),
      mag_yaw = float (of_int (- 1 * REVERT_REG_DATA buf 16)),
      angle_pitch = scaled (REVERT_REG_DATA buf 18) 180,
      angle_roll = scaled (REVERT_REG_DATA buf 20) 180,
      angle_yaw = scaled (- 1 * REVERT_REG_DATA buf 22) 180\<rparr>"

text \<open>junk is what the 30 bytes on the stack hold before the read.\<close>

definition update :: "'s syscalls \<Rightarrow> u8 list \<Rightarrow> 's imu \<Rightarrow> (int \<times> 's imu) option" where
  "update sys junk a = do {
     (ret, chrTemp, a) \<leftarrow> lib_i2c_read_mult_block sys (imu_i2c a) AX junk 24 a;
     if ret < 0 then Some (- 1, a)
     else Some (0, a\<lparr>drv_imu_date := decode_sample chrTemp\<rparr>)
   }"

definition drv_imu_init :: "'s syscalls \<Rightarrow> 's imu \<Rightarrow> 's imu option" where
  "drv_imu_init sys a = do { (_, a) \<leftarrow> imu_init sys (a\<lparr>imu_update := True\<rparr>); Some a }"

definition drv_imu_deinit :: "'s syscalls \<Rightarrow> 's imu \<Rightarrow> 's imu option" where
  "drv_imu_deinit sys a = lib_i2c_deinit sys (imu_i2c a) a"

section \<open>Main loop\<close>

text \<open>The loop \<^verbatim>\<open>while (1)\<close> after n passes, the stack contents of each pass given; it has no exit.  The
  result of the update is dropped, and the clock readings are only printed.\<close>

fun main_loop :: "'s syscalls \<Rightarrow> u8 list list \<Rightarrow> 's imu \<Rightarrow> 's imu option" where
  "main_loop sys [] a = Some a"
| "main_loop sys (junk # junks) a =
     (if imu_update a then do { (_, a) \<leftarrow> update sys junk a; main_loop sys junks a } else None)"

definition chewie_main :: "'s syscalls \<Rightarrow> u8 list list \<Rightarrow> 's imu \<Rightarrow> 's imu option" where
  "chewie_main sys junks a = do { a \<leftarrow> drv_imu_init sys a; main_loop sys junks a }"

end
