(* ===== verification/Mm_Spec.thy ===== *)
theory Mm_Spec
  imports Mm_Heap
begin

text \<open>
  The heap as lists.  A region is a list of chunks, a free list for each power of two a list of
  addresses.  The predicates say which bytes of the memory represent them; the lemmas give the effect of the
  stores and of the operations on the free lists.
\<close>

section \<open>Bits\<close>

lemma bit_31: "(x :: nat) < 4294967296 \<Longrightarrow> bit x 31 \<longleftrightarrow> 2147483648 \<le> x"
proof -
  assume "x < 4294967296"
  then have "x div 2147483648 = (if 2147483648 \<le> x then 1 else 0)"
    by (auto simp: div_if)
  then show ?thesis by (simp add: bit_iff_odd)
qed

lemma and_exp: "(x :: nat) AND 2 ^ k = (if bit x k then 2 ^ k else 0)"
  by (rule bit_eqI) (auto simp: bit_simps)

lemma and_alloc_bit: "(x :: nat) < 4294967296 \<Longrightarrow> x AND 2147483648 = (if 2147483648 \<le> x then 2147483648 else 0)"
  using and_exp [of x 31] bit_31 [of x] by simp

lemma or_alloc_bit: "(x :: nat) < 2147483648 \<Longrightarrow> x OR 2147483648 = x + 2147483648"
proof -
  assume "x < 2147483648"
  then have "x AND 2 ^ 31 = 0" using and_alloc_bit [of x] by simp
  then show ?thesis using disjunctive_add_eq_or [of x "2 ^ 31"] by simp
qed

lemma and_not_alloc_bit: "(x :: nat) AND not32 2147483648 = x mod 2147483648"
proof -
  have "not32 2147483648 = mask 31" by (simp add: not32_def mask_eq_exp_minus_1)
  then show ?thesis by (simp add: take_bit_eq_mask [symmetric] take_bit_eq_mod)
qed

lemma bit_lt_32: "bit (x :: nat) n \<Longrightarrow> x < 4294967296 \<Longrightarrow> n < 32"
proof (rule ccontr)
  assume a: "bit x n" "x < 4294967296" "\<not> n < 32"
  have "x < 2 ^ 32" using a(2) by simp
  also have "\<dots> \<le> 2 ^ n" using a(3) by (intro power_increasing) auto
  finally show False using a(1) by (simp add: bit_iff_odd)
qed

lemma and_not_gran: "(x :: nat) < 4294967296 \<Longrightarrow> x AND not32 15 = 16 * (x div 16)"
proof -
  assume x: "x < 4294967296"
  have m: "not32 15 = push_bit 4 (mask 28)" by (simp add: not32_def push_bit_eq_mult mask_eq_exp_minus_1)
  have "x AND not32 15 = push_bit 4 (drop_bit 4 x)"
    unfolding m by (rule bit_eqI) (auto simp: bit_simps dest: bit_lt_32 [OF _ x])
  then show ?thesis by (simp add: push_bit_eq_mult drop_bit_eq_div)
qed

lemma MM_ALIGN_DOWN_eq: "a < 4294967296 \<Longrightarrow> MM_ALIGN_DOWN a = 16 * (a div 16)"
  by (simp add: MM_ALIGN_DOWN_def and_not_gran)

lemma MM_ALIGN_UP_eq: "a + 15 < 4294967296 \<Longrightarrow> MM_ALIGN_UP a = 16 * ((a + 15) div 16)"
  by (simp add: MM_ALIGN_UP_def and_not_gran)

lemma align_up_bounds:
  "a + 15 < 4294967296 \<Longrightarrow> a \<le> MM_ALIGN_UP a \<and> MM_ALIGN_UP a < a + 16 \<and> MM_ALIGN_UP a mod 16 = 0"
  by (simp add: MM_ALIGN_UP_eq) linarith

lemma sub32_eq: "b \<le> a \<Longrightarrow> a < 4294967296 \<Longrightarrow> sub32 a b = a - b"
proof -
  assume a: "b \<le> a" "a < 4294967296"
  then have "a + 4294967296 - b = (a - b) + 4294967296" by simp
  then show ?thesis unfolding sub32_def using a by (simp only: mod_add_self2) simp
qed

section \<open>List indices\<close>

lemma ndx_loop_bounds: "0 < n \<Longrightarrow> \<exists>i. ndx_loop n k = k + i \<and> 2 ^ i \<le> n \<and> n < 2 ^ Suc i"
proof (induction n k rule: ndx_loop.induct)
  case (1 n k)
  show ?case
  proof (cases "1 < n")
    case True
    have d: "drop_bit 1 n = n div 2" by (simp add: drop_bit_eq_div)
    obtain i where i: "ndx_loop (n div 2) (k + 1) = k + 1 + i" "2 ^ i \<le> n div 2" "n div 2 < 2 ^ Suc i"
      using 1 True unfolding d by auto
    have "ndx_loop n k = k + Suc i" using True i(1) d by (subst ndx_loop.simps) simp
    moreover have "2 ^ Suc i \<le> n" "n < 2 ^ Suc (Suc i)" using i(2,3) by auto
    ultimately show ?thesis by blast
  next
    case False
    then have "n = 1" using 1 by simp
    then show ?thesis by (subst ndx_loop.simps) (auto intro: exI [of _ 0])
  qed
qed

text \<open>A size below the largest list is between two powers of two.\<close>

lemma size2ndx_bounds:
  assumes "16 \<le> s" "s < 4194304"
  shows "16 * 2 ^ mm_size2ndx s \<le> s \<and> s < 32 * 2 ^ mm_size2ndx s \<and> mm_size2ndx s < 18"
proof -
  have d: "drop_bit 4 s = s div 16" by (simp add: drop_bit_eq_div)
  obtain i where i: "ndx_loop (s div 16) 0 = i" "2 ^ i \<le> s div 16" "s div 16 < 2 ^ Suc i"
    using ndx_loop_bounds [of "s div 16" 0] assms by auto
  have "2 ^ i < (2 :: nat) ^ 18" using i(2) assms by simp
  then have "i < 18" by (rule power_less_imp_less_exp [rotated]) simp
  moreover have "mm_size2ndx s = i" using assms i(1) by (simp add: mm_size2ndx_def d)
  ultimately show ?thesis using i(2,3) by auto
qed

lemma size2ndx_large: "4194304 \<le> s \<Longrightarrow> mm_size2ndx s = 18"
  by (simp add: mm_size2ndx_def)

lemma size2ndx_lt: "16 \<le> s \<Longrightarrow> mm_size2ndx s < 19"
  using size2ndx_bounds [of s] size2ndx_large [of s] by (cases "s < 4194304") auto

lemma size2ndx_mono: "16 \<le> s \<Longrightarrow> s \<le> t \<Longrightarrow> mm_size2ndx s \<le> mm_size2ndx t"
proof (rule ccontr)
  assume a: "16 \<le> s" "s \<le> t" "\<not> mm_size2ndx s \<le> mm_size2ndx t"
  have t: "t < 4194304" using a size2ndx_large [of t] size2ndx_lt [of s] by (cases "t < 4194304") auto
  have "s < 4194304" using a(2) t by simp
  then have "16 * 2 ^ mm_size2ndx s \<le> s" using a(1) size2ndx_bounds [of s] by blast
  moreover have "t < 32 * 2 ^ mm_size2ndx t" using a(1,2) t size2ndx_bounds [of t] by simp
  moreover have "(2 :: nat) ^ Suc (mm_size2ndx t) \<le> 2 ^ mm_size2ndx s" using a(3) by (intro power_increasing) auto
  ultimately show False using a(2) by simp
qed

section \<open>Fields of nodes\<close>

text \<open>The nodes that the manager writes are sixteen bytes that do not overlap.\<close>

definition apart :: "nat \<Rightarrow> nat \<Rightarrow> bool" where
  "apart x y \<longleftrightarrow> x + 16 \<le> y \<or> y + 16 \<le> x"

definition sep :: "nat set \<Rightarrow> bool" where
  "sep S \<longleftrightarrow> (\<forall>x \<in> S. \<forall>y \<in> S. x \<noteq> y \<longrightarrow> apart x y) \<and> (\<forall>x \<in> S. 0 < x \<and> x < 4294967296)"

lemmas field_defs = nsize_def npreceding_def nflink_def nblink_def
  put_size_def put_preceding_def put_flink_def put_blink_def

lemma fields_same [simp]:
  "nsize x (put_preceding x v m) = nsize x m" "nsize x (put_flink x v m) = nsize x m" "nsize x (put_blink x v m) = nsize x m"
  "npreceding x (put_size x v m) = npreceding x m" "npreceding x (put_flink x v m) = npreceding x m"
  "npreceding x (put_blink x v m) = npreceding x m"
  "nflink x (put_size x v m) = nflink x m" "nflink x (put_preceding x v m) = nflink x m" "nflink x (put_blink x v m) = nflink x m"
  "nblink x (put_size x v m) = nblink x m" "nblink x (put_preceding x v m) = nblink x m" "nblink x (put_flink x v m) = nblink x m"
  by (simp_all add: field_defs ld_st_other)

lemma fields_set [simp]:
  "v < 4294967296 \<Longrightarrow> nsize x (put_size x v m) = v" "v < 4294967296 \<Longrightarrow> npreceding x (put_preceding x v m) = v"
  "v < 4294967296 \<Longrightarrow> nflink x (put_flink x v m) = v" "v < 4294967296 \<Longrightarrow> nblink x (put_blink x v m) = v"
  by (simp_all add: field_defs)

lemma fields_apart [simp]:
  "apart x y \<Longrightarrow> nsize x (put_size y v m) = nsize x m" "apart x y \<Longrightarrow> nsize x (put_preceding y v m) = nsize x m"
  "apart x y \<Longrightarrow> nsize x (put_flink y v m) = nsize x m" "apart x y \<Longrightarrow> nsize x (put_blink y v m) = nsize x m"
  "apart x y \<Longrightarrow> npreceding x (put_size y v m) = npreceding x m" "apart x y \<Longrightarrow> npreceding x (put_preceding y v m) = npreceding x m"
  "apart x y \<Longrightarrow> npreceding x (put_flink y v m) = npreceding x m" "apart x y \<Longrightarrow> npreceding x (put_blink y v m) = npreceding x m"
  "apart x y \<Longrightarrow> nflink x (put_size y v m) = nflink x m" "apart x y \<Longrightarrow> nflink x (put_preceding y v m) = nflink x m"
  "apart x y \<Longrightarrow> nflink x (put_flink y v m) = nflink x m" "apart x y \<Longrightarrow> nflink x (put_blink y v m) = nflink x m"
  "apart x y \<Longrightarrow> nblink x (put_size y v m) = nblink x m" "apart x y \<Longrightarrow> nblink x (put_preceding y v m) = nblink x m"
  "apart x y \<Longrightarrow> nblink x (put_flink y v m) = nblink x m" "apart x y \<Longrightarrow> nblink x (put_blink y v m) = nblink x m"
  by (auto simp: field_defs apart_def ld_st_other)

lemma fields_lt [simp]:
  "nsize x m < 4294967296" "npreceding x m < 4294967296" "nflink x m < 4294967296" "nblink x m < 4294967296"
  by (simp_all add: field_defs)

lemma sep_apart: "sep S \<Longrightarrow> x \<in> S \<Longrightarrow> y \<in> S \<Longrightarrow> x \<noteq> y \<Longrightarrow> apart x y"
  by (simp add: sep_def)

lemma sep_range: "sep S \<Longrightarrow> x \<in> S \<Longrightarrow> 0 < x \<and> x < 4294967296"
  by (simp add: sep_def)

lemma sep_mono: "sep S \<Longrightarrow> T \<subseteq> S \<Longrightarrow> sep T"
  unfolding sep_def by blast

lemma sep_links:
  assumes "sep S" "x \<in> S" "y \<in> S"
  shows "nsize x (put_flink y v m) = nsize x m" "nsize x (put_blink y v m) = nsize x m"
    "npreceding x (put_flink y v m) = npreceding x m" "npreceding x (put_blink y v m) = npreceding x m"
    "nflink x (put_blink y v m) = nflink x m" "nblink x (put_flink y v m) = nblink x m"
    "nflink x (put_size y v m) = nflink x m" "nflink x (put_preceding y v m) = nflink x m"
    "nblink x (put_size y v m) = nblink x m" "nblink x (put_preceding y v m) = nblink x m"
    "nsize x (put_preceding y v m) = nsize x m" "npreceding x (put_size y v m) = npreceding x m"
  using sep_apart [OF assms] by (cases "x = y"; simp)+

section \<open>Bytes that change\<close>

definition frame :: "nat set \<Rightarrow> mem \<Rightarrow> mem \<Rightarrow> bool" where
  "frame W m m' \<longleftrightarrow> (\<forall>a. a \<notin> W \<longrightarrow> m' a = m a)"

lemma frame_refl [simp]: "frame W m m"
  by (simp add: frame_def)

lemma frame_trans: "frame W m m' \<Longrightarrow> frame W m' m'' \<Longrightarrow> frame W m m''"
  by (simp add: frame_def)

lemma frame_mono: "frame W m m' \<Longrightarrow> W \<subseteq> W' \<Longrightarrow> frame W' m m'"
  by (auto simp: frame_def)

definition head_bytes :: "nat \<Rightarrow> nat set" where
  "head_bytes x = {x ..< x + 8}"

definition link_bytes :: "nat \<Rightarrow> nat set" where
  "link_bytes x = {x + 8 ..< x + 16}"

lemma frame_put:
  "frame W m m' \<Longrightarrow> head_bytes x \<subseteq> W \<Longrightarrow> frame W m (put_size x v m')"
  "frame W m m' \<Longrightarrow> head_bytes x \<subseteq> W \<Longrightarrow> frame W m (put_preceding x v m')"
  "frame W m m' \<Longrightarrow> head_bytes x \<subseteq> W \<Longrightarrow> frame W m (update_preceding x v m')"
  "frame W m m' \<Longrightarrow> link_bytes x \<subseteq> W \<Longrightarrow> frame W m (put_flink x v m')"
  "frame W m m' \<Longrightarrow> link_bytes x \<subseteq> W \<Longrightarrow> frame W m (put_blink x v m')"
  by (auto simp: frame_def field_defs update_preceding_def st_def head_bytes_def link_bytes_def subset_iff)

section \<open>Linked nodes\<close>

text \<open>The nodes xs are linked one to the next, p before them and n behind them.\<close>

fun seg :: "mem \<Rightarrow> nat \<Rightarrow> nat list \<Rightarrow> nat \<Rightarrow> bool" where
  "seg m p [] n \<longleftrightarrow> True"
| "seg m p (x # xs) n \<longleftrightarrow> nblink x m = p \<and> nflink x m = hd (xs @ [n]) \<and> seg m x xs n"

lemma seg_append: "seg m p (xs @ ys) n \<longleftrightarrow> seg m p xs (hd (ys @ [n])) \<and> seg m (last (p # xs)) ys n"
proof (induction xs arbitrary: p)
  case (Cons x xs)
  show ?case by (cases xs) (use Cons in auto)
qed simp

lemma seg_cong:
  "(\<And>x. x \<in> set xs \<Longrightarrow> nflink x m' = nflink x m \<and> nblink x m' = nblink x m) \<Longrightarrow> seg m' p xs n \<longleftrightarrow> seg m p xs n"
  by (induction xs arbitrary: p) auto

lemma seg_put_flink:
  assumes "sep S" "set xs \<subseteq> S" "q \<in> S" "q \<notin> set xs"
  shows "seg (put_flink q v m) p xs n \<longleftrightarrow> seg m p xs n"
  using assms by (intro seg_cong) (metis fields_apart(11) sep_apart sep_links(6) subsetD)

lemma seg_put_blink:
  assumes "sep S" "set xs \<subseteq> S" "q \<in> S" "q \<notin> set xs"
  shows "seg (put_blink q v m) p xs n \<longleftrightarrow> seg m p xs n"
  using assms by (intro seg_cong) (metis fields_apart(16) sep_apart sep_links(5) subsetD)

lemma hd_snoc_cases: "hd (xs @ [n]) = (case xs of [] \<Rightarrow> n | y # ys \<Rightarrow> y)"
  by (cases xs) auto

lemma unlink_node_eq:
  assumes S: "sep S" "set (l1 @ q # x # l2) \<subseteq> S" "distinct (l1 @ q # x # l2)"
    and s: "seg m p (l1 @ q # x # l2) 0"
  shows "unlink_node x m = (case l2 of [] \<Rightarrow> put_flink q 0 m | y # _ \<Rightarrow> put_blink y q (put_flink q y m))"
proof -
  have a: "apart x q" using S by (intro sep_apart [OF S(1)]) auto
  have "nblink x m = q" "nflink x m = hd (l2 @ [0])" using s by (auto simp: seg_append)
  moreover have "nflink x (put_flink q v m) = nflink x m" "nblink x (put_flink q v m) = nblink x m" for v
    using a by simp_all
  moreover have "l2 = y # ys \<Longrightarrow> y \<noteq> 0" for y ys using sep_range [OF S(1), of y] S(2) by auto
  ultimately show ?thesis by (auto simp: unlink_node_def Let_def split: list.splits)
qed

lemma seg_unlink:
  assumes S: "sep S" "set (l1 @ q # x # l2) \<subseteq> S" "distinct (l1 @ q # x # l2)"
    and s: "seg m p (l1 @ q # x # l2) 0"
  shows "seg (unlink_node x m) p (l1 @ q # l2) 0"
proof (cases l2)
  case Nil
  then show ?thesis using S s
    by (auto simp: unlink_node_eq [OF S s] seg_append seg_put_flink [OF S(1)])
next
  case (Cons y ys)
  have "y < 4294967296" "apart q y" using sep_range [OF S(1), of y] sep_apart [OF S(1), of q y] S(2,3) Cons by auto
  moreover have "apart y q" using \<open>apart q y\<close> by (auto simp: apart_def)
  moreover have "q < 4294967296" using sep_range [OF S(1), of q] S(2) by auto
  moreover have "seg m (last (p # l1)) [q] x \<and> seg m p l1 q \<and> seg m x (y # ys) 0"
    using s Cons by (auto simp: seg_append)
  ultimately show ?thesis unfolding unlink_node_eq [OF S s] using S Cons
    by (auto simp: seg_append seg_put_flink [OF S(1)] seg_put_blink [OF S(1)])
qed

lemma unlink_keeps:
  assumes S: "sep S" "set (l1 @ q # x # l2) \<subseteq> S" "distinct (l1 @ q # x # l2)"
    and s: "seg m p (l1 @ q # x # l2) 0"
  shows "y \<in> S \<Longrightarrow> nsize y (unlink_node x m) = nsize y m"
    "y \<in> S \<Longrightarrow> npreceding y (unlink_node x m) = npreceding y m"
    "(\<Union>y \<in> set (l1 @ q # x # l2). link_bytes y) \<subseteq> W \<Longrightarrow> frame W m (unlink_node x m)"
  using S(2) unfolding unlink_node_eq [OF S s]
  by (auto split: list.splits simp: sep_links [OF S(1)] intro!: frame_put)

text \<open>The stores that put x between q and n.\<close>

definition link_between :: "nat \<Rightarrow> nat \<Rightarrow> nat \<Rightarrow> mem \<Rightarrow> mem" where
  "link_between q x n m =
     (let m = put_flink x n (put_blink x q (put_flink q x m)) in if n \<noteq> 0 then put_blink n x m else m)"

lemma seg_link:
  assumes S: "sep S" "set (l1 @ q # x # l2) \<subseteq> S" "distinct (l1 @ q # x # l2)"
    and s: "seg m p (l1 @ q # l2) 0"
  shows "seg (link_between q x (hd (l2 @ [0])) m) p (l1 @ q # x # l2) 0"
proof -
  have r: "x < 4294967296" "q < 4294967296" using sep_range [OF S(1), of x] sep_range [OF S(1), of q] S(2) by auto
  have a: "apart x q" "apart q x" using sep_apart [OF S(1), of x q] sep_apart [OF S(1), of q x] S(2,3) by auto
  show ?thesis
  proof (cases l2)
    case Nil
    then show ?thesis using S s r a
      by (auto simp: link_between_def seg_append seg_put_flink [OF S(1)] seg_put_blink [OF S(1)])
  next
    case (Cons y ys)
    have y: "0 < y" "y < 4294967296" "apart q y" "apart y q" "apart x y" "apart y x"
      using sep_range [OF S(1), of y] sep_apart [OF S(1), of q y] sep_apart [OF S(1), of x y]
        sep_apart [OF S(1), of y q] sep_apart [OF S(1), of y x] S(2,3) Cons by auto
    show ?thesis using S s r a y Cons
      by (auto simp: link_between_def seg_append seg_put_flink [OF S(1)] seg_put_blink [OF S(1)])
  qed
qed

lemma link_keeps:
  assumes S: "sep S" "set (l1 @ q # x # l2) \<subseteq> S"
  shows "y \<in> S \<Longrightarrow> nsize y (link_between q x (hd (l2 @ [0])) m) = nsize y m"
    "y \<in> S \<Longrightarrow> npreceding y (link_between q x (hd (l2 @ [0])) m) = npreceding y m"
    "(\<Union>y \<in> set (l1 @ q # x # l2). link_bytes y) \<subseteq> W \<Longrightarrow> frame W m (link_between q x (hd (l2 @ [0])) m)"
  using S(2) by (auto simp: link_between_def Let_def sep_links [OF S(1)] hd_snoc_cases split: list.splits intro!: frame_put)

lemma chunk_place_seg:
  assumes "seg m q l2 0" "0 \<notin> set l2"
  shows "chunk_place s q (hd (l2 @ [0])) m =
    (let l = takeWhile (\<lambda>x. nsize x m \<noteq> 0 \<and> nsize x m < s) l2;
         r = dropWhile (\<lambda>x. nsize x m \<noteq> 0 \<and> nsize x m < s) l2 in Some (last (q # l), hd (r @ [0])))"
  using assms
proof (induction l2 arbitrary: q)
  case Nil
  then show ?case by (subst chunk_place.simps) simp
next
  case (Cons x xs)
  then show ?case by (subst chunk_place.simps) (auto simp: Let_def)
qed

lemma find_chunk_seg:
  assumes "seg m q l 0" "0 \<notin> set l"
  shows "find_chunk s (hd (l @ [0])) m = Some (case List.find (\<lambda>x. s \<le> nsize x m) l of Some x \<Rightarrow> x | None \<Rightarrow> 0)"
  using assms
proof (induction l arbitrary: q)
  case Nil
  then show ?case by (subst find_chunk.simps) simp
next
  case (Cons x xs)
  then show ?case by (subst find_chunk.simps) auto
qed

section \<open>The free lists\<close>

definition heads :: "nat \<Rightarrow> nat set" where
  "heads nl = {nl + 16 * i |i. i < 19}"

text \<open>The nodes of the one linked list from list head k on; B i are the free chunks behind list head i.\<close>

definition flat :: "nat \<Rightarrow> (nat \<Rightarrow> nat list) \<Rightarrow> nat \<Rightarrow> nat list" where
  "flat nl B k = concat (map (\<lambda>i. (nl + 16 * i) # B i) [k ..< 19])"

definition bins_ok :: "nat \<Rightarrow> (nat \<Rightarrow> nat list) \<Rightarrow> mem \<Rightarrow> bool" where
  "bins_ok nl B m \<longleftrightarrow> (\<forall>i < 19. nsize (nl + 16 * i) m = 0 \<and> sorted (map (\<lambda>x. nsize x m) (B i)) \<and>
     (\<forall>x \<in> set (B i). 16 \<le> nsize x m \<and> mm_size2ndx (nsize x m) = i))"

definition lists_ok :: "nat \<Rightarrow> (nat \<Rightarrow> nat list) \<Rightarrow> nat set \<Rightarrow> mem \<Rightarrow> bool" where
  "lists_ok nl B F m \<longleftrightarrow> seg m 0 (flat nl B 0) 0 \<and> distinct (flat nl B 0) \<and> F = (\<Union>i < 19. set (B i)) \<and> bins_ok nl B m"

definition free_lists :: "nat \<Rightarrow> nat set \<Rightarrow> mem \<Rightarrow> bool" where
  "free_lists nl F m \<longleftrightarrow> (\<exists>B. lists_ok nl B F m)"

lemma flat_Cons: "k < 19 \<Longrightarrow> flat nl B k = (nl + 16 * k) # B k @ flat nl B (Suc k)"
  by (simp add: flat_def upt_conv_Cons)

lemma flat_19 [simp]: "flat nl B 19 = []"
  by (simp add: flat_def)

lemma flat_split: "i < 19 \<Longrightarrow> flat nl B 0 = concat (map (\<lambda>i. (nl + 16 * i) # B i) [0 ..< i]) @ flat nl B i"
proof -
  assume "i < 19"
  then have "[0 ..< 19] = [0 ..< i] @ [i ..< 19]" using upt_add_eq_append [of 0 i "19 - i"] by simp
  then show ?thesis by (simp add: flat_def)
qed

lemma set_flat: "set (flat nl B k) = (\<Union>i \<in> {k ..< 19}. insert (nl + 16 * i) (set (B i)))"
  by (auto simp: flat_def)

lemma set_flat_0: "set (flat nl B 0) = heads nl \<union> (\<Union>i < 19. set (B i))"
  by (auto simp: set_flat heads_def)

lemma flat_cong: "(\<And>i. k \<le> i \<Longrightarrow> i < 19 \<Longrightarrow> B i = C i) \<Longrightarrow> flat nl B k = flat nl C k"
  by (auto simp: flat_def intro!: arg_cong [of _ _ concat])

lemma bins_okD:
  assumes "bins_ok nl B m" "i < 19"
  shows "nsize (nl + 16 * i) m = 0" "sorted (map (\<lambda>x. nsize x m) (B i))"
    "x \<in> set (B i) \<Longrightarrow> 16 \<le> nsize x m" "x \<in> set (B i) \<Longrightarrow> mm_size2ndx (nsize x m) = i"
  using assms by (auto simp: bins_ok_def)

text \<open>Apart from the list heads, whose size is zero, the whole list is sorted by size.\<close>

lemma flat_sorted:
  assumes "bins_ok nl B m" "k \<le> 19"
  shows "sorted_wrt (\<lambda>x y. 0 < nsize x m \<and> 0 < nsize y m \<longrightarrow> nsize x m \<le> nsize y m) (flat nl B k)"
  using assms(2)
proof (induction k rule: inc_induct)
  case (step k)
  note D = bins_okD [OF assms(1)]
  have s: "sorted_wrt (\<lambda>x y. 0 < nsize x m \<and> 0 < nsize y m \<longrightarrow> nsize x m \<le> nsize y m) (B k)"
    using D(2) [OF step(2)] by (auto simp: sorted_map intro: sorted_wrt_mono_rel [rotated])
  have "nsize x m \<le> nsize y m" if a: "x \<in> set (B k)" "y \<in> set (B i)" "k < i" "i < 19" for x y i
  proof (rule ccontr)
    assume "\<not> nsize x m \<le> nsize y m"
    then have "mm_size2ndx (nsize y m) \<le> mm_size2ndx (nsize x m)"
      using D(3) [OF a(4,2)] by (intro size2ndx_mono) auto
    then show False using D(4) [OF a(4,2)] D(4) [OF step(2) a(1)] a(3) by simp
  qed
  then show ?case using step s D(1)
    by (auto simp: flat_Cons sorted_wrt_append set_flat)
qed simp

lemma bins_ok_cong:
  assumes "\<And>x. x \<in> heads nl \<union> (\<Union>i < 19. set (B i)) \<Longrightarrow> nsize x m' = nsize x m"
  shows "bins_ok nl B m' \<longleftrightarrow> bins_ok nl B m"
proof -
  have h: "i < 19 \<Longrightarrow> nsize (nl + 16 * i) m' = nsize (nl + 16 * i) m" for i by (rule assms) (auto simp: heads_def)
  have b: "i < 19 \<Longrightarrow> x \<in> set (B i) \<Longrightarrow> nsize x m' = nsize x m" for i x by (rule assms) auto
  have c: "i < 19 \<Longrightarrow> map (\<lambda>x. nsize x m') (B i) = map (\<lambda>x. nsize x m) (B i)" for i
    using b [of i] by simp
  show ?thesis unfolding bins_ok_def by (simp add: h b c)
qed

lemma bins_cong:
  assumes "\<And>x. x \<in> heads nl \<union> F \<Longrightarrow> nsize x m' = nsize x m \<and> nflink x m' = nflink x m \<and> nblink x m' = nblink x m"
    and "lists_ok nl B F m"
  shows "lists_ok nl B F m'"
  using assms seg_cong [of "flat nl B 0" m' m 0 0] bins_ok_cong [of nl B m' m]
  by (auto simp: lists_ok_def set_flat_0)

lemma free_lists_cong:
  assumes "free_lists nl F m"
    and "\<And>x. x \<in> heads nl \<union> F \<Longrightarrow> nsize x m' = nsize x m \<and> nflink x m' = nflink x m \<and> nblink x m' = nblink x m"
  shows "free_lists nl F m'"
  using assms bins_cong [of nl F m' m] unfolding free_lists_def by blast

lemma nat_bound: "i < 19 \<Longrightarrow> nl + 16 * i \<in> heads nl"
  by (auto simp: heads_def)

lemma find_split: "List.find P xs = Some x \<Longrightarrow> \<exists>ys zs. xs = ys @ x # zs \<and> P x \<and> (\<forall>y \<in> set ys. \<not> P y)"
proof (induction xs)
  case (Cons a xs)
  then show ?case
  proof (cases "P a")
    case False
    then obtain ys zs where "xs = ys @ x # zs" "P x" "\<forall>y \<in> set ys. \<not> P y" using Cons by auto
    then have "a # xs = (a # ys) @ x # zs \<and> P x \<and> (\<forall>y \<in> set (a # ys). \<not> P y)" using False by simp
    then show ?thesis by blast
  qed (auto intro: exI [of _ "[]"])
qed simp

lemma find_chunk_ok:
  assumes S: "sep S" "heads nl \<union> F \<subseteq> S" and l: "free_lists nl F m" and a: "16 \<le> s"
  shows "\<exists>n. find_chunk s (nflink (nl + 16 * mm_size2ndx s) m) m = Some n \<and>
    (n = 0 \<and> (\<forall>x \<in> F. nsize x m < s) \<or>
     n \<in> F \<and> s \<le> nsize n m \<and> (\<forall>y \<in> F. s \<le> nsize y m \<longrightarrow> nsize n m \<le> nsize y m))"
proof -
  obtain B where B: "lists_ok nl B F m" using l by (auto simp: free_lists_def)
  define i where "i = mm_size2ndx s"
  have i: "i < 19" unfolding i_def by (rule size2ndx_lt [OF a])
  define L where "L = B i @ flat nl B (Suc i)"
  have b: "bins_ok nl B m" and F: "F = (\<Union>i < 19. set (B i))" using B by (auto simp: lists_ok_def)
  have sg: "seg m (nl + 16 * i) L 0" and fl: "nflink (nl + 16 * i) m = hd (L @ [0])"
    using B unfolding lists_ok_def flat_split [OF i] flat_Cons [OF i] L_def by (auto simp: seg_append)
  have L: "set L \<subseteq> heads nl \<union> F" using i by (auto simp: L_def set_flat F heads_def)
  have z: "0 \<notin> set L" using L S sep_range [OF S(1), of 0] by blast
  have heads0: "x \<in> heads nl \<Longrightarrow> nsize x m = 0" for x using bins_okD(1) [OF b] by (auto simp: heads_def)
  have mem: "y \<in> set L" if y: "y \<in> F" "s \<le> nsize y m" for y
  proof -
    obtain k where k: "k < 19" "y \<in> set (B k)" using y(1) F by blast
    have "i \<le> k" using size2ndx_mono [OF a y(2)] bins_okD(4) [OF b k] by (simp add: i_def)
    then show ?thesis using k by (cases "k = i") (auto simp: L_def set_flat)
  qed
  show ?thesis
  proof (cases "List.find (\<lambda>x. s \<le> nsize x m) L")
    case None
    then have "find_chunk s (nflink (nl + 16 * i) m) m = Some 0" using find_chunk_seg [OF sg z, of s] fl by simp
    moreover have "\<forall>x \<in> F. nsize x m < s" using None mem unfolding find_None_iff by (meson not_le)
    ultimately show ?thesis by (auto simp: i_def)
  next
    case (Some n)
    obtain l1 l2 where n: "L = l1 @ n # l2" "s \<le> nsize n m" "\<forall>y \<in> set l1. \<not> s \<le> nsize y m"
      using find_split [OF Some] by blast
    have "n \<in> F" using n(1,2) L heads0 [of n] a by auto
    moreover have "nsize n m \<le> nsize y m" if y: "y \<in> F" "s \<le> nsize y m" for y
    proof -
      have "sorted_wrt (\<lambda>x y. 0 < nsize x m \<and> 0 < nsize y m \<longrightarrow> nsize x m \<le> nsize y m) L"
        using flat_sorted [OF b less_imp_le [OF i]] unfolding flat_Cons [OF i] L_def by simp
      then show ?thesis using mem [OF y] y n a by (auto simp: sorted_wrt_append)
    qed
    moreover have "find_chunk s (nflink (nl + 16 * i) m) m = Some n"
      using find_chunk_seg [OF sg z, of s] fl Some by simp
    ultimately show ?thesis using n(2) by (auto simp: i_def)
  qed
qed

lemma snoc_split: "\<exists>l q. x # xs = l @ [q]"
  by (metis append_butlast_last_id list.distinct(1))

lemma flat_upd:
  assumes "i < 19"
  shows "flat nl (B(i := w)) 0 =
    concat (map (\<lambda>i. (nl + 16 * i) # B i) [0 ..< i]) @ (nl + 16 * i) # w @ flat nl B (Suc i)"
proof -
  have "flat nl (B(i := w)) (Suc i) = flat nl B (Suc i)" by (rule flat_cong) auto
  moreover have "concat (map (\<lambda>j. (nl + 16 * j) # (B(i := w)) j) [0 ..< i]) =
    concat (map (\<lambda>i. (nl + 16 * i) # B i) [0 ..< i])" by (auto intro!: arg_cong [of _ _ concat])
  ultimately show ?thesis by (simp add: flat_split [OF assms] flat_Cons [OF assms])
qed

lemma UN_upd: "i < (19 :: nat) \<Longrightarrow> (\<Union>j < 19. set ((B(i := w)) j)) = set w \<union> (\<Union>j \<in> {..<19} - {i}. set (B j))"
  by (auto split: if_splits)

lemma UN_bin: "i < (19 :: nat) \<Longrightarrow> (\<Union>j < 19. set (B j)) = set (B i) \<union> (\<Union>j \<in> {..<19} - {i}. set (B j))"
  by auto

lemma unlink_ok:
  assumes S: "sep S" "heads nl \<union> F \<subseteq> S" and l: "free_lists nl F m" and x: "x \<in> F"
  shows "free_lists nl (F - {x}) (unlink_node x m)"
    "\<forall>y \<in> S. nsize y (unlink_node x m) = nsize y m \<and> npreceding y (unlink_node x m) = npreceding y m"
    "frame (\<Union>y \<in> heads nl \<union> F. link_bytes y) m (unlink_node x m)"
proof -
  obtain B where B: "lists_ok nl B F m" using l by (auto simp: free_lists_def)
  have F: "F = (\<Union>i < 19. set (B i))" and b: "bins_ok nl B m" using B by (auto simp: lists_ok_def)
  obtain i where i: "i < 19" "x \<in> set (B i)" using x F by blast
  then obtain u v where uv: "B i = u @ x # v" using split_list by metis
  define A where "A = concat (map (\<lambda>i. (nl + 16 * i) # B i) [0 ..< i]) @ (nl + 16 * i) # u"
  obtain l1 q where q: "A = l1 @ [q]" unfolding A_def
    by (cases "concat (map (\<lambda>i. (nl + 16 * i) # B i) [0 ..< i])") (use snoc_split in \<open>fastforce+\<close>)
  have fl: "flat nl B 0 = l1 @ q # x # v @ flat nl B (Suc i)"
    unfolding flat_split [OF i(1)] flat_Cons [OF i(1)] uv using q A_def by simp
  have d: "distinct (l1 @ q # x # v @ flat nl B (Suc i))" and s: "seg m 0 (l1 @ q # x # v @ flat nl B (Suc i)) 0"
    using B fl by (simp_all add: lists_ok_def)
  have sub: "set (l1 @ q # x # v @ flat nl B (Suc i)) = heads nl \<union> F" using F set_flat_0 [of nl B] fl by simp
  then have sub': "set (l1 @ q # x # v @ flat nl B (Suc i)) \<subseteq> S" using S(2) by simp
  show k: "\<forall>y \<in> S. nsize y (unlink_node x m) = nsize y m \<and> npreceding y (unlink_node x m) = npreceding y m"
    using unlink_keeps(1,2) [OF S(1) sub' d s] by blast
  show "frame (\<Union>y \<in> heads nl \<union> F. link_bytes y) m (unlink_node x m)"
    using unlink_keeps(3) [OF S(1) sub' d s, of "\<Union>y \<in> heads nl \<union> F. link_bytes y"] unfolding sub by simp
  define B' where "B' = B(i := u @ v)"
  have fl': "flat nl B' 0 = l1 @ q # v @ flat nl B (Suc i)"
    unfolding B'_def flat_upd [OF i(1)] using q by (simp add: A_def)
  have "j \<noteq> i \<Longrightarrow> j < 19 \<Longrightarrow> x \<notin> set (B j)" for j using bins_okD(4) [OF b, of j x] bins_okD(4) [OF b i] by auto
  moreover have "x \<notin> set A" "x \<notin> set v" using d q by auto
  ultimately have F': "F - {x} = (\<Union>i < 19. set (B' i))"
    unfolding UN_bin [OF i(1), of B, folded F] B'_def UN_upd [OF i(1)] uv by (auto simp: A_def)
  have "bins_ok nl B' m" using b uv i(1) by (auto simp: bins_ok_def B'_def sorted_append)
  then have "bins_ok nl B' (unlink_node x m)"
    using k S(2) F' by (subst bins_ok_cong [of _ _ _ m]) auto
  then have "lists_ok nl B' (F - {x}) (unlink_node x m)"
    using seg_unlink [OF S(1) sub' d s] d F' by (simp add: lists_ok_def fl')
  then show "free_lists nl (F - {x}) (unlink_node x m)" by (auto simp: free_lists_def)
qed


lemma takeWhile_bin:
  assumes "bins_ok nl B m" "i < 19"
  shows "takeWhile (\<lambda>x. nsize x m \<noteq> 0 \<and> nsize x m < s) (B i @ flat nl B (Suc i)) = takeWhile (\<lambda>x. nsize x m < s) (B i)"
    "dropWhile (\<lambda>x. nsize x m \<noteq> 0 \<and> nsize x m < s) (B i @ flat nl B (Suc i)) =
     dropWhile (\<lambda>x. nsize x m < s) (B i) @ flat nl B (Suc i)"
proof -
  let ?P = "\<lambda>x. nsize x m \<noteq> 0 \<and> nsize x m < s"
  have f: "takeWhile ?P (flat nl B (Suc i)) = [] \<and> dropWhile ?P (flat nl B (Suc i)) = flat nl B (Suc i)"
  proof (cases "Suc i < 19")
    case True
    then show ?thesis using bins_okD(1) [OF assms(1) True] by (simp add: flat_Cons [OF True])
  next
    case False
    then have "Suc i = 19" using assms(2) by simp
    then show ?thesis by simp
  qed
  have p: "x \<in> set (B i) \<Longrightarrow> ?P x \<longleftrightarrow> nsize x m < s" for x using bins_okD(3) [OF assms, of x] by auto
  have t: "takeWhile ?P (B i) = takeWhile (\<lambda>x. nsize x m < s) (B i)" by (rule takeWhile_cong) (use p in simp_all)
  have d: "dropWhile ?P (B i) = dropWhile (\<lambda>x. nsize x m < s) (B i)" by (rule dropWhile_cong) (use p in simp_all)
  show "takeWhile ?P (B i @ flat nl B (Suc i)) = takeWhile (\<lambda>x. nsize x m < s) (B i)"
    unfolding t [symmetric] using f by (cases "\<exists>x \<in> set (B i). \<not> ?P x") (auto simp: takeWhile_append takeWhile_eq_all_conv [THEN iffD2])
  show "dropWhile ?P (B i @ flat nl B (Suc i)) = dropWhile (\<lambda>x. nsize x m < s) (B i) @ flat nl B (Suc i)"
    unfolding d [symmetric] using f by (cases "\<exists>x \<in> set (B i). \<not> ?P x") (auto simp: dropWhile_append)
qed

lemma sorted_bin_insert:
  assumes "sorted (map f xs)"
  shows "sorted (map f (takeWhile (\<lambda>x. f x < f a) xs @ a # dropWhile (\<lambda>x. f x < f a) xs))"
  using assms by (induction xs) (auto simp: less_imp_le not_less dest: set_takeWhileD set_dropWhileD intro: order_trans)

lemma addfree_ok:
  assumes S: "sep S" "heads nl \<union> insert x F \<subseteq> S" and l: "free_lists nl F m" and x: "x \<notin> heads nl \<union> F" "16 \<le> nsize x m"
    and nl: "mm_nodelist heap = nl"
  shows "\<exists>m'. mm_addfreechunk heap x m = Some m' \<and> free_lists nl (insert x F) m' \<and>
    (\<forall>y \<in> S. nsize y m' = nsize y m \<and> npreceding y m' = npreceding y m) \<and>
    frame (\<Union>y \<in> heads nl \<union> insert x F. link_bytes y) m m'"
proof -
  obtain B where B: "lists_ok nl B F m" using l by (auto simp: free_lists_def)
  have F: "F = (\<Union>i < 19. set (B i))" and b: "bins_ok nl B m" using B by (auto simp: lists_ok_def)
  define s where "s = nsize x m"
  define i where "i = mm_size2ndx s"
  have i: "i < 19" unfolding i_def s_def by (rule size2ndx_lt [OF x(2)])
  define u where "u = takeWhile (\<lambda>y. nsize y m < s) (B i)"
  define v where "v = dropWhile (\<lambda>y. nsize y m < s) (B i)"
  have uv: "B i = u @ v" by (simp add: u_def v_def)
  define A where "A = concat (map (\<lambda>i. (nl + 16 * i) # B i) [0 ..< i])"
  obtain l1 q where q: "(nl + 16 * i) # u = l1 @ [q]" using snoc_split by metis
  have fl: "flat nl B 0 = (A @ l1) @ q # v @ flat nl B (Suc i)"
    unfolding flat_split [OF i(1)] flat_Cons [OF i(1)] uv using q A_def by simp
  have d: "distinct (flat nl B 0)" and sg: "seg m 0 (flat nl B 0) 0" using B by (simp_all add: lists_ok_def)
  have fs: "set (flat nl B 0) = heads nl \<union> F" using F set_flat_0 [of nl B] by simp
  define L where "L = v @ flat nl B (Suc i)"
  have sub: "set ((A @ l1) @ q # x # L) = heads nl \<union> insert x F" using fs unfolding fl L_def by auto
  then have sub': "set ((A @ l1) @ q # x # L) \<subseteq> S" using S(2) by simp
  have d': "distinct ((A @ l1) @ q # x # L)" using d x(1) fs unfolding fl L_def by auto
  have s0: "seg m 0 ((A @ l1) @ q # L) 0" using sg unfolding fl L_def by simp
  have "0 \<notin> set (flat nl B 0)" using fs S sep_range [OF S(1), of 0] by blast
  moreover have f2: "flat nl B 0 = A @ (nl + 16 * i) # B i @ flat nl B (Suc i)"
    unfolding flat_split [OF i(1)] flat_Cons [OF i(1)] A_def by simp
  ultimately have sg2: "seg m (nl + 16 * i) (B i @ flat nl B (Suc i)) 0" "0 \<notin> set (B i @ flat nl B (Suc i))"
    and n: "nflink (nl + 16 * i) m = hd ((B i @ flat nl B (Suc i)) @ [0])"
    using sg by (auto simp: seg_append)
  have "last ((nl + 16 * i) # u) = q" using q by simp
  then have "chunk_place s (nl + 16 * i) (nflink (nl + 16 * i) m) m = Some (q, hd (L @ [0]))"
    unfolding n chunk_place_seg [OF sg2] Let_def takeWhile_bin [OF b i] by (simp only: u_def v_def L_def)
  then have add: "mm_addfreechunk heap x m = Some (link_between q x (hd (L @ [0])) m)"
    by (simp add: mm_addfreechunk_def node_head_def nl i_def s_def link_between_def Let_def)
  let ?m = "link_between q x (hd (L @ [0])) m"
  have k: "\<forall>y \<in> S. nsize y ?m = nsize y m \<and> npreceding y ?m = npreceding y m"
    using link_keeps(1,2) [OF S(1) sub'] by blast
  have fr: "frame (\<Union>y \<in> heads nl \<union> insert x F. link_bytes y) m ?m"
    using link_keeps(3) [OF S(1) sub', of "\<Union>y \<in> heads nl \<union> insert x F. link_bytes y"] unfolding sub by simp
  define B' where "B' = B(i := u @ x # v)"
  have fl': "flat nl B' 0 = (A @ l1) @ q # x # L"
    unfolding B'_def flat_upd [OF i(1)] using q by (simp add: A_def L_def)
  have F': "insert x F = (\<Union>i < 19. set (B' i))"
    unfolding UN_bin [OF i(1), of B, folded F] B'_def UN_upd [OF i(1)] uv by auto
  have "sorted (map (\<lambda>x. nsize x m) (u @ x # v))"
    using sorted_bin_insert [OF bins_okD(2) [OF b i], of x] by (simp only: u_def v_def s_def)
  moreover have "y \<in> set (u @ x # v) \<Longrightarrow> 16 \<le> nsize y m \<and> mm_size2ndx (nsize y m) = i" for y
    using bins_okD(3,4) [OF b i, of y] uv x(2) by (auto simp: i_def s_def)
  ultimately have "bins_ok nl B' m" using b by (auto simp: bins_ok_def B'_def)
  then have "bins_ok nl B' ?m" using k S(2) F' by (subst bins_ok_cong [of _ _ _ m]) auto
  then have "lists_ok nl B' (insert x F) ?m"
    using seg_link [OF S(1) sub' d' s0] d' F' by (simp add: lists_ok_def fl')
  then show ?thesis using add k fr by (auto simp: free_lists_def)
qed

end
