(* ===== verification/Mm_Regions.thy ===== *)
theory Mm_Regions
  imports Mm_Spec
begin

text \<open>
  The regions of a heap as lists of chunks in memory, the places where headers can be, and the replacement of some
  neighbouring chunks of a region by others of the same total size, which all operations of the manager come to.
\<close>

section \<open>Chunks\<close>

type_synonym chunk = "nat \<times> bool"
type_synonym region = "nat \<times> chunk list"

definition csum :: "chunk list \<Rightarrow> nat" where
  "csum cs = sum_list (map fst cs)"

text \<open>The size of the last chunk, p when there is none.\<close>

definition last_size :: "nat \<Rightarrow> chunk list \<Rightarrow> nat" where
  "last_size p cs = (if cs = [] then p else fst (last cs))"

definition alloc_bit :: "bool \<Rightarrow> nat" where
  "alloc_bit u = (if u then 2147483648 else 0)"

fun chunks_at :: "mem \<Rightarrow> nat \<Rightarrow> nat \<Rightarrow> chunk list \<Rightarrow> bool" where
  "chunks_at m a p [] \<longleftrightarrow> True"
| "chunks_at m a p ((s, u) # cs) \<longleftrightarrow> nsize a m = s \<and> npreceding a m = p + alloc_bit u \<and> chunks_at m (a + s) s cs"

fun placed :: "nat \<Rightarrow> chunk list \<Rightarrow> (nat \<times> nat \<times> bool) list" where
  "placed a [] = []"
| "placed a ((s, u) # cs) = (a, s, u) # placed (a + s) cs"

definition starts :: "nat \<Rightarrow> chunk list \<Rightarrow> nat set" where
  "starts a cs = fst ` set (placed a cs)"

definition frees_at :: "nat \<Rightarrow> chunk list \<Rightarrow> nat set" where
  "frees_at a cs = {x. \<exists>s. (x, s, False) \<in> set (placed a cs)}"

definition body_ok :: "chunk list \<Rightarrow> bool" where
  "body_ok cs \<longleftrightarrow> (\<forall>(s, u) \<in> set cs. 0 < s \<and> s mod 16 = 0)"

lemma csum_simps [simp]:
  "csum [] = 0" "csum ((s, u) # cs) = s + csum cs" "csum (xs @ ys) = csum xs + csum ys"
  by (simp_all add: csum_def)

lemma last_size_simps [simp]:
  "last_size p [] = p" "last_size p ((s, u) # cs) = last_size s cs" "last_size p (xs @ ys) = last_size (last_size p xs) ys"
  by (auto simp: last_size_def)

lemma placed_append [simp]: "placed a (xs @ ys) = placed a xs @ placed (a + csum xs) ys"
  by (induction a xs rule: placed.induct) (auto simp: add.assoc)

lemma starts_simps [simp]:
  "starts a [] = {}" "starts a ((s, u) # cs) = insert a (starts (a + s) cs)"
  "starts a (xs @ ys) = starts a xs \<union> starts (a + csum xs) ys"
  by (auto simp: starts_def)

lemma frees_at_simps [simp]:
  "frees_at a [] = {}" "frees_at a ((s, u) # cs) = (if u then {} else {a}) \<union> frees_at (a + s) cs"
  "frees_at a (xs @ ys) = frees_at a xs \<union> frees_at (a + csum xs) ys"
  by (auto simp: frees_at_def)

lemma body_ok_simps [simp]:
  "body_ok []" "body_ok ((s, u) # cs) \<longleftrightarrow> 0 < s \<and> s mod 16 = 0 \<and> body_ok cs"
  "body_ok (xs @ ys) \<longleftrightarrow> body_ok xs \<and> body_ok ys"
  by (auto simp: body_ok_def)

lemma body_ok_pos: "body_ok cs \<Longrightarrow> (s, u) \<in> set cs \<Longrightarrow> 16 \<le> s"
proof -
  assume "body_ok cs" "(s, u) \<in> set cs"
  then have "0 < s" "s mod 16 = 0" by (auto simp: body_ok_def)
  then show ?thesis by (cases "s < 16") auto
qed

lemma csum_mod [simp]: "body_ok cs \<Longrightarrow> csum cs mod 16 = 0"
  by (induction cs) (auto simp: mod_add_eq [symmetric])

lemma chunks_at_append:
  "chunks_at m a p (xs @ ys) \<longleftrightarrow> chunks_at m a p xs \<and> chunks_at m (a + csum xs) (last_size p xs) ys"
  by (induction m a p xs rule: chunks_at.induct) (auto simp: add.assoc)

lemma chunks_at_cong:
  "(\<And>x. x \<in> starts a cs \<Longrightarrow> nsize x m' = nsize x m \<and> npreceding x m' = npreceding x m) \<Longrightarrow>
   chunks_at m' a p cs \<longleftrightarrow> chunks_at m a p cs"
  by (induction m a p cs rule: chunks_at.induct) auto

lemma starts_range:
  "body_ok cs \<Longrightarrow> x \<in> starts a cs \<Longrightarrow> a \<le> x \<and> x + 16 \<le> a + csum cs \<and> x mod 16 = a mod 16"
proof (induction a cs rule: placed.induct)
  case (2 a s u cs)
  have "16 \<le> s" using body_ok_pos [OF 2(2), of s u] by simp
  then show ?case using 2 by (auto simp: mod_add_right_eq [of a s 16, symmetric])
qed simp

lemma frees_starts: "frees_at a cs \<subseteq> starts a cs"
  by (force simp: frees_at_def starts_def)

lemma placed_starts: "(x, s, u) \<in> set (placed a cs) \<Longrightarrow> x \<in> starts a cs"
  by (force simp: starts_def)

lemma placed_split:
  "(x, s, u) \<in> set (placed a cs) \<Longrightarrow> \<exists>pre post. cs = pre @ (s, u) # post \<and> x = a + csum pre"
proof (induction a cs rule: placed.induct)
  case (2 a s' u' cs)
  show ?case
  proof (cases "(x, s, u) \<in> set (placed (a + s') cs)")
    case True
    then obtain pre post where "cs = pre @ (s, u) # post" "x = a + s' + csum pre" using 2 by blast
    then have "(s', u') # cs = ((s', u') # pre) @ (s, u) # post \<and> x = a + csum ((s', u') # pre)" by simp
    then show ?thesis by blast
  next
    case False
    then have "x = a \<and> s = s' \<and> u = u'" using 2(2) by simp
    then show ?thesis by (intro exI [of _ "[]"] exI [of _ cs]) auto
  qed
qed simp

section \<open>Regions\<close>

definition region_at :: "mem \<Rightarrow> region \<Rightarrow> bool" where
  "region_at m r \<longleftrightarrow> (case r of (b, cs) \<Rightarrow> nsize b m = 8 \<and> npreceding b m = 2147483648 \<and>
     chunks_at m (b + 8) 8 (cs @ [(8, True)]))"

definition region_ok :: "region \<Rightarrow> bool" where
  "region_ok r \<longleftrightarrow> (case r of (b, cs) \<Rightarrow> 0 < b \<and> b mod 16 = 0 \<and> body_ok cs \<and> csum cs < 2147483648 \<and>
     b + csum cs + 16 \<le> 4294967296)"

definition away :: "nat \<Rightarrow> nat \<Rightarrow> nat \<Rightarrow> nat \<Rightarrow> bool" where
  "away a n b k \<longleftrightarrow> a + n \<le> b \<or> b + k \<le> a"

text \<open>The regions and the array of list heads do not overlap, and there is room for a header behind each region.\<close>

definition layout :: "nat \<Rightarrow> region list \<Rightarrow> bool" where
  "layout nl R \<longleftrightarrow> (\<forall>r \<in> set R. region_ok r \<and> away (fst r) (csum (snd r) + 24) nl 304) \<and>
     sorted_wrt (\<lambda>r r'. away (fst r) (csum (snd r) + 24) (fst r') (csum (snd r') + 24)) R \<and>
     0 < nl \<and> nl + 304 \<le> 4294967296"

definition frees :: "region list \<Rightarrow> nat set" where
  "frees R = (\<Union>(b, cs) \<in> set R. frees_at (b + 8) cs)"

text \<open>The places where the header of a chunk can be.\<close>

definition slots :: "nat \<Rightarrow> region list \<Rightarrow> nat set" where
  "slots nl R = heads nl \<union> (\<Union>(b, cs) \<in> set R. {x. x mod 16 = 8 \<and> b + 8 \<le> x \<and> x \<le> b + 8 + csum cs})"

lemma away_sym: "away a n b k \<longleftrightarrow> away b k a n"
  by (auto simp: away_def)

lemma mod_16_apart: "x mod 16 = (y :: nat) mod 16 \<Longrightarrow> x < y \<Longrightarrow> x + 16 \<le> y"
proof -
  assume a: "x mod 16 = y mod 16" "x < y"
  then have "(y - x) mod 16 = 0" using mod_eq_dvd_iff_nat [of x y 16] by auto
  then have "16 \<le> y - x" using a(2) by (cases "y - x < 16") auto
  then show ?thesis using a(2) by simp
qed

lemma slot_heads: "layout nl R \<Longrightarrow> (b, cs) \<in> set R \<Longrightarrow> b \<le> x \<Longrightarrow> x \<le> b + 8 + csum cs \<Longrightarrow> y \<in> heads nl \<Longrightarrow> apart x y"
  unfolding layout_def heads_def away_def apart_def by fastforce

lemma sep_slots: "layout nl R \<Longrightarrow> sep (slots nl R)"
proof -
  assume l: "layout nl R"
  have h: "x \<in> heads nl \<Longrightarrow> 0 < x \<and> x < 4294967296" for x using l by (auto simp: layout_def heads_def)
  have r: "0 < x \<and> x < 4294967296" if "(b, cs) \<in> set R" "b + 8 \<le> x" "x \<le> b + 8 + csum cs" for x b cs
    using l that unfolding layout_def region_ok_def by fastforce
  have "apart x y" if "x mod 16 = 8" "y mod 16 = 8" "x \<noteq> y" for x y
    using mod_16_apart [of x y] mod_16_apart [of y x] that by (auto simp: apart_def neq_iff)
  moreover have "apart x y" if "x \<in> heads nl" "y \<in> heads nl" "x \<noteq> y" for x y
    using that by (auto simp: heads_def apart_def)
  moreover have "apart x y \<and> apart y x" if "(b, cs) \<in> set R" "b + 8 \<le> x" "x \<le> b + 8 + csum cs" "y \<in> heads nl" for x y b cs
    using slot_heads [OF l that(1) _ that(3,4)] that(2) by (auto simp: apart_def)
  ultimately show ?thesis using h r unfolding sep_def slots_def by blast
qed

definition regions_at :: "mem \<Rightarrow> region list \<Rightarrow> bool" where
  "regions_at m R \<longleftrightarrow> (\<forall>r \<in> set R. region_at m r)"

lemma sorted_wrt_pair: "sorted_wrt P xs \<Longrightarrow> x \<in> set xs \<Longrightarrow> y \<in> set xs \<Longrightarrow> x = y \<or> P x y \<or> P y x"
  by (induction xs) auto

lemma layout_region: "layout nl R \<Longrightarrow> (b, cs) \<in> set R \<Longrightarrow> region_ok (b, cs)"
  by (simp add: layout_def)

lemma layout_pair:
  assumes "layout nl R" "(b, cs) \<in> set R" "(b', cs') \<in> set R"
  shows "(b, cs) = (b', cs') \<or> away b (csum cs + 24) b' (csum cs' + 24)"
proof -
  have "sorted_wrt (\<lambda>r r'. away (fst r) (csum (snd r) + 24) (fst r') (csum (snd r') + 24)) R"
    using assms(1) by (simp add: layout_def)
  from sorted_wrt_pair [OF this assms(2,3)] show ?thesis by (auto simp: away_def)
qed

lemma region_slots:
  assumes l: "layout nl R" and r: "(b, cs) \<in> set R"
  shows "starts (b + 8) (cs @ [(8, True)]) \<subseteq> slots nl R"
proof -
  have ok: "b mod 16 = 0" "body_ok cs" using layout_region [OF l r] by (auto simp: region_ok_def)
  have m: "(b + 8) mod 16 = 8" using ok(1) by (metis add.left_neutral mod_add_left_eq mod_less numeral_less_iff semiring_norm(68,76,78))
  have "(b + 8 + csum cs) mod 16 = 8" using m csum_mod [OF ok(2)] by (metis add.right_neutral mod_add_right_eq)
  then show ?thesis using r m starts_range [OF ok(2), of _ "b + 8"] by (fastforce simp: slots_def)
qed

lemma frees_slots: "layout nl R \<Longrightarrow> frees R \<subseteq> slots nl R"
  using region_slots frees_starts by (fastforce simp: frees_def)

lemma heads_slots: "heads nl \<subseteq> slots nl R"
  by (auto simp: slots_def)

lemma slot_not_head: "layout nl R \<Longrightarrow> (b, cs) \<in> set R \<Longrightarrow> b \<le> x \<Longrightarrow> x \<le> b + 8 + csum cs \<Longrightarrow> x \<notin> heads nl"
  using slot_heads [of nl R b cs x x] by (auto simp: apart_def)

text \<open>The guard at the start of a region is outside of all places of headers.\<close>

lemma guard_slot:
  assumes l: "layout nl R" and r: "(b, cs) \<in> set R" and y: "y \<in> slots nl R"
  shows "b + 8 \<le> y \<or> y + 16 \<le> b"
proof (cases "y \<in> heads nl")
  case True
  then show ?thesis using slot_heads [OF l r, of b y] by (auto simp: apart_def)
next
  case False
  then obtain b' cs' where "(b', cs') \<in> set R" "b' + 8 \<le> y" "y \<le> b' + 8 + csum cs'" using y by (auto simp: slots_def)
  then show ?thesis using layout_pair [OF l r, of b' cs'] by (auto simp: away_def)
qed

lemma guard_put:
  assumes "b + 8 \<le> y \<or> y + 16 \<le> b"
  shows "nsize b (put_size y v m) = nsize b m" "nsize b (put_preceding y v m) = nsize b m"
    "nsize b (put_flink y v m) = nsize b m" "nsize b (put_blink y v m) = nsize b m"
    "npreceding b (put_size y v m) = npreceding b m" "npreceding b (put_preceding y v m) = npreceding b m"
    "npreceding b (put_flink y v m) = npreceding b m" "npreceding b (put_blink y v m) = npreceding b m"
  using assms by (auto simp: field_defs ld_st_other)

lemma frame_guard:
  assumes l: "layout nl R" and r: "(b, cs) \<in> set R" and Y: "Y \<subseteq> slots nl R"
    and f: "frame (\<Union>y \<in> Y. link_bytes y) m m'"
  shows "nsize b m' = nsize b m \<and> npreceding b m' = npreceding b m"
proof -
  have "a \<notin> link_bytes y" if "b \<le> a" "a < b + 8" "y \<in> Y" for a y
    using guard_slot [OF l r, of y] Y that by (auto simp: link_bytes_def)
  then have "m' a = m a" if "b \<le> a" "a < b + 8" for a
    using f that unfolding frame_def by blast
  then show ?thesis by (auto simp: nsize_def npreceding_def intro!: ld_cong)
qed

lemma regions_cong:
  assumes l: "layout nl R" and g: "regions_at m R"
    and k: "\<forall>y \<in> slots nl R. nsize y m' = nsize y m \<and> npreceding y m' = npreceding y m"
    and b: "\<And>b cs. (b, cs) \<in> set R \<Longrightarrow> nsize b m' = nsize b m \<and> npreceding b m' = npreceding b m"
  shows "regions_at m' R"
proof -
  have "region_at m' (b, cs)" if r: "(b, cs) \<in> set R" for b cs
  proof -
    have "chunks_at m' (b + 8) 8 (cs @ [(8, True)]) \<longleftrightarrow> chunks_at m (b + 8) 8 (cs @ [(8, True)])"
      by (rule chunks_at_cong) (use k region_slots [OF l r] in blast)
    moreover have "region_at m (b, cs)" using g r by (simp add: regions_at_def)
    ultimately show ?thesis using b [OF r] by (simp add: region_at_def)
  qed
  then show ?thesis by (auto simp: regions_at_def)
qed

section \<open>Replacement of chunks\<close>

abbreviation (input) fill :: "region list \<Rightarrow> nat \<Rightarrow> chunk list \<Rightarrow> chunk list \<Rightarrow> region list \<Rightarrow> chunk list \<Rightarrow> region list" where
  "fill R1 b pre post R2 mid \<equiv> R1 @ (b, pre @ mid @ post) # R2"

text \<open>The free chunks outside of the part of n bytes between pre and post.\<close>

definition others :: "region list \<Rightarrow> nat \<Rightarrow> chunk list \<Rightarrow> nat \<Rightarrow> chunk list \<Rightarrow> region list \<Rightarrow> nat set" where
  "others R1 b pre n post R2 = frees R1 \<union> frees R2 \<union> frees_at (b + 8) pre \<union> frees_at (b + 8 + csum pre + n) post"

lemma frees_fill: "frees (fill R1 b pre post R2 mid) = others R1 b pre (csum mid) post R2 \<union> frees_at (b + 8 + csum pre) mid"
  by (auto simp: frees_def others_def add.assoc)

lemma layout_fill:
  assumes "layout nl (fill R1 b pre post R2 mid)" "body_ok mid'" "csum mid' = csum mid"
  shows "layout nl (fill R1 b pre post R2 mid')"
  using assms by (auto simp: layout_def sorted_wrt_append region_ok_def)

lemma slots_fill: "csum mid' = csum mid \<Longrightarrow> slots nl (fill R1 b pre post R2 mid') = slots nl (fill R1 b pre post R2 mid)"
  by (auto simp: slots_def)

lemma frees_range: "body_ok cs \<Longrightarrow> x \<in> frees_at a cs \<Longrightarrow> a \<le> x \<and> x + 16 \<le> a + csum cs"
  using starts_range [of cs x a] frees_starts [of a cs] by blast

lemma others_out:
  assumes l: "layout nl (fill R1 b pre post R2 mid)" and x: "x \<in> others R1 b pre (csum mid) post R2"
  shows "x < b + 8 + csum pre \<or> b + 8 + csum pre + csum mid \<le> x"
proof -
  let ?R = "fill R1 b pre post R2 mid"
  have r: "(b, pre @ mid @ post) \<in> set ?R" by simp
  have ok: "body_ok pre" "body_ok post" using layout_region [OF l r] by (auto simp: region_ok_def)
  consider "x \<in> frees_at (b + 8) pre" | "x \<in> frees_at (b + 8 + csum pre + csum mid) post" | "x \<in> frees R1 \<union> frees R2"
    using x by (auto simp: others_def)
  then show ?thesis
  proof cases
    case 1
    then show ?thesis using frees_range [OF ok(1)] by fastforce
  next
    case 2
    then show ?thesis using frees_range [OF ok(2)] by blast
  next
    case 3
    then obtain b' cs' where r': "(b', cs') \<in> set R1 \<union> set R2" and x': "x \<in> frees_at (b' + 8) cs'"
      by (auto simp: frees_def)
    have ok': "body_ok cs'" using layout_region [OF l, of b' cs'] r' by (auto simp: region_ok_def)
    have "away b (csum (pre @ mid @ post) + 24) b' (csum cs' + 24)"
      using l r' by (auto simp: layout_def sorted_wrt_append away_def)
    then show ?thesis using frees_range [OF ok' x'] by (auto simp: away_def)
  qed
qed


lemma regions_replace:
  assumes l: "layout nl (fill R1 b pre post R2 mid)" and g: "regions_at m (fill R1 b pre post R2 mid)"
    and mid': "body_ok mid'" "csum mid' = csum mid"
    and k: "\<And>y. y \<in> slots nl (fill R1 b pre post R2 mid) \<Longrightarrow> y < b + 8 + csum pre \<or> b + 8 + csum pre + csum mid < y \<Longrightarrow>
      nsize y m' = nsize y m \<and> npreceding y m' = npreceding y m"
    and gd: "\<And>b' cs'. (b', cs') \<in> set (fill R1 b pre post R2 mid) \<Longrightarrow> nsize b' m' = nsize b' m \<and> npreceding b' m' = npreceding b' m"
    and c: "chunks_at m' (b + 8 + csum pre) (last_size 8 pre) mid'"
    and n: "nsize (b + 8 + csum pre + csum mid) m' = nsize (b + 8 + csum pre + csum mid) m"
    and p: "\<And>u. npreceding (b + 8 + csum pre + csum mid) m = last_size 8 (pre @ mid) + alloc_bit u \<Longrightarrow>
      npreceding (b + 8 + csum pre + csum mid) m' = last_size 8 (pre @ mid') + alloc_bit u"
  shows "regions_at m' (fill R1 b pre post R2 mid')"
proof -
  let ?R = "fill R1 b pre post R2 mid" and ?A = "b + 8 + csum pre"
  have r: "(b, pre @ mid @ post) \<in> set ?R" by simp
  have ok: "body_ok pre" "body_ok mid" "body_ok post" using layout_region [OF l r] by (auto simp: region_ok_def)
  have other: "region_at m' (b', cs')" if r': "(b', cs') \<in> set R1 \<union> set R2" for b' cs'
  proof -
    have ok': "body_ok cs'" using layout_region [OF l, of b' cs'] r' by (auto simp: region_ok_def)
    have aw: "away b (csum (pre @ mid @ post) + 24) b' (csum cs' + 24)"
      using l r' by (auto simp: layout_def sorted_wrt_append away_def)
    have "x < ?A \<or> ?A + csum mid < x" if "x \<in> starts (b' + 8) (cs' @ [(8, True)])" for x
      using that aw starts_range [OF ok', of x "b' + 8"] by (auto simp: away_def)
    moreover have "starts (b' + 8) (cs' @ [(8, True)]) \<subseteq> slots nl ?R" using r' by (intro region_slots [OF l]) auto
    ultimately have "chunks_at m' (b' + 8) 8 (cs' @ [(8, True)]) \<longleftrightarrow> chunks_at m (b' + 8) 8 (cs' @ [(8, True)])"
      by (intro chunks_at_cong k) auto
    then show ?thesis using g gd [of b' cs'] r' by (auto simp: regions_at_def region_at_def)
  qed
  obtain s u rest where rest: "post @ [(8, True)] = (s, u) # rest" by (cases "post @ [(8, True)]") auto
  have e: "(pre @ x @ post) @ [(8, True)] = pre @ x @ (s, u) # rest" for x using rest by simp
  have "region_at m (b, pre @ mid @ post)" using g by (simp add: regions_at_def)
  then have m: "nsize b m = 8" "npreceding b m = 2147483648" "chunks_at m (b + 8) 8 pre"
    "chunks_at m (?A + csum mid) (last_size 8 (pre @ mid)) ((s, u) # rest)"
    unfolding region_at_def prod.case e by (auto simp: chunks_at_append add.assoc)
  have starts: "starts (?A + csum mid) ((s, u) # rest) \<subseteq> slots nl ?R" "starts (b + 8) pre \<subseteq> slots nl ?R"
    using region_slots [OF l r] unfolding e by (auto simp: add.assoc)
  have s: "0 < s" using rest ok(3) by (cases post) auto
  have "nsize x m' = nsize x m \<and> npreceding x m' = npreceding x m" if x: "x \<in> starts (b + 8) pre" for x
    using k [of x] subsetD [OF starts(2) x] starts_range [OF ok(1) x] by simp
  then have pre: "chunks_at m' (b + 8) 8 pre" using chunks_at_cong [of "b + 8" pre m' m 8] m(3) by blast
  have "chunks_at m' (?A + csum mid + s) s rest"
  proof -
    have "?A + csum mid < x" if x: "x \<in> starts (?A + csum mid + s) rest" for x
    proof (cases post)
      case Nil
      then show ?thesis using rest x by simp
    next
      case (Cons c q)
      then have q: "rest = q @ [(8, True)]" "body_ok q" using rest ok(3) by (auto simp: body_ok_def)
      show ?thesis using x s starts_range [OF q(2), of x "?A + csum mid + s"] unfolding q(1) by auto
    qed
    then have "nsize x m' = nsize x m \<and> npreceding x m' = npreceding x m" if "x \<in> starts (?A + csum mid + s) rest" for x
      using k [of x] starts(1) that by auto
    then show ?thesis using chunks_at_cong [of "?A + csum mid + s" rest m' m s] m(4) by simp
  qed
  then have "chunks_at m' (?A + csum mid) (last_size 8 (pre @ mid')) ((s, u) # rest)"
    using m(4) n p [of u] by simp
  then have "region_at m' (b, pre @ mid' @ post)"
    using pre c m(1,2) gd [OF r] mid'(2) unfolding region_at_def prod.case e by (simp add: chunks_at_append add.assoc)
  then show ?thesis using other by (auto simp: regions_at_def)
qed

end
