(* ===== verification/Mm_Ops.thy ===== *)
theory Mm_Ops
  imports Mm_Regions
begin

text \<open>
  The invariant of the heap and the effect of the operations on it: each takes some chunks of a region out of the free lists,
  rewrites their headers, and puts chunks into the free lists.
\<close>

section \<open>The heap during an operation\<close>

text \<open>The chunks of R are in memory and the nodes of F are in the free lists.\<close>

definition heap_at :: "nat \<Rightarrow> region list \<Rightarrow> nat set \<Rightarrow> mem \<Rightarrow> bool" where
  "heap_at nl R F m \<longleftrightarrow> layout nl R \<and> regions_at m R \<and> free_lists nl F m"

definition heap_ok :: "nat \<Rightarrow> region list \<Rightarrow> mem \<Rightarrow> bool" where
  "heap_ok nl R m \<longleftrightarrow> heap_at nl R (frees R) m"

text \<open>The bytes that belong to the manager: list heads, headers, and the links of free chunks.\<close>

definition mgmt :: "nat \<Rightarrow> region list \<Rightarrow> nat set" where
  "mgmt nl R = (\<Union>y \<in> heads nl. head_bytes y \<union> link_bytes y) \<union>
     (\<Union>(b, cs) \<in> set R. head_bytes b \<union> (\<Union>y \<in> starts (b + 8) (cs @ [(8, True)]). head_bytes y)) \<union>
     (\<Union>y \<in> frees R. link_bytes y)"

lemma heap_unlink:
  assumes h: "heap_at nl R F m" and F: "F \<subseteq> slots nl R" and x: "x \<in> F"
  shows "heap_at nl R (F - {x}) (unlink_node x m)"
    "\<forall>y \<in> slots nl R. nsize y (unlink_node x m) = nsize y m \<and> npreceding y (unlink_node x m) = npreceding y m"
    "frame (\<Union>y \<in> heads nl \<union> F. link_bytes y) m (unlink_node x m)"
proof -
  have l: "layout nl R" and g: "regions_at m R" and f: "free_lists nl F m" using h by (auto simp: heap_at_def)
  have S: "heads nl \<union> F \<subseteq> slots nl R" using F heads_slots by blast
  note u = unlink_ok [OF sep_slots [OF l] S f x]
  show "\<forall>y \<in> slots nl R. nsize y (unlink_node x m) = nsize y m \<and> npreceding y (unlink_node x m) = npreceding y m"
    "frame (\<Union>y \<in> heads nl \<union> F. link_bytes y) m (unlink_node x m)" using u(2,3) .
  show "heap_at nl R (F - {x}) (unlink_node x m)"
    using l u(1) regions_cong [OF l g u(2) frame_guard [OF l _ S u(3)]] by (simp add: heap_at_def)
qed

lemma heap_addfree:
  assumes h: "heap_at nl R F m" and F: "F \<subseteq> slots nl R" and x: "x \<in> slots nl R" "x \<notin> heads nl \<union> F" "16 \<le> nsize x m"
    and nl: "mm_nodelist heap = nl"
  shows "\<exists>m'. mm_addfreechunk heap x m = Some m' \<and> heap_at nl R (insert x F) m' \<and>
    (\<forall>y \<in> slots nl R. nsize y m' = nsize y m \<and> npreceding y m' = npreceding y m) \<and>
    frame (\<Union>y \<in> heads nl \<union> insert x F. link_bytes y) m m'"
proof -
  have l: "layout nl R" and g: "regions_at m R" and f: "free_lists nl F m" using h by (auto simp: heap_at_def)
  have S: "heads nl \<union> insert x F \<subseteq> slots nl R" using F heads_slots x(1) by blast
  obtain m' where m': "mm_addfreechunk heap x m = Some m'" "free_lists nl (insert x F) m'"
    "\<forall>y \<in> slots nl R. nsize y m' = nsize y m \<and> npreceding y m' = npreceding y m"
    "frame (\<Union>y \<in> heads nl \<union> insert x F. link_bytes y) m m'"
    using addfree_ok [OF sep_slots [OF l] S f x(2,3) nl] by blast
  then show ?thesis using l regions_cong [OF l g m'(3) frame_guard [OF l _ S m'(4)]] by (auto simp: heap_at_def)
qed

text \<open>Stores into the headers of the nodes Z.\<close>

definition hdr_change :: "nat \<Rightarrow> region list \<Rightarrow> nat set \<Rightarrow> mem \<Rightarrow> mem \<Rightarrow> bool" where
  "hdr_change nl R Z m m' \<longleftrightarrow>
     (\<forall>y \<in> slots nl R. nflink y m' = nflink y m \<and> nblink y m' = nblink y m) \<and>
     (\<forall>y \<in> slots nl R - Z. nsize y m' = nsize y m \<and> npreceding y m' = npreceding y m) \<and>
     (\<forall>(b, cs) \<in> set R. nsize b m' = nsize b m \<and> npreceding b m' = npreceding b m) \<and>
     frame (\<Union>z \<in> Z. head_bytes z) m m'"

lemma hdr_refl [simp, intro]: "hdr_change nl R Z m m"
  by (auto simp: hdr_change_def)

lemma hdr_put:
  assumes "layout nl R" "z \<in> slots nl R" "z \<in> Z" "hdr_change nl R Z m m'"
  shows "hdr_change nl R Z m (put_size z v m')" "hdr_change nl R Z m (put_preceding z v m')"
    "hdr_change nl R Z m (update_preceding z v m')"
proof -
  note s = sep_links [OF sep_slots [OF assms(1)] _ assms(2)]
  have a: "y \<in> slots nl R - Z \<Longrightarrow> apart y z" for y using sep_apart [OF sep_slots [OF assms(1)] _ assms(2)] assms(3) by blast
  have g: "(b, cs) \<in> set R \<Longrightarrow> b + 8 \<le> z \<or> z + 16 \<le> b" for b cs by (rule guard_slot [OF assms(1) _ assms(2)])
  have f: "head_bytes z \<subseteq> (\<Union>z \<in> Z. head_bytes z)" using assms(3) by blast
  show "hdr_change nl R Z m (put_size z v m')" "hdr_change nl R Z m (put_preceding z v m')"
    using assms(4) s a guard_put [OF g] frame_put(1,2) [OF _ f] unfolding hdr_change_def by (auto split: prod.splits)
  then show "hdr_change nl R Z m (update_preceding z v m')" for v
    using assms(4) s a guard_put [OF g] frame_put(3) [OF _ f]
    unfolding hdr_change_def update_preceding_def by (auto split: prod.splits)
qed

lemma alloc_bit_simps [simp]: "alloc_bit True = 2147483648" "alloc_bit False = 0"
  by (simp_all add: alloc_bit_def)

lemma npreceding_update:
  assumes "npreceding z m = p + alloc_bit u" "p < 2147483648" "v < 2147483648"
  shows "npreceding z (update_preceding z v m) = v + alloc_bit u"
  using assms by (cases u) (simp_all add: update_preceding_def and_alloc_bit or_alloc_bit)

lemma is_alloc_eq: "npreceding z m = p + alloc_bit u \<Longrightarrow> p < 2147483648 \<Longrightarrow> is_alloc z m \<longleftrightarrow> u"
  by (cases u) (simp_all add: is_alloc_def and_alloc_bit)

lemma last_size_lt: "p < n \<Longrightarrow> csum cs < n \<Longrightarrow> last_size p cs < n"
proof (induction cs arbitrary: p)
  case (Cons c cs)
  then show ?case by (cases c) simp
qed simp

lemma hdr_replace:
  assumes h: "heap_at nl (fill R1 b pre post R2 mid) F m" and F: "F \<subseteq> slots nl (fill R1 b pre post R2 mid)"
    and c: "hdr_change nl (fill R1 b pre post R2 mid) Z m m'" and Z: "Z \<subseteq> {b + 8 + csum pre .. b + 8 + csum pre + csum mid}"
    and mid': "body_ok mid'" "csum mid' = csum mid" "chunks_at m' (b + 8 + csum pre) (last_size 8 pre) mid'"
    and ZF: "\<And>z. z \<in> Z \<Longrightarrow> z \<in> heads nl \<union> F \<Longrightarrow> nsize z m' = nsize z m"
    and n: "nsize (b + 8 + csum pre + csum mid) m' = nsize (b + 8 + csum pre + csum mid) m"
    and p: "\<And>u. npreceding (b + 8 + csum pre + csum mid) m = last_size 8 (pre @ mid) + alloc_bit u \<Longrightarrow>
      npreceding (b + 8 + csum pre + csum mid) m' = last_size 8 (pre @ mid') + alloc_bit u"
  shows "heap_at nl (fill R1 b pre post R2 mid') F m'"
proof -
  let ?R = "fill R1 b pre post R2 mid"
  have l: "layout nl ?R" and g: "regions_at m ?R" and f: "free_lists nl F m" using h by (auto simp: heap_at_def)
  have "regions_at m' (fill R1 b pre post R2 mid')"
  proof (rule regions_replace [OF l g mid'(1,2)])
    fix y assume "y \<in> slots nl ?R" "y < b + 8 + csum pre \<or> b + 8 + csum pre + csum mid < y"
    then have "y \<in> slots nl ?R - Z" using Z by auto
    then show "nsize y m' = nsize y m \<and> npreceding y m' = npreceding y m" using c by (auto simp: hdr_change_def)
  next
    fix b' cs' assume "(b', cs') \<in> set ?R"
    then show "nsize b' m' = nsize b' m \<and> npreceding b' m' = npreceding b' m" using c by (auto simp: hdr_change_def)
  qed (use mid'(3) n p in auto)
  moreover have "free_lists nl F m'"
  proof (rule free_lists_cong [OF f])
    fix x assume x: "x \<in> heads nl \<union> F"
    then have "x \<in> slots nl ?R" using F heads_slots by blast
    then show "nsize x m' = nsize x m \<and> nflink x m' = nflink x m \<and> nblink x m' = nblink x m"
      using c ZF [OF _ x] by (cases "x \<in> Z") (auto simp: hdr_change_def)
  qed
  ultimately show ?thesis using layout_fill [OF l mid'(1,2)] by (simp add: heap_at_def)
qed

text \<open>What the invariant says about the chunk behind pre and the one after it.\<close>

lemma chunk_facts:
  assumes l: "layout nl (fill R1 b pre post R2 ((s, u) # mid))" and g: "regions_at m (fill R1 b pre post R2 ((s, u) # mid))"
  shows "nsize (b + 8 + csum pre) m = s" "npreceding (b + 8 + csum pre) m = last_size 8 pre + alloc_bit u"
    "last_size 8 pre < 2147483648" "16 \<le> s" "s mod 16 = 0" "s < 2147483648"
    "b + 8 + csum pre \<in> slots nl (fill R1 b pre post R2 ((s, u) # mid))" "b + 8 + csum pre \<notin> heads nl"
    "b + 8 + csum pre + s \<in> slots nl (fill R1 b pre post R2 ((s, u) # mid))" "b + 8 + csum pre + s \<notin> heads nl"
proof -
  let ?R = "fill R1 b pre post R2 ((s, u) # mid)"
  have r: "(b, pre @ ((s, u) # mid) @ post) \<in> set ?R" by simp
  have "region_at m (b, pre @ ((s, u) # mid) @ post)" using g r by (simp add: regions_at_def)
  then show "nsize (b + 8 + csum pre) m = s" "npreceding (b + 8 + csum pre) m = last_size 8 pre + alloc_bit u"
    by (auto simp: region_at_def chunks_at_append)
  have ok: "body_ok (pre @ ((s, u) # mid) @ post)" "csum (pre @ ((s, u) # mid) @ post) < 2147483648"
    using layout_region [OF l r] by (auto simp: region_ok_def)
  then show "last_size 8 pre < 2147483648" "s < 2147483648" "s mod 16 = 0" by (auto intro: last_size_lt)
  show "16 \<le> s" using body_ok_pos [OF ok(1), of s u] by simp
  show "b + 8 + csum pre \<in> slots nl ?R" using region_slots [OF l r] by auto
  obtain c rest where c: "(mid @ post) @ [(8, True)] = c # rest" by (cases "(mid @ post) @ [(8, True)]") auto
  have e: "(pre @ ((s, u) # mid) @ post) @ [(8, True)] = pre @ (s, u) # c # rest" using c by simp
  show "b + 8 + csum pre + s \<in> slots nl ?R" using region_slots [OF l r] unfolding e by (cases c) auto
  show "b + 8 + csum pre \<notin> heads nl" "b + 8 + csum pre + s \<notin> heads nl"
    using slot_not_head [OF l r, of "b + 8 + csum pre"] slot_not_head [OF l r, of "b + 8 + csum pre + s"] by auto
qed


lemma mgmt_start: "(b, cs) \<in> set R \<Longrightarrow> y \<in> starts (b + 8) (cs @ [(8, True)]) \<Longrightarrow> head_bytes y \<subseteq> mgmt nl R"
  unfolding mgmt_def by blast

lemma mgmt_head: "y \<in> starts (b + 8 + csum pre) mid \<Longrightarrow> head_bytes y \<subseteq> mgmt nl (fill R1 b pre post R2 mid)"
  by (auto simp: mgmt_def)

lemma mgmt_next: "head_bytes (b + 8 + csum pre + csum mid) \<subseteq> mgmt nl (fill R1 b pre post R2 mid)"
proof -
  obtain s u rest where c: "post @ [(8, True)] = (s, u) # rest" by (cases "post @ [(8, True)]") auto
  then have "(pre @ mid @ post) @ [(8, True)] = pre @ mid @ (s, u) # rest" by simp
  then have "b + 8 + csum pre + csum mid \<in> starts (b + 8) ((pre @ mid @ post) @ [(8, True)])"
    by (metis starts_simps(2,3) add.assoc insertCI UnCI)
  then show ?thesis by (intro mgmt_start [of b "pre @ mid @ post"]) simp_all
qed

lemma mgmt_links: "F \<subseteq> frees R \<Longrightarrow> (\<Union>y \<in> heads nl \<union> F. link_bytes y) \<subseteq> mgmt nl R"
  by (auto simp: mgmt_def)

text \<open>The part of n bytes behind pre is taken as one chunk: facts about the free chunks elsewhere.\<close>

lemma others_facts:
  assumes l: "layout nl (fill R1 b pre post R2 mid)"
  shows "others R1 b pre (csum mid) post R2 \<subseteq> slots nl (fill R1 b pre post R2 mid)"
    "y \<in> heads nl \<union> others R1 b pre (csum mid) post R2 \<Longrightarrow> \<not> (b + 8 + csum pre \<le> y \<and> y < b + 8 + csum pre + csum mid)"
proof -
  show "others R1 b pre (csum mid) post R2 \<subseteq> slots nl (fill R1 b pre post R2 mid)"
    using frees_slots [OF l] unfolding frees_fill by blast
  have "y \<in> heads nl \<Longrightarrow> \<not> (b + 8 + csum pre \<le> y \<and> y < b + 8 + csum pre + csum mid)"
    using slot_not_head [OF l, of b "pre @ mid @ post" y] by auto
  then show "y \<in> heads nl \<union> others R1 b pre (csum mid) post R2 \<Longrightarrow> \<not> (b + 8 + csum pre \<le> y \<and> y < b + 8 + csum pre + csum mid)"
    using others_out [OF l, of y] by auto
qed

lemma csum_one: "csum [(s, u)] = s"
  by simp

lemma take_chunk_exact:
  assumes h: "heap_ok nl (fill R1 b pre post R2 [(s, False)]) m" and nl: "mm_nodelist heap = nl"
  shows "\<exists>m'. take_chunk heap s (b + 8 + csum pre) m = Some m' \<and> heap_ok nl (fill R1 b pre post R2 [(s, True)]) m' \<and>
    frame (mgmt nl (fill R1 b pre post R2 [(s, False)]) \<union> mgmt nl (fill R1 b pre post R2 [(s, True)])) m m'"
proof -
  let ?R = "fill R1 b pre post R2 [(s, False)]" and ?R' = "fill R1 b pre post R2 [(s, True)]" and ?x = "b + 8 + csum pre"
  have l: "layout nl ?R" and g: "regions_at m ?R" and h': "heap_at nl ?R (frees ?R) m"
    using h by (auto simp: heap_ok_def heap_at_def)
  note C = chunk_facts [OF l g] and O = others_facts [OF l, unfolded csum_one]
  have F: "frees ?R = insert ?x (others R1 b pre s post R2)" unfolding frees_fill by simp
  have xo: "?x \<notin> others R1 b pre s post R2" using O(2) [of ?x] C(4) by auto
  let ?m1 = "unlink_node ?x m"
  have xF: "?x \<in> frees ?R" and Fx: "frees ?R - {?x} = others R1 b pre s post R2" using F xo by auto
  note u = heap_unlink [OF h' frees_slots [OF l] xF, unfolded Fx]
  have x1: "nsize ?x ?m1 = s" "npreceding ?x ?m1 = last_size 8 pre" using u(2) C(1,2,7) by auto
  let ?m2 = "put_preceding ?x (npreceding ?x ?m1 OR 2147483648) ?m1"
  have t: "take_chunk heap s ?x m = Some ?m2" using x1 C(6) by (simp add: take_chunk_def Let_def sub32_eq)
  have hc: "hdr_change nl ?R {?x} ?m1 ?m2" using C(7) by (intro hdr_put [OF l] hdr_refl) auto
  have p2: "npreceding ?x ?m2 = last_size 8 pre + 2147483648" using x1 C(3) by (simp add: or_alloc_bit)
  have a: "apart (?x + s) ?x" using C(4) by (simp add: apart_def)
  have "heap_at nl ?R' (others R1 b pre s post R2) ?m2"
    by (rule hdr_replace [OF u(1) _ hc]) (use O(1) xo C a p2 x1 in \<open>auto simp: or_alloc_bit\<close>)
  then have "heap_ok nl ?R' ?m2" unfolding heap_ok_def frees_fill by simp
  moreover have "frame (mgmt nl ?R) m ?m2"
    by (intro frame_put frame_mono [OF u(3)] mgmt_links mgmt_head) auto
  ultimately show ?thesis using t frame_mono [OF _ Un_upper1] by blast
qed

lemma slot_mid:
  assumes l: "layout nl (fill R1 b pre post R2 mid)" and k: "k mod 16 = 0" "k \<le> csum mid"
  shows "b + 8 + csum pre + k \<in> slots nl (fill R1 b pre post R2 mid)" "b + 8 + csum pre + k \<notin> heads nl"
proof -
  have r: "(b, pre @ mid @ post) \<in> set (fill R1 b pre post R2 mid)" by simp
  have "b mod 16 = 0" "csum pre mod 16 = 0" using layout_region [OF l r] by (auto simp: region_ok_def)
  then have "(b + 8 + csum pre + k) mod 16 = 8"
    using k(1) by (metis add.commute add.left_neutral mod_add_left_eq mod_less numeral_less_iff semiring_norm(68,76,78))
  then show "b + 8 + csum pre + k \<in> slots nl (fill R1 b pre post R2 mid)"
    unfolding slots_def using k(2) by (intro UnI2 UN_I [OF r]) simp
  show "b + 8 + csum pre + k \<notin> heads nl" using slot_not_head [OF l r, of "b + 8 + csum pre + k"] k(2) by auto
qed

lemma csum_two: "csum [(s, u), (t, v)] = s + t"
  by simp

lemma mod_16_ge: "0 < (k :: nat) \<Longrightarrow> k mod 16 = 0 \<Longrightarrow> 16 \<le> k"
  by (cases "k < 16") auto

lemma mod_16_diff: "(a :: nat) mod 16 = 0 \<Longrightarrow> b mod 16 = 0 \<Longrightarrow> b \<le> a \<Longrightarrow> (a - b) mod 16 = 0"
  by (metis mod_0 mod_mod_trivial mod_eq_0_iff_dvd dvd_diff_nat)

text \<open>Some chunks become two: the header of the second is written first, then the size of
  the first, then the header behind both.\<close>

lemma two_headers:
  assumes h: "heap_at nl (fill R1 b pre post R2 ((t, u) # mid)) F m" and F: "F \<subseteq> slots nl (fill R1 b pre post R2 ((t, u) # mid))"
    and xF: "b + 8 + csum pre \<notin> F" "b + 8 + csum pre + a \<notin> F" and s: "s = csum ((t, u) # mid)"
    and a: "a mod 16 = 0" "0 < a" "a < s"
    and m': "m' = update_preceding (b + 8 + csum pre + s) (s - a) (put_size (b + 8 + csum pre) a
      (put_preceding (b + 8 + csum pre + a) (a + alloc_bit v) (put_size (b + 8 + csum pre + a) (s - a) m)))"
  shows "heap_at nl (fill R1 b pre post R2 [(a, u), (s - a, v)]) F m'"
    "head_bytes (b + 8 + csum pre) \<union> head_bytes (b + 8 + csum pre + a) \<union> head_bytes (b + 8 + csum pre + s) \<subseteq> W \<Longrightarrow> frame W m m'"
proof -
  let ?R = "fill R1 b pre post R2 ((t, u) # mid)" and ?x = "b + 8 + csum pre"
  have l: "layout nl ?R" and g: "regions_at m ?R" using h by (auto simp: heap_at_def)
  note C = chunk_facts [OF l g]
  have r: "(b, pre @ ((t, u) # mid) @ post) \<in> set ?R" by simp
  have ok: "body_ok ((t, u) # mid)" "csum (pre @ ((t, u) # mid)) < 2147483648"
    using layout_region [OF l r] by (auto simp: region_ok_def)
  have S: "s < 2147483648" "s mod 16 = 0" using ok csum_mod [OF ok(1)] s by auto
  have lp: "last_size 8 (pre @ (t, u) # mid) < 2147483648" by (rule last_size_lt) (use ok in auto)
  have y: "?x + a \<in> slots nl ?R" "?x + a \<notin> heads nl" using slot_mid [OF l, of a] a s by auto
  have z: "?x + s \<in> slots nl ?R" using slot_mid [OF l, of s] S s by auto
  have d: "16 \<le> a" "16 \<le> s - a" "(s - a) mod 16 = 0"
    using a S mod_16_ge [of a] mod_16_ge [of "s - a"] mod_16_diff [of s a] by auto
  have ap: "apart ?x (?x + a)" "apart (?x + a) ?x" "apart (?x + a) (?x + s)" "apart (?x + s) (?x + a)"
    "apart ?x (?x + s)" "apart (?x + s) ?x" using d by (auto simp: apart_def)
  have hc: "hdr_change nl ?R {?x, ?x + a, ?x + s} m m'"
    unfolding m' using C(7) y z by (intro hdr_put [OF l] hdr_refl) auto
  have up: "npreceding (?x + s) m' = (s - a) + alloc_bit w" if "npreceding (?x + s) m = last_size 8 (pre @ (t, u) # mid) + alloc_bit w" for w
    unfolding m' by (rule npreceding_update [OF _ lp]) (use that ap S in auto)
  have av: "a + alloc_bit v < 4294967296" using a S by (cases v) auto
  have v: "nsize ?x m' = a" "npreceding ?x m' = last_size 8 pre + alloc_bit u" "nsize (?x + a) m' = s - a"
    "npreceding (?x + a) m' = a + alloc_bit v" "nsize (?x + s) m' = nsize (?x + s) m"
    unfolding m' update_preceding_def using ap C(2) S a av by simp_all
  have c: "chunks_at m' ?x (last_size 8 pre) [(a, u), (s - a, v)]" using v by simp
  have zF: "nsize w m' = nsize w m" if "w \<in> {?x, ?x + a, ?x + s}" "w \<in> heads nl \<union> F" for w
    using that v(5) xF C(8) y(2) by auto
  show "heap_at nl (fill R1 b pre post R2 [(a, u), (s - a, v)]) F m'"
    by (rule hdr_replace [OF h F hc _ _ _ c zF]) (use a d v(5) up s in auto)
  show "head_bytes ?x \<union> head_bytes (?x + a) \<union> head_bytes (?x + s) \<subseteq> W \<Longrightarrow> frame W m m'"
    unfolding m' by (intro frame_put frame_refl) auto
qed

lemmas split_headers = two_headers [where v = False, unfolded alloc_bit_simps add_0_right]

text \<open>The chunk behind pre is marked as allocated.\<close>

lemma set_alloc_bit:
  assumes h: "heap_at nl (fill R1 b pre post R2 ((s, False) # mid)) F m" and F: "F \<subseteq> slots nl (fill R1 b pre post R2 ((s, False) # mid))"
    and m': "m' = put_preceding (b + 8 + csum pre) (npreceding (b + 8 + csum pre) m OR 2147483648) m"
  shows "heap_at nl (fill R1 b pre post R2 ((s, True) # mid)) F m'"
    "head_bytes (b + 8 + csum pre) \<subseteq> W \<Longrightarrow> frame W m m'"
proof -
  let ?R = "fill R1 b pre post R2 ((s, False) # mid)" and ?x = "b + 8 + csum pre"
  have l: "layout nl ?R" and g: "regions_at m ?R" using h by (auto simp: heap_at_def)
  note C = chunk_facts [OF l g]
  have r: "(b, pre @ ((s, False) # mid) @ post) \<in> set ?R" by simp
  have ok: "body_ok ((s, False) # mid)" using layout_region [OF l r] by (auto simp: region_ok_def)
  have hc: "hdr_change nl ?R {?x} m m'" unfolding m' using C(7) by (intro hdr_put [OF l] hdr_refl) auto
  have "region_at m (b, pre @ ((s, False) # mid) @ post)" using g r by (simp add: regions_at_def)
  then have c: "chunks_at m (?x + s) s mid" by (auto simp: region_at_def chunks_at_append)
  have "z \<in> slots nl ?R \<and> z \<noteq> ?x" if "z \<in> starts (?x + s) mid" for z
    using that region_slots [OF l r] starts_range [of mid z "?x + s"] ok C(4) by (auto simp: add.assoc)
  then have "chunks_at m' (?x + s) s mid" using c hc chunks_at_cong [of "?x + s" mid m' m s] by (auto simp: hdr_change_def)
  moreover have "npreceding ?x m' = last_size 8 pre + 2147483648" "nsize ?x m' = s"
    unfolding m' using C(1,2,3) by (simp_all add: or_alloc_bit)
  moreover have "?x + csum ((s, False) # mid) \<in> slots nl ?R - {?x}"
    using slot_mid [OF l, of "csum ((s, False) # mid)"] csum_mod [OF ok] C(4) by auto
  ultimately show "heap_at nl (fill R1 b pre post R2 ((s, True) # mid)) F m'"
    by (intro hdr_replace [OF h F hc]) (use ok m' hc in \<open>auto simp: hdr_change_def\<close>)
  show "head_bytes ?x \<subseteq> W \<Longrightarrow> frame W m m'" unfolding m' by (intro frame_put frame_refl)
qed

lemma take_chunk_split:
  assumes h: "heap_ok nl (fill R1 b pre post R2 [(s, False)]) m" and nl: "mm_nodelist heap = nl"
    and a: "a mod 16 = 0" "0 < a" "a < s"
  shows "\<exists>m'. take_chunk heap a (b + 8 + csum pre) m = Some m' \<and>
    heap_ok nl (fill R1 b pre post R2 [(a, True), (s - a, False)]) m' \<and>
    frame (mgmt nl (fill R1 b pre post R2 [(s, False)]) \<union> mgmt nl (fill R1 b pre post R2 [(a, True), (s - a, False)])) m m'"
proof -
  let ?R = "fill R1 b pre post R2 [(s, False)]" and ?R' = "fill R1 b pre post R2 [(a, True), (s - a, False)]"
    and ?R1 = "fill R1 b pre post R2 [(a, False), (s - a, False)]" and ?x = "b + 8 + csum pre" and ?O = "others R1 b pre s post R2"
  let ?W = "mgmt nl ?R \<union> mgmt nl ?R'"
  have l: "layout nl ?R" and g: "regions_at m ?R" and h': "heap_at nl ?R (frees ?R) m"
    using h by (auto simp: heap_ok_def heap_at_def)
  note C = chunk_facts [OF l g] and O = others_facts [OF l, unfolded csum_one]
  have d: "16 \<le> s - a" using a C(5) mod_16_ge [of "s - a"] mod_16_diff [of s a] by auto
  have F: "frees ?R = insert ?x ?O" "frees ?R' = insert (?x + a) ?O" unfolding frees_fill using a by auto
  have xo: "?x \<notin> ?O" "?x + a \<notin> ?O" using O(2) [of ?x] O(2) [of "?x + a"] C(4) a by auto
  let ?m1 = "unlink_node ?x m"
  have xF: "?x \<in> frees ?R" and Fx: "frees ?R - {?x} = ?O" using F xo by auto
  note u = heap_unlink [OF h' frees_slots [OF l] xF, unfolded Fx]
  have x1: "nsize ?x ?m1 = s" using u(2) C(1,7) by auto
  define m2 where "m2 = update_preceding (?x + s) (s - a) (put_size ?x a (put_preceding (?x + a) a (put_size (?x + a) (s - a) ?m1)))"
  note s2 = split_headers [OF u(1) O(1) xo csum_one [symmetric] a m2_def]
  have sl: "slots nl ?R1 = slots nl ?R" by (rule slots_fill) (use a in simp)
  have l1: "layout nl ?R1" and g1: "regions_at m2 ?R1" using s2(1) by (auto simp: heap_at_def)
  have y: "?x + a \<in> slots nl ?R1" "?x + a \<notin> heads nl" using slot_mid [OF l, of a] a unfolding sl by auto
  have "nsize (?x + a) m2 = s - a" using g1 by (auto simp: regions_at_def region_at_def chunks_at_append)
  then obtain m3 where m3: "mm_addfreechunk heap (?x + a) m2 = Some m3" "heap_at nl ?R1 (insert (?x + a) ?O) m3"
    "frame (\<Union>y \<in> heads nl \<union> insert (?x + a) ?O. link_bytes y) m2 m3"
    using heap_addfree [OF s2(1) _ y(1) _ _ nl] O(1) xo y(2) d unfolding sl by auto
  define m4 where "m4 = put_preceding ?x (npreceding ?x m3 OR 2147483648) m3"
  have "insert (?x + a) ?O \<subseteq> slots nl ?R1" using O(1) y(1) unfolding sl by auto
  note s4 = set_alloc_bit [OF m3(2) this m4_def]
  have "take_chunk heap a ?x m = Some m4"
    using x1 d m3(1) a C(6) by (simp add: take_chunk_def Let_def sub32_eq m2_def m4_def add.assoc)
  moreover have "heap_ok nl ?R' m4" using s4(1) F(2) by (simp add: heap_ok_def)
  moreover have "frame ?W m m4"
  proof -
    have f1: "frame ?W m ?m1" by (intro frame_mono [OF u(3)] le_supI1 mgmt_links) simp
    have w: "head_bytes ?x \<union> head_bytes (?x + a) \<union> head_bytes (?x + s) \<subseteq> ?W"
      using mgmt_head [of ?x b pre "[(a, True), (s - a, False)]" nl R1 post R2] mgmt_next [of b pre "[(s, False)]" nl R1 post R2]
        mgmt_head [of "?x + a" b pre "[(a, True), (s - a, False)]" nl R1 post R2] by auto
    have f2: "frame ?W ?m1 m2" by (rule s2(2) [OF w])
    have f3: "frame ?W m2 m3" by (intro frame_mono [OF m3(3)] le_supI2 mgmt_links) (simp only: F(2) order_refl)
    have f4: "frame ?W m3 m4" by (rule s4(2)) (use w in blast)
    show ?thesis using frame_trans [OF frame_trans [OF frame_trans [OF f1 f2] f3] f4] .
  qed
  ultimately show ?thesis by blast
qed

section \<open>Merging\<close>

text \<open>Two neighbours become one chunk.\<close>

lemma join_headers:
  assumes h: "heap_at nl (fill R1 b pre post R2 [(s, u), (t, v)]) F m" and F: "F \<subseteq> slots nl (fill R1 b pre post R2 [(s, u), (t, v)])"
    and xF: "b + 8 + csum pre \<notin> F"
    and m': "m' = update_preceding (b + 8 + csum pre + s + t) (s + t) (put_size (b + 8 + csum pre) (s + t) m)"
  shows "heap_at nl (fill R1 b pre post R2 [(s + t, u)]) F m'"
    "head_bytes (b + 8 + csum pre) \<union> head_bytes (b + 8 + csum pre + s + t) \<subseteq> W \<Longrightarrow> frame W m m'"
proof -
  let ?R = "fill R1 b pre post R2 [(s, u), (t, v)]" and ?x = "b + 8 + csum pre"
  have l: "layout nl ?R" and g: "regions_at m ?R" using h by (auto simp: heap_at_def)
  note C = chunk_facts [OF l g]
  have r: "(b, pre @ [(s, u), (t, v)] @ post) \<in> set ?R" by simp
  have ok: "0 < t" "t mod 16 = 0" "s + t < 2147483648" using layout_region [OF l r] by (auto simp: region_ok_def)
  have st: "(s + t) mod 16 = 0" using ok(2) C(5) by (metis mod_add_left_eq add.left_neutral)
  have z: "?x + s + t \<in> slots nl ?R" using slot_mid [OF l, of "s + t"] st by (simp add: add.assoc)
  have ap: "apart ?x (?x + s + t)" "apart (?x + s + t) ?x" using C(4) by (auto simp: apart_def)
  have hc: "hdr_change nl ?R {?x, ?x + s + t} m m'"
    unfolding m' using C(7) z by (intro hdr_put [OF l] hdr_refl) auto
  have up: "npreceding (?x + s + t) m' = s + t + alloc_bit w" if "npreceding (?x + s + t) m = t + alloc_bit w" for w
    unfolding m' by (rule npreceding_update [of _ _ t]) (use that ap ok in auto)
  have e: "nsize ?x m' = s + t" "npreceding ?x m' = last_size 8 pre + alloc_bit u" "nsize (?x + s + t) m' = nsize (?x + s + t) m"
    unfolding m' update_preceding_def using ap C(2) ok by auto
  have zF: "?x + s + t \<in> heads nl \<union> F \<Longrightarrow> nsize (?x + s + t) m' = nsize (?x + s + t) m" by (simp add: e)
  have "chunks_at m' ?x (last_size 8 pre) [(s + t, u)]" using e by simp
  then show "heap_at nl (fill R1 b pre post R2 [(s + t, u)]) F m'"
    by (intro hdr_replace [OF h F hc]) (use ok st C(4,8) e xF up in \<open>auto simp: add.assoc\<close>)
  show "head_bytes ?x \<union> head_bytes (?x + s + t) \<subseteq> W \<Longrightarrow> frame W m m'"
    unfolding m' by (intro frame_put frame_refl) auto
qed

text \<open>The chunks behind a free chunk of size s after it has been merged with its neighbour, and its size then.\<close>

fun absorb_next :: "nat \<Rightarrow> chunk list \<Rightarrow> nat \<times> chunk list" where
  "absorb_next s ((t, False) # cs) = (s + t, cs)"
| "absorb_next s cs = (s, cs)"

definition absorb_prev :: "nat \<Rightarrow> chunk list \<Rightarrow> nat \<times> chunk list" where
  "absorb_prev s cs = (if cs \<noteq> [] \<and> \<not> snd (last cs) then (fst (last cs) + s, butlast cs) else (s, cs))"

lemma next_alloc:
  assumes l: "layout nl (fill R1 b pre post R2 mid)" and g: "regions_at m (fill R1 b pre post R2 mid)"
  shows "is_alloc (b + 8 + csum pre + csum mid) m \<longleftrightarrow> (case post of [] \<Rightarrow> True | c # cs \<Rightarrow> snd c)"
proof -
  have r: "(b, pre @ mid @ post) \<in> set (fill R1 b pre post R2 mid)" by simp
  have "csum (pre @ mid @ post) < 2147483648" using layout_region [OF l r] by (auto simp: region_ok_def)
  then have p: "last_size 8 (pre @ mid) < 2147483648" by (intro last_size_lt) auto
  have "region_at m (b, pre @ mid @ post)" using g r by (simp add: regions_at_def)
  then have "npreceding (b + 8 + csum pre + csum mid) m = last_size 8 (pre @ mid) + alloc_bit (case post of [] \<Rightarrow> True | c # cs \<Rightarrow> snd c)"
    by (cases post) (auto simp: region_at_def chunks_at_append add.assoc)
  then show ?thesis using is_alloc_eq p by blast
qed

lemma merge_next_ok:
  assumes h: "heap_at nl (fill R1 b pre post R2 [(s, False)]) (others R1 b pre s post R2) m"
    and a: "absorb_next s post = (n, post')"
  shows "\<exists>m'. merge_next (b + 8 + csum pre) m = (b + 8 + csum pre + n, m') \<and>
    heap_at nl (fill R1 b pre post' R2 [(n, False)]) (others R1 b pre n post' R2) m' \<and>
    frame (mgmt nl (fill R1 b pre post R2 [(s, False)])) m m'"
proof -
  let ?R = "fill R1 b pre post R2 [(s, False)]" and ?x = "b + 8 + csum pre"
  have l: "layout nl ?R" and g: "regions_at m ?R" using h by (auto simp: heap_at_def)
  note C = chunk_facts [OF l g] and O = others_facts [OF l, unfolded csum_one] and al = next_alloc [OF l g, unfolded csum_one]
  show ?thesis
  proof (cases "is_alloc (?x + s) m")
    case True
    then have "n = s \<and> post' = post" using al a by (cases "(s, post)" rule: absorb_next.cases) (auto split: list.splits)
    then show ?thesis using True h C(1) by (auto simp: merge_next_def)
  next
    case False
    then obtain t where t: "post = (t, False) # post'" "n = s + t"
      using al a by (cases "(s, post)" rule: absorb_next.cases) (auto split: list.splits)
    let ?R1 = "fill R1 b pre post' R2 [(s, False), (t, False)]"
    have R1: "?R1 = ?R" using t by simp
    note l' = l [folded R1] and g' = g [folded R1]
    have nx: "nsize (?x + s) m = t" "16 \<le> t" "t < 2147483648" "?x + s \<in> slots nl ?R"
      using chunk_facts [of nl R1 b "pre @ [(s, False)]" t False "[]" post' R2 m] l g t by (simp_all add: add.assoc)
    have O': "others R1 b pre s post R2 = insert (?x + s) (others R1 b pre (s + t) post' R2)"
      using t by (auto simp: others_def add.assoc)
    have xo: "?x + s \<notin> others R1 b pre (s + t) post' R2" "?x \<notin> others R1 b pre (s + t) post' R2"
      using others_facts(2) [OF l', of "?x + s"] others_facts(2) [OF l', of ?x] nx C(4) by auto
    have Ox: "others R1 b pre s post R2 - {?x + s} = others R1 b pre (s + t) post' R2" using O' xo by auto
    have xin: "?x + s \<in> others R1 b pre s post R2" using O' by simp
    note u = heap_unlink [OF h O(1) xin, unfolded Ox]
    have OF: "others R1 b pre s post R2 \<subseteq> frees ?R" unfolding frees_fill csum_one by blast
    let ?m1 = "unlink_node (?x + s) m"
    have x1: "nsize ?x ?m1 = s" "nsize (?x + s) ?m1 = t" using u(2) C(1,7) nx by auto
    define m2 where "m2 = update_preceding (?x + s + t) (s + t) (put_size ?x (s + t) ?m1)"
    have u1: "heap_at nl ?R1 (others R1 b pre (s + t) post' R2) ?m1" using u(1) unfolding R1 .
    note j = join_headers [OF u1 others_facts(1) [OF l', unfolded csum_two] xo(2) m2_def]
    have lt: "s + t < 4294967296" using nx(3) C(6) by simp
    have "merge_next ?x m = (?x + s + t, m2)"
      using False C(1) nx(1) x1 lt by (simp add: merge_next_def Let_def m2_def)
    moreover have "frame (mgmt nl ?R) m m2"
    proof (rule frame_trans)
      show "frame (mgmt nl ?R) m ?m1"
        by (rule frame_mono [OF u(3) mgmt_links [OF OF]])
      show "frame (mgmt nl ?R) ?m1 m2"
        using mgmt_head [of ?x b pre "[(s, False)]" nl R1 post R2]
          mgmt_next [of b pre "[(s, False), (t, False)]" nl R1 post' R2] R1 by (intro j(2)) (auto simp: add.assoc)
    qed
    ultimately show ?thesis using j(1) t(2) by (auto simp: add.assoc)
  qed
qed

lemma prev_alloc:
  assumes l: "layout nl (fill R1 b pre post R2 mid)" and g: "regions_at m (fill R1 b pre post R2 mid)"
  shows "is_alloc (b + 8 + csum pre - last_size 8 pre) m \<longleftrightarrow> pre = [] \<or> snd (last pre)"
proof -
  have r: "(b, pre @ mid @ post) \<in> set (fill R1 b pre post R2 mid)" by simp
  have m: "region_at m (b, pre @ mid @ post)" using g r by (simp add: regions_at_def)
  show ?thesis
  proof (cases pre rule: rev_cases)
    case Nil
    then show ?thesis using m by (simp add: region_at_def is_alloc_def and_alloc_bit)
  next
    case (snoc pre' c)
    have p: "csum (pre @ mid @ post) < 2147483648" using layout_region [OF l r] by (auto simp: region_ok_def)
    then have "last_size 8 pre' < 2147483648" using snoc by (intro last_size_lt) auto
    moreover have "npreceding (b + 8 + csum pre') m = last_size 8 pre' + alloc_bit (snd c)"
      using m snoc by (cases c) (auto simp: region_at_def chunks_at_append add.assoc)
    moreover have "b + 8 + csum pre - last_size 8 pre = b + 8 + csum pre'" using snoc by (cases c) simp
    ultimately show ?thesis using snoc is_alloc_eq [of "b + 8 + csum pre'" m "last_size 8 pre'"] by simp
  qed
qed

lemma merge_prev_ok:
  assumes h: "heap_at nl (fill R1 b pre post R2 [(s, False)]) (others R1 b pre s post R2) m"
    and a: "absorb_prev s pre = (n, pre')"
  shows "\<exists>m'. merge_prev (b + 8 + csum pre) (b + 8 + csum pre + s) m = (b + 8 + csum pre', m') \<and>
    heap_at nl (fill R1 b pre' post R2 [(n, False)]) (others R1 b pre' n post R2) m' \<and>
    frame (mgmt nl (fill R1 b pre post R2 [(s, False)])) m m'"
proof -
  let ?R = "fill R1 b pre post R2 [(s, False)]" and ?x = "b + 8 + csum pre"
  have l: "layout nl ?R" and g: "regions_at m ?R" using h by (auto simp: heap_at_def)
  note C = chunk_facts [OF l g] and O = others_facts [OF l, unfolded csum_one] and al = prev_alloc [OF l g]
  have px: "npreceding ?x m = last_size 8 pre" using C(2) by simp
  show ?thesis
  proof (cases "is_alloc (?x - last_size 8 pre) m")
    case True
    then have "n = s \<and> pre' = pre" using al a by (auto simp: absorb_prev_def)
    then show ?thesis using True h px by (auto simp: merge_prev_def)
  next
    case False
    then have f: "pre \<noteq> []" "\<not> snd (last pre)" using al by auto
    obtain r where r: "pre = pre' @ [(r, False)]" "n = r + s"
      using f a by (cases pre rule: rev_cases) (auto simp: absorb_prev_def)
    let ?y = "b + 8 + csum pre'"
    let ?R1 = "fill R1 b pre' post R2 [(r, False), (s, False)]"
    have R1: "?R1 = ?R" using r by simp
    note l' = l [folded R1] and g' = g [folded R1]
    note D = chunk_facts [OF l' g']
    have xy: "?x = ?y + r" "?x - last_size 8 pre = ?y" using r by auto
    have O': "others R1 b pre s post R2 = insert ?y (others R1 b pre' (r + s) post R2)"
      using r by (auto simp: others_def add.assoc)
    have yo: "?y \<notin> others R1 b pre' (r + s) post R2" using others_facts(2) [OF l', of ?y] D(4) by auto
    have yin: "?y \<in> others R1 b pre s post R2" and Oy: "others R1 b pre s post R2 - {?y} = others R1 b pre' (r + s) post R2"
      using O' yo by auto
    note u = heap_unlink [OF h O(1) yin, unfolded Oy]
    have OF: "others R1 b pre s post R2 \<subseteq> frees ?R" unfolding frees_fill csum_one by blast
    let ?m1 = "unlink_node ?y m"
    have y1: "nsize ?x ?m1 = s" "nsize ?y ?m1 = r" using u(2) C(1,7) D(1,7) R1 by auto
    define m2 where "m2 = update_preceding (?y + r + s) (r + s) (put_size ?y (r + s) ?m1)"
    have u1: "heap_at nl ?R1 (others R1 b pre' (r + s) post R2) ?m1" using u(1) unfolding R1 .
    note j = join_headers [OF u1 others_facts(1) [OF l', unfolded csum_two] yo m2_def]
    have lt: "r + s < 4294967296" using D(6) C(6) by simp
    have "last_size 8 pre = r" using r by simp
    then have "merge_prev (?y + r) (?y + r + s) m = (?y, m2)"
      using False px y1 lt by (simp only: merge_prev_def Let_def m2_def xy) simp
    then have "merge_prev ?x (?x + s) m = (?y, m2)" by (simp only: xy)
    moreover have "frame (mgmt nl ?R) m m2"
    proof (rule frame_trans)
      show "frame (mgmt nl ?R) m ?m1" by (rule frame_mono [OF u(3) mgmt_links [OF OF]])
      show "frame (mgmt nl ?R) ?m1 m2"
        using mgmt_head [of ?y b pre' "[(r, False), (s, False)]" nl R1 post R2]
          mgmt_next [of b pre "[(s, False)]" nl R1 post R2] R1 xy(1) by (intro j(2)) (auto simp: add.assoc)
    qed
    ultimately show ?thesis using j(1) r(2) by auto
  qed
qed

text \<open>The chunk behind pre is marked as free.\<close>

lemma clear_alloc_bit:
  assumes h: "heap_at nl (fill R1 b pre post R2 [(s, True)]) F m" and F: "F \<subseteq> slots nl (fill R1 b pre post R2 [(s, True)])"
    and m': "m' = put_preceding (b + 8 + csum pre) (npreceding (b + 8 + csum pre) m AND not32 2147483648) m"
  shows "heap_at nl (fill R1 b pre post R2 [(s, False)]) F m'"
    "head_bytes (b + 8 + csum pre) \<subseteq> W \<Longrightarrow> frame W m m'"
proof -
  let ?R = "fill R1 b pre post R2 [(s, True)]" and ?x = "b + 8 + csum pre"
  have l: "layout nl ?R" and g: "regions_at m ?R" using h by (auto simp: heap_at_def)
  note C = chunk_facts [OF l g]
  have hc: "hdr_change nl ?R {?x} m m'" unfolding m' using C(7) by (intro hdr_put [OF l] hdr_refl) auto
  have v: "npreceding ?x m' = last_size 8 pre" "nsize ?x m' = s"
    unfolding m' using C(1,2,3) by (simp_all add: and_not_alloc_bit)
  have a: "apart (?x + s) ?x" using C(4) by (simp add: apart_def)
  then have v': "npreceding (?x + s) m' = npreceding (?x + s) m" "nsize (?x + s) m' = nsize (?x + s) m" unfolding m' by simp_all
  show "heap_at nl (fill R1 b pre post R2 [(s, False)]) F m'"
    by (rule hdr_replace [OF h F hc]) (use C v v' in auto)
  show "head_bytes ?x \<subseteq> W \<Longrightarrow> frame W m m'" unfolding m' by (intro frame_put frame_refl)
qed

end
