(* ===== verification/Mm_Laws.thy ===== *)
theory Mm_Laws
  imports Mm_Ops
begin

text \<open>
  The effect of the functions of the memory manager on the chunks of the heap.
\<close>

section \<open>The bytes of the manager\<close>

definition headers :: "region list \<Rightarrow> nat set" where
  "headers R = (\<Union>(b, cs) \<in> set R. insert b (starts (b + 8) (cs @ [(8, True)])))"

lemma Un_mono_3: "A \<subseteq> B \<Longrightarrow> C \<subseteq> D \<union> E \<Longrightarrow> H \<union> A \<union> C \<subseteq> H \<union> B \<union> D \<union> E"
  by blast

lemma mgmt_mono:
  assumes "headers R' \<subseteq> headers R" "frees R' \<subseteq> frees R \<union> X"
  shows "mgmt nl R' \<subseteq> mgmt nl R \<union> (\<Union>x \<in> X. link_bytes x)"
proof -
  have e: "mgmt nl R = (\<Union>y \<in> heads nl. head_bytes y \<union> link_bytes y) \<union> (\<Union>y \<in> headers R. head_bytes y) \<union> (\<Union>y \<in> frees R. link_bytes y)" for R
    unfolding mgmt_def headers_def by blast
  have "(\<Union>y \<in> headers R'. head_bytes y) \<subseteq> (\<Union>y \<in> headers R. head_bytes y)" using assms(1) by (rule UN_mono) simp
  moreover have "(\<Union>y \<in> frees R'. link_bytes y) \<subseteq> (\<Union>y \<in> frees R \<union> X. link_bytes y)" using assms(2) by (rule UN_mono) simp
  ultimately show ?thesis unfolding e UN_Un by (rule Un_mono_3)
qed

lemma headers_fill:
  "headers (fill R1 b pre post R2 mid) =
     headers R1 \<union> headers R2 \<union> insert b (starts (b + 8) pre) \<union> starts (b + 8 + csum pre) mid \<union>
     starts (b + 8 + csum pre + csum mid) (post @ [(8, True)])"
  by (auto simp: headers_def add.assoc)

section \<open>The semaphore\<close>

text \<open>The caller holds the semaphore already, or it is free.\<close>

definition sem_ready :: "int \<Rightarrow> mm_heap_s \<Rightarrow> bool" where
  "sem_ready pid heap \<longleftrightarrow>
     mm_holder heap = pid \<and> 0 < mm_counts_held heap \<or>
     mm_holder heap = NO_HOLDER \<and> mm_counts_held heap = 0 \<and> 0 < semcount (mm_semaphore heap) \<and> pid \<noteq> NO_HOLDER"

lemma take_give:
  assumes "sem_ready pid heap"
  shows "\<exists>h. mm_takesemaphore pid heap = Some h \<and> mm_givesemaphore h = heap \<and> mm_nodelist h = mm_nodelist heap"
proof (cases "mm_holder heap = pid \<and> 0 < mm_counts_held heap")
  case True
  then show ?thesis by (cases heap) (auto simp: mm_takesemaphore_def mm_givesemaphore_def)
next
  case False
  then have "mm_holder heap = NO_HOLDER" "mm_counts_held heap = 0" "0 < semcount (mm_semaphore heap)" "pid \<noteq> NO_HOLDER"
    using assms by (auto simp: sem_ready_def)
  then show ?thesis by (cases heap) (auto simp: mm_takesemaphore_def mm_givesemaphore_def)
qed

section \<open>Release\<close>

text \<open>The chunks of a region after the chunk between pre and post, of size s, is freed.\<close>

definition free_chunk :: "chunk list \<Rightarrow> nat \<Rightarrow> chunk list \<Rightarrow> chunk list" where
  "free_chunk pre s post =
     (let (n, post') = absorb_next s post; (n', pre') = absorb_prev n pre in pre' @ [(n', False)] @ post')"

lemma free_chunk_headers:
  assumes "absorb_next s post = (n, post')" "absorb_prev n pre = (n', pre')"
  shows "headers (fill R1 b pre post' R2 [(n, False)]) \<subseteq> headers (fill R1 b pre post R2 [(s, u)])"
    "headers (fill R1 b pre' post' R2 [(n', False)]) \<subseteq> headers (fill R1 b pre post R2 [(s, u)])"
    "frees (fill R1 b pre post' R2 [(n, False)]) \<subseteq> frees (fill R1 b pre post R2 [(s, u)]) \<union> {b + 8 + csum pre}"
    "frees (fill R1 b pre' post' R2 [(n', False)]) \<subseteq> frees (fill R1 b pre post R2 [(s, u)]) \<union> {b + 8 + csum pre}"
proof -
  have nx: "n = s \<and> post' = post \<or> (\<exists>t. post = (t, False) # post' \<and> n = s + t)"
    using assms(1) by (cases "(s, post)" rule: absorb_next.cases) auto
  have pv: "n' = n \<and> pre' = pre \<or> (\<exists>r. pre = pre' @ [(r, False)] \<and> n' = r + n)"
    using assms(2) by (cases pre rule: rev_cases) (auto simp: absorb_prev_def split: if_splits)
  show "headers (fill R1 b pre post' R2 [(n, False)]) \<subseteq> headers (fill R1 b pre post R2 [(s, u)])"
    "frees (fill R1 b pre post' R2 [(n, False)]) \<subseteq> frees (fill R1 b pre post R2 [(s, u)]) \<union> {b + 8 + csum pre}"
    using nx unfolding headers_fill frees_fill others_def by (auto simp: add.assoc)
  show "headers (fill R1 b pre' post' R2 [(n', False)]) \<subseteq> headers (fill R1 b pre post R2 [(s, u)])"
    "frees (fill R1 b pre' post' R2 [(n', False)]) \<subseteq> frees (fill R1 b pre post R2 [(s, u)]) \<union> {b + 8 + csum pre}"
    using nx pv unfolding headers_fill frees_fill others_def by (auto simp: add.assoc)
qed

lemma mm_free_unfold:
  assumes "mm_takesemaphore pid heap = Some h" "mm_givesemaphore h = heap"
    "merge_next x (put_preceding x (npreceding x m AND not32 2147483648) m) = (z, m1)" "merge_prev x z m1 = (y, m2)"
    "mm_addfreechunk h y m2 = Some m3"
  shows "mm_free pid (x + 8) (heap, m) = Some (heap, m3)"
  using assms by (simp add: mm_free_def Let_def)

lemma mm_free_ok:
  assumes h: "heap_ok nl (fill R1 b pre post R2 [(s, True)]) m" and nl: "mm_nodelist heap = nl" and sem: "sem_ready pid heap"
  shows "\<exists>m'. mm_free pid (b + 8 + csum pre + 8) (heap, m) = Some (heap, m') \<and>
    heap_ok nl (R1 @ (b, free_chunk pre s post) # R2) m' \<and>
    frame (mgmt nl (fill R1 b pre post R2 [(s, True)]) \<union> link_bytes (b + 8 + csum pre)) m m'"
proof -
  let ?R = "fill R1 b pre post R2 [(s, True)]" and ?x = "b + 8 + csum pre"
  let ?W = "mgmt nl ?R \<union> link_bytes ?x"
  have l: "layout nl ?R" and g: "regions_at m ?R" and h': "heap_at nl ?R (frees ?R) m"
    using h by (auto simp: heap_ok_def heap_at_def)
  note C = chunk_facts [OF l g] and O = others_facts [OF l, unfolded csum_one]
  obtain n post' where a1: "absorb_next s post = (n, post')" by force
  obtain n' pre' where a2: "absorb_prev n pre = (n', pre')" by force
  note H = free_chunk_headers [OF a1 a2, of R1 b R2 True]
  have F: "frees ?R = others R1 b pre s post R2" unfolding frees_fill by simp
  define m1 where "m1 = put_preceding ?x (npreceding ?x m AND not32 2147483648) m"
  note c = clear_alloc_bit [OF h' frees_slots [OF l] m1_def, unfolded F]
  obtain m2 where m2: "merge_next ?x m1 = (?x + n, m2)"
    "heap_at nl (fill R1 b pre post' R2 [(n, False)]) (others R1 b pre n post' R2) m2"
    "frame (mgmt nl (fill R1 b pre post R2 [(s, False)])) m1 m2" using merge_next_ok [OF c(1) a1] by blast
  obtain m3 where m3: "merge_prev ?x (?x + n) m2 = (b + 8 + csum pre', m3)"
    "heap_at nl (fill R1 b pre' post' R2 [(n', False)]) (others R1 b pre' n' post' R2) m3"
    "frame (mgmt nl (fill R1 b pre post' R2 [(n, False)])) m2 m3" using merge_prev_ok [OF m2(2) a2] by blast
  let ?R' = "fill R1 b pre' post' R2 [(n', False)]" and ?y = "b + 8 + csum pre'"
  have l': "layout nl ?R'" and g': "regions_at m3 ?R'" using m3(2) by (auto simp: heap_at_def)
  note C' = chunk_facts [OF l' g'] and O' = others_facts [OF l', unfolded csum_one]
  have F': "frees ?R' = insert ?y (others R1 b pre' n' post' R2)" unfolding frees_fill by simp
  have yo: "?y \<notin> heads nl \<union> others R1 b pre' n' post' R2" using O'(2) [of ?y] C'(4) by auto
  obtain m4 where m4: "mm_addfreechunk heap ?y m3 = Some m4" "heap_at nl ?R' (insert ?y (others R1 b pre' n' post' R2)) m4"
    "frame (\<Union>y \<in> heads nl \<union> insert ?y (others R1 b pre' n' post' R2). link_bytes y) m3 m4"
    using heap_addfree [OF m3(2) O'(1) C'(7) yo _ nl] C'(1,4) by auto
  obtain h0 where h0: "mm_takesemaphore pid heap = Some h0" "mm_givesemaphore h0 = heap" "mm_nodelist h0 = mm_nodelist heap"
    using take_give [OF sem] by blast
  have add: "mm_addfreechunk h0 ?y m3 = Some m4" using m4(1) h0(3) by (simp add: mm_addfreechunk_def node_head_def)
  have "mm_free pid (?x + 8) (heap, m) = Some (heap, m4)"
    by (rule mm_free_unfold [OF h0(1,2) m2(1) [unfolded m1_def] m3(1) add])
  moreover have "heap_ok nl ?R' m4" using m4(2) F' by (simp add: heap_ok_def)
  moreover have "frame ?W m m4"
  proof -
    have s0: "headers (fill R1 b pre post R2 [(s, False)]) \<subseteq> headers ?R" unfolding headers_fill by simp
    have s1: "frees (fill R1 b pre post R2 [(s, False)]) \<subseteq> frees ?R \<union> {?x}" unfolding frees_fill by auto
    have f1: "frame ?W m m1" by (rule c(2)) (use mgmt_head [of ?x b pre "[(s, True)]" nl R1 post R2] in auto)
    have f2: "frame ?W m1 m2" using frame_mono [OF m2(3)] mgmt_mono [OF s0 s1, of nl] by simp
    have f3: "frame ?W m2 m3" using frame_mono [OF m3(3)] mgmt_mono [OF H(1,3), of nl] by simp
    have "mgmt nl ?R' \<subseteq> ?W" using mgmt_mono [OF H(2,4), of nl] by simp
    then have f4: "frame ?W m3 m4" by (rule frame_mono [OF m4(3) order_trans [OF mgmt_links [OF eq_refl [OF F' [symmetric]]]]])
    show ?thesis using frame_trans [OF frame_trans [OF frame_trans [OF f1 f2] f3] f4] .
  qed
  ultimately show ?thesis using a1 a2 by (auto simp: free_chunk_def)
qed

section \<open>Allocation\<close>

text \<open>A free chunk of size s of which a bytes are allocated.\<close>

definition cut :: "nat \<Rightarrow> nat \<Rightarrow> chunk list" where
  "cut a s = (if a = s then [(s, True)] else [(a, True), (s - a, False)])"

lemma region_split:
  assumes "(b, cs) \<in> set R" "(x, s, u) \<in> set (placed (b + 8) cs)"
  shows "\<exists>R1 pre post R2. R = fill R1 b pre post R2 [(s, u)] \<and> x = b + 8 + csum pre"
proof -
  obtain R1 R2 where "R = R1 @ (b, cs) # R2" using split_list [OF assms(1)] by blast
  moreover obtain pre post where "cs = pre @ (s, u) # post" "x = b + 8 + csum pre" using placed_split [OF assms(2)] by blast
  ultimately have "R = fill R1 b pre post R2 [(s, u)] \<and> x = b + 8 + csum pre" by simp
  then show ?thesis by blast
qed

lemma frees_split: "x \<in> frees R \<Longrightarrow> \<exists>R1 b pre s post R2. R = fill R1 b pre post R2 [(s, False)] \<and> x = b + 8 + csum pre"
  using region_split by (fastforce simp: frees_def frees_at_def)

lemma take_chunk_ok:
  assumes h: "heap_ok nl (fill R1 b pre post R2 [(s, False)]) m" and nl: "mm_nodelist heap = nl"
    and a: "a mod 16 = 0" "0 < a" "a \<le> s"
  shows "\<exists>m'. take_chunk heap a (b + 8 + csum pre) m = Some m' \<and> heap_ok nl (fill R1 b pre post R2 (cut a s)) m' \<and>
    frame (mgmt nl (fill R1 b pre post R2 [(s, False)]) \<union> mgmt nl (fill R1 b pre post R2 (cut a s))) m m'"
proof (cases "a = s")
  case True
  then show ?thesis using take_chunk_exact [OF h nl] by (simp add: cut_def)
next
  case False
  then have "cut a s = [(a, True), (s - a, False)]" "a < s" using a by (auto simp: cut_def)
  then show ?thesis using take_chunk_split [OF h nl a(1,2)] by simp
qed

lemma align_chunk:
  assumes "0 < sz" "sz + 23 < 4294967296"
  shows "sz + 8 \<le> MM_ALIGN_UP (sz + 8)" "MM_ALIGN_UP (sz + 8) < sz + 24" "MM_ALIGN_UP (sz + 8) mod 16 = 0" "16 \<le> MM_ALIGN_UP (sz + 8)"
  using align_up_bounds [of "sz + 8"] assms mod_16_ge [of "MM_ALIGN_UP (sz + 8)"] by auto

lemma malloc_ndx: "(if 4194304 \<le> a then 19 - 1 else mm_size2ndx a) = mm_size2ndx a"
  by (simp add: size2ndx_large)

lemma mm_malloc_ok:
  assumes h: "heap_ok nl R m" and nl: "mm_nodelist heap = nl" and sem: "sem_ready pid heap"
    and sz: "0 < sz" "sz + 23 < 4294967296"
  obtains (none) "mm_malloc pid sz (heap, m) = Some (0, heap, m)" "\<forall>x \<in> frees R. nsize x m < MM_ALIGN_UP (sz + 8)"
  | (some) R1 b pre s post R2 m' where "R = fill R1 b pre post R2 [(s, False)]" "MM_ALIGN_UP (sz + 8) \<le> s"
      "\<forall>x \<in> frees R. MM_ALIGN_UP (sz + 8) \<le> nsize x m \<longrightarrow> s \<le> nsize x m"
      "mm_malloc pid sz (heap, m) = Some (b + 8 + csum pre + 8, heap, m')"
      "heap_ok nl (fill R1 b pre post R2 (cut (MM_ALIGN_UP (sz + 8)) s)) m'"
      "frame (mgmt nl R \<union> mgmt nl (fill R1 b pre post R2 (cut (MM_ALIGN_UP (sz + 8)) s))) m m'"
proof -
  let ?a = "MM_ALIGN_UP (sz + 8)"
  note A = align_chunk [OF sz]
  have l: "layout nl R" and g: "regions_at m R" and f: "free_lists nl (frees R) m" using h by (auto simp: heap_ok_def heap_at_def)
  have S: "heads nl \<union> frees R \<subseteq> slots nl R" using frees_slots [OF l] heads_slots by blast
  obtain n where n: "find_chunk ?a (nflink (nl + 16 * mm_size2ndx ?a) m) m = Some n"
    "n = 0 \<and> (\<forall>x \<in> frees R. nsize x m < ?a) \<or>
     n \<in> frees R \<and> ?a \<le> nsize n m \<and> (\<forall>y \<in> frees R. ?a \<le> nsize y m \<longrightarrow> nsize n m \<le> nsize y m)"
    using find_chunk_ok [OF sep_slots [OF l] S f A(4)] by blast
  obtain h0 where h0: "mm_takesemaphore pid heap = Some h0" "mm_givesemaphore h0 = heap" "mm_nodelist h0 = nl"
    using take_give [OF sem] nl by metis
  have un: "mm_malloc pid sz (heap, m) = (if n \<noteq> 0 then map_option (\<lambda>m'. (n + 8, heap, m')) (take_chunk h0 ?a n m) else Some (0, heap, m))"
    using sz(1) h0 n(1) unfolding mm_malloc_def Let_def malloc_ndx
    by (cases "take_chunk h0 ?a n m") (simp_all add: node_head_def)
  show thesis
  proof (cases "n = 0")
    case True
    have "0 \<notin> frees R" using S sep_range [OF sep_slots [OF l], of 0] by auto
    then show thesis using n(2) True none un by auto
  next
    case False
    then have nF: "n \<in> frees R" "?a \<le> nsize n m" "\<forall>y \<in> frees R. ?a \<le> nsize y m \<longrightarrow> nsize n m \<le> nsize y m" using n(2) by auto
    obtain R1 b pre s post R2 where R: "R = fill R1 b pre post R2 [(s, False)]" and x: "n = b + 8 + csum pre"
      using frees_split [OF nF(1)] by blast
    have s: "nsize n m = s" using chunk_facts(1) [OF l [unfolded R] g [unfolded R]] x by simp
    obtain m' where m': "take_chunk h0 ?a n m = Some m'" "heap_ok nl (fill R1 b pre post R2 (cut ?a s)) m'"
      "frame (mgmt nl R \<union> mgmt nl (fill R1 b pre post R2 (cut ?a s))) m m'"
      using take_chunk_ok [OF h [unfolded R] h0(3), of ?a] A nF(2) s unfolding R x by auto
    show thesis by (rule some [OF R _ _ _ m'(2,3)]) (use nF s un False m'(1) x in auto)
  qed
qed

section \<open>Shrinking\<close>

text \<open>The last steps of an operation: one chunk that is not in the lists yet is added, and all free chunks are listed then.\<close>

lemma add_last:
  assumes h: "heap_at nl R F m" and x: "x \<notin> F" "x \<notin> heads nl" "16 \<le> nsize x m" and F: "frees R = insert x F" and nl: "mm_nodelist heap = nl"
  shows "\<exists>m'. mm_addfreechunk heap x m = Some m' \<and> heap_ok nl R m' \<and>
    (\<forall>y \<in> slots nl R. nsize y m' = nsize y m \<and> npreceding y m' = npreceding y m) \<and> frame (mgmt nl R) m m'"
proof -
  have l: "layout nl R" using h by (simp add: heap_at_def)
  have s: "F \<subseteq> slots nl R" "x \<in> slots nl R" using frees_slots [OF l] F by auto
  obtain m' where m': "mm_addfreechunk heap x m = Some m'" "heap_at nl R (insert x F) m'"
    "\<forall>y \<in> slots nl R. nsize y m' = nsize y m \<and> npreceding y m' = npreceding y m"
    "frame (\<Union>y \<in> heads nl \<union> insert x F. link_bytes y) m m'"
    using heap_addfree [OF h s _ x(3) nl] x by blast
  have "frame (mgmt nl R) m m'" by (rule frame_mono [OF m'(4) mgmt_links [OF eq_refl [OF F [symmetric]]]])
  then show ?thesis using m' F by (auto simp: heap_ok_def)
qed

lemma update_alloc: "is_alloc x m \<Longrightarrow> update_preceding x v m = put_preceding x (v OR 2147483648) m"
  by (auto simp: update_preceding_def is_alloc_def and_alloc_bit split: if_splits)

lemma is_alloc_put: "apart x y \<Longrightarrow> is_alloc x (put_size y v m) = is_alloc x m" "apart x y \<Longrightarrow> is_alloc x (put_preceding y v m) = is_alloc x m"
  by (simp_all add: is_alloc_def)

text \<open>An allocated chunk and the free chunk behind it get a new border.\<close>

lemma move_border:
  assumes h: "heap_ok nl (fill R1 b pre post R2 [(s, True), (t, False)]) m" and nl: "mm_nodelist heap = nl"
    and a: "a mod 16 = 0" "0 < a" "a < s + t"
  shows "nsize (b + 8 + csum pre) (unlink_node (b + 8 + csum pre + s) m) = s"
    "nsize (b + 8 + csum pre + s) (unlink_node (b + 8 + csum pre + s) m) = t"
    "\<not> is_alloc (b + 8 + csum pre + s) m" "nsize (b + 8 + csum pre) m = s" "nsize (b + 8 + csum pre + s) m = t" "s + t < 4294967296"
    "\<exists>m'. mm_addfreechunk heap (b + 8 + csum pre + a) (update_preceding (b + 8 + csum pre + (s + t)) (s + t - a)
         (put_size (b + 8 + csum pre) a (put_preceding (b + 8 + csum pre + a) a (put_size (b + 8 + csum pre + a) (s + t - a)
           (unlink_node (b + 8 + csum pre + s) m))))) = Some m' \<and>
      heap_ok nl (fill R1 b pre post R2 [(a, True), (s + t - a, False)]) m' \<and>
      frame (mgmt nl (fill R1 b pre post R2 [(s, True), (t, False)]) \<union> mgmt nl (fill R1 b pre post R2 [(a, True), (s + t - a, False)])) m m'"
proof -
  let ?R = "fill R1 b pre post R2 [(s, True), (t, False)]" and ?x = "b + 8 + csum pre" and ?O = "others R1 b pre (s + t) post R2"
  let ?R' = "fill R1 b pre post R2 [(a, True), (s + t - a, False)]"
  let ?W = "mgmt nl ?R \<union> mgmt nl ?R'"
  have l: "layout nl ?R" and g: "regions_at m ?R" and h': "heap_at nl ?R (frees ?R) m"
    using h by (auto simp: heap_ok_def heap_at_def)
  note C = chunk_facts [OF l g] and O = others_facts [OF l, unfolded csum_two]
  have N: "nsize (?x + s) m = t" "16 \<le> t" "t < 2147483648" "t mod 16 = 0"
    using chunk_facts [of nl R1 b "pre @ [(s, True)]" t False "[]" post R2 m] l g by (simp_all add: add.assoc)
  show "\<not> is_alloc (?x + s) m"
    using next_alloc [of nl R1 b pre "[(s, True)]" "(t, False) # post" R2 m] l g by simp
  show "nsize ?x m = s" "nsize (?x + s) m = t" "s + t < 4294967296" using C(1,6) N by auto
  have F: "frees ?R = insert (?x + s) ?O" "frees ?R' = insert (?x + a) ?O"
    unfolding frees_fill using a by auto
  have o: "?x \<notin> ?O" "?x + s \<notin> ?O" "?x + a \<notin> ?O" "?x + a \<notin> heads nl"
    using O(2) [of ?x] O(2) [of "?x + s"] O(2) [of "?x + a"] N C(4) a by auto
  let ?m1 = "unlink_node (?x + s) m"
  have xF: "?x + s \<in> frees ?R" and Fx: "frees ?R - {?x + s} = ?O" using F o by auto
  note u = heap_unlink [OF h' frees_slots [OF l] xF, unfolded Fx]
  show "nsize ?x ?m1 = s" "nsize (?x + s) ?m1 = t" using u(2) C(1,7,9) N by auto
  define m2 where "m2 = update_preceding (?x + (s + t)) (s + t - a) (put_size ?x a (put_preceding (?x + a) a (put_size (?x + a) (s + t - a) ?m1)))"
  note s2 = split_headers [OF u(1) O(1) o(1,3) csum_two [symmetric] a m2_def]
  have g2: "regions_at m2 ?R'" using s2(1) by (simp add: heap_at_def)
  have sz: "nsize (?x + a) m2 = s + t - a" using g2 by (auto simp: regions_at_def region_at_def chunks_at_append)
  have "(s + t) mod 16 = 0" using N(4) C(5) by (metis mod_add_left_eq add.left_neutral)
  then have "16 \<le> nsize (?x + a) m2" using sz a mod_16_ge [of "s + t - a"] mod_16_diff [of "s + t" a] by auto
  then obtain m3 where m3: "mm_addfreechunk heap (?x + a) m2 = Some m3" "heap_ok nl ?R' m3" "frame (mgmt nl ?R') m2 m3"
    using add_last [OF s2(1) o(3,4) _ F(2) nl] by blast
  have "frame ?W m m3"
  proof -
    have f1: "frame ?W m ?m1" by (intro frame_mono [OF u(3)] le_supI1 mgmt_links) simp
    have w: "head_bytes ?x \<union> head_bytes (?x + a) \<union> head_bytes (?x + (s + t)) \<subseteq> ?W"
      using mgmt_head [of ?x b pre "[(a, True), (s + t - a, False)]" nl R1 post R2]
        mgmt_head [of "?x + a" b pre "[(a, True), (s + t - a, False)]" nl R1 post R2]
        mgmt_next [of b pre "[(s, True), (t, False)]" nl R1 post R2] by auto
    have f2: "frame ?W ?m1 m2" by (rule s2(2) [OF w])
    have f3: "frame ?W m2 m3" by (rule frame_mono [OF m3(3) Un_upper2])
    show ?thesis using frame_trans [OF frame_trans [OF f1 f2] f3] .
  qed
  then show "\<exists>m'. mm_addfreechunk heap (?x + a) (update_preceding (?x + (s + t)) (s + t - a)
         (put_size ?x a (put_preceding (?x + a) a (put_size (?x + a) (s + t - a) ?m1)))) = Some m' \<and>
      heap_ok nl ?R' m' \<and> frame ?W m m'" using m3 unfolding m2_def by blast
qed

lemma shrink_next_free:
  assumes h: "heap_ok nl (fill R1 b pre post R2 [(s, True), (t, False)]) m" and nl: "mm_nodelist heap = nl"
    and a: "a mod 16 = 0" "0 < a" "a < s"
  shows "\<exists>m'. mm_shrinkchunk heap (b + 8 + csum pre) a m = Some m' \<and>
    heap_ok nl (fill R1 b pre post R2 [(a, True), (s + t - a, False)]) m' \<and>
    frame (mgmt nl (fill R1 b pre post R2 [(s, True), (t, False)]) \<union> mgmt nl (fill R1 b pre post R2 [(a, True), (s + t - a, False)])) m m'"
proof -
  let ?x = "b + 8 + csum pre"
  have "a < s + t" using a by simp
  note B = move_border [OF h nl a(1,2) this]
  have "16 \<le> a" using a mod_16_ge by auto
  then have "nsize (?x + a) (put_size ?x a (put_preceding (?x + a) a (put_size (?x + a) (s + t - a) (unlink_node (?x + s) m)))) = s + t - a"
    using B(6) by (simp add: apart_def)
  moreover have "sub32 (t + s) a = s + t - a" using sub32_eq [of a "t + s"] B(6) a by (simp add: add.commute)
  ultimately show ?thesis using B by (simp add: mm_shrinkchunk_def Let_def add.assoc)
qed

lemma shrink_next_alloc:
  assumes h: "heap_ok nl (fill R1 b pre post R2 [(s, True)]) m" and nl: "mm_nodelist heap = nl"
    and a: "a mod 16 = 0" "0 < a" "a < s" and al: "case post of [] \<Rightarrow> True | c # cs \<Rightarrow> snd c"
  shows "\<exists>m'. mm_shrinkchunk heap (b + 8 + csum pre) a m = Some m' \<and>
    heap_ok nl (fill R1 b pre post R2 [(a, True), (s - a, False)]) m' \<and>
    frame (mgmt nl (fill R1 b pre post R2 [(s, True)]) \<union> mgmt nl (fill R1 b pre post R2 [(a, True), (s - a, False)])) m m'"
proof -
  let ?R = "fill R1 b pre post R2 [(s, True)]" and ?x = "b + 8 + csum pre" and ?O = "others R1 b pre s post R2"
  let ?R' = "fill R1 b pre post R2 [(a, True), (s - a, False)]"
  let ?W = "mgmt nl ?R \<union> mgmt nl ?R'"
  have l: "layout nl ?R" and g: "regions_at m ?R" and h': "heap_at nl ?R (frees ?R) m"
    using h by (auto simp: heap_ok_def heap_at_def)
  note C = chunk_facts [OF l g] and O = others_facts [OF l, unfolded csum_one]
  have na: "is_alloc (?x + s) m" using next_alloc [OF l g] al by simp
  have F: "frees ?R = ?O" "frees ?R' = insert (?x + a) ?O" unfolding frees_fill using a by auto
  have o: "?x \<notin> ?O" "?x + a \<notin> ?O" "?x + a \<notin> heads nl" using O(2) [of ?x] O(2) [of "?x + a"] C(4) a by auto
  have d: "16 \<le> a" "16 \<le> s - a" using a C(5) mod_16_ge [of a] mod_16_ge [of "s - a"] mod_16_diff [of s a] by auto
  have ap: "apart (?x + s) ?x" "apart (?x + s) (?x + a)" "apart ?x (?x + a)" "apart (?x + a) ?x" using d by (auto simp: apart_def)
  define m2 where "m2 = update_preceding (?x + s) (s - a) (put_size ?x a (put_preceding (?x + a) a (put_size (?x + a) (s - a) m)))"
  note s2 = split_headers [OF h' frees_slots [OF l], unfolded F(1), OF o(1,2) csum_one [symmetric] a m2_def]
  have g2: "regions_at m2 ?R'" using s2(1) by (simp add: heap_at_def)
  have sz: "nsize (?x + a) m2 = s - a" using g2 by (auto simp: regions_at_def region_at_def chunks_at_append)
  obtain m3 where m3: "mm_addfreechunk heap (?x + a) m2 = Some m3" "heap_ok nl ?R' m3" "frame (mgmt nl ?R') m2 m3"
    using add_last [OF s2(1) o(2,3) _ F(2) nl] unfolding sz using d(2) by blast
  have "m2 = put_preceding (?x + s) ((s - a) OR 2147483648) (put_size ?x a (put_preceding (?x + a) a (put_size (?x + a) (s - a) m)))"
    unfolding m2_def by (rule update_alloc) (use na ap in \<open>simp add: is_alloc_put\<close>)
  moreover have "nsize (?x + a) (put_size ?x a (put_preceding (?x + a) a (put_size (?x + a) (s - a) m))) = s - a"
    using ap C(6) by simp
  moreover have "sub32 s a = s - a" "(a + 16) mod 4294967296 \<le> s" using sub32_eq [of a s] C(6) a d by auto
  ultimately have "mm_shrinkchunk heap ?x a m = Some m3"
    using na C(1) m3(1) by (simp add: mm_shrinkchunk_def Let_def)
  moreover have "frame ?W m m3"
  proof -
    have w: "head_bytes ?x \<union> head_bytes (?x + a) \<union> head_bytes (?x + s) \<subseteq> ?W"
      using mgmt_head [of ?x b pre "[(a, True), (s - a, False)]" nl R1 post R2]
        mgmt_head [of "?x + a" b pre "[(a, True), (s - a, False)]" nl R1 post R2]
        mgmt_next [of b pre "[(s, True)]" nl R1 post R2] by auto
    show ?thesis using frame_trans [OF s2(2) [OF w] frame_mono [OF m3(3) Un_upper2]] .
  qed
  ultimately show ?thesis using m3(2) by blast
qed

end
