(* ===== verification/Mm_Blocks.thy ===== *)
theory Mm_Blocks
  imports Mm_Laws
begin

text \<open>
  The blocks that the manager has given out, and that their bytes are not bytes of the manager.
\<close>

section \<open>Allocated blocks\<close>

text \<open>The blocks that have been given out: address and number of bytes.\<close>

definition blocks_at :: "nat \<Rightarrow> chunk list \<Rightarrow> (nat \<times> nat) set" where
  "blocks_at a cs = {(x + 8, s - 8) |x s. (x, s, True) \<in> set (placed a cs)}"

definition blocks :: "region list \<Rightarrow> (nat \<times> nat) set" where
  "blocks R = (\<Union>(b, cs) \<in> set R. blocks_at (b + 8) cs)"

definition bytes_of :: "nat \<times> nat \<Rightarrow> nat set" where
  "bytes_of p = {fst p ..< fst p + snd p}"

definition rest_blocks :: "region list \<Rightarrow> nat \<Rightarrow> chunk list \<Rightarrow> nat \<Rightarrow> chunk list \<Rightarrow> region list \<Rightarrow> (nat \<times> nat) set" where
  "rest_blocks R1 b pre n post R2 = blocks R1 \<union> blocks R2 \<union> blocks_at (b + 8) pre \<union> blocks_at (b + 8 + csum pre + n) post"

lemma blocks_at_simps [simp]:
  "blocks_at a [] = {}" "blocks_at a ((s, u) # cs) = (if u then {(a + 8, s - 8)} else {}) \<union> blocks_at (a + s) cs"
  "blocks_at a (xs @ ys) = blocks_at a xs \<union> blocks_at (a + csum xs) ys"
  by (auto simp: blocks_at_def)

lemma blocks_fill: "blocks (fill R1 b pre post R2 mid) = rest_blocks R1 b pre (csum mid) post R2 \<union> blocks_at (b + 8 + csum pre) mid"
  by (auto simp: blocks_def rest_blocks_def add.assoc)

lemma own_block: "(b + 8 + csum pre + 8, s - 8) \<in> blocks (fill R1 b pre post R2 [(s, True)])"
  unfolding blocks_fill by simp

lemma blocks_split:
  assumes "(p, n) \<in> blocks R"
  shows "\<exists>R1 b pre s post R2. R = fill R1 b pre post R2 [(s, True)] \<and> p = b + 8 + csum pre + 8 \<and> n = s - 8"
proof -
  obtain b cs x s where "(b, cs) \<in> set R" "(x, s, True) \<in> set (placed (b + 8) cs)" "p = x + 8" "n = s - 8"
    using assms by (auto simp: blocks_def blocks_at_def)
  then show ?thesis using region_split by blast
qed

lemma chunk_size: "layout nl (fill R1 b pre post R2 ((s, u) # mid)) \<Longrightarrow> 16 \<le> s"
  using body_ok_pos [of "pre @ ((s, u) # mid) @ post" s u] layout_region [of nl _ b "pre @ ((s, u) # mid) @ post"]
  by (auto simp: region_ok_def)

lemma layout_other:
  assumes l: "layout nl (fill R1 b pre post R2 mid)" and r: "(b', cs') \<in> set R1 \<union> set R2"
  shows "away b (csum (pre @ mid @ post) + 24) b' (csum cs' + 24)" "body_ok cs'"
  using l r layout_region [OF l, of b' cs'] by (auto simp: layout_def sorted_wrt_append away_def region_ok_def)

text \<open>No header is inside of the chunks mid except their own.\<close>

lemma headers_out:
  assumes l: "layout nl (fill R1 b pre post R2 mid)" and y: "y \<in> headers (fill R1 b pre post R2 mid)" "y \<notin> starts (b + 8 + csum pre) mid"
  shows "y + 8 \<le> b + 8 + csum pre \<or> b + 8 + csum pre + csum mid \<le> y"
proof -
  have r: "(b, pre @ mid @ post) \<in> set (fill R1 b pre post R2 mid)" by simp
  have ok: "body_ok pre" "body_ok post" using layout_region [OF l r] by (auto simp: region_ok_def)
  consider "y \<in> headers R1 \<union> headers R2" | "y = b \<or> y \<in> starts (b + 8) pre" | "y \<in> starts (b + 8 + csum pre + csum mid) (post @ [(8, True)])"
    using y unfolding headers_fill by blast
  then show ?thesis
  proof cases
    case 1
    then obtain b' cs' where r': "(b', cs') \<in> set R1 \<union> set R2" and y': "y = b' \<or> y \<in> starts (b' + 8) (cs' @ [(8, True)])"
      by (auto simp: headers_def)
    have "b' \<le> y \<and> y + 8 \<le> b' + csum cs' + 16"
      using y' starts_range [OF layout_other(2) [OF l r'], of y "b' + 8"] by auto
    then show ?thesis using layout_other(1) [OF l r'] by (auto simp: away_def)
  next
    case 2
    then show ?thesis using starts_range [OF ok(1), of y "b + 8"] by auto
  next
    case 3
    then show ?thesis using starts_range [OF ok(2), of y "b + 8 + csum pre + csum mid"] by auto
  qed
qed

lemma mgmt_headers:
  "mgmt nl R = (\<Union>y \<in> heads nl. head_bytes y \<union> link_bytes y) \<union> (\<Union>y \<in> headers R. head_bytes y) \<union> (\<Union>y \<in> frees R. link_bytes y)"
  unfolding mgmt_def headers_def by blast

text \<open>The bytes of a block do not belong to the manager.\<close>

lemma block_not_mgmt:
  assumes l: "layout nl (fill R1 b pre post R2 [(s, True)])" and a: "b + 8 + csum pre + 8 \<le> a" "a < b + 8 + csum pre + s"
  shows "a \<notin> mgmt nl (fill R1 b pre post R2 [(s, True)])"
proof -
  let ?R = "fill R1 b pre post R2 [(s, True)]" and ?x = "b + 8 + csum pre"
  have r: "(b, pre @ [(s, True)] @ post) \<in> set ?R" by simp
  have "a \<notin> head_bytes y \<union> link_bytes y" if "y \<in> heads nl" for y
  proof -
    have "away b (csum (pre @ [(s, True)] @ post) + 24) nl 304" using l by (simp add: layout_def)
    then show ?thesis using a that by (auto simp: heads_def head_bytes_def link_bytes_def away_def)
  qed
  moreover have "a \<notin> head_bytes y" if "y \<in> headers ?R" for y
    using headers_out [OF l that] a by (cases "y = ?x") (auto simp: head_bytes_def)
  moreover have "a \<notin> link_bytes y" if "y \<in> frees ?R" for y
  proof -
    have y: "y \<in> others R1 b pre s post R2" using that unfolding frees_fill by simp
    then have "y < ?x \<or> ?x + s \<le> y" using others_out [OF l, of y] by simp
    moreover have "y \<in> slots nl ?R" "?x \<in> slots nl ?R"
      using frees_slots [OF l] that slot_mid [OF l, of 0] by auto
    ultimately have "y + 16 \<le> ?x \<or> ?x + s \<le> y" using sep_apart [OF sep_slots [OF l], of y ?x] by (cases "y = ?x") (auto simp: apart_def)
    then show ?thesis using a by (auto simp: link_bytes_def)
  qed
  ultimately show ?thesis unfolding mgmt_headers by blast
qed

lemma block_bytes_out:
  assumes l: "layout nl R" and p: "p \<in> blocks R" and a: "a \<in> bytes_of p"
  shows "a \<notin> mgmt nl R"
proof -
  obtain R1 b pre s post R2 where q: "R = fill R1 b pre post R2 [(s, True)]" "fst p = b + 8 + csum pre + 8" "snd p = s - 8"
    using blocks_split [of "fst p" "snd p" R] p by auto
  then show ?thesis using block_not_mgmt [OF l [unfolded q(1)], of a] chunk_size [OF l [unfolded q(1)]] a
    by (auto simp: bytes_of_def)
qed

lemma blocks_kept:
  assumes "layout nl R" "layout nl R'" "frame (mgmt nl R \<union> mgmt nl R') m m'" "p \<in> blocks R" "p \<in> blocks R'" "a \<in> bytes_of p"
  shows "m' a = m a"
  using assms block_bytes_out [of nl R p a] block_bytes_out [of nl R' p a] by (simp add: frame_def)

lemma st_inside: "a \<le> x \<Longrightarrow> x < a + 4 \<Longrightarrow> st a v m x = st a v m' x"
proof -
  assume "a \<le> x" "x < a + 4"
  then have "x = a \<or> x = a + 1 \<or> x = a + 2 \<or> x = a + 3" by auto
  then show ?thesis by (auto simp: st_def)
qed

lemma st_commute: "a + 4 \<le> b \<or> b + 4 \<le> a \<Longrightarrow> st a v (st b w m) = st b w (st a v m)"
proof (rule ext)
  fix x assume ab: "a + 4 \<le> b \<or> b + 4 \<le> a"
  consider "a \<le> x" "x < a + 4" | "b \<le> x" "x < b + 4" | "x < a \<or> a + 4 \<le> x" "x < b \<or> b + 4 \<le> x" by linarith
  then show "st a v (st b w m) x = st b w (st a v m) x"
  proof cases
    case 1
    then show ?thesis using ab st_inside [of a x v "st b w m" m] st_other [of x b w "st a v m"] by auto
  next
    case 2
    then show ?thesis using ab st_inside [of b x w "st a v m" m] st_other [of x a v "st b w m"] by auto
  qed (simp add: st_other)
qed

lemma put_commute:
  "apart x y \<Longrightarrow> put_size x v (put_size y w m) = put_size y w (put_size x v m)"
  "apart x y \<Longrightarrow> put_size x v (put_preceding y w m) = put_preceding y w (put_size x v m)"
  "apart x y \<Longrightarrow> put_preceding x v (put_preceding y w m) = put_preceding y w (put_preceding x v m)"
  "put_size x v (put_preceding x w m) = put_preceding x w (put_size x v m)"
  by (auto simp: field_defs apart_def intro!: st_commute)

lemma update_commute:
  assumes "apart x y"
  shows "update_preceding x v (put_preceding y w m) = put_preceding y w (update_preceding x v m)"
proof -
  have "apart y x" using assms by (auto simp: apart_def)
  then show ?thesis using assms by (simp add: update_preceding_def put_commute(3))
qed

lemma mgmt_subs:
  "y \<in> headers R \<Longrightarrow> head_bytes y \<subseteq> mgmt nl R" "y \<in> frees R \<Longrightarrow> link_bytes y \<subseteq> mgmt nl R"
  "y \<in> heads nl \<Longrightarrow> head_bytes y \<subseteq> mgmt nl R" "y \<in> heads nl \<Longrightarrow> link_bytes y \<subseteq> mgmt nl R"
  by (auto simp: mgmt_headers)

text \<open>The invariant is about the bytes of the manager only.\<close>

lemma heap_ok_bytes:
  assumes h: "heap_ok nl R m" and f: "\<And>a. a \<in> mgmt nl R \<Longrightarrow> m' a = m a"
  shows "heap_ok nl R m'"
proof -
  have l: "layout nl R" and g: "regions_at m R" and fl: "free_lists nl (frees R) m" using h by (auto simp: heap_ok_def heap_at_def)
  have hd: "nsize y m' = nsize y m \<and> npreceding y m' = npreceding y m" if "head_bytes y \<subseteq> mgmt nl R" for y
    unfolding nsize_def npreceding_def using f that by (auto simp: head_bytes_def subset_iff intro!: ld_cong)
  have lk: "nflink y m' = nflink y m \<and> nblink y m' = nblink y m" if "link_bytes y \<subseteq> mgmt nl R" for y
    unfolding nflink_def nblink_def using f that by (auto simp: link_bytes_def subset_iff intro!: ld_cong)
  have "region_at m' (b, cs)" if r: "(b, cs) \<in> set R" for b cs
  proof -
    have sub: "insert b (starts (b + 8) (cs @ [(8, True)])) \<subseteq> headers R" unfolding headers_def using r by blast
    have "chunks_at m' (b + 8) 8 (cs @ [(8, True)]) \<longleftrightarrow> chunks_at m (b + 8) 8 (cs @ [(8, True)])"
      by (rule chunks_at_cong) (use hd [OF mgmt_subs(1)] sub in blast)
    then show ?thesis using g r hd [OF mgmt_subs(1), of b] sub by (auto simp: regions_at_def region_at_def)
  qed
  then have "regions_at m' R" by (auto simp: regions_at_def)
  moreover have "free_lists nl (frees R) m'"
  proof (rule free_lists_cong [OF fl])
    fix x assume x: "x \<in> heads nl \<union> frees R"
    have "frees R \<subseteq> headers R" using frees_starts by (fastforce simp: frees_def headers_def)
    then have "head_bytes x \<subseteq> mgmt nl R" "link_bytes x \<subseteq> mgmt nl R" 
      using x mgmt_subs(1,2) [of x R nl] mgmt_subs(3,4) [of x nl R] by blast+
    then show "nsize x m' = nsize x m \<and> nflink x m' = nflink x m \<and> nblink x m' = nblink x m" using hd lk by blast
  qed
  ultimately show ?thesis using l by (simp add: heap_ok_def heap_at_def)
qed

text \<open>A program that writes into its own block does no harm to the heap.\<close>

lemma heap_ok_block_write:
  assumes h: "heap_ok nl R m" and p: "p \<in> blocks R" and f: "frame (bytes_of p) m m'"
  shows "heap_ok nl R m'"
proof (rule heap_ok_bytes [OF h])
  fix a assume a: "a \<in> mgmt nl R"
  have "layout nl R" using h by (simp add: heap_ok_def heap_at_def)
  then have "a \<notin> bytes_of p" using block_bytes_out p a by blast
  then show "m' a = m a" using f by (simp add: frame_def)
qed

section \<open>Blocks do not overlap\<close>

lemma blocks_at_range:
  assumes "body_ok cs" "q \<in> blocks_at a cs"
  shows "a + 8 \<le> fst q \<and> 8 \<le> snd q \<and> fst q + snd q \<le> a + csum cs"
proof -
  obtain x s where x: "(x, s, True) \<in> set (placed a cs)" "q = (x + 8, s - 8)" using assms(2) by (auto simp: blocks_at_def)
  obtain pre post where "cs = pre @ (s, True) # post" "x = a + csum pre" using placed_split [OF x(1)] by blast
  then show ?thesis using x body_ok_pos [OF assms(1), of s True] by auto
qed

lemma rest_out:
  assumes l: "layout nl (fill R1 b pre post R2 mid)" and q: "q \<in> rest_blocks R1 b pre (csum mid) post R2"
  shows "fst q + snd q \<le> b + 8 + csum pre \<or> b + 8 + csum pre + csum mid + 8 \<le> fst q" "8 \<le> snd q"
proof -
  have r: "(b, pre @ mid @ post) \<in> set (fill R1 b pre post R2 mid)" by simp
  have ok: "body_ok pre" "body_ok post" using layout_region [OF l r] by (auto simp: region_ok_def)
  consider "q \<in> blocks R1 \<union> blocks R2" | "q \<in> blocks_at (b + 8) pre" | "q \<in> blocks_at (b + 8 + csum pre + csum mid) post"
    using q by (auto simp: rest_blocks_def)
  then have "(fst q + snd q \<le> b + 8 + csum pre \<or> b + 8 + csum pre + csum mid + 8 \<le> fst q) \<and> 8 \<le> snd q"
  proof cases
    case 1
    then obtain b' cs' where r: "(b', cs') \<in> set R1 \<union> set R2" "q \<in> blocks_at (b' + 8) cs'" by (auto simp: blocks_def)
    then show ?thesis using layout_other [OF l r(1)] blocks_at_range [OF _ r(2)] by (auto simp: away_def)
  qed (use blocks_at_range ok in fastforce)+
  then show "fst q + snd q \<le> b + 8 + csum pre \<or> b + 8 + csum pre + csum mid + 8 \<le> fst q" "8 \<le> snd q" by auto
qed

lemma own_not_rest:
  assumes l: "layout nl (fill R1 b pre post R2 [(s, u)])"
  shows "(b + 8 + csum pre + 8, n) \<notin> rest_blocks R1 b pre s post R2"
  using rest_out [OF l, of "(b + 8 + csum pre + 8, n)"] chunk_size [OF l] by auto

lemma blocks_own:
  assumes l: "layout nl (fill R1 b pre post R2 [(s, True)])"
  shows "blocks (fill R1 b pre post R2 [(s, True)]) - {(b + 8 + csum pre + 8, s - 8)} = rest_blocks R1 b pre s post R2"
  using own_not_rest [OF l] unfolding blocks_fill by auto

lemma rest_bytes:
  assumes l: "layout nl (fill R1 b pre post R2 mid)" and q: "q \<in> rest_blocks R1 b pre (csum mid) post R2"
  shows "bytes_of q \<inter> {b + 8 + csum pre ..< b + 8 + csum pre + csum mid} = {}"
  using rest_out [OF l q] by (auto simp: bytes_of_def)

lemma blocks_disjoint:
  assumes l: "layout nl R" and pq: "p \<in> blocks R" "q \<in> blocks R" "p \<noteq> q"
  shows "bytes_of p \<inter> bytes_of q = {}" "fst p \<noteq> fst q"
proof -
  obtain R1 b pre s post R2 where R: "R = fill R1 b pre post R2 [(s, True)]" "p = (b + 8 + csum pre + 8, s - 8)"
    using blocks_split [of "fst p" "snd p" R] pq by (metis prod.collapse)
  have q: "q \<in> rest_blocks R1 b pre s post R2" using pq blocks_own [OF l [unfolded R(1)]] R by auto
  have "16 \<le> s" using chunk_size [OF l [unfolded R(1)]] .
  then show "bytes_of p \<inter> bytes_of q = {}" "fst p \<noteq> fst q"
    using rest_out [OF l [unfolded R(1)], unfolded csum_one, OF q] R(2) by (auto simp: bytes_of_def)
qed

end
