(* ===== verification/Mm_Realloc.thy ===== *)
theory Mm_Realloc
  imports Mm_Blocks
begin

text \<open>
Reallocation: what mm_realloc does to the layout of the heap and to the contents of the block. It takes bytes of the free chunk behind, of the free chunk before, or moves the block.
\<close>

section \<open>Extension into the chunk behind\<close>

text \<open>An allocated chunk of s bytes, followed by a free one of t bytes, takes k bytes of it.\<close>

definition grow_next :: "nat \<Rightarrow> nat \<Rightarrow> nat \<Rightarrow> chunk list" where
  "grow_next s t k = (if k = 0 then [(s, True), (t, False)] else if k < t then [(s + k, True), (t - k, False)] else [(s + t, True)])"

lemma join_next:
  assumes h: "heap_ok nl (fill R1 b pre post R2 [(s, True), (t, False)]) m"
  shows "heap_ok nl (fill R1 b pre post R2 [(s + t, True)])
      (update_preceding (b + 8 + csum pre + s + t) (s + t) (put_size (b + 8 + csum pre) (s + t) (unlink_node (b + 8 + csum pre + s) m)))"
    "frame (mgmt nl (fill R1 b pre post R2 [(s, True), (t, False)])) m
      (update_preceding (b + 8 + csum pre + s + t) (s + t) (put_size (b + 8 + csum pre) (s + t) (unlink_node (b + 8 + csum pre + s) m)))"
proof -
  let ?R = "fill R1 b pre post R2 [(s, True), (t, False)]" and ?x = "b + 8 + csum pre" and ?O = "others R1 b pre (s + t) post R2"
  have l: "layout nl ?R" and g: "regions_at m ?R" and h': "heap_at nl ?R (frees ?R) m"
    using h by (auto simp: heap_ok_def heap_at_def)
  note C = chunk_facts [OF l g] and O = others_facts [OF l, unfolded csum_two]
  have N: "16 \<le> t" using chunk_facts(4) [of nl R1 b "pre @ [(s, True)]" t False "[]" post R2 m] l g by simp
  have F: "frees ?R = insert (?x + s) ?O" unfolding frees_fill by auto
  have o: "?x \<notin> ?O" "?x + s \<notin> ?O" using O(2) [of ?x] O(2) [of "?x + s"] N C(4) by auto
  let ?m1 = "unlink_node (?x + s) m"
  have xF: "?x + s \<in> frees ?R" and Fx: "frees ?R - {?x + s} = ?O" using F o by auto
  note u = heap_unlink [OF h' frees_slots [OF l] xF, unfolded Fx]
  note j = join_headers [OF u(1) O(1) o(1) refl]
  show "heap_ok nl (fill R1 b pre post R2 [(s + t, True)]) (update_preceding (?x + s + t) (s + t) (put_size ?x (s + t) ?m1))"
    using j(1) unfolding heap_ok_def frees_fill by simp
  have f1: "frame (mgmt nl ?R) m ?m1" by (intro frame_mono [OF u(3)] mgmt_links) simp
  have w: "head_bytes ?x \<union> head_bytes (?x + s + t) \<subseteq> mgmt nl ?R"
    using mgmt_head [of ?x b pre "[(s, True), (t, False)]" nl R1 post R2] mgmt_next [of b pre "[(s, True), (t, False)]" nl R1 post R2]
    by (auto simp: add.assoc)
  show "frame (mgmt nl ?R) m (update_preceding (?x + s + t) (s + t) (put_size ?x (s + t) ?m1))"
    by (rule frame_trans [OF f1 j(2) [OF w]])
qed

lemma realloc_next_ok:
  assumes h: "heap_ok nl (fill R1 b pre post R2 [(s, True), (t, False)]) m" and nl: "mm_nodelist heap = nl"
    and k: "k mod 16 = 0" "k \<le> t"
  shows "\<exists>m'. realloc_next heap (b + 8 + csum pre) s (b + 8 + csum pre + s) t k m = Some m' \<and>
    heap_ok nl (fill R1 b pre post R2 (grow_next s t k)) m' \<and>
    frame (mgmt nl (fill R1 b pre post R2 [(s, True), (t, False)]) \<union> mgmt nl (fill R1 b pre post R2 (grow_next s t k))) m m'"
proof -
  let ?x = "b + 8 + csum pre"
  have l: "layout nl (fill R1 b pre post R2 [(s, True), (t, False)])" and g: "regions_at m (fill R1 b pre post R2 [(s, True), (t, False)])"
    using h by (auto simp: heap_ok_def heap_at_def)
  note C = chunk_facts [OF l g]
  consider "k = 0" | "0 < k" "k < t" | "0 < k" "k = t" using k(2) by linarith
  then show ?thesis
  proof cases
    case 1
    then show ?thesis using h by (auto simp: realloc_next_def grow_next_def)
  next
    case 2
    have a: "(s + k) mod 16 = 0" "0 < s + k" "s + k < s + t" using k C(5) 2 by (auto simp: mod_add_left_eq [of s 16 k, symmetric])
    note B = move_border [OF h nl a]
    have ap: "apart ?x (?x + (s + k))" "apart (?x + (s + k)) ?x" using C(4) by (auto simp: apart_def)
    have v: "nsize ?x (put_size (?x + (s + k)) (t - k) (put_size ?x (s + k) (unlink_node (?x + s) m))) = s + k"
      "nsize (?x + (s + k)) (put_preceding (?x + (s + k)) (s + k) (put_size (?x + (s + k)) (t - k) (put_size ?x (s + k) (unlink_node (?x + s) m)))) = t - k"
      using B(6) ap 2 by simp_all
    have e: "s + t - (s + k) = t - k" by simp
    have "realloc_next heap ?x s (?x + s) t k m = mm_addfreechunk heap (?x + (s + k)) (update_preceding (?x + (s + t)) (s + t - (s + k))
         (put_size ?x (s + k) (put_preceding (?x + (s + k)) (s + k) (put_size (?x + (s + k)) (s + t - (s + k)) (unlink_node (?x + s) m)))))"
      using 2 B(6) v unfolding e put_commute(1,2) [OF ap(1)] by (simp add: realloc_next_def Let_def add.assoc)
    then show ?thesis using B(7) 2 by (simp add: grow_next_def)
  next
    case 3
    have st: "s + t < 4294967296" using C(6) chunk_facts(6) [of nl R1 b "pre @ [(s, True)]" t False "[]" post R2 m] l g by simp
    have "realloc_next heap ?x s (?x + s) t k m =
      Some (update_preceding (?x + s + t) (s + t) (put_size ?x (s + t) (unlink_node (?x + s) m)))"
      using 3 st by (simp add: realloc_next_def Let_def)
    then show ?thesis using join_next [OF h] frame_mono [OF _ Un_upper1] 3 by (auto simp: grow_next_def)
  qed
qed

section \<open>Extension into the chunk before\<close>

definition grow_prev :: "nat \<Rightarrow> nat \<Rightarrow> nat \<Rightarrow> chunk list" where
  "grow_prev r s k = (if k = 0 then [(r, False), (s, True)] else if k < r then [(r - k, False), (s + k, True)] else [(r + s, True)])"

lemma unlink_first:
  assumes h: "heap_ok nl (fill R1 b pre post R2 [(r, False), (s, True)]) m"
  shows "heap_at nl (fill R1 b pre post R2 [(r, False), (s, True)]) (others R1 b pre (r + s) post R2) (unlink_node (b + 8 + csum pre) m)"
    "nsize (b + 8 + csum pre) (unlink_node (b + 8 + csum pre) m) = r"
    "frame (mgmt nl (fill R1 b pre post R2 [(r, False), (s, True)])) m (unlink_node (b + 8 + csum pre) m)"
proof -
  let ?R = "fill R1 b pre post R2 [(r, False), (s, True)]" and ?x = "b + 8 + csum pre" and ?O = "others R1 b pre (r + s) post R2"
  have l: "layout nl ?R" and g: "regions_at m ?R" and h': "heap_at nl ?R (frees ?R) m"
    using h by (auto simp: heap_ok_def heap_at_def)
  note C = chunk_facts [OF l g] and O = others_facts [OF l, unfolded csum_two]
  have F: "frees ?R = insert ?x ?O" unfolding frees_fill by auto
  have o: "?x \<notin> ?O" using O(2) [of ?x] C(4) by auto
  have xF: "?x \<in> frees ?R" and Fx: "frees ?R - {?x} = ?O" using F o by auto
  note u = heap_unlink [OF h' frees_slots [OF l] xF, unfolded Fx]
  show "heap_at nl ?R ?O (unlink_node ?x m)" by (rule u(1))
  show "nsize ?x (unlink_node ?x m) = r" using u(2) C(1,7) by blast
  show "frame (mgmt nl ?R) m (unlink_node ?x m)" by (intro frame_mono [OF u(3)] mgmt_links) simp
qed

lemma prev_part:
  assumes h: "heap_ok nl (fill R1 b pre post R2 [(r, False), (s, True)]) m" and nl: "mm_nodelist heap = nl"
    and k: "k mod 16 = 0" "0 < k" "k < r"
  shows "\<exists>m'. mm_addfreechunk heap (b + 8 + csum pre) (update_preceding (b + 8 + csum pre + (r + s)) (s + k)
      (put_preceding (b + 8 + csum pre + (r - k)) ((r - k) OR 2147483648) (put_size (b + 8 + csum pre + (r - k)) (s + k)
        (put_size (b + 8 + csum pre) (r - k) (unlink_node (b + 8 + csum pre) m))))) = Some m' \<and>
    heap_ok nl (fill R1 b pre post R2 [(r - k, False), (s + k, True)]) m' \<and>
    nsize (b + 8 + csum pre + (r - k)) m' = s + k \<and>
    frame (mgmt nl (fill R1 b pre post R2 [(r, False), (s, True)]) \<union> mgmt nl (fill R1 b pre post R2 [(r - k, False), (s + k, True)])) m m'"
proof -
  let ?R = "fill R1 b pre post R2 [(r, False), (s, True)]" and ?x = "b + 8 + csum pre" and ?O = "others R1 b pre (r + s) post R2"
  let ?R' = "fill R1 b pre post R2 [(r - k, False), (s + k, True)]" and ?m1 = "unlink_node (b + 8 + csum pre) m"
  let ?W = "mgmt nl ?R \<union> mgmt nl ?R'"
  have l: "layout nl ?R" and g: "regions_at m ?R" using h by (auto simp: heap_ok_def heap_at_def)
  note C = chunk_facts [OF l g] and O = others_facts [OF l, unfolded csum_two] and u = unlink_first [OF h]
  have a: "(r - k) mod 16 = 0" "0 < r - k" "r - k < r + s" "r + s - (r - k) = s + k" using k C(5) mod_16_diff by auto
  have o: "?x \<notin> ?O" "?x + (r - k) \<notin> ?O" "?x \<notin> heads nl" using O(2) [of ?x] O(2) [of "?x + (r - k)"] a C(4) by auto
  have ap: "apart ?x (?x + (r - k))" using mod_16_ge [OF a(2,1)] unfolding apart_def by linarith
  let ?m2 = "update_preceding (?x + (r + s)) (s + k) (put_size ?x (r - k) (put_preceding (?x + (r - k)) ((r - k) + alloc_bit True) (put_size (?x + (r - k)) (s + k) ?m1)))"
  note t = two_headers [OF u(1) O(1) o(1,2) csum_two [symmetric] a(1-3), of ?m2 True, unfolded a(4), OF refl]
  have h2: "heap_at nl ?R' ?O ?m2" by (rule t(1))
  have w: "head_bytes ?x \<union> head_bytes (?x + (r - k)) \<union> head_bytes (?x + (r + s)) \<subseteq> ?W"
    using mgmt_head [of ?x b pre "[(r, False), (s, True)]" nl R1 post R2] mgmt_next [of b pre "[(r, False), (s, True)]" nl R1 post R2]
      mgmt_head [of "?x + (r - k)" b pre "[(r - k, False), (s + k, True)]" nl R1 post R2] by auto
  have f2: "frame ?W m ?m2" by (rule frame_trans [OF frame_mono [OF u(3) Un_upper1] t(2) [OF w]])
  have F': "frees ?R' = insert ?x ?O" unfolding frees_fill using a by (auto simp: k)
  have l': "layout nl ?R'" and g': "regions_at ?m2 ?R'" using h2 by (auto simp: heap_at_def)
  have n: "nsize ?x ?m2 = r - k" "16 \<le> r - k" using chunk_facts(1,4) [OF l' g'] by auto
  have nn: "nsize (?x + (r - k)) ?m2 = s + k" "?x + (r - k) \<in> slots nl ?R'"
    using chunk_facts(1,7) [of nl R1 b "pre @ [(r - k, False)]" "s + k" True "[]" post R2 ?m2] l' g' by (simp_all add: add.assoc)
  obtain m' where m': "mm_addfreechunk heap ?x ?m2 = Some m'" "heap_ok nl ?R' m'"
    "\<forall>y \<in> slots nl ?R'. nsize y m' = nsize y ?m2 \<and> npreceding y m' = npreceding y ?m2" "frame (mgmt nl ?R') ?m2 m'"
    using add_last [OF h2 o(1,3) _ F' nl] n by auto
  have e: "?m2 = update_preceding (?x + (r + s)) (s + k) (put_preceding (?x + (r - k)) ((r - k) OR 2147483648) (put_size (?x + (r - k)) (s + k) (put_size ?x (r - k) ?m1)))"
    unfolding put_commute(2) [OF ap(1)] put_commute(1) [OF ap(1)] using C(6) by (simp add: or_alloc_bit)
  show ?thesis using m' nn frame_trans [OF f2 frame_mono [OF m'(4) Un_upper2]] unfolding e by auto
qed

lemma prev_whole:
  assumes h: "heap_ok nl (fill R1 b pre post R2 [(r, False), (s, True)]) m"
    and m': "m' = update_preceding (b + 8 + csum pre + (r + s)) (r + s) (put_preceding (b + 8 + csum pre)
      (npreceding (b + 8 + csum pre) (unlink_node (b + 8 + csum pre) m) OR 2147483648)
      (put_size (b + 8 + csum pre) (r + s) (unlink_node (b + 8 + csum pre) m)))"
  shows "heap_ok nl (fill R1 b pre post R2 [(r + s, True)]) m'" "nsize (b + 8 + csum pre) m' = r + s"
    "frame (mgmt nl (fill R1 b pre post R2 [(r, False), (s, True)])) m m'"
proof -
  let ?R = "fill R1 b pre post R2 [(r, False), (s, True)]" and ?x = "b + 8 + csum pre" and ?O = "others R1 b pre (r + s) post R2"
  let ?m1 = "unlink_node (b + 8 + csum pre) m"
  have l: "layout nl ?R" and g: "regions_at m ?R" using h by (auto simp: heap_ok_def heap_at_def)
  note C = chunk_facts [OF l g] and O = others_facts [OF l, unfolded csum_two] and u = unlink_first [OF h]
  have o: "?x \<notin> ?O" using O(2) [of ?x] C(4) by auto
  have ap: "apart (?x + (r + s)) ?x" "apart ?x (?x + (r + s))" using C(4) by (auto simp: apart_def)
  let ?m2 = "update_preceding (?x + r + s) (r + s) (put_size ?x (r + s) ?m1)"
  note j = join_headers [OF u(1) O(1) o refl]
  have e: "m' = put_preceding ?x (npreceding ?x ?m2 OR 2147483648) ?m2"
    unfolding m' update_commute [OF ap(1)] using ap by (simp add: add.assoc update_preceding_def)
  have O': "?O \<subseteq> slots nl (fill R1 b pre post R2 [(r + s, False)])"
    using others_facts(1) [of nl R1 b pre "[(r + s, False)]" post R2] j(1) by (simp add: heap_at_def)
  note a = set_alloc_bit [OF j(1) O' e]
  show ok: "heap_ok nl (fill R1 b pre post R2 [(r + s, True)]) m'"
    using a(1) unfolding heap_ok_def frees_fill by simp
  show "nsize ?x m' = r + s" by (rule chunk_facts(1) [of nl R1 b pre _ True "[]" post R2]) (use ok in \<open>auto simp: heap_ok_def heap_at_def\<close>)
  have w: "head_bytes ?x \<union> head_bytes (?x + r + s) \<subseteq> mgmt nl ?R"
    using mgmt_head [of ?x b pre "[(r, False), (s, True)]" nl R1 post R2] mgmt_next [of b pre "[(r, False), (s, True)]" nl R1 post R2]
    by (auto simp: add.assoc)
  show "frame (mgmt nl ?R) m m'"
    by (rule frame_trans [OF u(3)], rule frame_trans [OF j(2) [OF w]], rule a(2)) (use w in simp)
qed

text \<open>Stores outside of the management data that stay inside of one block keep the invariant.\<close>

lemma memcpy_down:
  assumes h: "heap_ok nl (fill R1 b pre post R2 [(s, True)]) m" and q: "q \<le> p" "q = b + 8 + csum pre + 8" "n \<le> s - 8"
  shows "heap_ok nl (fill R1 b pre post R2 [(s, True)]) (memcpy q p n m)"
    "frame {q ..< q + n} m (memcpy q p n m)" "i < n \<Longrightarrow> memcpy q p n m (q + i) = m (p + i)"
proof -
  show f: "frame {q ..< q + n} m (memcpy q p n m)" using q by (auto simp: frame_def memcpy_apply)
  show "heap_ok nl (fill R1 b pre post R2 [(s, True)]) (memcpy q p n m)"
    by (rule heap_ok_block_write [OF h own_block frame_mono [OF f]]) (use q in \<open>auto simp: bytes_of_def\<close>)
  show "i < n \<Longrightarrow> memcpy q p n m (q + i) = m (p + i)" using q by (simp add: memcpy_apply)
qed

lemma realloc_prev_unfold:
  assumes u: "nsize x (unlink_node x m) = r" and k: "0 < k" "k \<le> r" "r < 4294967296"
  shows "k < r \<Longrightarrow> s + k < 4294967296 \<Longrightarrow> apart x (x + (r - k)) \<Longrightarrow> realloc_prev heap p (x + r) s x r (x + r + s) k m =
      map_option (\<lambda>m'. (x + (r - k) + 8, x + (r - k), nsize (x + (r - k)) m', memcpy (x + (r - k) + 8) p (sub32 (nsize (x + (r - k)) m') 8) m'))
       (mm_addfreechunk heap x (update_preceding (x + (r + s)) (s + k) (put_preceding (x + (r - k)) ((r - k) OR 2147483648)
         (put_size (x + (r - k)) (s + k) (put_size x (r - k) (unlink_node x m))))))"
    "m' = update_preceding (x + (r + s)) (r + s) (put_preceding x (npreceding x (unlink_node x m) OR 2147483648)
        (put_size x (r + s) (unlink_node x m))) \<Longrightarrow> r + s < 4294967296 \<Longrightarrow>
     realloc_prev heap p (x + r) s x r (x + r + s) r m = Some (x + 8, x, nsize x m', memcpy (x + 8) p (sub32 (nsize x m') 8) m')"
proof -
  assume a: "k < r" "s + k < 4294967296" "apart x (x + (r - k))"
  have e: "x + r - k = x + (r - k)" "x + r + s = x + (r + s)" using a by auto
  have "apart x (x + r - k)" using a by simp
  then show "realloc_prev heap p (x + r) s x r (x + r + s) k m =
      map_option (\<lambda>m'. (x + (r - k) + 8, x + (r - k), nsize (x + (r - k)) m', memcpy (x + (r - k) + 8) p (sub32 (nsize (x + (r - k)) m') 8) m'))
       (mm_addfreechunk heap x (update_preceding (x + (r + s)) (s + k) (put_preceding (x + (r - k)) ((r - k) OR 2147483648)
         (put_size (x + (r - k)) (s + k) (put_size x (r - k) (unlink_node x m))))))"
    using a k unfolding realloc_prev_def Let_def u e
    by (simp add: map_conv_bind_option comp_def sub32_eq)
next
  assume "m' = update_preceding (x + (r + s)) (r + s) (put_preceding x (npreceding x (unlink_node x m) OR 2147483648)
        (put_size x (r + s) (unlink_node x m)))" "r + s < 4294967296"
  then show "realloc_prev heap p (x + r) s x r (x + r + s) r m = Some (x + 8, x, nsize x m', memcpy (x + 8) p (sub32 (nsize x m') 8) m')"
    using k u by (simp add: realloc_prev_def Let_def add.assoc)
qed

lemma realloc_prev_ok:
  assumes h: "heap_ok nl (fill R1 b pre post R2 [(r, False), (s, True)]) m" and nl: "mm_nodelist heap = nl"
    and k: "k mod 16 = 0" "0 < k" "k \<le> r" and x: "x = b + 8 + csum pre"
  shows "\<exists>m'. realloc_prev heap (x + r + 8) (x + r) s x r (x + r + s) k m = Some (x + (r - k) + 8, x + (r - k), s + k, m') \<and>
    heap_ok nl (fill R1 b pre post R2 (grow_prev r s k)) m' \<and>
    (\<forall>i < s - 8. m' (x + (r - k) + 8 + i) = m (x + r + 8 + i)) \<and>
    frame (mgmt nl (fill R1 b pre post R2 [(r, False), (s, True)]) \<union> mgmt nl (fill R1 b pre post R2 (grow_prev r s k)) \<union>
      {x + (r - k) + 8 ..< x + r + s}) m m'"
proof -
  let ?R = "fill R1 b pre post R2 [(r, False), (s, True)]" and ?R' = "fill R1 b pre post R2 (grow_prev r s k)"
  let ?q = "x + (r - k) + 8" and ?p = "x + r + 8"
  have l: "layout nl ?R" and g: "regions_at m ?R" using h by (auto simp: heap_ok_def heap_at_def)
  note C = chunk_facts [OF l g]
  have N: "16 \<le> s" "s < 2147483648" using chunk_facts(4,6) [of nl R1 b "pre @ [(r, False)]" s True "[]" post R2 m] l g by simp_all
  have u: "nsize x (unlink_node x m) = r" using unlink_first(2) [OF h] x by simp
  note U = realloc_prev_unfold [OF u k(2,3)]
  have s32: "sub32 (s + k) 8 = s + k - 8" using N k C(6) by (intro sub32_eq) auto
  obtain m1 where m1: "realloc_prev heap ?p (x + r) s x r (x + r + s) k m = Some (?q, x + (r - k), s + k, memcpy ?q ?p (s + k - 8) m1)"
    "heap_ok nl ?R' m1" "frame (mgmt nl ?R \<union> mgmt nl ?R') m m1"
  proof (cases "k < r")
    case True
    have ap: "apart x (x + (r - k))" using mod_16_ge [of "r - k"] mod_16_diff [OF C(5) k(1)] True unfolding apart_def by linarith
    show ?thesis using prev_part [OF h nl k(1,2) True, folded x] that U(1) [OF _ True _ ap] s32 True k N C(6)
      by (fastforce simp: grow_prev_def)
  next
    case False
    then have e: "k = r" using k by simp
    show ?thesis by (rule that [OF _ _ frame_mono [OF prev_whole(3) [OF h refl] Un_upper1]])
      (use prev_whole(1,2) [OF h refl, folded x] U(2) [OF _ refl] s32 e k N C(6) in \<open>simp_all add: grow_prev_def x add.commute\<close>)
  qed
  obtain pre' where pre': "?R' = fill R1 b pre' post R2 [(s + k, True)]" "b + 8 + csum pre' = x + (r - k)"
    using that [of "pre @ [(r - k, False)]"] that [of pre] k x by (cases "k < r") (auto simp: grow_prev_def add.commute)
  note M = memcpy_down [OF m1(2) [unfolded pre'(1)], of ?q ?p "s + k - 8", unfolded pre'(2)]
  have l': "layout nl ?R'" using m1(2) by (simp add: heap_ok_def heap_at_def)
  have "m1 (?p + i) = m (?p + i)" if "i < s - 8" for i
  proof -
    have "?p + i \<notin> mgmt nl ?R" by (rule block_bytes_out [OF l, of "(b + 8 + csum (pre @ [(r, False)]) + 8, s - 8)"])
        (use own_block [of b "pre @ [(r, False)]" s R1 post R2] that x in \<open>auto simp: bytes_of_def\<close>)
    moreover have "?p + i \<notin> mgmt nl ?R'" unfolding pre'(1)
      by (rule block_bytes_out [OF l' [unfolded pre'(1)] own_block, unfolded pre'(2)]) (use that k in \<open>auto simp: bytes_of_def\<close>)
    ultimately show ?thesis using m1(3) by (simp add: frame_def)
  qed
  then have c: "\<forall>i < s - 8. memcpy ?q ?p (s + k - 8) m1 (?q + i) = m (?p + i)" using M(3) k by auto
  have e: "?q + (s + k - 8) = x + r + s" using N k by simp
  have q: "?q \<le> ?p" by simp
  note M(1,2) [OF q refl le_refl, unfolded e, folded pre'(1)]
  then show ?thesis using m1(1) c frame_trans [OF frame_mono [OF m1(3) Un_upper1] frame_mono [OF _ Un_upper2]] by blast
qed

section \<open>The chunks around a block\<close>

text \<open>The bytes of the free chunk before and behind a block, 0 when there is none, and what is left of the chunks when k bytes
  of them are taken.\<close>

definition prev_free :: "chunk list \<Rightarrow> nat" where
  "prev_free pre = (if pre = [] \<or> snd (last pre) then 0 else fst (last pre))"

definition next_free :: "chunk list \<Rightarrow> nat" where
  "next_free post = (case post of [] \<Rightarrow> 0 | (t, u) # cs \<Rightarrow> if u then 0 else t)"

definition take_prev :: "nat \<Rightarrow> chunk list \<Rightarrow> chunk list" where
  "take_prev k pre = (if k = 0 then pre else if k < fst (last pre) then butlast pre @ [(fst (last pre) - k, False)] else butlast pre)"

definition take_next :: "nat \<Rightarrow> chunk list \<Rightarrow> chunk list" where
  "take_next k post = (if k = 0 then post else if k < fst (hd post) then (fst (hd post) - k, False) # tl post else tl post)"

lemma rest_take:
  "k \<le> prev_free pre \<Longrightarrow> rest_blocks R1 b (take_prev k pre) (n + k) post R2 = rest_blocks R1 b pre n post R2"
  "k \<le> prev_free pre \<Longrightarrow> csum (take_prev k pre) = csum pre - k \<and> k \<le> csum pre"
  "k \<le> next_free post \<Longrightarrow> rest_blocks R1 b pre (n + k) (take_next k post) R2 = rest_blocks R1 b pre n post R2"
proof -
  show "k \<le> prev_free pre \<Longrightarrow> csum (take_prev k pre) = csum pre - k \<and> k \<le> csum pre"
    by (cases pre rule: rev_cases) (auto simp: take_prev_def prev_free_def split: if_splits)
  show "k \<le> prev_free pre \<Longrightarrow> rest_blocks R1 b (take_prev k pre) (n + k) post R2 = rest_blocks R1 b pre n post R2"
    by (cases pre rule: rev_cases) (auto simp: take_prev_def prev_free_def rest_blocks_def add.assoc add.commute [of n k] split: if_splits prod.splits)
  show "k \<le> next_free post \<Longrightarrow> rest_blocks R1 b pre (n + k) (take_next k post) R2 = rest_blocks R1 b pre n post R2"
    by (cases post) (auto simp: take_next_def next_free_def rest_blocks_def add.assoc split: if_splits prod.splits)
qed

lemma realloc_prev_any:
  assumes h: "heap_ok nl (fill R1 b pre post R2 [(s, True)]) m" and nl: "mm_nodelist heap = nl"
    and k: "k mod 16 = 0" "k \<le> prev_free pre" and x: "x = b + 8 + csum pre"
  shows "\<exists>m'. realloc_prev heap (x + 8) x s (x - last_size 8 pre) (prev_free pre) (x + s) k m = Some (x - k + 8, x - k, s + k, m') \<and>
    heap_ok nl (fill R1 b (take_prev k pre) post R2 [(s + k, True)]) m' \<and>
    (\<forall>i < s - 8. m' (x - k + 8 + i) = m (x + 8 + i)) \<and>
    frame (mgmt nl (fill R1 b pre post R2 [(s, True)]) \<union> mgmt nl (fill R1 b (take_prev k pre) post R2 [(s + k, True)]) \<union>
      {x - k + 8 ..< x + s}) m m'"
proof (cases "k = 0")
  case True
  then show ?thesis using h by (auto simp: realloc_prev_def take_prev_def)
next
  case False
  then obtain pre' r where p: "pre = pre' @ [(r, False)]" "prev_free pre = r"
    using k by (cases pre rule: rev_cases) (auto simp: prev_free_def split: if_splits)
  define y where "y = b + 8 + csum pre'"
  have e: "x = y + r" "x - last_size 8 pre = y" "y + r - k = y + (r - k)" using x p k y_def by auto
  have g: "fill R1 b pre' post R2 (grow_prev r s k) = fill R1 b (take_prev k pre) post R2 [(s + k, True)]"
    using p k False by (auto simp: grow_prev_def take_prev_def add.commute)
  have f: "fill R1 b pre' post R2 [(r, False), (s, True)] = fill R1 b pre post R2 [(s, True)]" using p by simp
  note P = realloc_prev_ok [of nl R1 b pre' r s post R2 m, unfolded f, OF h nl k(1) _ _ y_def]
  show ?thesis using P k False unfolding p(2) e(2) unfolding e g by simp
qed

lemma realloc_next_any:
  assumes h: "heap_ok nl (fill R1 b pre post R2 [(s, True)]) m" and nl: "mm_nodelist heap = nl"
    and k: "k mod 16 = 0" "k \<le> next_free post" and x: "x = b + 8 + csum pre"
  shows "\<exists>m'. realloc_next heap x s (x + s) (next_free post) k m = Some m' \<and>
    heap_ok nl (fill R1 b pre (take_next k post) R2 [(s + k, True)]) m' \<and>
    frame (mgmt nl (fill R1 b pre post R2 [(s, True)]) \<union> mgmt nl (fill R1 b pre (take_next k post) R2 [(s + k, True)])) m m'"
proof (cases "k = 0")
  case True
  then show ?thesis using h by (auto simp: realloc_next_def take_next_def)
next
  case False
  then obtain post' t where p: "post = (t, False) # post'" "next_free post = t"
    using k by (cases post) (auto simp: next_free_def split: if_splits)
  have g: "fill R1 b pre post' R2 (grow_next s t k) = fill R1 b pre (take_next k post) R2 [(s + k, True)]"
    using p k False by (auto simp: grow_next_def take_next_def)
  have f: "fill R1 b pre post' R2 [(s, True), (t, False)] = fill R1 b pre post R2 [(s, True)]" using p by simp
  show ?thesis using realloc_next_ok [of nl R1 b pre s t post' R2 m, unfolded f, OF h nl k(1)] k unfolding p(2) x g by simp
qed

end
