(* ===== verification/Mm_Client.thy ===== *)
theory Mm_Client
  imports Mm_Realloc
begin

text \<open>
What a client of the memory manager sees: the blocks it holds. Each operation on the heap is described by the blocks before and after it; the contents of every block that stays is kept, the regions keep their space, and no two free chunks are side by side.
\<close>

section \<open>No two free chunks side by side\<close>

definition coalesced :: "region list \<Rightarrow> bool" where
  "coalesced R \<longleftrightarrow> (\<forall>(b, cs) \<in> set R. successively (\<lambda>c d. snd c \<or> snd d) cs)"

lemma coalesced_fill:
  "coalesced (fill R1 b pre post R2 mid) \<longleftrightarrow> coalesced R1 \<and> coalesced R2 \<and> successively (\<lambda>c d. snd c \<or> snd d) (pre @ mid @ post)"
  by (auto simp: coalesced_def)

lemma coalesced_cut: "coalesced (fill R1 b pre post R2 [(s, False)]) \<Longrightarrow> coalesced (fill R1 b pre post R2 (cut a s))"
  unfolding coalesced_fill by (auto simp: cut_def successively_append_iff successively_Cons)

lemma coalesced_free: "coalesced (fill R1 b pre post R2 [(s, True)]) \<Longrightarrow> coalesced (R1 @ (b, free_chunk pre s post) # R2)"
  unfolding coalesced_def
  by (cases "(s, post)" rule: absorb_next.cases; cases pre rule: rev_cases)
     (auto simp: free_chunk_def absorb_prev_def successively_append_iff successively_Cons split: if_splits)

lemma coalesced_take:
  assumes "coalesced (fill R1 b pre post R2 [(s, True)])"
  shows "k \<le> prev_free pre \<Longrightarrow> coalesced (fill R1 b (take_prev k pre) post R2 [(n, True)])"
    "k \<le> next_free post \<Longrightarrow> coalesced (fill R1 b pre (take_next k post) R2 [(n, True)])"
proof -
  show "k \<le> prev_free pre \<Longrightarrow> coalesced (fill R1 b (take_prev k pre) post R2 [(n, True)])"
    using assms unfolding coalesced_fill
    by (cases pre rule: rev_cases) (auto simp: take_prev_def prev_free_def successively_append_iff successively_Cons split: if_splits)
  show "k \<le> next_free post \<Longrightarrow> coalesced (fill R1 b pre (take_next k post) R2 [(n, True)])"
    using assms unfolding coalesced_fill
    by (cases post) (auto simp: take_next_def next_free_def successively_append_iff successively_Cons split: if_splits)
qed

section \<open>The space of the regions\<close>

definition extent :: "region list \<Rightarrow> (nat \<times> nat) list" where
  "extent R = map (\<lambda>(b, cs). (b, csum cs)) R"

lemma extent_fill: "csum (pre @ mid @ post) = csum (pre' @ mid' @ post') \<Longrightarrow> extent (fill R1 b pre post R2 mid) = extent (fill R1 b pre' post' R2 mid')"
  by (simp add: extent_def)

lemma extent_ops:
  "a \<le> s \<Longrightarrow> extent (fill R1 b pre post R2 (cut a s)) = extent (fill R1 b pre post R2 [(s, u)])"
  "extent (R1 @ (b, free_chunk pre s post) # R2) = extent (fill R1 b pre post R2 [(s, u)])"
  "k \<le> prev_free pre \<Longrightarrow> extent (fill R1 b (take_prev k pre) post R2 [(s + k, v)]) = extent (fill R1 b pre post R2 [(s, u)])"
  "k \<le> next_free post \<Longrightarrow> extent (fill R1 b pre (take_next k post) R2 [(s + k, v)]) = extent (fill R1 b pre post R2 [(s, u)])"
proof -
  show "extent (R1 @ (b, free_chunk pre s post) # R2) = extent (fill R1 b pre post R2 [(s, u)])"
    by (cases "(s, post)" rule: absorb_next.cases; cases pre rule: rev_cases)
      (auto simp: extent_def free_chunk_def absorb_prev_def split: if_splits)
  show "k \<le> prev_free pre \<Longrightarrow> extent (fill R1 b (take_prev k pre) post R2 [(s + k, v)]) = extent (fill R1 b pre post R2 [(s, u)])"
    using rest_take(2) [of k pre] by (simp add: extent_def)
  show "k \<le> next_free post \<Longrightarrow> extent (fill R1 b pre (take_next k post) R2 [(s + k, v)]) = extent (fill R1 b pre post R2 [(s, u)])"
    by (cases post) (auto simp: extent_def take_next_def next_free_def split: if_splits)
qed (auto simp: extent_def cut_def)

section \<open>Changes of the heap\<close>

definition heap_to :: "nat \<Rightarrow> region list \<Rightarrow> mem \<Rightarrow> region list \<Rightarrow> mem \<Rightarrow> bool" where
  "heap_to nl R m R' m' \<longleftrightarrow> heap_ok nl R' m' \<and> extent R' = extent R \<and> (coalesced R \<longrightarrow> coalesced R') \<and>
     (\<forall>q \<in> blocks R \<inter> blocks R'. \<forall>a \<in> bytes_of q. m' a = m a)"

lemma heap_to_refl: "heap_ok nl R m \<Longrightarrow> heap_to nl R m R m"
  by (simp add: heap_to_def)

lemma heap_to_trans:
  assumes "heap_to nl R m R' m'" "heap_to nl R' m' R'' m''" "blocks R \<inter> blocks R'' \<subseteq> blocks R'"
  shows "heap_to nl R m R'' m''"
  using assms by (fastforce simp: heap_to_def)

lemma heap_to_frame:
  assumes h: "heap_ok nl R m" "heap_ok nl R' m'" and f: "frame (mgmt nl R \<union> mgmt nl R' \<union> B) m m'"
    and B: "\<And>q. q \<in> blocks R \<inter> blocks R' \<Longrightarrow> bytes_of q \<inter> B = {}" and e: "extent R' = extent R" "coalesced R \<Longrightarrow> coalesced R'"
  shows "heap_to nl R m R' m'"
proof -
  have l: "layout nl R" "layout nl R'" using h by (auto simp: heap_ok_def heap_at_def)
  have "m' a = m a" if "q \<in> blocks R \<inter> blocks R'" "a \<in> bytes_of q" for q a
    using f block_bytes_out [OF l(1), of q a] block_bytes_out [OF l(2), of q a] B [OF that(1)] that by (auto simp: frame_def)
  then show ?thesis using h e by (simp add: heap_to_def)
qed

lemma heap_to_write:
  assumes h: "heap_ok nl R m" and p: "p \<in> blocks R" and f: "frame (bytes_of p) m m'"
  shows "heap_ok nl R m'" "q \<in> blocks R \<Longrightarrow> q \<noteq> p \<Longrightarrow> a \<in> bytes_of q \<Longrightarrow> m' a = m a"
proof -
  have l: "layout nl R" using h by (auto simp: heap_ok_def heap_at_def)
  show "heap_ok nl R m'" by (rule heap_ok_block_write [OF h p f])
  show "q \<in> blocks R \<Longrightarrow> q \<noteq> p \<Longrightarrow> a \<in> bytes_of q \<Longrightarrow> m' a = m a"
    using f blocks_disjoint(1) [OF l p, of q] by (auto simp: frame_def)
qed

section \<open>Allocation and release\<close>

lemma block_aligned: "layout nl R \<Longrightarrow> (p, n) \<in> blocks R \<Longrightarrow> p mod 16 = 0 \<and> 0 < p \<and> 8 \<le> n \<and> p + n \<le> 4294967296"
proof -
  assume l: "layout nl R" and p: "(p, n) \<in> blocks R"
  obtain R1 b pre s post R2 where R: "R = fill R1 b pre post R2 [(s, True)]" "p = b + 8 + csum pre + 8" "n = s - 8"
    using blocks_split [OF p] by blast
  have r: "(b, pre @ [(s, True)] @ post) \<in> set R" using R by simp
  have k: "b mod 16 = 0" "body_ok pre" "b + (csum pre + (s + csum post)) + 16 \<le> 4294967296" "16 \<le> s"
    using layout_region [OF l r] chunk_size l R by (auto simp: region_ok_def)
  then have "(b + csum pre) mod 16 = 0" using csum_mod [OF k(2)] by (simp add: mod_add_eq [symmetric])
  then have "(b + csum pre + 16) mod 16 = 0" by simp
  moreover have "p = b + csum pre + 16" using R by simp
  ultimately show ?thesis using R(3) k(3,4) by auto
qed

lemma malloc_chunk:
  assumes h: "heap_ok nl R m" and nl: "mm_nodelist heap = nl" and sem: "sem_ready pid heap"
    and sz: "0 < sz" "sz + 23 < 4294967296"
  obtains (none) "mm_malloc pid sz (heap, m) = Some (0, heap, m)" "\<forall>x \<in> frees R. nsize x m < MM_ALIGN_UP (sz + 8)"
  | (some) Q1 b pre post Q2 m' where "mm_malloc pid sz (heap, m) = Some (b + 8 + csum pre + 8, heap, m')"
      "heap_to nl R m (fill Q1 b pre post Q2 [(MM_ALIGN_UP (sz + 8), True)]) m'"
      "blocks (fill Q1 b pre post Q2 [(MM_ALIGN_UP (sz + 8), True)]) = insert (b + 8 + csum pre + 8, MM_ALIGN_UP (sz + 8) - 8) (blocks R)"
      "(b + 8 + csum pre + 8, MM_ALIGN_UP (sz + 8) - 8) \<notin> blocks R" "coalesced R \<Longrightarrow> pre = [] \<or> snd (last pre)"
proof -
  let ?a = "MM_ALIGN_UP (sz + 8)"
  show thesis
  proof (rule mm_malloc_ok [OF h nl sem sz])
    assume "mm_malloc pid sz (heap, m) = Some (0, heap, m)" "\<forall>x \<in> frees R. nsize x m < ?a"
    then show thesis by (rule none)
  next
    fix R1 b pre s post R2 m'
    assume R: "R = fill R1 b pre post R2 [(s, False)]" and s: "?a \<le> s"
      and r: "mm_malloc pid sz (heap, m) = Some (b + 8 + csum pre + 8, heap, m')"
      and h': "heap_ok nl (fill R1 b pre post R2 (cut ?a s)) m'" and f: "frame (mgmt nl R \<union> mgmt nl (fill R1 b pre post R2 (cut ?a s))) m m'"
    let ?R' = "fill R1 b pre post R2 (cut ?a s)" and ?post = "(if ?a = s then [] else [(s - ?a, False)]) @ post"
    have l: "layout nl R" using h by (auto simp: heap_ok_def heap_at_def)
    have c: "csum (cut ?a s) = s" "blocks_at x (cut ?a s) = {(x + 8, ?a - 8)}" for x using s by (auto simp: cut_def)
    have e: "?R' = fill R1 b pre ?post R2 [(?a, True)]" by (simp add: cut_def)
    have b: "blocks ?R' = insert (b + 8 + csum pre + 8, ?a - 8) (blocks R)" unfolding R blocks_fill c by auto
    have n: "(b + 8 + csum pre + 8, ?a - 8) \<notin> blocks R"
      using own_not_rest [OF l [unfolded R]] unfolding R blocks_fill by simp
    have t: "heap_to nl R m ?R' m'"
      by (rule heap_to_frame [OF h h', of "{}"]) (use f R s extent_ops(1) coalesced_cut in auto)
    have "coalesced R \<Longrightarrow> pre = [] \<or> snd (last pre)" unfolding R coalesced_fill by (auto simp: successively_append_iff)
    then show thesis by (rule some [OF r t [unfolded e] b [unfolded e] n])
  qed
qed

lemma malloc_block:
  assumes "heap_ok nl R m" "mm_nodelist heap = nl" "sem_ready pid heap" "0 < sz" "sz + 23 < 4294967296"
  obtains (none) "mm_malloc pid sz (heap, m) = Some (0, heap, m)" "\<forall>x \<in> frees R. nsize x m < MM_ALIGN_UP (sz + 8)"
  | (some) p R' m' where "mm_malloc pid sz (heap, m) = Some (p, heap, m')" "heap_to nl R m R' m'"
      "blocks R' = insert (p, MM_ALIGN_UP (sz + 8) - 8) (blocks R)" "(p, MM_ALIGN_UP (sz + 8) - 8) \<notin> blocks R"
  using malloc_chunk [OF assms] by metis

lemma free_block:
  assumes h: "heap_ok nl R m" and nl: "mm_nodelist heap = nl" and sem: "sem_ready pid heap" and p: "(p, n) \<in> blocks R"
  shows "\<exists>R' m'. mm_free pid p (heap, m) = Some (heap, m') \<and> heap_to nl R m R' m' \<and> blocks R' = blocks R - {(p, n)}"
proof -
  obtain R1 b pre s post R2 where R: "R = fill R1 b pre post R2 [(s, True)]" "p = b + 8 + csum pre + 8" "n = s - 8"
    using blocks_split [OF p] by blast
  have l: "layout nl R" using h by (auto simp: heap_ok_def heap_at_def)
  obtain m' where m': "mm_free pid p (heap, m) = Some (heap, m')" "heap_ok nl (R1 @ (b, free_chunk pre s post) # R2) m'"
    "frame (mgmt nl R \<union> link_bytes (b + 8 + csum pre)) m m'"
    using mm_free_ok [OF h [unfolded R(1)] nl sem] R by blast
  let ?R' = "R1 @ (b, free_chunk pre s post) # R2"
  have b: "blocks ?R' = rest_blocks R1 b pre s post R2"
    by (cases "(s, post)" rule: absorb_next.cases; cases pre rule: rev_cases)
      (auto simp: blocks_def rest_blocks_def free_chunk_def absorb_prev_def add.assoc split: if_splits)
  have b': "blocks ?R' = blocks R - {(p, n)}" using blocks_own [OF l [unfolded R(1)]] b R by simp
  have "link_bytes (b + 8 + csum pre) \<subseteq> bytes_of (p, n)" using chunk_size [OF l [unfolded R(1)]] R by (auto simp: link_bytes_def bytes_of_def)
  then have f: "frame (mgmt nl R \<union> mgmt nl ?R' \<union> bytes_of (p, n)) m m'" by (intro frame_mono [OF m'(3)]) blast
  have "heap_to nl R m ?R' m'"
    by (rule heap_to_frame [OF h m'(2) f]) (use b' blocks_disjoint(1) [OF l _ p] extent_ops(2) coalesced_free R(1) in auto)
  then show ?thesis using m'(1) b' by blast
qed

section \<open>Reallocation\<close>

text \<open>The block at p of n bytes becomes the block at q of n' bytes, with the contents that fit.\<close>

definition resized :: "nat \<Rightarrow> region list \<Rightarrow> mem \<Rightarrow> nat \<Rightarrow> nat \<Rightarrow> region list \<Rightarrow> mem \<Rightarrow> nat \<Rightarrow> nat \<Rightarrow> bool" where
  "resized nl R m p n R' m' q n' \<longleftrightarrow> heap_to nl R m R' m' \<and> blocks R' = insert (q, n') (blocks R - {(p, n)}) \<and>
     (q, n') \<notin> blocks R - {(p, n)} \<and> (\<forall>i < min n n'. m' (q + i) = m (p + i))"

lemma same_place:
  assumes h: "heap_ok nl R m" "heap_ok nl R' m'" and f: "frame (mgmt nl R \<union> mgmt nl R') m m'"
    and p: "(p, n) \<in> blocks R" "(p, n') \<in> blocks R'" and i: "i < min n n'"
  shows "m' (p + i) = m (p + i)"
proof -
  have l: "layout nl R" "layout nl R'" using h by (auto simp: heap_ok_def heap_at_def)
  then show ?thesis using f block_bytes_out [OF l(1) p(1), of "p + i"] block_bytes_out [OF l(2) p(2), of "p + i"] i
    by (auto simp: frame_def bytes_of_def)
qed

lemma resized_frame:
  assumes h: "heap_ok nl R m" and h': "heap_ok nl R' m'" and f: "frame (mgmt nl R \<union> mgmt nl R' \<union> bytes_of (q, n')) m m'"
    and b: "blocks R' = insert (q, n') (blocks R - {(p, n)})" "(q, n') \<notin> blocks R - {(p, n)}"
    and c: "\<forall>i < min n n'. m' (q + i) = m (p + i)" and e: "extent R' = extent R" "coalesced R \<Longrightarrow> coalesced R'"
  shows "resized nl R m p n R' m' q n'"
proof -
  have l: "layout nl R" "layout nl R'" using h h' by (auto simp: heap_ok_def heap_at_def)
  have "m' a = m a" if x: "x \<in> blocks R" "x \<in> blocks R'" "a \<in> bytes_of x" for x a
  proof (cases "x = (q, n')")
    case True
    then have "x = (p, n)" using x b(2) by blast
    then show ?thesis using True x(3) c [rule_format, of "a - p"] by (auto simp: bytes_of_def)
  next
    case False
    then have "a \<notin> bytes_of (q, n')" using blocks_disjoint(1) [OF l(2), of x "(q, n')"] x b(1) by auto
    then show ?thesis using f block_bytes_out [OF l(1) x(1,3)] block_bytes_out [OF l(2) x(2,3)] by (simp add: frame_def)
  qed
  then have "heap_to nl R m R' m'" using h' e unfolding heap_to_def by blast
  then show ?thesis using b c by (simp add: resized_def)
qed

lemma resized_inplace:
  assumes h: "heap_ok nl R m" and h': "heap_ok nl R' m'" and f: "frame (mgmt nl R \<union> mgmt nl R') m m'"
    and p: "(p, n) \<in> blocks R" and b: "blocks R' = insert (p, n') (blocks R - {(p, n)})"
    and e: "extent R' = extent R" "coalesced R \<Longrightarrow> coalesced R'"
  shows "resized nl R m p n R' m' p n'"
proof (rule resized_frame [OF h h' frame_mono [OF f Un_upper1] b _ _ e])
  have l: "layout nl R" using h by (auto simp: heap_ok_def heap_at_def)
  show "(p, n') \<notin> blocks R - {(p, n)}" using blocks_disjoint(2) [OF l p] by force
  show "\<forall>i < min n n'. m' (p + i) = m (p + i)" using same_place [OF h h' f p, of n'] b by blast
qed

lemma resized_trans:
  assumes r: "resized nl R m p n R1 m1 q k" "resized nl R1 m1 q k R' m' q' n'" and k: "n \<le> k"
  shows "resized nl R m p n R' m' q' n'"
proof -
  have b1: "blocks R1 = insert (q, k) (blocks R - {(p, n)})" "(q, k) \<notin> blocks R - {(p, n)}"
    and b2: "blocks R' = insert (q', n') (blocks R1 - {(q, k)})" "(q', n') \<notin> blocks R1 - {(q, k)}" using r by (auto simp: resized_def)
  have e: "blocks R1 - {(q, k)} = blocks R - {(p, n)}" using b1 by blast
  have t: "heap_to nl R m R1 m1" "heap_to nl R1 m1 R' m'" using r by (auto simp: resized_def)
  have c: "\<forall>i < min n n'. m' (q' + i) = m (p + i)" using r k by (auto simp: resized_def)
  have "m' a = m a" if x: "x \<in> blocks R" "x \<in> blocks R'" "a \<in> bytes_of x" for x a
  proof (cases "x = (p, n)")
    case True
    then have "x = (q', n')" using x(2) b2 e by blast
    then show ?thesis using True x(3) c [rule_format, of "a - p"] by (auto simp: bytes_of_def)
  next
    case False
    then have "x \<in> blocks R1" using x b1 by blast
    then have "m1 a = m a" "m' a = m1 a" using t x unfolding heap_to_def by blast+
    then show ?thesis by simp
  qed
  then have "heap_to nl R m R' m'" using t unfolding heap_to_def by auto
  then show ?thesis using b2 c unfolding e by (simp add: resized_def)
qed

lemma shrink_block:
  assumes h: "heap_ok nl R m" and R: "R = fill R1 b pre post R2 [(s, True)]" and nl: "mm_nodelist heap = nl"
    and a: "a mod 16 = 0" "0 < a" "a < s" and p: "p = b + 8 + csum pre + 8"
  shows "\<exists>R' m'. mm_shrinkchunk heap (b + 8 + csum pre) a m = Some m' \<and> resized nl R m p (s - 8) R' m' p (a - 8)"
proof -
  have l: "layout nl R" using h by (auto simp: heap_ok_def heap_at_def)
  have pb: "(p, s - 8) \<in> blocks R" using own_block R p by simp
  have bb: "blocks R - {(p, s - 8)} = rest_blocks R1 b pre s post R2" using blocks_own [OF l [unfolded R]] R p by simp
  show ?thesis
  proof (cases "case post of [] \<Rightarrow> True | c # cs \<Rightarrow> snd c")
    case True
    let ?R' = "fill R1 b pre post R2 [(a, True), (s - a, False)]"
    obtain m' where m': "mm_shrinkchunk heap (b + 8 + csum pre) a m = Some m'" "heap_ok nl ?R' m'" "frame (mgmt nl R \<union> mgmt nl ?R') m m'"
      using shrink_next_alloc [OF h [unfolded R] nl a True] R by blast
    have "blocks ?R' = insert (p, a - 8) (blocks R - {(p, s - 8)})" unfolding bb blocks_fill using p a by auto
    moreover have "coalesced R \<Longrightarrow> coalesced ?R'" unfolding R coalesced_fill using True
      by (auto simp: successively_append_iff successively_Cons split: list.splits)
    moreover have "extent ?R' = extent R" using a by (simp add: R extent_def)
    ultimately show ?thesis using resized_inplace [OF h m'(2,3) pb] m'(1) by blast
  next
    case False
    then obtain t post' where q: "post = (t, False) # post'" by (cases post) auto
    have R': "R = fill R1 b pre post' R2 [(s, True), (t, False)]" using R q by simp
    let ?R' = "fill R1 b pre post' R2 [(a, True), (s + t - a, False)]"
    obtain m' where m': "mm_shrinkchunk heap (b + 8 + csum pre) a m = Some m'" "heap_ok nl ?R' m'" "frame (mgmt nl R \<union> mgmt nl ?R') m m'"
      using shrink_next_free [OF h [unfolded R'] nl a] R' by blast
    have "blocks ?R' = insert (p, a - 8) (blocks R - {(p, s - 8)})" unfolding bb blocks_fill using p a q by (auto simp: rest_blocks_def add.assoc)
    moreover have "coalesced R \<Longrightarrow> coalesced ?R'" unfolding R' coalesced_fill
      by (auto simp: successively_append_iff successively_Cons)
    moreover have "extent ?R' = extent R" using a by (simp add: R' extent_def)
    ultimately show ?thesis using resized_inplace [OF h m'(2,3) pb] m'(1) by blast
  qed
qed

lemma takes_ok:
  assumes "0 < needed" "needed \<le> pv + nx" "needed mod 16 = 0" "pv mod 16 = 0" "nx mod 16 = 0" "realloc_takes needed pv nx = (tp, tn)"
  shows "tp \<le> pv" "tn \<le> nx" "tp + tn = needed" "tp mod 16 = 0" "tn mod 16 = 0"
  using assms mod_16_diff [of needed pv] mod_16_diff [of needed nx] by (auto simp: realloc_takes_def Let_def split: if_splits)

lemma resized_prev:
  assumes h: "heap_ok nl R m" and R: "R = fill R1 b pre post R2 [(s, True)]" and nl: "mm_nodelist heap = nl"
    and k: "k mod 16 = 0" "k \<le> prev_free pre" and x: "x = b + 8 + csum pre"
  shows "\<exists>m'. realloc_prev heap (x + 8) x s (x - last_size 8 pre) (prev_free pre) (x + s) k m = Some (x - k + 8, x - k, s + k, m') \<and>
    resized nl R m (x + 8) (s - 8) (fill R1 b (take_prev k pre) post R2 [(s + k, True)]) m' (x - k + 8) (s + k - 8)"
proof -
  let ?R' = "fill R1 b (take_prev k pre) post R2 [(s + k, True)]"
  have l: "layout nl R" using h by (auto simp: heap_ok_def heap_at_def)
  obtain m' where m': "realloc_prev heap (x + 8) x s (x - last_size 8 pre) (prev_free pre) (x + s) k m = Some (x - k + 8, x - k, s + k, m')"
    "heap_ok nl ?R' m'" "\<forall>i < s - 8. m' (x - k + 8 + i) = m (x + 8 + i)" "frame (mgmt nl R \<union> mgmt nl ?R' \<union> {x - k + 8 ..< x + s}) m m'"
    using realloc_prev_any [OF h [unfolded R] nl k x] R by blast
  have l': "layout nl ?R'" using m'(2) by (auto simp: heap_ok_def heap_at_def)
  have a: "b + 8 + csum (take_prev k pre) = x - k" "k \<le> x" using rest_take(2) [OF k(2)] x by auto
  have r: "blocks R - {(x + 8, s - 8)} = rest_blocks R1 b pre s post R2" using blocks_own [OF l [unfolded R]] R x by simp
  have t: "rest_blocks R1 b (take_prev k pre) (s + k) post R2 = rest_blocks R1 b pre s post R2" by (rule rest_take(1) [OF k(2)])
  have "resized nl R m (x + 8) (s - 8) ?R' m' (x - k + 8) (s + k - 8)"
  proof (rule resized_frame [OF h m'(2)])
    show "frame (mgmt nl R \<union> mgmt nl ?R' \<union> bytes_of (x - k + 8, s + k - 8)) m m'"
      by (rule frame_mono [OF m'(4)]) (use a(2) chunk_size [OF l [unfolded R]] in \<open>auto simp: bytes_of_def\<close>)
    show "blocks ?R' = insert (x - k + 8, s + k - 8) (blocks R - {(x + 8, s - 8)})"
      unfolding r t [symmetric] blocks_fill a by simp
    show "(x - k + 8, s + k - 8) \<notin> blocks R - {(x + 8, s - 8)}" using own_not_rest [OF l'] unfolding r t a by blast
    show "extent ?R' = extent R" unfolding R by (rule extent_ops(3) [OF k(2)])
    show "coalesced R \<Longrightarrow> coalesced ?R'" unfolding R by (rule coalesced_take(1) [OF _ k(2)])
  qed (use m'(3) in auto)
  then show ?thesis using m'(1) by blast
qed

lemma resized_next:
  assumes h: "heap_ok nl R m" and R: "R = fill R1 b pre post R2 [(s, True)]" and nl: "mm_nodelist heap = nl"
    and k: "k mod 16 = 0" "k \<le> next_free post" and x: "x = b + 8 + csum pre"
  shows "\<exists>m'. realloc_next heap x s (x + s) (next_free post) k m = Some m' \<and>
    resized nl R m (x + 8) (s - 8) (fill R1 b pre (take_next k post) R2 [(s + k, True)]) m' (x + 8) (s + k - 8)"
proof -
  let ?R' = "fill R1 b pre (take_next k post) R2 [(s + k, True)]"
  have l: "layout nl R" using h by (auto simp: heap_ok_def heap_at_def)
  obtain m' where m': "realloc_next heap x s (x + s) (next_free post) k m = Some m'" "heap_ok nl ?R' m'" "frame (mgmt nl R \<union> mgmt nl ?R') m m'"
    using realloc_next_any [OF h [unfolded R] nl k x] R by blast
  have r: "blocks R - {(x + 8, s - 8)} = rest_blocks R1 b pre s post R2" using blocks_own [OF l [unfolded R]] R x by simp
  have t: "rest_blocks R1 b pre (s + k) (take_next k post) R2 = rest_blocks R1 b pre s post R2" by (rule rest_take(3) [OF k(2)])
  have "resized nl R m (x + 8) (s - 8) ?R' m' (x + 8) (s + k - 8)"
  proof (rule resized_inplace [OF h m'(2,3)])
    show "(x + 8, s - 8) \<in> blocks R" using own_block R x by simp
    show "blocks ?R' = insert (x + 8, s + k - 8) (blocks R - {(x + 8, s - 8)})" unfolding r t [symmetric] blocks_fill using x by simp
    show "extent ?R' = extent R" unfolding R by (rule extent_ops(4) [OF k(2)])
    show "coalesced R \<Longrightarrow> coalesced ?R'" unfolding R by (rule coalesced_take(2) [OF _ k(2)])
  qed
  then show ?thesis using m'(1) by blast
qed

text \<open>What the code reads around a block.\<close>

lemma around:
  assumes h: "heap_ok nl R m" and R: "R = fill R1 b pre post R2 [(s, True)]" and x: "x = b + 8 + csum pre"
  shows "nsize x m = s" "(if is_alloc (x + s) m then 0 else nsize (x + s) m) = next_free post"
    "x - (npreceding x m AND not32 MM_ALLOC_BIT) = x - last_size 8 pre"
    "(if is_alloc (x - last_size 8 pre) m then 0 else nsize (x - last_size 8 pre) m) = prev_free pre"
    "s mod 16 = 0" "16 \<le> s" "next_free post mod 16 = 0" "prev_free pre mod 16 = 0" "next_free post + prev_free pre + s < 4294967296"
proof -
  have l: "layout nl R" and g: "regions_at m R" using h by (auto simp: heap_ok_def heap_at_def)
  note C = chunk_facts [OF l [unfolded R] g [unfolded R]]
  show "nsize x m = s" "s mod 16 = 0" "16 \<le> s" using C x by auto
  show "x - (npreceding x m AND not32 MM_ALLOC_BIT) = x - last_size 8 pre" using C(2,3) x by (simp add: and_not_alloc_bit)
  have r: "(b, pre @ [(s, True)] @ post) \<in> set R" using R by simp
  have ok: "body_ok pre" "body_ok post" "csum pre + (s + csum post) < 2147483648" using layout_region [OF l r] by (auto simp: region_ok_def)
  have pv: "prev_free pre mod 16 = 0 \<and> prev_free pre \<le> csum pre"
    using ok by (cases pre rule: rev_cases) (auto simp: prev_free_def)
  have nx: "next_free post mod 16 = 0 \<and> next_free post \<le> csum post"
    using ok by (cases post) (auto simp: next_free_def)
  show "next_free post mod 16 = 0" "prev_free pre mod 16 = 0" "next_free post + prev_free pre + s < 4294967296" using pv nx ok by auto
  have na: "is_alloc (x + s) m \<longleftrightarrow> (case post of [] \<Rightarrow> True | c # cs \<Rightarrow> snd c)"
    using next_alloc [OF l [unfolded R] g [unfolded R]] x by simp
  have pa: "is_alloc (x - last_size 8 pre) m \<longleftrightarrow> pre = [] \<or> snd (last pre)" using prev_alloc [OF l [unfolded R] g [unfolded R]] x by simp
  show "(if is_alloc (x + s) m then 0 else nsize (x + s) m) = next_free post"
  proof (cases post)
    case (Cons c cs)
    have "nsize (x + s) m = fst c"
      using chunk_facts(1) [of nl R1 b "pre @ [(s, True)]" "fst c" "snd c" "[]" cs R2 m] l g R Cons x by (simp add: add.assoc)
    then show ?thesis using na Cons by (cases c) (simp add: next_free_def)
  qed (use na in \<open>simp add: next_free_def\<close>)
  show "(if is_alloc (x - last_size 8 pre) m then 0 else nsize (x - last_size 8 pre) m) = prev_free pre"
  proof (cases pre rule: rev_cases)
    case (snoc cs c)
    have "nsize (b + 8 + csum cs) m = fst c"
      using chunk_facts(1) [of nl R1 b cs "fst c" "snd c" "[(s, True)]" post R2 m] l g R snoc by simp
    moreover have "x - last_size 8 pre = b + 8 + csum cs" using x snoc by (cases c) simp
    ultimately show ?thesis using pa snoc by (simp add: prev_free_def)
  qed (use pa in \<open>simp add: prev_free_def\<close>)
qed

lemma blocks_gap:
  assumes l: "layout nl R" and pq: "(p, n) \<in> blocks R" "(q, k) \<in> blocks R" "p < q"
  shows "p + n + 8 \<le> q"
proof -
  obtain R1 b pre s post R2 where R: "R = fill R1 b pre post R2 [(s, True)]" "p = b + 8 + csum pre + 8" "n = s - 8"
    using blocks_split [OF pq(1)] by blast
  have "(q, k) \<in> rest_blocks R1 b pre s post R2" using pq blocks_own [OF l [unfolded R(1)]] R by auto
  then show ?thesis using rest_out(1) [OF l [unfolded R(1)], unfolded csum_one, of "(q, k)"] chunk_size [OF l [unfolded R(1)]] R pq(3) by auto
qed

text \<open>Allocation of a block that is larger, copy with the bytes of the header more, and release of the old block.\<close>

lemma resized_move:
  assumes p: "(p, n) \<in> blocks R" and t: "heap_to nl R m R1 m1" and b: "blocks R1 = insert (q, n') (blocks R)"
    and q: "(q, n') \<notin> blocks R" and k: "n + 8 \<le> n'" and m2: "m2 = memcpy q p (n + 8) m1"
  shows "heap_ok nl R1 m2"
    "heap_to nl R1 m2 R' m' \<Longrightarrow> blocks R' = blocks R1 - {(p, n)} \<Longrightarrow> resized nl R m p n R' m' q n'"
proof -
  have h1: "heap_ok nl R1 m1" and l: "layout nl R1" using t by (auto simp: heap_to_def heap_ok_def heap_at_def)
  have pq: "(p, n) \<noteq> (q, n')" using p q by blast
  have "q \<le> p \<or> p + (n + 8) \<le> q" using blocks_gap [OF l, of p n q n'] p b by (cases "p < q") auto
  note c = memcpy_apply [OF this, of m1]
  have w: "frame (bytes_of (q, n')) m1 m2" unfolding m2 frame_def c using k by (auto simp: bytes_of_def)
  note W = heap_to_write [OF h1 _ w]
  show "heap_ok nl R1 m2" by (rule W(1)) (use b in simp)
  assume f: "heap_to nl R1 m2 R' m'" and b': "blocks R' = blocks R1 - {(p, n)}"
  have e: "m' a = m a" if x: "x \<in> blocks R" "x \<noteq> (p, n)" "a \<in> bytes_of x" for x a
  proof -
    have i: "x \<in> blocks R1" "x \<in> blocks R'" "x \<noteq> (q, n')" using x b b' q by auto
    have "m1 a = m a" using t x i unfolding heap_to_def by blast
    moreover have "m2 a = m1 a" by (rule W(2) [OF _ i(1,3) x(3)]) (use b in simp)
    moreover have "m' a = m2 a" using f x i unfolding heap_to_def by blast
    ultimately show ?thesis by simp
  qed
  have "m' (q + i) = m (p + i)" if i: "i < n" for i
  proof -
    have "(p, n) \<in> blocks R \<inter> blocks R1" "p + i \<in> bytes_of (p, n)" using p b i by (auto simp: bytes_of_def)
    then have "m1 (p + i) = m (p + i)" using t unfolding heap_to_def by blast
    moreover have "m2 (q + i) = m1 (p + i)" unfolding m2 c using i by simp
    moreover have "(q, n') \<in> blocks R1 \<inter> blocks R'" "q + i \<in> bytes_of (q, n')" using b b' pq i k by (auto simp: bytes_of_def)
    then have "m' (q + i) = m2 (q + i)" using f unfolding heap_to_def by blast
    ultimately show ?thesis by simp
  qed
  moreover have "heap_to nl R m R' m'" unfolding heap_to_def
    using t f e b' by (auto simp: heap_to_def)
  ultimately show "resized nl R m p n R' m' q n'" unfolding resized_def using b b' pq q by auto
qed

lemma mm_realloc_unfold:
  assumes h0: "mm_takesemaphore pid heap = Some h0" "mm_givesemaphore h0 = heap" and sz: "0 < sz"
    and s: "nsize x m = s" and nx: "(if is_alloc (x + s) m then 0 else nsize (x + s) m) = nx"
    and pr: "x - (npreceding x m AND not32 MM_ALLOC_BIT) = pr" and pv: "(if is_alloc pr m then 0 else nsize pr m) = pv"
    and lt: "nx + pv + s < 4294967296"
  shows "mm_realloc pid (x + 8) sz (heap, m) =
    (if MM_ALIGN_UP (sz + 8) \<le> s
     then map_option (\<lambda>m'. (x + 8, heap, m')) (if MM_ALIGN_UP (sz + 8) < s then mm_shrinkchunk h0 x (MM_ALIGN_UP (sz + 8)) m else Some m)
     else if MM_ALIGN_UP (sz + 8) \<le> nx + pv + s
     then Option.bind (realloc_prev h0 (x + 8) x s pr pv (x + s) (fst (realloc_takes (MM_ALIGN_UP (sz + 8) - s) pv nx)) m) (\<lambda>(newmem, oldnode, oldsize, m).
       map_option (\<lambda>m'. (newmem, heap, m')) (realloc_next h0 oldnode oldsize (x + s) nx (snd (realloc_takes (MM_ALIGN_UP (sz + 8) - s) pv nx)) m))
     else Option.bind (mm_malloc pid sz (heap, m)) (\<lambda>(q, heap, m).
       if q \<noteq> 0 then map_option (\<lambda>s. (q, s)) (mm_free pid (x + 8) (heap, memcpy q (x + 8) s m)) else Some (q, heap, m)))"
  using h0 sz lt unfolding mm_realloc_def Let_def
  by (simp add: s nx pr pv map_conv_bind_option comp_def case_prod_beta cong: if_cong)

lemma grow_block:
  assumes h: "heap_ok nl R m" and R: "R = fill R1 b pre post R2 [(s, True)]" and nl: "mm_nodelist heap = nl" and x: "x = b + 8 + csum pre"
    and a: "s < a" "a \<le> next_free post + prev_free pre + s" "a mod 16 = 0"
    and t: "realloc_takes (a - s) (prev_free pre) (next_free post) = (tp, tn)"
  shows "\<exists>R' m1 m2. realloc_prev heap (x + 8) x s (x - last_size 8 pre) (prev_free pre) (x + s) tp m = Some (x - tp + 8, x - tp, s + tp, m1) \<and>
    realloc_next heap (x - tp) (s + tp) (x + s) (next_free post) tn m1 = Some m2 \<and> resized nl R m (x + 8) (s - 8) R' m2 (x - tp + 8) (a - 8)"
proof -
  note r = around [OF h R x]
  have n: "0 < a - s" "a - s \<le> prev_free pre + next_free post" "(a - s) mod 16 = 0" using a mod_16_diff [OF a(3) r(5)] by auto
  note T = takes_ok [OF n r(8,7) t]
  let ?R1 = "fill R1 b (take_prev tp pre) post R2 [(s + tp, True)]"
  obtain m1 where m1: "realloc_prev heap (x + 8) x s (x - last_size 8 pre) (prev_free pre) (x + s) tp m = Some (x - tp + 8, x - tp, s + tp, m1)"
    "resized nl R m (x + 8) (s - 8) ?R1 m1 (x - tp + 8) (s + tp - 8)"
    using resized_prev [OF h R nl T(4,1) x] by blast
  have h1: "heap_ok nl ?R1 m1" using m1(2) by (simp add: resized_def heap_to_def)
  have e: "x - tp = b + 8 + csum (take_prev tp pre)" "x - tp + (s + tp) = x + s" using rest_take(2) [OF T(1)] x by auto
  obtain R' m2 where m2: "realloc_next heap (x - tp) (s + tp) (x + s) (next_free post) tn m1 = Some m2"
    "resized nl ?R1 m1 (x - tp + 8) (s + tp - 8) R' m2 (x - tp + 8) (s + tp + tn - 8)"
    using resized_next [OF h1 refl nl T(5,2) e(1)] unfolding e(2) by blast
  have "s + tp + tn = a" "s - 8 \<le> s + tp - 8" using T(3) a by simp_all
  then show ?thesis using resized_trans [OF m1(2) m2(2)] m1(1) m2(1) by blast
qed

lemma move_block:
  assumes h: "heap_ok nl R m" and nl: "mm_nodelist heap = nl" and sem: "sem_ready pid heap" and p: "(p, n) \<in> blocks R"
    and sz: "0 < sz" "sz + 23 < 4294967296" and n: "n + 8 \<le> MM_ALIGN_UP (sz + 8) - 8"
    and U: "mm_realloc pid p sz (heap, m) = Option.bind (mm_malloc pid sz (heap, m)) (\<lambda>(q, heap, m).
       if q \<noteq> 0 then map_option (\<lambda>s. (q, s)) (mm_free pid p (heap, memcpy q p (n + 8) m)) else Some (q, heap, m))"
  obtains (none) "mm_realloc pid p sz (heap, m) = Some (0, heap, m)" "\<forall>x \<in> frees R. nsize x m < MM_ALIGN_UP (sz + 8)"
  | (some) q R' m' where "mm_realloc pid p sz (heap, m) = Some (q, heap, m')" "resized nl R m p n R' m' q (MM_ALIGN_UP (sz + 8) - 8)"
proof (rule malloc_block [OF h nl sem sz])
  let ?a = "MM_ALIGN_UP (sz + 8)"
  assume "mm_malloc pid sz (heap, m) = Some (0, heap, m)" "\<forall>x \<in> frees R. nsize x m < ?a"
  then show thesis using none U by simp
next
  let ?a = "MM_ALIGN_UP (sz + 8)"
  fix q R1 m1
  assume q: "mm_malloc pid sz (heap, m) = Some (q, heap, m1)" "heap_to nl R m R1 m1" "blocks R1 = insert (q, ?a - 8) (blocks R)" "(q, ?a - 8) \<notin> blocks R"
  note M = resized_move [OF p q(2,3,4) n refl]
  have l1: "layout nl R1" using q(2) by (simp add: heap_to_def heap_ok_def heap_at_def)
  obtain R' m' where f: "mm_free pid p (heap, memcpy q p (n + 8) m1) = Some (heap, m')" "heap_to nl R1 (memcpy q p (n + 8) m1) R' m'"
    "blocks R' = blocks R1 - {(p, n)}" using free_block [OF M(1) nl sem, of p n] p q(3) by auto
  have "q \<noteq> 0" using block_aligned [OF l1, of q] q(3) by auto
  then show thesis using some [of q m' R'] U q(1) f(1) M(2) [OF f(2,3)] by simp
qed

lemma realloc_block:
  assumes h: "heap_ok nl R m" and nl: "mm_nodelist heap = nl" and sem: "sem_ready pid heap" and p: "(p, n) \<in> blocks R"
    and sz: "0 < sz" "sz + 23 < 4294967296"
  obtains (none) "mm_realloc pid p sz (heap, m) = Some (0, heap, m)" "\<forall>x \<in> frees R. nsize x m < MM_ALIGN_UP (sz + 8)" "n < MM_ALIGN_UP (sz + 8) - 8"
  | (some) q R' m' where "mm_realloc pid p sz (heap, m) = Some (q, heap, m')" "resized nl R m p n R' m' q (MM_ALIGN_UP (sz + 8) - 8)"
proof -
  let ?a = "MM_ALIGN_UP (sz + 8)"
  note A = align_chunk [OF sz]
  obtain R1 b pre s post R2 where R: "R = fill R1 b pre post R2 [(s, True)]" "p = b + 8 + csum pre + 8" "n = s - 8"
    using blocks_split [OF p] by blast
  obtain x where x: "x = b + 8 + csum pre" by blast
  have px: "p = x + 8" using x R by simp
  obtain h0 where h0: "mm_takesemaphore pid heap = Some h0" "mm_givesemaphore h0 = heap" "mm_nodelist h0 = nl"
    using take_give [OF sem] nl by metis
  note r = around [OF h R(1) x]
  note U = mm_realloc_unfold [OF h0(1,2) sz(1) r(1,2,3,4,9), folded px]
  consider "?a = s" | "?a < s" | "s < ?a" "?a \<le> next_free post + prev_free pre + s" | "s < ?a" "next_free post + prev_free pre + s < ?a" by linarith
  then show thesis
  proof cases
    case 1
    then have "resized nl R m p n R m p (?a - 8)" using R p heap_to_refl [OF h] by (auto simp: resized_def)
    then show thesis using some U 1 by simp
  next
    case 2
    then show thesis using shrink_block [OF h R(1) h0(3) A(3) _ _ R(2)] U some A(4) R(3) x by fastforce
  next
    case 3
    obtain tp tn where t: "realloc_takes (?a - s) (prev_free pre) (next_free post) = (tp, tn)" by force
    show thesis using grow_block [OF h R(1) h0(3) x 3 A(3) t] U some 3 px R(3) unfolding t by auto
  next
    case 4
    have n8: "n + 8 = s" "n + 8 \<le> ?a - 8" using R(3) r(5,6) 4(1) A(3) mod_16_apart [of s ?a] by auto
    have U4: "mm_realloc pid p sz (heap, m) = Option.bind (mm_malloc pid sz (heap, m)) (\<lambda>(q, heap, m).
       if q \<noteq> 0 then map_option (\<lambda>s. (q, s)) (mm_free pid p (heap, memcpy q p (n + 8) m)) else Some (q, heap, m))"
      unfolding n8(1) using U 4 by simp
    have "n < ?a - 8" using n8(2) by simp
    then show thesis using move_block [OF h nl sem p sz n8(2) U4] none some by blast
  qed
qed

end
