(* ===== verification/Mm_Align.thy ===== *)
theory Mm_Align
  imports Mm_Client
begin

text \<open>
Aligned and cleared memory: mm_memalign frees the bytes before the aligned address and the bytes behind the data; mm_zalloc and mm_calloc clear the block.
\<close>

unbundle bit_operations_syntax

section \<open>Rounding up to a power of two\<close>

lemma and_not_mask: "(x :: nat) < 4294967296 \<Longrightarrow> j \<le> 32 \<Longrightarrow> x AND not32 (2 ^ j - 1) = 2 ^ j * (x div 2 ^ j)"
proof -
  assume x: "x < 4294967296" and j: "j \<le> 32"
  have "(2 :: nat) ^ j * 2 ^ (32 - j) = 4294967296" using j by (simp add: power_add [symmetric])
  then have m: "not32 (2 ^ j - 1) = push_bit j (mask (32 - j))"
    by (simp add: not32_def push_bit_eq_mult mask_eq_exp_minus_1 diff_mult_distrib2 mult.commute)
  have "x AND not32 (2 ^ j - 1) = push_bit j (drop_bit j x)"
    unfolding m by (rule bit_eqI) (auto simp: bit_simps dest: bit_lt_32 [OF _ x])
  then show ?thesis by (simp add: push_bit_eq_mult drop_bit_eq_div mult.commute)
qed

lemma round_up:
  assumes "r + 2 ^ j \<le> (4294967296 :: nat)"
  obtains k where "(r + sub32 (2 ^ j) 1) mod 4294967296 AND not32 (sub32 (2 ^ j) 1) = r + k" "k < 2 ^ j" "2 ^ j dvd r + k"
proof -
  have j: "j \<le> 32" by (rule ccontr) (use assms power_strict_increasing [of 32 j "2 :: nat"] in simp)
  have jp: "(0 :: nat) < 2 ^ j" by simp
  have l: "sub32 (2 ^ j) 1 = 2 ^ j - 1"
  proof (cases "j = 32")
    case False
    then have "(2 :: nat) ^ j < 2 ^ 32" using j by (intro power_strict_increasing) auto
    then show ?thesis by (intro sub32_eq) auto
  qed (simp add: sub32_def)
  have e: "(r + (2 ^ j - 1)) mod 4294967296 = r + (2 ^ j - 1)" using assms jp by (intro mod_less) linarith
  let ?q = "2 ^ j * ((r + (2 ^ j - 1)) div 2 ^ j)"
  have a: "r \<le> ?q" "?q < r + 2 ^ j"
    using jp mult_div_mod_eq [of "2 ^ j" "r + (2 ^ j - 1)"] mod_less_divisor [OF jp, of "r + (2 ^ j - 1)"] by linarith+
  show thesis by (rule that [of "?q - r"]) (use a assms jp l e and_not_mask [of "r + (2 ^ j - 1)" j] j in auto)
qed

section \<open>The leading bytes become a free chunk\<close>

definition gap :: "nat \<Rightarrow> chunk list" where
  "gap k = (if k = 0 then [] else [(k, False)])"

lemma split_front:
  assumes h: "heap_ok nl (fill R1 b pre post R2 [(s, True)]) m" and nl: "mm_nodelist heap = nl"
    and k: "k mod 16 = 0" "0 < k" "k < s" and x: "x = b + 8 + csum pre"
    and m1: "m1 = put_size x k (put_preceding (x + k) (k OR 2147483648) (put_size (x + k) (s - k) m))"
  shows "\<exists>m'. mm_addfreechunk heap x (update_preceding (x + s) (s - k) (put_preceding x (npreceding x m1 AND not32 2147483648) m1)) = Some m' \<and>
    heap_ok nl (fill R1 b (pre @ [(k, False)]) post R2 [(s - k, True)]) m' \<and>
    frame (mgmt nl (fill R1 b pre post R2 [(s, True)]) \<union> mgmt nl (fill R1 b (pre @ [(k, False)]) post R2 [(s - k, True)])) m m'"
proof -
  let ?R = "fill R1 b pre post R2 [(s, True)]" and ?O = "others R1 b pre s post R2"
  let ?R' = "fill R1 b (pre @ [(k, False)]) post R2 [(s - k, True)]" and ?R2 = "fill R1 b pre ((s - k, True) # post) R2 [(k, True)]"
  let ?W = "mgmt nl ?R \<union> mgmt nl ?R'"
  have l: "layout nl ?R" and g: "regions_at m ?R" and h': "heap_at nl ?R (frees ?R) m"
    using h by (auto simp: heap_ok_def heap_at_def)
  note C = chunk_facts [OF l g, folded x] and O = others_facts [OF l, unfolded csum_one, folded x]
  have F: "frees ?R = ?O" "frees ?R' = insert x ?O" unfolding frees_fill using k x by (auto simp: others_def add.assoc)
  have o: "x \<notin> ?O" "x + k \<notin> ?O" "x \<notin> heads nl" using O(2) [of x] O(2) [of "x + k"] C(4) k by auto
  have k16: "16 \<le> k" "16 \<le> s - k" using mod_16_ge k mod_16_diff [OF C(5) k(1)] by auto
  define m2 where "m2 = update_preceding (x + s) (s - k) m1"
  have "m2 = update_preceding (x + s) (s - k) (put_size x k (put_preceding (x + k) (k + alloc_bit True) (put_size (x + k) (s - k) m)))"
    unfolding m2_def m1 using k C(6) by (simp add: or_alloc_bit)
  note t = two_headers [OF h' frees_slots [OF l], unfolded F(1), folded x, OF o(1,2) csum_one [symmetric] k this]
  have h2: "heap_at nl ?R2 ?O m2" using t(1) by simp
  have O2: "?O \<subseteq> slots nl ?R2" 
    using others_facts(1) [of nl R1 b pre "[(k, True), (s - k, True)]" post R2] h2 k by (simp add: heap_at_def)
  have ap: "apart (x + s) x" "apart x (x + s)" using C(4) by (auto simp: apart_def)
  define m3 where "m3 = put_preceding x (npreceding x m2 AND not32 2147483648) m2"
  have e: "update_preceding (x + s) (s - k) (put_preceding x (npreceding x m1 AND not32 2147483648) m1) = m3"
    unfolding m3_def m2_def update_commute [OF ap(1)] using ap by (simp add: update_preceding_def)
  note c = clear_alloc_bit [OF h2 O2, folded x, OF m3_def]
  have h3: "heap_at nl ?R' ?O m3" using c(1) by simp
  have w: "head_bytes x \<union> head_bytes (x + k) \<union> head_bytes (x + s) \<subseteq> ?W"
    using mgmt_head [of x b pre "[(s, True)]" nl R1 post R2] mgmt_next [of b pre "[(s, True)]" nl R1 post R2]
      mgmt_head [of "x + k" b "pre @ [(k, False)]" "[(s - k, True)]" nl R1 post R2] x by (auto simp: add.assoc)
  have f3: "frame ?W m m3" by (rule frame_trans [OF t(2) [OF w] c(2)]) (use w in blast)
  have n: "nsize x m3 = k" using chunk_facts(1) [of nl R1 b pre k False "[]" "(s - k, True) # post" R2 m3] h3 x by (simp add: heap_at_def)
  show ?thesis using add_last [OF h3 o(1,3) _ F(2) nl] k16 n frame_trans [OF f3 frame_mono [OF _ Un_upper2]] unfolding e by metis
qed

lemma align_start_ok:
  assumes h: "heap_ok nl (fill R1 b pre post R2 [(s, True)]) m" and nl: "mm_nodelist heap = nl"
    and k: "k mod 16 = 0" "k < s" and x: "x = b + 8 + csum pre"
    and al: "(x + 8 + sub32 al 1) mod 4294967296 AND not32 (sub32 al 1) = x + 8 + k"
  shows "\<exists>m'. align_chunk_start heap al (x + 8) x n m = Some (x + 8 + k, x + k, if k = 0 then n else s - k - 8, m') \<and>
    heap_ok nl (fill R1 b (pre @ gap k) post R2 [(s - k, True)]) m' \<and>
    frame (mgmt nl (fill R1 b pre post R2 [(s, True)]) \<union> mgmt nl (fill R1 b (pre @ gap k) post R2 [(s - k, True)])) m m'"
proof (cases "k = 0")
  case True
  then show ?thesis using h al by (simp add: align_chunk_start_def gap_def)
next
  case False
  let ?R = "fill R1 b pre post R2 [(s, True)]"
  have l: "layout nl ?R" and g: "regions_at m ?R" using h by (auto simp: heap_ok_def heap_at_def)
  note C = chunk_facts [OF l g, folded x]
  have r: "(b, pre @ [(s, True)] @ post) \<in> set ?R" by simp
  have lt: "x + s < 4294967296" using layout_region [OF l r] x by (auto simp: region_ok_def)
  have k16: "16 \<le> k" "16 \<le> s - k" using mod_16_ge k False mod_16_diff [OF C(5) k(1)] by auto
  have v: "sub32 (x + 8 + k) 8 = x + k" "sub32 (x + k) x = k" "sub32 (x + s) (x + k) = s - k" "sub32 (s - k) 8 = s - k - 8"
    using lt k k16 by (simp_all add: sub32_eq)
  have ap: "apart (x + k) x" "apart (x + k) (x + s)" using k16 unfolding apart_def by linarith+
  define m1 where "m1 = put_size x k (put_preceding (x + k) (k OR 2147483648) (put_size (x + k) (s - k) m))"
  have n1: "nsize (x + k) (put_preceding x w m1) = s - k" for w using ap(1) k lt by (simp add: m1_def)
  have "nsize (x + k) (update_preceding (x + s) (s - k) (put_preceding x w m1)) = s - k" for w
    using n1 ap(2) by (simp add: update_preceding_def)
  then have "align_chunk_start heap al (x + 8) x n m = map_option (\<lambda>m'. (x + 8 + k, x + k, s - k - 8, m'))
      (mm_addfreechunk heap x (update_preceding (x + s) (s - k) (put_preceding x (npreceding x m1 AND not32 2147483648) m1)))"
    using k16 False C(1) unfolding align_chunk_start_def Let_def al
    by (simp add: v n1 m1_def [symmetric] map_conv_bind_option comp_def)
  then show ?thesis using split_front [OF h nl k(1) _ k(2) x m1_def] False by (auto simp: gap_def)
qed

lemma heap_to_step:
  assumes t: "heap_to nl R m R1 m1" and h: "heap_ok nl R2 m2" and f: "frame (mgmt nl R1 \<union> mgmt nl R2) m1 m2"
    and b: "blocks R \<inter> blocks R2 \<subseteq> blocks R1" and e: "extent R2 = extent R1" "coalesced R \<Longrightarrow> coalesced R2"
  shows "heap_to nl R m R2 m2"
proof -
  have l: "layout nl R1" "layout nl R2" using t h by (auto simp: heap_to_def heap_ok_def heap_at_def)
  have "m2 a = m a" if q: "q \<in> blocks R" "q \<in> blocks R2" "a \<in> bytes_of q" for q a
    using blocks_kept [OF l f _ q(2,3)] t b q unfolding heap_to_def by fastforce
  then show ?thesis using t h e unfolding heap_to_def by auto
qed

lemma rest_gap: "k \<le> s \<Longrightarrow> rest_blocks R1 b (pre @ gap k) (s - k) post R2 = rest_blocks R1 b pre s post R2"
  by (auto simp: rest_blocks_def gap_def add.assoc)

lemma coalesced_gap:
  assumes "coalesced (fill R1 b pre post R2 [(s, True)])" "pre = [] \<or> snd (last pre)"
  shows "coalesced (fill R1 b (pre @ gap k) post R2 [(n, True)])"
  using assms unfolding coalesced_fill by (auto simp: gap_def successively_append_iff successively_Cons)

lemma pow_16: "(al :: nat) = 2 ^ j \<Longrightarrow> 16 < al \<Longrightarrow> 16 dvd al"
proof -
  assume al: "al = 2 ^ j" "16 < al"
  have "4 \<le> j" by (rule ccontr) (use al power_strict_increasing [of j 4 "2 :: nat"] in simp)
  then show ?thesis using al le_imp_power_dvd [of 4 j "2 :: nat"] by simp
qed

lemma round_block:
  assumes r: "16 dvd r" "r + al \<le> (4294967296 :: nat)" and al: "al = 2 ^ j" "16 < al"
  obtains k where "(r + sub32 al 1) mod 4294967296 AND not32 (sub32 al 1) = r + k" "k < al" "al dvd r + k" "k mod 16 = 0"
proof -
  obtain k where k: "(r + sub32 al 1) mod 4294967296 AND not32 (sub32 al 1) = r + k" "k < al" "al dvd r + k"
    using round_up [of r j] r(2) al(1) by metis
  have "16 dvd r + k" using pow_16 [OF al] k(3) dvd_trans by blast
  then have "k mod 16 = 0" using dvd_add_right_iff [of 16 r k] r(1) by (simp add: mod_eq_0_iff_dvd)
  then show thesis by (rule that [OF k])
qed

lemma align_block:
  assumes t: "heap_to nl R m R1 m1" and R1: "R1 = fill Q1 b pre post Q2 [(c + 2 * al + 16, True)]" and nl: "mm_nodelist heap = nl"
    and b: "blocks R1 = insert (x + 8, c + 2 * al + 8) (blocks R)" "(x + 8, c + 2 * al + 8) \<notin> blocks R"
    and x: "x = b + 8 + csum pre" and c: "c mod 16 = 0" and al: "al = 2 ^ j" "16 < al" and co: "coalesced R \<Longrightarrow> pre = [] \<or> snd (last pre)"
  shows "\<exists>k n m2 R' m'. align_chunk_start heap al (x + 8) x (c + 2 * al) m1 = Some (x + 8 + k, x + k, n, m2) \<and> c + 16 < n \<and>
    mm_shrinkchunk heap (x + k) (c + 16) m2 = Some m' \<and> al dvd x + 8 + k \<and> heap_to nl R m R' m' \<and>
    blocks R' = insert (x + 8 + k, c + 8) (blocks R) \<and> (x + 8 + k, c + 8) \<notin> blocks R"
proof -
  let ?s = "c + 2 * al + 16"
  have h1: "heap_ok nl R1 m1" and l1: "layout nl R1" using t by (auto simp: heap_to_def heap_ok_def heap_at_def)
  have r: "(b, pre @ [(?s, True)] @ post) \<in> set R1" using R1 by simp
  have lt: "x + 8 + al \<le> 4294967296" using layout_region [OF l1 r] x by (auto simp: region_ok_def)
  have "16 dvd x + 8" using block_aligned [OF l1, of "x + 8"] b by auto
  then obtain k where k: "(x + 8 + sub32 al 1) mod 4294967296 AND not32 (sub32 al 1) = x + 8 + k" "k < al" "al dvd x + 8 + k" and k16: "k mod 16 = 0"
    by (rule round_block [OF _ lt al])
  have ks: "k < ?s" "k \<le> ?s" using k(2) by auto
  let ?R2 = "fill Q1 b (pre @ gap k) post Q2 [(?s - k, True)]"
  let ?n = "if k = 0 then c + 2 * al else ?s - k - 8"
  obtain m2 where m2: "align_chunk_start heap al (x + 8) x (c + 2 * al) m1 = Some (x + 8 + k, x + k, ?n, m2)" "heap_ok nl ?R2 m2"
    "frame (mgmt nl R1 \<union> mgmt nl ?R2) m1 m2"
    using align_start_ok [OF h1 [unfolded R1] nl k16 ks(1) x k(1)] R1 by blast
  have l2: "layout nl ?R2" using m2(2) by (auto simp: heap_ok_def heap_at_def)
  have y: "x + k = b + 8 + csum (pre @ gap k)" using x by (simp add: gap_def)
  have "?s - 8 = c + 2 * al + 8" by simp
  note own = blocks_own [OF l1 [unfolded R1], folded R1 x, unfolded this]
  have br: "blocks R = rest_blocks Q1 b pre ?s post Q2" unfolding own [symmetric] using b by blast
  have b2: "blocks ?R2 = insert (x + k + 8, ?s - k - 8) (blocks R)" unfolding blocks_fill br csum_one rest_gap [OF ks(2)] y by simp
  have n2: "(x + k + 8, w) \<notin> blocks R" for w using own_not_rest [OF l2] unfolding rest_gap [OF ks(2)] br y by simp
  have "coalesced ?R2" if "coalesced R"
    by (rule coalesced_gap [OF _ co [OF that], where s = ?s]) (use t that R1 in \<open>auto simp: heap_to_def\<close>)
  then have t2: "heap_to nl R m ?R2 m2"
    by (intro heap_to_step [OF t m2(2,3)]) (use b b2 n2 ks R1 in \<open>auto simp: extent_def gap_def\<close>)
  have d: "(c + 16) mod 16 = 0" "0 < c + 16" "c + 16 < ?s - k" "c + 16 - 8 = c + 8" using k(2) al c by auto
  obtain R' m' where m': "mm_shrinkchunk heap (x + k) (c + 16) m2 = Some m'" "resized nl ?R2 m2 (x + k + 8) (?s - k - 8) R' m' (x + k + 8) (c + 8)"
    using shrink_block [OF m2(2) refl nl d(1-3) refl] unfolding y [symmetric] d(4) by blast
  note r' = m'(2) [unfolded resized_def]
  have "blocks R' = insert (x + k + 8, c + 8) (blocks ?R2 - {(x + k + 8, ?s - k - 8)})" using r' by blast
  moreover have "blocks ?R2 - {(x + k + 8, ?s - k - 8)} = blocks R" unfolding b2 by (rule Diff_insert_absorb [OF n2])
  ultimately have b3: "blocks R' = insert (x + k + 8, c + 8) (blocks R)" by simp
  have "blocks R \<inter> blocks R' \<subseteq> blocks ?R2" unfolding b2 by blast
  then have "heap_to nl R m R' m'" using heap_to_trans [OF t2] r' by blast
  moreover have "c + 16 < ?n" using k(2) al by auto
  moreover have "x + k + 8 = x + 8 + k" by simp
  ultimately show ?thesis using m2(1) m'(1) b3 n2 k(3) by metis
qed

lemma align_up_16: "c mod 16 = 0 \<Longrightarrow> c + 23 < 4294967296 \<Longrightarrow> MM_ALIGN_UP (c + 8) = c + 16"
proof -
  assume c: "c mod 16 = 0" "c + 23 < 4294967296"
  then obtain d where "c = 16 * d" by (metis mod_0_imp_dvd dvd_def)
  then show ?thesis using c MM_ALIGN_UP_eq [of "c + 8"] by simp
qed

lemma memalign_block:
  assumes h: "heap_ok nl R m" and nl: "mm_nodelist heap = nl" and sem: "sem_ready pid heap"
    and al: "al = 2 ^ j" "16 < al" and sz: "sz + 2 * al + 40 < 4294967296"
  obtains (none) "mm_memalign pid al sz (heap, m) = Some (0, heap, m)" "\<forall>x \<in> frees R. nsize x m < MM_ALIGN_UP sz + 2 * al + 16"
  | (some) q R' m' where "mm_memalign pid al sz (heap, m) = Some (q, heap, m')" "al dvd q" "heap_to nl R m R' m'"
      "blocks R' = insert (q, MM_ALIGN_UP sz + 8) (blocks R)" "(q, MM_ALIGN_UP sz + 8) \<notin> blocks R"
proof -
  let ?c = "MM_ALIGN_UP sz"
  have c: "sz \<le> ?c" "?c < sz + 16" "?c mod 16 = 0" using align_up_bounds [of sz] sz by auto
  let ?n = "?c + 2 * al"
  have n: "0 < ?n" "?n + 23 < 4294967296" "?n mod 4294967296 = ?n" using c al sz by auto
  have "16 dvd ?n" using c(3) dvd_mult [OF pow_16 [OF al], of 2] by (intro dvd_add) auto
  then have "?n mod 16 = 0" by simp
  then have cu: "MM_ALIGN_UP (?n + 8) = ?n + 16" "MM_ALIGN_UP (?c + 8) = ?c + 16" using align_up_16 c n by auto
  obtain h0 where h0: "mm_takesemaphore pid heap = Some h0" "mm_givesemaphore h0 = heap" "mm_nodelist h0 = nl"
    using take_give [OF sem] nl by metis
  have U: "mm_memalign pid al sz (heap, m) = Option.bind (mm_malloc pid ?n (heap, m)) (\<lambda>(raw, heap, m).
     if raw = 0 then Some (0, heap, m) else Option.bind (mm_takesemaphore pid heap) (\<lambda>heap.
       Option.bind (align_chunk_start heap al raw (raw - 8) ?n m) (\<lambda>(a, node, n, m).
         map_option (\<lambda>m. (a, mm_givesemaphore heap, m)) (if ?c + 16 < n then mm_shrinkchunk heap node (?c + 16) m else Some m))))"
    using al(2) n(3) unfolding mm_memalign_def Let_def cu(2) by (simp add: map_conv_bind_option comp_def case_prod_beta cong: if_cong)
  show thesis
  proof (rule malloc_chunk [OF h nl sem n(1,2)])
    assume "mm_malloc pid ?n (heap, m) = Some (0, heap, m)" "\<forall>x \<in> frees R. nsize x m < MM_ALIGN_UP (?n + 8)"
    then show thesis using none U cu(1) by simp
  next
    fix Q1 b pre post Q2 m1
    let ?R1 = "fill Q1 b pre post Q2 [(MM_ALIGN_UP (?n + 8), True)]"
    assume r: "mm_malloc pid ?n (heap, m) = Some (b + 8 + csum pre + 8, heap, m1)" and t: "heap_to nl R m ?R1 m1"
      and bl: "blocks ?R1 = insert (b + 8 + csum pre + 8, MM_ALIGN_UP (?n + 8) - 8) (blocks R)"
        "(b + 8 + csum pre + 8, MM_ALIGN_UP (?n + 8) - 8) \<notin> blocks R" and co: "coalesced R \<Longrightarrow> pre = [] \<or> snd (last pre)"
    have e: "?n + 16 - 8 = ?n + 8" by simp
    obtain x where x: "x = b + 8 + csum pre" by blast
    obtain k n m2 R' m' where g: "align_chunk_start h0 al (x + 8) x ?n m1 = Some (x + 8 + k, x + k, n, m2)"
      "?c + 16 < n" "mm_shrinkchunk h0 (x + k) (?c + 16) m2 = Some m'" "al dvd x + 8 + k" "heap_to nl R m R' m'"
      "blocks R' = insert (x + 8 + k, ?c + 8) (blocks R)" "(x + 8 + k, ?c + 8) \<notin> blocks R"
      using align_block [OF t [unfolded cu(1)] refl h0(3) bl [unfolded cu(1) e, folded x] x c(3) al co] by blast
    have "mm_memalign pid al sz (heap, m) = Some (x + 8 + k, heap, m')" using U r [folded x] h0 g(1-3) by simp
    then show thesis by (rule some [OF _ g(4-7)])
  qed
qed

section \<open>Cleared memory\<close>

lemma heap_to_fill:
  assumes t: "heap_to nl R m R1 m1" and b: "blocks R1 = insert p (blocks R)" "p \<notin> blocks R" and f: "frame (bytes_of p) m1 m2"
  shows "heap_to nl R m R1 m2"
proof -
  have h1: "heap_ok nl R1 m1" using t by (simp add: heap_to_def)
  note W = heap_to_write [OF h1 _ f]
  have "m2 a = m a" if "q \<in> blocks R" "a \<in> bytes_of q" for q a
  proof -
    have "m1 a = m a" using t that b(1) unfolding heap_to_def by blast
    moreover have "m2 a = m1 a" by (rule W(2) [of q]) (use that b in auto)
    ultimately show ?thesis by simp
  qed
  then show ?thesis using t W(1) b(1) unfolding heap_to_def by blast
qed

lemma zalloc_block:
  assumes h: "heap_ok nl R m" "mm_nodelist heap = nl" "sem_ready pid heap" and sz: "0 < sz" "sz + 23 < 4294967296"
  obtains (none) "mm_zalloc pid sz (heap, m) = Some (0, heap, m)" "\<forall>x \<in> frees R. nsize x m < MM_ALIGN_UP (sz + 8)"
  | (some) p R' m' where "mm_zalloc pid sz (heap, m) = Some (p, heap, m')" "heap_to nl R m R' m'"
      "blocks R' = insert (p, MM_ALIGN_UP (sz + 8) - 8) (blocks R)" "(p, MM_ALIGN_UP (sz + 8) - 8) \<notin> blocks R"
      "\<forall>i < sz. m' (p + i) = 0"
proof (rule malloc_block [OF h sz])
  assume "mm_malloc pid sz (heap, m) = Some (0, heap, m)" "\<forall>x \<in> frees R. nsize x m < MM_ALIGN_UP (sz + 8)"
  then show thesis using none by (simp add: mm_zalloc_def)
next
  fix p R' m1
  assume r: "mm_malloc pid sz (heap, m) = Some (p, heap, m1)" and t: "heap_to nl R m R' m1"
    and b: "blocks R' = insert (p, MM_ALIGN_UP (sz + 8) - 8) (blocks R)" "(p, MM_ALIGN_UP (sz + 8) - 8) \<notin> blocks R"
  have l: "layout nl R'" using t by (auto simp: heap_to_def heap_ok_def heap_at_def)
  have p: "p \<noteq> 0" using block_aligned [OF l, of p] b by auto
  have "frame (bytes_of (p, MM_ALIGN_UP (sz + 8) - 8)) m1 (memset p 0 sz m1)"
    using align_chunk(1) [OF sz] by (auto simp: frame_def memset_apply bytes_of_def)
  then have t': "heap_to nl R m R' (memset p 0 sz m1)" by (rule heap_to_fill [OF t b])
  show thesis by (rule some [OF _ t' b]) (use r p in \<open>auto simp: mm_zalloc_def memset_apply\<close>)
qed

lemma calloc_zalloc:
  assumes "0 < n" "0 < sz" "n < 4294967296" "sz < 4294967296"
  shows "mm_calloc pid n sz s = (if n * sz < 4294967296 then mm_zalloc pid (n * sz) s else Some (0, s))"
proof -
  have "n \<le> 4294967295 div sz \<longleftrightarrow> n * sz \<le> 4294967295" by (rule less_eq_div_iff_mult_less_eq [OF assms(2)])
  then show ?thesis using assms by (auto simp: mm_calloc_def)
qed

end
