(* ===== verification/Mm_Init.thy ===== *)
theory Mm_Init
  imports Mm_Align
begin

text \<open>
The heap comes into being: mm_initialize links the empty list heads, mm_addregion adds a region of memory with one free chunk, and mm_extend moves the end of a region.
\<close>

section \<open>The empty free lists\<close>

lemma link_heads_append: "link_heads heap (is @ js) m = link_heads heap js (link_heads heap is m)"
  by (induction heap "is" m rule: link_heads.induct) auto

lemma apart_heads: "i \<noteq> j \<Longrightarrow> apart (nl + 16 * i) (nl + 16 * j)"
  by (cases "i < j") (auto simp: apart_def)

lemma link_heads_ok:
  assumes nl: "mm_nodelist heap = nl" "nl + 304 \<le> 4294967296" and n: "1 \<le> n" "n \<le> 19"
    and z: "\<forall>i < 19. nsize (nl + 16 * i) m = 0 \<and> nflink (nl + 16 * i) m = 0 \<and> nblink (nl + 16 * i) m = 0"
  shows "\<forall>i < 19. nsize (nl + 16 * i) (link_heads heap [1..<n] m) = 0 \<and>
    nflink (nl + 16 * i) (link_heads heap [1..<n] m) = (if i + 1 < n then nl + 16 * (i + 1) else 0) \<and>
    nblink (nl + 16 * i) (link_heads heap [1..<n] m) = (if 0 < i \<and> i < n then nl + 16 * (i - 1) else 0)"
  using n
proof (induction n)
  case (Suc n)
  show ?case
  proof (cases "n = 0")
    case True
    then show ?thesis using z by simp
  next
    case False
    let ?m = "link_heads heap [1..<n] m"
    have IH: "\<forall>i < 19. nsize (nl + 16 * i) ?m = 0 \<and> nflink (nl + 16 * i) ?m = (if i + 1 < n then nl + 16 * (i + 1) else 0) \<and>
      nblink (nl + 16 * i) ?m = (if 0 < i \<and> i < n then nl + 16 * (i - 1) else 0)" using Suc False by simp
    have e: "link_heads heap [1..<Suc n] m = put_blink (nl + 16 * n) (nl + 16 * (n - 1)) (put_flink (nl + 16 * (n - 1)) (nl + 16 * n) ?m)"
      using False by (simp add: link_heads_append node_head_def nl)
    have lt: "nl + 16 * n < 4294967296" "nl + 16 * (n - 1) < 4294967296" using nl Suc(3) by auto
    show ?thesis unfolding e
    proof (intro allI impI)
      fix i :: nat assume i: "i < 19"
      have "apart (nl + 16 * n) (nl + 16 * (n - 1))" "apart (nl + 16 * (n - 1)) (nl + 16 * n)" using apart_heads [of n "n - 1"] apart_heads [of "n - 1" n] False by auto
      then show "nsize (nl + 16 * i) (put_blink (nl + 16 * n) (nl + 16 * (n - 1)) (put_flink (nl + 16 * (n - 1)) (nl + 16 * n) ?m)) = 0 \<and>
        nflink (nl + 16 * i) (put_blink (nl + 16 * n) (nl + 16 * (n - 1)) (put_flink (nl + 16 * (n - 1)) (nl + 16 * n) ?m)) = (if i + 1 < Suc n then nl + 16 * (i + 1) else 0) \<and>
        nblink (nl + 16 * i) (put_blink (nl + 16 * n) (nl + 16 * (n - 1)) (put_flink (nl + 16 * (n - 1)) (nl + 16 * n) ?m)) = (if 0 < i \<and> i < Suc n then nl + 16 * (i - 1) else 0)"
        using IH i lt False apart_heads [of i n nl] apart_heads [of i "n - 1" nl] by (cases "i = n"; cases "i = n - 1") auto
    qed
  qed
qed simp

lemma seg_heads:
  assumes "\<forall>i. k \<le> i \<and> i < n \<longrightarrow> nblink (h i) m = (if i = k then p else h (i - 1)) \<and> nflink (h i) m = (if i + 1 < n then h (i + 1) else 0)"
  shows "seg m p (map h [k..<n]) 0"
  using assms
proof (induction "n - k" arbitrary: k p)
  case (Suc d)
  have k: "[k..<n] = k # [Suc k..<n]" using Suc(2) by (simp add: upt_conv_Cons)
  have "seg m (h k) (map h [Suc k..<n]) 0" by (rule Suc(1)) (use Suc(2,3) in auto)
  moreover have "hd (map h [Suc k..<n] @ [0]) = (if k + 1 < n then h (k + 1) else 0)" by (simp add: upt_conv_Cons)
  ultimately show ?case unfolding k using Suc(2,3) by auto
qed simp

lemma ld_zero: "\<forall>i < 4. m (a + i) = 0 \<Longrightarrow> ld a m = 0"
proof -
  assume z: "\<forall>i < 4. m (a + i) = 0"
  then have "m a = 0" "m (a + 1) = 0" "m (a + 2) = 0" "m (a + 3) = 0" 
    using z [rule_format, of 0] z [rule_format, of 1] z [rule_format, of 2] z [rule_format, of 3] by (simp_all add: numeral_2_eq_2)
  then show ?thesis by (simp add: ld_def)
qed

lemma empty_heap:
  assumes nl: "mm_nodelist heap = nl" "0 < nl" "nl + 304 \<le> 4294967296"
  shows "heap_ok nl [] (link_heads heap [1..<19] (memset nl 0 304 m))"
proof -
  let ?z = "memset nl 0 304 m" and ?h = "\<lambda>i. nl + 16 * i"
  let ?m = "link_heads heap [1..<19] (memset nl 0 304 m)"
  have z: "\<forall>i < 19. nsize (nl + 16 * i) ?z = 0 \<and> nflink (nl + 16 * i) ?z = 0 \<and> nblink (nl + 16 * i) ?z = 0"
    by (auto simp: nsize_def nflink_def nblink_def memset_apply intro!: ld_zero)
  note L = link_heads_ok [OF nl(1,3) _ _ z, of 19]
  have f: "flat nl (\<lambda>_. []) 0 = map ?h [0..<19]" by (simp add: flat_def concat_map_singleton)
  have "seg ?m 0 (map ?h [0..<19]) 0" by (rule seg_heads) (use L in auto)
  moreover have "distinct (map ?h [0..<19])" by (auto simp: distinct_map inj_on_def)
  moreover have "bins_ok nl (\<lambda>_. []) ?m" using L by (simp add: bins_ok_def)
  ultimately have "lists_ok nl (\<lambda>_. []) {} ?m" unfolding lists_ok_def f by simp
  then show ?thesis using nl by (auto simp: heap_ok_def heap_at_def layout_def regions_at_def frees_def free_lists_def)
qed

section \<open>A new region\<close>

lemma mgmt_range:
  assumes "layout nl R" "a \<in> mgmt nl R"
  shows "nl \<le> a \<and> a < nl + 304 \<or> (\<exists>(b, cs) \<in> set R. b \<le> a \<and> a < b + csum cs + 16)"
proof -
  consider y where "y \<in> heads nl" "a \<in> head_bytes y \<union> link_bytes y" | y where "y \<in> headers R" "a \<in> head_bytes y" | y where "y \<in> frees R" "a \<in> link_bytes y"
    using assms(2) unfolding mgmt_headers by blast
  then show ?thesis
  proof cases
    case (1 y)
    then show ?thesis by (auto simp: heads_def head_bytes_def link_bytes_def)
  next
    case (2 y)
    then obtain b cs where r: "(b, cs) \<in> set R" "y = b \<or> y \<in> starts (b + 8) cs \<or> y = b + 8 + csum cs" by (auto simp: headers_def)
    then have "b \<le> y \<and> y \<le> b + 8 + csum cs" using starts_range [of cs y "b + 8"] layout_region [OF assms(1) r(1)] by (auto simp: region_ok_def)
    then show ?thesis using r(1) 2(2) by (force simp: head_bytes_def)
  next
    case (3 y)
    then obtain b cs where r: "(b, cs) \<in> set R" "y \<in> frees_at (b + 8) cs" by (auto simp: frees_def)
    then have "b \<le> y \<and> y + 16 \<le> b + 8 + csum cs" using frees_range [of cs y "b + 8"] layout_region [OF assms(1) r(1)] by (auto simp: region_ok_def)
    then show ?thesis using r(1) 3(2) by (force simp: link_bytes_def)
  qed
qed

lemma new_region:
  assumes h: "heap_ok nl R m" and l: "layout nl (R @ [(b, [(s, False)])])" and nl: "mm_nodelist heap = nl"
    and m1: "m1 = put_preceding (b + 8 + s) (s OR 2147483648) (put_size (b + 8 + s) 8 (put_preceding (b + 8) 8 (put_size (b + 8) s
      (put_preceding b 2147483648 (put_size b 8 m)))))"
  shows "\<exists>m'. mm_addfreechunk heap (b + 8) m1 = Some m' \<and> heap_ok nl (R @ [(b, [(s, False)])]) m' \<and>
    frame (mgmt nl (R @ [(b, [(s, False)])])) m m'"
proof -
  let ?R' = "R @ [(b, [(s, False)])]"
  have r: "(b, [(s, False)]) \<in> set ?R'" by simp
  have ok: "16 \<le> s" "s < 2147483648" "0 < b" "b + s + 16 \<le> 4294967296"
    using layout_region [OF l r] mod_16_ge by (auto simp: region_ok_def)
  have lR: "layout nl R" using h by (simp add: heap_ok_def heap_at_def)
  have f1: "frame {b ..< b + s + 16} m m1" unfolding m1
    by (intro frame_put frame_refl) (use ok in \<open>auto simp: head_bytes_def\<close>)
  have out: "a \<notin> {b ..< b + s + 16}" if "a \<in> mgmt nl R" for a
  proof -
    have "away b (s + 24) nl 304" "\<forall>(b', cs) \<in> set R. away b' (csum cs + 24) b (s + 24)"
      using l by (auto simp: layout_def sorted_wrt_append)
    then show ?thesis using mgmt_range [OF lR that] by (auto simp: away_def)
  qed
  have h1: "heap_ok nl R m1" by (rule heap_ok_bytes [OF h]) (use f1 out in \<open>auto simp: frame_def\<close>)
  have ap: "apart b (b + 8 + s)" "apart (b + 8) (b + 8 + s)" "apart (b + 8 + s) (b + 8)" using ok by (auto simp: apart_def)
  have g: "b + 8 \<le> b + 8 \<or> b + 8 + 16 \<le> b" "b + 8 \<le> b + 8 + s \<or> b + 8 + s + 16 \<le> b" by auto
  have "region_at m1 (b, [(s, False)])"
    unfolding region_at_def m1 using ok ap by (simp add: guard_put [OF g(1)] guard_put [OF g(2)] or_alloc_bit)
  then have h2: "heap_at nl ?R' (frees R) m1" using h1 l by (auto simp: heap_ok_def heap_at_def regions_at_def)
  have F: "frees ?R' = insert (b + 8) (frees R)" by (auto simp: frees_def)
  have n1: "nsize (b + 8) m1 = s" using h2 by (auto simp: heap_at_def regions_at_def region_at_def)
  have x: "b + 8 \<notin> frees R" using out [of "b + 16"] mgmt_subs(2) [of "b + 8" R nl] ok by (auto simp: link_bytes_def subset_iff)
  have x': "b + 8 \<notin> heads nl" using slot_not_head [OF l r, of "b + 8"] by simp
  have "{b, b + 8, b + 8 + s} \<subseteq> headers ?R'" by (auto simp: headers_def)
  then have f2: "frame (mgmt nl ?R') m m1" unfolding m1 by (intro frame_put frame_refl mgmt_subs) auto
  show ?thesis using add_last [OF h2 x x' _ F nl] n1 ok frame_trans [OF f2] by auto
qed

section \<open>The invariant of the manager\<close>

text \<open>The record knows the regions; no task holds the semaphore.\<close>

definition regs_ok :: "mm_heap_s \<Rightarrow> (nat \<times> nat) list \<Rightarrow> bool" where
  "regs_ok heap ext \<longleftrightarrow> mm_nregions heap = length ext \<and> length ext \<le> 2 \<and> length (mm_heapstart heap) = 2 \<and> length (mm_heapend heap) = 2 \<and>
     (\<forall>i < length ext. mm_heapstart heap ! i = fst (ext ! i) \<and> mm_heapend heap ! i = fst (ext ! i) + 8 + snd (ext ! i))"

definition sem_idle :: "mm_heap_s \<Rightarrow> bool" where
  "sem_idle heap \<longleftrightarrow> mm_holder heap = NO_HOLDER \<and> mm_counts_held heap = 0 \<and> 0 < semcount (mm_semaphore heap)"

definition space :: "(nat \<times> nat) list \<Rightarrow> nat" where
  "space ext = sum_list (map (\<lambda>r. snd r + 16) ext)"

definition mm_ok :: "region list \<Rightarrow> mm_state \<Rightarrow> bool" where
  "mm_ok R s \<longleftrightarrow> (case s of (heap, m) \<Rightarrow>
     heap_ok (mm_nodelist heap) R m \<and> coalesced R \<and> regs_ok heap (extent R) \<and> sem_idle heap)"

lemma sem_idle_ready: "sem_idle heap \<Longrightarrow> pid \<noteq> NO_HOLDER \<Longrightarrow> sem_ready pid heap"
  by (auto simp: sem_idle_def sem_ready_def)

lemma mm_ok_to: "mm_ok R (heap, m) \<Longrightarrow> heap_to (mm_nodelist heap) R m R' m' \<Longrightarrow> mm_ok R' (heap, m')"
  by (simp add: mm_ok_def heap_to_def)

lemma addregion_ok:
  assumes ok: "mm_ok R (heap, m)" and len: "length R < 2" and b: "MM_ALIGN_UP start = b" and f: "MM_ALIGN_DOWN (start + sz) = b + s + 16"
    and lt: "start + sz < 4294967296" and l: "layout (mm_nodelist heap) (R @ [(b, [(s, False)])])"
  shows "\<exists>heap' m'. mm_addregion start sz (heap, m) = Some (heap', m') \<and> mm_ok (R @ [(b, [(s, False)])]) (heap', m') \<and>
    mm_heapsize heap' = (mm_heapsize heap + (s + 16)) mod 4294967296 \<and> mm_nodelist heap' = mm_nodelist heap \<and>
    frame (mgmt (mm_nodelist heap) (R @ [(b, [(s, False)])])) m m'"
proof -
  let ?nl = "mm_nodelist heap" and ?R' = "R @ [(b, [(s, False)])]"
  let ?heap = "heap\<lparr>mm_heapsize := (mm_heapsize heap + (s + 16)) mod 4294967296,
      mm_heapstart := (mm_heapstart heap)[length R := b], mm_heapend := (mm_heapend heap)[length R := b + 8 + s],
      mm_nregions := length R + 1\<rparr>"
  have h: "heap_ok ?nl R m" "coalesced R" "regs_ok heap (extent R)" "sem_idle heap" using ok by (auto simp: mm_ok_def)
  have n: "mm_nregions heap = length R" using h(3) by (simp add: regs_ok_def extent_def)
  have r: "(b, [(s, False)]) \<in> set ?R'" by simp
  have s: "16 \<le> s" "s < 2147483648" "0 < b" "b + s + 16 \<le> 4294967296"
    using layout_region [OF l r] mod_16_ge by (auto simp: region_ok_def)
  have "b + s + 16 < 4294967296" using f lt MM_ALIGN_DOWN_eq [OF lt] by (metis times_div_less_eq_dividend le_less_trans)
  then have v: "sub32 (b + s + 16) b = s + 16" "sub32 (s + 16) 16 = s" "(start + sz) mod 4294967296 = start + sz"
    using lt by (simp_all add: sub32_eq)
  define m1 where "m1 = put_preceding (b + 8 + s) (s OR 2147483648) (put_size (b + 8 + s) 8 (put_preceding (b + 8) 8 (put_size (b + 8) s
      (put_preceding b 2147483648 (put_size b 8 m)))))"
  have ap: "apart (b + 8) (b + 8 + s)" using s by (auto simp: apart_def)
  have e: "b + s + 16 - 8 = b + 8 + s" by simp
  have "nsize (b + 8) (put_size (b + 8 + s) 8 (put_preceding (b + 8) 8 (put_size (b + 8) s (put_preceding b 2147483648 (put_size b 8 m))))) = s"
    using ap s by simp
  then have U: "mm_addregion start sz (heap, m) = map_option (\<lambda>m'. (?heap, m')) (mm_addfreechunk ?heap (b + 8) m1)"
    using len unfolding mm_addregion_def Let_def v(3) f b n prod.case v(1) m1_def e by (simp add: v(2) map_conv_bind_option comp_def)
  obtain m' where m': "mm_addfreechunk ?heap (b + 8) m1 = Some m'" "heap_ok ?nl ?R' m'" "frame (mgmt ?nl ?R') m m'"
    using new_region [OF h(1) l _ m1_def, of ?heap] by auto
  have "coalesced ?R'" using h(2) by (auto simp: coalesced_def)
  moreover have "regs_ok ?heap (extent ?R')" using h(3) len by (auto simp: regs_ok_def extent_def nth_append less_Suc_eq)
  ultimately have "mm_ok ?R' (?heap, m')" using m'(2) h(4) by (simp add: mm_ok_def sem_idle_def)
  then show ?thesis using U m' by simp
qed

lemma initialize_ok:
  assumes len: "length (mm_heapstart heap) = 2" "length (mm_heapend heap) = 2"
    and b: "MM_ALIGN_UP start = b" and f: "MM_ALIGN_DOWN (start + sz) = b + s + 16"
    and lt: "start + sz < 4294967296" and l: "layout (mm_nodelist heap) [(b, [(s, False)])]"
  shows "\<exists>heap' m'. mm_initialize ws start sz (heap, m) = Some (heap', m') \<and> mm_ok [(b, [(s, False)])] (heap', m') \<and>
    mm_heapsize heap' = s + 16 \<and> mm_nodelist heap' = mm_nodelist heap"
proof -
  let ?heap = "mm_seminitialize ws (heap\<lparr>mm_heapsize := 0, mm_nregions := 0\<rparr>)"
  let ?h = "heap\<lparr>mm_heapsize := 0, mm_nregions := 0\<rparr>"
  let ?m = "link_heads ?h [1..<19] (memset (mm_nodelist heap) 0 304 m)"
  have nl: "0 < mm_nodelist heap" "mm_nodelist heap + 304 \<le> 4294967296" using l by (auto simp: layout_def)
  have "heap_ok (mm_nodelist heap) [] ?m" by (rule empty_heap) (use nl in auto)
  then have "mm_ok [] (?heap, ?m)"
    using len by (auto simp: mm_ok_def mm_seminitialize_def coalesced_def regs_ok_def extent_def sem_idle_def nxsem_init_def)
  then obtain heap' m' where "mm_addregion start sz (?heap, ?m) = Some (heap', m')" "mm_ok [(b, [(s, False)])] (heap', m')"
    "mm_heapsize heap' = (s + 16) mod 4294967296" "mm_nodelist heap' = mm_nodelist heap"
    using addregion_ok [OF _ _ b f lt, of "[]" ?heap ?m] l by (auto simp: mm_seminitialize_def)
  moreover have "s < 2147483648" using l by (auto simp: layout_def region_ok_def)
  ultimately show ?thesis by (simp add: mm_initialize_def Let_def)
qed

section \<open>A longer region\<close>

text \<open>The header at the old end gets a size, and there is a new one behind it.\<close>

lemma extend_fields:
  assumes l: "layout nl (R1 @ (b, cs @ [(sz, True)]) # R2)" and y: "y = b + 8 + csum cs"
    and m1: "m1 = put_preceding (y + sz) (sz OR 2147483648) (put_size (y + sz) 8 (put_size y sz m))"
  shows "x \<in> slots nl (R1 @ (b, cs @ [(sz, True)]) # R2) \<Longrightarrow> x \<noteq> y \<Longrightarrow> x \<noteq> y + sz \<Longrightarrow>
      nsize x m1 = nsize x m \<and> npreceding x m1 = npreceding x m \<and> nflink x m1 = nflink x m \<and> nblink x m1 = nblink x m"
    "(b', cs') \<in> set (R1 @ (b, cs @ [(sz, True)]) # R2) \<Longrightarrow> nsize b' m1 = nsize b' m \<and> npreceding b' m1 = npreceding b' m"
    "(b', cs') \<in> set R1 \<union> set R2 \<Longrightarrow> b' \<le> x \<Longrightarrow> x \<le> b' + 8 + csum cs' \<Longrightarrow> x \<noteq> y \<and> x \<noteq> y + sz"
    "nsize y m1 = sz" "npreceding y m1 = npreceding y m" "nsize (y + sz) m1 = 8" "npreceding (y + sz) m1 = sz + 2147483648"
proof -
  let ?R' = "R1 @ (b, cs @ [(sz, True)]) # R2"
  have r: "(b, cs @ [(sz, True)]) \<in> set ?R'" by simp
  have ok: "16 \<le> sz" "sz < 2147483648" using layout_region [OF l r] mod_16_ge by (auto simp: region_ok_def)
  have yS: "y \<in> slots nl ?R'" "y + sz \<in> slots nl ?R'" using region_slots [OF l r] y by (auto simp: add.assoc)
  have ap: "x \<in> slots nl ?R' \<Longrightarrow> x \<noteq> y \<Longrightarrow> x \<noteq> y + sz \<Longrightarrow> apart x y \<and> apart x (y + sz)" for x
    using sep_slots [OF l] yS by (auto simp: sep_def)
  then show "x \<in> slots nl ?R' \<Longrightarrow> x \<noteq> y \<Longrightarrow> x \<noteq> y + sz \<Longrightarrow>
      nsize x m1 = nsize x m \<and> npreceding x m1 = npreceding x m \<and> nflink x m1 = nflink x m \<and> nblink x m1 = nblink x m"
    unfolding m1 by simp
  show "(b', cs') \<in> set ?R' \<Longrightarrow> nsize b' m1 = nsize b' m \<and> npreceding b' m1 = npreceding b' m"
    unfolding m1 using guard_slot [OF l _ yS(1), of b' cs'] guard_slot [OF l _ yS(2), of b' cs'] by (simp add: guard_put)
  show "(b', cs') \<in> set R1 \<union> set R2 \<Longrightarrow> b' \<le> x \<Longrightarrow> x \<le> b' + 8 + csum cs' \<Longrightarrow> x \<noteq> y \<and> x \<noteq> y + sz"
    using layout_other [of nl R1 b cs "[(sz, True)]" "[]" R2 b' cs'] l y by (auto simp: away_def)
  have "apart y (y + sz)" using ok by (simp add: apart_def)
  then show "nsize y m1 = sz" "npreceding y m1 = npreceding y m" "nsize (y + sz) m1 = 8" "npreceding (y + sz) m1 = sz + 2147483648"
    unfolding m1 using ok by (simp_all add: or_alloc_bit)
qed

lemma extended_regions:
  assumes g: "regions_at m (R1 @ (b, cs) # R2)" and l: "layout nl (R1 @ (b, cs @ [(sz, True)]) # R2)" and y: "y = b + 8 + csum cs"
    and m1: "m1 = put_preceding (y + sz) (sz OR 2147483648) (put_size (y + sz) 8 (put_size y sz m))"
  shows "regions_at m1 (R1 @ (b, cs @ [(sz, True)]) # R2)"
  unfolding regions_at_def
proof
  let ?R' = "R1 @ (b, cs @ [(sz, True)]) # R2"
  note E = extend_fields [OF l y m1]
  fix q assume q: "q \<in> set ?R'"
  obtain b' cs' where [simp]: "q = (b', cs')" by force
  have body: "body_ok cs'" using layout_region [OF l, of b' cs'] q by (auto simp: region_ok_def)
  have S: "starts (b' + 8) (cs' @ [(8, True)]) \<subseteq> slots nl ?R'" using region_slots [OF l, of b' cs'] q by simp
  show "region_at m1 q"
  proof (cases "q \<in> set R1 \<union> set R2")
    case True
    have "chunks_at m1 (b' + 8) 8 (cs' @ [(8, True)]) \<longleftrightarrow> chunks_at m (b' + 8) 8 (cs' @ [(8, True)])"
    proof (rule chunks_at_cong)
      fix x assume x: "x \<in> starts (b' + 8) (cs' @ [(8, True)])"
      then have "b' \<le> x" "x \<le> b' + 8 + csum cs'" using starts_range [OF body, of x "b' + 8"] by auto
      then show "nsize x m1 = nsize x m \<and> npreceding x m1 = npreceding x m" using E(1) [of x] E(3) [of b' cs' x] x True S by auto
    qed
    then show ?thesis using g True E(2) [of b' cs'] by (auto simp: regions_at_def region_at_def)
  next
    case False
    then have q': "b' = b" "cs' = cs @ [(sz, True)]" using q by auto
    have m: "region_at m (b, cs)" using g by (simp add: regions_at_def)
    then have c: "chunks_at m (b + 8) 8 cs" "npreceding y m = last_size 8 cs + 2147483648" by (auto simp: region_at_def chunks_at_append y)
    have "chunks_at m1 (b + 8) 8 cs \<longleftrightarrow> chunks_at m (b + 8) 8 cs"
    proof (rule chunks_at_cong)
      fix x assume x: "x \<in> starts (b + 8) cs"
      then have "x < y" using starts_range [of cs x "b + 8"] body q' y by simp
      then show "nsize x m1 = nsize x m \<and> npreceding x m1 = npreceding x m" using E(1) [of x] S x q' by auto
    qed
    then show ?thesis using m c E(2) [of b' cs'] E(4-7) q q' by (auto simp: region_at_def chunks_at_append y add.assoc)
  qed
qed

lemma extended_heap:
  assumes h: "heap_ok nl (R1 @ (b, cs) # R2) m" and l': "layout nl (R1 @ (b, cs @ [(sz, True)]) # R2)" and y: "y = b + 8 + csum cs"
    and m1: "m1 = put_preceding (y + sz) (sz OR 2147483648) (put_size (y + sz) 8 (put_size y sz m))"
  shows "heap_ok nl (R1 @ (b, cs @ [(sz, True)]) # R2) m1"
proof -
  let ?R = "R1 @ (b, cs) # R2" and ?R' = "R1 @ (b, cs @ [(sz, True)]) # R2"
  have l: "layout nl ?R" and g: "regions_at m ?R" and fl: "free_lists nl (frees ?R) m" using h by (auto simp: heap_ok_def heap_at_def)
  note E = extend_fields [OF l' y m1]
  have r: "(b, cs @ [(sz, True)]) \<in> set ?R'" by simp
  have F: "frees ?R' = frees ?R" by (auto simp: frees_def)
  have "free_lists nl (frees ?R) m1"
  proof (rule free_lists_cong [OF fl])
    fix x assume x: "x \<in> heads nl \<union> frees ?R"
    have "x \<noteq> y \<and> x \<noteq> y + sz"
    proof (cases "x \<in> heads nl")
      case True
      then show ?thesis using slot_not_head [OF l' r, of y] slot_not_head [OF l' r, of "y + sz"] y by auto
    next
      case False
      then obtain b' cs' where f: "(b', cs') \<in> set ?R" "x \<in> frees_at (b' + 8) cs'" using x by (auto simp: frees_def)
      have "b' + 8 \<le> x \<and> x + 16 \<le> b' + 8 + csum cs'" using frees_range [OF _ f(2)] layout_region [OF l f(1)] by (simp add: region_ok_def)
      then show ?thesis using f(1) E(3) [of b' cs' x] y by auto
    qed
    then show "nsize x m1 = nsize x m \<and> nflink x m1 = nflink x m \<and> nblink x m1 = nblink x m"
      using E(1) [of x] x heads_slots [of nl ?R'] frees_slots [OF l'] F by auto
  qed
  then show ?thesis using extended_regions [OF g l' y m1] l' F by (simp add: heap_ok_def heap_at_def)
qed

lemma give_heapend: "mm_givesemaphore (h\<lparr>mm_heapend := e\<rparr>) = (mm_givesemaphore h)\<lparr>mm_heapend := e\<rparr>"
  "mm_heapend (mm_givesemaphore h) = mm_heapend h"
  by (simp_all add: mm_givesemaphore_def)

lemma sub32_mod: "8 \<le> x \<Longrightarrow> x \<le> 4294967296 \<Longrightarrow> sub32 (x mod 4294967296) 8 = x - 8"
  by (cases "x = 4294967296") (simp_all add: sub32_def [of 0], simp add: sub32_eq)

lemma mm_extend_unfold:
  assumes t: "mm_takesemaphore pid heap = Some h0" "mm_givesemaphore h0 = heap" and y: "mm_heapend heap ! i = y" "y + 8 + sz \<le> 4294967296"
    and i: "i < 2" and sz: "16 \<le> sz" "sz < 2147483648"
  shows "mm_extend pid (y + 8) sz i (heap, m) = mm_free pid (y + 8) (heap\<lparr>mm_heapend := (mm_heapend heap)[i := y + sz]\<rparr>,
    put_preceding (y + sz) (sz OR 2147483648) (put_size (y + sz) 8 (put_size y sz m)))"
proof -
  have s: "sub32 ((y + 8 + sz) mod 4294967296) 8 = y + sz" using sub32_mod [of "y + 8 + sz"] y(2) by simp
  have e: "mm_heapend h0 = mm_heapend heap" using t(2) give_heapend(2) [of h0] by simp
  have "apart y (y + sz)" using sz by (simp add: apart_def)
  then have n: "nsize y (put_size (y + sz) 8 (put_size y sz m)) = sz" using sz by simp
  show ?thesis using t i unfolding mm_extend_def Let_def s by (simp add: y(1) e give_heapend(1) n)
qed

lemma extend_ok:
  assumes ok: "mm_ok (R1 @ (b, cs) # R2) (heap, m)" and pid: "pid \<noteq> NO_HOLDER"
    and l: "layout (mm_nodelist heap) (R1 @ (b, cs @ [(sz, True)]) # R2)"
  shows "\<exists>R' heap' m'. mm_extend pid (b + 8 + csum cs + 8) sz (length R1) (heap, m) = Some (heap', m') \<and> mm_ok R' (heap', m') \<and>
    blocks R' = blocks (R1 @ (b, cs) # R2) \<and> extent R' = extent R1 @ (b, csum cs + sz) # extent R2 \<and> mm_heapsize heap' = mm_heapsize heap \<and>
    (\<forall>q \<in> blocks R'. \<forall>a \<in> bytes_of q. m' a = m a)"
proof -
  let ?R = "R1 @ (b, cs) # R2" and ?R1 = "R1 @ (b, cs @ [(sz, True)]) # R2" and ?nl = "mm_nodelist heap"
  obtain y where y: "y = b + 8 + csum cs" by blast
  have h: "heap_ok ?nl ?R m" "coalesced ?R" "regs_ok heap (extent ?R)" "sem_idle heap" using ok by (auto simp: mm_ok_def)
  have r: "(b, cs @ [(sz, True)]) \<in> set ?R1" by simp
  have sz: "16 \<le> sz" "sz < 2147483648" "y + 8 + sz \<le> 4294967296" using layout_region [OF l r] mod_16_ge y by (auto simp: region_ok_def)
  have i: "length R1 < 2" "mm_heapend heap ! length R1 = y" using h(3) y by (auto simp: regs_ok_def extent_def nth_append)
  have sem: "sem_ready pid heap" by (rule sem_idle_ready [OF h(4) pid])
  define m1 where "m1 = put_preceding (y + sz) (sz OR 2147483648) (put_size (y + sz) 8 (put_size y sz m))"
  let ?heap = "heap\<lparr>mm_heapend := (mm_heapend heap)[length R1 := y + sz]\<rparr>"
  have U: "mm_extend pid (y + 8) sz (length R1) (heap, m) = mm_free pid (y + 8) (?heap, m1)"
    using take_give [OF sem] mm_extend_unfold [OF _ _ i(2) sz(3) i(1) sz(1,2)] unfolding m1_def by metis
  have h1: "heap_ok ?nl ?R1 m1" by (rule extended_heap [OF h(1) l y m1_def])
  have f: "?R1 = fill R1 b cs [] R2 [(sz, True)]" by simp
  have own: "blocks ?R1 - {(y + 8, sz - 8)} = blocks ?R" using blocks_own [OF l [unfolded f]] y by (simp add: rest_blocks_def) (auto simp: blocks_def)
  have "(y + 8, sz - 8) \<in> blocks ?R1" using own_block [of b cs sz R1 "[]" R2] y by simp
  then obtain R' m' where m': "mm_free pid (y + 8) (?heap, m1) = Some (?heap, m')" "heap_to ?nl ?R1 m1 R' m'" "blocks R' = blocks ?R1 - {(y + 8, sz - 8)}"
    using free_block [OF h1, of ?heap pid "y + 8" "sz - 8"] sem by (auto simp: sem_ready_def)
  have "coalesced ?R1" using h(2) by (auto simp: coalesced_def successively_append_iff)
  moreover have e: "extent R' = extent R1 @ (b, csum cs + sz) # extent R2" using m'(2) by (simp add: heap_to_def extent_def)
  moreover have "regs_ok ?heap (extent R1 @ (b, csum cs + sz) # extent R2)"
    using h(3) i(1) y by (auto simp: regs_ok_def extent_def nth_append nth_Cons nth_list_update split: nat.splits)
  ultimately have "mm_ok R' (?heap, m')" using m'(2) h(4) by (simp add: mm_ok_def heap_to_def sem_idle_def)
  moreover have "m' a = m a" if q: "q \<in> blocks R'" "a \<in> bytes_of q" for q a
  proof -
    have "head_bytes y \<union> head_bytes (y + sz) \<subseteq> mgmt ?nl ?R1"
      using mgmt_head [of y b cs "[(sz, True)]" ?nl R1 "[]" R2] mgmt_next [of b cs "[(sz, True)]" ?nl R1 "[]" R2] y by (simp add: add.assoc)
    then have "frame (mgmt ?nl ?R1) m m1" unfolding m1_def by (intro frame_put frame_refl) auto
    then have "m1 a = m a" using block_bytes_out [OF l, of q a] q m'(3) by (simp add: frame_def)
    then show ?thesis using m'(2,3) q unfolding heap_to_def by auto
  qed
  moreover have "mm_extend pid (y + 8) sz (length R1) (heap, m) = Some (?heap, m')" "blocks R' = blocks ?R" "mm_heapsize ?heap = mm_heapsize heap"
    using U m'(1,3) own by simp_all
  ultimately show ?thesis unfolding y using e by blast
qed

end
