(* ===== verification/Mm_Info.thy ===== *)
theory Mm_Info
  imports Mm_Init
begin

text \<open>
mm_mallinfo walks the headers of each region. Its result is the sum over the chunks; the bytes in use and the free bytes are all the bytes of the heap, and the largest free chunk decides which requests succeed.
\<close>

section \<open>The sums over the chunks\<close>

definition sizes :: "bool \<Rightarrow> chunk list \<Rightarrow> nat list" where
  "sizes u cs = map fst (filter (\<lambda>c. snd c = u) cs)"

text \<open>All chunks of the heap, with the headers at the two ends of each region.\<close>

definition all_chunks :: "region list \<Rightarrow> chunk list" where
  "all_chunks R = concat (map (\<lambda>(b, cs). (8, True) # cs @ [(8, True)]) R)"

definition count_chunk :: "chunk \<Rightarrow> mallinfo \<Rightarrow> mallinfo" where
  "count_chunk c info = (if snd c then info\<lparr>uordblks := (uordblks info + fst c) mod 4294967296\<rparr>
     else info\<lparr>ordblks := ordblks info + 1, mxordblk := max (mxordblk info) (fst c),
               fordblks := (fordblks info + fst c) mod 4294967296\<rparr>)"

lemma count_nodes_ok:
  assumes "chunks_at m a p cs" "p < 2147483648" "\<forall>c \<in> set cs. 0 < fst c \<and> fst c < 2147483648"
  shows "count_nodes a (a + csum cs) m info = Some (fold count_chunk cs info)"
  using assms
proof (induction m a p cs arbitrary: info rule: chunks_at.induct)
  case (2 m a p s u cs)
  have "is_alloc a m \<longleftrightarrow> u" by (rule is_alloc_eq [of a m p]) (use 2 in auto)
  moreover have "count_nodes (a + s) (a + s + csum cs) m info = Some (fold count_chunk cs info)" for info using 2 by simp
  ultimately show ?case using 2(2,4) by (subst count_nodes.simps) (simp add: count_chunk_def add.assoc)
qed (subst count_nodes.simps, simp)

lemma region_nodes:
  assumes l: "layout nl R" and g: "regions_at m R" and r: "(b, cs) \<in> set R"
  shows "count_nodes b (b + 8 + csum cs) m info = Some (fold count_chunk ((8, True) # cs) info)"
proof -
  have m: "region_at m (b, cs)" using g r by (simp add: regions_at_def)
  have ok: "body_ok cs" "csum cs < 2147483648" using layout_region [OF l r] by (auto simp: region_ok_def)
  have "s \<le> csum cs" if "(s, u) \<in> set cs" for s u using that member_le_sum_list [of s "map fst cs"] by (force simp: csum_def)
  then have "\<forall>c \<in> set ((8, True) # cs). 0 < fst c \<and> fst c < 2147483648" using ok by (fastforce simp: body_ok_def)
  moreover have "chunks_at m b 0 ((8, True) # cs)" using m by (simp add: region_at_def chunks_at_append)
  ultimately show ?thesis using count_nodes_ok [of m b 0 "(8, True) # cs" info] by (simp add: add.assoc)
qed

lemma count_regions_ok:
  assumes ok: "mm_ok R (heap, m)" and pid: "pid \<noteq> NO_HOLDER" and n: "k \<le> length R"
  shows "count_regions pid [k..<length R] (heap, m) info = Some (fold count_chunk (all_chunks (drop k R)) info, heap)"
  using n
proof (induction "length R - k" arbitrary: k info)
  case (Suc d)
  have h: "heap_ok (mm_nodelist heap) R m" "regs_ok heap (extent R)" "sem_idle heap" using ok by (auto simp: mm_ok_def)
  have l: "layout (mm_nodelist heap) R" and g: "regions_at m R" using h(1) by (auto simp: heap_ok_def heap_at_def)
  obtain h0 where h0: "mm_takesemaphore pid heap = Some h0" "mm_givesemaphore h0 = heap" using take_give [OF sem_idle_ready [OF h(3) pid]] by blast
  have e: "mm_heapstart h0 = mm_heapstart heap" "mm_heapend h0 = mm_heapend heap" using h0(2) by (auto simp: mm_givesemaphore_def split: if_splits)
  have k: "k < length R" using Suc(2) by simp
  obtain b cs where r: "R ! k = (b, cs)" by force
  then have r': "(b, cs) \<in> set R" using nth_mem [OF k] by simp
  have se: "mm_heapstart heap ! k = b" "mm_heapend heap ! k = b + 8 + csum cs" using h(2) k r by (auto simp: regs_ok_def extent_def)
  have d: "drop k R = (b, cs) # drop (Suc k) R" using Cons_nth_drop_Suc [OF k] r by simp
  have IH: "count_regions pid [Suc k..<length R] (heap, m) info = Some (fold count_chunk (all_chunks (drop (Suc k) R)) info, heap)" for info
    using Suc(1) [of "Suc k"] Suc(2) k by simp
  show ?case unfolding d upt_conv_Cons [OF k]
    by (simp add: h0 e se region_nodes [OF l g r'] IH all_chunks_def) (simp add: count_chunk_def)
qed (simp add: all_chunks_def)

lemma sizes_simps [simp]:
  "sizes u [] = []" "sizes u ((s, v) # cs) = (if v = u then [s] else []) @ sizes u cs" "sizes u (xs @ ys) = sizes u xs @ sizes u ys"
  by (auto simp: sizes_def)

lemma fold_count:
  "uordblks info < 4294967296 \<Longrightarrow> fordblks info < 4294967296 \<Longrightarrow> fold count_chunk cs info =
    info\<lparr>ordblks := ordblks info + int (length (sizes False cs)), mxordblk := fold max (sizes False cs) (mxordblk info),
      uordblks := (uordblks info + sum_list (sizes True cs)) mod 4294967296, fordblks := (fordblks info + sum_list (sizes False cs)) mod 4294967296\<rparr>"
proof (induction cs arbitrary: info)
  case (Cons c cs)
  obtain s u where [simp]: "c = (s, u)" by force
  show ?case using Cons by (cases u) (simp_all add: count_chunk_def mod_add_left_eq add.assoc max.commute)
qed simp

lemma mallinfo_ok:
  assumes ok: "mm_ok R (heap, m)" and pid: "pid \<noteq> NO_HOLDER"
  shows "mm_mallinfo pid (heap, m) = Some (OK, \<lparr>arena = mm_heapsize heap, ordblks = int (length (sizes False (all_chunks R))),
    mxordblk = fold max (sizes False (all_chunks R)) 0, uordblks = sum_list (sizes True (all_chunks R)) mod 4294967296,
    fordblks = sum_list (sizes False (all_chunks R)) mod 4294967296\<rparr>, heap, m)"
proof -
  have "mm_nregions heap = length R" using ok by (auto simp: mm_ok_def regs_ok_def extent_def)
  then show ?thesis using count_regions_ok [OF ok pid, of 0] by (simp add: mm_mallinfo_def Let_def fold_count)
qed

lemma sizes_sum: "sum_list (sizes True cs) + sum_list (sizes False cs) = csum cs"
  by (induction cs) (auto simp: csum_def sizes_def)

lemma all_chunks_sum: "csum (all_chunks R) = space (extent R)"
  by (induction R) (auto simp: all_chunks_def space_def extent_def)

lemma free_sizes:
  assumes l: "layout nl R" and g: "regions_at m R"
  shows "set (sizes False (all_chunks R)) = (\<lambda>x. nsize x m) ` frees R"
proof (intro set_eqI iffI)
  fix s assume "s \<in> set (sizes False (all_chunks R))"
  then obtain b cs where r: "(b, cs) \<in> set R" "(s, False) \<in> set cs" by (auto simp: sizes_def all_chunks_def)
  then obtain pre post where p: "cs = pre @ (s, False) # post" by (meson split_list)
  obtain R1 R2 where "R = R1 @ (b, cs) # R2" using split_list [OF r(1)] by blast
  then have R: "R = fill R1 b pre post R2 [(s, False)]" using p by simp
  have "b + 8 + csum pre \<in> frees R" unfolding R frees_fill by simp
  moreover have "nsize (b + 8 + csum pre) m = s" by (rule chunk_facts(1) [OF l [unfolded R] g [unfolded R]])
  ultimately show "s \<in> (\<lambda>x. nsize x m) ` frees R" by blast
next
  fix s assume "s \<in> (\<lambda>x. nsize x m) ` frees R"
  then obtain x where x: "x \<in> frees R" "s = nsize x m" by blast
  obtain R1 b pre t post R2 where R: "R = fill R1 b pre post R2 [(t, False)]" "x = b + 8 + csum pre" using frees_split [OF x(1)] by blast
  have "s = t" using chunk_facts(1) [OF l [unfolded R(1)] g [unfolded R(1)]] x R(2) by simp
  then show "s \<in> set (sizes False (all_chunks R))" unfolding R(1) by (simp add: all_chunks_def)
qed

lemma fold_max: "fold max xs (n :: nat) < k \<longleftrightarrow> n < k \<and> (\<forall>x \<in> set xs. x < k)"
  by (induction xs arbitrary: n) auto

lemma malloc_info:
  assumes ok: "mm_ok R (heap, m)" and pid: "pid \<noteq> NO_HOLDER" and sz: "0 < sz" "sz + 23 < 4294967296"
  shows "\<exists>p m' info. mm_malloc pid sz (heap, m) = Some (p, heap, m') \<and> mm_mallinfo pid (heap, m) = Some (OK, info, heap, m) \<and>
    (p \<noteq> 0 \<longleftrightarrow> MM_ALIGN_UP (sz + 8) \<le> mxordblk info)"
proof -
  let ?a = "MM_ALIGN_UP (sz + 8)" and ?mx = "fold max (sizes False (all_chunks R)) 0"
  have h: "heap_ok (mm_nodelist heap) R m" "sem_idle heap" using ok by (auto simp: mm_ok_def)
  have l: "layout (mm_nodelist heap) R" and g: "regions_at m R" using h(1) by (auto simp: heap_ok_def heap_at_def)
  have mx: "?mx < ?a \<longleftrightarrow> (\<forall>x \<in> frees R. nsize x m < ?a)" using align_chunk(4) [OF sz] unfolding fold_max free_sizes [OF l g] by auto
  have "\<exists>p m'. mm_malloc pid sz (heap, m) = Some (p, heap, m') \<and> (p \<noteq> 0 \<longleftrightarrow> \<not> ?mx < ?a)"
  proof (rule mm_malloc_ok [OF h(1) refl sem_idle_ready [OF h(2) pid] sz])
    assume "mm_malloc pid sz (heap, m) = Some (0, heap, m)" "\<forall>x \<in> frees R. nsize x m < ?a"
    then show ?thesis using mx by blast
  next
    fix R1 b pre s post R2 m'
    assume R: "R = fill R1 b pre post R2 [(s, False)]" and s: "?a \<le> s" and r: "mm_malloc pid sz (heap, m) = Some (b + 8 + csum pre + 8, heap, m')"
    have "b + 8 + csum pre \<in> frees R" unfolding R frees_fill by simp
    then have "\<not> ?mx < ?a" using chunk_facts(1) [OF l [unfolded R] g [unfolded R]] mx s by force
    then show ?thesis using r by auto
  qed
  then show ?thesis using mallinfo_ok [OF ok pid] by (auto simp: not_less)
qed

end
