(* ===== verification/Mm_System.thy ===== *)
theory Mm_System
  imports Mm_Info Mm_User
begin

text \<open>
  The heap of the board: the two regions of memory that \<^verbatim>\<open>stm32_allocateheap.c\<close> gives it, and its set-up at the start
  of the system.
\<close>

section \<open>The heap of the board\<close>

abbreviation (input) "SRAM1_END \<equiv> (0x20020000 :: nat)"
abbreviation (input) "SRAM2_START \<equiv> (0x10000000 :: nat)"
abbreviation (input) "SRAM2_END \<equiv> (0x10010000 :: nat)"

text \<open>The heap starts behind the stack of the idle task; the linker gives the address.\<close>

definition up_allocate_heap :: "nat \<Rightarrow> nat \<times> nat" where
  "up_allocate_heap g_idle_topstack = (g_idle_topstack, sub32 SRAM1_END g_idle_topstack)"

definition up_addregion :: "mm_state \<Rightarrow> mm_state option" where
  "up_addregion s = umm_addregion SRAM2_START (SRAM2_END - SRAM2_START) s"

definition heap_startup :: "int list \<Rightarrow> nat \<Rightarrow> mm_state \<Rightarrow> mm_state option" where
  "heap_startup ws g_idle_topstack s = do {
     let (heap_start, heap_size) = up_allocate_heap g_idle_topstack;
     s \<leftarrow> umm_initialize ws heap_start heap_size s;
     up_addregion s
   }"

definition board_regions :: "nat \<Rightarrow> region list" where
  "board_regions brk = [(MM_ALIGN_UP brk, [(SRAM1_END - MM_ALIGN_UP brk - 16, False)]), (SRAM2_START, [(65520, False)])]"

lemma startup_ok:
  assumes len: "length (mm_heapstart heap) = 2" "length (mm_heapend heap) = 2"
    and nl: "0x20000000 \<le> mm_nodelist heap" "mm_nodelist heap + 304 \<le> brk" and brk: "brk + 64 \<le> SRAM1_END"
  shows "\<exists>heap' m'. heap_startup ws brk (heap, m) = Some (heap', m') \<and> mm_ok (board_regions brk) (heap', m') \<and>
    mm_heapsize heap' = SRAM1_END - MM_ALIGN_UP brk + 65536 \<and> mm_nodelist heap' = mm_nodelist heap"
proof -
  define b where "b = MM_ALIGN_UP brk"
  have b: "MM_ALIGN_UP brk = b" "brk \<le> b" "b < brk + 16" "b mod 16 = 0" using align_up_bounds [of brk] brk nl by (auto simp: b_def)
  define s where "s = SRAM1_END - b - 16"
  have bs: "b + s + 16 = SRAM1_END" "32 \<le> s" using b brk by (auto simp: s_def)
  have s16: "s mod 16 = 0" using mod_16_diff [of "SRAM1_END - 16" b] b bs by (simp add: s_def)
  have v: "sub32 SRAM1_END brk = SRAM1_END - brk" using brk by (intro sub32_eq) auto
  have d: "MM_ALIGN_DOWN (brk + (SRAM1_END - brk)) = b + s + 16" using brk bs by (simp add: MM_ALIGN_DOWN_eq)
  have l1: "layout (mm_nodelist heap) [(b, [(s, False)])]" using b bs nl brk s16 by (auto simp: layout_def region_ok_def away_def)
  obtain heap1 m1 where h1: "mm_initialize ws brk (SRAM1_END - brk) (heap, m) = Some (heap1, m1)" "mm_ok [(b, [(s, False)])] (heap1, m1)"
    "mm_heapsize heap1 = s + 16" "mm_nodelist heap1 = mm_nodelist heap"
    using initialize_ok [OF len b(1) d _ l1, of ws m] brk by auto
  have l2: "layout (mm_nodelist heap1) ([(b, [(s, False)])] @ [(SRAM2_START, [(65520, False)])])"
    using l1 h1(4) b(2) nl by (auto simp: layout_def region_ok_def away_def)
  have a: "MM_ALIGN_UP SRAM2_START = SRAM2_START" "MM_ALIGN_DOWN (SRAM2_START + 65536) = SRAM2_START + 65520 + 16"
    by (simp_all add: MM_ALIGN_UP_eq MM_ALIGN_DOWN_eq)
  obtain heap2 m2 where h2: "mm_addregion SRAM2_START 65536 (heap1, m1) = Some (heap2, m2)"
    "mm_ok ([(b, [(s, False)])] @ [(SRAM2_START, [(65520, False)])]) (heap2, m2)"
    "mm_heapsize heap2 = (s + 16 + 65536) mod 4294967296" "mm_nodelist heap2 = mm_nodelist heap"
    using addregion_ok [OF h1(2) _ a _ l2] h1(3,4) by auto
  have "heap_startup ws brk (heap, m) = Some (heap2, m2)"
    using h1(1) h2(1) unfolding heap_startup_def up_allocate_heap_def v by (simp add: Let_def umm_initialize_def up_addregion_def umm_addregion_def)
  moreover have "board_regions brk = [(b, [(s, False)]), (SRAM2_START, [(65520, False)])]" by (simp add: board_regions_def b(1) s_def)
  moreover have "mm_heapsize heap2 = SRAM1_END - b + 65536" using h2(3) bs by simp
  ultimately show ?thesis using h2(2,4) b(1) by simp
qed

text \<open>A block of four bytes is a chunk of sixteen: eight for its header, eight for the caller.\<close>

lemma malloc_4:
  assumes "mm_ok R (heap, m)" "tid \<noteq> NO_HOLDER"
  obtains (none) "umm_malloc tid 4 (heap, m) = Some (0, heap, m)" "frees R = {}"
  | (some) p R' m' where "umm_malloc tid 4 (heap, m) = Some (p, heap, m')" "mm_ok R' (heap, m')" "(p, 8) \<in> blocks R'" "p \<noteq> 0"
proof -
  have h: "heap_ok (mm_nodelist heap) R m" "sem_ready tid heap" using assms by (auto simp: mm_ok_def sem_idle_ready)
  have a: "MM_ALIGN_UP (4 + 8) = 16" by (simp add: MM_ALIGN_UP_eq)
  show thesis
  proof (rule malloc_block [OF h(1) refl h(2), of 4])
    assume n: "mm_malloc tid 4 (heap, m) = Some (0, heap, m)" "\<forall>x \<in> frees R. nsize x m < MM_ALIGN_UP (4 + 8)"
    have "16 \<le> nsize x m" if "x \<in> frees R" for x
      using h(1) that by (auto simp: heap_ok_def heap_at_def free_lists_def lists_ok_def bins_ok_def)
    then have "frees R = {}" using n(2) a by force
    then show thesis using none n(1) by (simp add: umm_malloc_def)
  next
    fix p R' m'
    assume s: "mm_malloc tid 4 (heap, m) = Some (p, heap, m')" "heap_to (mm_nodelist heap) R m R' m'"
      "blocks R' = insert (p, MM_ALIGN_UP (4 + 8) - 8) (blocks R)"
    have l: "layout (mm_nodelist heap) R'" using s(2) by (auto simp: heap_to_def heap_ok_def heap_at_def)
    have b: "(p, 8) \<in> blocks R'" using s(3) a by simp
    show thesis
      by (rule some [OF _ mm_ok_to [OF assms(1) s(2)] b]) (use s(1) block_aligned [OF l b] in \<open>auto simp: umm_malloc_def\<close>)
  qed simp_all
qed

text \<open>The heap of a board whose static data, with the list heads, ends at 0x20001000, after the start of the system.\<close>

definition loaded_heap :: mm_heap_s where
  "loaded_heap = \<lparr>mm_semaphore = \<lparr>semcount = 0, wakes = []\<rparr>, mm_holder = 0, mm_counts_held = 0, mm_heapsize = 0,
     mm_heapstart = [0, 0], mm_heapend = [0, 0], mm_nregions = 0, mm_nodelist = 0x20000100\<rparr>"

definition started_heap :: mm_state where
  "started_heap = the (heap_startup [] 0x20001000 (loaded_heap, \<lambda>_. 0))"

lemma started_heap_ok:
  "heap_startup [] 0x20001000 (loaded_heap, \<lambda>_. 0) = Some started_heap"
  "mm_ok (board_regions 0x20001000) started_heap" "frees (board_regions 0x20001000) \<noteq> {}"
proof -
  obtain heap m where "heap_startup [] 0x20001000 (loaded_heap, \<lambda>_. 0) = Some (heap, m)" "mm_ok (board_regions 0x20001000) (heap, m)"
    using startup_ok [of loaded_heap "0x20001000" "[]" "\<lambda>_. 0"] by (auto simp: loaded_heap_def)
  then show "heap_startup [] 0x20001000 (loaded_heap, \<lambda>_. 0) = Some started_heap" "mm_ok (board_regions 0x20001000) started_heap"
    by (simp_all add: started_heap_def)
  show "frees (board_regions 0x20001000) \<noteq> {}" by (auto simp: frees_def board_regions_def frees_at_def)
qed

section \<open>A chunk whose size is overwritten\<close>

lemma chunks_at_follow:
  assumes "chunks_at m a p (pre @ post)" "chunks_at m' a p' (cs @ [(8, True)])" "body_ok pre" "body_ok cs" "csum pre \<le> csum cs"
    "\<forall>x \<in> starts a pre. nsize x m' = nsize x m"
  shows "\<exists>q cs'. chunks_at m' (a + csum pre) q (cs' @ [(8, True)]) \<and> body_ok cs'"
  using assms
proof (induction pre arbitrary: a p p' cs)
  case Nil
  then show ?case by auto
next
  case (Cons c pre)
  obtain s u where c: "c = (s, u)" by fastforce
  have s: "0 < s" "nsize a m = s" "nsize a m' = s" using Cons.prems(1,3,6) by (auto simp: c body_ok_def starts_def)
  then obtain v cs1 where cs: "cs = (s, v) # cs1" using Cons.prems(2,5) by (cases cs) (auto simp: c)
  have "\<exists>q cs'. chunks_at m' (a + s + csum pre) q (cs' @ [(8, True)]) \<and> body_ok cs'"
    by (rule Cons.IH [of "a + s" s s cs1]) (use Cons.prems in \<open>auto simp: c cs body_ok_def starts_def\<close>)
  then show ?case by (simp add: c add.assoc)
qed

lemma starts_below: "x \<in> starts a cs \<Longrightarrow> body_ok cs \<Longrightarrow> a \<le> x \<and> x + 16 \<le> a + csum cs"
proof (induction cs arbitrary: a)
  case (Cons c cs)
  obtain s u where c: "c = (s, u)" by fastforce
  have s: "16 \<le> s" using Cons.prems(2) by (auto simp: c body_ok_def)
  show ?case
  proof (cases "x = a")
    case True
    then show ?thesis using s by (simp add: c)
  next
    case False
    then have "x \<in> starts (a + s) cs" using Cons.prems(1) by (auto simp: c starts_def)
    then have "a + s \<le> x \<and> x + 16 \<le> a + s + csum cs" using Cons.IH Cons.prems(2) by (simp add: c body_ok_def)
    then show ?thesis by (simp add: c)
  qed
qed (simp add: starts_def)

lemma regs_ok_extent: "regs_ok heap e \<Longrightarrow> regs_ok heap e' \<Longrightarrow> e = e'"
  by (auto simp: regs_ok_def intro!: nth_equalityI prod_eqI)

text \<open>When the size of the chunk behind a block is overwritten by what is no size of a chunk, the heap is no longer in
  order, whatever one takes for its chunks.\<close>

lemma size_overwritten:
  assumes ok: "mm_ok R (heap, m)" and p: "(p, k) \<in> blocks R"
    and same: "\<forall>a < p. m' a = m a" and v: "nsize (p + k) m' \<noteq> 8" "nsize (p + k) m' mod 16 \<noteq> 0 \<or> nsize (p + k) m' = 0"
  shows "\<not> mm_ok R' (heap, m')"
proof
  assume ok': "mm_ok R' (heap, m')"
  obtain R1 b pre s post R2 where R: "R = fill R1 b pre post R2 [(s, True)]" "p = b + 8 + csum pre + 8" "k = s - 8"
    using blocks_split [OF p] by blast
  have e: "extent R' = extent R" using ok ok' by (auto simp: mm_ok_def intro: regs_ok_extent)
  have l: "region_at m (b, pre @ (s, True) # post)" "region_ok (b, pre @ (s, True) # post)"
    using ok by (auto simp: mm_ok_def heap_ok_def heap_at_def regions_at_def layout_def R(1))
  have "(b, csum (pre @ (s, True) # post)) \<in> set (extent R')" unfolding e R(1) by (simp add: extent_def)
  then obtain cs where cs: "(b, cs) \<in> set R'" "csum cs = csum (pre @ (s, True) # post)" by (auto simp: extent_def)
  have l': "region_at m' (b, cs)" "region_ok (b, cs)"
    using ok' cs(1) by (auto simp: mm_ok_def heap_ok_def heap_at_def regions_at_def layout_def)
  have bo: "body_ok (pre @ [(s, True)])" using l(2) by (auto simp: region_ok_def body_ok_def)
  then have "0 < s" "s mod 16 = 0" by (auto simp: body_ok_def)
  then have s: "16 \<le> s" by auto
  have st: "\<forall>x \<in> starts (b + 8) (pre @ [(s, True)]). nsize x m' = nsize x m"
  proof
    fix x assume x: "x \<in> starts (b + 8) (pre @ [(s, True)])"
    have "x \<in> starts (b + 8) pre \<or> x = b + 8 + csum pre" using x by (auto simp: starts_def)
    then have "x + 8 \<le> p" using starts_below [of x "b + 8" pre] bo R(2) by (auto simp: body_ok_def)
    then show "nsize x m' = nsize x m" unfolding nsize_def by (intro ld_cong) (use same in auto)
  qed
  have "\<exists>q cs'. chunks_at m' (b + 8 + csum (pre @ [(s, True)])) q (cs' @ [(8, True)]) \<and> body_ok cs'"
    by (rule chunks_at_follow [of m _ 8 _ "post @ [(8, True)]" _ 8 cs]) (use l l' cs(2) bo st in \<open>auto simp: region_at_def region_ok_def\<close>)
  moreover have "b + 8 + csum (pre @ [(s, True)]) = p + k" using R(2,3) s by simp
  ultimately obtain q cs' where c: "chunks_at m' (p + k) q (cs' @ [(8, True)])" "body_ok cs'" by metis
  show False using c v by (cases cs') (auto simp: body_ok_def)
qed

end
