(* ===== verification/Imu_Laws.thy ===== *)
theory Imu_Laws
  imports Imu Mm_System
begin

text \<open>
  The sensor driver against its contract.  A sample of the JY901B is decoded without any rounding
  error, and the structure of the library is read back from the heap as it was stored; but its last
  field overwrites the header of the next chunk.  The locale \<^verbatim>\<open>imu_os\<close> is what the driver relies on, a device that opens, answers a register
  read with the current sample, and closes; the driver's guarantees are proved inside it.
\<close>

section \<open>Decoding\<close>

text \<open>A register of the sensor as it is sent, and a sample: the twelve registers from AX on.\<close>

definition reg_bytes :: "16 word \<Rightarrow> u8 list" where
  "reg_bytes w = [ucast w, ucast (drop_bit 8 w)]"

definition sample_bytes :: "16 word list \<Rightarrow> u8 list" where
  "sample_bytes ws = concat (map reg_bytes ws)"

text \<open>The value of a register of a sample, as a fraction of the full scale.\<close>

definition reg_value :: "16 word list \<Rightarrow> u8 \<Rightarrow> rat" where
  "reg_value ws r = of_int (sint (ws ! (unat r - unat AX))) / 32768"

text \<open>What the program gets from the registers: 16 g, 2000 degrees per second and 180 degrees at full
  scale and the magnetic field as it is; pitch from the registers of the X axis, roll from those of the
  Y axis, yaw from those of the Z axis with the sign turned around.  The driver reads the angle of pitch
  from the register that it names \<^verbatim>\<open>Roll\<close>, and the angle of roll from the one that it names
  \<^verbatim>\<open>Pitch\<close>.\<close>

definition exact_sample :: "16 word list \<Rightarrow> mpu_params" where
  "exact_sample ws =
     (let v = reg_value ws in
      \<lparr>acc_pitch = v AX * 16, acc_roll = v AY * 16, acc_yaw = - v AZ * 16,
       gyro_pitch = v GX * 2000, gyro_roll = v GY * 2000, gyro_yaw = - v GZ * 2000,
       mag_pitch = v HX * 32768, mag_roll = v HY * 32768, mag_yaw = - v HZ * 32768,
       angle_pitch = v Roll * 180, angle_roll = v Pitch * 180, angle_yaw = - v Yaw * 180\<rparr>)"

lemma revert_bytes: "(word_of_int (or (push_bit 8 (uint (ucast (drop_bit 8 w) :: u8))) (uint (ucast w :: u8))) :: 16 word) = w"
  by (rule bit_word_eqI) (auto simp: bit_simps)

lemma sint16_bounds: "\<bar>sint (w :: 16 word)\<bar> \<le> 32768"
  using sint_lt [of w] sint_ge [of w] by (simp add: abs_le_iff)

lemma scaled_exact:
  assumes "\<bar>x\<bar> \<le> 32768" "\<bar>n\<bar> \<le> 500"
  shows "scaled x (of_int (n * 4)) = of_int x / 32768 * of_int (n * 4)"
proof -
  have x: "\<bar>x\<bar> < 2 ^ 53" using assms(1) by simp
  have "\<bar>x * n\<bar> \<le> 32768 * 500" unfolding abs_mult by (rule mult_mono) (use assms in simp_all)
  then have xn: "\<bar>x * n\<bar> < 2 ^ 24" "\<bar>x * n\<bar> < 2 ^ 53" by simp_all
  have p: "pow2 (- 15) = 1 / 32768" "pow2 (- 13) = 1 / 8192" by (simp_all add: pow2_def)
  have d: "double (of_int x / 32768) = of_int x / 32768" using ieee_round_exact [OF x, of "- 15"] by (simp add: p)
  have v: "of_int x / 32768 * of_int (n * 4) = of_int (x * n) * pow2 (- 13)" by (simp add: p)
  have "double (of_int (x * n) * pow2 (- 13)) = of_int (x * n) * pow2 (- 13)" by (rule ieee_round_exact [OF xn(2)])
  moreover have "float (of_int (x * n) * pow2 (- 13)) = of_int (x * n) * pow2 (- 13)" by (rule ieee_round_exact [OF xn(1)])
  ultimately show ?thesis unfolding scaled_def d v by simp
qed


lemmas scaled_values = scaled_exact [where n = 4, simplified] scaled_exact [where n = 500, simplified]
  scaled_exact [where n = 45, simplified]

lemma float_int: "\<bar>x\<bar> \<le> 32768 \<Longrightarrow> float (of_int x) = of_int x"
  using ieee_round_exact [of x 24 0] by simp

text \<open>The two bytes of register i of a sample.\<close>

lemma sample_reg:
  assumes "i < length ws"
  shows "REVERT_REG_DATA (sample_bytes ws @ rest) (2 * i) = sint (ws ! i)"
  using assms
proof (induction ws arbitrary: i)
  case (Cons w ws)
  show ?case
  proof (cases i)
    case 0
    then show ?thesis by (simp add: REVERT_REG_DATA_def sample_bytes_def reg_bytes_def revert_bytes)
  next
    case (Suc j)
    then have "REVERT_REG_DATA (sample_bytes ws @ rest) (2 * j) = sint (ws ! j)" using Cons by simp
    then show ?thesis using Suc by (simp add: REVERT_REG_DATA_def sample_bytes_def reg_bytes_def)
  qed
qed simp

lemma decode_encoded:
  assumes "length ws = 12"
  shows "decode_sample (sample_bytes ws @ rest) = exact_sample ws"
proof -
  let ?r = "REVERT_REG_DATA (sample_bytes ws @ rest)"
  have r: "?r 0 = sint (ws ! 0)" "?r 2 = sint (ws ! 1)" "?r 4 = sint (ws ! 2)" "?r 6 = sint (ws ! 3)"
    "?r 8 = sint (ws ! 4)" "?r 10 = sint (ws ! 5)" "?r 12 = sint (ws ! 6)" "?r 14 = sint (ws ! 7)"
    "?r 16 = sint (ws ! 8)" "?r 18 = sint (ws ! 9)" "?r 20 = sint (ws ! 10)" "?r 22 = sint (ws ! 11)"
    using sample_reg [of 0 ws rest] sample_reg [of 1 ws rest] sample_reg [of 2 ws rest] sample_reg [of 3 ws rest]
      sample_reg [of 4 ws rest] sample_reg [of 5 ws rest] sample_reg [of 6 ws rest] sample_reg [of 7 ws rest]
      sample_reg [of 8 ws rest] sample_reg [of 9 ws rest] sample_reg [of 10 ws rest] sample_reg [of 11 ws rest] assms
    by simp_all
  have s: "scaled (sint w) 16 = of_int (sint w) / 32768 * 16" "scaled (- sint w) 16 = - (of_int (sint w) / 32768) * 16"
    "scaled (sint w) 2000 = of_int (sint w) / 32768 * 2000" "scaled (- sint w) 2000 = - (of_int (sint w) / 32768) * 2000"
    "scaled (sint w) 180 = of_int (sint w) / 32768 * 180" "scaled (- sint w) 180 = - (of_int (sint w) / 32768) * 180"
    "float (signed w) = signed w" "float (- signed w) = - signed w"
    for w :: "16 word"
    using sint16_bounds [of w] scaled_values [of "sint w"] scaled_values [of "- sint w"] float_int [of "sint w"] float_int [of "- sint w"]
    by simp_all
  show ?thesis unfolding decode_sample_def exact_sample_def reg_value_def Let_def r by (simp add: s)
qed

section \<open>The structure of the library on the heap\<close>

lemma ld_st16_other: "q + 4 \<le> p \<or> p + 2 \<le> q \<Longrightarrow> ld q (st16 p v m) = ld q m"
  by (auto simp: ld_def st16_def)

lemma ld16_st_other: "q + 2 \<le> p \<or> p + 4 \<le> q \<Longrightarrow> ld16 q (st p v m) = ld16 q m"
  by (auto simp: ld16_def st_def)

lemma ld16_st16 [simp]: "v < 65536 \<Longrightarrow> ld16 p (st16 p v m) = v"
proof -
  assume v: "v < 65536"
  then have "v div 256 < 256" by simp
  then show ?thesis by (simp add: ld16_def st16_def unat_byte)
qed

lemma ld_int_st_int: "- 2147483648 \<le> v \<Longrightarrow> v < 2147483648 \<Longrightarrow> ld_int p (st_int p v m) = v"
proof -
  assume v: "- 2147483648 \<le> v" "v < 2147483648"
  have "(word_of_nat (nat (v mod 4294967296)) :: 32 word) = word_of_int v"
    by (simp add: word_of_int_eq_iff take_bit_eq_mod)
  moreover have "sint (word_of_int v :: 32 word) = v" using v by (simp add: sint_sbintrunc' signed_take_bit_int_eq_self)
  ultimately show ?thesis by (simp add: ld_int_def st_int_def)
qed

text \<open>The three stores of \<^verbatim>\<open>lib_i2c_open\<close>.\<close>

definition put_lib :: "nat \<Rightarrow> u32 \<Rightarrow> u16 \<Rightarrow> int \<Rightarrow> mem \<Rightarrow> mem" where
  "put_lib p hz adr fd m = st_int (p + off_fd) fd (st16 (p + off_addr) (unat (take_bit 8 adr)) (st (p + off_frequency) (unat hz) m))"

lemma addr_byte: "unat (ucast adr :: u8) = unat (take_bit 8 (adr :: u16))"
  by (simp add: unsigned_take_bit_eq unsigned_ucast_eq)

lemma addr_lt: "unat (take_bit 8 (adr :: u16)) < 65536"
  using unsigned_less [of "take_bit 8 adr", where 'a = nat] by simp

lemma ld16_put_lib: "ld16 (p + 4) (put_lib p hz adr fd m) = unat (take_bit 8 adr)"
  by (simp add: put_lib_def st_int_def ld16_st_other addr_lt)

lemma lib_at_put_lib:
  assumes "p \<noteq> 0" "0 \<le> fd" "fd < 2147483648"
  shows "lib_at p (put_lib p hz adr fd m) = Some \<lparr>l_frequency = hz, l_addr = take_bit 8 adr, l_fd = fd\<rparr>"
proof -
  have "ld (p + 0) (put_lib p hz adr fd m) = unat hz"
    using unsigned_less [of hz, where 'a = nat] by (simp add: put_lib_def st_int_def ld_st_other ld_st16_other)
  moreover have "ld_int (p + 8) (put_lib p hz adr fd m) = fd"
    using assms by (simp add: put_lib_def ld_int_st_int)
  ultimately show ?thesis using assms(1) by (simp add: lib_at_def ld16_put_lib)
qed

lemma lib_i2c_open_eq:
  assumes "umm_malloc (me a) 4 (uheap a) = Some (p, heap, m)" "p \<noteq> 0" "sys_open sys (Some path) 1 (osys a) = Some (fd, s)" "0 \<le> fd"
  shows "lib_i2c_open sys path hz adr a = Some (p, a\<lparr>osys := s, uheap := (heap, put_lib p hz adr fd m)\<rparr>)"
  using assms by (simp add: lib_i2c_open_def poke_def Let_def put_lib_def addr_byte)

section \<open>The contract with the operating system\<close>

definition imu_request :: "u8 list \<Rightarrow> i2c_msg_s list" where
  "imu_request buf = read_msgs \<lparr>l_frequency = 400000, l_addr = 0x50, l_fd = 0\<rparr> AX buf 24"

lemma read_msgs_imu: "read_msgs \<lparr>l_frequency = 400000, l_addr = 0x50, l_fd = fd\<rparr> AX buf 24 = imu_request buf"
  by (simp add: imu_request_def read_msgs_def)

locale imu_os =
  fixes sys :: "'s syscalls"
    and idle :: "'s \<Rightarrow> bool"
    and connected :: "int \<Rightarrow> 's \<Rightarrow> bool"
    and sensor :: "'s \<Rightarrow> 16 word list"
  assumes open_ok: "idle s \<Longrightarrow> \<exists>fd s'. sys_open sys (Some IMU_I2C_DEV_PATH) 1 s = Some (fd, s') \<and> 0 \<le> fd \<and> fd < 2147483648 \<and> connected fd s'"
    and read_ok: "connected fd s \<Longrightarrow> 24 \<le> length buf \<Longrightarrow>
       \<exists>m1 m2 s'. sys_ioctl sys fd I2CIOC_TRANSFER (Arg_i2c_transfer (imu_request buf)) s = Some (0, Arg_i2c_transfer [m1, m2], s') \<and>
         msg_buffer m2 = sample_bytes (sensor s) @ drop 24 buf \<and> connected fd s'"
    and sensor_ok: "connected fd s \<Longrightarrow> length (sensor s) = 12"
    and close_ok: "connected fd s \<Longrightarrow> \<exists>s'. sys_close sys fd s = Some (0, s') \<and> idle s'"
begin

text \<open>The driver holds the device: the structure in its memory names an open descriptor of it.\<close>

definition attached :: "'s imu \<Rightarrow> bool" where
  "attached a \<longleftrightarrow> imu_update a \<and> (\<exists>fd. lib_at (imu_i2c a) (memory a) = Some \<lparr>l_frequency = 400000, l_addr = 0x50, l_fd = fd\<rparr> \<and>
     0 \<le> fd \<and> connected fd (osys a))"

lemma attachedE:
  assumes "attached a"
  obtains fd where "imu_update a" "lib_at (imu_i2c a) (memory a) = Some \<lparr>l_frequency = 400000, l_addr = 0x50, l_fd = fd\<rparr>"
    "0 \<le> fd" "connected fd (osys a)"
  using assms unfolding attached_def by blast

lemma init_attaches:
  assumes "idle (osys a)" "mm_ok R (uheap a)" "frees R \<noteq> {}" "me a \<noteq> NO_HOLDER"
  obtains a' where "drv_imu_init sys a = Some a'" "attached a'" "drv_imu_date a' = drv_imu_date a"
proof -
  obtain heap m where h: "uheap a = (heap, m)" by fastforce
  obtain fd s where o: "sys_open sys (Some IMU_I2C_DEV_PATH) 1 (osys a) = Some (fd, s)" "0 \<le> fd" "fd < 2147483648" "connected fd s"
    using open_ok [OF assms(1)] by blast
  obtain p m1 where m: "umm_malloc (me a) 4 (uheap a) = Some (p, heap, m1)" "p \<noteq> 0"
    unfolding h by (rule malloc_4 [OF assms(2) [unfolded h] assms(4)]) (use assms(3) in auto)
  let ?a = "a\<lparr>imu_update := True\<rparr>"
  have "lib_i2c_open sys IMU_I2C_DEV_PATH 400000 0x50 ?a =
      Some (p, ?a\<lparr>osys := s, uheap := (heap, put_lib p 400000 0x50 fd m1)\<rparr>)"
    by (rule lib_i2c_open_eq) (use m o in simp_all)
  then have "drv_imu_init sys a = Some (?a\<lparr>osys := s, uheap := (heap, put_lib p 400000 0x50 fd m1), imu_i2c := p\<rparr>)"
    using m(2) by (simp add: drv_imu_init_def imu_init_def)
  then show thesis
    by (rule that) (use lib_at_put_lib [OF m(2) o(2,3), of 400000 "0x50" m1] o(2,4) in \<open>simp_all add: attached_def\<close>)
qed

lemma update_reads:
  assumes "attached a" "24 \<le> length junk"
  obtains a' where "update sys junk a = Some (0, a')" "attached a'" "drv_imu_date a' = exact_sample (sensor (osys a))"
proof -
  obtain fd where l: "imu_update a" "lib_at (imu_i2c a) (memory a) = Some \<lparr>l_frequency = 400000, l_addr = 0x50, l_fd = fd\<rparr>"
    "0 \<le> fd" "connected fd (osys a)" by (rule attachedE [OF assms(1)])
  obtain m1 m2 s' where m: "sys_ioctl sys fd I2CIOC_TRANSFER (Arg_i2c_transfer (imu_request junk)) (osys a) =
      Some (0, Arg_i2c_transfer [m1, m2], s')" "msg_buffer m2 = sample_bytes (sensor (osys a)) @ drop 24 junk"
    "connected fd s'" using read_ok [OF l(4) assms(2)] by blast
  have "update sys junk a = Some (0, a\<lparr>osys := s', drv_imu_date := exact_sample (sensor (osys a))\<rparr>)"
    using l m(1,2) sensor_ok [OF l(4)]
    by (simp add: update_def lib_i2c_read_mult_block_def read_msgs_imu decode_encoded)
  then show thesis using that l m(3) by (simp add: attached_def)
qed

lemma main_loop_runs:
  "attached a \<Longrightarrow> \<forall>junk \<in> set junks. 24 \<le> length junk \<Longrightarrow> \<exists>a'. main_loop sys junks a = Some a' \<and> attached a'"
proof (induction junks arbitrary: a)
  case (Cons junk junks)
  obtain a1 where 1: "update sys junk a = Some (0, a1)" "attached a1"
    using Cons.prems by (auto intro: update_reads)
  have "imu_update a" using Cons.prems(1) by (simp add: attached_def)
  then show ?case using Cons.IH [OF 1(2)] Cons.prems(2) 1(1) by simp
qed simp

lemma deinit_closes:
  assumes "attached a" "drv_imu_deinit sys a = Some a'"
  shows "idle (osys a')"
proof -
  obtain fd where l: "lib_at (imu_i2c a) (memory a) = Some \<lparr>l_frequency = 400000, l_addr = 0x50, l_fd = fd\<rparr>"
    "0 \<le> fd" "connected fd (osys a)" by (rule attachedE [OF assms(1)])
  obtain s' where "sys_close sys fd (osys a) = Some (0, s')" "idle s'" using close_ok [OF l(3)] by blast
  then show ?thesis using assms(2) l by (auto simp: drv_imu_deinit_def lib_i2c_deinit_def split: bind_splits if_splits)
qed

end

lemma main_loop_append:
  "main_loop sys (js @ js') a = do { a \<leftarrow> main_loop sys js a; main_loop sys js' a }"
  by (induction sys js a rule: main_loop.induct) (auto split: bind_splits)


section \<open>Errors\<close>

text \<open>C40: When the I2C device cannot be opened, initialising the sensor driver ends in an access through a
  null pointer: the error path passes the null pointer on to \<^verbatim>\<open>lib_i2c_deinit\<close>, which reads the
  descriptor from it before it looks whether there is a structure.\<close>

theorem imu_open_failure_undefined:
  assumes "sys_open sys (Some IMU_I2C_DEV_PATH) 1 (osys a) = Some (fd, s)" "fd < 0"
  shows "drv_imu_init sys a = None"
  using assms by (auto simp: drv_imu_init_def imu_init_def lib_i2c_open_def lib_i2c_deinit_def lib_at_def poke_def Let_def split: bind_splits)

text \<open>A program as it is after loading, on the heap of the board after the start of the system; and a
  system without devices.\<close>

definition zero_params :: mpu_params where
  "zero_params = \<lparr>acc_pitch = 0, acc_roll = 0, acc_yaw = 0, gyro_pitch = 0, gyro_roll = 0, gyro_yaw = 0,
     mag_pitch = 0, mag_roll = 0, mag_yaw = 0, angle_pitch = 0, angle_roll = 0, angle_yaw = 0\<rparr>"

definition loaded_imu :: "'s \<Rightarrow> 's imu" where
  "loaded_imu s = \<lparr>osys = s, uheap = started_heap, me = 3, imu_i2c = 0, imu_update = False, drv_imu_date = zero_params\<rparr>"

lemma loaded_imu_sel [simp]:
  "osys (loaded_imu s) = s" "uheap (loaded_imu s) = started_heap" "me (loaded_imu s) = 3"
  "drv_imu_date (loaded_imu s) = zero_params"
  by (simp_all add: loaded_imu_def)

definition no_devices :: "unit syscalls" where
  "no_devices = \<lparr>sys_open = (\<lambda>_ _ s. Some (- 1, s)), sys_close = (\<lambda>_ s. Some (- 1, s)), sys_ioctl = (\<lambda>_ _ arg s. Some (- 1, arg, s))\<rparr>"

theorem imu_open_failure_undefined_witness:
  "drv_imu_init no_devices (loaded_imu ()) = None"
  by (rule imu_open_failure_undefined [where fd = "- 1" and s = "()"]) (simp_all add: no_devices_def)

text \<open>C6: Decoding a sample of the sensor loses nothing.  For every content of the twelve registers the values
  that the driver stores in single precision, after double precision arithmetic, are exactly the scaled contents
  of the registers: 16 g, 2000 degrees per second and 180 degrees at full scale, pitch from the X axis, roll from
  the Y axis, yaw from the Z axis with the sign turned around.  The angle of pitch comes from the register named
  \<^verbatim>\<open>Roll\<close> and the angle of roll from the register named \<^verbatim>\<open>Pitch\<close>.\<close>

theorem imu_sample_exact:
  assumes "length ws = 12"
  shows "decode_sample (sample_bytes ws @ rest) = exact_sample ws"
  using assms by (rule decode_encoded)

theorem imu_sample_exact_witness:
  "acc_yaw (decode_sample (sample_bytes [0, 1, 0x8000, 3, 4, 5, 6, 7, 8, 9, 10, 0x7fff] @ replicate 6 0)) = 16 \<and>
   angle_pitch (decode_sample (sample_bytes [0, 1, 0x8000, 3, 4, 5, 6, 7, 8, 0x4000, 10, 0x7fff] @ replicate 6 0)) = 90"
  by (subst imu_sample_exact, simp)+ (simp add: exact_sample_def reg_value_def Let_def)

text \<open>C39: Opening the I2C library destroys the heap.  The block that \<^verbatim>\<open>lib_i2c_open\<close> allocates has the size of a
  pointer, four bytes, and the chunk behind it has eight; whenever it returns a structure it has stored the address,
  cut to eight bits, at offset 4 and the descriptor at offset 8, where the size of the next chunk was.  As a
  descriptor of a task is below 8 and so no size of a chunk, nothing the memory can be taken for is a heap in order.\<close>

theorem lib_i2c_open_overruns:
  assumes "lib_i2c_open sys path hz adr a = Some (p, a')" "p \<noteq> 0" "mm_ok R (uheap a)" "me a \<noteq> NO_HOLDER"
  shows "\<exists>heap m R1 fd s. umm_malloc (me a) 4 (uheap a) = Some (p, heap, m) \<and> mm_ok R1 (heap, m) \<and> (p, 8) \<in> blocks R1 \<and>
     sys_open sys (Some path) 1 (osys a) = Some (fd, s) \<and>
     uheap a' = (heap, st_int (p + 8) fd (st16 (p + 4) (unat (take_bit 8 adr)) (st p (unat hz) m))) \<and>
     (fd < 8 \<longrightarrow> nsize (p + 8) (memory a') = nat fd \<and> (\<forall>R'. \<not> mm_ok R' (uheap a')))"
proof -
  obtain heap0 m0 where h: "uheap a = (heap0, m0)" by fastforce
  obtain heap m R1 where m: "umm_malloc (me a) 4 (uheap a) = Some (p, heap, m)" "mm_ok R1 (heap, m)" "(p, 8) \<in> blocks R1"
    unfolding h by (rule malloc_4 [OF assms(3) [unfolded h] assms(4)])
      (use assms(1,2) h in \<open>auto simp: lib_i2c_open_def Let_def split: bind_splits if_splits\<close>)
  obtain fd s where o: "sys_open sys (Some path) 1 (osys a) = Some (fd, s)" "0 \<le> fd"
    using assms(1,2) m(1) by (auto simp: lib_i2c_open_def poke_def Let_def split: bind_splits if_splits)
  have a': "uheap a' = (heap, put_lib p hz adr fd m)"
    using assms(1) lib_i2c_open_eq [OF m(1) assms(2) o, of hz adr] by auto
  have sz: "nsize (p + 8) (put_lib p hz adr fd m) = nat fd" if "fd < 8"
    using that o(2) by (simp add: nsize_def put_lib_def st_int_def)
  have "\<not> mm_ok R' (heap, put_lib p hz adr fd m)" if "fd < 8" for R'
  proof (rule size_overwritten [OF m(2,3)])
    show "\<forall>x < p. put_lib p hz adr fd m x = m x" by (auto simp: put_lib_def st_int_def st_def st16_def)
  qed (use sz [OF that] that o(2) in auto)
  then show ?thesis using m o(1) a' sz by (intro exI [of _ heap] exI [of _ m] exI [of _ R1] exI [of _ fd] exI [of _ s]) (auto simp: put_lib_def)
qed

definition one_device :: "unit syscalls" where
  "one_device = \<lparr>sys_open = (\<lambda>_ _ s. Some (3, s)), sys_close = (\<lambda>_ s. Some (0, s)), sys_ioctl = (\<lambda>_ _ arg s. Some (0, arg, s))\<rparr>"

theorem lib_i2c_open_overruns_witness:
  "\<exists>p a'. lib_i2c_open one_device IMU_I2C_DEV_PATH 400000 0x3aa (loaded_imu ()) = Some (p, a') \<and>
     nsize (p + 8) (memory a') = 3 \<and> ld16 (p + 4) (memory a') = 0xaa \<and> (\<forall>R'. \<not> mm_ok R' (uheap a'))"
proof -
  obtain heap m where h: "started_heap = (heap, m)" by fastforce
  obtain p heap' m1 where m: "umm_malloc 3 4 started_heap = Some (p, heap', m1)" "p \<noteq> 0"
    unfolding h by (rule malloc_4 [OF started_heap_ok(2) [unfolded h], of 3]) (use started_heap_ok(3) in auto)
  obtain a' where a': "lib_i2c_open one_device IMU_I2C_DEV_PATH 400000 0x3aa (loaded_imu ()) = Some (p, a')"
    using lib_i2c_open_eq [of "loaded_imu ()" p heap' m1 one_device IMU_I2C_DEV_PATH 3] m by (simp add: one_device_def)
  have "\<exists>heap m. uheap a' = (heap, st_int (p + 8) 3 (st16 (p + 4) (unat (take_bit 8 (0x3aa :: u16))) (st p (unat (400000 :: u32)) m))) \<and>
     nsize (p + 8) (memory a') = 3 \<and> (\<forall>R'. \<not> mm_ok R' (uheap a'))"
    using lib_i2c_open_overruns [OF a' m(2), of "board_regions 0x20001000"] started_heap_ok(2) by (auto simp: one_device_def)
  then show ?thesis using a' by (auto simp: st_int_def ld16_st_other)
qed

end
