(* ===== verification/Mmio.thy ===== *)
theory Mmio
  imports Prelude
begin

text \<open>
  Memory mapped registers.  The microcontroller state holds the content of every register
  address and the reaction of the peripherals to a store: \<^verbatim>\<open>react a v r\<close> is the register
  content after the value v has been stored at address a, where r already has v at a.  The
  reaction is a parameter of the model; what the reference manual documents of it enters the
  theorems as hypotheses such as \<^verbatim>\<open>storage m a\<close> (a store to a changes that register only).
  The accessors follow \<^verbatim>\<open>arch/arm/src/common/up_arch.h\<close>, \<^verbatim>\<open>up_modifyreg16.c\<close> and
  \<^verbatim>\<open>up_modifyreg32.c\<close>.
\<close>

section \<open>Model\<close>

record mcu =
  regs :: "u32 \<Rightarrow> u32"
  react :: "u32 \<Rightarrow> u32 \<Rightarrow> (u32 \<Rightarrow> u32) \<Rightarrow> u32 \<Rightarrow> u32"

definition getreg32 :: "u32 \<Rightarrow> mcu \<Rightarrow> u32" where
  "getreg32 a m = regs m a"

definition putreg32 :: "u32 \<Rightarrow> u32 \<Rightarrow> mcu \<Rightarrow> mcu" where
  "putreg32 v a m = m\<lparr>regs := react m a v ((regs m)(a := v))\<rparr>"

text \<open>A halfword access at a word aligned address touches the lower half of the register.\<close>

definition getreg16 :: "u32 \<Rightarrow> mcu \<Rightarrow> u16" where
  "getreg16 a m = ucast (regs m a)"

definition putreg16 :: "u16 \<Rightarrow> u32 \<Rightarrow> mcu \<Rightarrow> mcu" where
  "putreg16 v a m = putreg32 (push_bit 16 (drop_bit 16 (regs m a)) OR ucast v) a m"

definition modifyreg32 :: "u32 \<Rightarrow> u32 \<Rightarrow> u32 \<Rightarrow> mcu \<Rightarrow> mcu" where
  "modifyreg32 addr clearbits setbits m =
     (let regval = getreg32 addr m;
          regval = regval AND NOT clearbits;
          regval = regval OR setbits
      in putreg32 regval addr m)"

definition modifyreg16 :: "u32 \<Rightarrow> u16 \<Rightarrow> u16 \<Rightarrow> mcu \<Rightarrow> mcu" where
  "modifyreg16 addr clearbits setbits m =
     (let regval = getreg16 addr m;
          regval = regval AND NOT clearbits;
          regval = regval OR setbits
      in putreg16 regval addr m)"

definition storage :: "mcu \<Rightarrow> u32 \<Rightarrow> bool" where
  "storage m a \<longleftrightarrow> (\<forall>v r. react m a v r = r)"

text \<open>The field of n bits at shift s.  The drivers replace a field by the sequence
  \<^verbatim>\<open>regval &= ~mask; regval |= value << s\<close>.\<close>

definition field :: "nat \<Rightarrow> nat \<Rightarrow> u32 \<Rightarrow> u32" where
  "field s n w = take_bit n (drop_bit s w)"

section \<open>Laws\<close>

named_theorems mmio_simps

lemma react_putreg [simp]:
  "react (putreg32 v a m) = react m"
  "react (putreg16 w a m) = react m"
  "react (modifyreg32 a c s m) = react m"
  "react (modifyreg16 a c' s' m) = react m"
  by (simp_all add: putreg32_def putreg16_def modifyreg32_def modifyreg16_def Let_def)

lemma storage_cong: "react m' = react m \<Longrightarrow> storage m' a = storage m a"
  by (simp add: storage_def)

lemma storage_putreg [simp]:
  "storage (putreg32 v b m) a = storage m a"
  "storage (putreg16 w b m) a = storage m a"
  "storage (modifyreg32 b c s m) a = storage m a"
  "storage (modifyreg16 b c' s' m) a = storage m a"
  by (simp_all add: storage_def)

lemma getreg32_putreg32 [mmio_simps]:
  "storage m b \<Longrightarrow> getreg32 a (putreg32 v b m) = (if a = b then v else getreg32 a m)"
  by (simp add: getreg32_def putreg32_def storage_def)

lemma getreg16_putreg32 [mmio_simps]:
  "storage m b \<Longrightarrow> getreg16 a (putreg32 v b m) = (if a = b then ucast v else getreg16 a m)"
  by (simp add: getreg16_def putreg32_def storage_def)

lemma ucast_low_half: "ucast (push_bit 16 (x :: u32) OR ucast v) = (v :: u16)"
  by (rule bit_word_eqI) (auto simp: bit_simps)

lemma getreg16_putreg16 [mmio_simps]:
  "storage m b \<Longrightarrow> getreg16 a (putreg16 v b m) = (if a = b then v else getreg16 a m)"
  by (simp add: putreg16_def getreg16_putreg32 ucast_low_half)

lemma getreg32_putreg16_other [mmio_simps]:
  "storage m b \<Longrightarrow> a \<noteq> b \<Longrightarrow> getreg32 a (putreg16 v b m) = getreg32 a m"
  by (simp add: putreg16_def getreg32_putreg32)

lemma getreg32_modifyreg32 [mmio_simps]:
  "storage m b \<Longrightarrow> getreg32 a (modifyreg32 b c s m) =
     (if a = b then (getreg32 b m AND NOT c) OR s else getreg32 a m)"
  by (simp add: modifyreg32_def Let_def getreg32_putreg32)

lemma getreg16_modifyreg32_other [mmio_simps]:
  "storage m b \<Longrightarrow> a \<noteq> b \<Longrightarrow> getreg16 a (modifyreg32 b c s m) = getreg16 a m"
  by (simp add: modifyreg32_def Let_def getreg16_putreg32)

lemma getreg16_modifyreg16 [mmio_simps]:
  "storage m b \<Longrightarrow> getreg16 a (modifyreg16 b c s m) =
     (if a = b then (getreg16 b m AND NOT c) OR s else getreg16 a m)"
  by (simp add: modifyreg16_def Let_def getreg16_putreg16)

lemma getreg32_modifyreg16_other [mmio_simps]:
  "storage m b \<Longrightarrow> a \<noteq> b \<Longrightarrow> getreg32 a (modifyreg16 b c s m) = getreg32 a m"
  by (simp add: modifyreg16_def Let_def getreg32_putreg16_other)

section \<open>Bit fields\<close>

lemma bit_field [simp]: "bit (field s n w) i \<longleftrightarrow> i < n \<and> bit w (s + i)"
  by (auto simp: field_def bit_simps)

lemma field_insert_same:
  "s + n \<le> 32 \<Longrightarrow> take_bit n v = v \<Longrightarrow>
   field s n ((w AND NOT (push_bit s (mask n))) OR push_bit s v) = v"
proof (rule bit_word_eqI)
  fix i assume "s + n \<le> 32" "take_bit n v = v" "i < LENGTH(32)"
  moreover have "bit v i = (bit v i \<and> i < n)"
    using \<open>take_bit n v = v\<close> by (metis bit_take_bit_iff)
  ultimately show "bit (field s n ((w AND NOT (push_bit s (mask n))) OR push_bit s v)) i = bit v i"
    by (auto simp: bit_simps)
qed

lemma field_insert_other:
  assumes "s' + n' \<le> s \<or> s + n \<le> s'" and "take_bit n v = v"
  shows "field s' n' ((w AND NOT (push_bit s (mask n))) OR push_bit s v) = field s' n' w"
proof (rule bit_word_eqI)
  fix i assume "i < LENGTH(32)"
  have v: "bit v j \<Longrightarrow> j < n" for j
    using assms(2) by (metis bit_take_bit_iff)
  show "bit (field s' n' ((w AND NOT (push_bit s (mask n))) OR push_bit s v)) i
      = bit (field s' n' w) i"
    using assms(1) v [of "s' + i - s"] by (auto simp: bit_simps dest: bit_imp_le_length)
qed

lemma and_or_and: "((x AND a) OR b) AND c = (x AND (a AND c)) OR (b AND (c :: u32))"
  by (rule bit_word_eqI) (auto simp: bit_simps)

end
