(* ===== verification/Gpio.thy ===== *)
theory Gpio
  imports Mmio
begin

text \<open>
  The GPIO configuration of the STM32F4 (\<^verbatim>\<open>arch/arm/src/stm32/stm32_gpio.c\<close> and
  \<^verbatim>\<open>stm32_gpio.h\<close>): a 20 bit pin description selects port, pin, mode, pull, alternate
  function, speed and output type; \<^verbatim>\<open>stm32_configgpio\<close> writes each setting into the field
  of the pin and leaves the fields of all other pins alone.
\<close>

section \<open>Pin descriptions\<close>

abbreviation (input) GPIO_MODE_MASK :: u32 where "GPIO_MODE_MASK \<equiv> 0xc0000"
abbreviation (input) GPIO_INPUT :: u32 where "GPIO_INPUT \<equiv> 0"
abbreviation (input) GPIO_OUTPUT :: u32 where "GPIO_OUTPUT \<equiv> 0x40000"
abbreviation (input) GPIO_ALT :: u32 where "GPIO_ALT \<equiv> 0x80000"
abbreviation (input) GPIO_ANALOG :: u32 where "GPIO_ANALOG \<equiv> 0xc0000"
abbreviation (input) GPIO_PUPD_MASK :: u32 where "GPIO_PUPD_MASK \<equiv> 0x30000"
abbreviation (input) GPIO_FLOAT :: u32 where "GPIO_FLOAT \<equiv> 0"
abbreviation (input) GPIO_PULLUP :: u32 where "GPIO_PULLUP \<equiv> 0x10000"
abbreviation (input) GPIO_PULLDOWN :: u32 where "GPIO_PULLDOWN \<equiv> 0x20000"
abbreviation (input) GPIO_AF_MASK :: u32 where "GPIO_AF_MASK \<equiv> 0xf000"
abbreviation (input) GPIO_AF1 :: u32 where "GPIO_AF1 \<equiv> 0x1000"
abbreviation (input) GPIO_SPEED_MASK :: u32 where "GPIO_SPEED_MASK \<equiv> 0xc00"
abbreviation (input) GPIO_SPEED_2MHz :: u32 where "GPIO_SPEED_2MHz \<equiv> 0"
abbreviation (input) GPIO_SPEED_25MHz :: u32 where "GPIO_SPEED_25MHz \<equiv> 0x400"
abbreviation (input) GPIO_SPEED_50MHz :: u32 where "GPIO_SPEED_50MHz \<equiv> 0x800"
abbreviation (input) GPIO_SPEED_100MHz :: u32 where "GPIO_SPEED_100MHz \<equiv> 0xc00"
abbreviation (input) GPIO_OPENDRAIN :: u32 where "GPIO_OPENDRAIN \<equiv> 0x200"
abbreviation (input) GPIO_PUSHPULL :: u32 where "GPIO_PUSHPULL \<equiv> 0"
abbreviation (input) GPIO_OUTPUT_SET :: u32 where "GPIO_OUTPUT_SET \<equiv> 0x100"
abbreviation (input) GPIO_EXTI :: u32 where "GPIO_EXTI \<equiv> 0x100"
abbreviation (input) GPIO_PORT_MASK :: u32 where "GPIO_PORT_MASK \<equiv> 0xf0"
abbreviation (input) GPIO_PORTA :: u32 where "GPIO_PORTA \<equiv> 0"
abbreviation (input) GPIO_PIN_MASK :: u32 where "GPIO_PIN_MASK \<equiv> 0xf"

abbreviation (input) STM32_GPIO_MODER_OFFSET :: u32 where "STM32_GPIO_MODER_OFFSET \<equiv> 0"
abbreviation (input) STM32_GPIO_OTYPER_OFFSET :: u32 where "STM32_GPIO_OTYPER_OFFSET \<equiv> 4"
abbreviation (input) STM32_GPIO_OSPEED_OFFSET :: u32 where "STM32_GPIO_OSPEED_OFFSET \<equiv> 8"
abbreviation (input) STM32_GPIO_PUPDR_OFFSET :: u32 where "STM32_GPIO_PUPDR_OFFSET \<equiv> 0xc"
abbreviation (input) STM32_GPIO_IDR_OFFSET :: u32 where "STM32_GPIO_IDR_OFFSET \<equiv> 0x10"
abbreviation (input) STM32_GPIO_BSRR_OFFSET :: u32 where "STM32_GPIO_BSRR_OFFSET \<equiv> 0x18"
abbreviation (input) STM32_GPIO_AFRL_OFFSET :: u32 where "STM32_GPIO_AFRL_OFFSET \<equiv> 0x20"
abbreviation (input) STM32_GPIO_AFRH_OFFSET :: u32 where "STM32_GPIO_AFRH_OFFSET \<equiv> 0x24"

text \<open>The STM32F405RG has nine ports, A to I.\<close>

definition g_gpiobase :: "u32 list" where
  "g_gpiobase = [0x40020000, 0x40020400, 0x40020800, 0x40020C00, 0x40021000, 0x40021400,
                 0x40021800, 0x40021C00, 0x40022000]"

abbreviation (input) STM32_NGPIO_PORTS :: nat where "STM32_NGPIO_PORTS \<equiv> 9"

definition gpio_port :: "u32 \<Rightarrow> nat" where
  "gpio_port cfgset = unat (drop_bit 4 (cfgset AND GPIO_PORT_MASK))"

definition gpio_pin :: "u32 \<Rightarrow> nat" where
  "gpio_pin cfgset = unat (cfgset AND GPIO_PIN_MASK)"

definition STM32_SYSCFG_EXTICR :: "nat \<Rightarrow> u32" where
  "STM32_SYSCFG_EXTICR p = 0x40013800 + (0x0008 + (of_nat p AND 0x000c))"

section \<open>Operations\<close>

definition stm32_gpiowrite :: "u32 \<Rightarrow> bool \<Rightarrow> mcu \<Rightarrow> mcu" where
  "stm32_gpiowrite pinset value m =
     (let port = gpio_port pinset
      in if port < STM32_NGPIO_PORTS
         then let base = g_gpiobase ! port;
                  pin = gpio_pin pinset;
                  bitv = (if value then push_bit pin 1 else push_bit (pin + 16) 1)
              in putreg32 bitv (base + STM32_GPIO_BSRR_OFFSET) m
         else m)"

definition stm32_gpioread :: "u32 \<Rightarrow> mcu \<Rightarrow> bool" where
  "stm32_gpioread pinset m =
     (let port = gpio_port pinset
      in if port < STM32_NGPIO_PORTS
         then let base = g_gpiobase ! port; pin = gpio_pin pinset
              in getreg32 (base + STM32_GPIO_IDR_OFFSET) m AND push_bit pin 1 \<noteq> 0
         else False)"

text \<open>The settings that \<^verbatim>\<open>stm32_configgpio\<close> computes from the pin description by its switch
  statements.\<close>

definition config_pinmode :: "u32 \<Rightarrow> u32" where
  "config_pinmode cfgset =
     (let mode = cfgset AND GPIO_MODE_MASK
      in if mode = GPIO_OUTPUT then 1 else if mode = GPIO_ALT then 2
         else if mode = GPIO_ANALOG then 3 else 0)"

definition config_pupd :: "u32 \<Rightarrow> u32" where
  "config_pupd cfgset =
     (let pupd = cfgset AND GPIO_PUPD_MASK
      in if config_pinmode cfgset \<noteq> 3
         then if pupd = GPIO_PULLUP then 1 else if pupd = GPIO_PULLDOWN then 2 else 0
         else 0)"

definition config_af :: "u32 \<Rightarrow> u32" where
  "config_af cfgset =
     (if config_pinmode cfgset = 2 then drop_bit 12 (cfgset AND GPIO_AF_MASK) else 0)"

definition config_speed :: "u32 \<Rightarrow> u32" where
  "config_speed cfgset =
     (let speed = cfgset AND GPIO_SPEED_MASK; pinmode = config_pinmode cfgset
      in if pinmode = 1 \<or> pinmode = 2
         then if speed = GPIO_SPEED_25MHz then 1 else if speed = GPIO_SPEED_50MHz then 2
              else if speed = GPIO_SPEED_100MHz then 3 else 0
         else 0)"

definition config_opendrain :: "u32 \<Rightarrow> bool" where
  "config_opendrain cfgset =
     ((config_pinmode cfgset = 1 \<or> config_pinmode cfgset = 2) \<and> cfgset AND GPIO_OPENDRAIN \<noteq> 0)"

definition put_field :: "u32 \<Rightarrow> nat \<Rightarrow> nat \<Rightarrow> u32 \<Rightarrow> mcu \<Rightarrow> mcu" where
  "put_field addr s n setting m =
     (let regval = getreg32 addr m;
          regval = regval AND NOT (push_bit s (mask n));
          regval = regval OR push_bit s setting
      in putreg32 regval addr m)"

definition stm32_configgpio :: "u32 \<Rightarrow> mcu \<Rightarrow> int \<times> mcu" where
  "stm32_configgpio cfgset m =
     (let port = gpio_port cfgset
      in if \<not> port < STM32_NGPIO_PORTS then (- EINVAL, m)
         else
           let base = g_gpiobase ! port;
               pin = gpio_pin cfgset;
               pinmode = config_pinmode cfgset;
               m = (if cfgset AND GPIO_MODE_MASK = GPIO_OUTPUT
                    then stm32_gpiowrite cfgset (cfgset AND GPIO_OUTPUT_SET \<noteq> 0) m else m);
               m = put_field (base + STM32_GPIO_MODER_OFFSET) (2 * pin) 2 pinmode m;
               m = put_field (base + STM32_GPIO_PUPDR_OFFSET) (2 * pin) 2 (config_pupd cfgset) m;
               regoffset = (if pin < 8 then STM32_GPIO_AFRL_OFFSET else STM32_GPIO_AFRH_OFFSET);
               pos = (if pin < 8 then pin else pin - 8);
               m = put_field (base + regoffset) (4 * pos) 4 (config_af cfgset) m;
               m = put_field (base + STM32_GPIO_OSPEED_OFFSET) (2 * pin) 2 (config_speed cfgset) m;
               regval = getreg32 (base + STM32_GPIO_OTYPER_OFFSET) m;
               setting = push_bit pin 1;
               regval = (if config_opendrain cfgset then regval OR setting
                         else regval AND NOT setting);
               m = putreg32 regval (base + STM32_GPIO_OTYPER_OFFSET) m;
               m = (if pinmode \<noteq> 1 \<and> cfgset AND GPIO_EXTI \<noteq> 0
                    then put_field (STM32_SYSCFG_EXTICR pin) (4 * (pin mod 4)) 4 (of_nat port) m
                    else m)
           in (OK, m))"

definition stm32_unconfiggpio :: "u32 \<Rightarrow> mcu \<Rightarrow> int \<times> mcu" where
  "stm32_unconfiggpio cfgset m =
     stm32_configgpio ((cfgset AND (GPIO_PORT_MASK OR GPIO_PIN_MASK)) OR (GPIO_INPUT OR GPIO_FLOAT)) m"

text \<open>
  Documented behaviour of the port and SYSCFG registers: the configuration registers hold
  what is stored; a store to BSRR acts on the output data only.
\<close>

definition gpio_port_hw :: "mcu \<Rightarrow> u32 \<Rightarrow> bool" where
  "gpio_port_hw m b \<longleftrightarrow>
     (\<forall>off \<in> {0, 4, 8, 0xc, 0x20, 0x24}. storage m (b + off)) \<and>
     (\<forall>v r x. x \<notin> {b + 0x10, b + 0x14, b + 0x18} \<longrightarrow> react m (b + 0x18) v r x = r x)"

definition gpio_hw :: "mcu \<Rightarrow> bool" where
  "gpio_hw m \<longleftrightarrow> (\<forall>b \<in> set g_gpiobase. gpio_port_hw m b) \<and>
                 (\<forall>p < 16. storage m (STM32_SYSCFG_EXTICR p))"

definition ins_field :: "nat \<Rightarrow> nat \<Rightarrow> u32 \<Rightarrow> u32 \<Rightarrow> u32" where
  "ins_field s n v w = (w AND NOT (push_bit s (mask n))) OR push_bit s v"

text \<open>A microcontroller whose registers are all plain memory.\<close>

definition mem_mcu :: mcu where
  "mem_mcu = \<lparr>regs = (\<lambda>_. 0), react = (\<lambda>_ _ r. r)\<rparr>"

section \<open>Effect on the registers\<close>

lemma react_gpio [simp]:
  "react (put_field a s n v m) = react m"
  "react (stm32_gpiowrite c b m) = react m"
  "react (snd (stm32_configgpio c m)) = react m"
  by (simp_all add: put_field_def stm32_gpiowrite_def stm32_configgpio_def Let_def)

lemma gpio_hw_cong: "react m' = react m \<Longrightarrow> gpio_hw m' = gpio_hw m"
  by (simp add: gpio_hw_def gpio_port_hw_def storage_def)

lemma storage_gpio [simp]:
  "storage (put_field a s n v m) x = storage m x"
  "storage (stm32_gpiowrite c b m) x = storage m x"
  "storage (snd (stm32_configgpio c m)) x = storage m x"
  by (simp_all add: storage_def)

lemma getreg32_put_field [mmio_simps]:
  "storage m b \<Longrightarrow> getreg32 a (put_field b s n v m) =
     (if a = b then ins_field s n v (getreg32 b m) else getreg32 a m)"
  by (simp add: put_field_def Let_def getreg32_putreg32 ins_field_def)

lemma pin_lt [simp]: "gpio_pin c < 16"
proof -
  have "c AND 0xf \<le> 0xf" by (rule word_and_le1)
  then show ?thesis by (simp add: gpio_pin_def word_le_nat_alt)
qed

lemma nat_less_16_cases:
  "(p :: nat) < 16 \<Longrightarrow> p \<in> {0, 1, 2, 3, 4, 5, 6, 7, 8, 9, 10, 11, 12, 13, 14, 15}"
  by (simp, arith)

lemma exticr_range:
  "p < 16 \<Longrightarrow> STM32_SYSCFG_EXTICR p \<in> {0x40013808, 0x4001380c, 0x40013810, 0x40013814}"
  by (drule nat_less_16_cases) (auto simp: STM32_SYSCFG_EXTICR_def)

lemma exticr_not_port:
  "p < 16 \<Longrightarrow> b \<in> set g_gpiobase \<Longrightarrow> off \<in> {0, 4, 8, 0xc, 0x20, 0x24} \<Longrightarrow>
   STM32_SYSCFG_EXTICR p \<noteq> b + off"
  by (drule exticr_range) (auto simp: g_gpiobase_def)

lemma gpio_base_in [simp]: "gpio_port c < 9 \<Longrightarrow> g_gpiobase ! gpio_port c \<in> set g_gpiobase"
  by (rule nth_mem) (simp add: g_gpiobase_def)

lemma getreg32_gpiowrite:
  assumes "gpio_hw m" "off \<in> {0, 4, 8, 0xc, 0x20, 0x24}" "gpio_port c < 9"
  shows "getreg32 (g_gpiobase ! gpio_port c + off) (stm32_gpiowrite c v m)
       = getreg32 (g_gpiobase ! gpio_port c + off) m"
proof -
  have "gpio_port_hw m (g_gpiobase ! gpio_port c)"
    using assms by (simp add: gpio_hw_def)
  then show ?thesis
    using assms(2,3) by (auto simp: gpio_port_hw_def stm32_gpiowrite_def Let_def getreg32_def putreg32_def)
qed

lemma take_bit_small: "v \<in> {0, 1, 2, 3} \<Longrightarrow> take_bit 2 v = (v :: u32)"
  by auto

lemma config_ranges [simp]:
  "take_bit 2 (config_pinmode c) = config_pinmode c"
  "take_bit 2 (config_pupd c) = config_pupd c"
  "take_bit 2 (config_speed c) = config_speed c"
  by (auto simp: config_pinmode_def config_pupd_def config_speed_def Let_def)

lemma config_af_range [simp]: "take_bit 4 (config_af c) = config_af c"
proof -
  have "drop_bit 12 (c AND 0xf000) = take_bit 4 (drop_bit 12 c)"
    by (simp add: drop_bit_and take_bit_eq_mask mask_eq_exp_minus_1)
  then show ?thesis by (simp add: config_af_def)
qed

text \<open>Every configuration register of the port after a call, as the old content with the field
  of the pin replaced.\<close>

lemma configgpio_regs:
  assumes hw: "gpio_hw m" and port: "gpio_port c < 9"
  defines "b \<equiv> g_gpiobase ! gpio_port c" and "m' \<equiv> snd (stm32_configgpio c m)"
  shows "getreg32 b m' = ins_field (2 * gpio_pin c) 2 (config_pinmode c) (getreg32 b m)"
    and "getreg32 (b + 0xc) m' = ins_field (2 * gpio_pin c) 2 (config_pupd c) (getreg32 (b + 0xc) m)"
    and "getreg32 (b + 8) m' = ins_field (2 * gpio_pin c) 2 (config_speed c) (getreg32 (b + 8) m)"
    and "getreg32 (b + 0x20) m' =
           (if gpio_pin c < 8 then ins_field (4 * gpio_pin c) 4 (config_af c) (getreg32 (b + 0x20) m)
            else getreg32 (b + 0x20) m)"
    and "getreg32 (b + 0x24) m' =
           (if gpio_pin c < 8 then getreg32 (b + 0x24) m
            else ins_field (4 * (gpio_pin c - 8)) 4 (config_af c) (getreg32 (b + 0x24) m))"
    and "getreg32 (b + 4) m' =
           (if config_opendrain c then getreg32 (b + 4) m OR push_bit (gpio_pin c) 1
            else getreg32 (b + 4) m AND NOT (push_bit (gpio_pin c) 1))"
proof -
  have b: "b \<in> set g_gpiobase" using port by (simp add: b_def)
  have st: "storage m b" "storage m (b + 4)" "storage m (b + 8)" "storage m (b + 0xc)"
      "storage m (b + 0x20)" "storage m (b + 0x24)" "storage m (STM32_SYSCFG_EXTICR (gpio_pin c))"
    using hw b by (auto simp: gpio_hw_def gpio_port_hw_def)
  have ne: "b + off \<noteq> STM32_SYSCFG_EXTICR (gpio_pin c)" if "off \<in> {0, 4, 8, 0xc, 0x20, 0x24}" for off
    using exticr_not_port [of "gpio_pin c" b off] b that by (metis pin_lt)
  have nes: "b + 4 \<noteq> STM32_SYSCFG_EXTICR (gpio_pin c)" "b + 8 \<noteq> STM32_SYSCFG_EXTICR (gpio_pin c)"
      "b + 0xc \<noteq> STM32_SYSCFG_EXTICR (gpio_pin c)" "b + 0x20 \<noteq> STM32_SYSCFG_EXTICR (gpio_pin c)"
      "b + 0x24 \<noteq> STM32_SYSCFG_EXTICR (gpio_pin c)" "b \<noteq> STM32_SYSCFG_EXTICR (gpio_pin c)"
    by (rule ne, simp)+ (use ne [of 0] in simp)
  have gw: "getreg32 (b + off) (stm32_gpiowrite c v m) = getreg32 (b + off) m"
    if "off \<in> {0, 4, 8, 0xc, 0x20, 0x24}" for off v
    unfolding b_def using getreg32_gpiowrite [OF hw that port] .
  have gws: "getreg32 (b + 4) (stm32_gpiowrite c v m) = getreg32 (b + 4) m"
      "getreg32 (b + 8) (stm32_gpiowrite c v m) = getreg32 (b + 8) m"
      "getreg32 (b + 0xc) (stm32_gpiowrite c v m) = getreg32 (b + 0xc) m"
      "getreg32 (b + 0x20) (stm32_gpiowrite c v m) = getreg32 (b + 0x20) m"
      "getreg32 (b + 0x24) (stm32_gpiowrite c v m) = getreg32 (b + 0x24) m"
      "getreg32 b (stm32_gpiowrite c v m) = getreg32 b m" for v
    by (rule gw, simp)+ (use gw [of 0] in simp)
  note facts = m'_def stm32_configgpio_def Let_def b_def [symmetric] port mmio_simps st nes gws
  show "getreg32 b m' = ins_field (2 * gpio_pin c) 2 (config_pinmode c) (getreg32 b m)"
    by (simp add: facts)
  show "getreg32 (b + 0xc) m' = ins_field (2 * gpio_pin c) 2 (config_pupd c) (getreg32 (b + 0xc) m)"
    by (simp add: facts)
  show "getreg32 (b + 8) m' = ins_field (2 * gpio_pin c) 2 (config_speed c) (getreg32 (b + 8) m)"
    by (simp add: facts)
  show "getreg32 (b + 0x20) m' =
           (if gpio_pin c < 8 then ins_field (4 * gpio_pin c) 4 (config_af c) (getreg32 (b + 0x20) m)
            else getreg32 (b + 0x20) m)"
    by (simp add: facts)
  show "getreg32 (b + 0x24) m' =
           (if gpio_pin c < 8 then getreg32 (b + 0x24) m
            else ins_field (4 * (gpio_pin c - 8)) 4 (config_af c) (getreg32 (b + 0x24) m))"
    by (simp add: facts)
  show "getreg32 (b + 4) m' =
           (if config_opendrain c then getreg32 (b + 4) m OR push_bit (gpio_pin c) 1
            else getreg32 (b + 4) m AND NOT (push_bit (gpio_pin c) 1))"
    by (simp add: facts)
qed

lemma port_address_range:
  "b \<in> set g_gpiobase \<Longrightarrow> off \<le> 0x24 \<Longrightarrow> 0x40020000 \<le> b + off \<and> b + off < 0x40023800"
proof -
  assume b: "b \<in> set g_gpiobase" and off: "off \<le> 0x24"
  have u: "0x40020000 \<le> unat b" "unat b \<le> 0x40022000"
    using b by (auto simp: g_gpiobase_def)
  have "unat off \<le> 0x24" using off by (simp add: word_le_nat_alt)
  moreover from this u have "unat (b + off) = unat b + unat off"
    by (intro unat_add_no_wrap) simp
  ultimately show ?thesis using u by (simp add: word_le_nat_alt word_less_nat_alt)
qed

lemma getreg32_configgpio_other:
  assumes hw: "gpio_hw m" and a: "a < 0x40013800 \<or> 0x40023800 \<le> a"
  shows "getreg32 a (snd (stm32_configgpio c m)) = getreg32 a m"
proof (cases "gpio_port c < 9")
  case False
  then show ?thesis by (simp add: stm32_configgpio_def)
next
  case True
  define b where "b = g_gpiobase ! gpio_port c"
  have b: "b \<in> set g_gpiobase" using True by (simp add: b_def)
  have st: "storage m b" "storage m (b + 4)" "storage m (b + 8)" "storage m (b + 0xc)"
      "storage m (b + 0x20)" "storage m (b + 0x24)" "storage m (STM32_SYSCFG_EXTICR (gpio_pin c))"
    using hw b by (auto simp: gpio_hw_def gpio_port_hw_def)
  have ne: "a \<noteq> b + off" if "off \<le> 0x24" for off
  proof
    assume "a = b + off"
    then have "0x40020000 \<le> unat a" "unat a < 0x40023800"
      using port_address_range [OF b that] by (simp_all add: word_le_nat_alt word_less_nat_alt)
    then show False using a by (simp add: word_le_nat_alt word_less_nat_alt)
  qed
  have nes: "a \<noteq> b + 4" "a \<noteq> b + 8" "a \<noteq> b + 0xc" "a \<noteq> b + 0x10" "a \<noteq> b + 0x14" "a \<noteq> b + 0x18"
      "a \<noteq> b + 0x20" "a \<noteq> b + 0x24" "a \<noteq> b"
    by (rule ne, simp)+ (use ne [of 0] in simp)
  have ex: "a \<noteq> STM32_SYSCFG_EXTICR (gpio_pin c)"
    using exticr_range [OF pin_lt [of c]] a by auto
  have gw: "getreg32 a (stm32_gpiowrite c v m) = getreg32 a m" for v
    using hw b nes True by (auto simp: gpio_hw_def gpio_port_hw_def stm32_gpiowrite_def Let_def
        getreg32_def putreg32_def b_def)
  show ?thesis
    using True by (simp add: stm32_configgpio_def Let_def b_def [symmetric] mmio_simps st nes ex gw)
qed

lemma field_ins_field:
  "s + n \<le> 32 \<Longrightarrow> take_bit n v = v \<Longrightarrow> field s n (ins_field s n v w) = v"
  "s' + n' \<le> s \<or> s + n \<le> s' \<Longrightarrow> take_bit n v = v \<Longrightarrow> field s' n' (ins_field s n v w) = field s' n' w"
  by (simp_all add: ins_field_def field_insert_same field_insert_other)

lemma field_disjoint:
  "i \<noteq> j \<Longrightarrow> 2 * i + 2 \<le> 2 * j \<or> 2 * j + (2 :: nat) \<le> 2 * i"
  by arith

text \<open>The alternate function register of a pin.\<close>

definition AFR :: "nat \<Rightarrow> u32" where
  "AFR i = (if i < 8 then STM32_GPIO_AFRL_OFFSET else STM32_GPIO_AFRH_OFFSET)"

lemma exticr_same: "p < 16 \<Longrightarrow> q < 16 \<Longrightarrow> STM32_SYSCFG_EXTICR p = STM32_SYSCFG_EXTICR q \<longleftrightarrow> p div 4 = q div 4"
  by (drule nat_less_16_cases, drule nat_less_16_cases) (auto simp: STM32_SYSCFG_EXTICR_def)

lemma getreg32_gpiowrite_far:
  assumes "gpio_hw m" "\<forall>off \<in> {0x10, 0x14, 0x18}. \<forall>b \<in> set g_gpiobase. a \<noteq> b + off"
  shows "getreg32 a (stm32_gpiowrite c v m) = getreg32 a m"
proof (cases "gpio_port c < 9")
  case True
  then show ?thesis
    using assms by (auto simp: gpio_hw_def gpio_port_hw_def stm32_gpiowrite_def Let_def getreg32_def putreg32_def)
qed (simp add: stm32_gpiowrite_def)

lemma exticr_far: "p < 16 \<Longrightarrow> \<forall>off \<in> {0x10, 0x14, 0x18}. \<forall>b \<in> set g_gpiobase. STM32_SYSCFG_EXTICR p \<noteq> b + off"
  by (drule exticr_range) (auto simp: g_gpiobase_def)

lemma configgpio_exticr:
  assumes hw: "gpio_hw m" and port: "gpio_port c < 9" and p: "p < 16"
  shows "getreg32 (STM32_SYSCFG_EXTICR p) (snd (stm32_configgpio c m)) =
    (if config_pinmode c \<noteq> 1 \<and> c AND GPIO_EXTI \<noteq> 0 \<and> p div 4 = gpio_pin c div 4
     then ins_field (4 * (gpio_pin c mod 4)) 4 (of_nat (gpio_port c)) (getreg32 (STM32_SYSCFG_EXTICR p) m)
     else getreg32 (STM32_SYSCFG_EXTICR p) m)"
proof -
  define b where "b = g_gpiobase ! gpio_port c"
  define a where "a = STM32_SYSCFG_EXTICR p"
  have b: "b \<in> set g_gpiobase" using port by (simp add: b_def)
  have st: "storage m b" "storage m (b + 4)" "storage m (b + 8)" "storage m (b + 0xc)"
      "storage m (b + 0x20)" "storage m (b + 0x24)" "storage m (STM32_SYSCFG_EXTICR (gpio_pin c))"
    using hw b by (auto simp: gpio_hw_def gpio_port_hw_def)
  have ne: "a \<noteq> b + off" if "off \<in> {0, 4, 8, 0xc, 0x20, 0x24}" for off
    using exticr_not_port [OF p b that] by (simp add: a_def)
  have nes: "a \<noteq> b + 4" "a \<noteq> b + 8" "a \<noteq> b + 0xc" "a \<noteq> b + 0x20" "a \<noteq> b + 0x24" "a \<noteq> b"
    by (rule ne, simp)+ (use ne [of 0] in simp)
  have gw: "getreg32 a (stm32_gpiowrite c v m) = getreg32 a m" for v
    unfolding a_def by (rule getreg32_gpiowrite_far [OF hw exticr_far [OF p]])
  have same: "STM32_SYSCFG_EXTICR (gpio_pin c) = a \<longleftrightarrow> p div 4 = gpio_pin c div 4"
    using exticr_same [OF p pin_lt [of c]] by (auto simp: a_def)
  show ?thesis
  proof (cases "p div 4 = gpio_pin c div 4")
    case True
    then have "STM32_SYSCFG_EXTICR (gpio_pin c) = a" using same by simp
    note eq = this and st' = st(7) [unfolded this]
    show ?thesis unfolding a_def [symmetric]
      using port True by (simp add: stm32_configgpio_def Let_def b_def [symmetric] mmio_simps st(1-6) st' eq nes gw)
  next
    case False
    then have "a \<noteq> STM32_SYSCFG_EXTICR (gpio_pin c)" using same by simp
    then show ?thesis unfolding a_def [symmetric]
      using port False by (simp add: stm32_configgpio_def Let_def b_def [symmetric] mmio_simps st nes gw)
  qed
qed

lemma base_offset_unique:
  "b \<in> set g_gpiobase \<Longrightarrow> b' \<in> set g_gpiobase \<Longrightarrow> b \<noteq> b' \<Longrightarrow> off \<le> 0x24 \<Longrightarrow> off' \<le> 0x24 \<Longrightarrow> b + off \<noteq> b' + off'"
proof
  assume b: "b \<in> set g_gpiobase" "b' \<in> set g_gpiobase" "b \<noteq> b'" and o: "off \<le> 0x24" "off' \<le> 0x24"
    and eq: "b + off = b' + off'"
  have un: "unat (x + y) = unat x + unat y" if "x \<in> set g_gpiobase" "y \<le> 0x24" for x y :: u32
    using that by (intro unat_add_no_wrap) (auto simp: g_gpiobase_def word_le_nat_alt)
  have "unat b + unat off = unat b' + unat off'" using eq un b o by metis
  moreover have "unat off \<le> 0x24" "unat off' \<le> 0x24" using o by (simp_all add: word_le_nat_alt)
  moreover have "unat b + 0x400 \<le> unat b' \<or> unat b' + 0x400 \<le> unat b"
    using b by (auto simp: g_gpiobase_def)
  ultimately show False by linarith
qed

lemma configgpio_other_port:
  assumes hw: "gpio_hw m" and port: "gpio_port c < 9"
    and b': "b' \<in> set g_gpiobase" "b' \<noteq> g_gpiobase ! gpio_port c" and off: "off \<in> {0, 4, 8, 0xc, 0x20, 0x24}"
  shows "getreg32 (b' + off) (snd (stm32_configgpio c m)) = getreg32 (b' + off) m"
proof -
  define b where "b = g_gpiobase ! gpio_port c"
  define a where "a = b' + off"
  have b: "b \<in> set g_gpiobase" using port by (simp add: b_def)
  have st: "storage m b" "storage m (b + 4)" "storage m (b + 8)" "storage m (b + 0xc)"
      "storage m (b + 0x20)" "storage m (b + 0x24)" "storage m (STM32_SYSCFG_EXTICR (gpio_pin c))"
    using hw b by (auto simp: gpio_hw_def gpio_port_hw_def)
  have o24: "off \<le> 0x24" using off by auto
  have ne: "a \<noteq> b + x" if "x \<le> 0x24" for x
    unfolding a_def by (rule base_offset_unique [OF b'(1) b _ o24 that]) (use b'(2) in \<open>simp add: b_def\<close>)
  have nes: "a \<noteq> b + 4" "a \<noteq> b + 8" "a \<noteq> b + 0xc" "a \<noteq> b + 0x10" "a \<noteq> b + 0x14" "a \<noteq> b + 0x18"
      "a \<noteq> b + 0x20" "a \<noteq> b + 0x24" "a \<noteq> b"
    by (rule ne, simp)+ (use ne [of 0] in simp)
  have ex: "a \<noteq> STM32_SYSCFG_EXTICR (gpio_pin c)"
    using exticr_not_port [OF pin_lt [of c] b'(1) off] by (simp add: a_def)
  have gw: "getreg32 a (stm32_gpiowrite c v m) = getreg32 a m" for v
    using hw b nes port by (auto simp: gpio_hw_def gpio_port_hw_def stm32_gpiowrite_def Let_def
        getreg32_def putreg32_def b_def)
  show ?thesis
    unfolding a_def [symmetric]
    using port by (simp add: stm32_configgpio_def Let_def b_def [symmetric] mmio_simps st nes ex gw)
qed

lemma port_field: "port < 9 \<Longrightarrow> take_bit 4 (of_nat port :: u32) = of_nat port"
proof -
  assume "port < 9"
  then have "port \<in> {0, 1, 2, 3, 4, 5, 6, 7, 8}" by (simp, arith)
  then show ?thesis by auto
qed

lemma nibble_disjoint: "i mod k \<noteq> j mod k \<Longrightarrow> 4 * (i mod k) + 4 \<le> 4 * (j mod k) \<or> 4 * (j mod k) + (4 :: nat) \<le> 4 * (i mod k)"
  by arith

lemma mod_8: "n < 16 \<Longrightarrow> n mod 8 = (if n < 8 then n else n - (8 :: nat))"
  by (drule nat_less_16_cases) auto

lemma configgpio_af:
  assumes hw: "gpio_hw m" and port: "gpio_port c < 9" and i: "i < 16"
  defines "b \<equiv> g_gpiobase ! gpio_port c"
  shows "field (4 * (i mod 8)) 4 (getreg32 (b + AFR i) (snd (stm32_configgpio c m))) =
    (if i = gpio_pin c then config_af c else field (4 * (i mod 8)) 4 (getreg32 (b + AFR i) m))"
proof -
  have n: "gpio_pin c < 16" by simp
  have same: "i = gpio_pin c \<longleftrightarrow> (i < 8 \<longleftrightarrow> gpio_pin c < 8) \<and> i mod 8 = gpio_pin c mod 8"
    using i n by (simp add: mod_8) linarith
  have pos: "(if gpio_pin c < 8 then gpio_pin c else gpio_pin c - 8) = gpio_pin c mod 8"
    using n by (simp add: mod_8)
  have r: "getreg32 (b + AFR i) (snd (stm32_configgpio c m)) =
     (if i < 8 \<longleftrightarrow> gpio_pin c < 8 then ins_field (4 * (gpio_pin c mod 8)) 4 (config_af c) (getreg32 (b + AFR i) m)
      else getreg32 (b + AFR i) m)"
    using configgpio_regs(4,5) [OF hw port, folded b_def] pos by (simp add: AFR_def split: if_splits)
  have w: "4 * (gpio_pin c mod 8) + 4 \<le> 32"
    using mod_less_divisor [of 8 "gpio_pin c"] by linarith
  show ?thesis
    using field_ins_field(1) [OF w config_af_range]
      field_ins_field(2) [OF nibble_disjoint [of i 8 "gpio_pin c"] config_af_range]
    by (auto simp: r same)
qed

lemma configgpio_exti:
  assumes hw: "gpio_hw m" and port: "gpio_port c < 9" and i: "i < 16"
  shows "field (4 * (i mod 4)) 4 (getreg32 (STM32_SYSCFG_EXTICR i) (snd (stm32_configgpio c m))) =
    (if i = gpio_pin c \<and> config_pinmode c \<noteq> 1 \<and> c AND GPIO_EXTI \<noteq> 0 then of_nat (gpio_port c)
     else field (4 * (i mod 4)) 4 (getreg32 (STM32_SYSCFG_EXTICR i) m))"
proof -
  have same: "i = gpio_pin c \<longleftrightarrow> i div 4 = gpio_pin c div 4 \<and> i mod 4 = gpio_pin c mod 4"
    by (metis div_mult_mod_eq)
  have w: "4 * (gpio_pin c mod 4) + 4 \<le> 32"
    using mod_less_divisor [of 4 "gpio_pin c"] by linarith
  show ?thesis
    using field_ins_field(1) [OF w port_field [OF port]]
      field_ins_field(2) [OF nibble_disjoint [of i 4 "gpio_pin c"] port_field [OF port]]
    by (auto simp: configgpio_exticr [OF assms] same)
qed

text \<open>C27: configuring one pin.  For a pin description with an existing port, \<^verbatim>\<open>stm32_configgpio\<close>
  puts mode, pull, speed, output type and alternate function of that pin to what the description
  encodes, connects the pin's external interrupt line to the port exactly when the description asks
  for it and the pin is no output, and leaves the fields of the fifteen other pins of the port, the
  interrupt selections of the other lines and the configuration registers of the other ports
  unchanged; for a port the chip does not have it returns EINVAL without touching a register.\<close>

theorem configgpio_one_pin:
  assumes "gpio_hw m"
  shows "let (ret, m') = stm32_configgpio c m; b = g_gpiobase ! gpio_port c; n = gpio_pin c
         in if gpio_port c < 9
            then ret = OK \<and>
                 field (2 * n) 2 (getreg32 b m') = config_pinmode c \<and>
                 field (2 * n) 2 (getreg32 (b + 0xc) m') = config_pupd c \<and>
                 field (2 * n) 2 (getreg32 (b + 8) m') = config_speed c \<and>
                 bit (getreg32 (b + 4) m') n = config_opendrain c \<and>
                 field (4 * (n mod 8)) 4 (getreg32 (b + AFR n) m') = config_af c \<and>
                 field (4 * (n mod 4)) 4 (getreg32 (STM32_SYSCFG_EXTICR n) m') =
                   (if config_pinmode c \<noteq> 1 \<and> c AND GPIO_EXTI \<noteq> 0 then of_nat (gpio_port c)
                    else field (4 * (n mod 4)) 4 (getreg32 (STM32_SYSCFG_EXTICR n) m)) \<and>
                 (\<forall>i < 16. i = n \<or>
                    (field (2 * i) 2 (getreg32 b m') = field (2 * i) 2 (getreg32 b m) \<and>
                     field (2 * i) 2 (getreg32 (b + 0xc) m') = field (2 * i) 2 (getreg32 (b + 0xc) m) \<and>
                     field (2 * i) 2 (getreg32 (b + 8) m') = field (2 * i) 2 (getreg32 (b + 8) m) \<and>
                     bit (getreg32 (b + 4) m') i = bit (getreg32 (b + 4) m) i \<and>
                     field (4 * (i mod 8)) 4 (getreg32 (b + AFR i) m') =
                       field (4 * (i mod 8)) 4 (getreg32 (b + AFR i) m) \<and>
                     field (4 * (i mod 4)) 4 (getreg32 (STM32_SYSCFG_EXTICR i) m') =
                       field (4 * (i mod 4)) 4 (getreg32 (STM32_SYSCFG_EXTICR i) m))) \<and>
                 (\<forall>b' \<in> set g_gpiobase. b' = b \<or>
                    (\<forall>off \<in> {0, 4, 8, 0xc, 0x20, 0x24}. getreg32 (b' + off) m' = getreg32 (b' + off) m))
            else ret = - EINVAL \<and> m' = m"
proof (cases "gpio_port c < 9")
  case True
  define m' where "m' = snd (stm32_configgpio c m)"
  note r = configgpio_regs [OF assms True, folded m'_def]
  note af = configgpio_af [OF assms True, folded m'_def] and ex = configgpio_exti [OF assms True, folded m'_def]
  have n: "2 * gpio_pin c + 2 \<le> 32" using pin_lt [of c] by linarith
  have other: "field (2 * i) 2 (ins_field (2 * gpio_pin c) 2 v w) = field (2 * i) 2 w"
    if "i \<noteq> gpio_pin c" "take_bit 2 v = v" for i v w
    using field_disjoint [OF that(1)] that(2) by (intro field_ins_field(2)) auto
  note same = field_ins_field(1) [OF n]
  have ot: "bit (getreg32 (g_gpiobase ! gpio_port c + 4) m') i =
      (if i = gpio_pin c then config_opendrain c else bit (getreg32 (g_gpiobase ! gpio_port c + 4) m) i)"
    if "i < 16" for i
    unfolding r(6) using that pin_lt [of c] by (auto simp: bit_or_iff bit_and_iff bit_not_iff bit_exp_iff
        intro: order.strict_trans)
  have ports: "\<forall>b' \<in> set g_gpiobase. b' = g_gpiobase ! gpio_port c \<or>
      (\<forall>off \<in> {0, 4, 8, 0xc, 0x20, 0x24}. getreg32 (b' + off) m' = getreg32 (b' + off) m)"
    using configgpio_other_port [OF assms True, folded m'_def] by blast
  have "fst (stm32_configgpio c m) = OK" using True by (simp add: stm32_configgpio_def Let_def)
  then show ?thesis
    unfolding split_beta Let_def m'_def [symmetric] if_P [OF True]
    using ports by (simp add: r(1-3) same other ot af ex)
next
  case False
  then show ?thesis by (simp add: stm32_configgpio_def)
qed

theorem configgpio_one_pin_witness:
  "gpio_hw mem_mcu \<and> fst (stm32_configgpio 0x81803 mem_mcu) = OK \<and>
   field 6 2 (getreg32 0x40020000 (snd (stm32_configgpio 0x81803 mem_mcu))) = 2 \<and>
   field 12 4 (getreg32 0x40020020 (snd (stm32_configgpio 0x81803 mem_mcu))) = 1"
proof -
  have hw: "gpio_hw mem_mcu" by (simp add: gpio_hw_def gpio_port_hw_def storage_def mem_mcu_def)
  have c: "gpio_port 0x81803 = 0" "gpio_pin 0x81803 = 3" "config_pinmode 0x81803 = 2"
      "config_af 0x81803 = 1" "g_gpiobase ! 0 = 0x40020000" "AFR 3 = 0x20"
    by (simp_all add: gpio_port_def gpio_pin_def config_pinmode_def config_af_def g_gpiobase_def AFR_def)
  show ?thesis
    using configgpio_one_pin [OF hw, of "0x81803"] hw by (simp add: split_beta Let_def c)
qed

end
