(* ===== verification/Stm32_Pwm.thy ===== *)
theory Stm32_Pwm
  imports Gpio Pwm_Types
begin

text \<open>
  The STM32 lower half of the PWM driver (\<^verbatim>\<open>arch/arm/src/stm32/stm32_pwm.c\<close>), in the
  configuration of the board: multichannel PWM, no pulse counting, no advanced timers, one
  PWM timer (TIM2, a 32 bit general purpose timer with four outputs).  The functions keep
  the names of the C functions; those that can index outside an array or divide by zero
  return an option.
\<close>

section \<open>Constants\<close>

abbreviation (input) TIMTYPE_BASIC :: u8 where "TIMTYPE_BASIC \<equiv> 0"
abbreviation (input) TIMTYPE_GENERAL16 :: u8 where "TIMTYPE_GENERAL16 \<equiv> 1"
abbreviation (input) TIMTYPE_COUNTUP16 :: u8 where "TIMTYPE_COUNTUP16 \<equiv> 2"
abbreviation (input) TIMTYPE_COUNTUP16_N :: u8 where "TIMTYPE_COUNTUP16_N \<equiv> 3"
abbreviation (input) TIMTYPE_GENERAL32 :: u8 where "TIMTYPE_GENERAL32 \<equiv> 4"
abbreviation (input) TIMTYPE_ADVANCED :: u8 where "TIMTYPE_ADVANCED \<equiv> 5"

abbreviation (input) GTIM_CR1 :: u32 where "GTIM_CR1 \<equiv> 0"
abbreviation (input) GTIM_CR2 :: u32 where "GTIM_CR2 \<equiv> 4"
abbreviation (input) GTIM_DIER :: u32 where "GTIM_DIER \<equiv> 0xc"
abbreviation (input) GTIM_SR :: u32 where "GTIM_SR \<equiv> 0x10"
abbreviation (input) GTIM_EGR :: u32 where "GTIM_EGR \<equiv> 0x14"
abbreviation (input) GTIM_CCMR1 :: u32 where "GTIM_CCMR1 \<equiv> 0x18"
abbreviation (input) GTIM_CCMR2 :: u32 where "GTIM_CCMR2 \<equiv> 0x1c"
abbreviation (input) GTIM_CCER :: u32 where "GTIM_CCER \<equiv> 0x20"
abbreviation (input) GTIM_CNT :: u32 where "GTIM_CNT \<equiv> 0x24"
abbreviation (input) GTIM_PSC :: u32 where "GTIM_PSC \<equiv> 0x28"
abbreviation (input) GTIM_ARR :: u32 where "GTIM_ARR \<equiv> 0x2c"
abbreviation (input) GTIM_CCR1 :: u32 where "GTIM_CCR1 \<equiv> 0x34"
abbreviation (input) GTIM_CCR2 :: u32 where "GTIM_CCR2 \<equiv> 0x38"
abbreviation (input) GTIM_CCR3 :: u32 where "GTIM_CCR3 \<equiv> 0x3c"
abbreviation (input) GTIM_CCR4 :: u32 where "GTIM_CCR4 \<equiv> 0x40"
abbreviation (input) ATIM_BDTR :: u32 where "ATIM_BDTR \<equiv> 0x44"

abbreviation (input) STM32_TIM2_BASE :: u32 where "STM32_TIM2_BASE \<equiv> 0x40000000"
abbreviation (input) STM32_RCC_APB1RSTR :: u32 where "STM32_RCC_APB1RSTR \<equiv> 0x40023820"
abbreviation (input) STM32_RCC_APB1ENR :: u32 where "STM32_RCC_APB1ENR \<equiv> 0x40023840"
abbreviation (input) b16HALF :: u32 where "b16HALF \<equiv> 0x8000"

section \<open>Device structures\<close>

record stm32_pwm_out_s =
  in_use :: u8
  pol :: u8
  idle :: u8
  pincfg :: u32

record stm32_pwmchan_s =
  ch_channel :: u8
  ch_mode :: u8
  ch_out1 :: stm32_pwm_out_s

record stm32_pwmtimer_s =
  ch_list :: "stm32_pwmchan_s list"
  timid :: u8
  chan_num :: nat
  timtype :: u8
  tim_mode :: u8
  lock :: u8
  t_dts :: u8
  cur_frequency :: u32
  base :: u32
  pclk :: u32

definition tim2_channel :: "u8 \<Rightarrow> u32 \<Rightarrow> stm32_pwmchan_s" where
  "tim2_channel n cfg =
     \<lparr>ch_channel = n, ch_mode = 6,
      ch_out1 = \<lparr>in_use = 1, pol = 0, idle = 0, pincfg = cfg\<rparr>\<rparr>"

definition g_pwm2channels :: "stm32_pwmchan_s list" where
  "g_pwm2channels =
     [tim2_channel 1 0x81800, tim2_channel 2 0x81801, tim2_channel 3 0x81802,
      tim2_channel 4 0x81803]"

definition g_pwm2dev :: stm32_pwmtimer_s where
  "g_pwm2dev =
     \<lparr>ch_list = g_pwm2channels, timid = 2, chan_num = 4, timtype = TIMTYPE_GENERAL32,
      tim_mode = 0, lock = 0, t_dts = 0, cur_frequency = 0, base = STM32_TIM2_BASE, pclk = 84000000\<rparr>"

section \<open>Register access\<close>

definition pwm_reg_is_32bit :: "u8 \<Rightarrow> u32 \<Rightarrow> bool" where
  "pwm_reg_is_32bit ttype offset \<longleftrightarrow>
     ttype = TIMTYPE_GENERAL32 \<and>
     (offset = GTIM_CNT \<or> offset = GTIM_ARR \<or> offset = GTIM_CCR1 \<or> offset = GTIM_CCR2 \<or>
      offset = GTIM_CCR3 \<or> offset = GTIM_CCR4)"

definition pwm_getreg :: "stm32_pwmtimer_s \<Rightarrow> u32 \<Rightarrow> mcu \<Rightarrow> u32" where
  "pwm_getreg priv offset m =
     (if pwm_reg_is_32bit (timtype priv) offset then getreg32 (base priv + offset) m
      else ucast (getreg16 (base priv + offset) m))"

definition pwm_putreg :: "stm32_pwmtimer_s \<Rightarrow> u32 \<Rightarrow> u32 \<Rightarrow> mcu \<Rightarrow> mcu" where
  "pwm_putreg priv offset v m =
     (if pwm_reg_is_32bit (timtype priv) offset then putreg32 v (base priv + offset) m
      else putreg16 (ucast v) (base priv + offset) m)"

definition pwm_modifyreg :: "stm32_pwmtimer_s \<Rightarrow> u32 \<Rightarrow> u32 \<Rightarrow> u32 \<Rightarrow> mcu \<Rightarrow> mcu" where
  "pwm_modifyreg priv offset clearbits setbits m =
     (if pwm_reg_is_32bit (timtype priv) offset
      then modifyreg32 (base priv + offset) clearbits setbits m
      else modifyreg16 (base priv + offset) (ucast clearbits) (ucast setbits) m)"

section \<open>Duty cycle and frequency\<close>

definition pwm_ccr_update :: "stm32_pwmtimer_s \<Rightarrow> u8 \<Rightarrow> u32 \<Rightarrow> mcu \<Rightarrow> int \<times> mcu" where
  "pwm_ccr_update priv index ccr m =
     (if index = 1 then (OK, pwm_putreg priv GTIM_CCR1 ccr m)
      else if index = 2 then (OK, pwm_putreg priv GTIM_CCR2 ccr m)
      else if index = 3 then (OK, pwm_putreg priv GTIM_CCR3 ccr m)
      else if index = 4 then (OK, pwm_putreg priv GTIM_CCR4 ccr m)
      else (- EINVAL, m))"

definition pwm_arr_update :: "stm32_pwmtimer_s \<Rightarrow> u32 \<Rightarrow> mcu \<Rightarrow> int \<times> mcu" where
  "pwm_arr_update priv arr m = (OK, pwm_putreg priv GTIM_ARR arr m)"

definition pwm_arr_get :: "stm32_pwmtimer_s \<Rightarrow> mcu \<Rightarrow> u32" where
  "pwm_arr_get priv m = pwm_getreg priv GTIM_ARR m"

definition duty_to_ccr :: "u32 \<Rightarrow> u32 \<Rightarrow> u32" where
  "duty_to_ccr dty reload = drop_bit 16 (dty * reload + b16HALF)"

text \<open>The result of \<^verbatim>\<open>pwm_ccr_update\<close> is dropped, as in the code.\<close>

definition pwm_duty_update :: "stm32_pwmtimer_s \<Rightarrow> u8 \<Rightarrow> u32 \<Rightarrow> mcu \<Rightarrow> int \<times> mcu" where
  "pwm_duty_update priv chan dty m =
     (let reload = pwm_arr_get priv m;
          ccr = duty_to_ccr dty reload;
          (_, m) = pwm_ccr_update priv chan ccr m
      in (OK, m))"

definition pwm_timer_enable :: "stm32_pwmtimer_s \<Rightarrow> bool \<Rightarrow> mcu \<Rightarrow> int \<times> mcu" where
  "pwm_timer_enable priv state m =
     (if state then (OK, pwm_modifyreg priv GTIM_CR1 0 1 m)
      else (OK, pwm_modifyreg priv GTIM_CR1 1 0 m))"

definition freq_prescaler :: "u32 \<Rightarrow> u32 \<Rightarrow> u32" where
  "freq_prescaler clk freq =
     (let prescaler = (clk div freq + 65534) div 65535
      in if prescaler < 1 then 1 else if prescaler > 65536 then 65536 else prescaler)"

definition freq_reload :: "u32 \<Rightarrow> u32 \<Rightarrow> u32" where
  "freq_reload clk freq =
     (let timclk = clk div freq_prescaler clk freq;
          reload = timclk div freq
      in if reload < 2 then 1 else if reload > 65535 then 65535 else reload - 1)"

definition pwm_frequency_update :: "stm32_pwmtimer_s \<Rightarrow> u32 \<Rightarrow> mcu \<Rightarrow> (int \<times> mcu) option" where
  "pwm_frequency_update priv freq m =
     (if freq = 0 then None
      else
        let prescaler = freq_prescaler (pclk priv) freq;
            reload = freq_reload (pclk priv) freq;
            (_, m) = pwm_arr_update priv reload m;
            m = pwm_putreg priv GTIM_PSC (ucast (ucast (prescaler - 1) :: u16)) m
        in Some (OK, m))"

section \<open>Timer and channel configuration\<close>

abbreviation (input) GTIM_CR1_CEN :: u32 where "GTIM_CR1_CEN \<equiv> 1"
abbreviation (input) GTIM_CR1_DIR :: u16 where "GTIM_CR1_DIR \<equiv> 0x10"
abbreviation (input) GTIM_CR1_CMS_MASK :: u16 where "GTIM_CR1_CMS_MASK \<equiv> 0x60"
abbreviation (input) GTIM_CR1_ARPE :: u16 where "GTIM_CR1_ARPE \<equiv> 0x80"

definition pwm_timer_configure :: "stm32_pwmtimer_s \<Rightarrow> mcu \<Rightarrow> int \<times> mcu" where
  "pwm_timer_configure priv m =
     (let cr1 = (ucast (pwm_getreg priv GTIM_CR1 m) :: u16);
          finish = (\<lambda>cr1. (OK, pwm_putreg priv GTIM_CR1 (ucast (cr1 OR GTIM_CR1_ARPE)) m))
      in if timtype priv \<noteq> TIMTYPE_BASIC \<and> timtype priv \<noteq> TIMTYPE_COUNTUP16
         then
           let cr1 = cr1 AND NOT (GTIM_CR1_DIR OR GTIM_CR1_CMS_MASK)
           in if tim_mode priv = 0 then finish cr1
              else if tim_mode priv = 1 then finish (cr1 OR GTIM_CR1_DIR)
              else if tim_mode priv = 2 then finish (cr1 OR 0x20)
              else if tim_mode priv = 3 then finish (cr1 OR 0x40)
              else if tim_mode priv = 4 then finish (cr1 OR 0x60)
              else (- EINVAL, m)
         else finish cr1)"

text \<open>The eight channel modes of the version 1 timers are the register values 0 to 7.\<close>

definition chanmode_of :: "u32 \<Rightarrow> u32 option" where
  "chanmode_of md = (if md \<le> 7 then Some md else None)"

definition pwm_mode_configure :: "stm32_pwmtimer_s \<Rightarrow> u8 \<Rightarrow> u32 \<Rightarrow> mcu \<Rightarrow> int \<times> mcu" where
  "pwm_mode_configure priv chan md m =
     (case chanmode_of md of
        None \<Rightarrow> (- EINVAL, m)
      | Some chanmode \<Rightarrow>
          if chan = 1 \<or> chan = 2 \<or> chan = 3 \<or> chan = 4
          then
            let offset = (if chan = 1 \<or> chan = 2 then GTIM_CCMR1 else GTIM_CCMR2);
                ccmr = pwm_getreg priv offset m;
                (ccmr, ocmode) =
                  (if chan = 1 \<or> chan = 3
                   then (ccmr AND NOT (0x3 OR 0x70 OR 0x8), push_bit 4 chanmode OR 0x8)
                   else (ccmr AND NOT (0x300 OR 0x7000 OR 0x800), push_bit 12 chanmode OR 0x800))
            in (OK, pwm_putreg priv offset (ccmr OR ocmode) m)
          else (- EINVAL, m))"

text \<open>The channel number indexes the channel array: a number of 0 or beyond the array is out of
  range.\<close>

definition pwm_output_configure :: "stm32_pwmtimer_s \<Rightarrow> u8 \<Rightarrow> mcu \<Rightarrow> (int \<times> mcu) option" where
  "pwm_output_configure priv chan m =
     (if 0 < chan \<and> unat chan - 1 < length (ch_list priv)
      then
        let i = unat chan - 1;
            cr2 = pwm_getreg priv GTIM_CR2 m;
            ccer = pwm_getreg priv GTIM_CCER m;
            ccer = (if pol (ch_out1 (ch_list priv ! i)) = 1 then ccer OR push_bit (4 * i) 0x2
                    else ccer AND NOT (push_bit (4 * i) 0x2));
            ccer = ccer AND NOT (push_bit (4 * i) 0x8);
            m = pwm_modifyreg priv GTIM_CR2 0 cr2 m;
            m = pwm_modifyreg priv GTIM_CCER 0 ccer m
        in Some (OK, m)
      else None)"

definition outputs_regval :: "u16 \<Rightarrow> u32" where
  "outputs_regval outputs =
     (if bit outputs 0 then 0x1 else 0) OR (if bit outputs 1 then 0x4 else 0) OR
     (if bit outputs 2 then 0x10 else 0) OR (if bit outputs 3 then 0x40 else 0) OR
     (if bit outputs 4 then 0x100 else 0) OR (if bit outputs 5 then 0x400 else 0) OR
     (if bit outputs 6 then 0x1000 else 0)"

definition pwm_outputs_enable :: "stm32_pwmtimer_s \<Rightarrow> u16 \<Rightarrow> bool \<Rightarrow> mcu \<Rightarrow> int \<times> mcu" where
  "pwm_outputs_enable priv outputs state m =
     (let ccer = pwm_getreg priv GTIM_CCER m;
          regval = outputs_regval outputs;
          ccer = (if state then ccer OR regval else ccer AND NOT regval)
      in (OK, pwm_putreg priv GTIM_CCER ccer m))"

definition pwm_soft_update :: "stm32_pwmtimer_s \<Rightarrow> mcu \<Rightarrow> int \<times> mcu" where
  "pwm_soft_update priv m = (OK, pwm_putreg priv GTIM_EGR 1 m)"

definition pwm_soft_break :: "stm32_pwmtimer_s \<Rightarrow> bool \<Rightarrow> mcu \<Rightarrow> int \<times> mcu" where
  "pwm_soft_break priv state m =
     (if state then (OK, pwm_modifyreg priv ATIM_BDTR 0x8000 0 m)
      else (OK, pwm_modifyreg priv ATIM_BDTR 0 0x8000 m))"

text \<open>The channels a loop over \<^verbatim>\<open>priv->chan_num\<close> visits.\<close>

definition used_channels :: "stm32_pwmtimer_s \<Rightarrow> stm32_pwmchan_s list" where
  "used_channels priv = take (chan_num priv) (ch_list priv)"

fun outputs_from :: "stm32_pwmchan_s list \<Rightarrow> u16 \<Rightarrow> u16" where
  "outputs_from [] outputs = outputs"
| "outputs_from (c # cs) outputs =
     (if ch_channel c \<noteq> 0 \<and> in_use (ch_out1 c) = 1
      then outputs_from cs
             (ucast ((ucast outputs :: u32) OR push_bit ((unat (ch_channel c) - 1) * 2) 1))
      else outputs_from cs outputs)"

definition pwm_outputs_from_channels :: "stm32_pwmtimer_s \<Rightarrow> u16" where
  "pwm_outputs_from_channels priv = outputs_from (used_channels priv) 0"

fun configure_channels :: "stm32_pwmtimer_s \<Rightarrow> stm32_pwmchan_s list \<Rightarrow> mcu \<Rightarrow> (int \<times> mcu) option" where
  "configure_channels priv [] m = Some (OK, m)"
| "configure_channels priv (c # cs) m =
     (if ch_channel c \<noteq> 0
      then
        let (ret, m) = pwm_mode_configure priv (ch_channel c) (ucast (ch_mode c)) m
        in if ret < 0 then Some (ret, m)
           else do {
             (ret, m) \<leftarrow> pwm_output_configure priv (ch_channel c) m;
             if ret < 0 then Some (ret, m) else configure_channels priv cs m
           }
      else configure_channels priv cs m)"

definition pwm_configure :: "stm32_pwmtimer_s \<Rightarrow> mcu \<Rightarrow> (int \<times> mcu) option" where
  "pwm_configure priv m =
     (let outputs = pwm_outputs_from_channels priv;
          (ret, m) = pwm_outputs_enable priv outputs False m
      in if ret < 0 then Some (ret, m)
         else
           let (_, m) = pwm_timer_enable priv False m;
               (ret, m) = pwm_timer_configure priv m
           in if ret < 0 then Some (ret, m)
              else do {
                (ret, m) \<leftarrow> configure_channels priv (used_channels priv) m;
                if ret < 0 then Some (ret, m)
                else if timtype priv = TIMTYPE_ADVANCED \<or> timtype priv = TIMTYPE_COUNTUP16_N
                then Some (pwm_soft_break priv False m)
                else Some (ret, m)
              })"

section \<open>Starting and stopping\<close>

text \<open>The error that a channel number outside the timer sets is overwritten: the C function
  ends with \<^verbatim>\<open>return OK\<close> on every path.\<close>

fun duty_channels_loop :: "stm32_pwmtimer_s \<Rightarrow> pwm_chan_s list \<Rightarrow> mcu \<Rightarrow> mcu" where
  "duty_channels_loop priv [] m = m"
| "duty_channels_loop priv (c # cs) m =
     (if channel c \<noteq> 0
      then if channel c \<in> ch_channel ` set (used_channels priv)
           then let (ret, m) = pwm_duty_update priv (channel c) (duty c) m
                in if ret < 0 then m else duty_channels_loop priv cs m
           else m
      else duty_channels_loop priv cs m)"

definition pwm_duty_channels_update :: "stm32_pwmtimer_s \<Rightarrow> pwm_info_s \<Rightarrow> mcu \<Rightarrow> int \<times> mcu" where
  "pwm_duty_channels_update priv info m = (OK, duty_channels_loop priv (channels info) m)"

definition pwm_timer :: "stm32_pwmtimer_s \<Rightarrow> pwm_info_s \<Rightarrow> mcu \<Rightarrow> (int \<times> mcu) option" where
  "pwm_timer priv info m = do {
     (ret, m) \<leftarrow> pwm_frequency_update priv (frequency info) m;
     if ret < 0 then Some (ret, m)
     else
       let (ret, m) = pwm_duty_channels_update priv info m
       in if ret < 0 then Some (ret, m)
          else
            let (_, m) = pwm_soft_update priv m;
                outputs = pwm_outputs_from_channels priv;
                (ret, m) = pwm_outputs_enable priv outputs True m
            in if ret < 0 then Some (ret, m)
               else let (_, m) = pwm_timer_enable priv True m in Some (ret, m)
   }"

definition pwm_set_apb_clock :: "stm32_pwmtimer_s \<Rightarrow> bool \<Rightarrow> mcu \<Rightarrow> int \<times> mcu" where
  "pwm_set_apb_clock priv on m =
     (if timid priv = 2
      then let regaddr = STM32_RCC_APB1ENR; en_bit = 1
           in (OK, if on then modifyreg32 regaddr 0 en_bit m else modifyreg32 regaddr en_bit 0 m)
      else (- EINVAL, m))"

fun setup_pins :: "stm32_pwmchan_s list \<Rightarrow> mcu \<Rightarrow> mcu" where
  "setup_pins [] m = m"
| "setup_pins (c # cs) m =
     (if in_use (ch_out1 c) = 1 then setup_pins cs (snd (stm32_configgpio (pincfg (ch_out1 c)) m))
      else setup_pins cs m)"

definition pwm_setup :: "stm32_pwmtimer_s \<Rightarrow> mcu \<Rightarrow> (int \<times> mcu) option" where
  "pwm_setup priv m =
     (let (ret, m) = pwm_set_apb_clock priv True m
      in if ret < 0 then Some (ret, m)
         else
           let m = setup_pins (used_channels priv) m
           in do {
             (ret, m) \<leftarrow> pwm_configure priv m;
             if ret < 0 then Some (ERROR, m) else Some (ret, m)
           })"

definition pwm_stop :: "stm32_pwmtimer_s \<Rightarrow> mcu \<Rightarrow> int \<times> stm32_pwmtimer_s \<times> mcu" where
  "pwm_stop priv m =
     (if timid priv = 2
      then
        let regaddr = STM32_RCC_APB1RSTR; resetbit = 1;
            priv = priv\<lparr>cur_frequency := 0\<rparr>;
            m = pwm_putreg priv GTIM_DIER 0 m;
            m = pwm_putreg priv GTIM_SR 0 m;
            regval = getreg32 regaddr m;
            regval = regval OR resetbit;
            m = putreg32 regval regaddr m;
            regval = regval AND NOT resetbit;
            m = putreg32 regval regaddr m
        in (OK, priv, m)
      else (- EINVAL, priv, m))"

fun release_pins :: "stm32_pwmchan_s list \<Rightarrow> mcu \<Rightarrow> mcu" where
  "release_pins [] m = m"
| "release_pins (c # cs) m =
     (let cfg = pincfg (ch_out1 c)
      in if cfg \<noteq> 0
         then
           let cfg = cfg AND (GPIO_PORT_MASK OR GPIO_PIN_MASK);
               cfg = cfg OR (GPIO_INPUT OR GPIO_FLOAT)
           in release_pins cs (snd (stm32_configgpio cfg m))
         else release_pins cs m)"

definition pwm_shutdown :: "stm32_pwmtimer_s \<Rightarrow> mcu \<Rightarrow> int \<times> stm32_pwmtimer_s \<times> mcu" where
  "pwm_shutdown priv m =
     (let (_, priv, m) = pwm_stop priv m;
          (ret, m) = pwm_set_apb_clock priv False m
      in if ret < 0 then (ret, priv, m)
         else (ret, priv, release_pins (used_channels priv) m))"

text \<open>An unchanged frequency only updates the duty cycles, of every entry of the request.\<close>

fun start_duty_loop :: "stm32_pwmtimer_s \<Rightarrow> pwm_chan_s list \<Rightarrow> int \<Rightarrow> mcu \<Rightarrow> int \<times> mcu" where
  "start_duty_loop priv [] ret m = (ret, m)"
| "start_duty_loop priv (c # cs) ret m =
     (if ret = OK
      then let (ret, m) = pwm_duty_update priv (channel c) (duty c) m
           in start_duty_loop priv cs ret m
      else (ret, m))"

definition pwm_start ::
  "stm32_pwmtimer_s \<Rightarrow> pwm_info_s \<Rightarrow> mcu \<Rightarrow> (int \<times> stm32_pwmtimer_s \<times> mcu) option" where
  "pwm_start priv info m =
     (if frequency info = cur_frequency priv
      then let (ret, m) = start_duty_loop priv (channels info) OK m in Some (ret, priv, m)
      else do {
        (ret, m) \<leftarrow> pwm_timer priv info m;
        Some (ret, (if ret = OK then priv\<lparr>cur_frequency := frequency info\<rparr> else priv), m)
      })"

definition pwm_ioctl :: "int \<Rightarrow> int" where
  "pwm_ioctl cmd = - ENOTTY"

section \<open>The lower half as an operation table\<close>

text \<open>The hardware state of the lower half is the device structure with the registers.\<close>

record stm32_hw =
  dev :: stm32_pwmtimer_s
  mcu_st :: mcu

definition g_pwmops :: "stm32_hw pwm_ops_s" where
  "g_pwmops =
     \<lparr>op_setup = (\<lambda>h. do { (ret, m) \<leftarrow> pwm_setup (dev h) (mcu_st h); Some (ret, h\<lparr>mcu_st := m\<rparr>) }),
      op_shutdown = (\<lambda>h. let (ret, p, m) = pwm_shutdown (dev h) (mcu_st h)
                         in Some (ret, h\<lparr>dev := p, mcu_st := m\<rparr>)),
      op_start = (\<lambda>info h. do { (ret, p, m) \<leftarrow> pwm_start (dev h) info (mcu_st h);
                                Some (ret, h\<lparr>dev := p, mcu_st := m\<rparr>) }),
      op_stop = (\<lambda>h. let (ret, p, m) = pwm_stop (dev h) (mcu_st h)
                     in Some (ret, h\<lparr>dev := p, mcu_st := m\<rparr>)),
      op_ioctl = (\<lambda>cmd h. Some (pwm_ioctl cmd, h))\<rparr>"

definition stm32_pwminitialize :: "int \<Rightarrow> stm32_pwmtimer_s option" where
  "stm32_pwminitialize timer = (if timer = 2 then Some g_pwm2dev else None)"

end
