(* ===== verification/Stm32_Pwm_Laws.thy ===== *)
theory Stm32_Pwm_Laws
  imports Stm32_Pwm
begin

text \<open>
  What the lower half does to the timer.  The arithmetic of \<^verbatim>\<open>pwm_frequency_update\<close> and
  \<^verbatim>\<open>pwm_duty_update\<close> is characterised over the naturals; the operations are characterised by
  the registers of TIM2 they leave, under the documented behaviour of the hardware
  (\<^verbatim>\<open>tim2_hw\<close>).
\<close>

section \<open>Hardware assumptions\<close>

definition tim2_storage_offsets :: "u32 list" where
  "tim2_storage_offsets =
     [GTIM_CR1, GTIM_CR2, GTIM_DIER, GTIM_CCMR1, GTIM_CCMR2, GTIM_CCER, GTIM_PSC, GTIM_ARR,
      GTIM_CCR1, GTIM_CCR2, GTIM_CCR3, GTIM_CCR4]"

text \<open>The configuration registers of TIM2 and the APB1 clock enable register hold what is
  stored; a store to the event generation or the status register changes these two and the
  counter only; the reset bit of TIM2 in APB1RSTR puts the registers of the timer to their
  reset values, and the reset register acts on APB1 peripherals only.\<close>

definition tim2_hw :: "mcu \<Rightarrow> bool" where
  "tim2_hw m \<longleftrightarrow>
     (\<forall>off \<in> set tim2_storage_offsets. storage m (STM32_TIM2_BASE + off)) \<and>
     storage m STM32_RCC_APB1ENR \<and>
     (\<forall>off \<in> {GTIM_EGR, GTIM_SR}. \<forall>v r x.
        x \<notin> {STM32_TIM2_BASE + GTIM_SR, STM32_TIM2_BASE + GTIM_EGR, STM32_TIM2_BASE + GTIM_CNT} \<longrightarrow>
        react m (STM32_TIM2_BASE + off) v r x = r x) \<and>
     (\<forall>v r x. 0x40000000 \<le> x \<and> x < 0x40000400 \<longrightarrow>
        react m STM32_RCC_APB1RSTR v r x =
          (if bit v 0 then if x = STM32_TIM2_BASE + GTIM_ARR then 0xffffffff else 0 else r x)) \<and>
     (\<forall>v r x. 0x40010000 \<le> x \<longrightarrow> react m STM32_RCC_APB1RSTR v r x = r x)"

definition board_hw :: "mcu \<Rightarrow> bool" where
  "board_hw m \<longleftrightarrow> tim2_hw m \<and> gpio_hw m"

text \<open>A concrete microcontroller with that behaviour, with all registers zero.\<close>

definition reset_react :: "u32 \<Rightarrow> u32 \<Rightarrow> (u32 \<Rightarrow> u32) \<Rightarrow> u32 \<Rightarrow> u32" where
  "reset_react a v r =
     (if a = STM32_RCC_APB1RSTR \<and> bit v 0
      then (\<lambda>x. if 0x40000000 \<le> x \<and> x < 0x40000400
                then if x = STM32_TIM2_BASE + GTIM_ARR then 0xffffffff else 0 else r x)
      else r)"

definition boot_mcu :: mcu where
  "boot_mcu = \<lparr>regs = (\<lambda>_. 0), react = reset_react\<rparr>"

text \<open>The TIM2 device with its current frequency, and the content of a TIM2 register as the
  driver reads it.\<close>

definition tim2 :: "u32 \<Rightarrow> stm32_pwmtimer_s" where
  "tim2 f = g_pwm2dev\<lparr>cur_frequency := f\<rparr>"

definition tim2_reg :: "u32 \<Rightarrow> mcu \<Rightarrow> u32" where
  "tim2_reg off m = pwm_getreg g_pwm2dev off m"

definition is32 :: "u32 \<Rightarrow> bool" where
  "is32 off = pwm_reg_is_32bit TIMTYPE_GENERAL32 off"

section \<open>Arithmetic of the frequency update\<close>

lemma prescaler_nat:
  assumes "freq \<noteq> 0" and "unat clk + 65534 < 2 ^ 32"
  shows "unat (freq_prescaler clk freq) =
           (let q = (unat clk div unat freq + 65534) div 65535
            in if q < 1 then 1 else if q > 65536 then 65536 else q)"
proof -
  have "unat (clk div freq) + 65534 < 2 ^ 32"
    using assms(2) div_le_dividend [of "unat clk" "unat freq"] unfolding unat_div by linarith
  then have "unat (clk div freq + 65534) = unat clk div unat freq + 65534"
    by (subst unat_add_no_wrap) (simp_all add: unat_div)
  then show ?thesis
    by (simp add: freq_prescaler_def Let_def word_less_nat_alt unat_div)
qed

lemma prescaler_pos: "1 \<le> freq_prescaler clk freq"
  by (simp add: freq_prescaler_def Let_def word_less_nat_alt word_le_nat_alt)

lemma reload_nat:
  "unat (freq_reload clk freq) =
     (let r = unat clk div unat (freq_prescaler clk freq) div unat freq
      in if r < 2 then 1 else if r > 65535 then 65535 else r - 1)"
  by (simp add: freq_reload_def Let_def word_less_nat_alt unat_div unat_sub_no_wrap)

lemma ceil_div_bounds:
  fixes n q :: nat
  assumes q: "q = (n + 65534) div 65535"
  shows "n \<le> q * 65535" and "0 < n \<Longrightarrow> (q - 1) * 65535 < n"
proof -
  have e: "n + 65534 = q * 65535 + (n + 65534) mod 65535"
    unfolding q by (simp only: div_mult_mod_eq)
  have "(n + 65534) mod 65535 < 65535" by simp
  with e show "n \<le> q * 65535" by linarith
  show "(q - 1) * 65535 < n" if "0 < n"
    using e that by (cases q) simp_all
qed

lemma div_twice_le:
  assumes "0 < (p :: nat)" "n \<le> p * 65535"
  shows "n div p \<le> 65535"
  using assms by (metis div_le_mono nonzero_mult_div_cancel_left not_gr0)

lemma frequency_exact:
  fixes c p f :: nat
  assumes "0 < p" "0 < f" "r = c div p div f" "2 \<le> r"
  shows "p * r * f \<le> c" and "c < p * (r + 1) * f"
proof -
  have r: "r = c div (p * f)" using assms(3) by (simp add: div_mult2_eq)
  show "p * r * f \<le> c"
    using r by (metis ab_semigroup_mult_class.mult_ac(1) mult.commute times_div_less_eq_dividend)
  have "c < (c div (p * f) + 1) * (p * f)"
    using assms(1,2) by (simp add: dividend_less_div_times)
  then show "c < p * (r + 1) * f" using r by (simp add: algebra_simps)
qed

lemma prescaler_bounds:
  assumes "freq \<noteq> 0" and "unat clk \<le> 4294901760"
  defines "psc \<equiv> unat (freq_prescaler clk freq)" and "q \<equiv> unat clk div unat freq"
  shows "1 \<le> psc" and "psc \<le> 65536" and "q \<le> psc * 65535" and "0 < q \<Longrightarrow> (psc - 1) * 65535 < q"
proof -
  define c where "c = (q + 65534) div 65535"
  have psc: "psc = (if c < 1 then 1 else if c > 65536 then 65536 else c)"
    unfolding psc_def c_def q_def using assms(1,2) by (subst prescaler_nat) (simp_all add: Let_def)
  note b = ceil_div_bounds [OF c_def]
  have "q \<le> 4294901760"
    unfolding q_def using assms(2) div_le_dividend [of "unat clk" "unat freq"] by linarith
  then have "c \<le> (4294901760 + 65534) div 65535"
    unfolding c_def by (intro div_le_mono) linarith
  then have le: "c \<le> 65536" by simp
  show "1 \<le> psc" "psc \<le> 65536" using psc by simp_all
  show "q \<le> psc * 65535"
  proof (cases "c < 1")
    case True
    then show ?thesis using b(1) psc by simp
  next
    case False
    then show ?thesis using b(1) psc le by simp
  qed
  show "(psc - 1) * 65535 < q" if "0 < q"
    using b(2) [OF that] psc le that by (cases "c < 1") simp_all
qed

lemma reload_no_clamp:
  assumes "freq \<noteq> 0" and "unat clk \<le> 4294901760" and "2 * unat freq \<le> unat clk"
  defines "psc \<equiv> unat (freq_prescaler clk freq)"
  shows "unat (freq_reload clk freq) + 1 = unat clk div psc div unat freq"
    and "2 \<le> unat clk div psc div unat freq"
    and "unat clk div psc div unat freq \<le> 65535"
proof -
  define q where "q = unat clk div unat freq"
  define r where "r = unat clk div psc div unat freq"
  have f: "0 < unat freq" using assms(1) by (simp add: unat_gt_0)
  note pb = prescaler_bounds [OF assms(1,2), folded psc_def q_def]
  have rq: "r = q div psc"
    unfolding r_def q_def by (metis div_mult2_eq mult.commute)
  have q2: "2 \<le> q"
    unfolding q_def using assms(3) f by (simp add: less_eq_div_iff_mult_less_eq mult.commute)
  have "2 * psc \<le> q"
  proof (cases "psc = 1")
    case True
    then show ?thesis using q2 by simp
  next
    case False
    then show ?thesis using pb(1) pb(4) q2 by (cases psc) auto
  qed
  then have r2: "2 \<le> r" using rq pb(1) by (simp add: less_eq_div_iff_mult_less_eq mult.commute)
  have r6: "r \<le> 65535" unfolding rq using pb(1,3) by (intro div_twice_le) simp_all
  show "2 \<le> unat clk div psc div unat freq" using r2 by (simp add: r_def)
  show "unat clk div psc div unat freq \<le> 65535" using r6 by (simp add: r_def)
  show "unat (freq_reload clk freq) + 1 = unat clk div psc div unat freq"
    using r2 r6 unfolding r_def psc_def by (simp add: reload_nat Let_def)
qed

lemma freq_reload_le: "unat (freq_reload clk freq) \<le> 65535"
  unfolding reload_nat Let_def by (simp split: if_split) linarith

section \<open>Arithmetic of the duty cycle update\<close>

lemma duty_to_ccr_nat:
  assumes "unat d \<le> 65536" and "unat reload \<le> 65535"
  shows "unat (duty_to_ccr d reload) = (unat d * unat reload + 32768) div 65536"
proof -
  have le: "unat d * unat reload \<le> 65536 * 65535" using assms by (rule mult_le_mono)
  then have "unat (d * reload) = unat d * unat reload"
    by (intro unat_mult_no_wrap) simp
  with le have "unat (d * reload + b16HALF) = unat d * unat reload + 32768"
    by (subst unat_add_no_wrap) simp_all
  then show ?thesis by (simp add: duty_to_ccr_def unat_drop_bit_div)
qed

lemma duty_to_ccr_le:
  assumes "unat d \<le> 65536" and "unat reload \<le> 65535"
  shows "duty_to_ccr d reload \<le> reload"
proof -
  define x where "x = unat d * unat reload"
  have "x \<le> 65536 * unat reload"
    unfolding x_def using assms(1) by (rule mult_le_mono1)
  then have "x + 32768 < (unat reload + 1) * 65536" by simp
  then have "(x + 32768) div 65536 < unat reload + 1"
    by (simp add: div_less_iff_less_mult)
  then show ?thesis by (simp add: word_le_nat_alt duty_to_ccr_nat assms x_def)
qed

section \<open>Reading registers after stores\<close>

named_theorems tim_simps

lemma ucast_ucast_16 [simp]: "ucast (ucast v :: u16) = (take_bit 16 v :: u32)"
  by (rule bit_word_eqI) (simp add: bit_simps)

lemma pwm_getreg_putreg:
  "storage m (base p + o') \<Longrightarrow> pwm_getreg p off (pwm_putreg p o' v m) =
     (if off = o' then if pwm_reg_is_32bit (timtype p) o' then v else take_bit 16 v
      else pwm_getreg p off m)"
  by (simp add: pwm_getreg_def pwm_putreg_def mmio_simps)

lemma modify_low_half:
  "(ucast ((x AND NOT (ucast c)) OR ucast s) :: u32)
     = take_bit 16 (((ucast (x :: u16) :: u32) AND NOT c) OR s)"
  by (rule bit_word_eqI) (auto simp: bit_simps)

lemma pwm_getreg_modifyreg:
  assumes "storage m (base p + o')"
  shows "pwm_getreg p off (pwm_modifyreg p o' c s m) =
     (if off = o'
      then if pwm_reg_is_32bit (timtype p) o' then (pwm_getreg p o' m AND NOT c) OR s
           else take_bit 16 ((pwm_getreg p o' m AND NOT c) OR s)
      else pwm_getreg p off m)"
  using assms by (simp add: pwm_getreg_def pwm_modifyreg_def mmio_simps modify_low_half)

lemma react_pwm [simp]:
  "react (pwm_putreg p off v m) = react m"
  "react (pwm_modifyreg p off c s m) = react m"
  by (simp_all add: pwm_putreg_def pwm_modifyreg_def)

lemma storage_pwm [simp]:
  "storage (pwm_putreg p off v m) a = storage m a"
  "storage (pwm_modifyreg p off c s m) a = storage m a"
  by (simp_all add: storage_def)

lemma tim2_hw_cong: "react m' = react m \<Longrightarrow> tim2_hw m' = tim2_hw m"
  by (simp add: tim2_hw_def storage_def)

lemma board_hw_cong: "react m' = react m \<Longrightarrow> board_hw m' = board_hw m"
  using tim2_hw_cong [of m' m] gpio_hw_cong [of m' m] by (simp add: board_hw_def)

section \<open>The TIM2 device\<close>

lemma tim2_sel [simp]:
  "base (tim2 f) = 0x40000000" "timtype (tim2 f) = 4" "timid (tim2 f) = 2"
  "pclk (tim2 f) = 84000000" "cur_frequency (tim2 f) = f" "tim_mode (tim2 f) = 0"
  "ch_list (tim2 f) = g_pwm2channels" "chan_num (tim2 f) = 4"
  "(tim2 f)\<lparr>cur_frequency := f'\<rparr> = tim2 f'"
  by (simp_all add: tim2_def g_pwm2dev_def)

lemma used_channels_tim2 [simp]: "used_channels (tim2 f) = g_pwm2channels"
  by (simp add: used_channels_def g_pwm2channels_def)

lemma pwm_getreg_tim2 [simp]: "pwm_getreg (tim2 f) off m = tim2_reg off m"
  by (simp add: tim2_reg_def pwm_getreg_def g_pwm2dev_def)

lemma tim2_hw_pwm [simp]:
  "tim2_hw (pwm_putreg p off v m) = tim2_hw m"
  "tim2_hw (pwm_modifyreg p off c s m) = tim2_hw m"
  by (rule tim2_hw_cong, simp)+

lemma tim2_storage: "tim2_hw m \<Longrightarrow> off \<in> set tim2_storage_offsets \<Longrightarrow> storage m (0x40000000 + off)"
  by (simp add: tim2_hw_def)

lemma tim2_reg_putreg:
  assumes "tim2_hw m" "o' \<in> set tim2_storage_offsets"
  shows "tim2_reg off (pwm_putreg (tim2 f) o' v m) =
     (if off = o' then if is32 o' then v else take_bit 16 v else tim2_reg off m)"
  using pwm_getreg_putreg [of m "tim2 f" o' off v] tim2_storage [OF assms]
  by (simp add: is32_def)

lemma tim2_reg_modifyreg:
  assumes "tim2_hw m" "o' \<in> set tim2_storage_offsets"
  shows "tim2_reg off (pwm_modifyreg (tim2 f) o' c s m) =
     (if off = o' then if is32 o' then (tim2_reg o' m AND NOT c) OR s
                       else take_bit 16 ((tim2_reg o' m AND NOT c) OR s)
      else tim2_reg off m)"
  using pwm_getreg_modifyreg [of m "tim2 f" o' off c s] tim2_storage [OF assms]
  by (simp add: is32_def)

lemma tim2_reg_event:
  assumes "tim2_hw m" "o' = GTIM_EGR \<or> o' = GTIM_SR" "off \<notin> {GTIM_SR, GTIM_EGR, GTIM_CNT}"
  shows "tim2_reg off (pwm_putreg (tim2 f) o' v m) = tim2_reg off m"
proof -
  have "regs (pwm_putreg (tim2 f) o' v m) (0x40000000 + off) = regs m (0x40000000 + off)"
    using assms by (auto simp: tim2_hw_def pwm_putreg_def putreg16_def putreg32_def pwm_reg_is_32bit_def)
  then show ?thesis
    by (simp add: tim2_reg_def pwm_getreg_def getreg16_def getreg32_def g_pwm2dev_def)
qed

lemma tim2_reg_16 [simp]: "\<not> is32 off \<Longrightarrow> take_bit 16 (tim2_reg off m) = tim2_reg off m"
  by (rule bit_word_eqI) (auto simp: tim2_reg_def pwm_getreg_def is32_def g_pwm2dev_def bit_simps
      dest: bit_imp_le_length)

lemma take_bit_and_absorb: "take_bit n x = x \<Longrightarrow> take_bit n (x AND y) = x AND (y :: u32)"
  by (metis and.assoc and.commute take_bit_eq_mask)

section \<open>Register effect of the operations\<close>

lemma is32_simps [simp]:
  "is32 GTIM_ARR" "is32 GTIM_CCR1" "is32 GTIM_CCR2" "is32 GTIM_CCR3" "is32 GTIM_CCR4"
  "\<not> is32 GTIM_CR1" "\<not> is32 GTIM_CR2" "\<not> is32 GTIM_CCMR1" "\<not> is32 GTIM_CCMR2" "\<not> is32 GTIM_CCER"
  "\<not> is32 GTIM_PSC" "\<not> is32 GTIM_DIER"
  by (simp_all add: is32_def pwm_reg_is_32bit_def)

lemma storage_offset_simps [simp]:
  "GTIM_ARR \<in> set tim2_storage_offsets" "GTIM_CCR1 \<in> set tim2_storage_offsets"
  "GTIM_CCR2 \<in> set tim2_storage_offsets" "GTIM_CCR3 \<in> set tim2_storage_offsets"
  "GTIM_CCR4 \<in> set tim2_storage_offsets" "GTIM_CR1 \<in> set tim2_storage_offsets"
  "GTIM_CR2 \<in> set tim2_storage_offsets" "GTIM_CCMR1 \<in> set tim2_storage_offsets"
  "GTIM_CCMR2 \<in> set tim2_storage_offsets" "GTIM_CCER \<in> set tim2_storage_offsets"
  "GTIM_PSC \<in> set tim2_storage_offsets" "GTIM_DIER \<in> set tim2_storage_offsets"
  by (simp_all add: tim2_storage_offsets_def)

lemma outputs_tim2 [simp]: "pwm_outputs_from_channels (tim2 f) = 0x55"
  by (simp add: pwm_outputs_from_channels_def g_pwm2channels_def tim2_channel_def)

lemma outputs_regval_tim2 [simp]: "outputs_regval 0x55 = 0x1111"
  by (simp add: outputs_regval_def)

lemma outputs_enable_tim2:
  assumes "tim2_hw m"
  shows "fst (pwm_outputs_enable (tim2 f) 0x55 st m) = OK"
    and "tim2_reg off (snd (pwm_outputs_enable (tim2 f) 0x55 st m)) =
           (if off = GTIM_CCER
            then if st then tim2_reg GTIM_CCER m OR 0x1111 else tim2_reg GTIM_CCER m AND 0xeeee
            else tim2_reg off m)"
    and "react (snd (pwm_outputs_enable (tim2 f) 0x55 st m)) = react m"
  using assms
  by (simp_all add: pwm_outputs_enable_def Let_def tim2_reg_putreg)

lemma timer_enable_tim2:
  assumes "tim2_hw m"
  shows "fst (pwm_timer_enable (tim2 f) st m) = OK"
    and "tim2_reg off (snd (pwm_timer_enable (tim2 f) st m)) =
           (if off = GTIM_CR1
            then if st then tim2_reg GTIM_CR1 m OR 1 else tim2_reg GTIM_CR1 m AND 0xfffe
            else tim2_reg off m)"
    and "react (snd (pwm_timer_enable (tim2 f) st m)) = react m"
  using assms
  by (simp_all add: pwm_timer_enable_def tim2_reg_modifyreg)

lemma timer_configure_tim2:
  assumes "tim2_hw m"
  shows "fst (pwm_timer_configure (tim2 f) m) = OK"
    and "tim2_reg off (snd (pwm_timer_configure (tim2 f) m)) =
           (if off = GTIM_CR1 then (tim2_reg GTIM_CR1 m AND 0xff8f) OR 0x80 else tim2_reg off m)"
    and "react (snd (pwm_timer_configure (tim2 f) m)) = react m"
  using assms
  by (simp_all add: pwm_timer_configure_def Let_def tim2_reg_putreg unsigned_or_eq unsigned_and_eq)

text \<open>Every channel of the device is in PWM mode 1 with positive polarity.\<close>

definition ccmr_of :: "u8 \<Rightarrow> u32" where
  "ccmr_of c = (if c = 1 \<or> c = 2 then GTIM_CCMR1 else GTIM_CCMR2)"

lemma mode_configure_tim2:
  assumes "tim2_hw m" "c \<in> {1, 2, 3, 4}"
  shows "fst (pwm_mode_configure (tim2 f) c 6 m) = OK"
    and "tim2_reg off (snd (pwm_mode_configure (tim2 f) c 6 m)) =
           (if off = ccmr_of c
            then if c = 1 \<or> c = 3 then (tim2_reg off m AND 0xff84) OR 0x68
                 else (tim2_reg off m AND 0x84ff) OR 0x6800
            else tim2_reg off m)"
    and "react (snd (pwm_mode_configure (tim2 f) c 6 m)) = react m"
  using assms
  by (auto simp: pwm_mode_configure_def chanmode_of_def Let_def tim2_reg_putreg ccmr_of_def)

lemma output_configure_tim2:
  assumes "tim2_hw m" "c \<in> {1, 2, 3, 4}"
  obtains m' where "pwm_output_configure (tim2 f) c m = Some (OK, m')" "react m' = react m"
    "\<And>off. tim2_reg off m' = tim2_reg off m"
proof -
  have absorb: "x OR ((x AND y) AND z) = x" for x y z :: u32
    by (rule bit_word_eqI) (auto simp: bit_simps)
  have t: "take_bit 16 (tim2_reg 4 m) = tim2_reg 4 m" "take_bit 16 (tim2_reg 0x20 m) = tim2_reg 0x20 m"
    by simp_all
  have p: "pol (ch_out1 (g_pwm2channels ! (unat c - 1))) = 0" "unat c - 1 < length g_pwm2channels"
    "0 < c"
    using assms(2) by (auto simp: g_pwm2channels_def tim2_channel_def)
  define i where "i = unat c - 1"
  define m' where "m' = pwm_modifyreg (tim2 f) GTIM_CCER 0
      ((tim2_reg GTIM_CCER m AND NOT (push_bit (4 * i) 2)) AND NOT (push_bit (4 * i) 8))
      (pwm_modifyreg (tim2 f) GTIM_CR2 0 (tim2_reg GTIM_CR2 m) m)"
  have "pwm_output_configure (tim2 f) c m = Some (OK, m')"
    using p by (simp add: pwm_output_configure_def Let_def m'_def i_def)
  moreover have "react m' = react m" by (simp add: m'_def)
  moreover have "tim2_reg off m' = tim2_reg off m" for off
    using assms(1) t by (simp add: m'_def tim2_reg_modifyreg absorb)
  ultimately show thesis by (rule that)
qed


lemma configure_channel_step:
  assumes m0: "tim2_hw m0" and c: "c \<in> {1, 2, 3, 4}"
  shows "\<exists>m'. configure_channels (tim2 f) (tim2_channel c cfg # cs) m0 =
               configure_channels (tim2 f) cs m' \<and> react m' = react m0 \<and> tim2_hw m' \<and>
             (\<forall>off. tim2_reg off m' = tim2_reg off (snd (pwm_mode_configure (tim2 f) c 6 m0)))"
proof -
  define m1 where "m1 = snd (pwm_mode_configure (tim2 f) c 6 m0)"
  note mc = mode_configure_tim2 [OF assms, of f]
  have m1: "tim2_hw m1" using mc(3) m0 tim2_hw_cong m1_def by metis
  obtain m' where m': "pwm_output_configure (tim2 f) c m1 = Some (OK, m')" "react m' = react m1"
      "\<And>off. tim2_reg off m' = tim2_reg off m1"
    by (rule output_configure_tim2 [OF m1 c, where f = f]) (rule that)
  have "pwm_mode_configure (tim2 f) c 6 m0 = (OK, m1)" using mc(1) by (simp add: m1_def prod_eq_iff)
  then have "configure_channels (tim2 f) (tim2_channel c cfg # cs) m0 = configure_channels (tim2 f) cs m'"
    using c m' by (auto simp: tim2_channel_def)
  moreover have "tim2_hw m'" using m1 m'(2) tim2_hw_cong by metis
  ultimately show ?thesis using m'(2,3) mc(3) m1_def by auto
qed

lemma configure_channels_tim2:
  assumes hw: "tim2_hw m"
  obtains m' where "configure_channels (tim2 f) g_pwm2channels m = Some (OK, m')"
    "react m' = react m"
    "\<And>off. tim2_reg off m' =
       (if off = GTIM_CCMR1 \<or> off = GTIM_CCMR2 then (tim2_reg off m AND 0x8484) OR 0x6868
        else tim2_reg off m)"
proof -
  note step = configure_channel_step
  obtain m1 where 1: "configure_channels (tim2 f) g_pwm2channels m =
       configure_channels (tim2 f) (tl g_pwm2channels) m1" "react m1 = react m" "tim2_hw m1"
       "\<forall>off. tim2_reg off m1 = tim2_reg off (snd (pwm_mode_configure (tim2 f) 1 6 m))"
    using step [OF hw, of 1 f "0x81800" "tl g_pwm2channels"] by (auto simp: g_pwm2channels_def)
  obtain m2 where 2: "configure_channels (tim2 f) (tl g_pwm2channels) m1 =
       configure_channels (tim2 f) (drop 2 g_pwm2channels) m2" "react m2 = react m" "tim2_hw m2"
       "\<forall>off. tim2_reg off m2 = tim2_reg off (snd (pwm_mode_configure (tim2 f) 2 6 m1))"
    using step [OF 1(3), of 2 f "0x81801" "drop 2 g_pwm2channels"] 1(2) by (auto simp: g_pwm2channels_def)
  obtain m3 where 3: "configure_channels (tim2 f) (drop 2 g_pwm2channels) m2 =
       configure_channels (tim2 f) (drop 3 g_pwm2channels) m3" "react m3 = react m" "tim2_hw m3"
       "\<forall>off. tim2_reg off m3 = tim2_reg off (snd (pwm_mode_configure (tim2 f) 3 6 m2))"
    using step [OF 2(3), of 3 f "0x81802" "drop 3 g_pwm2channels"] 2(2) by (auto simp: g_pwm2channels_def)
  obtain m4 where 4: "configure_channels (tim2 f) (drop 3 g_pwm2channels) m3 = Some (OK, m4)"
       "react m4 = react m" "tim2_hw m4"
       "\<forall>off. tim2_reg off m4 = tim2_reg off (snd (pwm_mode_configure (tim2 f) 4 6 m3))"
    using step [OF 3(3), of 4 f "0x81803" "[]"] 3(2) by (auto simp: g_pwm2channels_def)
  note regs = 1(4) 2(4) 3(4) 4(4)
  have bits: "(((x AND 0xff84) OR 0x68) AND 0x84ff) OR 0x6800 = (x AND 0x8484) OR 0x6868" for x :: u32
    by (simp add: and_or_and or.assoc)
  have "tim2_reg off m4 =
       (if off = GTIM_CCMR1 \<or> off = GTIM_CCMR2 then (tim2_reg off m AND 0x8484) OR 0x6868
        else tim2_reg off m)" for off
    using regs by (simp add: mode_configure_tim2(2) hw 1(3) 2(3) 3(3) ccmr_of_def bits)
  then show thesis
    using 1(1) 2(1) 3(1) 4(1,2) by (intro that [of m4]) simp_all
qed

lemma pwm_configure_tim2:
  assumes hw: "tim2_hw m"
  obtains m' where "pwm_configure (tim2 f) m = Some (OK, m')" "react m' = react m"
    "\<And>off. tim2_reg off m' =
       (if off = GTIM_CR1 then (tim2_reg off m AND 0xff8e) OR 0x80
        else if off = GTIM_CCER then tim2_reg off m AND 0xeeee
        else if off = GTIM_CCMR1 \<or> off = GTIM_CCMR2 then (tim2_reg off m AND 0x8484) OR 0x6868
        else tim2_reg off m)"
proof -
  define m1 where "m1 = snd (pwm_outputs_enable (tim2 f) 0x55 False m)"
  define m2 where "m2 = snd (pwm_timer_enable (tim2 f) False m1)"
  define m3 where "m3 = snd (pwm_timer_configure (tim2 f) m2)"
  note e1 = outputs_enable_tim2 [OF hw, where f = f and st = False]
  have h1: "tim2_hw m1" using e1(3) hw tim2_hw_cong m1_def by metis
  note e2 = timer_enable_tim2 [OF h1, where f = f and st = False]
  have h2: "tim2_hw m2" using e2(3) h1 tim2_hw_cong m2_def by metis
  note e3 = timer_configure_tim2 [OF h2, where f = f]
  have h3: "tim2_hw m3" using e3(3) h2 tim2_hw_cong m3_def by metis
  obtain m' where m': "configure_channels (tim2 f) g_pwm2channels m3 = Some (OK, m')"
    "react m' = react m3"
    "\<And>off. tim2_reg off m' =
       (if off = GTIM_CCMR1 \<or> off = GTIM_CCMR2 then (tim2_reg off m3 AND 0x8484) OR 0x6868
        else tim2_reg off m3)"
    by (rule configure_channels_tim2 [OF h3, where f = f]) (rule that)
  have "pwm_configure (tim2 f) m = Some (OK, m')"
    using e1(1) e2(1) e3(1) m'(1)
    by (simp add: pwm_configure_def Let_def split_beta m1_def m2_def m3_def)
  moreover have "react m' = react m"
    using m'(2) e1(3) e2(3) e3(3) by (simp add: m1_def m2_def m3_def)
  moreover have "tim2_reg off m' =
       (if off = GTIM_CR1 then (tim2_reg off m AND 0xff8e) OR 0x80
        else if off = GTIM_CCER then tim2_reg off m AND 0xeeee
        else if off = GTIM_CCMR1 \<or> off = GTIM_CCMR2 then (tim2_reg off m AND 0x8484) OR 0x6868
        else tim2_reg off m)" for off
    using e1(2) e2(2) e3(2) m'(3) [of off]
    by (simp add: m1_def [symmetric] m2_def [symmetric] m3_def [symmetric] and.assoc)
  ultimately show thesis by (rule that)
qed

lemma tim2_reg_getreg:
  "tim2_reg off m = (if is32 off then getreg32 (0x40000000 + off) m
                     else take_bit 16 (getreg32 (0x40000000 + off) m))"
proof -
  have "(ucast (ucast x :: u16) :: u32) = take_bit 16 x" for x :: u32 by simp
  then show ?thesis
    by (simp add: tim2_reg_def pwm_getreg_def is32_def getreg16_def getreg32_def g_pwm2dev_def)
qed

lemma tim2_reg_frame:
  "getreg32 (0x40000000 + off) m' = getreg32 (0x40000000 + off) m \<Longrightarrow> tim2_reg off m' = tim2_reg off m"
  by (simp add: tim2_reg_getreg)

lemma apb_clock_tim2:
  assumes "tim2_hw m"
  shows "fst (pwm_set_apb_clock (tim2 f) on m) = OK"
    and "react (snd (pwm_set_apb_clock (tim2 f) on m)) = react m"
    and "a \<noteq> STM32_RCC_APB1ENR \<Longrightarrow>
           getreg32 a (snd (pwm_set_apb_clock (tim2 f) on m)) = getreg32 a m"
    and "bit (getreg32 STM32_RCC_APB1ENR (snd (pwm_set_apb_clock (tim2 f) on m))) 0 = on"
  using assms by (auto simp: pwm_set_apb_clock_def Let_def tim2_hw_def mmio_simps bit_simps)

lemma gpio_configs_frame:
  assumes "gpio_hw m" "a < 0x40013800 \<or> 0x40023800 \<le> a"
  shows "getreg32 a (setup_pins cs m) = getreg32 a m \<and> react (setup_pins cs m) = react m"
    and "getreg32 a (release_pins cs m) = getreg32 a m \<and> react (release_pins cs m) = react m"
proof -
  have s: "react (setup_pins cs m) = react m" for cs m
    by (induction cs m rule: setup_pins.induct) simp_all
  have r: "react (release_pins cs m) = react m" for cs m
    by (induction cs m rule: release_pins.induct) (simp_all add: Let_def)
  have h: "gpio_hw (snd (stm32_configgpio c m)) = gpio_hw m" for c m
    by (rule gpio_hw_cong) simp
  show "getreg32 a (setup_pins cs m) = getreg32 a m \<and> react (setup_pins cs m) = react m"
    using assms by (induction cs m rule: setup_pins.induct)
      (simp_all add: s h getreg32_configgpio_other)
  show "getreg32 a (release_pins cs m) = getreg32 a m \<and> react (release_pins cs m) = react m"
    using assms by (induction cs m rule: release_pins.induct)
      (simp_all add: r h getreg32_configgpio_other Let_def)
qed

section \<open>Frame: the timer functions touch the timer only\<close>

definition tim2_only :: "mcu \<Rightarrow> mcu \<Rightarrow> bool" where
  "tim2_only m m' \<longleftrightarrow> react m' = react m \<and> (\<forall>a \<ge> 0x40010000. getreg32 a m' = getreg32 a m)"

lemma tim2_only_refl [simp]: "tim2_only m m"
  by (simp add: tim2_only_def)

lemma tim2_only_trans: "tim2_only m m' \<Longrightarrow> tim2_only m' m'' \<Longrightarrow> tim2_only m m''"
  by (simp add: tim2_only_def)

lemma tim2_only_hw: "tim2_only m m' \<Longrightarrow> tim2_hw m' = tim2_hw m"
  using tim2_hw_cong [of m' m] by (simp add: tim2_only_def)

definition tim2_offset :: "u32 \<Rightarrow> bool" where
  "tim2_offset off \<longleftrightarrow> off \<in> set tim2_storage_offsets \<or> off = GTIM_EGR \<or> off = GTIM_SR"

lemma tim2_offset_range: "tim2_offset off \<Longrightarrow> 0x40010000 \<le> a \<Longrightarrow> a \<noteq> 0x40000000 + off"
  by (auto simp: tim2_offset_def tim2_storage_offsets_def)

lemma tim2_store_frame:
  assumes "tim2_hw m" "tim2_offset off" "0x40010000 \<le> a"
  shows "getreg32 a (putreg32 v (0x40000000 + off) m) = getreg32 a m"
proof (cases "off \<in> set tim2_storage_offsets")
  case True
  then show ?thesis
    using assms tim2_offset_range [OF assms(2,3)] by (simp add: getreg32_putreg32 tim2_storage)
next
  case False
  then have "off = GTIM_EGR \<or> off = GTIM_SR" using assms(2) by (simp add: tim2_offset_def)
  moreover have "a \<notin> {0x40000010, 0x40000014, 0x40000024}" using assms(3) by auto
  ultimately show ?thesis
    using assms(1) by (auto simp: tim2_hw_def getreg32_def putreg32_def)
qed

lemma tim2_only_putreg:
  "tim2_hw m \<Longrightarrow> tim2_offset off \<Longrightarrow> tim2_only m (pwm_putreg (tim2 f) off v m)"
  by (simp add: tim2_only_def pwm_putreg_def putreg16_def tim2_store_frame)

lemma tim2_only_modifyreg:
  "tim2_hw m \<Longrightarrow> tim2_offset off \<Longrightarrow> tim2_only m (pwm_modifyreg (tim2 f) off c s m)"
  by (simp add: tim2_only_def pwm_modifyreg_def modifyreg16_def modifyreg32_def Let_def putreg16_def
      tim2_store_frame)

lemma tim2_offset_simps [simp]:
  "tim2_offset GTIM_CR1" "tim2_offset GTIM_CR2" "tim2_offset GTIM_DIER" "tim2_offset GTIM_SR"
  "tim2_offset GTIM_EGR" "tim2_offset GTIM_CCMR1" "tim2_offset GTIM_CCMR2" "tim2_offset GTIM_CCER"
  "tim2_offset GTIM_PSC" "tim2_offset GTIM_ARR" "tim2_offset GTIM_CCR1" "tim2_offset GTIM_CCR2"
  "tim2_offset GTIM_CCR3" "tim2_offset GTIM_CCR4"
  by (simp_all add: tim2_offset_def)

lemma tim2_only_ops:
  assumes "tim2_hw m"
  shows "tim2_only m (snd (pwm_outputs_enable (tim2 f) outs st m))"
    and "tim2_only m (snd (pwm_timer_enable (tim2 f) st m))"
    and "tim2_only m (snd (pwm_timer_configure (tim2 f) m))"
    and "tim2_only m (snd (pwm_mode_configure (tim2 f) c md m))"
    and "tim2_only m (snd (pwm_duty_update (tim2 f) c d m))"
    and "tim2_only m (snd (pwm_soft_update (tim2 f) m))"
    and "pwm_output_configure (tim2 f) c m = Some (ret, m') \<Longrightarrow> tim2_only m m'"
    and "pwm_frequency_update (tim2 f) fr m = Some (ret, m') \<Longrightarrow> tim2_only m m'"
proof -
  have two: "tim2_only m (pwm_modifyreg (tim2 f) 0x20 0 s (pwm_modifyreg (tim2 f) 4 0 s' m))" for s s'
    using assms by (intro tim2_only_trans [OF tim2_only_modifyreg tim2_only_modifyreg]) simp_all
  show "pwm_output_configure (tim2 f) c m = Some (ret, m') \<Longrightarrow> tim2_only m m'"
    using two by (auto simp: pwm_output_configure_def Let_def split: if_splits)
  have "tim2_only m (pwm_putreg (tim2 f) 0x28 s (pwm_putreg (tim2 f) 0x2c s' m))" for s s'
    using assms by (intro tim2_only_trans [OF tim2_only_putreg tim2_only_putreg]) simp_all
  then show "pwm_frequency_update (tim2 f) fr m = Some (ret, m') \<Longrightarrow> tim2_only m m'"
    by (auto simp: pwm_frequency_update_def pwm_arr_update_def Let_def split: if_splits)
qed (use assms in \<open>simp_all add: pwm_outputs_enable_def pwm_timer_enable_def pwm_timer_configure_def
      pwm_mode_configure_def pwm_duty_update_def pwm_soft_update_def pwm_ccr_update_def
      Let_def tim2_only_putreg tim2_only_modifyreg split: option.split\<close>)

lemma configure_channels_frame:
  "tim2_hw m \<Longrightarrow> configure_channels (tim2 f) cs m = Some (ret, m') \<Longrightarrow> tim2_only m m'"
proof (induction cs arbitrary: m)
  case Nil
  then show ?case by simp
next
  case (Cons c cs)
  define m1 where "m1 = snd (pwm_mode_configure (tim2 f) (ch_channel c) (ucast (ch_mode c)) m)"
  have o1: "tim2_only m m1" unfolding m1_def by (rule tim2_only_ops(4) [OF Cons.prems(1)])
  have h1: "tim2_hw m1" using Cons.prems(1) tim2_only_hw [OF o1] by simp
  show ?case
  proof (cases "ch_channel c = 0 \<or> fst (pwm_mode_configure (tim2 f) (ch_channel c) (ucast (ch_mode c)) m) < 0")
    case True
    then show ?thesis using Cons o1 by (auto simp: split_beta Let_def m1_def split: if_splits)
  next
    case False
    then obtain r m2 where 2: "pwm_output_configure (tim2 f) (ch_channel c) m1 = Some (r, m2)"
      using Cons.prems(2) by (auto simp: split_beta Let_def m1_def bind_eq_Some_conv_ex)
    have o2: "tim2_only m m2" by (rule tim2_only_trans [OF o1 tim2_only_ops(7) [OF h1 2]])
    then have "tim2_hw m2" using Cons.prems(1) tim2_only_hw by blast
    then show ?thesis
      using Cons.prems(2) False 2 Cons.IH [of m2] o2 tim2_only_trans [OF o2]
      by (auto simp: split_beta Let_def m1_def [symmetric] split: if_splits)
  qed
qed

lemma pwm_configure_frame:
  assumes hw: "tim2_hw m" and c: "pwm_configure (tim2 f) m = Some (ret, m')"
  shows "tim2_only m m'"
proof -
  define m1 where "m1 = snd (pwm_outputs_enable (tim2 f) 0x55 False m)"
  define m2 where "m2 = snd (pwm_timer_enable (tim2 f) False m1)"
  define m3 where "m3 = snd (pwm_timer_configure (tim2 f) m2)"
  have o1: "tim2_only m m1" unfolding m1_def by (rule tim2_only_ops(1) [OF hw])
  then have h1: "tim2_hw m1" using hw tim2_only_hw by blast
  have o2: "tim2_only m1 m2" unfolding m2_def by (rule tim2_only_ops(2) [OF h1])
  then have h2: "tim2_hw m2" using h1 tim2_only_hw by blast
  have o3: "tim2_only m2 m3" unfolding m3_def by (rule tim2_only_ops(3) [OF h2])
  then have h3: "tim2_hw m3" using h2 tim2_only_hw by blast
  have "configure_channels (tim2 f) g_pwm2channels m3 = Some (ret, m')"
    using c outputs_enable_tim2(1) [OF hw, of f False] timer_configure_tim2(1) [OF h2, of f]
    by (auto simp: pwm_configure_def Let_def split_beta m1_def [symmetric] m2_def [symmetric]
        m3_def [symmetric] bind_eq_Some_conv_ex split: if_splits)
  then have "tim2_only m3 m'" by (rule configure_channels_frame [OF h3])
  then show ?thesis using o1 o2 o3 tim2_only_trans by blast
qed

lemma tim2_pincfg:
  assumes "i < 4"
  shows "gpio_port (0x81800 + of_nat i) = 0" "gpio_pin (0x81800 + of_nat i) = i"
    "config_pinmode (0x81800 + of_nat i) = 2" "config_af (0x81800 + of_nat i) = 1"
proof -
  have "i = 0 \<or> i = 1 \<or> i = 2 \<or> i = 3" using assms by auto
  then show "gpio_port (0x81800 + of_nat i) = 0" "gpio_pin (0x81800 + of_nat i) = i"
    "config_pinmode (0x81800 + of_nat i) = 2" "config_af (0x81800 + of_nat i) = 1"
    by (auto simp: gpio_port_def gpio_pin_def config_pinmode_def config_af_def)
qed

lemma configgpio_tim2_pin:
  assumes hw: "gpio_hw m" and i: "i < 4"
  defines "m' \<equiv> snd (stm32_configgpio (0x81800 + of_nat i) m)"
  shows "getreg32 0x40020000 m' = ins_field (2 * i) 2 2 (getreg32 0x40020000 m)"
    and "getreg32 0x40020020 m' = ins_field (4 * i) 4 1 (getreg32 0x40020020 m)"
    and "gpio_hw m'"
proof -
  have b: "g_gpiobase ! 0 = 0x40020000" by (simp add: g_gpiobase_def)
  note p = tim2_pincfg [OF i]
  note c = configgpio_regs [OF hw, of "0x81800 + of_nat i", unfolded p b, folded m'_def]
  show "getreg32 0x40020000 m' = ins_field (2 * i) 2 2 (getreg32 0x40020000 m)" using c(1) by simp
  show "getreg32 0x40020020 m' = ins_field (4 * i) 4 1 (getreg32 0x40020020 m)" using c(4) i by simp
  show "gpio_hw m'" using hw gpio_hw_cong [of m' m] by (simp add: m'_def)
qed

lemma setup_pins_tim2:
  assumes hw: "gpio_hw m" and i: "i < 4"
  shows "field (2 * i) 2 (getreg32 0x40020000 (setup_pins g_pwm2channels m)) = 2"
    and "field (4 * i) 4 (getreg32 0x40020020 (setup_pins g_pwm2channels m)) = 1"
proof -
  define m0 where "m0 = snd (stm32_configgpio 0x81800 m)"
  define m1 where "m1 = snd (stm32_configgpio 0x81801 m0)"
  define m2 where "m2 = snd (stm32_configgpio 0x81802 m1)"
  define m3 where "m3 = snd (stm32_configgpio 0x81803 m2)"
  have m3: "setup_pins g_pwm2channels m = m3"
    by (simp add: g_pwm2channels_def tim2_channel_def m0_def m1_def m2_def m3_def)
  note 0 = configgpio_tim2_pin [of m 0, simplified, OF hw, folded m0_def]
  note 1 = configgpio_tim2_pin [of m0 1, simplified, OF 0(3), folded m1_def]
  note 2 = configgpio_tim2_pin [of m1 2, simplified, OF 1(3), folded m2_def]
  note 3 = configgpio_tim2_pin [of m2 3, simplified, OF 2(3), folded m3_def]
  have r: "getreg32 0x40020000 m3 = ins_field 6 2 2 (ins_field 4 2 2 (ins_field 2 2 2 (ins_field 0 2 2 (getreg32 0x40020000 m))))"
    "getreg32 0x40020020 m3 = ins_field 12 4 1 (ins_field 8 4 1 (ins_field 4 4 1 (ins_field 0 4 1 (getreg32 0x40020020 m))))"
    using 0 1 2 3 by simp_all
  have "i = 0 \<or> i = 1 \<or> i = 2 \<or> i = 3" using i by auto
  then show "field (2 * i) 2 (getreg32 0x40020000 (setup_pins g_pwm2channels m)) = 2"
    "field (4 * i) 4 (getreg32 0x40020020 (setup_pins g_pwm2channels m)) = 1"
    unfolding m3 r by (auto simp: field_ins_field)
qed

section \<open>Setup\<close>

lemma pwm_setup_tim2:
  assumes hw: "board_hw m"
  obtains m' where "pwm_setup (tim2 f) m = Some (OK, m')" "react m' = react m"
    "\<And>off. off < 0x400 \<Longrightarrow> tim2_reg off m' =
       (if off = GTIM_CR1 then (tim2_reg off m AND 0xff8e) OR 0x80
        else if off = GTIM_CCER then tim2_reg off m AND 0xeeee
        else if off = GTIM_CCMR1 \<or> off = GTIM_CCMR2 then (tim2_reg off m AND 0x8484) OR 0x6868
        else tim2_reg off m)"
    "bit (getreg32 STM32_RCC_APB1ENR m') 0"
    "\<And>i. i < 4 \<Longrightarrow> field (2 * i) 2 (getreg32 0x40020000 m') = 2"
    "\<And>i. i < 4 \<Longrightarrow> field (4 * i) 4 (getreg32 0x40020020 m') = 1"
proof -
  have t: "tim2_hw m" and g: "gpio_hw m" using hw by (simp_all add: board_hw_def)
  define m1 where "m1 = snd (pwm_set_apb_clock (tim2 f) True m)"
  define m2 where "m2 = setup_pins g_pwm2channels m1"
  note a = apb_clock_tim2 [OF t, where f = f and on = True, folded m1_def]
  have g1: "gpio_hw m1" using g gpio_hw_cong [of m1 m] a(2) by simp
  note fr = gpio_configs_frame(1) [OF g1, where cs = g_pwm2channels, folded m2_def]
  have r2: "react m2 = react m" using fr [of 0] a(2) by simp
  have t2: "tim2_hw m2" using t tim2_hw_cong [OF r2] by simp
  obtain m' where m': "pwm_configure (tim2 f) m2 = Some (OK, m')" "react m' = react m2"
    "\<And>off. tim2_reg off m' =
       (if off = GTIM_CR1 then (tim2_reg off m2 AND 0xff8e) OR 0x80
        else if off = GTIM_CCER then tim2_reg off m2 AND 0xeeee
        else if off = GTIM_CCMR1 \<or> off = GTIM_CCMR2 then (tim2_reg off m2 AND 0x8484) OR 0x6868
        else tim2_reg off m2)"
    by (rule pwm_configure_tim2 [OF t2, where f = f]) (rule that)
  have o: "\<And>a. 0x40010000 \<le> a \<Longrightarrow> getreg32 a m' = getreg32 a m2"
    using pwm_configure_frame [OF t2 m'(1)] by (simp add: tim2_only_def)
  have keep: "tim2_reg off m2 = tim2_reg off m" if "off < 0x400" for off
  proof -
    have u: "unat (0x40000000 + off) = 0x40000000 + unat off" "unat off < 0x400"
      using that by (simp_all add: word_less_nat_alt unat_word_ariths)
    then have "0x40000000 + off < 0x40013800" by (simp add: word_less_nat_alt)
    moreover have "0x40000000 + off \<noteq> 0x40023840" using u by auto
    ultimately show ?thesis
      using fr a(3) by (intro tim2_reg_frame) metis
  qed
  show thesis
  proof (rule that [of m'])
    show "pwm_setup (tim2 f) m = Some (OK, m')"
      using a(1) m'(1) by (simp add: pwm_setup_def split_beta Let_def m1_def [symmetric] m2_def)
    show "react m' = react m" using m'(2) r2 by simp
    show "bit (getreg32 STM32_RCC_APB1ENR m') 0" using a(4) o fr [of STM32_RCC_APB1ENR] by simp
  qed (use m'(3) keep o setup_pins_tim2 [OF g1, folded m2_def] in simp_all)
qed

text \<open>The compare register of a channel and its content after a list of duty requests.\<close>

definition ccr_off :: "u8 \<Rightarrow> u32" where
  "ccr_off c = 0x30 + 4 * ucast c"

primrec new_ccr :: "pwm_chan_s list \<Rightarrow> u32 \<Rightarrow> u32 \<Rightarrow> u32 \<Rightarrow> u32" where
  "new_ccr [] arr off old = old"
| "new_ccr (c # cs) arr off old =
     new_ccr cs arr off
       (if channel c \<in> {1, 2, 3, 4} \<and> off = ccr_off (channel c) then duty_to_ccr (duty c) arr else old)"

lemma ccr_off_simps [simp]:
  "ccr_off 1 = GTIM_CCR1" "ccr_off 2 = GTIM_CCR2" "ccr_off 3 = GTIM_CCR3" "ccr_off 4 = GTIM_CCR4"
  by (simp_all add: ccr_off_def)

lemma duty_update_tim2:
  assumes "tim2_hw m"
  shows "fst (pwm_duty_update (tim2 f) c d m) = OK"
    and "tim2_reg off (snd (pwm_duty_update (tim2 f) c d m)) =
           (if c \<in> {1, 2, 3, 4} \<and> off = ccr_off c then duty_to_ccr d (tim2_reg GTIM_ARR m)
            else tim2_reg off m)"
  using assms
  by (auto simp: pwm_duty_update_def pwm_ccr_update_def pwm_arr_get_def Let_def tim2_reg_putreg)

lemma arr_not_ccr: "c \<in> {1, 2, 3, 4} \<Longrightarrow> ccr_off c \<noteq> GTIM_ARR"
  by auto

lemma duty_update_arr:
  "tim2_hw m \<Longrightarrow> tim2_reg GTIM_ARR (snd (pwm_duty_update (tim2 f) c d m)) = tim2_reg GTIM_ARR m"
  by (auto simp: duty_update_tim2)

lemma start_duty_loop_tim2:
  "tim2_hw m \<Longrightarrow>
     fst (start_duty_loop (tim2 f) cs OK m) = OK \<and>
     tim2_only m (snd (start_duty_loop (tim2 f) cs OK m)) \<and>
     tim2_reg off (snd (start_duty_loop (tim2 f) cs OK m)) =
       new_ccr cs (tim2_reg GTIM_ARR m) off (tim2_reg off m)"
proof (induction cs arbitrary: m)
  case (Cons c cs)
  define m1 where "m1 = snd (pwm_duty_update (tim2 f) (channel c) (duty c) m)"
  have o: "tim2_only m m1" unfolding m1_def by (rule tim2_only_ops(5) [OF Cons.prems])
  then have h: "tim2_hw m1" using Cons.prems tim2_only_hw by blast
  have "start_duty_loop (tim2 f) (c # cs) OK m = start_duty_loop (tim2 f) cs OK m1"
    using duty_update_tim2(1) [OF Cons.prems] by (simp add: split_beta Let_def m1_def)
  then show ?case
    using Cons.IH [OF h] o tim2_only_trans [OF o] duty_update_tim2(2) [OF Cons.prems, of off f "channel c" "duty c"]
      duty_update_arr [OF Cons.prems, of f "channel c" "duty c"]
    by (simp add: m1_def [symmetric])
qed simp

lemma channels_tim2 [simp]: "ch_channel ` set g_pwm2channels = {1, 2, 3, 4}"
  by (auto simp: g_pwm2channels_def tim2_channel_def)

lemma u8_le_4: "(c :: u8) \<le> 4 \<Longrightarrow> c = 0 \<or> c \<in> {1, 2, 3, 4}"
proof -
  assume "c \<le> 4"
  then have "unat c = 0 \<or> unat c = 1 \<or> unat c = 2 \<or> unat c = 3 \<or> unat c = 4"
    by (simp add: word_le_nat_alt) arith
  then show ?thesis by (auto simp: word_unat_eq_iff)
qed

lemma duty_update_skip: "snd (pwm_duty_update p 0 d m) = m"
  by (simp add: pwm_duty_update_def pwm_ccr_update_def Let_def)

lemma duty_channels_loop_tim2:
  "tim2_hw m \<Longrightarrow> \<forall>c \<in> set cs. channel c \<le> 4 \<Longrightarrow>
     duty_channels_loop (tim2 f) cs m = snd (start_duty_loop (tim2 f) cs OK m)"
proof (induction cs arbitrary: m)
  case (Cons c cs)
  define m1 where "m1 = snd (pwm_duty_update (tim2 f) (channel c) (duty c) m)"
  have "tim2_only m m1" unfolding m1_def by (rule tim2_only_ops(5) [OF Cons.prems(1)])
  then have h: "tim2_hw m1" using Cons.prems tim2_only_hw by blast
  have "channel c = 0 \<or> channel c \<in> {1, 2, 3, 4}"
    using Cons.prems(2) by (intro u8_le_4) simp
  moreover have "m1 = m" if "channel c = 0" by (simp add: m1_def that duty_update_skip)
  ultimately show ?case
    using Cons.IH [OF h] Cons.prems(2) duty_update_tim2(1) [OF Cons.prems(1)]
    by (auto simp: split_beta Let_def m1_def [symmetric])
qed simp

section \<open>Start\<close>

lemma new_ccr_other: "\<forall>c \<in> {1, 2, 3, 4}. off \<noteq> ccr_off c \<Longrightarrow> new_ccr cs arr off old = old"
  by (induction cs arbitrary: old) auto

lemma new_ccr_config [simp]:
  "new_ccr cs arr GTIM_CR1 old = old" "new_ccr cs arr GTIM_CCER old = old"
  "new_ccr cs arr GTIM_PSC old = old" "new_ccr cs arr GTIM_ARR old = old"
  "new_ccr cs arr GTIM_CCMR1 old = old" "new_ccr cs arr GTIM_CCMR2 old = old"
  by (simp_all add: new_ccr_other)

lemma frequency_update_tim2:
  assumes "tim2_hw m" "fr \<noteq> 0"
  obtains m' where "pwm_frequency_update (tim2 f) fr m = Some (OK, m')" "tim2_only m m'"
    "\<And>off. tim2_reg off m' =
       (if off = GTIM_PSC then take_bit 16 (freq_prescaler 84000000 fr - 1)
        else if off = GTIM_ARR then freq_reload 84000000 fr else tim2_reg off m)"
proof -
  define m' where "m' = snd (the (pwm_frequency_update (tim2 f) fr m))"
  have m': "pwm_frequency_update (tim2 f) fr m = Some (OK, m')"
    using assms by (simp add: m'_def pwm_frequency_update_def pwm_arr_update_def Let_def)
  have "tim2_reg off m' =
       (if off = GTIM_PSC then take_bit 16 (freq_prescaler 84000000 fr - 1)
        else if off = GTIM_ARR then freq_reload 84000000 fr else tim2_reg off m)" for off
    using assms by (simp add: m'_def pwm_frequency_update_def pwm_arr_update_def Let_def tim2_reg_putreg)
  then show thesis using that m' tim2_only_ops(8) [OF assms(1) m'] by blast
qed

lemma pwm_timer_tim2:
  assumes hw: "tim2_hw m" and fr: "frequency info \<noteq> 0" and ch: "\<forall>c \<in> set (channels info). channel c \<le> 4"
  obtains m' where "pwm_timer (tim2 f) info m = Some (OK, m')" "tim2_only m m'"
    "\<And>off. off \<notin> {GTIM_SR, GTIM_EGR, GTIM_CNT} \<Longrightarrow> tim2_reg off m' =
       (if off = GTIM_CR1 then tim2_reg off m OR 1
        else if off = GTIM_CCER then tim2_reg off m OR 0x1111
        else if off = GTIM_PSC then take_bit 16 (freq_prescaler 84000000 (frequency info) - 1)
        else if off = GTIM_ARR then freq_reload 84000000 (frequency info)
        else new_ccr (channels info) (freq_reload 84000000 (frequency info)) off (tim2_reg off m))"
proof -
  obtain m1 where 1: "pwm_frequency_update (tim2 f) (frequency info) m = Some (OK, m1)" "tim2_only m m1"
    "\<And>off. tim2_reg off m1 =
       (if off = GTIM_PSC then take_bit 16 (freq_prescaler 84000000 (frequency info) - 1)
        else if off = GTIM_ARR then freq_reload 84000000 (frequency info) else tim2_reg off m)"
    by (rule frequency_update_tim2 [OF hw fr, where f = f]) (rule that)
  have h1: "tim2_hw m1" using 1(2) hw tim2_only_hw by blast
  define m2 where "m2 = duty_channels_loop (tim2 f) (channels info) m1"
  have m2: "m2 = snd (start_duty_loop (tim2 f) (channels info) OK m1)"
    unfolding m2_def by (rule duty_channels_loop_tim2 [OF h1 ch])
  note l = start_duty_loop_tim2 [OF h1, of f "channels info", folded m2]
  have h2: "tim2_hw m2" using l h1 tim2_only_hw by blast
  define m3 where "m3 = snd (pwm_soft_update (tim2 f) m2)"
  have o3: "tim2_only m2 m3" unfolding m3_def by (rule tim2_only_ops(6) [OF h2])
  then have h3: "tim2_hw m3" using h2 tim2_only_hw by blast
  have r3: "tim2_reg off m3 = tim2_reg off m2" if "off \<notin> {GTIM_SR, GTIM_EGR, GTIM_CNT}" for off
    unfolding m3_def pwm_soft_update_def using tim2_reg_event [OF h2 _ that, of "0x14"] by simp
  define m4 where "m4 = snd (pwm_outputs_enable (tim2 f) 0x55 True m3)"
  have o4: "tim2_only m3 m4" unfolding m4_def by (rule tim2_only_ops(1) [OF h3])
  then have h4: "tim2_hw m4" using h3 tim2_only_hw by blast
  define m5 where "m5 = snd (pwm_timer_enable (tim2 f) True m4)"
  have o5: "tim2_only m4 m5" unfolding m5_def by (rule tim2_only_ops(2) [OF h4])
  note e4 = outputs_enable_tim2 [OF h3, where f = f and st = True, folded m4_def]
  note e5 = timer_enable_tim2 [OF h4, where f = f and st = True, folded m5_def]
  show thesis
  proof (rule that [of m5])
    show "pwm_timer (tim2 f) info m = Some (OK, m5)"
      using 1(1) e4(1) e5(1)
      by (simp add: pwm_timer_def pwm_duty_channels_update_def m2_def [symmetric] Let_def split_beta
          m3_def [symmetric] m4_def [symmetric] m5_def [symmetric])
    show "tim2_only m m5"
      using 1(2) l o3 o4 o5 tim2_only_trans by blast
  qed (use e5(2) e4(2) r3 l 1(3) in simp)
qed

section \<open>Stop and shutdown\<close>

lemma tim2_block: "off < 0x400 \<Longrightarrow> 0x40000000 \<le> 0x40000000 + off \<and> (0x40000000 + off :: u32) < 0x40000400"
proof -
  assume "off < 0x400"
  then have "unat (0x40000000 + off) = 0x40000000 + unat off" "unat off < 0x400"
    by (simp_all add: word_less_nat_alt unat_word_ariths)
  then show ?thesis by (simp add: word_le_nat_alt word_less_nat_alt)
qed

lemma reset_pulse:
  assumes hw: "tim2_hw m" and v: "bit v1 0" "\<not> bit v2 0"
  defines "m' \<equiv> putreg32 v2 STM32_RCC_APB1RSTR (putreg32 v1 STM32_RCC_APB1RSTR m)"
  shows "off < 0x400 \<Longrightarrow> tim2_reg off m' = (if off = GTIM_ARR then 0xffffffff else 0)"
    and "0x40010000 \<le> a \<Longrightarrow> a \<noteq> STM32_RCC_APB1RSTR \<Longrightarrow> getreg32 a m' = getreg32 a m"
    and "getreg32 STM32_RCC_APB1RSTR m' = v2"
    and "react m' = react m"
proof -
  have R: "react m 0x40023820 v r x =
      (if bit v 0 then if x = 0x4000002c then 0xffffffff else 0 else r x)"
    if "0x40000000 \<le> x" "x < 0x40000400" for v r x
    using hw that by (simp add: tim2_hw_def)
  have K: "react m 0x40023820 v r x = r x" if "0x40010000 \<le> x" for v r x
    using hw that by (simp add: tim2_hw_def)
  show "tim2_reg off m' = (if off = GTIM_ARR then 0xffffffff else 0)" if off: "off < 0x400"
  proof -
    have "getreg32 (0x40000000 + off) m' = (if off = GTIM_ARR then 0xffffffff else 0)"
      using R [of "0x40000000 + off"] tim2_block [OF off] v
      by (auto simp: m'_def getreg32_def putreg32_def)
    then show ?thesis by (cases "off = GTIM_ARR") (simp_all add: tim2_reg_getreg)
  qed
  show "getreg32 a m' = getreg32 a m" if "0x40010000 \<le> a" "a \<noteq> STM32_RCC_APB1RSTR"
    using K that by (simp add: m'_def getreg32_def putreg32_def)
  show "getreg32 STM32_RCC_APB1RSTR m' = v2"
    using K by (simp add: m'_def getreg32_def putreg32_def)
  show "react m' = react m" by (simp add: m'_def)
qed

lemma pwm_stop_tim2:
  assumes hw: "tim2_hw m"
  obtains m' where "pwm_stop (tim2 f) m = (OK, tim2 0, m')" "react m' = react m"
    "\<And>off. off < 0x400 \<Longrightarrow> tim2_reg off m' = (if off = GTIM_ARR then 0xffffffff else 0)"
    "\<And>a. 0x40010000 \<le> a \<Longrightarrow> a \<noteq> STM32_RCC_APB1RSTR \<Longrightarrow> getreg32 a m' = getreg32 a m"
    "\<not> bit (getreg32 STM32_RCC_APB1RSTR m') 0"
proof -
  define m1 where "m1 = pwm_putreg (tim2 0) GTIM_SR 0 (pwm_putreg (tim2 0) GTIM_DIER 0 m)"
  define v where "v = getreg32 STM32_RCC_APB1RSTR m1 OR 1"
  define m' where "m' = putreg32 (v AND NOT 1) STM32_RCC_APB1RSTR (putreg32 v STM32_RCC_APB1RSTR m1)"
  have o1: "tim2_only m m1"
    unfolding m1_def using hw by (intro tim2_only_trans [OF tim2_only_putreg tim2_only_putreg]) simp_all
  have h1: "tim2_hw m1" using hw tim2_only_hw [OF o1] by simp
  have b: "bit v 0" "\<not> bit (v AND NOT 1) 0" by (simp_all add: v_def bit_simps)
  note rp = reset_pulse [OF h1 b, folded m'_def]
  show thesis
  proof (rule that [of m'])
    show "pwm_stop (tim2 f) m = (OK, tim2 0, m')"
      by (simp add: pwm_stop_def Let_def m'_def v_def m1_def)
  qed (use rp o1 b in \<open>simp_all add: tim2_only_def\<close>)
qed

lemma tim2_release_cfg:
  assumes "i < 4"
  shows "gpio_port (of_nat i) = 0" "gpio_pin (of_nat i) = i" "config_pinmode (of_nat i) = 0"
proof -
  have "i = 0 \<or> i = 1 \<or> i = 2 \<or> i = 3" using assms by auto
  then show "gpio_port (of_nat i) = 0" "gpio_pin (of_nat i) = i" "config_pinmode (of_nat i) = 0"
    by (auto simp: gpio_port_def gpio_pin_def config_pinmode_def)
qed

lemma configgpio_release_pin:
  assumes hw: "gpio_hw m" and i: "i < 4"
  defines "m' \<equiv> snd (stm32_configgpio (of_nat i) m)"
  shows "getreg32 0x40020000 m' = ins_field (2 * i) 2 0 (getreg32 0x40020000 m)"
    and "gpio_hw m'"
proof -
  have b: "g_gpiobase ! 0 = 0x40020000" by (simp add: g_gpiobase_def)
  note c = configgpio_regs [OF hw, of "of_nat i", unfolded tim2_release_cfg [OF i] b, folded m'_def]
  show "getreg32 0x40020000 m' = ins_field (2 * i) 2 0 (getreg32 0x40020000 m)" using c(1) by simp
  show "gpio_hw m'" using hw gpio_hw_cong [of m' m] by (simp add: m'_def)
qed

lemma release_pins_tim2:
  assumes hw: "gpio_hw m" and i: "i < 4"
  shows "field (2 * i) 2 (getreg32 0x40020000 (release_pins g_pwm2channels m)) = 0"
proof -
  define m0 where "m0 = snd (stm32_configgpio 0 m)"
  define m1 where "m1 = snd (stm32_configgpio 1 m0)"
  define m2 where "m2 = snd (stm32_configgpio 2 m1)"
  define m3 where "m3 = snd (stm32_configgpio 3 m2)"
  have m3: "release_pins g_pwm2channels m = m3"
    by (simp add: g_pwm2channels_def tim2_channel_def m0_def m1_def m2_def m3_def Let_def)
  note 0 = configgpio_release_pin [of m 0, simplified, OF hw, folded m0_def]
  note 1 = configgpio_release_pin [of m0 1, simplified, OF 0(2), folded m1_def]
  note 2 = configgpio_release_pin [of m1 2, simplified, OF 1(2), folded m2_def]
  note 3 = configgpio_release_pin [of m2 3, simplified, OF 2(2), folded m3_def]
  have r: "getreg32 0x40020000 m3 = ins_field 6 2 0 (ins_field 4 2 0 (ins_field 2 2 0 (ins_field 0 2 0 (getreg32 0x40020000 m))))"
    using 0 1 2 3 by simp
  have "i = 0 \<or> i = 1 \<or> i = 2 \<or> i = 3" using i by auto
  then show ?thesis unfolding m3 r by (auto simp: field_ins_field)
qed

lemma pwm_shutdown_tim2:
  assumes hw: "board_hw m"
  obtains m' where "pwm_shutdown (tim2 f) m = (OK, tim2 0, m')" "react m' = react m"
    "\<And>off. off < 0x400 \<Longrightarrow> tim2_reg off m' = (if off = GTIM_ARR then 0xffffffff else 0)"
    "\<not> bit (getreg32 STM32_RCC_APB1ENR m') 0"
    "\<And>i. i < 4 \<Longrightarrow> field (2 * i) 2 (getreg32 0x40020000 m') = 0"
proof -
  have t: "tim2_hw m" and g: "gpio_hw m" using hw by (simp_all add: board_hw_def)
  obtain m1 where 1: "pwm_stop (tim2 f) m = (OK, tim2 0, m1)" "react m1 = react m"
    "\<And>off. off < 0x400 \<Longrightarrow> tim2_reg off m1 = (if off = GTIM_ARR then 0xffffffff else 0)"
    by (rule pwm_stop_tim2 [OF t, where f = f]) (rule that)
  have t1: "tim2_hw m1" and g1: "gpio_hw m1" using t g tim2_hw_cong [OF 1(2)] gpio_hw_cong [OF 1(2)] by simp_all
  define m2 where "m2 = snd (pwm_set_apb_clock (tim2 0) False m1)"
  note a = apb_clock_tim2 [OF t1, where f = 0 and on = False, folded m2_def]
  have g2: "gpio_hw m2" using g1 gpio_hw_cong [OF a(2)] by simp
  define m' where "m' = release_pins g_pwm2channels m2"
  note fr = gpio_configs_frame(2) [OF g2, where cs = g_pwm2channels, folded m'_def]
  have keep: "tim2_reg off m' = tim2_reg off m1" if "off < 0x400" for off
  proof -
    have "unat (0x40000000 + off) = 0x40000000 + unat off" "unat off < 0x400"
      using that by (simp_all add: word_less_nat_alt unat_word_ariths)
    then have "0x40000000 + off < 0x40013800" "0x40000000 + off \<noteq> 0x40023840"
      by (auto simp: word_less_nat_alt)
    then show ?thesis using fr a(3) by (intro tim2_reg_frame) metis
  qed
  show thesis
  proof (rule that [of m'])
    show "pwm_shutdown (tim2 f) m = (OK, tim2 0, m')"
      using 1(1) a(1) by (simp add: pwm_shutdown_def split_beta Let_def m'_def m2_def)
  qed (use 1 a fr [of STM32_RCC_APB1ENR] keep release_pins_tim2 [OF g2, folded m'_def] in simp_all)
qed

section \<open>Channels addressed by a request\<close>

definition chans_ok :: "pwm_info_s \<Rightarrow> bool" where
  "chans_ok info \<longleftrightarrow> (\<forall>c \<in> set (channels info). channel c \<le> 4) \<and>
     distinct (map channel (filter (\<lambda>c. channel c \<noteq> 0) (channels info)))"

lemma ccr_off_inj:
  "c \<in> {1, 2, 3, 4} \<Longrightarrow> d \<in> {1, 2, 3, 4} \<Longrightarrow> ccr_off c = ccr_off d \<Longrightarrow> c = d"
  by auto

lemma new_ccr_absent:
  "\<forall>d \<in> set cs. channel d \<noteq> c \<Longrightarrow> c \<in> {1, 2, 3, 4} \<Longrightarrow> new_ccr cs arr (ccr_off c) old = old"
proof (induction cs arbitrary: old)
  case (Cons d cs)
  have "\<not> (channel d \<in> {1, 2, 3, 4} \<and> ccr_off c = ccr_off (channel d))"
    using Cons.prems ccr_off_inj [of c "channel d"] by auto
  then have "new_ccr (d # cs) arr (ccr_off c) old = new_ccr cs arr (ccr_off c) old"
    by (auto simp only: new_ccr.simps if_False)
  with Cons show ?case by simp
qed simp

lemma new_ccr_present:
  assumes "c \<in> set cs" "distinct (map channel (filter (\<lambda>c. channel c \<noteq> 0) cs))"
    "channel c \<in> {1, 2, 3, 4}"
  shows "new_ccr cs arr (ccr_off (channel c)) old = duty_to_ccr (duty c) arr"
  using assms
proof (induction cs arbitrary: old)
  case (Cons d cs)
  show ?case
  proof (cases "d = c")
    case True
    have "\<forall>e \<in> set cs. channel e \<noteq> channel c"
      using Cons.prems True by force
    then show ?thesis
      using True Cons.prems(3) new_ccr_absent [of cs "channel c"] by simp
  next
    case False
    then show ?thesis using Cons by (auto split: if_splits)
  qed
qed simp

lemma boot_board_hw [simp]: "board_hw boot_mcu"
proof -
  have st: "storage boot_mcu a" if "a \<noteq> 0x40023820" for a
    using that by (simp add: storage_def boot_mcu_def reset_react_def)
  have "tim2_hw boot_mcu"
    unfolding tim2_hw_def
    by (auto simp: tim2_storage_offsets_def boot_mcu_def reset_react_def storage_def)
      (simp add: word_le_nat_alt word_less_nat_alt)
  moreover have "gpio_port_hw boot_mcu b" if "b \<in> set g_gpiobase" for b
    using that by (auto simp: gpio_port_hw_def g_gpiobase_def storage_def boot_mcu_def reset_react_def)
  moreover have "storage boot_mcu (STM32_SYSCFG_EXTICR p)" if "p < 16" for p
    using exticr_range [OF that] st by auto
  ultimately show ?thesis by (simp add: board_hw_def gpio_hw_def)
qed

section \<open>Properties\<close>

text \<open>C22: accuracy of the frequency update.  For every peripheral clock up to 65536 * 65535 Hz
  and every requested frequency of at most half of it, the prescaler is the smallest one whose
  65535 counts cover the requested period, both register values fit their 16 bits, and with that
  prescaler the period \<^verbatim>\<open>prescaler * (reload + 1)\<close> is the longest that does not make the output
  slower than requested.  So the output is less than one count too fast, and where the clock is
  divided at all a period has at least 32768 counts.\<close>

theorem frequency_update_accuracy:
  assumes "freq \<noteq> 0" and "unat clk \<le> 65536 * 65535" and "2 * unat freq \<le> unat clk"
  shows "let psc = unat (freq_prescaler clk freq); arr = unat (freq_reload clk freq)
         in 1 \<le> psc \<and> psc \<le> 65536 \<and> 1 \<le> arr \<and> arr < 65535 \<and>
            psc * (arr + 1) * unat freq \<le> unat clk \<and>
            unat clk < psc * (arr + 2) * unat freq \<and>
            unat clk div unat freq \<le> psc * 65535 \<and>
            (\<forall>p < psc. p * 65535 < unat clk div unat freq) \<and>
            (psc = 1 \<or> 32768 \<le> arr + 1)"
proof -
  define psc where "psc = unat (freq_prescaler clk freq)"
  define q where "q = unat clk div unat freq"
  have clk: "unat clk \<le> 4294901760" using assms(2) by simp
  note pb = prescaler_bounds [OF assms(1) clk, folded psc_def q_def]
  note rl = reload_no_clamp [OF assms(1) clk assms(3), folded psc_def]
  have f: "0 < unat freq" using assms(1) by (simp add: unat_gt_0)
  have p0: "0 < psc" using pb(1) by simp
  note fe = frequency_exact [OF p0 f rl(1)]
  have q0: "0 < q" using assms(3) f by (simp add: q_def div_greater_zero_iff)
  have least: "p * 65535 < q" if "p < psc" for p
  proof -
    have "p * 65535 \<le> (psc - 1) * 65535" using that by (intro mult_le_mono1) simp
    then show ?thesis using pb(4) [OF q0] by linarith
  qed
  have "unat clk div psc div unat freq = q div psc" unfolding q_def by (metis div_mult2_eq mult.commute)
  moreover have "32768 \<le> q div psc" if "psc \<noteq> 1"
  proof -
    have "32768 * psc \<le> (psc - 1) * 65535 + 1" using that p0 by (cases psc) auto
    then have "32768 * psc \<le> q" using pb(4) [OF q0] by linarith
    then show ?thesis using p0 by (simp add: less_eq_div_iff_mult_less_eq)
  qed
  ultimately show ?thesis
    using pb(1-3) rl fe least unfolding Let_def psc_def [symmetric] q_def [symmetric] by auto
qed

theorem frequency_update_accuracy_witness:
  "(400 :: u32) \<noteq> 0 \<and> unat (84000000 :: u32) \<le> 65536 * 65535 \<and>
   2 * unat (400 :: u32) \<le> unat (84000000 :: u32) \<and>
   unat (freq_prescaler 84000000 400) = 4 \<and> unat (freq_reload 84000000 400) = 52499 \<and>
   4 * (52499 + 1) * 400 \<le> (84000000 :: nat)"
  using frequency_update_accuracy [of 400 84000000]
  by (simp add: freq_prescaler_def freq_reload_def Let_def)

text \<open>The choice is not the best that the registers allow: the prescaler is computed for 65535
  counts, while a reload value of 65535 gives 65536.  A clock of 131072 times the frequency is met
  exactly by prescaler 2 and reload 65535, but the code takes prescaler 3 and a shorter period.\<close>

lemma prescaler_not_optimal:
  "unat (freq_prescaler 131072000 1000) = 3" "unat (freq_reload 131072000 1000) = 43689"
  "3 * (43689 + 1) * 1000 < unat (131072000 :: u32)" "2 * (65535 + 1) * 1000 = unat (131072000 :: u32)"
  by (simp_all add: freq_prescaler_def freq_reload_def Let_def)

text \<open>the compare value of a duty cycle.  For a duty cycle up to 1.0 and a 16 bit reload
  value the 32 bit computation does not wrap: the compare value is the product rounded to the
  nearest integer, and it never exceeds the reload value.\<close>

theorem duty_ccr_rounds:
  assumes "unat d \<le> 65536" and "unat reload \<le> 65535"
  shows "unat (duty_to_ccr d reload) = (unat d * unat reload + 32768) div 65536 \<and>
         duty_to_ccr d reload \<le> reload \<and>
         \<bar>65536 * int (unat (duty_to_ccr d reload)) - int (unat d) * int (unat reload)\<bar> \<le> 32768"
proof -
  define x where "x = unat d * unat reload"
  define q where "q = (x + 32768) div 65536"
  have q: "unat (duty_to_ccr d reload) = q"
    using duty_to_ccr_nat [OF assms] by (simp add: q_def x_def)
  have "x + 32768 = 65536 * q + (x + 32768) mod 65536" unfolding q_def by simp
  moreover have "(x + 32768) mod 65536 < 65536" by simp
  ultimately have "\<bar>65536 * int q - int x\<bar> \<le> 32768" by linarith
  then show ?thesis
    using duty_to_ccr_le [OF assms] duty_to_ccr_nat [OF assms] q by (simp add: x_def)
qed

theorem duty_ccr_rounds_witness:
  "unat (52428 :: u32) \<le> 65536 \<and> unat (52499 :: u32) \<le> 65535 \<and>
   unat (duty_to_ccr 52428 52499) = 41999 \<and> duty_to_ccr 52428 52499 \<le> 52499"
  using duty_ccr_rounds [of 52428 52499] by (simp add: duty_to_ccr_def)

text \<open>C23: opening the device.  From any register state, \<^verbatim>\<open>pwm_setup\<close> succeeds and leaves the
  timer clocked but silent: the counter and all four outputs disabled, auto-reload preload on,
  every channel in PWM mode 1 with preload, and the four motor pins in alternate function 1.\<close>

theorem setup_ready_but_silent:
  assumes "board_hw m"
  shows "\<exists>m'. pwm_setup (tim2 f) m = Some (OK, m') \<and> board_hw m' \<and>
           bit (getreg32 STM32_RCC_APB1ENR m') 0 \<and>
           \<not> bit (tim2_reg GTIM_CR1 m') 0 \<and> bit (tim2_reg GTIM_CR1 m') 7 \<and>
           tim2_reg GTIM_CCER m' AND 0x1111 = 0 \<and>
           tim2_reg GTIM_CCMR1 m' AND 0x7b7b = 0x6868 \<and>
           tim2_reg GTIM_CCMR2 m' AND 0x7b7b = 0x6868 \<and>
           (\<forall>i < 4. field (2 * i) 2 (getreg32 0x40020000 m') = 2 \<and>
                    field (4 * i) 4 (getreg32 0x40020020 m') = 1)"
proof -
  obtain m' where m': "pwm_setup (tim2 f) m = Some (OK, m')" "react m' = react m"
    "\<And>off. off < 0x400 \<Longrightarrow> tim2_reg off m' =
       (if off = GTIM_CR1 then (tim2_reg off m AND 0xff8e) OR 0x80
        else if off = GTIM_CCER then tim2_reg off m AND 0xeeee
        else if off = GTIM_CCMR1 \<or> off = GTIM_CCMR2 then (tim2_reg off m AND 0x8484) OR 0x6868
        else tim2_reg off m)"
    "bit (getreg32 STM32_RCC_APB1ENR m') 0"
    "\<And>i. i < 4 \<Longrightarrow> field (2 * i) 2 (getreg32 0x40020000 m') = 2"
    "\<And>i. i < 4 \<Longrightarrow> field (4 * i) 4 (getreg32 0x40020020 m') = 1"
    by (rule pwm_setup_tim2 [OF assms, where f = f]) (rule that)
  have "(x AND 0x8484 OR 0x6868) AND 0x7b7b = 0x6868" for x :: u32
    by (simp add: and_or_and)
  then show ?thesis
    using m' assms board_hw_cong [OF m'(2)] by (simp add: bit_or_iff bit_and_iff and.assoc)
qed

theorem setup_ready_but_silent_witness:
  "board_hw boot_mcu \<and>
   (\<exists>m'. pwm_setup (tim2 0) boot_mcu = Some (OK, m') \<and> \<not> bit (tim2_reg GTIM_CR1 m') 0 \<and>
         tim2_reg GTIM_CCER m' AND 0x1111 = 0)"
  using setup_ready_but_silent [of boot_mcu 0] boot_board_hw by blast

lemma pwm_start_new:
  assumes "tim2_hw m" and "frequency info \<noteq> 0" and "frequency info \<noteq> f" and "chans_ok info"
  shows "\<exists>m'. pwm_start (tim2 f) info m = Some (OK, tim2 (frequency info), m') \<and> tim2_hw m' \<and>
           bit (tim2_reg GTIM_CR1 m') 0 \<and> tim2_reg GTIM_CCER m' AND 0x1111 = 0x1111 \<and>
           tim2_reg GTIM_ARR m' = freq_reload 84000000 (frequency info) \<and>
           unat (tim2_reg GTIM_PSC m') + 1 = unat (freq_prescaler 84000000 (frequency info)) \<and>
           (\<forall>c \<in> set (channels info). channel c \<noteq> 0 \<longrightarrow>
              tim2_reg (ccr_off (channel c)) m' =
                duty_to_ccr (duty c) (freq_reload 84000000 (frequency info))) \<and>
           tim2_reg GTIM_CCMR1 m' = tim2_reg GTIM_CCMR1 m \<and>
           tim2_reg GTIM_CCMR2 m' = tim2_reg GTIM_CCMR2 m"
proof -
  define arr where "arr = freq_reload 84000000 (frequency info)"
  have ch: "\<forall>c \<in> set (channels info). channel c \<le> 4" using assms(4) by (simp add: chans_ok_def)
  obtain m' where m': "pwm_timer (tim2 f) info m = Some (OK, m')" "tim2_only m m'"
    "\<And>off. off \<notin> {GTIM_SR, GTIM_EGR, GTIM_CNT} \<Longrightarrow> tim2_reg off m' =
       (if off = GTIM_CR1 then tim2_reg off m OR 1
        else if off = GTIM_CCER then tim2_reg off m OR 0x1111
        else if off = GTIM_PSC then take_bit 16 (freq_prescaler 84000000 (frequency info) - 1)
        else if off = GTIM_ARR then freq_reload 84000000 (frequency info)
        else new_ccr (channels info) (freq_reload 84000000 (frequency info)) off (tim2_reg off m))"
    by (rule pwm_timer_tim2 [OF assms(1,2) ch, where f = f]) (rule that)
  have "tim2_reg (ccr_off (channel c)) m' = duty_to_ccr (duty c) arr"
    if c: "c \<in> set (channels info)" "channel c \<noteq> 0" for c
  proof -
    have c4: "channel c \<in> {1, 2, 3, 4}" using u8_le_4 ch c by blast
    then have "tim2_reg (ccr_off (channel c)) m' = new_ccr (channels info) arr (ccr_off (channel c))
        (tim2_reg (ccr_off (channel c)) m)"
      using m'(3) [of "ccr_off (channel c)"] by (auto simp: arr_def)
    then show ?thesis using new_ccr_present [OF c(1) _ c4] assms(4) by (simp add: chans_ok_def)
  qed
  moreover have "(x OR 0x1111) AND 0x1111 = 0x1111" for x :: u32
    by (rule bit_word_eqI) (auto simp: bit_simps)
  moreover have "unat (take_bit 16 (freq_prescaler 84000000 (frequency info) - 1)) + 1
      = unat (freq_prescaler 84000000 (frequency info))"
  proof -
    define p where "p = freq_prescaler 84000000 (frequency info)"
    have "1 \<le> unat p" "unat p \<le> 65536"
      using prescaler_bounds(1,2) [OF assms(2), of 84000000] by (simp_all add: p_def)
    then have "unat (p - 1) = unat p - 1" "unat p - 1 < 65536" by (simp_all add: unat_sub_no_wrap)
    then have "unat (take_bit 16 (p - 1)) = unat p - 1"
      by (simp add: unsigned_take_bit_eq take_bit_nat_def)
    then show ?thesis using \<open>1 \<le> unat p\<close> by (simp add: p_def)
  qed
  moreover have "tim2_hw m'" using assms(1) tim2_only_hw [OF m'(2)] by simp
  moreover have "pwm_start (tim2 f) info m = Some (OK, tim2 (frequency info), m')"
    using m'(1) assms(3) by (simp add: pwm_start_def)
  ultimately show ?thesis using m'(3) by (simp add: bit_or_iff arr_def)
qed

text \<open>C21: starting with a new frequency.  For a request with a non-zero frequency other than the
  current one and distinct channel numbers up to four, \<^verbatim>\<open>pwm_start\<close> succeeds, remembers the
  frequency, enables the counter and the four outputs, programs prescaler and reload for the
  84 MHz timer clock, sets the compare register of every named channel to its scaled duty
  cycle, and leaves the channel modes alone.\<close>

theorem start_new_frequency:
  assumes "tim2_hw m" and "frequency info \<noteq> 0" and "frequency info \<noteq> f" and "chans_ok info"
  shows "\<exists>m'. pwm_start (tim2 f) info m = Some (OK, tim2 (frequency info), m') \<and> tim2_hw m' \<and>
           bit (tim2_reg GTIM_CR1 m') 0 \<and> tim2_reg GTIM_CCER m' AND 0x1111 = 0x1111 \<and>
           tim2_reg GTIM_ARR m' = freq_reload 84000000 (frequency info) \<and>
           unat (tim2_reg GTIM_PSC m') + 1 = unat (freq_prescaler 84000000 (frequency info)) \<and>
           (\<forall>c \<in> set (channels info). channel c \<noteq> 0 \<longrightarrow>
              tim2_reg (ccr_off (channel c)) m' =
                duty_to_ccr (duty c) (freq_reload 84000000 (frequency info))) \<and>
           tim2_reg GTIM_CCMR1 m' = tim2_reg GTIM_CCMR1 m \<and>
           tim2_reg GTIM_CCMR2 m' = tim2_reg GTIM_CCMR2 m"
  using assms by (rule pwm_start_new)

definition demo_info :: pwm_info_s where
  "demo_info = \<lparr>frequency = 400,
     channels = [\<lparr>duty = 23592, channel = 1\<rparr>, \<lparr>duty = 26214, channel = 2\<rparr>,
                 \<lparr>duty = 39321, channel = 3\<rparr>, \<lparr>duty = 52428, channel = 4\<rparr>]\<rparr>"

lemma demo_chans_ok [simp]: "chans_ok demo_info"
  by (simp add: chans_ok_def demo_info_def)

theorem start_new_frequency_witness:
  "\<exists>m'. pwm_start (tim2 0) demo_info boot_mcu = Some (OK, tim2 400, m') \<and>
     tim2_reg GTIM_ARR m' = 52499 \<and> tim2_reg GTIM_CCR4 m' = 41999"
  using start_new_frequency [of boot_mcu demo_info 0] boot_board_hw
  by (auto simp: board_hw_def demo_info_def chans_ok_def freq_reload_def freq_prescaler_def duty_to_ccr_def)

lemma pwm_start_same:
  assumes "tim2_hw m" and "frequency info = f" and "chans_ok info"
  shows "\<exists>m'. pwm_start (tim2 f) info m = Some (OK, tim2 f, m') \<and> tim2_only m m' \<and>
           (\<forall>c \<in> set (channels info). channel c \<noteq> 0 \<longrightarrow>
              tim2_reg (ccr_off (channel c)) m' = duty_to_ccr (duty c) (tim2_reg GTIM_ARR m)) \<and>
           (\<forall>off. off \<notin> ccr_off ` (channel ` set (channels info)) \<longrightarrow> tim2_reg off m' = tim2_reg off m)"
proof -
  define m' where "m' = snd (start_duty_loop (tim2 f) (channels info) OK m)"
  note l = start_duty_loop_tim2 [OF assms(1), of f "channels info", folded m'_def]
  have ch: "\<forall>c \<in> set (channels info). channel c \<le> 4" using assms(3) by (simp add: chans_ok_def)
  have "pwm_start (tim2 f) info m = Some (OK, tim2 f, m')"
    using l assms(2) by (simp add: pwm_start_def split_beta m'_def Let_def)
  moreover have "tim2_reg (ccr_off (channel c)) m' = duty_to_ccr (duty c) (tim2_reg GTIM_ARR m)"
    if c: "c \<in> set (channels info)" "channel c \<noteq> 0" for c
  proof -
    have "channel c \<in> {1, 2, 3, 4}" using u8_le_4 ch c by blast
    then show ?thesis
      using l [of "ccr_off (channel c)"] new_ccr_present [OF c(1)] assms(3) by (simp add: chans_ok_def)
  qed
  moreover have "new_ccr cs arr off old = old" if "off \<notin> ccr_off ` (channel ` set cs)" for cs arr off old
    using that by (induction cs arbitrary: old) auto
  ultimately show ?thesis using l by auto
qed

text \<open>C25: changing duty cycles while running.  A request with the current frequency only writes
  compare registers: each named channel gets its duty cycle scaled by the reload value in force,
  and no other register of the timer changes.\<close>

theorem start_same_frequency:
  assumes "tim2_hw m" and "frequency info = f" and "chans_ok info"
  shows "\<exists>m'. pwm_start (tim2 f) info m = Some (OK, tim2 f, m') \<and> tim2_only m m' \<and>
           (\<forall>c \<in> set (channels info). channel c \<noteq> 0 \<longrightarrow>
              tim2_reg (ccr_off (channel c)) m' = duty_to_ccr (duty c) (tim2_reg GTIM_ARR m)) \<and>
           (\<forall>off. off \<notin> ccr_off ` (channel ` set (channels info)) \<longrightarrow> tim2_reg off m' = tim2_reg off m)"
  using assms by (rule pwm_start_same)

theorem start_same_frequency_witness:
  "\<exists>m'. pwm_start (tim2 400) demo_info boot_mcu = Some (OK, tim2 400, m') \<and>
        tim2_reg GTIM_CR1 m' = 0"
proof -
  have "tim2_reg 0 boot_mcu = 0"
    by (simp add: tim2_reg_def pwm_getreg_def getreg16_def g_pwm2dev_def boot_mcu_def pwm_reg_is_32bit_def)
  then show ?thesis
    using start_same_frequency [of boot_mcu demo_info 400] boot_board_hw
    by (auto simp: board_hw_def demo_info_def chans_ok_def)
qed

text \<open>C24: closing the device.  From any state \<^verbatim>\<open>pwm_shutdown\<close> succeeds and leaves the motors
  without a signal: the timer registers are at their reset values (counter and outputs off),
  the timer clock is gated, the four motor pins are inputs, and the recorded frequency is 0.\<close>

theorem shutdown_silences:
  assumes "board_hw m"
  shows "\<exists>m'. pwm_shutdown (tim2 f) m = (OK, tim2 0, m') \<and> board_hw m' \<and>
           \<not> bit (getreg32 STM32_RCC_APB1ENR m') 0 \<and>
           tim2_reg GTIM_CR1 m' = 0 \<and> tim2_reg GTIM_CCER m' = 0 \<and>
           (\<forall>i < 4. field (2 * i) 2 (getreg32 0x40020000 m') = 0)"
proof -
  obtain m' where m': "pwm_shutdown (tim2 f) m = (OK, tim2 0, m')" "react m' = react m"
    "\<And>off. off < 0x400 \<Longrightarrow> tim2_reg off m' = (if off = GTIM_ARR then 0xffffffff else 0)"
    "\<not> bit (getreg32 STM32_RCC_APB1ENR m') 0"
    "\<And>i. i < 4 \<Longrightarrow> field (2 * i) 2 (getreg32 0x40020000 m') = 0"
    by (rule pwm_shutdown_tim2 [OF assms, where f = f]) (rule that)
  then show ?thesis using board_hw_cong [OF m'(2)] assms by simp
qed

theorem shutdown_silences_witness:
  "board_hw boot_mcu \<and>
   (\<exists>m'. pwm_shutdown (tim2 400) boot_mcu = (OK, tim2 0, m') \<and> tim2_reg GTIM_CCER m' = 0)"
  using shutdown_silences [of boot_mcu 400] boot_board_hw by blast

text \<open>C28: a stopped timer cannot be restarted by \<^verbatim>\<open>pwm_start\<close> alone.  The reset in
  \<^verbatim>\<open>pwm_stop\<close> clears the channel modes and \<^verbatim>\<open>pwm_start\<close> does not program them again: the
  start succeeds and enables counter and outputs, but all four channels are in frozen mode.\<close>

theorem restart_after_stop_frozen:
  assumes "tim2_hw m" and "frequency info \<noteq> 0" and "chans_ok info"
  shows "\<exists>p m1 m2. pwm_stop (tim2 f) m = (OK, p, m1) \<and>
           pwm_start p info m1 = Some (OK, tim2 (frequency info), m2) \<and>
           bit (tim2_reg GTIM_CR1 m2) 0 \<and>
           tim2_reg GTIM_CCMR1 m2 = 0 \<and> tim2_reg GTIM_CCMR2 m2 = 0"
proof -
  obtain m1 where 1: "pwm_stop (tim2 f) m = (OK, tim2 0, m1)" "react m1 = react m"
    "\<And>off. off < 0x400 \<Longrightarrow> tim2_reg off m1 = (if off = GTIM_ARR then 0xffffffff else 0)"
    by (rule pwm_stop_tim2 [OF assms(1), where f = f]) (rule that)
  have h: "tim2_hw m1" using assms(1) tim2_hw_cong [OF 1(2)] by simp
  have ch: "\<forall>c \<in> set (channels info). channel c \<le> 4" using assms(3) by (simp add: chans_ok_def)
  obtain m2 where 2: "pwm_timer (tim2 0) info m1 = Some (OK, m2)" "tim2_only m1 m2"
    "\<And>off. off \<notin> {GTIM_SR, GTIM_EGR, GTIM_CNT} \<Longrightarrow> tim2_reg off m2 =
       (if off = GTIM_CR1 then tim2_reg off m1 OR 1
        else if off = GTIM_CCER then tim2_reg off m1 OR 0x1111
        else if off = GTIM_PSC then take_bit 16 (freq_prescaler 84000000 (frequency info) - 1)
        else if off = GTIM_ARR then freq_reload 84000000 (frequency info)
        else new_ccr (channels info) (freq_reload 84000000 (frequency info)) off (tim2_reg off m1))"
    by (rule pwm_timer_tim2 [OF h assms(2) ch, where f = 0]) (rule that)
  have "pwm_start (tim2 0) info m1 = Some (OK, tim2 (frequency info), m2)"
    using 2(1) assms(2) by (simp add: pwm_start_def)
  then show ?thesis using 1(1) 1(3) 2(3) by (auto simp: bit_or_iff)
qed

theorem restart_after_stop_frozen_witness:
  "\<exists>p m1 m2. pwm_stop (tim2 400) boot_mcu = (OK, p, m1) \<and>
     pwm_start p demo_info m1 = Some (OK, tim2 400, m2) \<and> tim2_reg GTIM_CCMR1 m2 = 0"
proof -
  have "frequency demo_info = 400" by (simp add: demo_info_def)
  then show ?thesis
    using restart_after_stop_frozen [of boot_mcu demo_info 400] boot_board_hw by (auto simp: board_hw_def)
qed

text \<open>a request that names a channel the timer does not have is not reported.  The duty
  update stops at that entry, drops all later entries, and \<^verbatim>\<open>pwm_timer\<close> still returns
  success with the outputs running.\<close>

theorem unknown_channel_not_reported:
  assumes "tim2_hw m" and "frequency info \<noteq> 0" and "channels info = bad # rest"
    and "4 < channel bad"
  shows "\<exists>m'. pwm_timer (tim2 f) info m = Some (OK, m') \<and>
           bit (tim2_reg GTIM_CR1 m') 0 \<and>
           (\<forall>c \<in> {1, 2, 3, 4}. tim2_reg (ccr_off c) m' = tim2_reg (ccr_off c) m)"
proof -
  obtain m1 where 1: "pwm_frequency_update (tim2 f) (frequency info) m = Some (OK, m1)" "tim2_only m m1"
    "\<And>off. tim2_reg off m1 =
       (if off = GTIM_PSC then take_bit 16 (freq_prescaler 84000000 (frequency info) - 1)
        else if off = GTIM_ARR then freq_reload 84000000 (frequency info) else tim2_reg off m)"
    by (rule frequency_update_tim2 [OF assms(1,2), where f = f]) (rule that)
  have h1: "tim2_hw m1" using assms(1) tim2_only_hw [OF 1(2)] by simp
  have bad: "channel bad \<notin> {1, 2, 3, 4}" "channel bad \<noteq> 0" using assms(4) by auto
  have loop: "duty_channels_loop (tim2 f) (channels info) m1 = m1"
    using bad by (simp add: assms(3))
  define m2 where "m2 = snd (pwm_soft_update (tim2 f) m1)"
  have h2: "tim2_hw m2" using h1 tim2_only_hw [OF tim2_only_ops(6) [OF h1, of f]] by (simp add: m2_def)
  have r2: "tim2_reg off m2 = tim2_reg off m1" if "off \<notin> {GTIM_SR, GTIM_EGR, GTIM_CNT}" for off
    unfolding m2_def pwm_soft_update_def using tim2_reg_event [OF h1 _ that, of "0x14"] by simp
  define m3 where "m3 = snd (pwm_outputs_enable (tim2 f) 0x55 True m2)"
  note e3 = outputs_enable_tim2 [OF h2, where f = f and st = True, folded m3_def]
  have h3: "tim2_hw m3" using h2 tim2_hw_cong [OF e3(3)] by simp
  define m4 where "m4 = snd (pwm_timer_enable (tim2 f) True m3)"
  note e4 = timer_enable_tim2 [OF h3, where f = f and st = True, folded m4_def]
  have "pwm_timer (tim2 f) info m = Some (OK, m4)"
    using 1(1) e3(1) e4(1)
    by (simp add: pwm_timer_def pwm_duty_channels_update_def loop Let_def split_beta
        m2_def [symmetric] m3_def [symmetric] m4_def [symmetric])
  then show ?thesis using e4(2) e3(2) r2 1(3) by (auto simp: bit_or_iff)
qed

theorem unknown_channel_not_reported_witness:
  "\<exists>m'. pwm_timer (tim2 0) \<lparr>frequency = 400, channels = [\<lparr>duty = 1, channel = 5\<rparr>, \<lparr>duty = 2, channel = 1\<rparr>]\<rparr>
          boot_mcu = Some (OK, m') \<and> bit (tim2_reg GTIM_CR1 m') 0"
  using unknown_channel_not_reported [of boot_mcu
      "\<lparr>frequency = 400, channels = [\<lparr>duty = 1, channel = 5\<rparr>, \<lparr>duty = 2, channel = 1\<rparr>]\<rparr>"
      "\<lparr>duty = 1, channel = 5\<rparr>" "[\<lparr>duty = 2, channel = 1\<rparr>]" 0] boot_board_hw
  by (auto simp: board_hw_def)

text \<open>the output polarity is never cleared.  \<^verbatim>\<open>pwm_output_configure\<close> computes the register
  value with the polarity bits cleared but writes it with a read-modify-write that only sets
  bits, so a channel configured with positive polarity keeps whatever polarity the register
  had.\<close>

theorem positive_polarity_not_restored:
  assumes "tim2_hw m" and "c \<in> {1, 2, 3, 4}"
  shows "\<exists>m'. pwm_output_configure (tim2 f) c m = Some (OK, m') \<and>
           tim2_reg GTIM_CCER m' = tim2_reg GTIM_CCER m"
proof -
  obtain m' where "pwm_output_configure (tim2 f) c m = Some (OK, m')" "react m' = react m"
    "\<And>off. tim2_reg off m' = tim2_reg off m"
    by (rule output_configure_tim2 [OF assms, where f = f]) (rule that)
  then show ?thesis by blast
qed

theorem positive_polarity_not_restored_witness:
  "\<exists>m'. pwm_output_configure (tim2 0) 1 (boot_mcu\<lparr>regs := (\<lambda>_. 2)\<rparr>) = Some (OK, m') \<and>
        tim2_reg GTIM_CCER m' = 2"
proof -
  have "tim2_hw (boot_mcu\<lparr>regs := (\<lambda>_. 2)\<rparr>)"
    using boot_board_hw tim2_hw_cong [of "boot_mcu\<lparr>regs := (\<lambda>_. 2)\<rparr>" boot_mcu] by (simp add: board_hw_def)
  moreover have "tim2_reg GTIM_CCER (boot_mcu\<lparr>regs := (\<lambda>_. 2)\<rparr>) = 2"
    by (simp add: tim2_reg_getreg getreg32_def)
  ultimately show ?thesis
    using positive_polarity_not_restored [of "boot_mcu\<lparr>regs := (\<lambda>_. 2)\<rparr>" 1 0] by auto
qed

end
