(* ===== verification/Pwm_Driver.thy ===== *)
theory Pwm_Driver
  imports Semaphore Ioctl_Arg
begin

text \<open>
  The upper half of the PWM driver (\<^verbatim>\<open>drivers/pwm/pwm.c\<close>), generic in the lower half: the
  operation table \<^verbatim>\<open>ops\<close> stands for \<^verbatim>\<open>upper->dev->ops\<close> and h for the state behind it.  The
  semaphore of the device serialises every entry point.  The lower half contract of
  \<^verbatim>\<open>include/nuttx/drivers/pwm.h\<close> is the locale \<^verbatim>\<open>pwm_lower\<close>; what the upper half guarantees
  for every lower half that keeps the contract is proved inside it.
\<close>

section \<open>Model\<close>

record pwm_upperhalf_s =
  crefs :: u8
  started :: bool
  exclsem :: sem_t
  info :: pwm_info_s

definition pwm_open ::
  "'h pwm_ops_s \<Rightarrow> pwm_upperhalf_s \<Rightarrow> 'h \<Rightarrow> (int \<times> pwm_upperhalf_s \<times> 'h) option" where
  "pwm_open ops upper h = do {
     (ret, sem) \<leftarrow> nxsem_wait (exclsem upper);
     let upper = upper\<lparr>exclsem := sem\<rparr> in
     if ret < 0 then Some (ret, upper, h)
     else
       let give = (\<lambda>u. u\<lparr>exclsem := snd (nxsem_post (exclsem u))\<rparr>);
           tmp = crefs upper + 1
       in if tmp = 0 then Some (- EMFILE, give upper, h)
          else if tmp = 1
          then do {
            (ret, h) \<leftarrow> op_setup ops h;
            if ret < 0 then Some (ret, give upper, h)
            else Some (OK, give (upper\<lparr>crefs := tmp\<rparr>), h)
          }
          else Some (OK, give (upper\<lparr>crefs := tmp\<rparr>), h)
   }"

definition pwm_close ::
  "'h pwm_ops_s \<Rightarrow> pwm_upperhalf_s \<Rightarrow> 'h \<Rightarrow> (int \<times> pwm_upperhalf_s \<times> 'h) option" where
  "pwm_close ops upper h = do {
     (ret, sem) \<leftarrow> nxsem_wait (exclsem upper);
     let upper = upper\<lparr>exclsem := sem\<rparr> in
     if ret < 0 then Some (ret, upper, h)
     else
       let give = (\<lambda>u. u\<lparr>exclsem := snd (nxsem_post (exclsem u))\<rparr>)
       in if crefs upper > 1 then Some (OK, give (upper\<lparr>crefs := crefs upper - 1\<rparr>), h)
          else do {
            (_, h) \<leftarrow> op_shutdown ops h;
            Some (OK, give (upper\<lparr>crefs := 0\<rparr>), h)
          }
   }"

definition pwm_read :: "u8 list \<Rightarrow> nat \<Rightarrow> int" where
  "pwm_read buffer buflen = 0"

definition pwm_write :: "u8 list \<Rightarrow> nat \<Rightarrow> int" where
  "pwm_write buffer buflen = 0"

definition pwm_upper_start ::
  "'h pwm_ops_s \<Rightarrow> pwm_upperhalf_s \<Rightarrow> 'h \<Rightarrow> (int \<times> pwm_upperhalf_s \<times> 'h) option" where
  "pwm_upper_start ops upper h =
     (if \<not> started upper
      then do {
        (ret, h) \<leftarrow> op_start ops (info upper) h;
        Some (ret, (if ret = OK then upper\<lparr>started := True\<rparr> else upper), h)
      }
      else Some (OK, upper, h))"

text \<open>The switch of the ioctl method, with the device semaphore held; the return code is 0, the
  result of the wait, for the cases that do not assign one.\<close>

definition pwm_upper_ioctl_cmd ::
  "'h pwm_ops_s \<Rightarrow> int \<Rightarrow> ioctl_arg \<Rightarrow> pwm_upperhalf_s \<Rightarrow> 'h \<Rightarrow>
   (int \<times> ioctl_arg \<times> pwm_upperhalf_s \<times> 'h) option" where
  "pwm_upper_ioctl_cmd ops cmd arg upper h =
     (if cmd = PWMIOC_SETCHARACTERISTICS
      then case arg of
             Arg_pwm_info i \<Rightarrow>
               let upper = upper\<lparr>info := i\<rparr>
               in if started upper
                  then do { (ret, h) \<leftarrow> op_start ops (info upper) h; Some (ret, arg, upper, h) }
                  else Some (OK, arg, upper, h)
           | _ \<Rightarrow> None
      else if cmd = PWMIOC_GETCHARACTERISTICS
      then case arg of
             Arg_pwm_info _ \<Rightarrow> Some (OK, Arg_pwm_info (info upper), upper, h)
           | _ \<Rightarrow> None
      else if cmd = PWMIOC_START
      then do { (ret, upper, h) \<leftarrow> pwm_upper_start ops upper h; Some (ret, arg, upper, h) }
      else if cmd = PWMIOC_STOP
      then if started upper
           then do { (ret, h) \<leftarrow> op_stop ops h; Some (ret, arg, upper\<lparr>started := False\<rparr>, h) }
           else Some (OK, arg, upper, h)
      else do { (ret, h) \<leftarrow> op_ioctl ops cmd h; Some (ret, arg, upper, h) })"

definition pwm_upper_ioctl ::
  "'h pwm_ops_s \<Rightarrow> int \<Rightarrow> ioctl_arg \<Rightarrow> pwm_upperhalf_s \<Rightarrow> 'h \<Rightarrow>
   (int \<times> ioctl_arg \<times> pwm_upperhalf_s \<times> 'h) option" where
  "pwm_upper_ioctl ops cmd arg upper h = do {
     (ret, sem) \<leftarrow> nxsem_wait (exclsem upper);
     let upper = upper\<lparr>exclsem := sem\<rparr> in
     if ret < 0 then Some (ret, arg, upper, h)
     else do {
       (ret, arg, upper, h) \<leftarrow> pwm_upper_ioctl_cmd ops cmd arg upper h;
       Some (ret, arg, upper\<lparr>exclsem := snd (nxsem_post (exclsem upper))\<rparr>, h)
     }
   }"

text \<open>The device structure that \<^verbatim>\<open>pwm_register\<close> allocates and initialises.\<close>

definition pwm_upper_init :: "int list \<Rightarrow> pwm_upperhalf_s" where
  "pwm_upper_init ws =
     \<lparr>crefs = 0, started = False, exclsem = nxsem_init 1 ws, info = pwm_info_zero\<rparr>"

section \<open>Traces\<close>

text \<open>The driver as a state machine: the calls the virtual file system makes on one device.  A
  close or an ioctl needs an open file; a request must have a frequency, and a start must
  follow one.\<close>

definition info_valid :: "pwm_info_s \<Rightarrow> bool" where
  "info_valid i \<longleftrightarrow> frequency i \<noteq> 0 \<and> pwm_info_ok i \<and> (\<forall>c \<in> set (channels i). channel c \<le> 4) \<and>
     distinct (map channel (filter (\<lambda>c. channel c \<noteq> 0) (channels i)))"

inductive pwm_step ::
  "'h pwm_ops_s \<Rightarrow> pwm_upperhalf_s \<times> 'h \<Rightarrow> pwm_upperhalf_s \<times> 'h \<Rightarrow> bool" for ops where
  Step_open: "pwm_open ops u h = Some (r, u', h') \<Longrightarrow> pwm_step ops (u, h) (u', h')"
| Step_close: "crefs u \<noteq> 0 \<Longrightarrow> pwm_close ops u h = Some (r, u', h') \<Longrightarrow> pwm_step ops (u, h) (u', h')"
| Step_set: "crefs u \<noteq> 0 \<Longrightarrow> info_valid i \<Longrightarrow>
    pwm_upper_ioctl ops PWMIOC_SETCHARACTERISTICS (Arg_pwm_info i) u h = Some (r, a, u', h') \<Longrightarrow>
    pwm_step ops (u, h) (u', h')"
| Step_start: "crefs u \<noteq> 0 \<Longrightarrow> info_valid (info u) \<Longrightarrow>
    pwm_upper_ioctl ops PWMIOC_START arg u h = Some (r, a, u', h') \<Longrightarrow> pwm_step ops (u, h) (u', h')"
| Step_ioctl: "crefs u \<noteq> 0 \<Longrightarrow> cmd \<noteq> PWMIOC_SETCHARACTERISTICS \<Longrightarrow> cmd \<noteq> PWMIOC_START \<Longrightarrow>
    pwm_upper_ioctl ops cmd arg u h = Some (r, a, u', h') \<Longrightarrow> pwm_step ops (u, h) (u', h')"

inductive pwm_reach ::
  "'h pwm_ops_s \<Rightarrow> pwm_upperhalf_s \<times> 'h \<Rightarrow> pwm_upperhalf_s \<times> 'h \<Rightarrow> bool" for ops where
  Reach_init: "pwm_reach ops s s"
| Reach_step: "pwm_reach ops s t \<Longrightarrow> pwm_step ops t v \<Longrightarrow> pwm_reach ops s v"

inductive_cases pwm_stepE: "pwm_step ops (u, h) (u', h')"

section \<open>The lower half contract\<close>

locale pwm_lower =
  fixes ops :: "'h pwm_ops_s" and inv :: "'h \<Rightarrow> bool" and quiet :: "'h \<Rightarrow> bool"
  assumes setup_ok: "inv h \<Longrightarrow> \<exists>h'. op_setup ops h = Some (OK, h') \<and> inv h' \<and> quiet h'"
    and shutdown_ok: "inv h \<Longrightarrow> \<exists>r h'. op_shutdown ops h = Some (r, h') \<and> inv h' \<and> quiet h'"
    and start_ok: "inv h \<Longrightarrow> info_valid i \<Longrightarrow> \<exists>h'. op_start ops i h = Some (OK, h') \<and> inv h'"
    and stop_ok: "inv h \<Longrightarrow> \<exists>h'. op_stop ops h = Some (OK, h') \<and> inv h' \<and> quiet h'"
    and ioctl_ok: "inv h \<Longrightarrow> \<exists>r h'. op_ioctl ops cmd h = Some (r, h') \<and> inv h' \<and> (quiet h \<longrightarrow> quiet h')"
begin

text \<open>The safety invariant: without an open file, or without a start, there is no output.\<close>

definition safe :: "pwm_upperhalf_s \<times> 'h \<Rightarrow> bool" where
  "safe s \<longleftrightarrow> inv (snd s) \<and> (crefs (fst s) = 0 \<or> \<not> started (fst s) \<longrightarrow> quiet (snd s))"

lemma open_safe:
  assumes "safe (u, h)" and "pwm_open ops u h = Some (r, u', h')"
  shows "safe (u', h')"
proof -
  have hinv: "inv h" using assms(1) by (simp add: safe_def)
  obtain hs where hs: "op_setup ops h = Some (OK, hs)" "inv hs" "quiet hs" using setup_ok [OF hinv] by blast
  show ?thesis
    using assms hs
    by (auto simp: pwm_open_def safe_def bind_eq_Some_conv_ex Let_def split: if_splits)
qed

lemma close_safe:
  assumes "safe (u, h)" and "pwm_close ops u h = Some (r, u', h')"
  shows "safe (u', h')"
proof -
  have hinv: "inv h" using assms(1) by (simp add: safe_def)
  obtain x hs where hs: "op_shutdown ops h = Some (x, hs)" "inv hs" "quiet hs"
    using shutdown_ok [OF hinv] by blast
  have "crefs u - 1 \<noteq> 0" if "1 < crefs u" using that by auto
  then show ?thesis
    using assms hs
    by (auto simp: pwm_close_def safe_def bind_eq_Some_conv_ex Let_def split: if_splits)
qed

lemma ioctl_safe:
  assumes "safe (u, h)" and c: "crefs u \<noteq> 0"
    and cmd: "cmd = PWMIOC_SETCHARACTERISTICS \<Longrightarrow> (\<forall>i. arg = Arg_pwm_info i \<longrightarrow> info_valid i)"
      "cmd = PWMIOC_START \<Longrightarrow> info_valid (info u)"
    and call: "pwm_upper_ioctl_cmd ops cmd arg u h = Some (r, a, u', h')"
  shows "safe (u', h')" and "crefs u' = crefs u"
proof -
  have hinv: "inv h" and q: "\<not> started u \<longrightarrow> quiet h" using assms(1) by (simp_all add: safe_def)
  have st: "inv h' \<and> x = OK" if "op_start ops i h = Some (x, h')" "info_valid i" for i x h'
    using start_ok [OF hinv that(2)] that(1) by auto
  have sp: "inv h' \<and> quiet h'" if "op_stop ops h = Some (x, h')" for x h'
    using stop_ok [OF hinv] that by auto
  have io: "inv h' \<and> (quiet h \<longrightarrow> quiet h')" if "op_ioctl ops cmd h = Some (x, h')" for x h'
    using ioctl_ok [OF hinv, of cmd] that by auto
  show "crefs u' = crefs u"
    using call by (auto simp: pwm_upper_ioctl_cmd_def pwm_upper_start_def bind_eq_Some_conv_ex Let_def
        split: if_splits ioctl_arg.splits)
  show "safe (u', h')"
    using call hinv q c cmd st sp io
    by (auto simp: pwm_upper_ioctl_cmd_def pwm_upper_start_def safe_def bind_eq_Some_conv_ex Let_def
        split: if_splits ioctl_arg.splits)
qed

lemma safe_sem [simp]: "safe (u\<lparr>exclsem := x\<rparr>, h) = safe (u, h)"
  by (simp add: safe_def)

lemma upper_ioctl_safe:
  assumes "safe (u, h)" and c: "crefs u \<noteq> 0"
    and cmd: "cmd = PWMIOC_SETCHARACTERISTICS \<Longrightarrow> (\<forall>i. arg = Arg_pwm_info i \<longrightarrow> info_valid i)"
      "cmd = PWMIOC_START \<Longrightarrow> info_valid (info u)"
    and call: "pwm_upper_ioctl ops cmd arg u h = Some (r, a, u', h')"
  shows "safe (u', h')"
proof -
  have s: "safe (u\<lparr>exclsem := x\<rparr>, h)" "crefs (u\<lparr>exclsem := x\<rparr>) \<noteq> 0" for x
    using assms(1) c by simp_all
  have "safe (u2, h2)" if "pwm_upper_ioctl_cmd ops cmd arg (u\<lparr>exclsem := x\<rparr>) h = Some (r2, a2, u2, h2)"
    for x r2 a2 u2 h2
    using ioctl_safe(1) [OF s cmd(1) _ that] cmd(2) by simp
  then have cs: "safe (u2\<lparr>exclsem := y\<rparr>, h2)"
    if "pwm_upper_ioctl_cmd ops cmd arg (u\<lparr>exclsem := x\<rparr>) h = Some (r2, a2, u2, h2)" for x y r2 a2 u2 h2
    using that by simp
  obtain w sem where w: "nxsem_wait (exclsem u) = Some (w, sem)"
    using call by (auto simp: pwm_upper_ioctl_def bind_eq_Some_conv_ex)
  show ?thesis
  proof (cases "w < 0")
    case True
    then show ?thesis using call w s(1) [of sem] by (auto simp: pwm_upper_ioctl_def simp del: safe_sem)
  next
    case False
    then obtain r2 a2 u2 h2 where
      "pwm_upper_ioctl_cmd ops cmd arg (u\<lparr>exclsem := sem\<rparr>) h = Some (r2, a2, u2, h2)"
      "u' = u2\<lparr>exclsem := snd (nxsem_post (exclsem u2))\<rparr>" "h' = h2"
      using call w by (auto simp: pwm_upper_ioctl_def bind_eq_Some_conv_ex)
    then show ?thesis using cs by blast
  qed
qed

lemma step_safe: "pwm_step ops s t \<Longrightarrow> safe s \<Longrightarrow> safe t"
proof (induction rule: pwm_step.induct)
  case (Step_open u h r u' h')
  then show ?case using open_safe by blast
next
  case (Step_close u h r u' h')
  then show ?case using close_safe by blast
next
  case (Step_set u i h r a u' h')
  then show ?case by (intro upper_ioctl_safe [OF _ _ _ _ Step_set(3)]) simp_all
next
  case (Step_start u arg h r a u' h')
  then show ?case by (intro upper_ioctl_safe [OF _ _ _ _ Step_start(3)]) simp_all
next
  case (Step_ioctl u cmd arg h r a u' h')
  then show ?case by (intro upper_ioctl_safe [OF _ _ _ _ Step_ioctl(4)]) simp_all
qed

text \<open>No call on a free device faults or hangs.\<close>

lemma open_returns:
  assumes "inv h" and "0 < semcount (exclsem u)"
  shows "\<exists>h'. pwm_open ops u h = Some (if crefs u = 255 then - EMFILE else OK,
               if crefs u = 255 then u else u\<lparr>crefs := crefs u + 1\<rparr>, h') \<and> inv h' \<and>
             (crefs u \<noteq> 0 \<longrightarrow> h' = h)"
proof -
  obtain hs where hs: "op_setup ops h = Some (OK, hs)" "inv hs" using setup_ok [OF assms(1)] by blast
  have z: "crefs u + 1 = 0 \<longleftrightarrow> crefs u = 255"
  proof
    assume "crefs u + 1 = 0"
    then have "crefs u = - 1" by (simp only: eq_neg_iff_add_eq_0)
    then show "crefs u = 255" by simp
  qed simp
  show ?thesis
    using assms hs by (auto simp: pwm_open_def Let_def z)
qed

lemma close_returns:
  assumes "inv h" and "0 < semcount (exclsem u)"
  shows "\<exists>h'. pwm_close ops u h = Some (OK, u\<lparr>crefs := (if crefs u > 1 then crefs u - 1 else 0)\<rparr>, h') \<and>
             inv h' \<and> (if crefs u > 1 then h' = h else quiet h')"
proof -
  obtain x hs where "op_shutdown ops h = Some (x, hs)" "inv hs" "quiet hs"
    using shutdown_ok [OF assms(1)] by blast
  then show ?thesis using assms by (auto simp: pwm_close_def Let_def)
qed

lemma reach_safe: "pwm_reach ops s t \<Longrightarrow> safe s \<Longrightarrow> safe t"
  by (induction rule: pwm_reach.induct) (auto intro: step_safe)

end

end
