(* ===== verification/Pwm_Stack.thy ===== *)
theory Pwm_Stack
  imports Stm32_Pwm_Laws Pwm_Driver
begin

text \<open>
  The PWM driver on the board: the STM32 lower half keeps the lower half contract, so the
  guarantees of the upper half hold for the motor timer.  Output means that the counter runs or
  that a channel output is enabled.
\<close>

definition stm32_inv :: "stm32_hw \<Rightarrow> bool" where
  "stm32_inv h \<longleftrightarrow> board_hw (mcu_st h) \<and> dev h = tim2 (cur_frequency (dev h))"

definition stm32_quiet :: "stm32_hw \<Rightarrow> bool" where
  "stm32_quiet h \<longleftrightarrow> \<not> bit (tim2_reg GTIM_CR1 (mcu_st h)) 0 \<and>
     tim2_reg GTIM_CCER (mcu_st h) AND 0x1111 = 0"

definition boot_hw :: stm32_hw where
  "boot_hw = \<lparr>dev = g_pwm2dev, mcu_st = boot_mcu\<rparr>"

section \<open>The lower half keeps the contract\<close>

lemma stm32_invD:
  assumes "stm32_inv h"
  obtains f where "dev h = tim2 f" "board_hw (mcu_st h)"
  using assms unfolding stm32_inv_def by blast

lemma stm32_inv_intro [intro]: "board_hw m \<Longrightarrow> stm32_inv (h\<lparr>dev := tim2 f, mcu_st := m\<rparr>)"
  by (simp add: stm32_inv_def)

lemma stm32_inv_mcu [intro]: "board_hw m \<Longrightarrow> dev h = tim2 f \<Longrightarrow> stm32_inv (h\<lparr>mcu_st := m\<rparr>)"
  by (simp add: stm32_inv_def)

lemma g_pwmops_sel [simp]:
  "op_setup g_pwmops h = do { (ret, m) \<leftarrow> pwm_setup (dev h) (mcu_st h); Some (ret, h\<lparr>mcu_st := m\<rparr>) }"
  "op_shutdown g_pwmops h = (let (ret, p, m) = pwm_shutdown (dev h) (mcu_st h)
                             in Some (ret, h\<lparr>dev := p, mcu_st := m\<rparr>))"
  "op_start g_pwmops i h = do { (ret, p, m) \<leftarrow> pwm_start (dev h) i (mcu_st h);
                                Some (ret, h\<lparr>dev := p, mcu_st := m\<rparr>) }"
  "op_stop g_pwmops h = (let (ret, p, m) = pwm_stop (dev h) (mcu_st h)
                         in Some (ret, h\<lparr>dev := p, mcu_st := m\<rparr>))"
  "op_ioctl g_pwmops cmd h = Some (- ENOTTY, h)"
  by (simp_all add: g_pwmops_def pwm_ioctl_def)

lemma chans_ok_valid: "info_valid i \<Longrightarrow> chans_ok i"
  by (simp add: info_valid_def chans_ok_def)

lemma stm32_setup:
  assumes "stm32_inv h"
  shows "\<exists>h'. op_setup g_pwmops h = Some (OK, h') \<and> stm32_inv h' \<and> stm32_quiet h'"
proof -
  obtain f where f: "dev h = tim2 f" "board_hw (mcu_st h)" by (rule stm32_invD [OF assms])
  obtain m' where m': "pwm_setup (tim2 f) (mcu_st h) = Some (OK, m')" "react m' = react (mcu_st h)"
    "\<And>off. off < 0x400 \<Longrightarrow> tim2_reg off m' =
       (if off = GTIM_CR1 then (tim2_reg off (mcu_st h) AND 0xff8e) OR 0x80
        else if off = GTIM_CCER then tim2_reg off (mcu_st h) AND 0xeeee
        else if off = GTIM_CCMR1 \<or> off = GTIM_CCMR2 then (tim2_reg off (mcu_st h) AND 0x8484) OR 0x6868
        else tim2_reg off (mcu_st h))"
    by (rule pwm_setup_tim2 [OF f(2), where f = f]) (rule that)
  have "stm32_quiet (h\<lparr>mcu_st := m'\<rparr>)"
    using m'(3) by (simp add: stm32_quiet_def bit_or_iff bit_and_iff and.assoc)
  moreover have "stm32_inv (h\<lparr>mcu_st := m'\<rparr>)"
    using f board_hw_cong [OF m'(2)] by blast
  ultimately show ?thesis using m'(1) f(1) by simp
qed

lemma stm32_start:
  assumes "stm32_inv h" "info_valid i"
  shows "\<exists>h'. op_start g_pwmops i h = Some (OK, h') \<and> stm32_inv h'"
proof -
  obtain f where f: "dev h = tim2 f" "board_hw (mcu_st h)" by (rule stm32_invD [OF assms(1)])
  then have t: "tim2_hw (mcu_st h)" by (simp add: board_hw_def)
  have fr: "frequency i \<noteq> 0" and ch: "\<forall>c \<in> set (channels i). channel c \<le> 4"
    using assms(2) by (simp_all add: info_valid_def)
  have B: "board_hw m'" if "tim2_only (mcu_st h) m'" for m'
    using that f(2) board_hw_cong [of m' "mcu_st h"] by (simp add: tim2_only_def)
  show ?thesis
  proof (cases "frequency i = f")
    case True
    then show ?thesis
      using start_duty_loop_tim2 [OF t, of f "channels i"] f B
      by (auto simp: pwm_start_def split_beta Let_def)
  next
    case False
    obtain m' where "pwm_timer (tim2 f) i (mcu_st h) = Some (OK, m')" "tim2_only (mcu_st h) m'"
      by (rule pwm_timer_tim2 [OF t fr ch, where f = f]) (rule that)
    then show ?thesis using False f B by (auto simp: pwm_start_def)
  qed
qed

lemma stm32_stop:
  assumes "stm32_inv h"
  shows "\<exists>h'. op_stop g_pwmops h = Some (OK, h') \<and> stm32_inv h' \<and> stm32_quiet h'"
proof -
  obtain f where f: "dev h = tim2 f" "board_hw (mcu_st h)" by (rule stm32_invD [OF assms])
  obtain m' where m': "pwm_stop (tim2 f) (mcu_st h) = (OK, tim2 0, m')" "react m' = react (mcu_st h)"
    "\<And>off. off < 0x400 \<Longrightarrow> tim2_reg off m' = (if off = GTIM_ARR then 0xffffffff else 0)"
    by (rule pwm_stop_tim2 [of "mcu_st h" f]) (use f in \<open>auto simp: board_hw_def intro: that\<close>)
  then show ?thesis
    using f board_hw_cong [OF m'(2)] by (auto simp: stm32_quiet_def Let_def)
qed

lemma stm32_shutdown:
  assumes "stm32_inv h"
  shows "\<exists>r h'. op_shutdown g_pwmops h = Some (r, h') \<and> stm32_inv h' \<and> stm32_quiet h'"
proof -
  obtain f where f: "dev h = tim2 f" "board_hw (mcu_st h)" by (rule stm32_invD [OF assms])
  obtain m' where m': "pwm_shutdown (tim2 f) (mcu_st h) = (OK, tim2 0, m')" "react m' = react (mcu_st h)"
    "\<And>off. off < 0x400 \<Longrightarrow> tim2_reg off m' = (if off = GTIM_ARR then 0xffffffff else 0)"
    by (rule pwm_shutdown_tim2 [OF f(2), where f = f]) (rule that)
  then show ?thesis
    using f board_hw_cong [OF m'(2)] by (auto simp: stm32_quiet_def Let_def)
qed

interpretation stm32_lower: pwm_lower g_pwmops stm32_inv stm32_quiet
  by unfold_locales (simp_all add: stm32_setup stm32_start stm32_stop stm32_shutdown del: g_pwmops_sel(1-4))

lemma boot_hw_inv [simp]: "stm32_inv boot_hw" "stm32_quiet boot_hw"
proof -
  have "g_pwm2dev = tim2 0" "cur_frequency g_pwm2dev = 0" by (simp_all add: tim2_def g_pwm2dev_def)
  then show "stm32_inv boot_hw" by (simp add: stm32_inv_def boot_hw_def)
  show "stm32_quiet boot_hw"
    by (simp add: stm32_quiet_def boot_hw_def boot_mcu_def tim2_reg_getreg getreg32_def)
qed

lemma upper_init_sel [simp]:
  "crefs (pwm_upper_init ws) = 0" "\<not> started (pwm_upper_init ws)"
  "semcount (exclsem (pwm_upper_init ws)) = 1" "info (pwm_upper_init ws) = pwm_info_zero"
  by (simp_all add: pwm_upper_init_def nxsem_init_def)

text \<open>A call with the device semaphore free takes it and gives it back.\<close>

lemma upper_ioctl_free:
  assumes "0 < semcount (exclsem u)"
    and "pwm_upper_ioctl_cmd ops cmd arg (u\<lparr>exclsem := (exclsem u)\<lparr>semcount := semcount (exclsem u) - 1\<rparr>\<rparr>) h
         = Some (r, a, u', h')"
  shows "pwm_upper_ioctl ops cmd arg u h =
         Some (r, a, u'\<lparr>exclsem := snd (nxsem_post (exclsem u'))\<rparr>, h')"
  using assms by (simp add: pwm_upper_ioctl_def)

section \<open>Properties\<close>

text \<open>C20: no motor signal without an open and started device.  In every state the calls of the
  virtual file system can reach from registration, if the device has no open file or the output
  has not been started, the counter is off and all four outputs are disabled.  The calls are those on
  an open file whose requests have a frequency and name each channel at most once, where a start follows
  a request.\<close>

theorem no_output_unless_started:
  assumes "stm32_inv h0" and "stm32_quiet h0"
    and "pwm_reach g_pwmops (pwm_upper_init ws, h0) (u, h)"
    and "crefs u = 0 \<or> \<not> started u"
  shows "stm32_quiet h"
proof -
  have "stm32_lower.safe (pwm_upper_init ws, h0)"
    using assms(1,2) by (simp add: stm32_lower.safe_def)
  then have "stm32_lower.safe (u, h)" by (rule stm32_lower.reach_safe [OF assms(3)])
  then show ?thesis using assms(4) by (simp add: stm32_lower.safe_def)
qed

theorem no_output_unless_started_witness:
  "\<exists>u h. pwm_reach g_pwmops (pwm_upper_init [], boot_hw) (u, h) \<and> crefs u = 1 \<and> stm32_quiet h"
proof -
  obtain h' where "pwm_open g_pwmops (pwm_upper_init []) boot_hw
      = Some (OK, (pwm_upper_init [])\<lparr>crefs := 1\<rparr>, h')"
    using stm32_lower.open_returns [OF boot_hw_inv(1), of "pwm_upper_init []"] by auto
  then have "pwm_reach g_pwmops (pwm_upper_init [], boot_hw) ((pwm_upper_init [])\<lparr>crefs := 1\<rparr>, h')"
    by (blast intro: pwm_reach.intros pwm_step.intros)
  then show ?thesis
    using no_output_unless_started [OF boot_hw_inv, of "[]" "(pwm_upper_init [])\<lparr>crefs := 1\<rparr>" h'] by fastforce
qed

text \<open>the open count.  Opening a free device succeeds 255 times, the hardware is set up by
  the first open only, and a further open fails with EMFILE and changes nothing.\<close>

theorem open_counts_references:
  assumes "stm32_inv h" and "0 < semcount (exclsem u)"
  shows "\<exists>h'. pwm_open g_pwmops u h = Some (if crefs u = 255 then - EMFILE else OK,
               if crefs u = 255 then u else u\<lparr>crefs := crefs u + 1\<rparr>, h') \<and> stm32_inv h' \<and>
             (crefs u \<noteq> 0 \<longrightarrow> h' = h)"
  using stm32_lower.open_returns [OF assms] .

theorem open_counts_references_witness:
  "\<exists>h'. pwm_open g_pwmops (pwm_upper_init []) boot_hw = Some (OK, (pwm_upper_init [])\<lparr>crefs := 1\<rparr>, h')"
  using open_counts_references [OF boot_hw_inv(1), of "pwm_upper_init []"] by auto

text \<open>C26: closing.  Every close of a free device succeeds; a close that leaves other open files
  does not touch the hardware, and the last close stops counter and outputs.\<close>

theorem last_close_silences:
  assumes "stm32_inv h" and "0 < semcount (exclsem u)"
  shows "\<exists>h'. pwm_close g_pwmops u h = Some (OK, u\<lparr>crefs := (if crefs u > 1 then crefs u - 1 else 0)\<rparr>, h') \<and>
             stm32_inv h' \<and> (if crefs u > 1 then h' = h else stm32_quiet h')"
  using stm32_lower.close_returns [OF assms] .

theorem last_close_silences_witness:
  "\<exists>h'. pwm_close g_pwmops ((pwm_upper_init [])\<lparr>crefs := 2\<rparr>) boot_hw
          = Some (OK, (pwm_upper_init [])\<lparr>crefs := 1\<rparr>, h') \<and> h' = boot_hw"
  using last_close_silences [OF boot_hw_inv(1), of "(pwm_upper_init [])\<lparr>crefs := 2\<rparr>"] by auto

text \<open>set and get.  After a valid request, started or not, the characteristics read back are
  the ones that were set.\<close>

theorem set_get_roundtrip:
  assumes "stm32_inv h" and "0 < semcount (exclsem u)" and "info_valid i"
  shows "\<exists>u' h'. pwm_upper_ioctl g_pwmops PWMIOC_SETCHARACTERISTICS (Arg_pwm_info i) u h
                 = Some (OK, Arg_pwm_info i, u', h') \<and> stm32_inv h' \<and> started u' = started u \<and>
               pwm_upper_ioctl g_pwmops PWMIOC_GETCHARACTERISTICS (Arg_pwm_info j) u' h'
                 = Some (OK, Arg_pwm_info i, u', h')"
proof -
  obtain hs where hs: "op_start g_pwmops i h = Some (OK, hs)" "stm32_inv hs"
    using stm32_start [OF assms(1,3)] by blast
  show ?thesis
    using assms(1,2) hs
    by (cases "started u")
      (auto simp: pwm_upper_ioctl_def pwm_upper_ioctl_cmd_def nxsem_post_def Let_def simp del: g_pwmops_sel)
qed

lemma demo_info_valid [simp]: "info_valid demo_info"
  by (simp add: info_valid_def demo_info_def pwm_info_ok_def)

theorem set_get_roundtrip_witness:
  "\<exists>u' h'. pwm_upper_ioctl g_pwmops PWMIOC_SETCHARACTERISTICS (Arg_pwm_info demo_info) (pwm_upper_init []) boot_hw
           = Some (OK, Arg_pwm_info demo_info, u', h') \<and>
         pwm_upper_ioctl g_pwmops PWMIOC_GETCHARACTERISTICS (Arg_pwm_info pwm_info_zero) u' h'
           = Some (OK, Arg_pwm_info demo_info, u', h')"
  using set_get_roundtrip [OF boot_hw_inv(1), of "pwm_upper_init []" demo_info pwm_info_zero] by auto

text \<open>starting before a request.  On a freshly opened device PWMIOC_START without a previous
  PWMIOC_SETCHARACTERISTICS reports success and marks the output as started, but the requested
  frequency 0 equals the recorded frequency 0, so no register is written and nothing is output.\<close>

theorem start_without_request_succeeds:
  assumes "dev h = tim2 0" and "0 < semcount (exclsem u)" and "\<not> started u" and "info u = pwm_info_zero"
  shows "\<exists>u'. pwm_upper_ioctl g_pwmops PWMIOC_START arg u h = Some (OK, arg, u', h) \<and> started u'"
proof -
  have skip: "pwm_duty_update p 0 d m = (OK, m)" for p d m
    using duty_update_skip [of p d m] by (simp add: pwm_duty_update_def Let_def split_beta)
  have "pwm_start (tim2 0) pwm_info_zero (mcu_st h) = Some (OK, tim2 0, mcu_st h)"
    by (simp add: pwm_start_def pwm_info_zero_def skip numeral_eq_Suc)
  then show ?thesis
    using assms by (simp add: pwm_upper_ioctl_def pwm_upper_ioctl_cmd_def pwm_upper_start_def)
qed

theorem start_without_request_succeeds_witness:
  "\<exists>u'. pwm_upper_ioctl g_pwmops PWMIOC_START (Arg_ulong 0) (pwm_upper_init []) boot_hw
        = Some (OK, Arg_ulong 0, u', boot_hw) \<and> started u' \<and> stm32_quiet boot_hw"
proof -
  have "dev boot_hw = tim2 0" by (simp add: boot_hw_def tim2_def g_pwm2dev_def)
  then show ?thesis
    using start_without_request_succeeds [of boot_hw "pwm_upper_init []" "Arg_ulong 0"] by simp
qed

text \<open>the started mark survives the last close.  When a started device is closed and opened
  again, the next PWMIOC_SETCHARACTERISTICS starts the output although nobody asked to start it
  since the open.\<close>

theorem stale_start_after_reopen:
  assumes "stm32_inv h" and "0 < semcount (exclsem u)" and "started u" and "crefs u = 1"
    and "info_valid i"
  shows "\<exists>u1 h1 u2 h2 u3 h3.
           pwm_close g_pwmops u h = Some (OK, u1, h1) \<and> stm32_quiet h1 \<and>
           pwm_open g_pwmops u1 h1 = Some (OK, u2, h2) \<and> stm32_quiet h2 \<and>
           pwm_upper_ioctl g_pwmops PWMIOC_SETCHARACTERISTICS (Arg_pwm_info i) u2 h2
             = Some (OK, Arg_pwm_info i, u3, h3) \<and> bit (tim2_reg GTIM_CR1 (mcu_st h3)) 0"
proof -
  obtain f where f: "dev h = tim2 f" "board_hw (mcu_st h)" by (rule stm32_invD [OF assms(1)])
  obtain m1 where m1: "pwm_shutdown (tim2 f) (mcu_st h) = (OK, tim2 0, m1)" "react m1 = react (mcu_st h)"
    "\<And>off. off < 0x400 \<Longrightarrow> tim2_reg off m1 = (if off = GTIM_ARR then 0xffffffff else 0)"
    by (rule pwm_shutdown_tim2 [OF f(2), where f = f]) (rule that)
  define h1 where "h1 = h\<lparr>dev := tim2 0, mcu_st := m1\<rparr>"
  have b1: "board_hw m1" using f(2) board_hw_cong [OF m1(2)] by simp
  have q1: "stm32_quiet h1" using m1(3) by (simp add: stm32_quiet_def h1_def)
  have c: "pwm_close g_pwmops u h = Some (OK, u\<lparr>crefs := 0\<rparr>, h1)"
    using assms(2,4) m1(1) f(1) by (simp add: pwm_close_def h1_def Let_def)
  obtain h2 where h2: "op_setup g_pwmops h1 = Some (OK, h2)" "stm32_inv h2" "stm32_quiet h2"
    using stm32_setup [of h1] b1 by (auto simp: h1_def simp del: g_pwmops_sel)
  have d2: "dev h2 = tim2 0"
    using h2(1) by (auto simp: h1_def bind_eq_Some_conv_ex)
  have o: "pwm_open g_pwmops (u\<lparr>crefs := 0\<rparr>) h1 = Some (OK, u\<lparr>crefs := 1\<rparr>, h2)"
    using assms(2) h2(1) by (simp add: pwm_open_def Let_def del: g_pwmops_sel)
  have t2: "tim2_hw (mcu_st h2)" using h2(2) by (simp add: stm32_inv_def board_hw_def)
  have fr: "frequency i \<noteq> 0" "\<forall>c \<in> set (channels i). channel c \<le> 4"
    using assms(5) by (simp_all add: info_valid_def)
  obtain m3 where m3: "pwm_timer (tim2 0) i (mcu_st h2) = Some (OK, m3)"
    "\<And>off. off \<notin> {GTIM_SR, GTIM_EGR, GTIM_CNT} \<Longrightarrow> tim2_reg off m3 =
       (if off = GTIM_CR1 then tim2_reg off (mcu_st h2) OR 1
        else if off = GTIM_CCER then tim2_reg off (mcu_st h2) OR 0x1111
        else if off = GTIM_PSC then take_bit 16 (freq_prescaler 84000000 (frequency i) - 1)
        else if off = GTIM_ARR then freq_reload 84000000 (frequency i)
        else new_ccr (channels i) (freq_reload 84000000 (frequency i)) off (tim2_reg off (mcu_st h2)))"
    by (rule pwm_timer_tim2 [OF t2 fr, where f = 0]) (rule that)
  define h3 where "h3 = h2\<lparr>dev := tim2 (frequency i), mcu_st := m3\<rparr>"
  have "op_start g_pwmops i h2 = Some (OK, h3)"
    using m3(1) d2 fr(1) by (simp add: pwm_start_def h3_def)
  then have "\<exists>u3. pwm_upper_ioctl g_pwmops PWMIOC_SETCHARACTERISTICS (Arg_pwm_info i) (u\<lparr>crefs := 1\<rparr>) h2
             = Some (OK, Arg_pwm_info i, u3, h3)"
    using assms(2,3) by (simp add: pwm_upper_ioctl_def pwm_upper_ioctl_cmd_def del: g_pwmops_sel)
  moreover have "bit (tim2_reg GTIM_CR1 (mcu_st h3)) 0" using m3(2) by (simp add: h3_def bit_or_iff)
  ultimately show ?thesis using c q1 o h2(3) by blast
qed

theorem stale_start_after_reopen_witness:
  "\<exists>u1 h1 u2 h2 u3 h3.
     pwm_close g_pwmops ((pwm_upper_init [])\<lparr>crefs := 1, started := True\<rparr>) boot_hw = Some (OK, u1, h1) \<and>
     pwm_open g_pwmops u1 h1 = Some (OK, u2, h2) \<and> stm32_quiet h2 \<and>
     pwm_upper_ioctl g_pwmops PWMIOC_SETCHARACTERISTICS (Arg_pwm_info demo_info) u2 h2
       = Some (OK, Arg_pwm_info demo_info, u3, h3) \<and> bit (tim2_reg GTIM_CR1 (mcu_st h3)) 0"
proof -
  have "0 < semcount (exclsem ((pwm_upper_init [])\<lparr>crefs := 1, started := True\<rparr>))" by simp
  then show ?thesis
    using stale_start_after_reopen [OF boot_hw_inv(1), of "(pwm_upper_init [])\<lparr>crefs := 1, started := True\<rparr>"
        demo_info] by fastforce
qed

end
