(* ===== verification/Pwm_Output.thy ===== *)
theory Pwm_Output
  imports Pwm_Stack
begin

text \<open>
  What the motor pins show.  The predicate \<^verbatim>\<open>outputs\<close> says that the timer produces a request:
  counter and outputs enabled, all channels in PWM mode, prescaler and reload from the requested
  frequency, every compare register from the requested duty cycle.  The lemmas follow it, and the
  silence of the outputs, through the calls of the driver on a device with one open file.
\<close>

definition pwm_mode1 :: "stm32_hw \<Rightarrow> bool" where
  "pwm_mode1 h \<longleftrightarrow> tim2_reg GTIM_CCMR1 (mcu_st h) AND 0x7b7b = 0x6868 \<and>
     tim2_reg GTIM_CCMR2 (mcu_st h) AND 0x7b7b = 0x6868"

definition outputs :: "stm32_hw \<Rightarrow> pwm_info_s \<Rightarrow> bool" where
  "outputs h i \<longleftrightarrow> bit (tim2_reg GTIM_CR1 (mcu_st h)) 0 \<and> tim2_reg GTIM_CCER (mcu_st h) AND 0x1111 = 0x1111 \<and>
     pwm_mode1 h \<and>
     tim2_reg GTIM_ARR (mcu_st h) = freq_reload 84000000 (frequency i) \<and>
     unat (tim2_reg GTIM_PSC (mcu_st h)) + 1 = unat (freq_prescaler 84000000 (frequency i)) \<and>
     (\<forall>c \<in> set (channels i). channel c \<noteq> 0 \<longrightarrow>
        tim2_reg (ccr_off (channel c)) (mcu_st h) = duty_to_ccr (duty c) (freq_reload 84000000 (frequency i)))"

section \<open>The lower half\<close>

lemma setup_mode1:
  assumes "stm32_inv h"
  obtains h' where "op_setup g_pwmops h = Some (OK, h')" "stm32_inv h'" "stm32_quiet h'" "pwm_mode1 h'" "dev h' = dev h"
proof -
  obtain f where f: "dev h = tim2 f" "board_hw (mcu_st h)" by (rule stm32_invD [OF assms])
  obtain m' where m': "pwm_setup (tim2 f) (mcu_st h) = Some (OK, m')" "react m' = react (mcu_st h)"
    "\<And>off. off < 0x400 \<Longrightarrow> tim2_reg off m' =
       (if off = GTIM_CR1 then (tim2_reg off (mcu_st h) AND 0xff8e) OR 0x80
        else if off = GTIM_CCER then tim2_reg off (mcu_st h) AND 0xeeee
        else if off = GTIM_CCMR1 \<or> off = GTIM_CCMR2 then (tim2_reg off (mcu_st h) AND 0x8484) OR 0x6868
        else tim2_reg off (mcu_st h))"
    by (rule pwm_setup_tim2 [OF f(2), where f = f]) (rule that)
  let ?h = "h\<lparr>mcu_st := m'\<rparr>"
  have "((x AND 0x8484) OR 0x6868) AND 0x7b7b = 0x6868" for x :: u32
    by (simp add: bit.conj_disj_distrib2 and.assoc)
  then have "pwm_mode1 ?h" using m'(3) by (simp add: pwm_mode1_def)
  moreover have "stm32_quiet ?h"
    using m'(3) by (simp add: stm32_quiet_def bit_or_iff bit_and_iff and.assoc)
  moreover have "stm32_inv ?h" using f board_hw_cong [OF m'(2)] by blast
  ultimately show thesis using that [of ?h] m'(1) f(1) by simp
qed

lemma start_outputs:
  assumes inv: "stm32_inv h" and i: "info_valid i" and new: "cur_frequency (dev h) \<noteq> frequency i" and mode: "pwm_mode1 h"
  obtains h' where "op_start g_pwmops i h = Some (OK, h')" "stm32_inv h'" "outputs h' i"
    "cur_frequency (dev h') = frequency i"
proof -
  obtain f where f: "dev h = tim2 f" "board_hw (mcu_st h)" by (rule stm32_invD [OF inv])
  have t: "tim2_hw (mcu_st h)" "gpio_hw (mcu_st h)" using f(2) by (simp_all add: board_hw_def)
  have fr: "frequency i \<noteq> 0" "frequency i \<noteq> f" "\<forall>c \<in> set (channels i). channel c \<le> 4"
    using i new f(1) by (auto simp: info_valid_def)
  obtain m' where tm: "pwm_timer (tim2 f) i (mcu_st h) = Some (OK, m')" "tim2_only (mcu_st h) m'"
    by (rule pwm_timer_tim2 [OF t(1) fr(1,3), where f = f]) (rule that)
  obtain m2 where m2: "pwm_start (tim2 f) i (mcu_st h) = Some (OK, tim2 (frequency i), m2)" "tim2_hw m2"
      "bit (tim2_reg GTIM_CR1 m2) 0" "tim2_reg GTIM_CCER m2 AND 0x1111 = 0x1111"
      "tim2_reg GTIM_ARR m2 = freq_reload 84000000 (frequency i)"
      "unat (tim2_reg GTIM_PSC m2) + 1 = unat (freq_prescaler 84000000 (frequency i))"
      "\<forall>c \<in> set (channels i). channel c \<noteq> 0 \<longrightarrow>
         tim2_reg (ccr_off (channel c)) m2 = duty_to_ccr (duty c) (freq_reload 84000000 (frequency i))"
      "tim2_reg GTIM_CCMR1 m2 = tim2_reg GTIM_CCMR1 (mcu_st h)"
      "tim2_reg GTIM_CCMR2 m2 = tim2_reg GTIM_CCMR2 (mcu_st h)"
    using pwm_start_new [OF t(1) fr(1,2) chans_ok_valid [OF i]] by blast
  have "m2 = m'" using m2(1) tm(1) fr(2) by (simp add: pwm_start_def)
  then have "board_hw m2" using f(2) board_hw_cong [of m2 "mcu_st h"] tm(2) by (simp add: tim2_only_def)
  then show thesis
    using that [of "h\<lparr>dev := tim2 (frequency i), mcu_st := m2\<rparr>"] m2 f(1) mode
    by (auto simp: outputs_def pwm_mode1_def)
qed

lemma restart_outputs:
  assumes inv: "stm32_inv h" and i: "info_valid i" and same: "cur_frequency (dev h) = frequency i"
    and out: "outputs h j" "frequency j = frequency i"
  obtains h' where "op_start g_pwmops i h = Some (OK, h')" "stm32_inv h'" "outputs h' i" "dev h' = dev h"
proof -
  obtain f where f: "dev h = tim2 f" "board_hw (mcu_st h)" by (rule stm32_invD [OF inv])
  have t: "tim2_hw (mcu_st h)" using f(2) by (simp add: board_hw_def)
  have fi: "frequency i = f" using same f(1) by simp
  obtain m' where m': "pwm_start (tim2 f) i (mcu_st h) = Some (OK, tim2 f, m')" "tim2_only (mcu_st h) m'"
      "\<forall>c \<in> set (channels i). channel c \<noteq> 0 \<longrightarrow>
         tim2_reg (ccr_off (channel c)) m' = duty_to_ccr (duty c) (tim2_reg GTIM_ARR (mcu_st h))"
      "\<forall>off. off \<notin> ccr_off ` (channel ` set (channels i)) \<longrightarrow> tim2_reg off m' = tim2_reg off (mcu_st h)"
    using pwm_start_same [OF t fi chans_ok_valid [OF i]] by blast
  have "channel c \<in> {0, 1, 2, 3, 4}" if "c \<in> set (channels i)" for c
    using i that u8_le_4 by (auto simp: info_valid_def)
  then have keep: "tim2_reg off m' = tim2_reg off (mcu_st h)"
    if "off \<notin> {0x30, 0x34, 0x38, 0x3c, 0x40}" for off
    using m'(4) that by (fastforce simp: ccr_off_def)
  have "board_hw m'" using f(2) board_hw_cong [of m' "mcu_st h"] m'(2) by (simp add: tim2_only_def)
  then show thesis
    using that [of "h\<lparr>dev := tim2 f, mcu_st := m'\<rparr>"] m'(1,3) f(1) out keep
    by (auto simp: outputs_def pwm_mode1_def)
qed

end
