(* ===== verification/Path.thy ===== *)
theory Path
  imports Prelude "HOL-Library.List_Lexorder" "HOL-Library.Char_ord"
begin

text \<open>
  Path names of the pseudo file system: the string helpers of \<^verbatim>\<open>fs/inode\<close> that walk a path
  segment by segment.  A C string is the list of its characters without the terminating NUL, a
  pointer into it is the remaining list.  Characters compare as unsigned values, the plain char
  of the ARM ABI.
\<close>

section \<open>Model\<close>

fun inode_compare :: "string \<Rightarrow> string \<Rightarrow> int" where
  "inode_compare fname [] = (if fname = [] \<or> hd fname = CHR ''/'' then 0 else 1)"
| "inode_compare [] (n # ns) = - 1"
| "inode_compare (f # fs) (n # ns) =
     (if f = CHR ''/'' then - 1
      else if f > n then 1
      else if f < n then - 1
      else inode_compare fs ns)"

definition inode_nextname :: "string \<Rightarrow> string" where
  "inode_nextname name = dropWhile (\<lambda>c. c = CHR ''/'') (dropWhile (\<lambda>c. c \<noteq> CHR ''/'') name)"

definition inode_namelen :: "string \<Rightarrow> nat" where
  "inode_namelen name = length (takeWhile (\<lambda>c. c \<noteq> CHR ''/'') name)"

definition inode_namecpy :: "string \<Rightarrow> string" where
  "inode_namecpy src = takeWhile (\<lambda>c. c \<noteq> CHR ''/'') src"

lemma nextname_shorter: "name \<noteq> [] \<Longrightarrow> length (inode_nextname name) < length name"
proof (cases name)
  case (Cons c cs)
  have "length (dropWhile P cs) \<le> length cs" "length (dropWhile P (dropWhile Q cs)) \<le> length cs" for P Q :: "char \<Rightarrow> bool"
    by (rule length_dropWhile_le, rule order.trans [OF length_dropWhile_le length_dropWhile_le])
  then show ?thesis using Cons by (auto simp: inode_nextname_def less_Suc_eq_le)
qed simp

text \<open>The last segment, or NULL for a path of at most one segment, as the loop of the code
  computes it.\<close>

function inode_basename_loop :: "string \<Rightarrow> string option \<Rightarrow> string option" where
  "inode_basename_loop name basename =
     (let name' = inode_nextname name
      in if name' = [] then basename else inode_basename_loop name' (Some name'))"
  by pat_completeness auto

termination
proof (relation "measure (\<lambda>(name, _). length name)")
  fix name :: string and basename :: "string option" and name'
  assume n: "name' = inode_nextname name" "name' \<noteq> []"
  then have "name \<noteq> []" by (auto simp: inode_nextname_def)
  then show "((name', Some name'), name, basename) \<in> measure (\<lambda>(name, _). length name)"
    using n nextname_shorter by simp
qed simp

definition inode_basename :: "string \<Rightarrow> string option" where
  "inode_basename name = inode_basename_loop name None"

text \<open>Skipping the leading slashes of an absolute path.\<close>

definition skip_slashes :: "string \<Rightarrow> string" where
  "skip_slashes name = dropWhile (\<lambda>c. c = CHR ''/'') name"

text \<open>The list of the segments of a path, the reading of paths the proofs use.\<close>

abbreviation seg :: "string \<Rightarrow> string" where "seg \<equiv> inode_namecpy"

function segments :: "string \<Rightarrow> string list" where
  "segments name = (if name = [] then [] else seg name # segments (inode_nextname name))"
  by pat_completeness auto

termination
  by (relation "measure length") (simp_all add: nextname_shorter)

declare segments.simps [simp del] inode_basename_loop.simps [simp del]

section \<open>Comparison is the lexicographic order of the segments\<close>

lemma inode_compare_seg:
  assumes "CHR ''/'' \<notin> set n"
  shows "inode_compare f n = (if seg f < n then - 1 else if seg f > n then 1 else 0)"
  using assms
proof (induction f n rule: inode_compare.induct)
  case (1 fname)
  then show ?case by (cases fname) (auto simp: inode_namecpy_def)
next
  case (2 n ns)
  then show ?case by (simp add: inode_namecpy_def)
next
  case (3 f fs n ns)
  then show ?case by (auto simp: inode_namecpy_def)
qed

lemma seg_no_slash [simp]: "CHR ''/'' \<notin> set (seg f)"
  by (auto simp: inode_namecpy_def dest: set_takeWhileD)

lemma segments_Nil [simp]: "segments [] = []"
  by (simp add: segments.simps)

lemma segments_step: "f \<noteq> [] \<Longrightarrow> segments f = seg f # segments (inode_nextname f)"
  by (subst segments.simps) simp

lemma segments_no_slash: "s \<in> set (segments f) \<Longrightarrow> CHR ''/'' \<notin> set s"
  by (induction f rule: segments.induct) (subst (asm) (2) segments.simps, auto split: if_splits)

end
