(* ===== verification/Inode.thy ===== *)
theory Inode
  imports Path Semaphore Ioctl_Arg
begin

text \<open>
  The in-memory inode tree of the pseudo file system (\<^verbatim>\<open>fs/inode\<close>) and driver registration
  (\<^verbatim>\<open>fs/driver\<close>), without soft links (CONFIG_PSEUDOFS_SOFTLINKS is off).  Inodes live in a heap
  from addresses to structures and are linked by the pointers \<^verbatim>\<open>i_peer\<close> and \<^verbatim>\<open>i_child\<close>;
  NULL is None.  Following a pointer to a freed inode is undefined behaviour and gives None.
  An allocation takes a fresh address, or fails when the memory oracle \<^verbatim>\<open>oom\<close> says so.  The
  type variable 'd is the state of the device drivers behind the file operations.
\<close>

section \<open>Data\<close>

record file_s =
  f_oflags :: int
  f_pos :: int
  f_inode :: "nat option"
  f_priv :: "nat option"

text \<open>A driver method gets the open file and the private data of its inode.  The open method of a
  mount point also gets the path below it.  A read returns the bytes it put into the buffer.\<close>

record 'd file_operations =
  fop_open :: "(file_s \<Rightarrow> string option \<Rightarrow> nat \<Rightarrow> 'd \<Rightarrow> (int \<times> 'd) option) option"
  fop_close :: "(file_s \<Rightarrow> nat \<Rightarrow> 'd \<Rightarrow> (int \<times> 'd) option) option"
  fop_read :: "(file_s \<Rightarrow> nat \<Rightarrow> nat \<Rightarrow> 'd \<Rightarrow> (int \<times> u8 list \<times> 'd) option) option"
  fop_write :: "(file_s \<Rightarrow> nat \<Rightarrow> u8 list \<Rightarrow> 'd \<Rightarrow> (int \<times> 'd) option) option"
  fop_ioctl :: "(file_s \<Rightarrow> nat \<Rightarrow> int \<Rightarrow> ioctl_arg \<Rightarrow> 'd \<Rightarrow> (int \<times> ioctl_arg \<times> 'd) option) option"

record 'd inode_s =
  i_peer :: "nat option"
  i_child :: "nat option"
  i_crefs :: int
  i_flags :: u16
  i_ops :: "'d file_operations option"
  i_private :: nat
  i_name :: string

abbreviation (input) FSNODEFLAG_TYPE_MASK :: u16 where "FSNODEFLAG_TYPE_MASK \<equiv> 0xf"
abbreviation (input) FSNODEFLAG_TYPE_DRIVER :: u16 where "FSNODEFLAG_TYPE_DRIVER \<equiv> 0"
abbreviation (input) FSNODEFLAG_TYPE_BLOCK :: u16 where "FSNODEFLAG_TYPE_BLOCK \<equiv> 1"
abbreviation (input) FSNODEFLAG_TYPE_MOUNTPT :: u16 where "FSNODEFLAG_TYPE_MOUNTPT \<equiv> 2"
abbreviation (input) FSNODEFLAG_TYPE_MTD :: u16 where "FSNODEFLAG_TYPE_MTD \<equiv> 0xb"
abbreviation (input) FSNODEFLAG_DELETED :: u16 where "FSNODEFLAG_DELETED \<equiv> 0x10"

definition INODE_IS_TYPE :: "'d inode_s \<Rightarrow> u16 \<Rightarrow> bool" where
  "INODE_IS_TYPE i t \<longleftrightarrow> i_flags i AND FSNODEFLAG_TYPE_MASK = t"

definition INODE_SET_TYPE :: "'d inode_s \<Rightarrow> u16 \<Rightarrow> 'd inode_s" where
  "INODE_SET_TYPE i t = i\<lparr>i_flags := (i_flags i AND NOT FSNODEFLAG_TYPE_MASK) OR t\<rparr>"

record inode_sem_s =
  isem :: sem_t
  holder :: int
  hcount :: int

record 'd fs =
  inodes :: "nat \<Rightarrow> 'd inode_s option"
  g_root_inode :: "nat option"
  g_inode_sem :: inode_sem_s
  brk :: nat
  oom :: "nat \<Rightarrow> bool"
  mypid :: int
  drv :: 'd

record inode_search_s =
  path :: string
  node :: "nat option"
  peer :: "nat option"
  parent :: "nat option"
  relpath :: "string option"

definition SETUP_SEARCH :: "string \<Rightarrow> inode_search_s" where
  "SETUP_SEARCH p = \<lparr>path = p, node = None, peer = None, parent = None, relpath = None\<rparr>"

section \<open>The inode semaphore\<close>

abbreviation (input) NO_HOLDER :: int where "NO_HOLDER \<equiv> - 1"

definition inode_initialize :: "int list \<Rightarrow> inode_sem_s" where
  "inode_initialize ws = \<lparr>isem = nxsem_init 1 ws, holder = NO_HOLDER, hcount = 0\<rparr>"

definition inode_semtake :: "('d, 'z) fs_scheme \<Rightarrow> ('d, 'z) fs_scheme option" where
  "inode_semtake s =
     (let g = g_inode_sem s
      in if mypid s = holder g then Some (s\<lparr>g_inode_sem := g\<lparr>hcount := hcount g + 1\<rparr>\<rparr>)
         else do {
           sem \<leftarrow> sem_take_loop (isem g);
           Some (s\<lparr>g_inode_sem := \<lparr>isem = sem, holder = mypid s, hcount = 1\<rparr>\<rparr>)
         })"

definition inode_semgive :: "('d, 'z) fs_scheme \<Rightarrow> ('d, 'z) fs_scheme" where
  "inode_semgive s =
     (let g = g_inode_sem s
      in if hcount g > 1 then s\<lparr>g_inode_sem := g\<lparr>hcount := hcount g - 1\<rparr>\<rparr>
         else s\<lparr>g_inode_sem := \<lparr>isem = snd (nxsem_post (isem g)), holder = NO_HOLDER, hcount = 0\<rparr>\<rparr>)"

section \<open>Search\<close>

text \<open>The traversal loop of \<^verbatim>\<open>_inode_search\<close>; a heap whose pointers form a cycle makes it run for
  ever.\<close>

partial_function (option) search_loop ::
  "(nat \<Rightarrow> 'd inode_s option) \<Rightarrow> string \<Rightarrow> nat option \<Rightarrow> nat option \<Rightarrow> nat option \<Rightarrow>
   (int \<times> inode_search_s) option" where
  "search_loop heap name nd left up =
     (case nd of
        None \<Rightarrow> Some (- ENOENT, \<lparr>path = name, node = None, peer = left, parent = up, relpath = None\<rparr>)
      | Some p \<Rightarrow>
          (case heap p of
             None \<Rightarrow> None
           | Some i \<Rightarrow>
               if inode_compare name (i_name i) < 0
               then Some (- ENOENT, \<lparr>path = name, node = None, peer = left, parent = up, relpath = None\<rparr>)
               else if inode_compare name (i_name i) > 0
               then search_loop heap name (i_peer i) (Some p) up
               else if inode_nextname name = [] \<or> INODE_IS_TYPE i FSNODEFLAG_TYPE_MOUNTPT
               then Some (OK, \<lparr>path = inode_nextname name, node = Some p, peer = left, parent = up,
                               relpath = Some (inode_nextname name)\<rparr>)
               else search_loop heap (inode_nextname name) (i_child i) None (Some p)))"

declare search_loop.simps [code]

text \<open>For a relative path and for the root the search fails before it touches the descriptor.\<close>

definition inode_search ::
  "('d, 'z) fs_scheme \<Rightarrow> inode_search_s \<Rightarrow> (int \<times> inode_search_s) option" where
  "inode_search s desc =
     (let name = path desc
      in if name = [] \<or> hd name \<noteq> CHR ''/'' then Some (- EINVAL, desc)
         else
           let name = skip_slashes name
           in if name = [] then Some (- ENOSYS, desc)
              else search_loop (inodes s) name (g_root_inode s) None None)"

definition upd_inode :: "nat \<Rightarrow> ('d inode_s \<Rightarrow> 'd inode_s) \<Rightarrow> ('d, 'z) fs_scheme \<Rightarrow> ('d, 'z) fs_scheme option" where
  "upd_inode p f s =
     (case inodes s p of
        None \<Rightarrow> None
      | Some i \<Rightarrow> Some (s\<lparr>inodes := (inodes s)(p \<mapsto> f i)\<rparr>))"

definition inode_find ::
  "('d, 'z) fs_scheme \<Rightarrow> inode_search_s \<Rightarrow> (int \<times> inode_search_s \<times> ('d, 'z) fs_scheme) option" where
  "inode_find s desc = do {
     s \<leftarrow> inode_semtake s;
     (ret, desc) \<leftarrow> inode_search s desc;
     s \<leftarrow> (if ret \<ge> 0
           then case node desc of
                  None \<Rightarrow> None
                | Some p \<Rightarrow> upd_inode p (\<lambda>i. i\<lparr>i_crefs := i_crefs i + 1\<rparr>) s
           else Some s);
     Some (ret, desc, inode_semgive s)
   }"

section \<open>Insertion\<close>

text \<open>Allocation of a zeroed inode with the name copied into it.\<close>

definition inode_alloc :: "string \<Rightarrow> ('d, 'z) fs_scheme \<Rightarrow> nat option \<times> ('d, 'z) fs_scheme" where
  "inode_alloc name s =
     (if oom s (brk s) then (None, s\<lparr>brk := brk s + 1\<rparr>)
      else (Some (brk s),
            s\<lparr>brk := brk s + 1,
              inodes := (inodes s)(brk s \<mapsto>
                \<lparr>i_peer = None, i_child = None, i_crefs = 0, i_flags = 0, i_ops = None, i_private = 0,
                 i_name = inode_namecpy name\<rparr>)\<rparr>))"

definition inode_insert ::
  "nat \<Rightarrow> nat option \<Rightarrow> nat option \<Rightarrow> ('d, 'z) fs_scheme \<Rightarrow> ('d, 'z) fs_scheme option" where
  "inode_insert nd pr par s =
     (case pr of
        Some p \<Rightarrow> do {
          pi \<leftarrow> inodes s p;
          s \<leftarrow> upd_inode nd (\<lambda>i. i\<lparr>i_peer := i_peer pi\<rparr>) s;
          upd_inode p (\<lambda>i. i\<lparr>i_peer := Some nd\<rparr>) s
        }
      | None \<Rightarrow>
          (case par of
             Some q \<Rightarrow> do {
               qi \<leftarrow> inodes s q;
               s \<leftarrow> upd_inode nd (\<lambda>i. i\<lparr>i_peer := i_child qi\<rparr>) s;
               upd_inode q (\<lambda>i. i\<lparr>i_child := Some nd\<rparr>) s
             }
           | None \<Rightarrow> do {
               s \<leftarrow> upd_inode nd (\<lambda>i. i\<lparr>i_peer := g_root_inode s\<rparr>) s;
               Some (s\<lparr>g_root_inode := Some nd\<rparr>)
             }))"

function reserve_loop ::
  "string \<Rightarrow> nat option \<Rightarrow> nat option \<Rightarrow> ('d, 'z) fs_scheme \<Rightarrow> (int \<times> nat option \<times> ('d, 'z) fs_scheme) option" where
  "reserve_loop name left par s =
     (case inode_alloc name s of
        (None, s) \<Rightarrow> Some (- ENOMEM, None, s)
      | (Some nd, s) \<Rightarrow>
          if inode_nextname name \<noteq> []
          then case inode_insert nd left par s of
                 None \<Rightarrow> None
               | Some s \<Rightarrow> reserve_loop (inode_nextname name) None (Some nd) s
          else do { s \<leftarrow> inode_insert nd left par s; Some (OK, Some nd, s) })"
  by pat_completeness auto

termination
proof (relation "measure (\<lambda>(name, _). length name)")
  fix name :: string and left par s x sa nd x2 sb
  assume "inode_nextname name \<noteq> []"
  then have "name \<noteq> []" by (auto simp: inode_nextname_def)
  then show "((inode_nextname name, None, Some nd, sb), name, left, par, s) \<in> measure (\<lambda>(name, _). length name)"
    by (simp add: nextname_shorter)
qed simp

declare reserve_loop.simps [simp del]

definition inode_reserve ::
  "string \<Rightarrow> ('d, 'z) fs_scheme \<Rightarrow> (int \<times> nat option \<times> ('d, 'z) fs_scheme) option" where
  "inode_reserve pth s =
     (if pth = [] \<or> hd pth \<noteq> CHR ''/'' then Some (- EINVAL, None, s)
      else do {
        (ret, desc) \<leftarrow> inode_search s (SETUP_SEARCH pth);
        if ret \<ge> 0 then Some (- EEXIST, None, s)
        else reserve_loop (path desc) (peer desc) (parent desc) s
      })"

definition register_driver ::
  "string \<Rightarrow> 'd file_operations \<Rightarrow> nat \<Rightarrow> ('d, 'z) fs_scheme \<Rightarrow> (int \<times> ('d, 'z) fs_scheme) option" where
  "register_driver pth fops priv s = do {
     s \<leftarrow> inode_semtake s;
     (ret, nd, s) \<leftarrow> inode_reserve pth s;
     s \<leftarrow> (if ret \<ge> 0
           then case nd of
                  None \<Rightarrow> None
                | Some p \<Rightarrow> upd_inode p
                    (\<lambda>i. (INODE_SET_TYPE i FSNODEFLAG_TYPE_DRIVER)\<lparr>i_ops := Some fops, i_private := priv\<rparr>) s
           else Some s);
     Some (if ret \<ge> 0 then OK else ret, inode_semgive s)
   }"

section \<open>Removal\<close>

text \<open>Freeing an inode frees its peers and its children first.\<close>

partial_function (option) inode_free ::
  "nat option \<Rightarrow> (nat \<Rightarrow> 'd inode_s option) \<Rightarrow> (nat \<Rightarrow> 'd inode_s option) option" where
  "inode_free nd heap =
     (case nd of
        None \<Rightarrow> Some heap
      | Some p \<Rightarrow>
          (case heap p of
             None \<Rightarrow> None
           | Some i \<Rightarrow> do {
               heap1 \<leftarrow> inode_free (i_peer i) heap;
               i1 \<leftarrow> heap1 p;
               heap2 \<leftarrow> inode_free (i_child i1) heap1;
               (case heap2 p of None \<Rightarrow> None | Some _ \<Rightarrow> Some (heap2(p := None)))
             }))"

declare inode_free.simps [code]

definition inode_unlink ::
  "string \<Rightarrow> ('d, 'z) fs_scheme \<Rightarrow> (nat option \<times> ('d, 'z) fs_scheme) option" where
  "inode_unlink pth s =
     (if pth = [] \<or> hd pth \<noteq> CHR ''/'' then Some (None, s)
      else do {
        (ret, desc) \<leftarrow> inode_search s (SETUP_SEARCH pth);
        if ret \<ge> 0
        then do {
          p \<leftarrow> node desc;
          i \<leftarrow> inodes s p;
          s \<leftarrow> (case peer desc of
                  Some l \<Rightarrow> upd_inode l (\<lambda>x. x\<lparr>i_peer := i_peer i\<rparr>) s
                | None \<Rightarrow>
                    (case parent desc of
                       Some a \<Rightarrow> upd_inode a (\<lambda>x. x\<lparr>i_child := i_peer i\<rparr>) s
                     | None \<Rightarrow> Some (s\<lparr>g_root_inode := i_peer i\<rparr>)));
          s \<leftarrow> upd_inode p (\<lambda>x. x\<lparr>i_peer := None\<rparr>) s;
          Some (Some p, s)
        }
        else Some (None, s)
      })"

definition inode_remove :: "string \<Rightarrow> ('d, 'z) fs_scheme \<Rightarrow> (int \<times> ('d, 'z) fs_scheme) option" where
  "inode_remove pth s = do {
     (nd, s) \<leftarrow> inode_unlink pth s;
     (case nd of
        None \<Rightarrow> Some (- ENOENT, s)
      | Some p \<Rightarrow> do {
          i \<leftarrow> inodes s p;
          if i_crefs i \<noteq> 0
          then do {
            s \<leftarrow> upd_inode p (\<lambda>x. x\<lparr>i_flags := i_flags x OR FSNODEFLAG_DELETED\<rparr>) s;
            Some (- EBUSY, s)
          }
          else do {
            heap \<leftarrow> inode_free (Some p) (inodes s);
            Some (OK, s\<lparr>inodes := heap\<rparr>)
          }
        })
   }"

definition unregister_driver :: "string \<Rightarrow> ('d, 'z) fs_scheme \<Rightarrow> (int \<times> ('d, 'z) fs_scheme) option" where
  "unregister_driver pth s = do {
     s \<leftarrow> inode_semtake s;
     (ret, s) \<leftarrow> inode_remove pth s;
     Some (ret, inode_semgive s)
   }"

definition inode_addref :: "nat option \<Rightarrow> ('d, 'z) fs_scheme \<Rightarrow> ('d, 'z) fs_scheme option" where
  "inode_addref nd s =
     (case nd of
        None \<Rightarrow> Some s
      | Some p \<Rightarrow> do {
          s \<leftarrow> inode_semtake s;
          s \<leftarrow> upd_inode p (\<lambda>i. i\<lparr>i_crefs := i_crefs i + 1\<rparr>) s;
          Some (inode_semgive s)
        })"

definition inode_release :: "nat option \<Rightarrow> ('d, 'z) fs_scheme \<Rightarrow> ('d, 'z) fs_scheme option" where
  "inode_release nd s =
     (case nd of
        None \<Rightarrow> Some s
      | Some p \<Rightarrow> do {
          s \<leftarrow> inode_semtake s;
          s \<leftarrow> upd_inode p (\<lambda>i. if i_crefs i \<noteq> 0 then i\<lparr>i_crefs := i_crefs i - 1\<rparr> else i) s;
          i \<leftarrow> inodes s p;
          if i_crefs i \<le> 0 \<and> i_flags i AND FSNODEFLAG_DELETED \<noteq> 0
          then do {
            let s = inode_semgive s;
            heap \<leftarrow> inode_free (Some p) (inodes s);
            Some (s\<lparr>inodes := heap\<rparr>)
          }
          else Some (inode_semgive s)
        })"

end
