(* ===== verification/Inode_Laws.thy ===== *)
theory Inode_Laws
  imports Inode
begin

text \<open>
  The inode tree as a tree.  The pointer structure of the heap represents a list of trees that is
  sorted by name at every level; the search of the code computes the search on that tree, and
  registering a driver inserts a chain of new nodes at the place where the search stopped.
\<close>

section \<open>The tree behind the pointers\<close>

datatype tree = T (addr: nat) (tname: string) (mnt: bool) (kids: "tree list")

fun addrs :: "tree list \<Rightarrow> nat list" where
  "addrs [] = []"
| "addrs (T a n m ks # ts) = a # addrs ks @ addrs ts"

fun forest :: "(nat \<Rightarrow> 'd inode_s option) \<Rightarrow> nat option \<Rightarrow> tree list \<Rightarrow> bool" where
  "forest h p [] \<longleftrightarrow> p = None"
| "forest h p (T a n m ks # ts) \<longleftrightarrow>
     p = Some a \<and>
     (\<exists>i. h a = Some i \<and> i_name i = n \<and> INODE_IS_TYPE i FSNODEFLAG_TYPE_MOUNTPT = m \<and>
          forest h (i_child i) ks \<and> forest h (i_peer i) ts)"

fun sorted_forest :: "tree list \<Rightarrow> bool" where
  "sorted_forest [] \<longleftrightarrow> True"
| "sorted_forest (T a n m ks # ts) \<longleftrightarrow>
     CHR ''/'' \<notin> set n \<and> sorted_forest ks \<and> sorted_forest ts \<and> (\<forall>t \<in> set ts. n < tname t)"

text \<open>The search on the tree.\<close>

fun tsearch :: "tree list \<Rightarrow> string \<Rightarrow> nat option \<Rightarrow> nat option \<Rightarrow> int \<times> inode_search_s" where
  "tsearch [] name left up =
     (- ENOENT, \<lparr>path = name, node = None, peer = left, parent = up, relpath = None\<rparr>)"
| "tsearch (T a n m ks # ts) name left up =
     (if seg name < n
      then (- ENOENT, \<lparr>path = name, node = None, peer = left, parent = up, relpath = None\<rparr>)
      else if n < seg name then tsearch ts name (Some a) up
      else if inode_nextname name = [] \<or> m
      then (OK, \<lparr>path = inode_nextname name, node = Some a, peer = left, parent = up,
                 relpath = Some (inode_nextname name)\<rparr>)
      else tsearch ks (inode_nextname name) None (Some a))"

text \<open>The chain of new nodes for the missing segments of a path, and its place in the tree.\<close>

function tchain :: "string \<Rightarrow> nat \<Rightarrow> tree" where
  "tchain name n =
     T n (seg name) False (if inode_nextname name = [] then [] else [tchain (inode_nextname name) (n + 1)])"
  by pat_completeness auto

termination
proof (relation "measure (\<lambda>(name, _). length name)")
  fix name :: string and n :: nat
  assume "inode_nextname name \<noteq> []"
  then have "name \<noteq> []" by (auto simp: inode_nextname_def)
  then show "((inode_nextname name, n + 1), name, n) \<in> measure (\<lambda>(name, _). length name)"
    by (simp add: nextname_shorter)
qed simp

declare tchain.simps [simp del]

fun tinsert :: "tree list \<Rightarrow> string \<Rightarrow> nat \<Rightarrow> tree list" where
  "tinsert [] name n = [tchain name n]"
| "tinsert (T a nm m ks # ts) name n =
     (if seg name < nm then tchain name n # T a nm m ks # ts
      else if nm < seg name then T a nm m ks # tinsert ts name n
      else T a nm m (tinsert ks (inode_nextname name) n) # ts)"

definition wf_tree :: "('d, 'z) fs_scheme \<Rightarrow> tree list \<Rightarrow> bool" where
  "wf_tree s ts \<longleftrightarrow> forest (inodes s) (g_root_inode s) ts \<and> sorted_forest ts \<and> distinct (addrs ts) \<and>
     (\<forall>a. inodes s a \<noteq> None \<longrightarrow> a < brk s)"

section \<open>Search\<close>

lemma search_loop_forest:
  "forest h p ts \<Longrightarrow> sorted_forest ts \<Longrightarrow>
   search_loop h name p left up = Some (tsearch ts name left up)"
proof (induction ts name left up arbitrary: p rule: tsearch.induct)
  case (1 name left up)
  then show ?case by (simp add: search_loop.simps)
next
  case (2 a n m ks ts name left up)
  from 2(3) obtain i where i: "p = Some a" "h a = Some i" "i_name i = n"
    "INODE_IS_TYPE i FSNODEFLAG_TYPE_MOUNTPT = m" "forest h (i_child i) ks" "forest h (i_peer i) ts" by auto
  have c: "inode_compare name n = (if seg name < n then - 1 else if seg name > n then 1 else 0)"
    using 2(4) by (simp add: inode_compare_seg)
  show ?case
    using 2(1) [of "i_peer i"] 2(2) [of "i_child i"] 2(4) i c
    by (subst search_loop.simps) (auto simp: not_less_iff_gr_or_eq)
qed

lemma forest_cong: "forest h p ts \<Longrightarrow> \<forall>a \<in> set (addrs ts). h' a = h a \<Longrightarrow> forest h' p ts"
  by (induction h p ts rule: forest.induct) auto

lemma forest_dom: "forest h p ts \<Longrightarrow> a \<in> set (addrs ts) \<Longrightarrow> h a \<noteq> None"
  by (induction h p ts rule: forest.induct) auto

text \<open>The address that owns the pointer at which a failed search stopped.\<close>

definition owner :: "inode_search_s \<Rightarrow> nat option" where
  "owner d = (case peer d of Some l \<Rightarrow> Some l | None \<Rightarrow> parent d)"

section \<open>Changing one link\<close>

text \<open>A search stops at one pointer of the tree, the slot: the trees hanging from it, and the forest
  with other trees hung there.\<close>

fun tslot :: "tree list \<Rightarrow> string \<Rightarrow> tree list" where
  "tslot [] name = []"
| "tslot (T a n m ks # ts) name =
     (if seg name < n then T a n m ks # ts
      else if n < seg name then tslot ts name
      else if inode_nextname name = [] \<or> m then T a n m ks # ts
      else tslot ks (inode_nextname name))"

fun tput :: "tree list \<Rightarrow> string \<Rightarrow> tree list \<Rightarrow> tree list" where
  "tput [] name new = new"
| "tput (T a n m ks # ts) name new =
     (if seg name < n then new
      else if n < seg name then T a n m ks # tput ts name new
      else if inode_nextname name = [] \<or> m then new
      else T a n m (tput ks (inode_nextname name) new) # ts)"

abbreviation outside :: "tree list \<Rightarrow> string \<Rightarrow> nat set" where
  "outside ts name \<equiv> set (addrs ts) - set (addrs (tslot ts name))"

text \<open>The pointer itself.\<close>

definition slot_ptr ::
  "(nat \<Rightarrow> 'd inode_s option) \<Rightarrow> nat option \<Rightarrow> nat set \<Rightarrow> inode_search_s \<Rightarrow> nat option" where
  "slot_ptr h p A d =
     (case peer d of
        Some l \<Rightarrow> if l \<in> A then i_peer (the (h l)) else p
      | None \<Rightarrow> (case parent d of Some u \<Rightarrow> if u \<in> A then i_child (the (h u)) else p | None \<Rightarrow> p))"

text \<open>The heap in which that pointer, and no other one of the nodes above it, is q.\<close>

definition relinked ::
  "(nat \<Rightarrow> 'd inode_s option) \<Rightarrow> (nat \<Rightarrow> 'd inode_s option) \<Rightarrow> nat set \<Rightarrow> nat option \<Rightarrow> inode_search_s \<Rightarrow> bool" where
  "relinked h h' A q d \<longleftrightarrow>
     (\<forall>a \<in> A. owner d \<noteq> Some a \<longrightarrow> h' a = h a) \<and>
     (\<forall>l \<in> A. peer d = Some l \<longrightarrow> h' l = Some ((the (h l))\<lparr>i_peer := q\<rparr>)) \<and>
     (\<forall>u \<in> A. peer d = None \<and> parent d = Some u \<longrightarrow> h' u = Some ((the (h u))\<lparr>i_child := q\<rparr>))"

lemma relinked_mono: "relinked h h' A q d \<Longrightarrow> B \<subseteq> A \<Longrightarrow> relinked h h' B q d"
  unfolding relinked_def by blast

lemma tslot_addrs: "set (addrs (tslot ts name)) \<subseteq> set (addrs ts)"
  by (induction ts name rule: tslot.induct) auto

lemma tsearch_owner:
  "tsearch ts name left up = (r, d) \<Longrightarrow> distinct (addrs ts) \<Longrightarrow>
   (peer d = left \<and> parent d = up \<and> tslot ts name = ts) \<or> (\<exists>a \<in> outside ts name. owner d = Some a)"
proof (induction ts name left up rule: tsearch.induct)
  case (1 name left up)
  then show ?case by auto
next
  case (2 a n m ks ts name left up)
  then show ?case
    using tslot_addrs [of ts name] tslot_addrs [of ks "inode_nextname name"]
    by (auto simp: owner_def split: if_splits)
qed

lemma type_sel_upd [simp]:
  "INODE_IS_TYPE (i\<lparr>i_peer := x\<rparr>) t = INODE_IS_TYPE i t"
  "INODE_IS_TYPE (i\<lparr>i_child := x\<rparr>) t = INODE_IS_TYPE i t"
  "INODE_IS_TYPE (i\<lparr>i_crefs := c\<rparr>) t = INODE_IS_TYPE i t"
  by (simp_all add: INODE_IS_TYPE_def)

text \<open>The link that changed is one of the node's, or lies below it.\<close>

lemma relinked_peer:
  assumes rl: "relinked h h' A q d" and a: "h a = Some i" "a \<in> A"
    and own: "(peer d = Some a) \<or> (\<exists>x \<in> B. owner d = Some x)" and B: "a \<notin> B"
  obtains j where "h' a = Some j" "i_name j = i_name i" "i_child j = i_child i"
    "INODE_IS_TYPE j FSNODEFLAG_TYPE_MOUNTPT = INODE_IS_TYPE i FSNODEFLAG_TYPE_MOUNTPT"
    "i_peer j = (if owner d \<in> Some ` B then i_peer i else q)"
proof (cases "peer d = Some a")
  case True
  then have "h' a = Some (i\<lparr>i_peer := q\<rparr>)" using rl a by (simp add: relinked_def)
  then show thesis using True B by (intro that [of "i\<lparr>i_peer := q\<rparr>"]) (auto simp: owner_def)
next
  case False
  then have "owner d \<in> Some ` B" "owner d \<noteq> Some a" using own B by auto
  then show thesis using rl a by (intro that [of i]) (auto simp: relinked_def)
qed

lemma relinked_child:
  assumes rl: "relinked h h' A q d" and a: "h a = Some i" "a \<in> A"
    and own: "(peer d = None \<and> parent d = Some a) \<or> (\<exists>x \<in> B. owner d = Some x)" and B: "a \<notin> B"
  obtains j where "h' a = Some j" "i_name j = i_name i" "i_peer j = i_peer i"
    "INODE_IS_TYPE j FSNODEFLAG_TYPE_MOUNTPT = INODE_IS_TYPE i FSNODEFLAG_TYPE_MOUNTPT"
    "i_child j = (if owner d \<in> Some ` B then i_child i else q)"
proof (cases "peer d = None \<and> parent d = Some a")
  case True
  then have "h' a = Some (i\<lparr>i_child := q\<rparr>)" using rl a by (simp add: relinked_def)
  then show thesis using True B by (intro that [of "i\<lparr>i_child := q\<rparr>"]) (auto simp: owner_def)
next
  case False
  then have "owner d \<in> Some ` B" "owner d \<noteq> Some a" using own B by auto
  then show thesis using rl a by (intro that [of i]) (auto simp: relinked_def)
qed

lemma relinked_keep:
  "relinked h h' A q d \<Longrightarrow> owner d = Some y \<Longrightarrow> y \<notin> B \<Longrightarrow> B \<subseteq> A \<Longrightarrow> \<forall>x \<in> B. h' x = h x"
  by (auto simp: relinked_def)

lemma relink_forest:
  "forest h p ts \<Longrightarrow> distinct (addrs ts) \<Longrightarrow> tsearch ts name left up = (r, d) \<Longrightarrow>
   relinked h h' (outside ts name) q d \<Longrightarrow> left \<notin> Some ` set (addrs ts) \<Longrightarrow> up \<notin> Some ` set (addrs ts) \<Longrightarrow>
   forest h' q new \<Longrightarrow>
   forest h' (if owner d \<in> Some ` outside ts name then p else q) (tput ts name new)"
proof (induction ts name left up arbitrary: p rule: tsearch.induct)
  case (1 name left up)
  then show ?case by simp
next
  case (2 a nm m ks ts name left up)
  let ?A = "outside (T a nm m ks # ts) name"
  from 2(3) obtain i where i: "p = Some a" "h a = Some i" "i_name i = nm"
    "INODE_IS_TYPE i FSNODEFLAG_TYPE_MOUNTPT = m" "forest h (i_child i) ks" "forest h (i_peer i) ts" by auto
  have dis: "a \<notin> set (addrs ks)" "a \<notin> set (addrs ts)" "distinct (addrs ks)" "distinct (addrs ts)"
    "set (addrs ks) \<inter> set (addrs ts) = {}" using 2(4) by auto
  have sub: "set (addrs (tslot ts name)) \<subseteq> set (addrs ts)"
    "set (addrs (tslot ks (inode_nextname name))) \<subseteq> set (addrs ks)" by (rule tslot_addrs)+
  consider (stop) "seg name < nm \<or> seg name = nm \<and> (inode_nextname name = [] \<or> m)" |
    (right) "nm < seg name" "\<not> seg name < nm" | (down) "seg name = nm" "inode_nextname name \<noteq> []" "\<not> m"
    using less_linear less_not_sym by metis
  then show ?case
  proof cases
    case stop
    then show ?thesis using 2(9) by auto
  next
    case right
    then have s: "tsearch ts name (Some a) up = (r, d)" and A: "?A = insert a (set (addrs ks)) \<union> outside ts name"
      using 2(5) dis sub by auto
    have own: "peer d = Some a \<or> (\<exists>x \<in> outside ts name. owner d = Some x)" using tsearch_owner [OF s dis(4)] by auto
    have "\<exists>y. owner d = Some y \<and> y \<notin> set (addrs ks) \<and> y \<in> ?A" using own dis unfolding A by (auto simp: owner_def)
    then obtain y where y: "owner d = Some y" "y \<notin> set (addrs ks)" "y \<in> ?A" by blast
    have "forest h' (if owner d \<in> Some ` outside ts name then i_peer i else q) (tput ts name new)"
      by (rule 2(1) [OF right(2,1) i(6) dis(4) s relinked_mono [OF 2(6)] _ _ 2(9)]) (use A dis 2(8) in auto)
    moreover have "forest h' (i_child i) ks"
      by (rule forest_cong [OF i(5) relinked_keep [OF 2(6) y(1,2)]]) (use A in blast)
    moreover obtain j where "h' a = Some j" "i_name j = i_name i" "i_child j = i_child i"
      "INODE_IS_TYPE j FSNODEFLAG_TYPE_MOUNTPT = INODE_IS_TYPE i FSNODEFLAG_TYPE_MOUNTPT"
      "i_peer j = (if owner d \<in> Some ` outside ts name then i_peer i else q)"
      by (rule relinked_peer [OF 2(6) i(2) _ own]) (use dis in \<open>auto simp only: A\<close>)
    ultimately have "forest h' p (T a nm m ks # tput ts name new)" using i by simp
    then show ?thesis using right y(1,3) by simp
  next
    case down
    then have s: "tsearch ks (inode_nextname name) None (Some a) = (r, d)"
      and A: "?A = insert a (set (addrs ts)) \<union> outside ks (inode_nextname name)"
      using 2(5) dis sub by auto
    have own: "peer d = None \<and> parent d = Some a \<or> (\<exists>x \<in> outside ks (inode_nextname name). owner d = Some x)"
      using tsearch_owner [OF s dis(3)] by auto
    have "\<exists>y. owner d = Some y \<and> y \<notin> set (addrs ts) \<and> y \<in> ?A" using own dis unfolding A by (auto simp: owner_def)
    then obtain y where y: "owner d = Some y" "y \<notin> set (addrs ts)" "y \<in> ?A" by blast
    have "forest h' (if owner d \<in> Some ` outside ks (inode_nextname name) then i_child i else q)
        (tput ks (inode_nextname name) new)"
      by (rule 2(2) [OF _ _ _ i(5) dis(3) s relinked_mono [OF 2(6)] _ _ 2(9)]) (use A dis down in auto)
    moreover have "forest h' (i_peer i) ts"
      by (rule forest_cong [OF i(6) relinked_keep [OF 2(6) y(1,2)]]) (use A in blast)
    moreover obtain j where "h' a = Some j" "i_name j = i_name i" "i_peer j = i_peer i"
      "INODE_IS_TYPE j FSNODEFLAG_TYPE_MOUNTPT = INODE_IS_TYPE i FSNODEFLAG_TYPE_MOUNTPT"
      "i_child j = (if owner d \<in> Some ` outside ks (inode_nextname name) then i_child i else q)"
      by (rule relinked_child [OF 2(6) i(2) _ own]) (use dis in \<open>auto simp only: A\<close>)
    ultimately have "forest h' p (T a nm m (tput ks (inode_nextname name) new) # ts)" using i by simp
    then show ?thesis using down y(1,3) by simp
  qed
qed

section \<open>Linking a new node\<close>

definition new_node :: "(nat \<Rightarrow> 'd inode_s option) \<Rightarrow> nat \<Rightarrow> string \<Rightarrow> nat option \<Rightarrow> bool" where
  "new_node h' n name q \<longleftrightarrow>
     (\<exists>i. h' n = Some i \<and> i_name i = seg name \<and> \<not> INODE_IS_TYPE i FSNODEFLAG_TYPE_MOUNTPT \<and>
          forest h' (i_child i) (kids (tchain name n)) \<and> i_peer i = q)"

lemma forest_new_node:
  assumes "new_node h' n name q" "forest h' q rest"
  shows "forest h' (Some n) (tchain name n # rest)"
proof -
  define K where "K = (if inode_nextname name = [] then [] else [tchain (inode_nextname name) (n + 1)])"
  have "tchain name n = T n (seg name) False K" unfolding K_def by (rule tchain.simps)
  then show ?thesis using assms by (auto simp: new_node_def)
qed

lemma tinsert_tput:
  "tsearch ts name left up = (r, d) \<Longrightarrow> r < 0 \<Longrightarrow>
   tinsert ts name n = tput ts name (tchain (path d) n # tslot ts name)"
  by (induction ts name left up rule: tsearch.induct) (auto split: if_splits)

lemma slot_forest:
  "forest h p ts \<Longrightarrow> distinct (addrs ts) \<Longrightarrow> tsearch ts name left up = (r, d) \<Longrightarrow>
   left \<notin> Some ` set (addrs ts) \<Longrightarrow> up \<notin> Some ` set (addrs ts) \<Longrightarrow>
   forest h (slot_ptr h p (set (addrs ts)) d) (tslot ts name)"
proof (induction ts name left up arbitrary: p rule: tsearch.induct)
  case (1 name left up)
  then show ?case by (auto simp: slot_ptr_def split: option.splits)
next
  case (2 a nm m ks ts name left up)
  let ?A = "set (addrs (T a nm m ks # ts))"
  from 2(3) obtain i where i: "p = Some a" "h a = Some i" "forest h (i_child i) ks" "forest h (i_peer i) ts" by auto
  have dis: "a \<notin> set (addrs ks)" "a \<notin> set (addrs ts)" "distinct (addrs ks)" "distinct (addrs ts)"
    "set (addrs ks) \<inter> set (addrs ts) = {}" using 2(4) by auto
  consider (stop) "seg name < nm \<or> seg name = nm \<and> (inode_nextname name = [] \<or> m)" |
    (right) "nm < seg name" "\<not> seg name < nm" | (down) "seg name = nm" "inode_nextname name \<noteq> []" "\<not> m"
    using less_linear less_not_sym by metis
  then show ?case
  proof cases
    case stop
    then have "peer d = left" "parent d = up" "tslot (T a nm m ks # ts) name = T a nm m ks # ts" using 2(5) by auto
    then show ?thesis using 2(3,6,7) by (auto simp: slot_ptr_def split: option.splits)
  next
    case right
    then have s: "tsearch ts name (Some a) up = (r, d)" using 2(5) by simp
    then have "slot_ptr h (i_peer i) (set (addrs ts)) d = slot_ptr h p ?A d"
      using tsearch_owner [OF s dis(4)] dis i(2) by (auto simp: slot_ptr_def owner_def split: option.splits)
    moreover have "forest h (slot_ptr h (i_peer i) (set (addrs ts)) d) (tslot ts name)"
      by (rule 2(1) [OF right(2,1) i(4) dis(4) s]) (use dis 2(7) in auto)
    ultimately show ?thesis using right by simp
  next
    case down
    then have s: "tsearch ks (inode_nextname name) None (Some a) = (r, d)" using 2(5) by simp
    then have "slot_ptr h (i_child i) (set (addrs ks)) d = slot_ptr h p ?A d"
      using tsearch_owner [OF s dis(3)] dis i(2) by (auto simp: slot_ptr_def owner_def split: option.splits)
    moreover have "forest h (slot_ptr h (i_child i) (set (addrs ks)) d) (tslot ks (inode_nextname name))"
      by (rule 2(2) [OF _ _ _ i(3) dis(3) s]) (use dis down in auto)
    ultimately show ?thesis using down by simp
  qed
qed

lemma tinsert_forest:
  assumes f: "forest h p ts" and dis: "distinct (addrs ts)" and s: "tsearch ts name left up = (r, d)" "r < 0"
    and l: "relinked h h' (set (addrs ts)) (Some n) d"
    and lu: "left \<notin> Some ` set (addrs ts)" "up \<notin> Some ` set (addrs ts)"
    and new: "new_node h' n (path d) (slot_ptr h p (set (addrs ts)) d)"
  shows "forest h' (if owner d \<in> Some ` set (addrs ts) then p else Some n) (tinsert ts name n)"
proof -
  have own: "owner d \<notin> Some ` set (addrs (tslot ts name))"
    using tsearch_owner [OF s(1) dis] lu by (auto simp: owner_def split: option.splits)
  then have "\<forall>x \<in> set (addrs (tslot ts name)). h' x = h x"
    using l tslot_addrs [of ts name] by (auto simp: relinked_def)
  then have "forest h' (slot_ptr h p (set (addrs ts)) d) (tslot ts name)"
    by (rule forest_cong [OF slot_forest [OF f dis s(1) lu]])
  then have nf: "forest h' (Some n) (tchain (path d) n # tslot ts name)" by (rule forest_new_node [OF new])
  have "forest h' (if owner d \<in> Some ` outside ts name then p else Some n)
      (tput ts name (tchain (path d) n # tslot ts name))"
    by (rule relink_forest [OF f dis s(1) relinked_mono [OF l] lu nf]) blast
  moreover have "owner d \<in> Some ` outside ts name \<longleftrightarrow> owner d \<in> Some ` set (addrs ts)" using own by auto
  ultimately show ?thesis by (simp add: tinsert_tput [OF s])
qed

section \<open>The effect of reserving a path\<close>

definition blank :: "string \<Rightarrow> nat option \<Rightarrow> 'd inode_s" where
  "blank name q = \<lparr>i_peer = q, i_child = None, i_crefs = 0, i_flags = 0, i_ops = None, i_private = 0,
                   i_name = inode_namecpy name\<rparr>"

text \<open>The pointer that a new node will be hooked into, and the heap after hooking it.\<close>

definition slot_of :: "('d, 'z) fs_scheme \<Rightarrow> nat option \<Rightarrow> nat option \<Rightarrow> nat option" where
  "slot_of s left up =
     (case left of Some l \<Rightarrow> i_peer (the (inodes s l))
      | None \<Rightarrow> (case up of Some u \<Rightarrow> i_child (the (inodes s u)) | None \<Rightarrow> g_root_inode s))"

definition hook :: "('d, 'z) fs_scheme \<Rightarrow> nat option \<Rightarrow> nat option \<Rightarrow> nat \<Rightarrow> ('d, 'z) fs_scheme \<Rightarrow> ('d, 'z) fs_scheme" where
  "hook s left up n s0 =
     (case left of Some l \<Rightarrow> s0\<lparr>inodes := (inodes s0)(l \<mapsto> (the (inodes s l))\<lparr>i_peer := Some n\<rparr>)\<rparr>
      | None \<Rightarrow>
          (case up of Some u \<Rightarrow> s0\<lparr>inodes := (inodes s0)(u \<mapsto> (the (inodes s u))\<lparr>i_child := Some n\<rparr>)\<rparr>
           | None \<Rightarrow> s0\<lparr>g_root_inode := Some n\<rparr>))"

definition slot_exists :: "('d, 'z) fs_scheme \<Rightarrow> nat option \<Rightarrow> nat option \<Rightarrow> bool" where
  "slot_exists s left up \<longleftrightarrow>
     (case left of Some l \<Rightarrow> inodes s l \<noteq> None
      | None \<Rightarrow> (case up of Some u \<Rightarrow> inodes s u \<noteq> None | None \<Rightarrow> True))"

definition heap_bounded :: "('d, 'z) fs_scheme \<Rightarrow> bool" where
  "heap_bounded s \<longleftrightarrow> (\<forall>a. inodes s a \<noteq> None \<longrightarrow> a < brk s)"

lemma alloc_insert:
  assumes "\<not> oom s (brk s)" "heap_bounded s" "slot_exists s left up"
  shows "\<exists>s0. inode_alloc name s = (Some (brk s), s0) \<and>
     inode_insert (brk s) left up s0 =
       Some (hook s left up (brk s)
         (s\<lparr>brk := brk s + 1, inodes := (inodes s)(brk s \<mapsto> blank name (slot_of s left up))\<rparr>))"
proof -
  have ne: "l \<noteq> brk s" if "inodes s l \<noteq> None" for l
    using assms(2) that by (auto simp: heap_bounded_def)
  show ?thesis
    using assms(1,3) ne
    by (auto simp: inode_alloc_def inode_insert_def upd_inode_def blank_def slot_of_def hook_def
        slot_exists_def split: option.splits)
qed

definition reserved ::
  "('d, 'z) fs_scheme \<Rightarrow> nat option \<Rightarrow> nat option \<Rightarrow> string \<Rightarrow> ('d, 'z) fs_scheme \<Rightarrow> bool" where
  "reserved s left up name s' \<longleftrightarrow>
     brk s' = brk s + length (segments name) \<and> heap_bounded s' \<and>
     (\<forall>a < brk s. (case left of Some l \<Rightarrow> Some l | None \<Rightarrow> up) \<noteq> Some a \<longrightarrow> inodes s' a = inodes s a) \<and>
     (\<forall>l. left = Some l \<longrightarrow> inodes s' l = Some ((the (inodes s l))\<lparr>i_peer := Some (brk s)\<rparr>)) \<and>
     (\<forall>u. left = None \<and> up = Some u \<longrightarrow> inodes s' u = Some ((the (inodes s u))\<lparr>i_child := Some (brk s)\<rparr>)) \<and>
     g_root_inode s' = (if left = None \<and> up = None then Some (brk s) else g_root_inode s) \<and>
     new_node (inodes s') (brk s) name (slot_of s left up) \<and>
     (\<exists>x q. inodes s' (brk s + length (segments name) - 1) = Some (blank x q)) \<and>
     (\<forall>a j. brk s \<le> a \<and> inodes s' a = Some j \<longrightarrow> i_crefs j = 0 \<and> i_flags j = 0) \<and>
     s' = s\<lparr>brk := brk s', inodes := inodes s', g_root_inode := g_root_inode s'\<rparr>"

lemma kids_tchain:
  "kids (tchain name n) = (if inode_nextname name = [] then [] else [tchain (inode_nextname name) (n + 1)])"
  by (subst tchain.simps) simp

lemma blank_sel [simp]:
  "i_peer (blank x q) = q" "i_child (blank x q) = None" "i_crefs (blank x q) = 0"
  "i_flags (blank x q) = 0" "i_ops (blank x q) = None" "i_name (blank x q) = seg x"
  "\<not> INODE_IS_TYPE (blank x q) FSNODEFLAG_TYPE_MOUNTPT"
  by (simp_all add: blank_def INODE_IS_TYPE_def)

lemma hook_sel [simp]:
  "brk (hook s left up n s0) = brk s0" "oom (hook s left up n s0) = oom s0"
  by (simp_all add: hook_def split: option.split)

lemma segments_length: "name \<noteq> [] \<Longrightarrow> length (segments name) = Suc (length (segments (inode_nextname name)))"
  by (simp add: segments_step)

lemma brk_fresh: "heap_bounded s \<Longrightarrow> inodes s (brk s) = None"
  by (fastforce simp: heap_bounded_def)

text \<open>Hooking in a single node.\<close>

lemma hook_reserved:
  fixes name :: string
  assumes "heap_bounded s" "slot_exists s left up"
  defines "s1 \<equiv> hook s left up (brk s)
      (s\<lparr>brk := brk s + 1, inodes := (inodes s)(brk s \<mapsto> blank name (slot_of s left up))\<rparr>)"
  shows "inodes s1 (brk s) = Some (blank name (slot_of s left up))" and "heap_bounded s1"
    and "\<forall>a < brk s. (case left of Some l \<Rightarrow> Some l | None \<Rightarrow> up) \<noteq> Some a \<longrightarrow> inodes s1 a = inodes s a"
    and "\<forall>l. left = Some l \<longrightarrow> inodes s1 l = Some ((the (inodes s l))\<lparr>i_peer := Some (brk s)\<rparr>)"
    and "\<forall>u. left = None \<and> up = Some u \<longrightarrow> inodes s1 u = Some ((the (inodes s u))\<lparr>i_child := Some (brk s)\<rparr>)"
    and "g_root_inode s1 = (if left = None \<and> up = None then Some (brk s) else g_root_inode s)"
    and "s1 = s\<lparr>brk := brk s1, inodes := inodes s1, g_root_inode := g_root_inode s1\<rparr>"
proof -
  have ne: "l < brk s" if "inodes s l \<noteq> None" for l using assms(1) that by (auto simp: heap_bounded_def)
  show "heap_bounded s1"
    using assms(1,2) ne
    by (auto simp: s1_def hook_def slot_exists_def heap_bounded_def less_Suc_eq split: option.splits)
qed (use assms(2) brk_fresh [OF assms(1)] in \<open>auto simp: s1_def hook_def slot_exists_def heap_bounded_def split: option.splits\<close>)


lemma reserved_leaf:
  assumes "heap_bounded s" "slot_exists s left up" "name \<noteq> []" "inode_nextname name = []"
  shows "reserved s left up name (hook s left up (brk s)
      (s\<lparr>brk := brk s + 1, inodes := (inodes s)(brk s \<mapsto> blank name (slot_of s left up))\<rparr>))"
proof -
  have l: "length (segments name) = 1" using assms(3,4) by (simp add: segments_length)
  let ?s' = "hook s left up (brk s)
      (s\<lparr>brk := brk s + 1, inodes := (inodes s)(brk s \<mapsto> blank name (slot_of s left up))\<rparr>)"
  note h = hook_reserved [OF assms(1,2), of name]
  have "\<forall>a j. brk s \<le> a \<and> inodes ?s' a = Some j \<longrightarrow> i_crefs j = 0 \<and> i_flags j = 0"
    using h(1,2) by (auto simp: heap_bounded_def le_less less_Suc_eq)
  then show ?thesis
    unfolding reserved_def using h l assms(4)
    by (auto simp: new_node_def kids_tchain)
qed

lemma reserved_step:
  assumes "heap_bounded s" "slot_exists s left up" "name \<noteq> []" "inode_nextname name \<noteq> []"
  defines "s1 \<equiv> hook s left up (brk s)
      (s\<lparr>brk := brk s + 1, inodes := (inodes s)(brk s \<mapsto> blank name (slot_of s left up))\<rparr>)"
  assumes "reserved s1 None (Some (brk s)) (inode_nextname name) s'"
  shows "reserved s left up name s'"
proof -
  note h = hook_reserved [OF assms(1,2), of name, folded s1_def]
  have b1: "brk s1 = brk s + 1" by (simp add: s1_def)
  have l: "length (segments name) = Suc (length (segments (inode_nextname name)))"
    "0 < length (segments (inode_nextname name))"
    using assms(3,4) by (simp_all add: segments_length)
  note r = assms(6) [unfolded reserved_def]
  have q: "slot_of s1 None (Some (brk s)) = None" using h(1) by (simp add: slot_of_def)
  have keep: "inodes s' a = inodes s1 a" if "a < brk s" for a using r b1 that by auto
  have n: "inodes s' (brk s) = Some ((blank name (slot_of s left up))\<lparr>i_child := Some (brk s + 1)\<rparr>)"
    using r h(1) b1 by auto
  have "forest (inodes s') (Some (brk s + 1)) [tchain (inode_nextname name) (brk s + 1)]"
    using r b1 q by (intro forest_new_node) auto
  then have nn: "new_node (inodes s') (brk s) name (slot_of s left up)"
    using n assms(4) by (simp add: new_node_def kids_tchain)
  have lt: "l < brk s" if "slot_exists s (Some l) x" for l x
    using that assms(1) by (auto simp: slot_exists_def heap_bounded_def)
  have lt': "u < brk s" if "slot_exists s None (Some u)" for u
    using that assms(1) by (auto simp: slot_exists_def heap_bounded_def)
  have "s' = s\<lparr>brk := brk s', inodes := inodes s', g_root_inode := g_root_inode s'\<rparr>"
  proof -
    obtain x y z where 1: "s1 = s\<lparr>brk := x, inodes := y, g_root_inode := z\<rparr>" using h(7) by blast
    obtain x' y' z' where 2: "s' = s1\<lparr>brk := x', inodes := y', g_root_inode := z'\<rparr>" using r by blast
    show ?thesis unfolding 2 1 by simp
  qed
  moreover have "i_crefs j = 0 \<and> i_flags j = 0" if "brk s \<le> a" "inodes s' a = Some j" for a j
  proof (cases "a = brk s")
    case True
    then show ?thesis using n that(2) by auto
  next
    case False
    then have "brk s1 \<le> a" using b1 that(1) by simp
    then show ?thesis using r that(2) by blast
  qed
  moreover have "brk s + length (segments name) - 1 = brk s1 + length (segments (inode_nextname name)) - 1"
    using l b1 by simp
  ultimately show ?thesis
    unfolding reserved_def using r nn h(3-6) keep l b1 lt lt' assms(2) by auto
qed

lemma reserve_loop_ok:
  assumes "\<forall>n. \<not> oom s n" "heap_bounded s" "slot_exists s left up" "name \<noteq> []"
  shows "\<exists>s'. reserve_loop name left up s = Some (OK, Some (brk s + length (segments name) - 1), s') \<and>
              reserved s left up name s'"
  using assms
proof (induction "length name" arbitrary: name left up s rule: less_induct)
  case less
  define s1 where "s1 = hook s left up (brk s)
      (s\<lparr>brk := brk s + 1, inodes := (inodes s)(brk s \<mapsto> blank name (slot_of s left up))\<rparr>)"
  obtain s0 where s0: "inode_alloc name s = (Some (brk s), s0)" "inode_insert (brk s) left up s0 = Some s1"
    using alloc_insert [of s left up name] less.prems by (auto simp: s1_def)
  show ?case
  proof (cases "inode_nextname name = []")
    case True
    have "length (segments name) = 1" using less.prems(4) True by (simp add: segments_length)
    then show ?thesis
      using True s0 reserved_leaf [OF less.prems(2,3,4) True, folded s1_def]
      by (subst reserve_loop.simps) simp
  next
    case False
    note h = hook_reserved [OF less.prems(2,3), of name, folded s1_def]
    have b: "brk s1 = brk s + 1" "\<forall>n. \<not> oom s1 n" using less.prems(1) by (simp_all add: s1_def)
    have "slot_exists s1 None (Some (brk s))" using h(1) by (simp add: slot_exists_def)
    then obtain s' where s': "reserve_loop (inode_nextname name) None (Some (brk s)) s1 =
          Some (OK, Some (brk s1 + length (segments (inode_nextname name)) - 1), s')"
        "reserved s1 None (Some (brk s)) (inode_nextname name) s'"
      using less.hyps [of "inode_nextname name" s1 None "Some (brk s)"] h(2) b(2) False
        nextname_shorter [OF less.prems(4)] by blast
    have "reserve_loop name left up s = reserve_loop (inode_nextname name) None (Some (brk s)) s1"
      using s0 False by (subst reserve_loop.simps) simp
    moreover have "reserved s left up name s'"
      using reserved_step [OF less.prems(2,3,4) False, folded s1_def, OF s'(2)] .
    ultimately show ?thesis using s'(1) b(1) less.prems(4) by (simp add: segments_length)
  qed
qed

section \<open>Insertion on the tree\<close>

lemma tchain_unfold:
  "tchain name n = T n (seg name) False
     (if inode_nextname name = [] then [] else [tchain (inode_nextname name) (n + 1)])"
  by (rule tchain.simps)

lemma sorted_tchain: "sorted_forest [tchain name n]"
  by (induction name n rule: tchain.induct) (subst tchain_unfold, simp)

lemma tname_tchain [simp]: "tname (tchain name n) = seg name"
  by (subst tchain_unfold) simp

lemma tname_tinsert: "t \<in> set (tinsert ts name n) \<Longrightarrow> tname t = seg name \<or> tname t \<in> tname ` set ts"
  by (induction ts name n rule: tinsert.induct) (auto split: if_splits)

lemma sorted_tinsert:
  "sorted_forest ts \<Longrightarrow> sorted_forest (tinsert ts name n)"
proof (induction ts name n rule: tinsert.induct)
  case (1 name n)
  then show ?case using sorted_tchain by simp
next
  case (2 a nm m ks ts name n)
  have c: "sorted_forest (tchain name n # ts') \<longleftrightarrow> sorted_forest ts' \<and> (\<forall>t \<in> set ts'. seg name < tname t)" for ts'
    using sorted_tchain [of name n] by (subst tchain_unfold, subst (asm) tchain_unfold) simp
  have t: "nm < tname t" if "nm < seg name" "t \<in> set (tinsert ts name n)" for t
    using tname_tinsert [OF that(2)] 2(3) that(1) by auto
  consider (less) "seg name < nm" | (right) "nm < seg name" | (down) "seg name = nm"
    using less_linear by blast
  then show ?case
  proof cases
    case less
    then have "seg name < tname t" if "t \<in> set ts" for t using 2(3) that by (auto intro: less_trans)
    then show ?thesis using less 2(3) by (simp add: c)
  next
    case right
    then show ?thesis using 2(1,3) t less_not_sym [OF right] by simp
  next
    case down
    then show ?thesis using 2(2,3) by simp
  qed
qed

lemma addrs_tchain: "name \<noteq> [] \<Longrightarrow> addrs [tchain name n] = [n ..< n + length (segments name)]"
proof (induction name n rule: tchain.induct)
  case (1 name n)
  show ?case
  proof (cases "inode_nextname name = []")
    case True
    then show ?thesis using 1(2) by (subst tchain_unfold) (simp add: segments_length)
  next
    case False
    let ?k = "length (segments (inode_nextname name))"
    have "addrs [tchain name n] = n # addrs [tchain (inode_nextname name) (n + 1)]"
      using False by (subst tchain_unfold) simp
    also have "\<dots> = n # [n + 1 ..< n + 1 + ?k]" using 1(1) [OF False False] by simp
    also have "\<dots> = [n ..< n + Suc ?k]" by (simp add: upt_conv_Cons del: upt_Suc)
    finally show ?thesis using 1(2) by (simp add: segments_length del: upt_Suc)
  qed
qed

lemma addrs_Cons_tchain: "addrs (tchain name n # ts) = addrs [tchain name n] @ addrs ts"
  by (subst (1 2) tchain_unfold) simp

lemma tinsert_addrs:
  "tsearch ts name left up = (r, d) \<Longrightarrow> r < 0 \<Longrightarrow> name \<noteq> [] \<Longrightarrow> distinct (addrs ts) \<Longrightarrow>
   \<forall>a \<in> set (addrs ts). a < n \<Longrightarrow>
   path d \<noteq> [] \<and> distinct (addrs (tinsert ts name n)) \<and>
   set (addrs (tinsert ts name n)) = set (addrs ts) \<union> {n ..< n + length (segments (path d))}"
proof (induction ts name left up rule: tsearch.induct)
  case (1 name left up)
  then show ?case by (auto simp: addrs_tchain)
next
  case (2 a nm m ks ts name left up)
  consider (less) "seg name < nm" | (right) "nm < seg name" | (down) "seg name = nm"
    using less_linear by blast
  then show ?case
  proof cases
    case less
    have "addrs (tchain name n # T a nm m ks # ts) =
        [n ..< n + length (segments name)] @ addrs (T a nm m ks # ts)"
      unfolding addrs_Cons_tchain [of name n "T a nm m ks # ts"] addrs_tchain [OF 2(5)] ..
    moreover have "\<forall>x \<in> set (addrs ks) \<union> set (addrs ts). \<not> n \<le> x" using 2(7) by (auto simp: not_le)
    ultimately show ?thesis using 2(3-7) less by auto
  next
    case right
    then have nl: "\<not> seg name < nm" by (rule less_not_sym)
    have *: "path d \<noteq> [] \<and> distinct (addrs (tinsert ts name n)) \<and>
        set (addrs (tinsert ts name n)) = set (addrs ts) \<union> {n ..< n + length (segments (path d))}"
      using 2(3-7) right nl by (intro 2(1)) auto
    have "set (addrs ks) \<inter> {n ..< n + length (segments (path d))} = {}" "a \<notin> {n ..< n + length (segments (path d))}"
      using 2(7) by (fastforce dest: leD)+
    then show ?thesis using * 2(6) right nl by auto
  next
    case down
    then have nm: "inode_nextname name \<noteq> []" "\<not> m" using 2(3,4) by (auto split: if_splits)
    have *: "path d \<noteq> [] \<and> distinct (addrs (tinsert ks (inode_nextname name) n)) \<and>
        set (addrs (tinsert ks (inode_nextname name) n)) = set (addrs ks) \<union> {n ..< n + length (segments (path d))}"
      using 2(3-7) down nm by (intro 2(2)) auto
    have "set (addrs ts) \<inter> {n ..< n + length (segments (path d))} = {}" "a \<notin> {n ..< n + length (segments (path d))}"
      using 2(7) by (fastforce dest: leD)+
    then show ?thesis using * 2(6) down by auto
  qed
qed

text \<open>A search for the inserted path finds the last new node.\<close>

lemma tsearch_tchain:
  "name \<noteq> [] \<Longrightarrow> fst (tsearch (tchain name n # ts) name left up) = OK \<and>
     node (snd (tsearch (tchain name n # ts) name left up)) = Some (n + length (segments name) - 1)"
proof (induction name n arbitrary: ts left up rule: tchain.induct)
  case (1 name n)
  show ?case
  proof (cases "inode_nextname name = []")
    case True
    then show ?thesis using 1(2) by (subst (1 2) tchain_unfold) (simp add: segments_length)
  next
    case False
    then have k: "0 < length (segments (inode_nextname name))" by (simp add: segments_length)
    show ?thesis
      using 1(1) [OF False False, of "[]"] 1(2) False k
      by (subst (1 2) tchain_unfold) (simp add: segments_length)
  qed
qed

lemma tsearch_tinsert:
  "tsearch ts name left up = (r, d) \<Longrightarrow> r < 0 \<Longrightarrow> name \<noteq> [] \<Longrightarrow>
   fst (tsearch (tinsert ts name n) name left up) = OK \<and>
   node (snd (tsearch (tinsert ts name n) name left up)) = Some (n + length (segments (path d)) - 1)"
proof (induction ts name left up rule: tsearch.induct)
  case (1 name left up)
  then show ?case using tsearch_tchain [of name n "[]"] by auto
next
  case (2 a nm m ks ts name left up)
  consider (less) "seg name < nm" | (right) "nm < seg name" | (down) "seg name = nm"
    using less_linear by blast
  then show ?case
  proof cases
    case less
    then show ?thesis using 2(3-5) tsearch_tchain [of name n "T a nm m ks # ts"] by auto
  next
    case right
    then have nl: "\<not> seg name < nm" by (rule less_not_sym)
    then show ?thesis using 2(1) 2(3-5) right by auto
  next
    case down
    then have nm: "inode_nextname name \<noteq> []" "\<not> m" using 2(3,4) by (auto split: if_splits)
    then show ?thesis using 2(2) 2(3-5) down by simp
  qed
qed

text \<open>Every path that was found before is still found, at the same inode.\<close>

lemma tsearch_tinsert_other:
  "sorted_forest ts \<Longrightarrow> tsearch ts name left up = (r, d) \<Longrightarrow> r < 0 \<Longrightarrow>
   tsearch ts q left' up' = (OK, e) \<Longrightarrow>
   \<exists>e'. tsearch (tinsert ts name n) q left'' up'' = (OK, e') \<and> node e' = node e"
proof (induction ts name left up arbitrary: q left' up' left'' up'' rule: tsearch.induct)
  case (1 name left up)
  then show ?case by simp
next
  case (2 a nm m ks ts name left up)
  have indep: "\<exists>e'. tsearch ts0 q0 l' u' = (OK, e') \<and> node e' = node e"
    if "tsearch ts0 q0 l u = (OK, e)" for ts0 q0 l u l' u'
    using that by (induction ts0 q0 l u arbitrary: l' u' rule: tsearch.induct) (auto split: if_splits)
  consider (less) "seg name < nm" | (right) "nm < seg name" | (down) "seg name = nm"
    using less_linear by blast
  then show ?case
  proof cases
    case less
    have "\<not> seg q < nm" using 2(6) by (auto split: if_splits)
    with less have q: "seg name < seg q" by (meson linorder_not_less less_le_trans)
    then have "tsearch (tchain name n # T a nm m ks # ts) q left'' up'' =
        tsearch (T a nm m ks # ts) q (Some n) up''"
      by (subst tchain_unfold) (use less_not_sym [OF q] in simp)
    then show ?thesis using indep [OF 2(6)] less by simp
  next
    case right
    then have nl: "\<not> seg name < nm" by (rule less_not_sym)
    have s: "tsearch ts name (Some a) up = (r, d)" using 2(4) right nl by simp
    show ?thesis
    proof (cases "nm < seg q")
      case True
      then have "tsearch ts q (Some a) up' = (OK, e)" using 2(6) less_not_sym [OF True] by simp
      then show ?thesis
        using 2(1) [OF nl right _ s 2(5)] 2(3) True right nl less_not_sym [OF True] by simp
    next
      case False
      then show ?thesis using 2(6) right nl indep [OF 2(6)] by (auto split: if_splits)
    qed
  next
    case down
    then have nm: "inode_nextname name \<noteq> []" "\<not> m" using 2(4,5) by (auto split: if_splits)
    have s: "tsearch ks (inode_nextname name) None (Some a) = (r, d)" using 2(4) down nm by simp
    show ?thesis
    proof (cases "seg q = nm \<and> inode_nextname q \<noteq> []")
      case True
      then have "tsearch ks (inode_nextname q) None (Some a) = (OK, e)" using 2(6) nm by simp
      then show ?thesis
        using 2(2) [OF _ _ _ _ s 2(5)] 2(3) True down nm by simp
    next
      case False
      then show ?thesis using 2(6) down nm indep by (auto split: if_splits)
    qed
  qed
qed

section \<open>Reserving and registering\<close>

lemma search_tree:
  assumes "wf_tree s ts" and "pth \<noteq> []" "hd pth = CHR ''/''" "skip_slashes pth \<noteq> []"
  shows "inode_search s (SETUP_SEARCH pth) = Some (tsearch ts (skip_slashes pth) None None)"
  using assms search_loop_forest [of "inodes s" "g_root_inode s" ts]
  by (simp add: inode_search_def SETUP_SEARCH_def Let_def wf_tree_def)

text \<open>What a reservation does to the inodes that were there: at most a link changes.\<close>

definition same_data :: "'d inode_s option \<Rightarrow> 'd inode_s option \<Rightarrow> bool" where
  "same_data x y \<longleftrightarrow>
     (case (x, y) of
        (Some i, Some j) \<Rightarrow> i_name i = i_name j \<and> i_crefs i = i_crefs j \<and> i_flags i = i_flags j \<and>
                            i_ops i = i_ops j \<and> i_private i = i_private j
      | (None, None) \<Rightarrow> True
      | _ \<Rightarrow> False)"

lemma same_data_refl [simp]: "same_data x x"
  by (simp add: same_data_def split: option.split)

lemma inode_reserve_ok:
  assumes wf: "wf_tree s ts" and mem: "\<forall>n. \<not> oom s n"
    and pth: "pth \<noteq> []" "hd pth = CHR ''/''" "skip_slashes pth \<noteq> []"
    and miss: "tsearch ts (skip_slashes pth) None None = (r, d)" "r < 0"
  obtains s' leaf where "inode_reserve pth s = Some (OK, Some leaf, s')"
    "leaf = brk s + length (segments (path d)) - 1"
    "wf_tree s' (tinsert ts (skip_slashes pth) (brk s))"
    "\<exists>x q. inodes s' leaf = Some (blank x q)"
    "\<And>a. a < brk s \<Longrightarrow> same_data (inodes s' a) (inodes s a)"
    "brk s \<le> leaf" "leaf < brk s'"
    "s' = s\<lparr>brk := brk s', inodes := inodes s', g_root_inode := g_root_inode s'\<rparr>"
    "\<And>a j. brk s \<le> a \<Longrightarrow> inodes s' a = Some j \<Longrightarrow> i_crefs j = 0 \<and> i_flags j = 0"
proof -
  let ?A = "set (addrs ts)" and ?name = "skip_slashes pth"
  have w: "forest (inodes s) (g_root_inode s) ts" "sorted_forest ts" "distinct (addrs ts)" "heap_bounded s"
    using wf by (auto simp: wf_tree_def heap_bounded_def)
  have lt: "\<forall>a \<in> ?A. a < brk s"
    using forest_dom [OF w(1)] w(4) by (auto simp: heap_bounded_def)
  note ins = tinsert_addrs [OF miss pth(3) w(3) lt]
  have own: "(peer d = None \<and> parent d = None) \<or> (\<exists>a \<in> ?A. owner d = Some a)"
    using tsearch_owner [OF miss(1) w(3)] by auto
  have slot: "slot_exists s (peer d) (parent d)"
    using own forest_dom [OF w(1)] by (auto simp: slot_exists_def owner_def split: option.splits)
  obtain s' where s': "reserve_loop (path d) (peer d) (parent d) s =
        Some (OK, Some (brk s + length (segments (path d)) - 1), s')"
      "reserved s (peer d) (parent d) (path d) s'"
    using reserve_loop_ok [OF mem w(4) slot] ins by blast
  note rs = s'(2) [unfolded reserved_def]
  have sp: "slot_ptr (inodes s) (g_root_inode s) ?A d = slot_of s (peer d) (parent d)"
    using own by (auto simp: slot_ptr_def slot_of_def owner_def split: option.splits)
  have lk: "relinked (inodes s) (inodes s') ?A (Some (brk s)) d"
    using rs lt by (auto simp: relinked_def owner_def)
  have "forest (inodes s') (if owner d \<in> Some ` ?A then g_root_inode s else Some (brk s))
      (tinsert ts ?name (brk s))"
    using rs sp by (intro tinsert_forest [OF w(1,3) miss lk]) auto
  moreover have "(if owner d \<in> Some ` ?A then g_root_inode s else Some (brk s)) = g_root_inode s'"
    using own rs by (auto simp: owner_def)
  moreover have "heap_bounded s'" using rs by blast
  ultimately have wf': "wf_tree s' (tinsert ts ?name (brk s))"
    using sorted_tinsert [OF w(2)] ins by (simp add: wf_tree_def heap_bounded_def)
  define leaf where "leaf = brk s + length (segments (path d)) - 1"
  have k: "0 < length (segments (path d))" using ins by (simp add: segments_length)
  have b: "brk s' = brk s + length (segments (path d))" "\<exists>x q. inodes s' leaf = Some (blank x q)"
    "s' = s\<lparr>brk := brk s', inodes := inodes s', g_root_inode := g_root_inode s'\<rparr>"
    using rs unfolding leaf_def by blast+
  show thesis
  proof (rule that [OF _ leaf_def wf' b(2) _ _ _ b(3)])
    show "i_crefs j = 0 \<and> i_flags j = 0" if "brk s \<le> a" "inodes s' a = Some j" for a j
      using rs that by blast
    show "inode_reserve pth s = Some (OK, Some leaf, s')"
      using s'(1) pth miss search_tree [OF wf pth] by (simp add: inode_reserve_def leaf_def)
    show "same_data (inodes s' a) (inodes s a)" if "a < brk s" for a
      using rs that slot by (cases "owner d = Some a")
        (auto simp: same_data_def owner_def slot_exists_def split: option.splits)
  qed (use k b(1) in \<open>unfold leaf_def, linarith+\<close>)
qed

lemma forest_update:
  assumes "forest h p ts" "h a = Some i" "i_name j = i_name i" "i_peer j = i_peer i" "i_child j = i_child i"
    "INODE_IS_TYPE j FSNODEFLAG_TYPE_MOUNTPT = INODE_IS_TYPE i FSNODEFLAG_TYPE_MOUNTPT"
  shows "forest (h(a \<mapsto> j)) p ts"
  using assms by (induction h p ts rule: forest.induct) auto

end
