(* ===== verification/Registry.thy ===== *)
theory Registry
  imports Inode_Laws
begin

text \<open>
  The driver registry seen from its callers: registering, finding, opening a reference to,
  and unregistering a driver path, on a well-formed inode tree whose semaphore is free.
\<close>

section \<open>The inode semaphore, taken and given\<close>

definition tree_unlocked :: "('d, 'z) fs_scheme \<Rightarrow> bool" where
  "tree_unlocked s \<longleftrightarrow> holder (g_inode_sem s) = NO_HOLDER \<and> hcount (g_inode_sem s) = 0 \<and>
     0 < semcount (isem (g_inode_sem s)) \<and> mypid s \<noteq> NO_HOLDER"

definition locked_by_me :: "('d, 'z) fs_scheme \<Rightarrow> inode_sem_s" where
  "locked_by_me s = \<lparr>isem = (isem (g_inode_sem s))\<lparr>semcount := semcount (isem (g_inode_sem s)) - 1\<rparr>,
                     holder = mypid s, hcount = 1\<rparr>"

lemma semtake_unlocked [simp]:
  "tree_unlocked s \<Longrightarrow> inode_semtake s = Some (s\<lparr>g_inode_sem := locked_by_me s\<rparr>)"
  by (simp add: inode_semtake_def tree_unlocked_def locked_by_me_def Let_def)

lemma semgive_locked:
  assumes "tree_unlocked s" "g_inode_sem s' = locked_by_me s"
  shows "inode_semgive s' = s'\<lparr>g_inode_sem := g_inode_sem s\<rparr>"
proof -
  have "\<lparr>isem = isem (g_inode_sem s), holder = - 1, hcount = 0\<rparr> = g_inode_sem s"
    using assms(1) by (simp add: tree_unlocked_def)
  then show ?thesis using assms by (simp add: inode_semgive_def locked_by_me_def Let_def)
qed

lemma wf_tree_sem [simp]: "wf_tree (s\<lparr>g_inode_sem := x\<rparr>) ts = wf_tree s ts"
  by (simp add: wf_tree_def)

text \<open>A path that names something below the root.\<close>

definition good_path :: "string \<Rightarrow> bool" where
  "good_path pth \<longleftrightarrow> pth \<noteq> [] \<and> hd pth = CHR ''/'' \<and> skip_slashes pth \<noteq> []"

definition tfind :: "tree list \<Rightarrow> string \<Rightarrow> nat option" where
  "tfind ts pth = (let (r, d) = tsearch ts (skip_slashes pth) None None in if r < 0 then None else node d)"

lemma tsearch_result:
  "tsearch ts name left up = (r, d) \<Longrightarrow> (r = - ENOENT \<and> node d = None) \<or>
     (r = OK \<and> (\<exists>a \<in> set (addrs ts). node d = Some a))"
  by (induction ts name left up rule: tsearch.induct) (auto split: if_splits)

lemma tfind_None:
  "tfind ts pth = None \<longleftrightarrow> fst (tsearch ts (skip_slashes pth) None None) < 0"
  using tsearch_result [of ts "skip_slashes pth" None None] by (auto simp: tfind_def split: prod.split)

lemma tfind_Some:
  "tfind ts pth = Some a \<longleftrightarrow> (\<exists>d. tsearch ts (skip_slashes pth) None None = (OK, d) \<and> node d = Some a)"
  using tsearch_result [of ts "skip_slashes pth" None None]
  by (cases "tsearch ts (skip_slashes pth) None None") (auto simp: tfind_def)

lemma set_driver_type [simp]: "INODE_SET_TYPE (blank x q) FSNODEFLAG_TYPE_DRIVER = blank x q"
  by (simp add: INODE_SET_TYPE_def blank_def)

lemma register_driver_ok:
  assumes wf: "wf_tree s ts" and mem: "\<forall>n. \<not> oom s n" and ul: "tree_unlocked s"
    and pth: "good_path pth" and new: "tfind ts pth = None"
  obtains s' p i where "register_driver pth fops priv s = Some (OK, s')"
    "wf_tree s' (tinsert ts (skip_slashes pth) (brk s))" "tree_unlocked s'" "\<forall>n. \<not> oom s' n"
    "tfind (tinsert ts (skip_slashes pth) (brk s)) pth = Some p"
    "inodes s' p = Some i" "i_ops i = Some fops" "i_private i = priv" "i_crefs i = 0" "i_flags i = 0"
    "brk s \<le> p"
    "\<And>a. a < brk s \<Longrightarrow> same_data (inodes s' a) (inodes s a)"
    "s' = s\<lparr>brk := brk s', inodes := inodes s', g_root_inode := g_root_inode s'\<rparr>"
    "\<And>a j. brk s \<le> a \<Longrightarrow> inodes s' a = Some j \<Longrightarrow> i_crefs j = 0 \<and> i_flags j = 0"
proof -
  let ?s0 = "s\<lparr>g_inode_sem := locked_by_me s\<rparr>" and ?ts' = "tinsert ts (skip_slashes pth) (brk s)"
  have P: "pth \<noteq> []" "hd pth = CHR ''/''" "skip_slashes pth \<noteq> []" using pth by (simp_all add: good_path_def)
  obtain r d where miss: "tsearch ts (skip_slashes pth) None None = (r, d)" "r < 0"
    using new tfind_None [of ts pth] by (cases "tsearch ts (skip_slashes pth) None None") auto
  obtain s1 leaf where 1: "inode_reserve pth ?s0 = Some (OK, Some leaf, s1)"
    "leaf = brk ?s0 + length (segments (path d)) - 1" "wf_tree s1 (tinsert ts (skip_slashes pth) (brk ?s0))"
    "\<exists>x q. inodes s1 leaf = Some (blank x q)" "\<And>a. a < brk ?s0 \<Longrightarrow> same_data (inodes s1 a) (inodes ?s0 a)"
    "brk ?s0 \<le> leaf" "leaf < brk s1"
    "s1 = ?s0\<lparr>brk := brk s1, inodes := inodes s1, g_root_inode := g_root_inode s1\<rparr>"
    "\<And>a j. brk ?s0 \<le> a \<Longrightarrow> inodes s1 a = Some j \<Longrightarrow> i_crefs j = 0 \<and> i_flags j = 0"
    by (rule inode_reserve_ok [of ?s0 ts pth r d]) (use wf mem P miss in \<open>auto intro: that\<close>)
  obtain x q where b: "inodes s1 leaf = Some (blank x q)" using 1(4) by blast
  define i where "i = (blank x q)\<lparr>i_ops := Some fops, i_private := priv\<rparr>"
  define s2 where "s2 = s1\<lparr>inodes := (inodes s1)(leaf \<mapsto> i)\<rparr>"
  have g1: "g_inode_sem s2 = locked_by_me s" unfolding s2_def by (subst 1(8)) simp
  define s' where "s' = s2\<lparr>g_inode_sem := g_inode_sem s\<rparr>"
  have reg: "register_driver pth fops priv s = Some (OK, s')"
    using 1(1) b semgive_locked [OF ul g1] ul
    by (simp add: register_driver_def upd_inode_def s2_def i_def s'_def)
  have wf1: "wf_tree s1 ?ts'" using 1(3) by simp
  have wf': "wf_tree s' ?ts'"
    using wf1 b forest_update [of "inodes s1" "g_root_inode s1" ?ts' leaf "blank x q" i] 1(7)
    by (auto simp: wf_tree_def s'_def s2_def i_def INODE_IS_TYPE_def)
  have sh: "s' = s\<lparr>brk := brk s', inodes := inodes s', g_root_inode := g_root_inode s'\<rparr>"
    unfolding s'_def s2_def by (subst 1(8)) simp
  have fnd: "tfind ?ts' pth = Some leaf"
    using tsearch_tinsert [OF miss P(3), of "brk s"] 1(2)
    by (cases "tsearch ?ts' (skip_slashes pth) None None") (auto simp: tfind_Some)
  show thesis
  proof (rule that [OF reg wf' _ _ fnd])
    show "tree_unlocked s'" using ul by (subst sh) (simp add: tree_unlocked_def)
    show "\<forall>n. \<not> oom s' n" using mem by (subst sh) simp
    show "inodes s' leaf = Some i" by (simp add: s'_def s2_def)
    show "same_data (inodes s' a) (inodes s a)" if "a < brk s" for a
      using that 1(5) [of a] 1(6) by (simp add: s'_def s2_def)
    show "i_crefs j = 0 \<and> i_flags j = 0" if "brk s \<le> a" "inodes s' a = Some j" for a j
      using that 1(9) [of a j] by (auto simp: s'_def s2_def i_def blank_def split: if_splits)
  qed (use 1(6) sh in \<open>simp_all add: i_def blank_def\<close>)
qed

lemma tfind_tinsert_other:
  assumes "sorted_forest ts" "tfind ts pth = None" "tfind ts q = Some a"
  shows "tfind (tinsert ts (skip_slashes pth) n) q = Some a"
proof -
  obtain r d where "tsearch ts (skip_slashes pth) None None = (r, d)" "r < 0"
    using assms(2) tfind_None [of ts pth] by (cases "tsearch ts (skip_slashes pth) None None") auto
  then show ?thesis
    using tsearch_tinsert_other [OF assms(1)] assms(3) unfolding tfind_Some by metis
qed

lemma inode_find_ok:
  assumes wf: "wf_tree s ts" and ul: "tree_unlocked s" and pth: "good_path pth"
    and fnd: "tfind ts pth = Some a" and a: "inodes s a = Some i"
  obtains d where "inode_find s (SETUP_SEARCH pth) =
     Some (OK, d, s\<lparr>inodes := (inodes s)(a \<mapsto> i\<lparr>i_crefs := i_crefs i + 1\<rparr>)\<rparr>)" "node d = Some a"
proof -
  let ?s0 = "s\<lparr>g_inode_sem := locked_by_me s\<rparr>"
  obtain d where d: "tsearch ts (skip_slashes pth) None None = (OK, d)" "node d = Some a"
    using fnd by (auto simp: tfind_Some)
  have "inode_search ?s0 (SETUP_SEARCH pth) = Some (OK, d)"
    using search_tree [of ?s0 ts pth] wf pth d(1) by (simp add: good_path_def)
  moreover have "inode_semgive (?s0\<lparr>inodes := (inodes s)(a \<mapsto> i\<lparr>i_crefs := i_crefs i + 1\<rparr>)\<rparr>) =
      s\<lparr>inodes := (inodes s)(a \<mapsto> i\<lparr>i_crefs := i_crefs i + 1\<rparr>)\<rparr>"
    using ul by (subst semgive_locked [of s]) simp_all
  ultimately show thesis
    using that [of d] d(2) ul a by (simp add: inode_find_def upd_inode_def)
qed

lemma restore_sem [simp]: "tree_unlocked s \<Longrightarrow> inode_semgive (s\<lparr>g_inode_sem := locked_by_me s\<rparr>) = s"
  by (subst semgive_locked [of s]) simp_all

lemma inode_find_miss:
  assumes "wf_tree s ts" "tree_unlocked s" "good_path pth" "tfind ts pth = None"
  obtains d where "inode_find s (SETUP_SEARCH pth) = Some (- ENOENT, d, s)"
proof -
  let ?s0 = "s\<lparr>g_inode_sem := locked_by_me s\<rparr>"
  obtain d where "tsearch ts (skip_slashes pth) None None = (- ENOENT, d)"
    using assms(4) tsearch_result [of ts "skip_slashes pth" None None]
    by (cases "tsearch ts (skip_slashes pth) None None") (auto simp: tfind_def)
  then have "inode_search ?s0 (SETUP_SEARCH pth) = Some (- ENOENT, d)"
    using search_tree [of ?s0 ts pth] assms by (simp add: good_path_def)
  then show thesis using that [of d] assms(2) by (simp add: inode_find_def)
qed

lemma wf_tree_update:
  assumes "wf_tree s ts" "inodes s a = Some i" "i_name j = i_name i" "i_peer j = i_peer i" "i_child j = i_child i"
    "INODE_IS_TYPE j FSNODEFLAG_TYPE_MOUNTPT = INODE_IS_TYPE i FSNODEFLAG_TYPE_MOUNTPT"
  shows "wf_tree (s\<lparr>inodes := (inodes s)(a \<mapsto> j)\<rparr>) ts"
  using assms forest_update [of "inodes s" "g_root_inode s" ts a i j] by (auto simp: wf_tree_def)

lemma tfind_inode:
  assumes "wf_tree s ts" "tfind ts pth = Some a"
  obtains i where "inodes s a = Some i" "a < brk s"
proof -
  have "a \<in> set (addrs ts)" using assms(2) tsearch_result [of ts "skip_slashes pth" None None] by (force simp: tfind_Some)
  then show thesis using assms(1) forest_dom [of "inodes s" "g_root_inode s" ts] that by (fastforce simp: wf_tree_def)
qed

text \<open>A registry with a console, on an idle system.\<close>

definition console_fs :: "'d \<Rightarrow> 'd fs" where
  "console_fs d0 = \<lparr>inodes = [0 \<mapsto> (blank ''dev'' None)\<lparr>i_child := Some 1\<rparr>, 1 \<mapsto> blank ''console'' None],
     g_root_inode = Some 0, g_inode_sem = \<lparr>isem = \<lparr>semcount = 1, wakes = []\<rparr>, holder = NO_HOLDER, hcount = 0\<rparr>,
     brk = 2, oom = (\<lambda>_. False), mypid = 3, drv = d0\<rparr>"

definition console_tree :: "tree list" where
  "console_tree = [T 0 ''dev'' False [T 1 ''console'' False []]]"

lemma console_fs_ok:
  "wf_tree (console_fs d0) console_tree" "tree_unlocked (console_fs d0)" "\<forall>n. \<not> oom (console_fs d0) n"
  by (auto simp: console_fs_def console_tree_def wf_tree_def tree_unlocked_def blank_def inode_namecpy_def INODE_IS_TYPE_def)

section \<open>Properties of registration\<close>

text \<open>A driver with no methods at all.\<close>

definition null_fops :: "unit file_operations" where
  "null_fops = \<lparr>fop_open = None, fop_close = None, fop_read = None, fop_write = None, fop_ioctl = None\<rparr>"

text \<open>C29: Registering a driver under a path that is not in the tree succeeds, and looking the path
  up then yields the inode that carries exactly the registered methods and private data, with the
  lookup's own reference as its only one.\<close>

theorem register_then_find:
  assumes "wf_tree s ts" "\<forall>n. \<not> oom s n" "tree_unlocked s" "good_path pth" "tfind ts pth = None"
  shows "\<exists>s' s'' d p i. register_driver pth fops priv s = Some (OK, s') \<and>
     inode_find s' (SETUP_SEARCH pth) = Some (OK, d, s'') \<and> node d = Some p \<and> inodes s'' p = Some i \<and>
     i_ops i = Some fops \<and> i_private i = priv \<and> i_crefs i = 1 \<and> INODE_IS_TYPE i FSNODEFLAG_TYPE_DRIVER"
proof -
  obtain s' p i where 1: "register_driver pth fops priv s = Some (OK, s')"
    "wf_tree s' (tinsert ts (skip_slashes pth) (brk s))" "tree_unlocked s'"
    "tfind (tinsert ts (skip_slashes pth) (brk s)) pth = Some p" "inodes s' p = Some i"
    "i_ops i = Some fops" "i_private i = priv" "i_crefs i = 0" "i_flags i = 0"
    by (rule register_driver_ok [OF assms]) (rule that)
  obtain d where "inode_find s' (SETUP_SEARCH pth) =
      Some (OK, d, s'\<lparr>inodes := (inodes s')(p \<mapsto> i\<lparr>i_crefs := i_crefs i + 1\<rparr>)\<rparr>)" "node d = Some p"
    by (rule inode_find_ok [OF 1(2,3) assms(4) 1(4,5)])
  with 1 show ?thesis by (auto simp: INODE_IS_TYPE_def)
qed

theorem register_then_find_witness:
  "\<exists>s' s'' d p i. register_driver ''/dev/pwm_out_motor_0'' null_fops 7 (console_fs ()) = Some (OK, s') \<and>
     inode_find s' (SETUP_SEARCH ''/dev/pwm_out_motor_0'') = Some (OK, d, s'') \<and> node d = Some p \<and>
     inodes s'' p = Some i \<and>
     i_ops i = Some null_fops \<and> i_private i = 7 \<and> i_crefs i = 1 \<and> INODE_IS_TYPE i FSNODEFLAG_TYPE_DRIVER"
  by (rule register_then_find [OF console_fs_ok(1,3,2)])
     (code_simp, code_simp)

text \<open>C30: Registration leaves the rest of the registry alone: the tree stays well formed (siblings
  sorted and distinct, no sharing, no cycle), the semaphore is free again, and every path that was
  found before is found at the same inode with the same name, methods, private data, flags and
  reference count.\<close>

theorem register_keeps_others:
  assumes "wf_tree s ts" "\<forall>n. \<not> oom s n" "tree_unlocked s" "good_path pth" "tfind ts pth = None"
  shows "\<exists>s' ts'. register_driver pth fops priv s = Some (OK, s') \<and> wf_tree s' ts' \<and> tree_unlocked s' \<and>
     (\<forall>q a. tfind ts q = Some a \<longrightarrow> tfind ts' q = Some a \<and> same_data (inodes s' a) (inodes s a))"
proof -
  let ?ts' = "tinsert ts (skip_slashes pth) (brk s)"
  obtain s' p i where 1: "register_driver pth fops priv s = Some (OK, s')"
    "wf_tree s' ?ts'" "tree_unlocked s'" "\<And>a. a < brk s \<Longrightarrow> same_data (inodes s' a) (inodes s a)"
    by (rule register_driver_ok [OF assms]) (rule that)
  have "tfind ?ts' q = Some a \<and> same_data (inodes s' a) (inodes s a)" if q: "tfind ts q = Some a" for q a
    using tfind_tinsert_other [OF _ assms(5) q] assms(1) tfind_inode [OF assms(1) q] 1(4) [of a]
    by (auto simp: wf_tree_def)
  with 1 show ?thesis by blast
qed

theorem register_keeps_others_witness:
  "tfind console_tree ''/dev/console'' = Some 1 \<and>
   (\<exists>s' ts'. register_driver ''/dev/pwm'' null_fops 7 (console_fs ()) = Some (OK, s') \<and>
     wf_tree s' ts' \<and> tree_unlocked s' \<and>
     (\<forall>q a. tfind console_tree q = Some a \<longrightarrow> tfind ts' q = Some a \<and>
        same_data (inodes s' a) (inodes (console_fs ()) a)))"
proof
  show "tfind console_tree ''/dev/console'' = Some 1" by code_simp
qed (rule register_keeps_others [OF console_fs_ok(1,3,2)], code_simp, code_simp)

lemma register_existing:
  assumes "wf_tree s ts" "tree_unlocked s" "good_path pth" "tfind ts pth = Some a"
  shows "register_driver pth fops priv s = Some (- EEXIST, s)"
proof -
  let ?s0 = "s\<lparr>g_inode_sem := locked_by_me s\<rparr>"
  obtain d where "tsearch ts (skip_slashes pth) None None = (OK, d)" using assms(4) by (auto simp: tfind_Some)
  then have "inode_search ?s0 (SETUP_SEARCH pth) = Some (OK, d)"
    using search_tree [of ?s0 ts pth] assms by (simp add: good_path_def)
  then have "inode_reserve pth ?s0 = Some (- EEXIST, None, ?s0)"
    using assms(3) by (cases pth) (auto simp: inode_reserve_def good_path_def)
  then show ?thesis using assms(2) by (simp add: register_driver_def)
qed

text \<open>Registering a path that is already in the tree is refused with \<^verbatim>\<open>EEXIST\<close> and changes
  nothing at all.\<close>

theorem register_existing_refused:
  assumes "wf_tree s ts" "tree_unlocked s" "good_path pth" "tfind ts pth = Some a"
  shows "register_driver pth fops priv s = Some (- EEXIST, s)"
  using assms by (rule register_existing)

theorem register_existing_refused_witness:
  "register_driver ''//dev/console'' null_fops 7 (console_fs ()) = Some (- EEXIST, console_fs ())"
  by (rule register_existing_refused [OF console_fs_ok(1,2), where a = 1])
     (code_simp, code_simp)

text \<open>The root path is not refused: instead of \<^verbatim>\<open>EINVAL\<close>, registering ''/'' succeeds and
  puts an inode with the empty name at the head of the tree.\<close>

theorem register_root_accepted:
  assumes "tree_unlocked s" "\<not> oom s (brk s)"
  shows "\<exists>s' i. register_driver ''/'' fops priv s = Some (OK, s') \<and>
     g_root_inode s' = Some (brk s) \<and> inodes s' (brk s) = Some i \<and> i_name i = '''' \<and> i_ops i = Some fops"
proof -
  let ?s0 = "s\<lparr>g_inode_sem := locked_by_me s\<rparr>"
  have srch: "inode_search ?s0 (SETUP_SEARCH ''/'') = Some (- ENOSYS, SETUP_SEARCH ''/'')"
    by (simp add: inode_search_def SETUP_SEARCH_def skip_slashes_def)
  have q: "inode_reserve ''/'' ?s0 = Some (OK, Some (brk s),
     ?s0\<lparr>brk := brk s + 1, inodes := (inodes s)(brk s \<mapsto> blank ''/'' (g_root_inode s)),
         g_root_inode := Some (brk s)\<rparr>)"
    using assms(2) unfolding inode_reserve_def srch
    by (simp add: SETUP_SEARCH_def reserve_loop.simps inode_alloc_def inode_nextname_def
          inode_insert_def upd_inode_def blank_def)
  show ?thesis using assms q
    by (simp add: register_driver_def upd_inode_def semgive_locked blank_def inode_namecpy_def INODE_SET_TYPE_def)
qed

theorem register_root_accepted_witness:
  "\<exists>s' i. register_driver ''/'' null_fops 7 (console_fs ()) = Some (OK, s') \<and>
     g_root_inode s' = Some (brk (console_fs ())) \<and> inodes s' (brk (console_fs ())) = Some i \<and>
     i_name i = [] \<and> i_ops i = Some null_fops"
  by (rule register_root_accepted) (simp_all add: console_fs_ok)

section \<open>The search and the segments of a path\<close>

text \<open>A search by name: at each level any node with the name of the segment; a mount point ends it.\<close>

fun walk :: "tree list \<Rightarrow> string list \<Rightarrow> nat option" where
  "walk ts [] = None"
| "walk ts (n # ns) =
     (case find (\<lambda>t. tname t = n) ts of
        None \<Rightarrow> None
      | Some t \<Rightarrow> if ns = [] \<or> mnt t then Some (addr t) else walk (kids t) ns)"

lemma segments_empty [simp]: "segments name = [] \<longleftrightarrow> name = []"
  by (subst segments.simps) simp

lemma tsearch_walk:
  "sorted_forest ts \<Longrightarrow> name \<noteq> [] \<Longrightarrow> tsearch ts name left up = (r, d) \<Longrightarrow>
   (if r < 0 then None else node d) = walk ts (segments name)"
proof (induction ts name left up rule: tsearch.induct)
  case (1 name left up)
  then show ?case by (auto simp: segments_step)
next
  case (2 a n m ks ts name left up)
  have f: "seg name < n \<Longrightarrow> find (\<lambda>t. tname t = seg name) ts = None"
    using 2(3) by (auto simp: find_None_iff)
  show ?case using 2 f by (auto simp: segments_step split: if_splits)
qed

text \<open>C33: The search of the inode tree ends and finds what the names say.  On a well formed tree, the walk over
  the pointers that gives up at the first larger name returns exactly the inode that a search of every level
  for the segments of the path finds, and \<^verbatim>\<open>ENOENT\<close> if there is none.\<close>

theorem search_finds_by_segments:
  assumes "wf_tree s ts" "good_path pth"
  shows "\<exists>r d. inode_search s (SETUP_SEARCH pth) = Some (r, d) \<and>
     (case walk ts (segments (skip_slashes pth)) of None \<Rightarrow> r = - ENOENT | Some a \<Rightarrow> r = OK \<and> node d = Some a)"
proof -
  obtain r d where t: "tsearch ts (skip_slashes pth) None None = (r, d)" by force
  have "inode_search s (SETUP_SEARCH pth) = Some (r, d)"
    using search_tree [of s ts pth] assms t by (simp add: good_path_def)
  moreover have "(if r < 0 then None else node d) = walk ts (segments (skip_slashes pth))"
    using tsearch_walk [OF _ _ t] assms by (simp add: wf_tree_def good_path_def)
  ultimately show ?thesis using tsearch_result [OF t] by (auto split: option.splits)
qed

theorem search_finds_by_segments_witness:
  "\<exists>d. inode_search (console_fs ()) (SETUP_SEARCH ''//dev/console'') = Some (OK, d) \<and> node d = Some 1"
proof -
  have "walk console_tree (segments (skip_slashes ''//dev/console'')) = Some 1" "good_path ''//dev/console''" by code_simp+
  then show ?thesis using search_finds_by_segments [OF console_fs_ok(1), of "''//dev/console''" "()"] by auto
qed

section \<open>Removal\<close>

text \<open>Freeing a subtree frees exactly its inodes.\<close>

lemma inode_free_forest:
  "forest h p ts \<Longrightarrow> distinct (addrs ts) \<Longrightarrow>
   inode_free p h = Some (\<lambda>a. if a \<in> set (addrs ts) then None else h a)"
proof (induction ts arbitrary: h p rule: addrs.induct)
  case 1
  then show ?case by (simp add: inode_free.simps)
next
  case (2 a n m ks ts)
  then obtain i where i: "p = Some a" "h a = Some i" "forest h (i_child i) ks" "forest h (i_peer i) ts" by auto
  have dis: "a \<notin> set (addrs ks)" "a \<notin> set (addrs ts)" "distinct (addrs ks)" "distinct (addrs ts)"
    "set (addrs ks) \<inter> set (addrs ts) = {}" using 2(4) by auto
  let ?h1 = "\<lambda>x. if x \<in> set (addrs ts) then None else h x"
  have "forest ?h1 (i_child i) ks" by (rule forest_cong [OF i(3)]) (use dis in auto)
  then have "inode_free (i_child i) ?h1 = Some (\<lambda>x. if x \<in> set (addrs ks) then None else ?h1 x)"
    using 2 dis(3) by blast
  moreover have "inode_free (i_peer i) h = Some ?h1" using 2 i(4) dis(4) by blast
  ultimately show ?case
    using i(1,2) dis by (subst inode_free.simps) (auto simp: fun_eq_iff)
qed

definition tdelete :: "tree list \<Rightarrow> string \<Rightarrow> tree list" where
  "tdelete ts name = tput ts name (tl (tslot ts name))"

lemma tslot_hit:
  "tsearch ts name left up = (OK, d) \<Longrightarrow> node d = Some a \<Longrightarrow> \<exists>n m ks rest. tslot ts name = T a n m ks # rest"
  by (induction ts name left up rule: tsearch.induct) (auto split: if_splits)

lemma tput_addrs:
  "set (addrs (tput ts name new)) = outside ts name \<union> set (addrs new)" if "distinct (addrs ts)"
  using that
proof (induction ts name new rule: tput.induct)
  case (2 a n m ks ts name new)
  then show ?case using tslot_addrs [of ts name] tslot_addrs [of ks "inode_nextname name"] by auto
qed simp

lemma tslot_distinct: "distinct (addrs ts) \<Longrightarrow> distinct (addrs (tslot ts name))"
  by (induction ts name rule: tslot.induct) auto

lemma tput_distinct:
  "distinct (addrs ts) \<Longrightarrow> distinct (addrs new) \<Longrightarrow> set (addrs new) \<subseteq> set (addrs (tslot ts name)) \<Longrightarrow>
   distinct (addrs (tput ts name new))"
proof (induction ts name new rule: tput.induct)
  case (2 a n m ks ts name new)
  then show ?case using tslot_addrs [of ts name] tslot_addrs [of ks "inode_nextname name"] 
    by (auto simp: tput_addrs; blast)
qed simp

lemma tdelete_sorted: "sorted_forest ts \<Longrightarrow> sorted_forest (tdelete ts name)"
  unfolding tdelete_def
proof (induction ts name rule: tslot.induct)
  case (1 name)
  then show ?case by simp
next
  case (2 a n m ks ts name)
  have sub: "tname ` set (tput ts name (tl (tslot ts name))) \<subseteq> tname ` set ts" for ts
    by (induction ts name rule: tslot.induct) (auto dest: list.set_sel(2))
  show ?case using 2 sub [of ts] by (auto simp: image_subset_iff)
qed

text \<open>The inodes of the subtree at a node.\<close>

fun below :: "tree list \<Rightarrow> nat \<Rightarrow> nat set" where
  "below [] a = {}"
| "below (T x n m ks # ts) a = (if x = a then set (addrs [T x n m ks]) else below ks a \<union> below ts a)"

lemma below_notin: "a \<notin> set (addrs ts) \<Longrightarrow> below ts a = {}"
  by (induction ts a rule: below.induct) auto

lemma below_slot:
  "distinct (addrs ts) \<Longrightarrow> tslot ts name = T a n m ks # rest \<Longrightarrow> below ts a = set (addrs [T a n m ks])"
proof (induction ts name rule: tslot.induct)
  case (2 x nx mx kx ts name)
  have "a \<in> set (addrs (tslot ts name)) \<Longrightarrow> a \<in> set (addrs ts)" "a \<in> set (addrs (tslot kx (inode_nextname name))) \<Longrightarrow> a \<in> set (addrs kx)"
    using tslot_addrs [of ts name] tslot_addrs [of kx "inode_nextname name"] by auto
  then show ?case using 2 below_notin [of a ts] below_notin [of a kx] by (auto split: if_splits)
qed simp

text \<open>Unlinking takes the found node and all below it out of the tree.\<close>

definition unhooked :: "('d, 'z) fs_scheme \<Rightarrow> inode_search_s \<Rightarrow> nat \<Rightarrow> 'd inode_s \<Rightarrow> nat \<Rightarrow> 'd inode_s option" where
  "unhooked s d a i =
     (case peer d of
        Some l \<Rightarrow> (inodes s)(l \<mapsto> (the (inodes s l))\<lparr>i_peer := i_peer i\<rparr>)
      | None \<Rightarrow> (case parent d of
                  Some u \<Rightarrow> (inodes s)(u \<mapsto> (the (inodes s u))\<lparr>i_child := i_peer i\<rparr>)
                | None \<Rightarrow> inodes s))
     (a \<mapsto> i\<lparr>i_peer := None\<rparr>)"

lemma inode_unlink_eq:
  assumes srch: "inode_search s (SETUP_SEARCH pth) = Some (OK, d)" and pth: "good_path pth"
    and a: "node d = Some a" "inodes s a = Some i"
    and own: "\<And>x. owner d = Some x \<Longrightarrow> x \<noteq> a \<and> inodes s x \<noteq> None"
  shows "inode_unlink pth s = Some (Some a, s\<lparr>inodes := unhooked s d a i,
     g_root_inode := (if owner d = None then i_peer i else g_root_inode s)\<rparr>)"
  using assms
  by (cases "peer d"; cases "parent d")
     (auto simp: inode_unlink_def good_path_def upd_inode_def unhooked_def owner_def split: option.splits)

lemma unhooked_relinked:
  assumes "owner d \<noteq> Some a" "a \<notin> A"
  shows "relinked (inodes s) (unhooked s d a i) A (i_peer i) d"
  using assms by (auto simp: relinked_def unhooked_def owner_def split: option.splits)

lemma unhooked_other: "owner d \<noteq> Some x \<Longrightarrow> x \<noteq> a \<Longrightarrow> unhooked s d a i x = inodes s x"
  by (auto simp: unhooked_def owner_def split: option.splits)

lemma unhooked_data: "inodes s a = Some i \<Longrightarrow> (\<And>x. owner d = Some x \<Longrightarrow> inodes s x \<noteq> None) \<Longrightarrow>
   same_data (unhooked s d a i x) (inodes s x)"
  by (auto simp: unhooked_def owner_def same_data_def split: option.splits)

lemma inode_unlink_ok:
  assumes wf: "wf_tree s ts" and pth: "good_path pth" and fnd: "tfind ts pth = Some a"
  obtains s' i k where "inode_unlink pth s = Some (Some a, s')" "inodes s a = Some i"
    "wf_tree s' (tdelete ts (skip_slashes pth))" "inodes s' a = Some (i\<lparr>i_peer := None\<rparr>)"
    "forest (inodes s') (Some a) [k]" "distinct (addrs [k])" "addr k = a"
    "set (addrs ts) = set (addrs (tdelete ts (skip_slashes pth))) \<union> set (addrs [k])"
    "set (addrs [k]) \<inter> set (addrs (tdelete ts (skip_slashes pth))) = {}" "set (addrs [k]) = below ts a"
    "\<And>x. same_data (inodes s' x) (inodes s x)"
    "s' = s\<lparr>inodes := inodes s', g_root_inode := g_root_inode s'\<rparr>"
proof -
  let ?name = "skip_slashes pth"
  have w: "forest (inodes s) (g_root_inode s) ts" "sorted_forest ts" "distinct (addrs ts)"
    using wf by (auto simp: wf_tree_def)
  obtain d where d: "tsearch ts ?name None None = (OK, d)" "node d = Some a" using fnd by (auto simp: tfind_Some)
  obtain n m ks rest where sl: "tslot ts ?name = T a n m ks # rest" using tslot_hit [OF d] by blast
  have ds: "distinct (addrs (T a n m ks # rest))" using tslot_distinct [OF w(3), of ?name] sl by simp
  obtain i where i: "inodes s a = Some i" by (rule tfind_inode [OF wf fnd])
  have own: "owner d = None \<and> tslot ts ?name = ts \<or> (\<exists>x \<in> outside ts ?name. owner d = Some x)"
    using tsearch_owner [OF d(1) w(3)] by (auto simp: owner_def)
  have o: "x \<noteq> a \<and> inodes s x \<noteq> None" if "owner d = Some x" for x
    using own that sl forest_dom [OF w(1)] by auto
  define h' where "h' = unhooked s d a i"
  define s' where "s' = s\<lparr>inodes := h', g_root_inode := (if owner d = None then i_peer i else g_root_inode s)\<rparr>"
  have "inode_search s (SETUP_SEARCH pth) = Some (OK, d)"
    using search_tree [OF wf] pth d(1) by (simp add: good_path_def)
  from inode_unlink_eq [OF this pth d(2) i o]
  have un: "inode_unlink pth s = Some (Some a, s')" by (simp add: s'_def h'_def)
  have "forest (inodes s) (slot_ptr (inodes s) (g_root_inode s) (set (addrs ts)) d) (T a n m ks # rest)"
    using slot_forest [OF w(1,3) d(1)] sl by simp
  then have sub: "forest (inodes s) (i_child i) ks" "forest (inodes s) (i_peer i) rest" "i_name i = n"
    "INODE_IS_TYPE i FSNODEFLAG_TYPE_MOUNTPT = m" using i by auto
  have keep: "\<forall>x \<in> set (addrs ks) \<union> set (addrs rest). h' x = inodes s x"
    using own sl ds by (auto simp: h'_def intro!: unhooked_other)
  have fr: "forest h' (i_peer i) rest" and fk: "forest h' (i_child i) ks"
    by (rule forest_cong [OF sub(2)], use keep in blast) (rule forest_cong [OF sub(1)], use keep in blast)
  have ha: "h' a = Some (i\<lparr>i_peer := None\<rparr>)" by (simp add: h'_def unhooked_def)
  have td: "tdelete ts ?name = tput ts ?name rest" by (simp add: tdelete_def sl)
  have "forest h' (if owner d \<in> Some ` outside ts ?name then g_root_inode s else i_peer i) (tput ts ?name rest)"
    by (rule relink_forest [OF w(1,3) d(1) _ _ _ fr]) (use o sl in \<open>auto simp: h'_def intro!: unhooked_relinked\<close>)
  moreover have "(if owner d \<in> Some ` outside ts ?name then g_root_inode s else i_peer i) = g_root_inode s'"
    using own by (auto simp: s'_def)
  moreover have "h' x = None \<longleftrightarrow> inodes s x = None" for x
    using o i by (auto simp: h'_def unhooked_def owner_def split: option.splits)
  ultimately have wf': "wf_tree s' (tdelete ts ?name)"
    using tdelete_sorted [OF w(2), of ?name, unfolded td] tput_distinct [OF w(3), of rest ?name] ds sl wf
    by (auto simp: wf_tree_def td s'_def)
  show thesis
  proof (rule that [OF un i wf', of "T a n m ks"])
    show "same_data (inodes s' x) (inodes s x)" for x
      unfolding s'_def h'_def using unhooked_data [of s a i d x] i o by auto
    show "set (addrs ts) = set (addrs (tdelete ts ?name)) \<union> set (addrs [T a n m ks])"
      using tput_addrs [OF w(3), of ?name rest] tslot_addrs [of ts ?name] sl by (auto simp: td)
    show "set (addrs [T a n m ks]) \<inter> set (addrs (tdelete ts ?name)) = {}"
      using tput_addrs [OF w(3), of ?name rest] sl ds by (auto simp: td)
    show "set (addrs [T a n m ks]) = below ts a" using below_slot [OF w(3) sl] by simp
  qed (use ha fk ds sub in \<open>auto simp: s'_def\<close>)
qed

lemma tsearch_above: "\<forall>t \<in> set ts. seg name < tname t \<Longrightarrow> fst (tsearch ts name left up) < 0"
  by (cases ts; cases "hd ts") auto

lemma tdelete_miss:
  "sorted_forest ts \<Longrightarrow> tsearch ts name left up = (OK, d) \<Longrightarrow>
   fst (tsearch (tdelete ts name) name left' up') < 0"
  unfolding tdelete_def
proof (induction ts name left up arbitrary: left' up' rule: tsearch.induct)
  case (1 name left up)
  then show ?case by simp
next
  case (2 a n m ks ts name left up)
  then show ?case by (auto split: if_splits intro!: tsearch_above)
qed

lemma tsearch_indep:
  "tsearch ts q left up = (OK, e) \<Longrightarrow> \<exists>e'. tsearch ts q left' up' = (OK, e') \<and> node e' = node e"
  by (induction ts q left up arbitrary: left' up' rule: tsearch.induct) (auto split: if_splits)

lemma tsearch_in: "tsearch ts q left up = (OK, e) \<Longrightarrow> node e = Some b \<Longrightarrow> b \<in> set (addrs ts)"
  using tsearch_result [of ts q left up] by fastforce

lemma tdelete_other:
  "distinct (addrs ts) \<Longrightarrow> tsearch ts name left up = (OK, d) \<Longrightarrow>
   tsearch ts q left' up' = (OK, e) \<Longrightarrow> node e = Some b \<Longrightarrow> b \<in> set (addrs (tdelete ts name)) \<Longrightarrow>
   \<exists>e'. tsearch (tdelete ts name) q left'' up'' = (OK, e') \<and> node e' = Some b"
  unfolding tdelete_def
proof (induction ts name left up arbitrary: q left' up' left'' up'' rule: tsearch.induct)
  case (1 name left up)
  then show ?case by simp
next
  case (2 a n m ks ts name left up)
  have dis: "a \<notin> set (addrs ks)" "a \<notin> set (addrs ts)" "distinct (addrs ks)" "distinct (addrs ts)"
    "set (addrs ks) \<inter> set (addrs ts) = {}" using 2(3) by auto
  consider (stop) "seg name = n" "inode_nextname name = [] \<or> m" |
    (right) "n < seg name" "\<not> seg name < n" | (down) "seg name = n" "inode_nextname name \<noteq> []" "\<not> m"
    using less_linear [of "seg name" n] less_not_sym 2(4) by (auto split: if_splits)
  then show ?case
  proof cases
    case stop
    then have b: "b \<in> set (addrs ts)" using 2(7) by auto
    then have "\<exists>l u. tsearch ts q l u = (OK, e)"
      using 2(5,6) dis tsearch_in [of ks "inode_nextname q" None "Some a" e b] by (auto split: if_splits)
    then show ?thesis using stop tsearch_indep 2(6) by fastforce
  next
    case right
    have "b \<in> set (addrs (tput ts name (tl (tslot ts name))))" if "tsearch ts q (Some a) up' = (OK, e)"
      using tsearch_in [OF that 2(6)] 2(7) right dis by auto
    then show ?thesis using right 2(1) [OF right(2,1) dis(4)] 2(4-6) by (auto split: if_splits)
  next
    case down
    have "b \<in> set (addrs (tput ks (inode_nextname name) (tl (tslot ks (inode_nextname name)))))"
      if "tsearch ks (inode_nextname q) None (Some a) = (OK, e)"
      using tsearch_in [OF that 2(6)] 2(7) down dis by auto
    then show ?thesis using down 2(2) [OF _ _ _ dis(3)] 2(4-6) tsearch_indep [of ts q "Some a" up' e "Some a" up'']
      by (auto split: if_splits)
  qed
qed

lemma tdelete_found:
  "sorted_forest ts \<Longrightarrow> tsearch ts name left up = (OK, d) \<Longrightarrow>
   tsearch (tdelete ts name) q left' up' = (OK, e) \<Longrightarrow> \<exists>e'. tsearch ts q left'' up'' = (OK, e') \<and> node e' = node e"
  unfolding tdelete_def
proof (induction ts name left up arbitrary: q left' up' left'' up'' rule: tsearch.induct)
  case (1 name left up)
  then show ?case by simp
next
  case (2 a n m ks ts name left up)
  consider (stop) "seg name = n" "inode_nextname name = [] \<or> m" |
    (right) "n < seg name" "\<not> seg name < n" | (down) "seg name = n" "inode_nextname name \<noteq> []" "\<not> m"
    using less_linear [of "seg name" n] less_not_sym 2(4) by (auto split: if_splits)
  then show ?case
  proof cases
    case stop
    then have t: "tsearch ts q left' up' = (OK, e)" using 2(5) by simp
    have "n < seg q"
    proof (rule ccontr)
      assume "\<not> n < seg q"
      then have "\<forall>t \<in> set ts. seg q < tname t" using 2(3) by force
      from tsearch_above [OF this, of left' up'] t show False by simp
    qed
    then show ?thesis using tsearch_indep [OF t, of "Some a" up''] less_not_sym by auto
  next
    case right
    then show ?thesis using 2(1) [OF right(2,1)] 2(3-5) by (auto split: if_splits)
  next
    case down
    have "\<exists>e'. tsearch ks (inode_nextname q) None (Some a) = (OK, e') \<and> node e' = node e"
      if "tsearch (tput ks (inode_nextname name) (tl (tslot ks (inode_nextname name)))) (inode_nextname q) None (Some a) = (OK, e)"
      using 2(2) [OF _ _ _ _ _ that] down 2(3,4) by simp
    then show ?thesis using down 2(3-5) tsearch_indep [of ts q "Some a" up' e "Some a" up'']
      by (auto split: if_splits)
  qed
qed

lemma deleted_type [simp]:
  "INODE_IS_TYPE (i\<lparr>i_flags := i_flags i OR FSNODEFLAG_DELETED\<rparr>) t = INODE_IS_TYPE i t"
  "INODE_IS_TYPE (i\<lparr>i_peer := x, i_flags := i_flags i OR FSNODEFLAG_DELETED\<rparr>) t = INODE_IS_TYPE i t"
  by (simp_all add: INODE_IS_TYPE_def bit.conj_disj_distrib2)

lemma tdelete_paths:
  assumes "wf_tree s ts" "tfind ts pth = Some a" "tfind ts q = Some b"
  defines "ts' \<equiv> tdelete ts (skip_slashes pth)"
  shows "tfind ts' q = (if b \<in> set (addrs ts') then Some b else None)"
proof -
  obtain d e where d: "tsearch ts (skip_slashes pth) None None = (OK, d)"
    and e: "tsearch ts (skip_slashes q) None None = (OK, e)" "node e = Some b"
    using assms(2,3) by (auto simp: tfind_Some)
  have w: "sorted_forest ts" "distinct (addrs ts)" using assms(1) by (auto simp: wf_tree_def)
  show ?thesis
  proof (cases "tfind ts' q")
    case None
    have "\<exists>e'. tsearch ts' (skip_slashes q) None None = (OK, e') \<and> node e' = Some b" if "b \<in> set (addrs ts')"
      using tdelete_other [OF w(2) d e] that unfolding ts'_def by blast
    then show ?thesis using None tfind_Some [of ts' q b] by auto
  next
    case (Some c)
    then obtain f where f: "tsearch ts' (skip_slashes q) None None = (OK, f)" "node f = Some c"
      by (auto simp: tfind_Some)
    from tdelete_found [OF w(1) d f(1) [unfolded ts'_def], of None None] e f(2) have "c = b" by auto
    then show ?thesis using Some tsearch_in [OF f] by simp
  qed
qed

lemma inode_remove_ok:
  assumes wf: "wf_tree s ts" and pth: "good_path pth" and fnd: "tfind ts pth = Some a" and a: "inodes s a = Some i"
  obtains s' k ts' where
    "inode_remove pth s = Some (if i_crefs i = 0 then OK else - EBUSY, s')"
    "wf_tree s' ts'" "tfind ts' pth = None" "distinct (addrs [k])"
    "set (addrs [k]) = below ts a" "a \<in> below ts a" "below ts a \<inter> set (addrs ts') = {}"
    "if i_crefs i = 0 then \<forall>x \<in> below ts a. inodes s' x = None
     else forest (inodes s') (Some a) [k] \<and>
          inodes s' a = Some (i\<lparr>i_peer := None, i_flags := i_flags i OR FSNODEFLAG_DELETED\<rparr>)"
    "\<And>q b. tfind ts q = Some b \<Longrightarrow> if b \<in> below ts a then tfind ts' q = None
       else tfind ts' q = Some b \<and> same_data (inodes s' b) (inodes s b)"
    "s' = s\<lparr>inodes := inodes s', g_root_inode := g_root_inode s'\<rparr>"
proof -
  let ?ts' = "tdelete ts (skip_slashes pth)"
  obtain s1 k where u: "inode_unlink pth s = Some (Some a, s1)" "wf_tree s1 ?ts'"
    "inodes s1 a = Some (i\<lparr>i_peer := None\<rparr>)"
    "forest (inodes s1) (Some a) [k]" "distinct (addrs [k])" "addr k = a"
    "set (addrs ts) = set (addrs ?ts') \<union> set (addrs [k])" "set (addrs [k]) \<inter> set (addrs ?ts') = {}"
    "\<And>x. same_data (inodes s1 x) (inodes s x)"
    "s1 = s\<lparr>inodes := inodes s1, g_root_inode := g_root_inode s1\<rparr>" "set (addrs [k]) = below ts a"
    by (rule inode_unlink_ok [OF wf pth fnd]) (use a in \<open>auto intro: that\<close>)
  have ak: "a \<in> below ts a" unfolding u(11) [symmetric] using u(6) by (cases k) simp
  let ?j = "i\<lparr>i_peer := None, i_flags := i_flags i OR FSNODEFLAG_DELETED\<rparr>"
  define h' where "h' = (if i_crefs i = 0 then (\<lambda>x. if x \<in> below ts a then None else inodes s1 x)
                         else (inodes s1)(a \<mapsto> ?j))"
  have rm: "inode_remove pth s = Some (if i_crefs i = 0 then OK else - EBUSY, s1\<lparr>inodes := h'\<rparr>)"
    using u(1,3) inode_free_forest [OF u(4,5)] by (simp add: inode_remove_def upd_inode_def h'_def u(11))
  have keep: "h' x = inodes s1 x" if "x \<notin> below ts a" for x using that ak by (auto simp: h'_def)
  have "forest h' (g_root_inode s1) ?ts'"
    by (rule forest_cong [of "inodes s1"]) (use u(2,8) keep in \<open>auto simp: wf_tree_def u(11) simp del: addrs.simps\<close>)
  then have wf': "wf_tree (s1\<lparr>inodes := h'\<rparr>) ?ts'"
    using u(2,3) by (auto simp: wf_tree_def h'_def split: if_splits)
  have miss: "tfind ?ts' pth = None"
    using fnd tdelete_miss [of ts "skip_slashes pth" None None] wf by (auto simp: tfind_None tfind_Some wf_tree_def)
  have fj: "forest ((inodes s1)(a \<mapsto> ?j)) (Some a) [k]"
    by (rule forest_update [OF u(4,3)]) simp_all
  show thesis
  proof (rule that [OF rm wf' miss u(5,11) ak u(8) [unfolded u(11)]])
    show "s1\<lparr>inodes := h'\<rparr> = s\<lparr>inodes := inodes (s1\<lparr>inodes := h'\<rparr>), g_root_inode := g_root_inode (s1\<lparr>inodes := h'\<rparr>)\<rparr>"
      by (subst (1) u(10)) simp
    show "if b \<in> below ts a then tfind ?ts' q = None
       else tfind ?ts' q = Some b \<and> same_data (inodes (s1\<lparr>inodes := h'\<rparr>) b) (inodes s b)"
      if q: "tfind ts q = Some b" for q b
    proof -
      have "b \<in> set (addrs ts)" using q by (auto simp: tfind_Some intro: tsearch_in)
      then show ?thesis
        using tdelete_paths [OF wf fnd q] u(7,8) u(9) [of b] keep [of b] by (auto simp: u(11) simp del: addrs.simps)
    qed
  qed (use fj in \<open>simp add: h'_def\<close>)
qed

lemma unregister_ok:
  assumes wf: "wf_tree s ts" and ul: "tree_unlocked s" and pth: "good_path pth" and fnd: "tfind ts pth = Some a"
    and a: "inodes s a = Some i"
  obtains s' ts' k where
    "unregister_driver pth s = Some (if i_crefs i = 0 then OK else - EBUSY, s')"
    "wf_tree s' ts'" "tree_unlocked s'" "tfind ts' pth = None" "distinct (addrs [k])"
    "set (addrs [k]) = below ts a" "a \<in> below ts a" "below ts a \<inter> set (addrs ts') = {}"
    "if i_crefs i = 0 then \<forall>x \<in> below ts a. inodes s' x = None
     else forest (inodes s') (Some a) [k] \<and>
          inodes s' a = Some (i\<lparr>i_peer := None, i_flags := i_flags i OR FSNODEFLAG_DELETED\<rparr>)"
    "\<And>q b. tfind ts q = Some b \<Longrightarrow> if b \<in> below ts a then tfind ts' q = None
       else tfind ts' q = Some b \<and> same_data (inodes s' b) (inodes s b)"
proof -
  let ?s0 = "s\<lparr>g_inode_sem := locked_by_me s\<rparr>"
  obtain s1 k ts' where r: "inode_remove pth ?s0 = Some (if i_crefs i = 0 then OK else - EBUSY, s1)"
    "wf_tree s1 ts'" "tfind ts' pth = None" "distinct (addrs [k])"
    "set (addrs [k]) = below ts a" "a \<in> below ts a" "below ts a \<inter> set (addrs ts') = {}"
    "if i_crefs i = 0 then \<forall>x \<in> below ts a. inodes s1 x = None
     else forest (inodes s1) (Some a) [k] \<and>
          inodes s1 a = Some (i\<lparr>i_peer := None, i_flags := i_flags i OR FSNODEFLAG_DELETED\<rparr>)"
    "\<And>q b. tfind ts q = Some b \<Longrightarrow> if b \<in> below ts a then tfind ts' q = None
       else tfind ts' q = Some b \<and> same_data (inodes s1 b) (inodes ?s0 b)"
    "s1 = ?s0\<lparr>inodes := inodes s1, g_root_inode := g_root_inode s1\<rparr>"
    by (rule inode_remove_ok [of ?s0 ts pth a i, OF _ pth fnd]) (simp add: wf, simp add: a, rule that)
  have sem: "g_inode_sem s1 = locked_by_me s" by (subst r(10)) simp
  show thesis
  proof (rule that [of "s1\<lparr>g_inode_sem := g_inode_sem s\<rparr>" ts', OF _ _ _ r(3-7)])
    show "unregister_driver pth s = Some (if i_crefs i = 0 then OK else - EBUSY, s1\<lparr>g_inode_sem := g_inode_sem s\<rparr>)"
      using ul r(1) semgive_locked [OF ul sem] by (simp add: unregister_driver_def)
    show "tree_unlocked (s1\<lparr>g_inode_sem := g_inode_sem s\<rparr>)"
      using ul by (subst r(10)) (simp add: tree_unlocked_def)
    show "if b \<in> below ts a then tfind ts' q = None
       else tfind ts' q = Some b \<and> same_data (inodes (s1\<lparr>g_inode_sem := g_inode_sem s\<rparr>) b) (inodes s b)"
      if "tfind ts q = Some b" for q b using r(9) [OF that] by (simp split: if_splits)
  qed (use r(2,8) in simp_all)
qed

lemma release_deleted:
  assumes "wf_tree s ts" "tree_unlocked s" "forest (inodes s) (Some a) [k]" "distinct (addrs [k])"
    "set (addrs [k]) \<inter> set (addrs ts) = {}" "a \<in> set (addrs [k])"
    "inodes s a = Some i" "i_flags i AND FSNODEFLAG_DELETED \<noteq> 0" "i_crefs i = 1"
  obtains s' where "inode_release (Some a) s = Some s'" "wf_tree s' ts" "\<forall>x \<in> set (addrs [k]). inodes s' x = None"
proof -
  let ?h = "(inodes s)(a \<mapsto> i\<lparr>i_crefs := 0\<rparr>)"
  let ?h' = "\<lambda>x. if x \<in> set (addrs [k]) then None else inodes s x"
  have "forest ?h (Some a) [k]" by (rule forest_update [OF assms(3,7)]) (simp_all add: INODE_IS_TYPE_def)
  from inode_free_forest [OF this assms(4)] have "inode_free (Some a) ?h = Some ?h'"
    using assms(6) by (auto simp: fun_eq_iff simp del: addrs.simps)
  then have "inode_release (Some a) s = Some (s\<lparr>inodes := ?h'\<rparr>)"
    using assms(2,7-9) by (simp add: inode_release_def upd_inode_def semgive_locked Let_def)
  moreover have fr: "forest ?h' (g_root_inode s) ts"
    by (rule forest_cong [of "inodes s"]) (use assms(1,5) in \<open>auto simp: wf_tree_def simp del: addrs.simps\<close>)
  have "wf_tree (s\<lparr>inodes := ?h'\<rparr>) ts"
    using assms(1) fr by (auto simp: wf_tree_def simp del: addrs.simps)
  ultimately show thesis by (rule that) simp
qed

lemma release_kept:
  assumes "tree_unlocked s" "inodes s a = Some i" "1 < i_crefs i"
  shows "inode_release (Some a) s = Some (s\<lparr>inodes := (inodes s)(a \<mapsto> i\<lparr>i_crefs := i_crefs i - 1\<rparr>)\<rparr>)"
  using assms by (simp add: inode_release_def upd_inode_def semgive_locked Let_def)

lemma deleted_bit: "(x OR FSNODEFLAG_DELETED) AND FSNODEFLAG_DELETED \<noteq> 0"
  by (simp add: bit.conj_disj_distrib2)

text \<open>A number of releases of the same inode.\<close>

primrec releases :: "nat \<Rightarrow> nat \<Rightarrow> ('d, 'z) fs_scheme \<Rightarrow> ('d, 'z) fs_scheme option" where
  "releases 0 a s = Some s"
| "releases (Suc n) a s = do { s \<leftarrow> releases n a s; inode_release (Some a) s }"

lemma releases_kept:
  assumes "tree_unlocked s" "inodes s a = Some i"
  shows "int n < i_crefs i \<Longrightarrow>
    releases n a s = Some (s\<lparr>inodes := (inodes s)(a \<mapsto> i\<lparr>i_crefs := i_crefs i - int n\<rparr>)\<rparr>)"
proof (induction n)
  case 0
  then show ?case using assms(2) by (simp add: fun_upd_idem)
next
  case (Suc n)
  let ?s = "s\<lparr>inodes := (inodes s)(a \<mapsto> i\<lparr>i_crefs := i_crefs i - int n\<rparr>)\<rparr>"
  have "tree_unlocked ?s" using assms(1) by (simp add: tree_unlocked_def)
  from release_kept [of ?s a "i\<lparr>i_crefs := i_crefs i - int n\<rparr>", OF this] Suc.prems
  have "inode_release (Some a) ?s = Some (s\<lparr>inodes := (inodes s)(a \<mapsto> i\<lparr>i_crefs := i_crefs i - int (Suc n)\<rparr>)\<rparr>)"
    by (simp add: algebra_simps fun_upd_same del: fun_upd_apply)
  moreover have "releases n a s = Some ?s" by (rule Suc.IH) (use Suc.prems in simp)
  ultimately show ?case by (simp del: fun_upd_apply)
qed

text \<open>C31: Unregistering a driver that no one references takes its path and every path below it out
  of the registry and frees the inode together with all inodes below it, whatever references those
  have; every path outside that subtree stays where it was, with its data, the tree stays well formed
  and its semaphore is free again.\<close>

theorem unregister_idle_removes:
  assumes "wf_tree s ts" "tree_unlocked s" "good_path pth" "tfind ts pth = Some a"
    "inodes s a = Some i" "i_crefs i = 0"
  shows "\<exists>s' ts' d. unregister_driver pth s = Some (OK, s') \<and> wf_tree s' ts' \<and> tree_unlocked s' \<and>
     inode_find s' (SETUP_SEARCH pth) = Some (- ENOENT, d, s') \<and>
     a \<in> below ts a \<and> (\<forall>x \<in> below ts a. inodes s' x = None) \<and>
     (\<forall>q b. tfind ts q = Some b \<longrightarrow>
        (if b \<in> below ts a then tfind ts' q = None
         else tfind ts' q = Some b \<and> same_data (inodes s' b) (inodes s b)))"
proof -
  obtain s' ts' k where 1: "unregister_driver pth s = Some (if i_crefs i = 0 then OK else - EBUSY, s')"
    "wf_tree s' ts'" "tree_unlocked s'" "tfind ts' pth = None" "a \<in> below ts a"
    "if i_crefs i = 0 then \<forall>x \<in> below ts a. inodes s' x = None
     else forest (inodes s') (Some a) [k] \<and>
          inodes s' a = Some (i\<lparr>i_peer := None, i_flags := i_flags i OR FSNODEFLAG_DELETED\<rparr>)"
    "\<And>q b. tfind ts q = Some b \<Longrightarrow> if b \<in> below ts a then tfind ts' q = None
       else tfind ts' q = Some b \<and> same_data (inodes s' b) (inodes s b)"
    by (rule unregister_ok [OF assms(1-5)]) (rule that)
  obtain d where "inode_find s' (SETUP_SEARCH pth) = Some (- ENOENT, d, s')"
    by (rule inode_find_miss [OF 1(2,3) assms(3) 1(4)])
  with 1 assms(6) show ?thesis by auto
qed

theorem unregister_idle_removes_witness:
  "\<exists>s' ts'. unregister_driver ''/dev'' (console_fs ()) = Some (OK, s') \<and> wf_tree s' ts' \<and>
     inodes s' 0 = None \<and> inodes s' 1 = None \<and> tfind ts' ''/dev/console'' = None"
proof -
  let ?i = "(blank ''dev'' None)\<lparr>i_child := Some 1\<rparr>"
  have p: "good_path ''/dev''" "tfind console_tree ''/dev'' = Some 0" by code_simp+
  have q: "tfind console_tree ''/dev/console'' = Some 1" by code_simp
  have b: "below console_tree 0 = {0, 1}" by (auto simp: console_tree_def)
  have i: "inodes (console_fs ()) 0 = Some ?i" "i_crefs ?i = 0" by (simp_all add: console_fs_def blank_def)
  obtain s' ts' where "unregister_driver ''/dev'' (console_fs ()) = Some (OK, s')" "wf_tree s' ts'"
    "\<forall>x \<in> {0, 1}. inodes s' x = None"
    "\<forall>q b. tfind console_tree q = Some b \<longrightarrow> (if b \<in> {0, 1} then tfind ts' q = None
         else tfind ts' q = Some b \<and> same_data (inodes s' b) (inodes (console_fs ()) b))"
    using unregister_idle_removes [OF console_fs_ok(1,2) p i, unfolded b] by blast
  moreover from this(4) q have "tfind ts' ''/dev/console'' = None" by force
  ultimately show ?thesis by blast
qed

text \<open>C32: Unregistering a driver with \<^verbatim>\<open>n > 0\<close> references answers \<^verbatim>\<open>EBUSY\<close>, but the path and all paths
  below it are gone at once, while the holders keep an intact inode: after each of the first
  \<^verbatim>\<open>n - 1\<close> releases it is still there with its methods and private data and one reference less, and
  the \<^verbatim>\<open>n\<close>-th release frees it with everything below it.  The rest of the registry is unchanged.\<close>

theorem unregister_busy_defers:
  assumes "wf_tree s ts" "tree_unlocked s" "good_path pth" "tfind ts pth = Some a"
    "inodes s a = Some i" "0 < i_crefs i"
  shows "\<exists>s' ts' d. unregister_driver pth s = Some (- EBUSY, s') \<and> wf_tree s' ts' \<and>
     inode_find s' (SETUP_SEARCH pth) = Some (- ENOENT, d, s') \<and>
     (\<forall>q b. tfind ts q = Some b \<longrightarrow>
        (if b \<in> below ts a then tfind ts' q = None
         else tfind ts' q = Some b \<and> same_data (inodes s' b) (inodes s b))) \<and>
     (\<forall>n. int n < i_crefs i \<longrightarrow> (\<exists>s'' j. releases n a s' = Some s'' \<and> wf_tree s'' ts' \<and>
        inodes s'' a = Some j \<and> i_ops j = i_ops i \<and> i_private j = i_private i \<and>
        i_child j = i_child i \<and> i_crefs j = i_crefs i - int n)) \<and>
     (\<exists>s''. releases (nat (i_crefs i)) a s' = Some s'' \<and> wf_tree s'' ts' \<and>
        (\<forall>x \<in> below ts a. inodes s'' x = None))"
proof -
  let ?j = "i\<lparr>i_peer := None, i_flags := i_flags i OR FSNODEFLAG_DELETED\<rparr>"
  obtain s' ts' k where 1: "unregister_driver pth s = Some (if i_crefs i = 0 then OK else - EBUSY, s')"
    "wf_tree s' ts'" "tree_unlocked s'" "tfind ts' pth = None" "distinct (addrs [k])"
    "set (addrs [k]) = below ts a" "a \<in> below ts a" "below ts a \<inter> set (addrs ts') = {}"
    "if i_crefs i = 0 then \<forall>x \<in> below ts a. inodes s' x = None
     else forest (inodes s') (Some a) [k] \<and> inodes s' a = Some ?j"
    "\<And>q b. tfind ts q = Some b \<Longrightarrow> if b \<in> below ts a then tfind ts' q = None
       else tfind ts' q = Some b \<and> same_data (inodes s' b) (inodes s b)"
    by (rule unregister_ok [OF assms(1-5)]) (rule that)
  have j: "inodes s' a = Some ?j" "forest (inodes s') (Some a) [k]" using 1(9) assms(6) by auto
  obtain d where d: "inode_find s' (SETUP_SEARCH pth) = Some (- ENOENT, d, s')"
    by (rule inode_find_miss [OF 1(2,3) assms(3) 1(4)])
  define t where "t n = s'\<lparr>inodes := (inodes s')(a \<mapsto> ?j\<lparr>i_crefs := i_crefs i - int n\<rparr>)\<rparr>" for n
  have t: "releases n a s' = Some (t n)" "inodes (t n) a = Some (?j\<lparr>i_crefs := i_crefs i - int n\<rparr>)"
    if "int n < i_crefs i" for n
    using releases_kept [OF 1(3) j(1), of n] that by (simp_all add: t_def del: fun_upd_apply) simp
  have wt: "wf_tree (t n) ts'" for n
    unfolding t_def by (rule wf_tree_update [OF 1(2) j(1)]) (simp_all add: INODE_IS_TYPE_def)
  obtain n where n: "nat (i_crefs i) = Suc n" "int n < i_crefs i" "i_crefs i - int n = 1"
    using assms(6) by (cases "nat (i_crefs i)") auto
  have tf: "forest (inodes (t n)) (Some a) [k]"
    using forest_update [OF j(2,1), of "?j\<lparr>i_crefs := i_crefs i - int n\<rparr>"]
    by (simp add: t_def INODE_IS_TYPE_def del: fun_upd_apply)
  have tu: "tree_unlocked (t n)" using 1(3) by (simp add: t_def tree_unlocked_def)
  obtain z where "inode_release (Some a) (t n) = Some z" "wf_tree z ts'"
      "\<forall>x \<in> set (addrs [k]). inodes z x = None"
    by (rule release_deleted [OF wt tu tf 1(5) _ _ t(2) [OF n(2)]])
      (use 1(6-8) n(3) in \<open>simp_all add: deleted_bit del: addrs.simps\<close>)
  then have "\<exists>s''. releases (nat (i_crefs i)) a s' = Some s'' \<and> wf_tree s'' ts' \<and> (\<forall>x \<in> below ts a. inodes s'' x = None)"
    using t(1) [OF n(2)] 1(6) by (simp add: n(1) del: addrs.simps)
  moreover have "\<forall>n. int n < i_crefs i \<longrightarrow> (\<exists>s'' j. releases n a s' = Some s'' \<and> wf_tree s'' ts' \<and>
        inodes s'' a = Some j \<and> i_ops j = i_ops i \<and> i_private j = i_private i \<and>
        i_child j = i_child i \<and> i_crefs j = i_crefs i - int n)"
    using t wt by auto
  ultimately show ?thesis using 1(1,2) 1(10) d assms(6) by (intro exI [of _ s'] exI [of _ ts'] exI [of _ d]) simp
qed

definition busy_fs :: "unit fs" where
  "busy_fs = console_fs ()\<lparr>inodes := (inodes (console_fs ()))(1 \<mapsto> (blank ''console'' None)\<lparr>i_crefs := 2\<rparr>)\<rparr>"

theorem unregister_busy_defers_witness:
  "\<exists>s' s1 s2 j. unregister_driver ''/dev/console'' busy_fs = Some (- EBUSY, s') \<and>
     releases 1 1 s' = Some s1 \<and> inodes s1 1 = Some j \<and> i_crefs j = 1 \<and>
     releases 2 1 s' = Some s2 \<and> inodes s2 1 = None"
proof -
  let ?i = "(blank ''console'' None)\<lparr>i_crefs := 2\<rparr> :: unit inode_s"
  have p: "good_path ''/dev/console''" "tfind console_tree ''/dev/console'' = Some 1" by code_simp+
  have b: "below console_tree 1 = {1}" by (simp add: console_tree_def)
  have w: "wf_tree busy_fs console_tree" unfolding busy_fs_def
    by (rule wf_tree_update [OF console_fs_ok(1), where i = "blank ''console'' None"]) (simp_all add: console_fs_def)
  have u: "tree_unlocked busy_fs" using console_fs_ok(2) [of "()"] by (simp add: busy_fs_def tree_unlocked_def)
  have i: "inodes busy_fs 1 = Some ?i" "0 < i_crefs ?i" by (simp_all add: busy_fs_def)
  have n: "nat (i_crefs ?i) = 2" "int 1 < i_crefs ?i" "i_crefs ?i - int 1 = 1" by simp_all
  from unregister_busy_defers [OF w u p i, unfolded n(1) b] show ?thesis
  proof (elim exE conjE, goal_cases)
    case (1 s' ts' d s2)
    from 1(5) n(2,3) obtain s1 j where "releases 1 1 s' = Some s1" "inodes s1 1 = Some j" "i_crefs j = 1" by metis
    with 1 show ?case by blast
  qed
qed

end
