(* ===== verification/Vfs.thy ===== *)
theory Vfs
  imports Registry
begin

text \<open>
  The virtual file system calls of one task (\<^verbatim>\<open>fs/inode/fs_files.c\<close>, \<^verbatim>\<open>fs/vfs\<close>): its table of
  open files, open, close, ioctl, read and write, over the inode tree.  The task has a file list,
  so \<^verbatim>\<open>sched_getfiles\<close> never returns NULL; cancellation points have no effect because no
  cancellation is pending.  The proxy that stands in for a block driver
  (\<^verbatim>\<open>fs/driver/fs_blockproxy.c\<close>) is an argument of the calls that may need it.
\<close>

section \<open>Model\<close>

abbreviation (input) CONFIG_NFILE_DESCRIPTORS :: nat where "CONFIG_NFILE_DESCRIPTORS \<equiv> 8"
abbreviation (input) O_RDOK :: int where "O_RDOK \<equiv> 1"
abbreviation (input) O_WROK :: int where "O_WROK \<equiv> 2"
abbreviation (input) O_RDONLY :: int where "O_RDONLY \<equiv> 1"

record 'd vfs = "'d fs" +
  fl_sem :: sem_t
  fl_files :: "file_s list"
  errno :: int

type_synonym 'd proxy = "string \<Rightarrow> int \<Rightarrow> 'd vfs \<Rightarrow> (int \<times> 'd vfs) option"

definition closed_file :: file_s where
  "closed_file = \<lparr>f_oflags = 0, f_pos = 0, f_inode = None, f_priv = None\<rparr>"

subsection \<open>The file list\<close>

definition files_semtake :: "'d vfs \<Rightarrow> 'd vfs option" where
  "files_semtake s = do { sem \<leftarrow> sem_take_loop (fl_sem s); Some (s\<lparr>fl_sem := sem\<rparr>) }"

definition files_semgive :: "'d vfs \<Rightarrow> 'd vfs" where
  "files_semgive s = s\<lparr>fl_sem := snd (nxsem_post (fl_sem s))\<rparr>"

definition files_initlist :: "int list \<Rightarrow> 'd vfs \<Rightarrow> 'd vfs" where
  "files_initlist ws s = s\<lparr>fl_sem := nxsem_init 1 ws\<rparr>"

definition files_close_at :: "nat \<Rightarrow> 'd vfs \<Rightarrow> (int \<times> 'd vfs) option" where
  "files_close_at n s =
     (let filep = fl_files s ! n in
      case f_inode filep of
        None \<Rightarrow> Some (OK, s)
      | Some p \<Rightarrow> do {
          inode \<leftarrow> inodes s p;
          (ret, s) \<leftarrow>
            (case Option.bind (i_ops inode) fop_close of
               Some m \<Rightarrow> do { (r, d) \<leftarrow> m filep (i_private inode) (drv s); Some (r, s\<lparr>drv := d\<rparr>) }
             | None \<Rightarrow> Some (OK, s));
          s \<leftarrow> inode_release (Some p) s;
          Some (ret, s\<lparr>fl_files := (fl_files s)[n := filep\<lparr>f_oflags := 0, f_pos := 0, f_inode := None\<rparr>]\<rparr>)
        })"

fun releaselist_loop :: "nat list \<Rightarrow> 'd vfs \<Rightarrow> 'd vfs option" where
  "releaselist_loop [] s = Some s"
| "releaselist_loop (i # is) s = do { (_, s) \<leftarrow> files_close_at i s; releaselist_loop is s }"

definition files_releaselist :: "'d vfs \<Rightarrow> 'd vfs option" where
  "files_releaselist s = releaselist_loop [0..<CONFIG_NFILE_DESCRIPTORS] s"

text \<open>The index of the first free entry, counting from i.\<close>

fun allocate_loop :: "nat \<Rightarrow> file_s list \<Rightarrow> nat option" where
  "allocate_loop i [] = None"
| "allocate_loop i (f # fs) = (if f_inode f = None then Some i else allocate_loop (i + 1) fs)"

definition files_allocate :: "nat \<Rightarrow> int \<Rightarrow> int \<Rightarrow> nat \<Rightarrow> 'd vfs \<Rightarrow> (int \<times> 'd vfs) option" where
  "files_allocate inode oflags pos minfd s = do {
     s \<leftarrow> files_semtake s;
     Some (case allocate_loop minfd (drop minfd (fl_files s)) of
             Some i \<Rightarrow>
               (int i, files_semgive (s\<lparr>fl_files := (fl_files s)[i :=
                  \<lparr>f_oflags = oflags, f_pos = pos, f_inode = Some inode, f_priv = None\<rparr>]\<rparr>))
           | None \<Rightarrow> (ERROR, files_semgive s))
   }"

definition files_close :: "int \<Rightarrow> 'd vfs \<Rightarrow> (int \<times> 'd vfs) option" where
  "files_close fd s =
     (if fd < 0 \<or> fd \<ge> int CONFIG_NFILE_DESCRIPTORS \<or> f_inode (fl_files s ! nat fd) = None
      then Some (- EBADF, s)
      else do {
        s \<leftarrow> files_semtake s;
        (ret, s) \<leftarrow> files_close_at (nat fd) s;
        Some (ret, files_semgive s)
      })"

definition files_release :: "int \<Rightarrow> 'd vfs \<Rightarrow> 'd vfs option" where
  "files_release fd s =
     (if fd \<ge> 0 \<and> fd < int CONFIG_NFILE_DESCRIPTORS
      then do {
        s \<leftarrow> files_semtake s;
        Some (files_semgive (s\<lparr>fl_files := (fl_files s)[nat fd :=
          (fl_files s ! nat fd)\<lparr>f_oflags := 0, f_pos := 0, f_inode := None\<rparr>]\<rparr>))
      }
      else Some s)"

definition fs_getfilep :: "int \<Rightarrow> int \<times> nat option" where
  "fs_getfilep fd = (if fd < 0 \<or> fd \<ge> int CONFIG_NFILE_DESCRIPTORS then (- EBADF, None) else (OK, Some (nat fd)))"

subsection \<open>Open\<close>

definition inode_checkflags :: "'d file_operations \<Rightarrow> int \<Rightarrow> int" where
  "inode_checkflags ops oflags =
     (if (oflags AND O_RDOK \<noteq> 0 \<and> fop_read ops = None) \<or> (oflags AND O_WROK \<noteq> 0 \<and> fop_write ops = None)
      then - EACCES else OK)"

text \<open>From the allocation of the descriptor on: the inode has methods and allows the access.\<close>

definition nx_vopen_inode ::
  "nat \<Rightarrow> 'd inode_s \<Rightarrow> 'd file_operations \<Rightarrow> string option \<Rightarrow> int \<Rightarrow> 'd vfs \<Rightarrow> (int \<times> 'd vfs) option" where
  "nx_vopen_inode p inode ops rel oflags s = do {
     (fd, s) \<leftarrow> files_allocate p oflags 0 0 s;
     if fd < 0 then do { s \<leftarrow> inode_release (Some p) s; Some (- EMFILE, s) }
     else
       case fs_getfilep fd of
         (ret, None) \<Rightarrow> do { s \<leftarrow> inode_release (Some p) s; Some (ret, s) }
       | (_, Some n) \<Rightarrow> do {
           (ret, s) \<leftarrow>
             (case fop_open ops of
                None \<Rightarrow> Some (OK, s)
              | Some m \<Rightarrow> do {
                  (r, d) \<leftarrow> m (fl_files s ! n)
                             (if INODE_IS_TYPE inode FSNODEFLAG_TYPE_MOUNTPT then rel else None)
                             (i_private inode) (drv s);
                  Some (r, s\<lparr>drv := d\<rparr>)
                });
           if ret < 0
           then do {
             s \<leftarrow> files_release fd s;
             s \<leftarrow> inode_release (Some p) s;
             Some (ret, s)
           }
           else Some (fd, s)
         }
   }"

definition nx_vopen :: "'d proxy \<Rightarrow> string option \<Rightarrow> int \<Rightarrow> 'd vfs \<Rightarrow> (int \<times> 'd vfs) option" where
  "nx_vopen block_proxy pth oflags s =
     (case pth of
        None \<Rightarrow> Some (- EINVAL, s)
      | Some pth \<Rightarrow> do {
          (ret, desc, s) \<leftarrow> inode_find s (SETUP_SEARCH pth);
          if ret < 0 then Some (ret, s)
          else do {
            p \<leftarrow> node desc;
            inode \<leftarrow> inodes s p;
            if INODE_IS_TYPE inode FSNODEFLAG_TYPE_BLOCK \<or> INODE_IS_TYPE inode FSNODEFLAG_TYPE_MTD
            then do { s \<leftarrow> inode_release (Some p) s; block_proxy pth oflags s }
            else if \<not> INODE_IS_TYPE inode FSNODEFLAG_TYPE_DRIVER \<and> \<not> INODE_IS_TYPE inode FSNODEFLAG_TYPE_MOUNTPT
            then do { s \<leftarrow> inode_release (Some p) s; Some (- ENXIO, s) }
            else
              case i_ops inode of
                None \<Rightarrow> do { s \<leftarrow> inode_release (Some p) s; Some (- ENXIO, s) }
              | Some ops \<Rightarrow>
                  let ret = inode_checkflags ops oflags
                  in if ret < 0 then do { s \<leftarrow> inode_release (Some p) s; Some (ret, s) }
                     else nx_vopen_inode p inode ops (relpath desc) oflags s
          }
        })"

definition open_call :: "'d proxy \<Rightarrow> string option \<Rightarrow> int \<Rightarrow> 'd vfs \<Rightarrow> (int \<times> 'd vfs) option" where
  "open_call block_proxy pth oflags s = do {
     (fd, s) \<leftarrow> nx_vopen block_proxy pth oflags s;
     Some (if fd < 0 then (ERROR, s\<lparr>errno := - fd\<rparr>) else (fd, s))
   }"

subsection \<open>Close, ioctl, read, write\<close>

definition close_call :: "int \<Rightarrow> 'd vfs \<Rightarrow> (int \<times> 'd vfs) option" where
  "close_call fd s =
     (if fd < 0 \<or> fd \<ge> int CONFIG_NFILE_DESCRIPTORS then Some (ERROR, s\<lparr>errno := EBADF\<rparr>)
      else do {
        (ret, s) \<leftarrow> files_close fd s;
        Some (if ret < 0 then (ERROR, s\<lparr>errno := - ret\<rparr>) else (OK, s))
      })"

definition file_ioctl :: "nat \<Rightarrow> int \<Rightarrow> ioctl_arg \<Rightarrow> 'd vfs \<Rightarrow> (int \<times> ioctl_arg \<times> 'd vfs) option" where
  "file_ioctl n req arg s =
     (let filep = fl_files s ! n in
      case f_inode filep of
        None \<Rightarrow> Some (- EBADF, arg, s)
      | Some p \<Rightarrow> do {
          inode \<leftarrow> inodes s p;
          (case Option.bind (i_ops inode) fop_ioctl of
             None \<Rightarrow> Some (- ENOTTY, arg, s)
           | Some m \<Rightarrow> do {
               (ret, arg, d) \<leftarrow> m filep (i_private inode) req arg (drv s);
               Some (ret, arg, s\<lparr>drv := d\<rparr>)
             })
        })"

definition ioctl_call :: "int \<Rightarrow> int \<Rightarrow> ioctl_arg \<Rightarrow> 'd vfs \<Rightarrow> (int \<times> ioctl_arg \<times> 'd vfs) option" where
  "ioctl_call fd req arg s =
     (case fs_getfilep fd of
        (ret, None) \<Rightarrow> Some (ERROR, arg, s\<lparr>errno := - ret\<rparr>)
      | (_, Some n) \<Rightarrow> do {
          (ret, arg, s) \<leftarrow> file_ioctl n req arg s;
          Some (if ret < 0 then (ERROR, arg, s\<lparr>errno := - ret\<rparr>) else (ret, arg, s))
        })"

definition file_read :: "nat \<Rightarrow> nat \<Rightarrow> 'd vfs \<Rightarrow> (int \<times> u8 list \<times> 'd vfs) option" where
  "file_read n nbytes s =
     (let filep = fl_files s ! n in
      if f_oflags filep AND O_RDOK = 0 then Some (- EACCES, [], s)
      else
        case f_inode filep of
          None \<Rightarrow> Some (- EBADF, [], s)
        | Some p \<Rightarrow> do {
            inode \<leftarrow> inodes s p;
            (case Option.bind (i_ops inode) fop_read of
               None \<Rightarrow> Some (- EBADF, [], s)
             | Some m \<Rightarrow> do {
                 (ret, bs, d) \<leftarrow> m filep (i_private inode) nbytes (drv s);
                 Some (ret, bs, s\<lparr>drv := d\<rparr>)
               })
          })"

definition read_call :: "int \<Rightarrow> nat \<Rightarrow> 'd vfs \<Rightarrow> (int \<times> u8 list \<times> 'd vfs) option" where
  "read_call fd nbytes s = do {
     (ret, bs, s) \<leftarrow> (case fs_getfilep fd of
                        (ret, None) \<Rightarrow> Some (ret, [], s)
                      | (_, Some n) \<Rightarrow> file_read n nbytes s);
     Some (if ret < 0 then (ERROR, bs, s\<lparr>errno := - ret\<rparr>) else (ret, bs, s))
   }"

definition file_write :: "nat \<Rightarrow> u8 list \<Rightarrow> 'd vfs \<Rightarrow> (int \<times> 'd vfs) option" where
  "file_write n buf s =
     (let filep = fl_files s ! n in
      if f_oflags filep AND O_WROK = 0 then Some (- EBADF, s)
      else
        case f_inode filep of
          None \<Rightarrow> Some (- EBADF, s)
        | Some p \<Rightarrow> do {
            inode \<leftarrow> inodes s p;
            (case Option.bind (i_ops inode) fop_write of
               None \<Rightarrow> Some (- EBADF, s)
             | Some m \<Rightarrow> do {
                 (ret, d) \<leftarrow> m filep (i_private inode) buf (drv s);
                 Some (ret, s\<lparr>drv := d\<rparr>)
               })
          })"

definition write_call :: "int \<Rightarrow> u8 list option \<Rightarrow> 'd vfs \<Rightarrow> (int \<times> 'd vfs) option" where
  "write_call fd buf s = do {
     (ret, s) \<leftarrow> (case buf of
                     None \<Rightarrow> Some (- EINVAL, s)
                   | Some buf \<Rightarrow>
                       (case fs_getfilep fd of
                          (ret, None) \<Rightarrow> Some (ret, s)
                        | (_, Some n) \<Rightarrow> file_write n buf s));
     Some (if ret < 0 then (ERROR, s\<lparr>errno := - ret\<rparr>) else (ret, s))
   }"

end
