(* ===== verification/Vfs_Laws.thy ===== *)
theory Vfs_Laws
  imports Vfs
begin

text \<open>
  The file table and the reference counts agree in every reachable state; what open and close do
  to a character driver, on every outcome.
\<close>

section \<open>The invariant of a task's open files\<close>

text \<open>Every open file refers to an inode in memory, and an inode counts exactly the open files that
  refer to it.\<close>

definition refs :: "file_s list \<Rightarrow> nat \<Rightarrow> nat" where
  "refs fs a = length (filter (\<lambda>f. f_inode f = Some a) fs)"

definition files_ok :: "'d vfs \<Rightarrow> bool" where
  "files_ok s \<longleftrightarrow> length (fl_files s) = CONFIG_NFILE_DESCRIPTORS \<and> 0 < semcount (fl_sem s) \<and>
     (\<forall>f \<in> set (fl_files s). f_inode f = None \<longrightarrow> f = closed_file) \<and>
     (\<forall>f \<in> set (fl_files s). f_priv f = None) \<and>
     (\<forall>f \<in> set (fl_files s). \<forall>a. f_inode f = Some a \<longrightarrow> inodes s a \<noteq> None)"

definition live :: "'d inode_s \<Rightarrow> bool" where
  "live i \<longleftrightarrow> i_flags i AND FSNODEFLAG_DELETED = 0"

definition inodes_ok :: "'d vfs \<Rightarrow> bool" where
  "inodes_ok s \<longleftrightarrow> (\<forall>a i. inodes s a = Some i \<longrightarrow> live i \<and> i_crefs i = int (refs (fl_files s) a))"

definition vfs_inv :: "'d vfs \<Rightarrow> tree list \<Rightarrow> bool" where
  "vfs_inv s ts \<longleftrightarrow> wf_tree s ts \<and> tree_unlocked s \<and> files_ok s \<and> inodes_ok s"

section \<open>Helpers\<close>

lemma allocate_loop_Some:
  "allocate_loop i fs = Some n \<Longrightarrow>
   \<exists>k < length fs. n = i + k \<and> f_inode (fs ! k) = None \<and> (\<forall>j < k. f_inode (fs ! j) \<noteq> None)"
proof (induction i fs rule: allocate_loop.induct)
  case (2 i f fs)
  show ?case
  proof (cases "f_inode f = None")
    case True
    then show ?thesis using 2(2) by (intro exI [of _ 0]) simp
  next
    case False
    then obtain k where "k < length fs" "n = i + 1 + k" "f_inode (fs ! k) = None" "\<forall>j < k. f_inode (fs ! j) \<noteq> None"
      using 2 by auto
    then show ?thesis using False by (intro exI [of _ "Suc k"]) (auto simp: less_Suc_eq_0_disj)
  qed
qed simp

lemma allocate_loop_None: "allocate_loop i fs = None \<longleftrightarrow> (\<forall>f \<in> set fs. f_inode f \<noteq> None)"
  by (induction i fs rule: allocate_loop.induct) auto

lemma files_allocate_eq:
  assumes "0 < semcount (fl_sem s)"
  shows "files_allocate p oflags pos 0 s =
     Some (case allocate_loop 0 (fl_files s) of
             Some i \<Rightarrow> (int i, s\<lparr>fl_files := (fl_files s)[i :=
                \<lparr>f_oflags = oflags, f_pos = pos, f_inode = Some p, f_priv = None\<rparr>]\<rparr>)
           | None \<Rightarrow> (ERROR, s))"
  using assms
  by (simp add: files_allocate_def files_semtake_def files_semgive_def split: option.splits)

lemma release_live:
  assumes "tree_unlocked s" "inodes s a = Some i" "live i" "i_crefs i \<noteq> 0"
  shows "inode_release (Some a) s = Some (s\<lparr>inodes := (inodes s)(a \<mapsto> i\<lparr>i_crefs := i_crefs i - 1\<rparr>)\<rparr>)"
proof -
  let ?s0 = "s\<lparr>g_inode_sem := locked_by_me s\<rparr>" and ?h = "(inodes s)(a \<mapsto> i\<lparr>i_crefs := i_crefs i - 1\<rparr>)"
  have "inode_semgive (?s0\<lparr>inodes := ?h\<rparr>) = s\<lparr>inodes := ?h\<rparr>"
    using assms(1) by (subst semgive_locked [of s]) simp_all
  then show ?thesis using assms by (simp add: inode_release_def upd_inode_def live_def)
qed

lemma refs_update:
  assumes "n < length fs"
  shows "int (refs (fs[n := f]) a) =
    int (refs fs a) - (if f_inode (fs ! n) = Some a then 1 else 0) + (if f_inode f = Some a then 1 else 0)"
  using assms
proof (induction fs arbitrary: n)
  case (Cons x xs)
  show ?case
  proof (cases n)
    case (Suc m)
    then show ?thesis using Cons(1) [of m] Cons(2) by (auto simp: refs_def)
  qed (simp add: refs_def)
qed simp

section \<open>What open does to a driver's path\<close>

abbreviation file_of :: "int \<Rightarrow> nat \<Rightarrow> file_s" where
  "file_of oflags a \<equiv> \<lparr>f_oflags = oflags, f_pos = 0, f_inode = Some a, f_priv = None\<rparr>"

definition driver_open :: "'d file_operations \<Rightarrow> file_s \<Rightarrow> nat \<Rightarrow> 'd \<Rightarrow> (int \<times> 'd) option" where
  "driver_open ops f priv d = (case fop_open ops of None \<Rightarrow> Some (OK, d) | Some m \<Rightarrow> m f None priv d)"

definition opened :: "nat \<Rightarrow> nat \<Rightarrow> int \<Rightarrow> 'd inode_s \<Rightarrow> 'd \<Rightarrow> 'd vfs \<Rightarrow> 'd vfs" where
  "opened n a oflags i d s =
     s\<lparr>inodes := (inodes s)(a \<mapsto> i\<lparr>i_crefs := i_crefs i + 1\<rparr>),
       fl_files := (fl_files s)[n := file_of oflags a], drv := d\<rparr>"

lemma free_entry:
  assumes "files_ok s" "allocate_loop 0 (fl_files s) = Some n"
  shows "n < CONFIG_NFILE_DESCRIPTORS" "fl_files s ! n = closed_file" "\<forall>j < n. f_inode (fl_files s ! j) \<noteq> None"
  using assms allocate_loop_Some [OF assms(2)] by (auto simp: files_ok_def)

lemma nx_vopen_driver:
  assumes inv: "vfs_inv s ts" and pth: "good_path pth" "tfind ts pth = Some a" and i: "inodes s a = Some i"
    and drv: "INODE_IS_TYPE i FSNODEFLAG_TYPE_DRIVER" "i_ops i = Some ops" "inode_checkflags ops oflags = OK"
  shows "nx_vopen bp (Some pth) oflags s =
     (case allocate_loop 0 (fl_files s) of
        None \<Rightarrow> Some (- EMFILE, s)
      | Some n \<Rightarrow>
          (case driver_open ops (file_of oflags a) (i_private i) (drv s) of
             None \<Rightarrow> None
           | Some (r, d) \<Rightarrow> Some (if r < 0 then (r, s\<lparr>drv := d\<rparr>) else (int n, opened n a oflags i d s))))"
proof -
  let ?i1 = "i\<lparr>i_crefs := i_crefs i + 1\<rparr>"
  let ?s1 = "s\<lparr>inodes := (inodes s)(a \<mapsto> ?i1)\<rparr>"
  have I: "wf_tree s ts" "tree_unlocked s" "files_ok s" "inodes_ok s" using inv by (simp_all add: vfs_inv_def)
  have sem: "0 < semcount (fl_sem s)" using I(3) by (simp add: files_ok_def)
  obtain dsc where f: "inode_find s (SETUP_SEARCH pth) = Some (OK, dsc, ?s1)" "node dsc = Some a"
    by (rule inode_find_ok [OF I(1,2) pth i])
  have lv: "live ?i1" "i_crefs ?i1 \<noteq> 0" using I(4) i by (auto simp: inodes_ok_def live_def)
  have rel: "inode_release (Some a) s' = Some (s'\<lparr>inodes := inodes s\<rparr>)"
    if "inodes s' = (inodes s)(a \<mapsto> ?i1)" "g_inode_sem s' = g_inode_sem s" "mypid s' = mypid s" for s' :: "'a vfs"
  proof -
    have "tree_unlocked s'" using that I(2) by (simp add: tree_unlocked_def)
    from release_live [OF this _ lv] show ?thesis using i that(1) by (simp add: fun_upd_idem)
  qed
  have ty: "\<not> INODE_IS_TYPE i FSNODEFLAG_TYPE_BLOCK" "\<not> INODE_IS_TYPE i FSNODEFLAG_TYPE_MTD"
    "\<not> INODE_IS_TYPE i FSNODEFLAG_TYPE_MOUNTPT" using drv(1) by (simp_all add: INODE_IS_TYPE_def)
  have "nx_vopen bp (Some pth) oflags s = nx_vopen_inode a ?i1 ops (relpath dsc) oflags ?s1"
    using f drv ty by (simp add: nx_vopen_def)
  moreover have "nx_vopen_inode a ?i1 ops (relpath dsc) oflags ?s1 = 
     (case allocate_loop 0 (fl_files s) of
        None \<Rightarrow> Some (- EMFILE, s)
      | Some n \<Rightarrow>
          (case driver_open ops (file_of oflags a) (i_private i) (drv s) of
             None \<Rightarrow> None
           | Some (r, d) \<Rightarrow> Some (if r < 0 then (r, s\<lparr>drv := d\<rparr>) else (int n, opened n a oflags i d s))))"
  proof (cases "allocate_loop 0 (fl_files s)")
    case None
    then show ?thesis using sem rel [of ?s1] by (simp add: nx_vopen_inode_def files_allocate_eq)
  next
    case (Some n)
    note fr = free_entry [OF I(3) Some]
    have cl: "(fl_files s)[n := file_of oflags a, n := (file_of oflags a)\<lparr>f_oflags := 0, f_pos := 0, f_inode := None\<rparr>] = fl_files s"
      using fr list_update_id [of "fl_files s" n] by (simp add: closed_file_def)
    have g: "fs_getfilep (int n) = (OK, Some n)" using fr by (simp add: fs_getfilep_def)
    have nth: "(fl_files s)[n := file_of oflags a] ! n = file_of oflags a" using fr I(3) by (simp add: files_ok_def)
    have frel: "files_release (int n) (?s1\<lparr>fl_files := (fl_files s)[n := file_of oflags a], drv := d\<rparr>) =
        Some (?s1\<lparr>drv := d\<rparr>)" for d
      using fr sem cl nth by (simp add: files_release_def files_semtake_def files_semgive_def)
    have reld: "inode_release (Some a) (?s1\<lparr>drv := d\<rparr>) = Some (s\<lparr>drv := d\<rparr>)" for d
      using rel [of "?s1\<lparr>drv := d\<rparr>"] by simp
    show ?thesis
      using Some sem g nth frel reld ty
      by (auto simp: nx_vopen_inode_def files_allocate_eq driver_open_def opened_def split: option.splits)
  qed
  ultimately show ?thesis by simp
qed

section \<open>The other outcomes of open\<close>

lemma nx_vopen_missing:
  assumes "vfs_inv s ts" "good_path pth" "tfind ts pth = None"
  shows "nx_vopen bp (Some pth) oflags s = Some (- ENOENT, s)"
proof -
  obtain d where "inode_find s (SETUP_SEARCH pth) = Some (- ENOENT, d, s)"
    using inode_find_miss [of s ts pth] assms by (auto simp: vfs_inv_def)
  then show ?thesis by (simp add: nx_vopen_def)
qed

text \<open>A node without methods, or without the method for the requested access, is given back.\<close>

lemma nx_vopen_refused:
  assumes inv: "vfs_inv s ts" and pth: "good_path pth" "tfind ts pth = Some a" and i: "inodes s a = Some i"
    and drv: "INODE_IS_TYPE i FSNODEFLAG_TYPE_DRIVER"
    and no: "\<forall>ops. i_ops i = Some ops \<longrightarrow> inode_checkflags ops oflags \<noteq> OK"
  shows "nx_vopen bp (Some pth) oflags s = Some (if i_ops i = None then - ENXIO else - EACCES, s)"
proof -
  let ?i1 = "i\<lparr>i_crefs := i_crefs i + 1\<rparr>"
  let ?s1 = "s\<lparr>inodes := (inodes s)(a \<mapsto> ?i1)\<rparr>"
  have I: "wf_tree s ts" "tree_unlocked s" "inodes_ok s" using inv by (simp_all add: vfs_inv_def)
  obtain dsc where f: "inode_find s (SETUP_SEARCH pth) = Some (OK, dsc, ?s1)" "node dsc = Some a"
    by (rule inode_find_ok [OF I(1,2) pth i])
  have lv: "live ?i1" "i_crefs ?i1 \<noteq> 0" using I(3) i by (auto simp: inodes_ok_def live_def)
  have "inode_release (Some a) ?s1 = Some s"
    using release_live [of ?s1 a ?i1] I(2) lv i by (simp add: tree_unlocked_def fun_upd_idem)
  moreover have "inode_checkflags ops oflags = - EACCES" if "i_ops i = Some ops" for ops
    using no that by (auto simp: inode_checkflags_def split: if_splits)
  ultimately show ?thesis
    using f drv by (simp add: nx_vopen_def INODE_IS_TYPE_def split: option.splits)
qed

section \<open>What close does\<close>

definition driver_close :: "'d inode_s \<Rightarrow> file_s \<Rightarrow> 'd \<Rightarrow> (int \<times> 'd) option" where
  "driver_close i f d =
     (case Option.bind (i_ops i) fop_close of None \<Rightarrow> Some (OK, d) | Some m \<Rightarrow> m f (i_private i) d)"

definition closed :: "nat \<Rightarrow> nat \<Rightarrow> 'd inode_s \<Rightarrow> 'd \<Rightarrow> 'd vfs \<Rightarrow> 'd vfs" where
  "closed n a i d s =
     s\<lparr>inodes := (inodes s)(a \<mapsto> i\<lparr>i_crefs := i_crefs i - 1\<rparr>),
       fl_files := (fl_files s)[n := closed_file], drv := d\<rparr>"

lemma open_file_counted:
  assumes "vfs_inv s ts" "n < CONFIG_NFILE_DESCRIPTORS" "f_inode (fl_files s ! n) = Some a"
  obtains i where "inodes s a = Some i" "live i" "1 \<le> i_crefs i" "f_priv (fl_files s ! n) = None"
proof -
  have n: "fl_files s ! n \<in> set (fl_files s)" using assms by (auto simp: vfs_inv_def files_ok_def)
  then obtain i where i: "inodes s a = Some i" using assms by (fastforce simp: vfs_inv_def files_ok_def)
  have "refs (fl_files s) a \<noteq> 0" using n assms(3) by (auto simp: refs_def filter_empty_conv)
  then show thesis using that [OF i] i n assms(1) by (auto simp: vfs_inv_def inodes_ok_def files_ok_def)
qed

lemma files_close_at_eq:
  assumes ul: "tree_unlocked s" and f: "f_inode (fl_files s ! n) = Some a" "f_priv (fl_files s ! n) = None"
    and i: "inodes s a = Some i" "live i" "i_crefs i \<noteq> 0"
  shows "files_close_at n s =
     (case driver_close i (fl_files s ! n) (drv s) of
        None \<Rightarrow> None
      | Some (r, d) \<Rightarrow> Some (r, closed n a i d s))"
proof -
  have z: "(fl_files s ! n)\<lparr>f_oflags := 0, f_pos := 0, f_inode := None\<rparr> = closed_file"
    using f(2) by (simp add: closed_file_def)
  have rel: "inode_release (Some a) s' = Some (s'\<lparr>inodes := (inodes s)(a \<mapsto> i\<lparr>i_crefs := i_crefs i - 1\<rparr>)\<rparr>)"
    if "inodes s' = inodes s" "g_inode_sem s' = g_inode_sem s" "mypid s' = mypid s" for s' :: "'a vfs"
    using release_live [of s' a i] that ul i by (simp add: tree_unlocked_def)
  show ?thesis
  proof (cases "Option.bind (i_ops i) fop_close")
    case None
    then show ?thesis
      using f i(1) z rel [of s] by (simp add: files_close_at_def driver_close_def closed_def)
  next
    case (Some m)
    have rd: "inode_release (Some a) (s\<lparr>drv := d\<rparr>) =
        Some (s\<lparr>drv := d, inodes := (inodes s)(a \<mapsto> i\<lparr>i_crefs := i_crefs i - 1\<rparr>)\<rparr>)" for d
      using rel [of "s\<lparr>drv := d\<rparr>"] by simp
    show ?thesis
      using f i(1) z Some rd
      by (cases "m (fl_files s ! n) (i_private i) (drv s)") (auto simp: files_close_at_def driver_close_def closed_def)
  qed
qed

lemma close_call_eq:
  assumes inv: "vfs_inv s ts" and n: "n < CONFIG_NFILE_DESCRIPTORS" and f: "f_inode (fl_files s ! n) = Some a"
    and i: "inodes s a = Some i"
  shows "close_call (int n) s =
     (case driver_close i (fl_files s ! n) (drv s) of
        None \<Rightarrow> None
      | Some (r, d) \<Rightarrow> Some (if r < 0 then (ERROR, (closed n a i d s)\<lparr>errno := - r\<rparr>) else (OK, closed n a i d s)))"
proof -
  have I: "tree_unlocked s" "0 < semcount (fl_sem s)" using inv by (simp_all add: vfs_inv_def files_ok_def)
  obtain j where j: "inodes s a = Some j" "live j" "1 \<le> i_crefs j" "f_priv (fl_files s ! n) = None"
    by (rule open_file_counted [OF inv n f])
  then have c: "live i" "i_crefs i \<noteq> 0" using i by auto
  let ?s1 = "s\<lparr>fl_sem := (fl_sem s)\<lparr>semcount := semcount (fl_sem s) - 1\<rparr>\<rparr>"
  have "files_close_at n ?s1 = (case driver_close i (fl_files s ! n) (drv s) of
      None \<Rightarrow> None | Some (r, d) \<Rightarrow> Some (r, closed n a i d ?s1))"
    using files_close_at_eq [of ?s1 n a i] I(1) f i j(4) c by (simp add: tree_unlocked_def)
  moreover have "files_semgive (closed n a i d ?s1) = closed n a i d s" for d
    by (simp add: files_semgive_def closed_def)
  ultimately show ?thesis
    using n f I(2)
    by (cases "driver_close i (fl_files s ! n) (drv s)")
       (auto simp: close_call_def files_close_def files_semtake_def)
qed

section \<open>The calls keep the invariant\<close>

lemma vfs_inv_env [simp]:
  "vfs_inv (s\<lparr>drv := d\<rparr>) ts = vfs_inv s ts" "vfs_inv (s\<lparr>errno := e\<rparr>) ts = vfs_inv s ts"
  by (simp_all add: vfs_inv_def wf_tree_def tree_unlocked_def files_ok_def inodes_ok_def)

text \<open>A call that touches only the device and the error number.\<close>

definition env_only :: "'d vfs \<Rightarrow> 'd vfs \<Rightarrow> bool" where
  "env_only s s' \<longleftrightarrow> s'\<lparr>drv := drv s, errno := errno s\<rparr> = s"

lemma env_only_inv: "env_only s s' \<Longrightarrow> vfs_inv s ts \<Longrightarrow> vfs_inv s' ts"
  unfolding env_only_def by (metis vfs_inv_env)

lemma ioctl_env: "ioctl_call fd req arg s = Some (r, arg', s') \<Longrightarrow> env_only s s'"
  by (auto simp: ioctl_call_def file_ioctl_def env_only_def bind_eq_Some_conv_ex Let_def
      split: prod.splits option.splits if_splits)

lemma read_env: "read_call fd n s = Some (r, bs, s') \<Longrightarrow> env_only s s'"
  by (auto simp: read_call_def file_read_def env_only_def bind_eq_Some_conv_ex Let_def
      split: prod.splits option.splits if_splits)

lemma write_env: "write_call fd buf s = Some (r, s') \<Longrightarrow> env_only s s'"
  by (auto simp: write_call_def file_write_def env_only_def bind_eq_Some_conv_ex Let_def
      split: prod.splits option.splits if_splits)

text \<open>One entry of the table changes together with the counts of the inodes concerned.\<close>

lemma vfs_inv_entry:
  assumes inv: "vfs_inv s ts" and n: "n < CONFIG_NFILE_DESCRIPTORS" and a: "inodes s a = Some i"
    and f: "f_priv f = None" "f_inode f = None \<longrightarrow> f = closed_file" "\<forall>b. f_inode f = Some b \<longrightarrow> b = a"
    and old: "\<forall>b. f_inode (fl_files s ! n) = Some b \<longrightarrow> b = a"
    and c: "c = i_crefs i - (if f_inode (fl_files s ! n) = None then 0 else 1) + (if f_inode f = None then 0 else 1)"
  shows "vfs_inv (s\<lparr>inodes := (inodes s)(a \<mapsto> i\<lparr>i_crefs := c\<rparr>), fl_files := (fl_files s)[n := f], drv := d\<rparr>) ts"
proof -
  let ?s' = "s\<lparr>inodes := (inodes s)(a \<mapsto> i\<lparr>i_crefs := c\<rparr>), fl_files := (fl_files s)[n := f], drv := d\<rparr>"
  have I: "wf_tree s ts" "tree_unlocked s" "files_ok s" "inodes_ok s" using inv by (simp_all add: vfs_inv_def)
  have len: "n < length (fl_files s)" using n I(3) by (simp add: files_ok_def)
  have "wf_tree ?s' ts"
    using wf_tree_update [OF I(1) a, of "i\<lparr>i_crefs := c\<rparr>"] by (simp add: wf_tree_def)
  moreover have "tree_unlocked ?s'" using I(2) by (simp add: tree_unlocked_def)
  moreover have "files_ok ?s'"
    using I(3) f a by (auto simp: files_ok_def dest!: subsetD [OF set_update_subset_insert])
  moreover have "inodes_ok ?s'"
    using I(4) a c f(3) old refs_update [OF len, of f]
    by (cases "f_inode f"; cases "f_inode (fl_files s ! n)") (auto simp: inodes_ok_def live_def)
  ultimately show ?thesis by (simp add: vfs_inv_def)
qed

lemma opened_inv:
  assumes "vfs_inv s ts" "allocate_loop 0 (fl_files s) = Some n" "inodes s a = Some i"
  shows "vfs_inv (opened n a oflags i d s) ts"
proof -
  note fr = free_entry [of s n]
  show ?thesis unfolding opened_def
    by (rule vfs_inv_entry [OF assms(1) _ assms(3)])
       (use assms fr in \<open>auto simp: vfs_inv_def closed_file_def\<close>)
qed

lemma closed_inv:
  assumes "vfs_inv s ts" "n < CONFIG_NFILE_DESCRIPTORS" "f_inode (fl_files s ! n) = Some a" "inodes s a = Some i"
  shows "vfs_inv (closed n a i d s) ts"
  unfolding closed_def
  by (rule vfs_inv_entry [OF assms(1,2,4)]) (use assms(3) in \<open>auto simp: closed_file_def\<close>)

text \<open>A path is served here when it names nothing, or a character driver.\<close>

definition chr_path :: "tree list \<Rightarrow> 'd vfs \<Rightarrow> string \<Rightarrow> bool" where
  "chr_path ts s pth \<longleftrightarrow> good_path pth \<and>
     (\<forall>a i. tfind ts pth = Some a \<and> inodes s a = Some i \<longrightarrow> INODE_IS_TYPE i FSNODEFLAG_TYPE_DRIVER)"

inductive vfs_step :: "'d proxy \<Rightarrow> tree list \<Rightarrow> 'd vfs \<Rightarrow> 'd vfs \<Rightarrow> bool" for bp ts where
  Vfs_open: "chr_path ts s pth \<Longrightarrow> open_call bp (Some pth) oflags s = Some (r, s') \<Longrightarrow> vfs_step bp ts s s'"
| Vfs_close: "close_call fd s = Some (r, s') \<Longrightarrow> vfs_step bp ts s s'"
| Vfs_ioctl: "ioctl_call fd req arg s = Some (r, arg', s') \<Longrightarrow> vfs_step bp ts s s'"
| Vfs_read: "read_call fd n s = Some (r, bs, s') \<Longrightarrow> vfs_step bp ts s s'"
| Vfs_write: "write_call fd buf s = Some (r, s') \<Longrightarrow> vfs_step bp ts s s'"

inductive vfs_reach :: "'d proxy \<Rightarrow> tree list \<Rightarrow> 'd vfs \<Rightarrow> 'd vfs \<Rightarrow> bool" for bp ts where
  Vfs_init: "vfs_reach bp ts s s"
| Vfs_step: "vfs_reach bp ts s t \<Longrightarrow> vfs_step bp ts t u \<Longrightarrow> vfs_reach bp ts s u"

lemma open_call_inv:
  assumes inv: "vfs_inv s ts" and pth: "chr_path ts s pth" and o: "open_call bp (Some pth) oflags s = Some (r, s')"
  shows "vfs_inv s' ts"
proof -
  have g: "good_path pth" using pth by (simp add: chr_path_def)
  obtain fd t where v: "nx_vopen bp (Some pth) oflags s = Some (fd, t)" "vfs_inv t ts \<Longrightarrow> vfs_inv s' ts"
    using o by (auto simp: open_call_def bind_eq_Some_conv_ex split: if_splits)
  have "vfs_inv t ts"
  proof (cases "tfind ts pth")
    case None
    then show ?thesis using nx_vopen_missing [OF inv g] v(1) inv by simp
  next
    case (Some a)
    then obtain i where i: "inodes s a = Some i" "INODE_IS_TYPE i FSNODEFLAG_TYPE_DRIVER"
      using tfind_inode [of s ts pth a] inv pth by (auto simp: vfs_inv_def chr_path_def)
    show ?thesis
    proof (cases "\<exists>ops. i_ops i = Some ops \<and> inode_checkflags ops oflags = OK")
      case False
      then show ?thesis using nx_vopen_refused [OF inv g Some i] v(1) inv by auto
    next
      case True
      then obtain ops where "i_ops i = Some ops" "inode_checkflags ops oflags = OK" by blast
      from nx_vopen_driver [OF inv g Some i this, of bp] v(1) show ?thesis
        using inv opened_inv [OF inv _ i(1)] by (auto split: option.splits if_splits)
    qed
  qed
  then show ?thesis by (rule v(2))
qed

lemma close_call_inv:
  assumes inv: "vfs_inv s ts" and c: "close_call fd s = Some (r, s')"
  shows "vfs_inv s' ts"
proof (cases "fd < 0 \<or> fd \<ge> 8 \<or> f_inode (fl_files s ! nat fd) = None")
  case True
  then have "\<exists>e. s' = s\<lparr>errno := e\<rparr>" using c by (auto simp: close_call_def files_close_def split: if_splits)
  then show ?thesis using inv by auto
next
  case False
  then obtain n a where n: "fd = int n" "n < 8" "f_inode (fl_files s ! n) = Some a"
    by (metis int_nat_eq linorder_not_le nat_less_iff not_None_eq of_nat_numeral)
  obtain i where i: "inodes s a = Some i" by (rule open_file_counted [OF inv n(2,3)])
  show ?thesis
    using close_call_eq [OF inv n(2,3) i] c n(1) closed_inv [OF inv n(2,3) i]
    by (auto split: option.splits if_splits)
qed

lemma vfs_step_inv: "vfs_step bp ts s t \<Longrightarrow> vfs_inv s ts \<Longrightarrow> vfs_inv t ts"
  by (induction rule: vfs_step.induct)
     (blast intro: open_call_inv close_call_inv env_only_inv ioctl_env read_env write_env)+

lemma vfs_reach_inv: "vfs_reach bp ts s t \<Longrightarrow> vfs_inv s ts \<Longrightarrow> vfs_inv t ts"
  by (induction rule: vfs_reach.induct) (auto intro: vfs_step_inv)

section \<open>Properties\<close>

text \<open>The table a program sees: for each descriptor the access mode and the inode behind it.\<close>

definition abs_files :: "'d vfs \<Rightarrow> (int \<times> nat) option list" where
  "abs_files s = map (\<lambda>f. map_option (Pair (f_oflags f)) (f_inode f)) (fl_files s)"

text \<open>The specification: open takes the lowest free descriptor, close frees one.\<close>

definition spec_open :: "(int \<times> nat) option list \<Rightarrow> int \<Rightarrow> nat \<Rightarrow> (nat \<times> (int \<times> nat) option list) option" where
  "spec_open tab oflags a =
     (if None \<in> set tab then let n = length (takeWhile (\<lambda>e. e \<noteq> None) tab) in Some (n, tab[n := Some (oflags, a)])
      else None)"

definition spec_close :: "(int \<times> nat) option list \<Rightarrow> nat \<Rightarrow> (int \<times> nat) option list" where
  "spec_close tab n = tab[n := None]"

lemma allocate_takeWhile:
  "allocate_loop i fs =
     (if \<exists>f \<in> set fs. f_inode f = None then Some (i + length (takeWhile (\<lambda>f. f_inode f \<noteq> None) fs)) else None)"
  by (induction i fs rule: allocate_loop.induct) auto

lemma spec_open_abs:
  "spec_open (abs_files s) oflags a =
     map_option (\<lambda>n. (n, abs_files (opened n a oflags i d s))) (allocate_loop 0 (fl_files s))"
proof -
  have "length (takeWhile (\<lambda>e. e \<noteq> None) (map (\<lambda>f. map_option (Pair (f_oflags f)) (f_inode f)) fs)) =
      length (takeWhile (\<lambda>f. f_inode f \<noteq> None) fs)" for fs
    by (induction fs) auto
  then show ?thesis
    by (auto simp: spec_open_def abs_files_def allocate_takeWhile opened_def map_update image_iff Let_def
        simp del: not_None_eq split_paired_Ex)
qed

lemma abs_files_env [simp]:
  "abs_files (s\<lparr>errno := e\<rparr>) = abs_files s" "abs_files (s\<lparr>drv := d\<rparr>) = abs_files s"
  by (simp_all add: abs_files_def)

lemma driver_close_crefs [simp]: "driver_close (i\<lparr>i_crefs := c\<rparr>) f d = driver_close i f d"
  by (simp add: driver_close_def split: option.split)

text \<open>C35: Opening a character driver and closing it refine a plain descriptor table: open answers
  the lowest free descriptor and enters the driver there, or fails when there is none or when
  the driver refuses; close empties the entry and gives the inode back whatever the driver
  answers.\<close>

theorem open_close_refine_table:
  assumes inv: "vfs_inv s ts" and pth: "good_path pth" "tfind ts pth = Some a" and i: "inodes s a = Some i"
    and drv: "INODE_IS_TYPE i FSNODEFLAG_TYPE_DRIVER" "i_ops i = Some ops" "inode_checkflags ops oflags = OK"
    and m: "driver_open ops (file_of oflags a) (i_private i) (drv s) = Some (r, d)"
      "driver_close i (file_of oflags a) d = Some (rc, d2)"
  shows "\<exists>fd s'. open_call bp (Some pth) oflags s = Some (fd, s') \<and>
     (case spec_open (abs_files s) oflags a of
        None \<Rightarrow> fd = - 1 \<and> errno s' = EMFILE \<and> abs_files s' = abs_files s \<and> drv s' = drv s
      | Some (n, tab) \<Rightarrow>
          if r < 0 then fd = - 1 \<and> errno s' = - r \<and> abs_files s' = abs_files s \<and> drv s' = d
          else fd = int n \<and> abs_files s' = tab \<and> drv s' = d \<and>
               (\<exists>s''. close_call fd s' = Some (if rc < 0 then - 1 else 0, s'') \<and>
                       abs_files s'' = spec_close tab n \<and> drv s'' = d2 \<and> inodes s'' = inodes s))"
proof (cases "allocate_loop 0 (fl_files s)")
  case None
  then show ?thesis
    using nx_vopen_driver [OF inv pth i drv, of bp] spec_open_abs [of s oflags a i d] by (simp add: open_call_def)
next
  case (Some n)
  have nx: "nx_vopen bp (Some pth) oflags s = Some (if r < 0 then (r, s\<lparr>drv := d\<rparr>) else (int n, opened n a oflags i d s))"
    using nx_vopen_driver [OF inv pth i drv, of bp] Some m by simp
  let ?s' = "opened n a oflags i d s"
  have n: "n < 8" using free_entry [of s n] inv Some by (auto simp: vfs_inv_def)
  moreover have fs: "fl_files ?s' = (fl_files s)[n := file_of oflags a]" "length (fl_files s) = 8" "drv ?s' = d"
    using inv by (simp_all add: opened_def vfs_inv_def files_ok_def)
  moreover have "inodes ?s' a = Some (i\<lparr>i_crefs := i_crefs i + 1\<rparr>)" by (simp add: opened_def)
  ultimately have cl: "close_call (int n) ?s' =
      Some (if rc < 0 then (- 1, (closed n a (i\<lparr>i_crefs := i_crefs i + 1\<rparr>) d2 ?s')\<lparr>errno := - rc\<rparr>)
            else (0, closed n a (i\<lparr>i_crefs := i_crefs i + 1\<rparr>) d2 ?s'))"
    using close_call_eq [OF opened_inv [OF inv Some i, of oflags d], where n = n and a = a] m(2) by simp
  have "inodes (closed n a (i\<lparr>i_crefs := i_crefs i + 1\<rparr>) d2 ?s') = inodes s"
    using i by (simp add: closed_def opened_def fun_upd_idem)
  moreover have "abs_files (closed n a (i\<lparr>i_crefs := i_crefs i + 1\<rparr>) d2 ?s') = spec_close (abs_files ?s') n"
    by (simp add: abs_files_def spec_close_def closed_def closed_file_def map_update)
  ultimately show ?thesis
    using nx cl Some spec_open_abs [of s oflags a i d]
    by (cases "r < 0") (auto simp: open_call_def opened_def closed_def)
qed

text \<open>A device that counts its open files, and a task that may open it.\<close>

definition counter_fops :: "nat file_operations" where
  "counter_fops = \<lparr>fop_open = Some (\<lambda>_ _ _ n. Some (OK, n + 1)), fop_close = Some (\<lambda>_ _ n. Some (OK, n - 1)),
     fop_read = Some (\<lambda>_ _ _ n. Some (0, [], n)), fop_write = None, fop_ioctl = None\<rparr>"

definition counter_inode :: "nat inode_s" where
  "counter_inode = (blank ''console'' None)\<lparr>i_ops := Some counter_fops\<rparr>"

definition counter_vfs :: "nat vfs" where
  "counter_vfs = \<lparr>inodes = [0 \<mapsto> (blank ''dev'' None)\<lparr>i_child := Some 1\<rparr>, 1 \<mapsto> counter_inode],
     g_root_inode = Some 0, g_inode_sem = \<lparr>isem = \<lparr>semcount = 1, wakes = []\<rparr>, holder = NO_HOLDER, hcount = 0\<rparr>,
     brk = 2, oom = (\<lambda>_. False), mypid = 3, drv = 0, fl_sem = \<lparr>semcount = 1, wakes = []\<rparr>,
     fl_files = replicate 8 closed_file, errno = 0\<rparr>"

lemma counter_vfs_ok:
  "vfs_inv counter_vfs console_tree" "good_path ''/dev/console''" "tfind console_tree ''/dev/console'' = Some 1"
  "inodes counter_vfs 1 = Some counter_inode" "INODE_IS_TYPE counter_inode FSNODEFLAG_TYPE_DRIVER"
  "i_ops counter_inode = Some counter_fops" "inode_checkflags counter_fops O_RDONLY = OK"
proof -
  show "vfs_inv counter_vfs console_tree"
    by (auto simp: counter_vfs_def counter_inode_def console_tree_def vfs_inv_def wf_tree_def tree_unlocked_def files_ok_def
        inodes_ok_def live_def refs_def blank_def inode_namecpy_def INODE_IS_TYPE_def closed_file_def split: if_splits)
  show "good_path ''/dev/console''" "tfind console_tree ''/dev/console'' = Some 1" by code_simp+
qed (simp_all add: counter_vfs_def counter_inode_def blank_def INODE_IS_TYPE_def inode_checkflags_def counter_fops_def)

theorem open_close_refine_table_witness:
  "\<exists>fd s'. open_call (\<lambda>_ _ s. Some (- 1, s)) (Some ''/dev/console'') O_RDONLY counter_vfs = Some (fd, s') \<and>
     (case spec_open (abs_files counter_vfs) O_RDONLY 1 of
        None \<Rightarrow> fd = - 1 \<and> errno s' = EMFILE \<and> abs_files s' = abs_files counter_vfs \<and> drv s' = drv counter_vfs
      | Some (n, tab) \<Rightarrow>
          if (0 :: int) < 0 then fd = - 1 \<and> errno s' = - 0 \<and> abs_files s' = abs_files counter_vfs \<and> drv s' = 1
          else fd = int n \<and> abs_files s' = tab \<and> drv s' = 1 \<and>
               (\<exists>s''. close_call fd s' = Some (if (0 :: int) < 0 then - 1 else 0, s'') \<and>
                       abs_files s'' = spec_close tab n \<and> drv s'' = 0 \<and> inodes s'' = inodes counter_vfs))"
  by (rule open_close_refine_table [OF counter_vfs_ok])
     (simp_all add: driver_open_def driver_close_def counter_vfs_def counter_fops_def counter_inode_def)

text \<open>An open that fails leaks nothing: apart from the error number and what the driver itself
  did, the task, the file table and every reference count are as before.\<close>

theorem failed_open_leaks_nothing:
  assumes inv: "vfs_inv s ts" and pth: "chr_path ts s pth"
    and o: "open_call bp (Some pth) oflags s = Some (fd, s')" and bad: "fd < 0"
  shows "fd = - 1 \<and> s' = s\<lparr>drv := drv s', errno := errno s'\<rparr> \<and> errno s' > 0"
proof -
  have g: "good_path pth" using pth by (simp add: chr_path_def)
  obtain e t where v: "nx_vopen bp (Some pth) oflags s = Some (e, t)" "e < 0" "s' = t\<lparr>errno := - e\<rparr>" "fd = - 1"
  proof (cases "nx_vopen bp (Some pth) oflags s")
    case None
    then show thesis using o by (simp add: open_call_def)
  next
    case (Some x)
    then show thesis using o bad that [of "fst x" "snd x"] by (cases x) (simp add: open_call_def split: if_splits)
  qed
  have "\<exists>d. t = s\<lparr>drv := d\<rparr>"
  proof (cases "tfind ts pth")
    case None
    then show ?thesis using nx_vopen_missing [OF inv g] v(1) by (intro exI [of _ "drv s"]) simp
  next
    case (Some a)
    then obtain i where i: "inodes s a = Some i" "INODE_IS_TYPE i FSNODEFLAG_TYPE_DRIVER"
      using tfind_inode [of s ts pth a] inv pth by (auto simp: vfs_inv_def chr_path_def)
    show ?thesis
    proof (cases "\<exists>ops. i_ops i = Some ops \<and> inode_checkflags ops oflags = OK")
      case False
      then show ?thesis using nx_vopen_refused [OF inv g Some i] v(1) by (intro exI [of _ "drv s"]) auto
    next
      case True
      then obtain ops where "i_ops i = Some ops" "inode_checkflags ops oflags = OK" by blast
      from nx_vopen_driver [OF inv g Some i this, of bp] v(1,2) show ?thesis
        by (auto split: option.splits if_splits intro: exI [of _ "drv s"])
    qed
  qed
  then show ?thesis using v by auto
qed

theorem failed_open_leaks_nothing_witness:
  "\<exists>s'. open_call (\<lambda>_ _ s. Some (- 1, s)) (Some ''/dev/null'') O_RDONLY counter_vfs = Some (- 1, s') \<and>
     ((- 1 :: int) = - 1 \<and> s' = counter_vfs\<lparr>drv := drv s', errno := errno s'\<rparr> \<and> errno s' > 0)"
proof -
  have m: "good_path ''/dev/null''" "tfind console_tree ''/dev/null'' = None" by code_simp+
  then have c: "chr_path console_tree counter_vfs ''/dev/null''" by (simp add: chr_path_def)
  have o: "open_call (\<lambda>_ _ s. Some (- 1, s)) (Some ''/dev/null'') O_RDONLY counter_vfs =
      Some (- 1, counter_vfs\<lparr>errno := ENOENT\<rparr>)"
    using nx_vopen_missing [OF counter_vfs_ok(1) m] by (simp add: open_call_def)
  show ?thesis using failed_open_leaks_nothing [OF counter_vfs_ok(1) c o] o by auto
qed

text \<open>C36: In every state that calls of the task can reach, the reference count of each inode is the
  number of the task's open files on it, every open file has an inode in memory, and the inode
  tree is well formed and unlocked.\<close>

theorem reference_counts_exact:
  assumes "vfs_inv s ts" "vfs_reach bp ts s t"
  shows "wf_tree t ts \<and> tree_unlocked t \<and> length (fl_files t) = CONFIG_NFILE_DESCRIPTORS \<and>
     (\<forall>f \<in> set (fl_files t). \<forall>a. f_inode f = Some a \<longrightarrow> inodes t a \<noteq> None) \<and>
     (\<forall>a i. inodes t a = Some i \<longrightarrow> i_crefs i = int (length (filter (\<lambda>f. f_inode f = Some a) (fl_files t))))"
  using vfs_reach_inv [OF assms(2,1)] by (simp add: vfs_inv_def files_ok_def inodes_ok_def refs_def)

theorem reference_counts_exact_witness:
  "\<exists>t. vfs_reach (\<lambda>_ _ s. Some (- 1, s)) console_tree counter_vfs t \<and> drv t = 1 \<and>
     (wf_tree t console_tree \<and> tree_unlocked t \<and> length (fl_files t) = CONFIG_NFILE_DESCRIPTORS \<and>
     (\<forall>f \<in> set (fl_files t). \<forall>a. f_inode f = Some a \<longrightarrow> inodes t a \<noteq> None) \<and>
     (\<forall>a i. inodes t a = Some i \<longrightarrow> i_crefs i = int (length (filter (\<lambda>f. f_inode f = Some a) (fl_files t)))))"
proof -
  let ?bp = "\<lambda>_ _ s. Some (- 1 :: int, s :: nat vfs)"
  let ?t = "opened 0 1 O_RDONLY counter_inode 1 counter_vfs"
  have al: "allocate_loop 0 (fl_files counter_vfs) = Some 0" by (simp add: counter_vfs_def closed_file_def numeral_eq_Suc)
  have "open_call ?bp (Some ''/dev/console'') O_RDONLY counter_vfs = Some (0, ?t)"
    using nx_vopen_driver [OF counter_vfs_ok, of ?bp] al
    by (simp add: open_call_def driver_open_def counter_fops_def counter_vfs_def)
  moreover have "chr_path console_tree counter_vfs ''/dev/console''"
    using counter_vfs_ok by (simp add: chr_path_def)
  ultimately have r: "vfs_reach ?bp console_tree counter_vfs ?t"
    by (blast intro: vfs_reach.intros vfs_step.intros)
  show ?thesis
    by (rule exI [of _ ?t], rule conjI [OF r conjI [OF _ reference_counts_exact [OF counter_vfs_ok(1) r]]])
       (simp add: opened_def)
qed

end
