(* ===== verification/Char_Device.thy ===== *)
theory Char_Device
  imports Vfs_Laws
begin

text \<open>
  A character driver seen through the system calls.  The locale \<^verbatim>\<open>char_driver\<close> is a driver whose
  method table gives open, close and ioctl; the calls of a program on its device then are the
  methods of the driver, and the file system keeps its invariant.  The PWM and I2C drivers
  interpret it.
\<close>

text \<open>A driver with the given methods and private data is registered under a path.\<close>

definition char_dev :: "'d file_operations \<Rightarrow> string \<Rightarrow> 'd vfs \<Rightarrow> tree list \<Rightarrow> nat \<Rightarrow> nat \<Rightarrow> bool" where
  "char_dev fops pth s ts a p \<longleftrightarrow> good_path pth \<and> vfs_inv s ts \<and> tfind ts pth = Some a \<and>
     (\<exists>i. inodes s a = Some i \<and> INODE_IS_TYPE i FSNODEFLAG_TYPE_DRIVER \<and> i_ops i = Some fops \<and> i_private i = p)"

lemma char_devE:
  assumes "char_dev fops pth s ts a p"
  obtains i where "good_path pth" "vfs_inv s ts" "tfind ts pth = Some a" "inodes s a = Some i"
    "INODE_IS_TYPE i FSNODEFLAG_TYPE_DRIVER" "i_ops i = Some fops" "i_private i = p"
  using assms unfolding char_dev_def by blast

lemma char_dev_drv [simp]: "char_dev fops pth (s\<lparr>drv := d\<rparr>) ts a p = char_dev fops pth s ts a p"
  by (simp add: char_dev_def)

locale char_driver =
  fixes fops :: "'d file_operations"
    and dopen dclose :: "nat \<Rightarrow> 'd \<Rightarrow> (int \<times> 'd) option"
    and dioctl :: "nat \<Rightarrow> int \<Rightarrow> ioctl_arg \<Rightarrow> 'd \<Rightarrow> (int \<times> ioctl_arg \<times> 'd) option"
  assumes sel: "fop_open fops = Some (\<lambda>_ _. dopen)" "fop_close fops = Some (\<lambda>_. dclose)" "fop_ioctl fops = Some (\<lambda>_. dioctl)"
    and rw: "fop_read fops \<noteq> None" "fop_write fops \<noteq> None"
begin

lemma checkflags: "inode_checkflags fops oflags = OK"
  using sel rw by (auto simp: inode_checkflags_def)

lemma device_open:
  assumes c: "char_dev fops pth s ts a p" and free: "allocate_loop 0 (fl_files s) = Some n"
    and o: "dopen p (drv s) = Some (r, d)" "0 \<le> r"
  obtains s' where "open_call bp (Some pth) oflags s = Some (int n, s')" "char_dev fops pth s' ts a p"
    "drv s' = d" "n < CONFIG_NFILE_DESCRIPTORS" "f_inode (fl_files s' ! n) = Some a"
proof -
  obtain i where i: "good_path pth" "vfs_inv s ts" "tfind ts pth = Some a" "inodes s a = Some i"
    "INODE_IS_TYPE i FSNODEFLAG_TYPE_DRIVER" "i_ops i = Some fops" "i_private i = p" by (rule char_devE [OF c])
  let ?s' = "opened n a oflags i d s"
  have "nx_vopen bp (Some pth) oflags s = Some (int n, ?s')"
    using nx_vopen_driver [OF i(2,1,3-6) checkflags] free o i(7) sel(1) by (simp add: driver_open_def)
  then have op: "open_call bp (Some pth) oflags s = Some (int n, ?s')" by (simp add: open_call_def)
  have n: "n < 8" "length (fl_files s) = 8"
    using free_entry(1) [of s n] free i(2) by (auto simp: vfs_inv_def files_ok_def)
  have "char_dev fops pth ?s' ts a p"
    using opened_inv [OF i(2) free i(4)] i(1,3,5-7) by (simp add: char_dev_def opened_def)
  then show thesis using that [OF op] n by (simp add: opened_def)
qed

lemma device_open_refused:
  assumes c: "char_dev fops pth s ts a p" and free: "allocate_loop 0 (fl_files s) = Some n"
    and o: "dopen p (drv s) = Some (r, d)" "r < 0"
  shows "open_call bp (Some pth) oflags s = Some (ERROR, s\<lparr>drv := d, errno := - r\<rparr>)"
proof -
  obtain i where i: "good_path pth" "vfs_inv s ts" "tfind ts pth = Some a" "inodes s a = Some i"
    "INODE_IS_TYPE i FSNODEFLAG_TYPE_DRIVER" "i_ops i = Some fops" "i_private i = p" by (rule char_devE [OF c])
  have "nx_vopen bp (Some pth) oflags s = Some (r, s\<lparr>drv := d\<rparr>)"
    using nx_vopen_driver [OF i(2,1,3-6) checkflags] free o i(7) sel(1) by (simp add: driver_open_def)
  then show ?thesis using o(2) by (simp add: open_call_def)
qed

lemma device_ioctl:
  assumes c: "char_dev fops pth s ts a p" and n: "n < CONFIG_NFILE_DESCRIPTORS" "f_inode (fl_files s ! n) = Some a"
    and io: "dioctl p cmd arg (drv s) = Some (r, arg', d)"
  shows "ioctl_call (int n) cmd arg s =
    Some (if r < 0 then (ERROR, arg', s\<lparr>drv := d, errno := - r\<rparr>) else (r, arg', s\<lparr>drv := d\<rparr>))"
proof -
  obtain i where "inodes s a = Some i" "i_ops i = Some fops" "i_private i = p" by (rule char_devE [OF c])
  then show ?thesis using n io sel(3) by (simp add: ioctl_call_def fs_getfilep_def file_ioctl_def)
qed

lemma device_close:
  assumes c: "char_dev fops pth s ts a p" and n: "n < CONFIG_NFILE_DESCRIPTORS" "f_inode (fl_files s ! n) = Some a"
    and cl: "dclose p (drv s) = Some (r, d)" "0 \<le> r"
  obtains s' where "close_call (int n) s = Some (0, s')" "char_dev fops pth s' ts a p" "drv s' = d"
    "allocate_loop 0 (fl_files s') \<noteq> None"
proof -
  obtain i where i: "good_path pth" "vfs_inv s ts" "tfind ts pth = Some a" "inodes s a = Some i"
    "INODE_IS_TYPE i FSNODEFLAG_TYPE_DRIVER" "i_ops i = Some fops" "i_private i = p" by (rule char_devE [OF c])
  let ?s' = "closed n a i d s"
  have op: "close_call (int n) s = Some (0, ?s')"
    using close_call_eq [OF i(2) n i(4)] cl i(6,7) sel(2) by (simp add: driver_close_def)
  have len: "n < length (fl_files s)" using n i(2) by (simp add: vfs_inv_def files_ok_def)
  have "char_dev fops pth ?s' ts a p"
    using closed_inv [OF i(2) n i(4)] i(1,3,5-7) by (simp add: char_dev_def closed_def)
  moreover have "closed_file \<in> set ((fl_files s)[n := closed_file])" using len by (rule set_update_memI)
  then have "allocate_loop 0 (fl_files ?s') \<noteq> None"
    unfolding allocate_loop_None by (fastforce simp: closed_def closed_file_def)
  ultimately show thesis using that [OF op] by (simp add: closed_def)
qed

end

section \<open>Registration\<close>

lemma register_vfs:
  assumes inv: "vfs_inv s ts" and mem: "\<forall>n. \<not> oom s n" and pth: "good_path pth" "tfind ts pth = None"
  obtains s' a i where "register_driver pth fops priv s = Some (OK, s')"
    "vfs_inv s' (tinsert ts (skip_slashes pth) (brk s))"
    "tfind (tinsert ts (skip_slashes pth) (brk s)) pth = Some a" "inodes s' a = Some i"
    "i_ops i = Some fops" "i_private i = priv" "i_flags i = 0" "drv s' = drv s" "fl_files s' = fl_files s" "oom s' = oom s"
proof -
  let ?ts' = "tinsert ts (skip_slashes pth) (brk s)"
  have I: "wf_tree s ts" "tree_unlocked s" "files_ok s" "inodes_ok s" using inv by (simp_all add: vfs_inv_def)
  obtain s' a i where r: "register_driver pth fops priv s = Some (OK, s')" "wf_tree s' ?ts'" "tree_unlocked s'"
    "tfind ?ts' pth = Some a" "inodes s' a = Some i" "i_ops i = Some fops" "i_private i = priv" "i_flags i = 0"
    "\<And>b. b < brk s \<Longrightarrow> same_data (inodes s' b) (inodes s b)"
    "s' = s\<lparr>brk := brk s', inodes := inodes s', g_root_inode := g_root_inode s'\<rparr>"
    "\<And>b j. brk s \<le> b \<Longrightarrow> inodes s' b = Some j \<Longrightarrow> i_crefs j = 0 \<and> i_flags j = 0"
    by (rule register_driver_ok [OF I(1) mem I(2) pth]) (rule that)
  have fl: "fl_files s' = fl_files s" "fl_sem s' = fl_sem s" "drv s' = drv s" "oom s' = oom s"
    by (subst r(10), simp)+
  have ex: "inodes s b \<noteq> None \<Longrightarrow> b < brk s" for b using I(1) by (auto simp: wf_tree_def)
  have "inodes s' b \<noteq> None" if "inodes s b \<noteq> None" for b
    using r(9) [OF ex [OF that]] that by (auto simp: same_data_def split: option.splits)
  then have "files_ok s'" using I(3) fl(1,2) unfolding files_ok_def by simp
  moreover have "inodes_ok s'" unfolding inodes_ok_def
  proof (intro allI impI)
    fix b j assume j: "inodes s' b = Some j"
    show "live j \<and> i_crefs j = int (refs (fl_files s') b)"
    proof (cases "b < brk s")
      case True
      then obtain j0 where "inodes s b = Some j0" "i_crefs j = i_crefs j0" "i_flags j = i_flags j0"
        using r(9) [OF True] j by (auto simp: same_data_def split: option.splits)
      then show ?thesis using I(4) fl by (auto simp: inodes_ok_def live_def)
    next
      case False
      then have "\<forall>f \<in> set (fl_files s). f_inode f \<noteq> Some b" using I(3) ex by (auto simp: files_ok_def)
      then have "refs (fl_files s) b = 0" by (auto simp: refs_def filter_empty_conv)
      then show ?thesis using r(11) [of b j] False j fl by (simp add: live_def)
    qed
  qed
  ultimately have "vfs_inv s' ?ts'" using r(2,3) by (simp add: vfs_inv_def)
  then show thesis using that r fl by blast
qed

end
