(* ===== verification/Board.thy ===== *)
theory Board
  imports Pwm_Output Char_Device
begin

text \<open>
  The PWM driver as a character device of the board: the method table of
  \<^verbatim>\<open>drivers/pwm/pwm.c\<close>, its registration (\<^verbatim>\<open>pwm_register\<close>) and the board's
  \<^verbatim>\<open>stm32_pwm_setup\<close>.  The device state that the methods work on is a record: the upper half
  structures by address (the private data of an inode is such an address) and the one lower half
  with the microcontroller behind it.  It is extensible for the other devices of the board.
\<close>

section \<open>Model\<close>

record board =
  uppers :: "nat \<Rightarrow> pwm_upperhalf_s option"
  hw :: stm32_hw

text \<open>A method on the upper half structure that the inode points to.\<close>

definition on_upper ::
  "nat \<Rightarrow> (pwm_upperhalf_s \<Rightarrow> stm32_hw \<Rightarrow> (int \<times> pwm_upperhalf_s \<times> stm32_hw) option) \<Rightarrow>
   'z board_scheme \<Rightarrow> (int \<times> 'z board_scheme) option" where
  "on_upper p f b = do {
     u \<leftarrow> uppers b p;
     (ret, u, h) \<leftarrow> f u (hw b);
     Some (ret, b\<lparr>uppers := (uppers b)(p \<mapsto> u), hw := h\<rparr>)
   }"

definition pwm_fops_ioctl ::
  "nat \<Rightarrow> int \<Rightarrow> ioctl_arg \<Rightarrow> 'z board_scheme \<Rightarrow> (int \<times> ioctl_arg \<times> 'z board_scheme) option" where
  "pwm_fops_ioctl p cmd arg b = do {
     u \<leftarrow> uppers b p;
     (ret, arg, u, h) \<leftarrow> pwm_upper_ioctl g_pwmops cmd arg u (hw b);
     Some (ret, arg, b\<lparr>uppers := (uppers b)(p \<mapsto> u), hw := h\<rparr>)
   }"

definition pwm_fops :: "'z board_scheme file_operations" where
  "pwm_fops =
     \<lparr>fop_open = Some (\<lambda>_ _ p. on_upper p (pwm_open g_pwmops)),
      fop_close = Some (\<lambda>_ p. on_upper p (pwm_close g_pwmops)),
      fop_read = Some (\<lambda>_ _ n b. Some (pwm_read [] n, [], b)),
      fop_write = Some (\<lambda>_ _ buf b. Some (pwm_write buf (length buf), b)),
      fop_ioctl = Some (\<lambda>_ p. pwm_fops_ioctl p)\<rparr>"

text \<open>The upper half structure comes from the kernel heap; it stays allocated when the registration
  fails.  ws is the future of the device semaphore.\<close>

definition pwm_register ::
  "string \<Rightarrow> int list \<Rightarrow> ('z board_scheme, 'y) fs_scheme \<Rightarrow> (int \<times> ('z board_scheme, 'y) fs_scheme) option" where
  "pwm_register pth ws s =
     (if oom s (brk s) then Some (- ENOMEM, s\<lparr>brk := brk s + 1\<rparr>)
      else
        let upper = brk s;
            s = s\<lparr>brk := brk s + 1, drv := (drv s)\<lparr>uppers := (uppers (drv s))(upper \<mapsto> pwm_upper_init ws)\<rparr>\<rparr>
        in register_driver pth pwm_fops upper s)"

abbreviation (input) PWM_TIMER :: int where "PWM_TIMER \<equiv> 2"
abbreviation motor_path :: string where "motor_path \<equiv> ''/dev/pwm_out_motor_0''"

definition stm32_pwm_setup ::
  "int list \<Rightarrow> ('z board_scheme, 'y) fs_scheme \<Rightarrow> (int \<times> ('z board_scheme, 'y) fs_scheme) option" where
  "stm32_pwm_setup ws s =
     (case stm32_pwminitialize PWM_TIMER of
        None \<Rightarrow> Some (ENODEV, s)
      | Some _ \<Rightarrow> do {
          (ret, s) \<leftarrow> pwm_register motor_path ws s;
          Some (if ret < 0 then ret else 0, s)
        })"

section \<open>The calls of a program on the motor device\<close>

interpretation pwmdev: char_driver "pwm_fops :: 'z board_scheme file_operations" "\<lambda>p. on_upper p (pwm_open g_pwmops)"
    "\<lambda>p. on_upper p (pwm_close g_pwmops)" pwm_fops_ioctl
  by unfold_locales (simp_all add: pwm_fops_def)

text \<open>The motor device of a task: which inode, which upper half, and in which state.\<close>

definition motor_dev ::
  "'z board_scheme vfs \<Rightarrow> tree list \<Rightarrow> nat \<Rightarrow> nat \<Rightarrow> pwm_upperhalf_s \<Rightarrow> bool" where
  "motor_dev s ts a p u \<longleftrightarrow> char_dev pwm_fops motor_path s ts a p \<and>
     uppers (drv s) p = Some u \<and> 0 < semcount (exclsem u) \<and> stm32_inv (hw (drv s))"

lemma good_motor_path [simp]: "good_path motor_path"
  by code_simp

lemma motor_devD:
  assumes "motor_dev s ts a p u"
  shows "char_dev pwm_fops motor_path s ts a p" "uppers (drv s) p = Some u"
  using assms by (simp_all add: motor_dev_def)

abbreviation set_dev :: "nat \<Rightarrow> pwm_upperhalf_s \<Rightarrow> stm32_hw \<Rightarrow> 'z board_scheme \<Rightarrow> 'z board_scheme" where
  "set_dev p u h b \<equiv> b\<lparr>uppers := (uppers b)(p \<mapsto> u), hw := h\<rparr>"

lemma motor_open_call:
  assumes md: "motor_dev s ts a p u" and free: "allocate_loop 0 (fl_files s) = Some n"
    and o: "pwm_open g_pwmops u (hw (drv s)) = Some (r, u', h')" "0 \<le> r"
    and u': "0 < semcount (exclsem u')" "stm32_inv h'"
  obtains s' where "open_call bp (Some motor_path) O_RDONLY s = Some (int n, s')" "motor_dev s' ts a p u'"
    "hw (drv s') = h'" "n < CONFIG_NFILE_DESCRIPTORS" "f_inode (fl_files s' ! n) = Some a"
proof -
  have "on_upper p (pwm_open g_pwmops) (drv s) = Some (r, set_dev p u' h' (drv s))"
    using motor_devD(2) [OF md] o(1) by (simp add: on_upper_def)
  then obtain s' where "open_call bp (Some motor_path) O_RDONLY s = Some (int n, s')"
    "char_dev pwm_fops motor_path s' ts a p" "drv s' = set_dev p u' h' (drv s)" "n < CONFIG_NFILE_DESCRIPTORS"
    "f_inode (fl_files s' ! n) = Some a"
    by (rule pwmdev.device_open [OF motor_devD(1) [OF md] free _ o(2)])
  then show thesis using that [of s'] u' by (simp add: motor_dev_def)
qed

lemma motor_ioctl_call:
  assumes md: "motor_dev s ts a p u" and n: "n < CONFIG_NFILE_DESCRIPTORS" "f_inode (fl_files s ! n) = Some a"
    and io: "pwm_upper_ioctl g_pwmops cmd arg u (hw (drv s)) = Some (r, arg', u', h')" "0 \<le> r"
    and u': "0 < semcount (exclsem u')" "stm32_inv h'"
  obtains s' where "ioctl_call (int n) cmd arg s = Some (r, arg', s')" "motor_dev s' ts a p u'" "hw (drv s') = h'"
    "fl_files s' = fl_files s"
proof -
  let ?s' = "s\<lparr>drv := set_dev p u' h' (drv s)\<rparr>"
  have "pwm_fops_ioctl p cmd arg (drv s) = Some (r, arg', set_dev p u' h' (drv s))"
    using motor_devD(2) [OF md] io(1) by (simp add: pwm_fops_ioctl_def)
  from pwmdev.device_ioctl [OF motor_devD(1) [OF md] n this] io(2)
  have "ioctl_call (int n) cmd arg s = Some (r, arg', ?s')" by simp
  then show thesis using that [of ?s'] md u' by (simp add: motor_dev_def)
qed

lemma motor_close_call:
  assumes md: "motor_dev s ts a p u" and n: "n < CONFIG_NFILE_DESCRIPTORS" "f_inode (fl_files s ! n) = Some a"
    and c: "pwm_close g_pwmops u (hw (drv s)) = Some (r, u', h')" "0 \<le> r"
    and u': "0 < semcount (exclsem u')" "stm32_inv h'"
  obtains s' where "close_call (int n) s = Some (0, s')" "motor_dev s' ts a p u'" "hw (drv s') = h'"
    "allocate_loop 0 (fl_files s') \<noteq> None"
proof -
  have "on_upper p (pwm_close g_pwmops) (drv s) = Some (r, set_dev p u' h' (drv s))"
    using motor_devD(2) [OF md] c(1) by (simp add: on_upper_def)
  then obtain s' where "close_call (int n) s = Some (0, s')" "char_dev pwm_fops motor_path s' ts a p"
    "drv s' = set_dev p u' h' (drv s)" "allocate_loop 0 (fl_files s') \<noteq> None"
    by (rule pwmdev.device_close [OF motor_devD(1) [OF md] n _ c(2)])
  then show thesis using that [of s'] u' by (simp add: motor_dev_def)
qed

section \<open>The port of one program\<close>

text \<open>The phases of a motor device that one program has open, and what the hardware does in each.\<close>

datatype phase = Ready | Loaded pwm_info_s | Running pwm_info_s | Stopped

definition phase_ok :: "phase \<Rightarrow> pwm_upperhalf_s \<Rightarrow> stm32_hw \<Rightarrow> bool" where
  "phase_ok ph u h \<longleftrightarrow>
     (case ph of
        Ready \<Rightarrow> \<not> started u \<and> stm32_quiet h \<and> pwm_mode1 h \<and> cur_frequency (dev h) = 0
      | Loaded i \<Rightarrow> \<not> started u \<and> stm32_quiet h \<and> pwm_mode1 h \<and> cur_frequency (dev h) = 0 \<and> info u = i \<and> info_valid i
      | Running i \<Rightarrow> started u \<and> outputs h i \<and> cur_frequency (dev h) = frequency i \<and> info u = i \<and> info_valid i
      | Stopped \<Rightarrow> \<not> started u \<and> stm32_quiet h)"

definition motor_port :: "'z board_scheme vfs \<Rightarrow> int \<Rightarrow> phase \<Rightarrow> bool" where
  "motor_port s fd ph \<longleftrightarrow>
     (\<exists>ts a p u n. fd = int n \<and> n < CONFIG_NFILE_DESCRIPTORS \<and> f_inode (fl_files s ! n) = Some a \<and>
        motor_dev s ts a p u \<and> crefs u = 1 \<and> phase_ok ph u (hw (drv s)))"

definition motor_idle :: "'z board_scheme vfs \<Rightarrow> bool" where
  "motor_idle s \<longleftrightarrow>
     (\<exists>ts a p u. motor_dev s ts a p u \<and> crefs u = 0 \<and> \<not> started u \<and> stm32_quiet (hw (drv s)) \<and>
        cur_frequency (dev (hw (drv s))) = 0 \<and> allocate_loop 0 (fl_files s) \<noteq> None)"

lemma motor_portE:
  assumes "motor_port s fd ph"
  obtains ts a p u n where "fd = int n" "n < CONFIG_NFILE_DESCRIPTORS" "f_inode (fl_files s ! n) = Some a"
    "motor_dev s ts a p u" "crefs u = 1" "phase_ok ph u (hw (drv s))" "0 < semcount (exclsem u)" "stm32_inv (hw (drv s))"
  using assms unfolding motor_port_def motor_dev_def by blast

lemma port_open:
  assumes "motor_idle s"
  shows "\<exists>fd s'. open_call bp (Some motor_path) O_RDONLY s = Some (fd, s') \<and> 0 \<le> fd \<and> motor_port s' fd Ready"
proof -
  obtain ts a p u n where i: "motor_dev s ts a p u" "crefs u = 0" "\<not> started u"
    "cur_frequency (dev (hw (drv s))) = 0" "allocate_loop 0 (fl_files s) = Some n"
    using assms unfolding motor_idle_def by blast
  then have u: "0 < semcount (exclsem u)" "stm32_inv (hw (drv s))" by (simp_all add: motor_dev_def)
  obtain h' where h': "op_setup g_pwmops (hw (drv s)) = Some (OK, h')" "stm32_inv h'" "stm32_quiet h'" "pwm_mode1 h'"
    "dev h' = dev (hw (drv s))" by (rule setup_mode1 [OF u(2)])
  have "pwm_open g_pwmops u (hw (drv s)) = Some (OK, u\<lparr>crefs := 1\<rparr>, h')"
    using i(2) u(1) h'(1) by (simp add: pwm_open_def Let_def del: g_pwmops_sel)
  then obtain s' where s': "open_call bp (Some motor_path) O_RDONLY s = Some (int n, s')" "motor_dev s' ts a p (u\<lparr>crefs := 1\<rparr>)"
    "hw (drv s') = h'" "n < CONFIG_NFILE_DESCRIPTORS" "f_inode (fl_files s' ! n) = Some a"
    by (rule motor_open_call [OF i(1,5)]) (use u h' in \<open>auto intro: that\<close>)
  have "phase_ok Ready (u\<lparr>crefs := 1\<rparr>) (hw (drv s'))" using s'(3) h' i(3,4) by (simp add: phase_ok_def)
  then have "motor_port s' (int n) Ready" unfolding motor_port_def using s' by (intro exI conjI) simp_all
  then show ?thesis using s'(1) of_nat_0_le_iff by blast
qed

text \<open>One ioctl that the upper half answers with OK.\<close>

lemma port_ioctl:
  assumes port: "motor_port s fd ph"
    and io: "\<And>u. 0 < semcount (exclsem u) \<Longrightarrow> crefs u = 1 \<Longrightarrow> phase_ok ph u (hw (drv s)) \<Longrightarrow> stm32_inv (hw (drv s)) \<Longrightarrow>
       \<exists>u' h'. pwm_upper_ioctl g_pwmops cmd arg u (hw (drv s)) = Some (OK, arg, u', h') \<and>
             0 < semcount (exclsem u') \<and> crefs u' = 1 \<and> stm32_inv h' \<and> phase_ok ph' u' h'"
  shows "\<exists>s'. ioctl_call fd cmd arg s = Some (0, arg, s') \<and> motor_port s' fd ph'"
proof -
  obtain ts a p u n where p: "fd = int n" "n < CONFIG_NFILE_DESCRIPTORS" "f_inode (fl_files s ! n) = Some a"
    "motor_dev s ts a p u" "crefs u = 1" "phase_ok ph u (hw (drv s))" "0 < semcount (exclsem u)" "stm32_inv (hw (drv s))"
    by (rule motor_portE [OF port])
  obtain u' h' where u': "pwm_upper_ioctl g_pwmops cmd arg u (hw (drv s)) = Some (OK, arg, u', h')"
      "0 < semcount (exclsem u')" "crefs u' = 1" "stm32_inv h'" "phase_ok ph' u' h'"
    using io [OF p(7,5,6,8)] by blast
  obtain s' where s': "ioctl_call (int n) cmd arg s = Some (0, arg, s')" "motor_dev s' ts a p u'" "hw (drv s') = h'"
    "fl_files s' = fl_files s"
    by (rule motor_ioctl_call [OF p(4,2,3) u'(1)]) (use u' in \<open>auto intro: that\<close>)
  then have "motor_port s' fd ph'" unfolding motor_port_def using p(1-3) u' by (intro exI conjI) simp_all
  then show ?thesis using s'(1) p(1) by blast
qed

lemmas upper_defs = pwm_upper_ioctl_def pwm_upper_ioctl_cmd_def pwm_upper_start_def phase_ok_def

lemma port_load:
  assumes "motor_port s fd Ready" "info_valid i"
  shows "\<exists>s'. ioctl_call fd PWMIOC_SETCHARACTERISTICS (Arg_pwm_info i) s = Some (0, Arg_pwm_info i, s') \<and>
     motor_port s' fd (Loaded i)"
  by (rule port_ioctl [OF assms(1)]) (use assms(2) in \<open>auto simp: upper_defs\<close>)

lemma port_start:
  assumes "motor_port s fd (Loaded i)"
  shows "\<exists>s'. ioctl_call fd PWMIOC_START arg s = Some (0, arg, s') \<and> motor_port s' fd (Running i)"
proof (rule port_ioctl [OF assms])
  fix u :: pwm_upperhalf_s
  assume u: "0 < semcount (exclsem u)" "crefs u = 1" "phase_ok (Loaded i) u (hw (drv s))" "stm32_inv (hw (drv s))"
  then have l: "\<not> started u" "info u = i" "info_valid i" "pwm_mode1 (hw (drv s))" "cur_frequency (dev (hw (drv s))) \<noteq> frequency i"
    by (auto simp: phase_ok_def info_valid_def)
  obtain h' where "op_start g_pwmops i (hw (drv s)) = Some (OK, h')" "stm32_inv h'" "outputs h' i"
    "cur_frequency (dev h') = frequency i" by (rule start_outputs [OF u(4) l(3,5,4)])
  then show "\<exists>u' h'. pwm_upper_ioctl g_pwmops PWMIOC_START arg u (hw (drv s)) = Some (OK, arg, u', h') \<and>
             0 < semcount (exclsem u') \<and> crefs u' = 1 \<and> stm32_inv h' \<and> phase_ok (Running i) u' h'"
    using u(1,2) l(1-3) by (simp add: upper_defs del: g_pwmops_sel)
qed

lemma port_set:
  assumes "motor_port s fd (Running i)" "info_valid j" "frequency j = frequency i"
  shows "\<exists>s'. ioctl_call fd PWMIOC_SETCHARACTERISTICS (Arg_pwm_info j) s = Some (0, Arg_pwm_info j, s') \<and>
     motor_port s' fd (Running j)"
proof (rule port_ioctl [OF assms(1)])
  fix u :: pwm_upperhalf_s
  assume u: "0 < semcount (exclsem u)" "crefs u = 1" "phase_ok (Running i) u (hw (drv s))" "stm32_inv (hw (drv s))"
  then have l: "started u" "outputs (hw (drv s)) i" "cur_frequency (dev (hw (drv s))) = frequency j"
    using assms(3) by (auto simp: phase_ok_def)
  obtain h' where "op_start g_pwmops j (hw (drv s)) = Some (OK, h')" "stm32_inv h'" "outputs h' j"
    "dev h' = dev (hw (drv s))" by (rule restart_outputs [OF u(4) assms(2) l(3,2)]) (use assms(3) in auto)
  then show "\<exists>u' h'. pwm_upper_ioctl g_pwmops PWMIOC_SETCHARACTERISTICS (Arg_pwm_info j) u (hw (drv s))
        = Some (OK, Arg_pwm_info j, u', h') \<and>
             0 < semcount (exclsem u') \<and> crefs u' = 1 \<and> stm32_inv h' \<and> phase_ok (Running j) u' h'"
    using u(1,2) l assms(2) by (simp add: upper_defs del: g_pwmops_sel)
qed

lemma port_stop:
  assumes "motor_port s fd (Running i)"
  shows "\<exists>s'. ioctl_call fd PWMIOC_STOP arg s = Some (0, arg, s') \<and> motor_port s' fd Stopped"
proof (rule port_ioctl [OF assms])
  fix u :: pwm_upperhalf_s
  assume u: "0 < semcount (exclsem u)" "crefs u = 1" "phase_ok (Running i) u (hw (drv s))" "stm32_inv (hw (drv s))"
  obtain h' where "op_stop g_pwmops (hw (drv s)) = Some (OK, h')" "stm32_inv h'" "stm32_quiet h'"
    using stm32_stop [OF u(4)] by blast
  then show "\<exists>u' h'. pwm_upper_ioctl g_pwmops PWMIOC_STOP arg u (hw (drv s)) = Some (OK, arg, u', h') \<and>
             0 < semcount (exclsem u') \<and> crefs u' = 1 \<and> stm32_inv h' \<and> phase_ok Stopped u' h'"
    using u by (simp add: upper_defs del: g_pwmops_sel)
qed

text \<open>Closing the only file stops the output; the device is idle again unless it was closed while
  running, when the upper half still counts it as started.\<close>

lemma port_close:
  assumes "motor_port s fd ph"
  shows "\<exists>s'. close_call fd s = Some (0, s') \<and> stm32_quiet (hw (drv s')) \<and> ((\<forall>i. ph \<noteq> Running i) \<longrightarrow> motor_idle s')"
proof -
  obtain ts a p u n where p: "fd = int n" "n < CONFIG_NFILE_DESCRIPTORS" "f_inode (fl_files s ! n) = Some a"
    "motor_dev s ts a p u" "crefs u = 1" "phase_ok ph u (hw (drv s))" "0 < semcount (exclsem u)" "stm32_inv (hw (drv s))"
    by (rule motor_portE [OF assms])
  obtain f where f: "dev (hw (drv s)) = tim2 f" "board_hw (mcu_st (hw (drv s)))" by (rule stm32_invD [OF p(8)])
  obtain r h' where h': "op_shutdown g_pwmops (hw (drv s)) = Some (r, h')" "stm32_inv h'" "stm32_quiet h'"
    using stm32_shutdown [OF p(8)] by blast
  obtain m' where "pwm_shutdown (tim2 f) (mcu_st (hw (drv s))) = (OK, tim2 0, m')"
    by (rule pwm_shutdown_tim2 [OF f(2), where f = f]) (rule that)
  then have z: "cur_frequency (dev h') = 0" using h'(1) f(1) by (auto simp: Let_def)
  have "pwm_close g_pwmops u (hw (drv s)) = Some (OK, u\<lparr>crefs := 0\<rparr>, h')"
    using p(5,7) h'(1) by (simp add: pwm_close_def Let_def del: g_pwmops_sel)
  then obtain s' where s': "close_call (int n) s = Some (0, s')" "motor_dev s' ts a p (u\<lparr>crefs := 0\<rparr>)" "hw (drv s') = h'"
    "allocate_loop 0 (fl_files s') \<noteq> None"
    by (rule motor_close_call [OF p(4,2,3)]) (use p(7) h' in \<open>auto intro: that\<close>)
  have "motor_idle s'" if "\<forall>i. ph \<noteq> Running i"
  proof -
    have "\<not> started u" using that p(6) by (cases ph) (auto simp: phase_ok_def)
    then show ?thesis unfolding motor_idle_def using s' z h'(3)
      by (intro exI [of _ ts] exI [of _ a] exI [of _ p] exI [of _ "u\<lparr>crefs := 0\<rparr>"]) simp
  qed
  then show ?thesis using s' p(1) h'(3) by blast
qed

section \<open>Setting the board up\<close>

lemma setup_idle:
  assumes "vfs_inv s ts" "\<forall>n. \<not> oom s n" "tfind ts motor_path = None"
    "stm32_inv (hw (drv s))" "stm32_quiet (hw (drv s))" "cur_frequency (dev (hw (drv s))) = 0"
    "allocate_loop 0 (fl_files s) \<noteq> None"
  shows "\<exists>s'. stm32_pwm_setup ws s = Some (0, s') \<and> motor_idle s'"
proof -
  let ?p = "brk s"
  let ?s1 = "s\<lparr>brk := brk s + 1, drv := (drv s)\<lparr>uppers := (uppers (drv s))(?p \<mapsto> pwm_upper_init ws)\<rparr>\<rparr>"
  have "vfs_inv ?s1 ts"
    using assms(1) by (auto simp: vfs_inv_def wf_tree_def tree_unlocked_def files_ok_def inodes_ok_def less_Suc_eq)
  then obtain s' a i where r: "register_driver motor_path pwm_fops ?p ?s1 = Some (OK, s')"
    "vfs_inv s' (tinsert ts (skip_slashes motor_path) (brk ?s1))"
    "tfind (tinsert ts (skip_slashes motor_path) (brk ?s1)) motor_path = Some a" "inodes s' a = Some i"
    "i_ops i = Some pwm_fops" "i_private i = ?p" "i_flags i = 0" "drv s' = drv ?s1" "fl_files s' = fl_files ?s1"
    by (rule register_vfs [OF _ _ good_motor_path assms(3)]) (use assms(2) in \<open>auto intro: that\<close>)
  have "stm32_pwm_setup ws s = Some (0, s')"
    using r(1) assms(2) by (simp add: stm32_pwm_setup_def stm32_pwminitialize_def pwm_register_def Let_def)
  moreover have "motor_dev s' (tinsert ts (skip_slashes motor_path) (brk ?s1)) a ?p (pwm_upper_init ws)"
    using r assms(4) by (auto simp: motor_dev_def char_dev_def INODE_IS_TYPE_def)
  then have "motor_idle s'"
    unfolding motor_idle_def using r(8,9) assms(5-7)
    by (intro exI [of _ "tinsert ts (skip_slashes motor_path) (brk ?s1)"] exI [of _ a] exI [of _ ?p]
          exI [of _ "pwm_upper_init ws"]) simp
  ultimately show ?thesis by blast
qed

text \<open>Setting up the board registers the motor device so that a program can use it: the call
  succeeds, the device is found under its path, nobody has it open, and the motors are silent.\<close>

theorem board_setup_ready:
  assumes "vfs_inv s ts" "\<forall>n. \<not> oom s n" "tfind ts motor_path = None"
    "stm32_inv (hw (drv s))" "stm32_quiet (hw (drv s))" "cur_frequency (dev (hw (drv s))) = 0"
    "allocate_loop 0 (fl_files s) \<noteq> None"
  shows "\<exists>s'. stm32_pwm_setup ws s = Some (0, s') \<and> motor_idle s'"
  using assms by (rule setup_idle)

text \<open>The board as it comes out of reset, before any driver is registered.\<close>

definition boot_vfs :: "board vfs" where
  "boot_vfs = \<lparr>inodes = (\<lambda>_. None), g_root_inode = None,
     g_inode_sem = \<lparr>isem = \<lparr>semcount = 1, wakes = []\<rparr>, holder = NO_HOLDER, hcount = 0\<rparr>,
     brk = 0, oom = (\<lambda>_. False), mypid = 3, drv = \<lparr>uppers = (\<lambda>_. None), hw = boot_hw\<rparr>,
     fl_sem = \<lparr>semcount = 1, wakes = []\<rparr>, fl_files = replicate 8 closed_file, errno = 0\<rparr>"

lemma boot_vfs_ok:
  "vfs_inv boot_vfs []" "\<forall>n. \<not> oom boot_vfs n" "tfind [] motor_path = None"
  "stm32_inv (hw (drv boot_vfs))" "stm32_quiet (hw (drv boot_vfs))" "cur_frequency (dev (hw (drv boot_vfs))) = 0"
  "allocate_loop 0 (fl_files boot_vfs) \<noteq> None"
  by (simp_all add: boot_vfs_def vfs_inv_def wf_tree_def tree_unlocked_def files_ok_def inodes_ok_def closed_file_def
      tfind_def allocate_loop_None boot_hw_def g_pwm2dev_def boot_hw_inv [unfolded boot_hw_def g_pwm2dev_def])

theorem board_setup_ready_witness:
  "\<exists>s'. stm32_pwm_setup [] boot_vfs = Some (0, s') \<and> motor_idle s'"
  by (rule board_setup_ready [OF boot_vfs_ok])

end
