(* ===== verification/I2c_Driver.thy ===== *)
theory I2c_Driver
  imports Board
begin

text \<open>
  The I2C character driver (\<^verbatim>\<open>drivers/i2c/i2c_driver.c\<close>): its device structure, its methods and its
  registration.  The bus below it is an instance of \<^verbatim>\<open>struct i2c_ops_s\<close>, the interface of
  \<^verbatim>\<open>include/nuttx/i2c/i2c_master.h\<close>; the world that it works on is a type variable.  The board of
  this theory is the board with the motor timer, extended by the I2C device structures and the bus.
\<close>

section \<open>Model\<close>

record 'w i2c_ops_s =
  op_transfer :: "i2c_msg_s list \<Rightarrow> 'w \<Rightarrow> (int \<times> i2c_msg_s list \<times> 'w) option"
  op_reset :: "'w \<Rightarrow> (int \<times> 'w) option"

record i2c_driver_s =
  i2c_exclsem :: sem_t
  i2c_crefs :: "16 word"
  i2c_unlinked :: bool

record 'w iboard = board +
  i2cdevs :: "nat \<Rightarrow> i2c_driver_s option"
  i2cbus :: 'w

definition i2cdrvr_open :: "nat \<Rightarrow> ('w, 'z) iboard_scheme \<Rightarrow> (int \<times> ('w, 'z) iboard_scheme) option" where
  "i2cdrvr_open p b = do {
     priv \<leftarrow> i2cdevs b p;
     (ret, sem) \<leftarrow> nxsem_wait (i2c_exclsem priv);
     let priv = priv\<lparr>i2c_exclsem := sem\<rparr>;
     if ret < 0 then Some (ret, b\<lparr>i2cdevs := (i2cdevs b)(p \<mapsto> priv)\<rparr>)
     else
       let priv = priv\<lparr>i2c_crefs := i2c_crefs priv + 1\<rparr>;
           priv = priv\<lparr>i2c_exclsem := snd (nxsem_post (i2c_exclsem priv))\<rparr>
       in Some (OK, b\<lparr>i2cdevs := (i2cdevs b)(p \<mapsto> priv)\<rparr>)
   }"

definition i2cdrvr_close :: "nat \<Rightarrow> ('w, 'z) iboard_scheme \<Rightarrow> (int \<times> ('w, 'z) iboard_scheme) option" where
  "i2cdrvr_close p b = do {
     priv \<leftarrow> i2cdevs b p;
     (ret, sem) \<leftarrow> nxsem_wait (i2c_exclsem priv);
     let priv = priv\<lparr>i2c_exclsem := sem\<rparr>;
     if ret < 0 then Some (ret, b\<lparr>i2cdevs := (i2cdevs b)(p \<mapsto> priv)\<rparr>)
     else
       let priv = priv\<lparr>i2c_crefs := i2c_crefs priv - 1\<rparr>
       in if sint (i2c_crefs priv) \<le> 0 \<and> i2c_unlinked priv
          then Some (OK, b\<lparr>i2cdevs := (i2cdevs b)(p := None)\<rparr>)
          else
            let priv = priv\<lparr>i2c_exclsem := snd (nxsem_post (i2c_exclsem priv))\<rparr>
            in Some (OK, b\<lparr>i2cdevs := (i2cdevs b)(p \<mapsto> priv)\<rparr>)
   }"

definition i2cdrvr_read :: "nat \<Rightarrow> int" where
  "i2cdrvr_read len = 0"

definition i2cdrvr_write :: "nat \<Rightarrow> int" where
  "i2cdrvr_write len = int len"

text \<open>The transfer of an argument that is no \<^verbatim>\<open>struct i2c_transfer_s\<close> is not defined.\<close>

definition i2cdrvr_cmd ::
  "'w i2c_ops_s \<Rightarrow> int \<Rightarrow> ioctl_arg \<Rightarrow> 'w \<Rightarrow> (int \<times> ioctl_arg \<times> 'w) option" where
  "i2cdrvr_cmd ops cmd arg w =
     (if cmd = I2CIOC_TRANSFER then
        (case arg of
           Arg_i2c_transfer msgv \<Rightarrow> do {
             (ret, msgv, w) \<leftarrow> op_transfer ops msgv w;
             Some (ret, Arg_i2c_transfer msgv, w)
           }
         | _ \<Rightarrow> None)
      else if cmd = I2CIOC_RESET then do {
        (ret, w) \<leftarrow> op_reset ops w;
        Some (ret, arg, w)
      }
      else Some (- ENOTTY, arg, w))"

definition i2cdrvr_ioctl ::
  "'w i2c_ops_s \<Rightarrow> nat \<Rightarrow> int \<Rightarrow> ioctl_arg \<Rightarrow> ('w, 'z) iboard_scheme \<Rightarrow>
   (int \<times> ioctl_arg \<times> ('w, 'z) iboard_scheme) option" where
  "i2cdrvr_ioctl ops p cmd arg b = do {
     priv \<leftarrow> i2cdevs b p;
     (ret, sem) \<leftarrow> nxsem_wait (i2c_exclsem priv);
     let priv = priv\<lparr>i2c_exclsem := sem\<rparr>;
     if ret < 0 then Some (ret, arg, b\<lparr>i2cdevs := (i2cdevs b)(p \<mapsto> priv)\<rparr>)
     else do {
       (ret, arg, w) \<leftarrow> i2cdrvr_cmd ops cmd arg (i2cbus b);
       let priv = priv\<lparr>i2c_exclsem := snd (nxsem_post (i2c_exclsem priv))\<rparr>;
       Some (ret, arg, b\<lparr>i2cdevs := (i2cdevs b)(p \<mapsto> priv), i2cbus := w\<rparr>)
     }
   }"

definition i2cdrvr_unlink :: "nat \<Rightarrow> ('w, 'z) iboard_scheme \<Rightarrow> (int \<times> ('w, 'z) iboard_scheme) option" where
  "i2cdrvr_unlink p b = do {
     priv \<leftarrow> i2cdevs b p;
     (ret, sem) \<leftarrow> nxsem_wait (i2c_exclsem priv);
     let priv = priv\<lparr>i2c_exclsem := sem\<rparr>;
     if ret < 0 then Some (ret, b\<lparr>i2cdevs := (i2cdevs b)(p \<mapsto> priv)\<rparr>)
     else if sint (i2c_crefs priv) \<le> 0 then Some (OK, b\<lparr>i2cdevs := (i2cdevs b)(p := None)\<rparr>)
     else
       let priv = priv\<lparr>i2c_unlinked := True\<rparr>;
           priv = priv\<lparr>i2c_exclsem := snd (nxsem_post (i2c_exclsem priv))\<rparr>
       in Some (ret, b\<lparr>i2cdevs := (i2cdevs b)(p \<mapsto> priv)\<rparr>)
   }"

definition i2cdrvr_fops :: "'w i2c_ops_s \<Rightarrow> ('w, 'z) iboard_scheme file_operations" where
  "i2cdrvr_fops ops =
     \<lparr>fop_open = Some (\<lambda>_ _. i2cdrvr_open),
      fop_close = Some (\<lambda>_. i2cdrvr_close),
      fop_read = Some (\<lambda>_ _ n b. Some (i2cdrvr_read n, [], b)),
      fop_write = Some (\<lambda>_ _ buf b. Some (i2cdrvr_write (length buf), b)),
      fop_ioctl = Some (\<lambda>_. i2cdrvr_ioctl ops)\<rparr>"

abbreviation (input) DEVNAME_FMTLEN :: nat where "DEVNAME_FMTLEN \<equiv> 12"

text \<open>\<^verbatim>\<open>snprintf\<close> writes at most \<^verbatim>\<open>DEVNAME_FMTLEN - 1\<close> characters.  The result of the registration is not
  returned.\<close>

definition i2c_devname :: "nat \<Rightarrow> string" where
  "i2c_devname bus = take (DEVNAME_FMTLEN - 1) (''/dev/i2c'' @ decimal bus)"

definition i2c_register ::
  "'w i2c_ops_s \<Rightarrow> nat \<Rightarrow> int list \<Rightarrow> (('w, 'z) iboard_scheme, 'y) fs_scheme \<Rightarrow>
   (int \<times> (('w, 'z) iboard_scheme, 'y) fs_scheme) option" where
  "i2c_register ops bus ws s =
     (if oom s (brk s) then Some (- ENOMEM, s\<lparr>brk := brk s + 1\<rparr>)
      else
        let priv = brk s;
            dev = \<lparr>i2c_exclsem = nxsem_init 1 ws, i2c_crefs = 0, i2c_unlinked = False\<rparr>;
            s = s\<lparr>brk := brk s + 1, drv := (drv s)\<lparr>i2cdevs := (i2cdevs (drv s))(priv \<mapsto> dev)\<rparr>\<rparr>
        in do {
          (ret, s) \<leftarrow> register_driver (i2c_devname bus) (i2cdrvr_fops ops) priv s;
          Some (OK, if ret < 0 then s\<lparr>drv := (drv s)\<lparr>i2cdevs := (i2cdevs (drv s))(priv := None)\<rparr>\<rparr> else s)
        })"

section \<open>The device through the system calls\<close>

interpretation i2cdev: char_driver "i2cdrvr_fops ops :: ('w, 'z) iboard_scheme file_operations"
    i2cdrvr_open i2cdrvr_close "i2cdrvr_ioctl ops" for ops
  by unfold_locales (simp_all add: i2cdrvr_fops_def)

section \<open>The life of a device structure\<close>

text \<open>The calls on one device, with the number n of open files and whether its name has been removed.  A name
  that is gone cannot be opened, and only an open file gives further calls.\<close>

inductive i2c_reach :: "'w i2c_ops_s \<Rightarrow> nat \<Rightarrow> nat \<Rightarrow> bool \<Rightarrow> ('w, 'z) iboard_scheme \<Rightarrow> bool" for ops p where
  Start: "i2cdevs b p = Some \<lparr>i2c_exclsem = nxsem_init 1 ws, i2c_crefs = 0, i2c_unlinked = False\<rparr> \<Longrightarrow>
    i2c_reach ops p 0 False b"
| Open: "i2c_reach ops p n False b \<Longrightarrow> n < 32767 \<Longrightarrow> i2cdrvr_open p b = Some (OK, b') \<Longrightarrow> i2c_reach ops p (n + 1) False b'"
| Ioctl: "i2c_reach ops p n u b \<Longrightarrow> 0 < n \<Longrightarrow> i2cdrvr_ioctl ops p cmd arg b = Some (r, arg', b') \<Longrightarrow> i2c_reach ops p n u b'"
| Close: "i2c_reach ops p (n + 1) u b \<Longrightarrow> i2cdrvr_close p b = Some (OK, b') \<Longrightarrow> i2c_reach ops p n u b'"
| Unlink: "i2c_reach ops p n False b \<Longrightarrow> i2cdrvr_unlink p b = Some (OK, b') \<Longrightarrow> i2c_reach ops p n True b'"

definition i2c_alive :: "nat \<Rightarrow> nat \<Rightarrow> bool \<Rightarrow> ('w, 'z) iboard_scheme \<Rightarrow> bool" where
  "i2c_alive p n u b \<longleftrightarrow> n \<le> 32767 \<and>
     (if u \<and> n = 0 then i2cdevs b p = None
      else \<exists>d. i2cdevs b p = Some d \<and> i2c_crefs d = of_nat n \<and> i2c_unlinked d = u \<and> 0 < semcount (i2c_exclsem d))"

lemma crefs_sint: "n \<le> 32767 \<Longrightarrow> sint (of_nat n :: 16 word) = int n"
  by (simp add: signed_of_nat signed_take_bit_int_eq_self)

lemma i2c_reach_alive: "i2c_reach ops p n u b \<Longrightarrow> i2c_alive p n u b"
proof (induction rule: i2c_reach.induct)
  case (Close n u b b')
  then obtain d where d: "i2cdevs b p = Some d" "i2c_crefs d = of_nat (n + 1)" "i2c_unlinked d = u" "0 < semcount (i2c_exclsem d)"
    "n + 1 \<le> 32767" by (auto simp: i2c_alive_def)
  then show ?case using Close(2) by (auto simp: i2c_alive_def i2cdrvr_close_def crefs_sint Let_def split: if_splits)
next
  case (Unlink n b b')
  then obtain d where d: "i2cdevs b p = Some d" "i2c_crefs d = of_nat n" "0 < semcount (i2c_exclsem d)" "n \<le> 32767"
    by (auto simp: i2c_alive_def)
  then show ?case using Unlink(2) by (auto simp: i2c_alive_def i2cdrvr_unlink_def crefs_sint Let_def split: if_splits)
next
  case (Ioctl n u b cmd arg r arg' b')
  then obtain d where d: "i2cdevs b p = Some d" "i2c_crefs d = of_nat n" "i2c_unlinked d = u" "0 < semcount (i2c_exclsem d)" "n \<le> 32767"
    by (auto simp: i2c_alive_def)
  then show ?case using Ioctl(2,3) by (auto simp: i2c_alive_def i2cdrvr_ioctl_def Let_def split: bind_splits)
qed (auto simp: i2c_alive_def i2cdrvr_open_def nxsem_init_def Let_def split: if_splits)

text \<open>C34: An I2C device structure lives exactly as long as it is needed.  Whatever opens, transfers, closes and
  removals of its name follow each other, it is freed if and only if its name is gone and no file is open, and until
  then its count is the number of open files; so a call on an open file never finds it freed.\<close>

theorem i2c_device_lifetime:
  assumes "i2c_reach ops p n u b"
  shows "(i2cdevs b p = None \<longleftrightarrow> u \<and> n = 0) \<and> (\<forall>d. i2cdevs b p = Some d \<longrightarrow> sint (i2c_crefs d) = int n \<and> i2c_unlinked d = u)"
  using i2c_reach_alive [OF assms] crefs_sint [of n] by (auto simp: i2c_alive_def split: if_splits)

definition idle_i2c :: "unit iboard" where
  "idle_i2c = \<lparr>uppers = (\<lambda>_. None), hw = boot_hw,
     i2cdevs = [5 \<mapsto> \<lparr>i2c_exclsem = nxsem_init 1 [], i2c_crefs = 0, i2c_unlinked = False\<rparr>], i2cbus = ()\<rparr>"

definition no_bus :: "unit i2c_ops_s" where
  "no_bus = \<lparr>op_transfer = (\<lambda>ms w. Some (- EIO, ms, w)), op_reset = (\<lambda>w. Some (OK, w))\<rparr>"

theorem i2c_device_lifetime_witness:
  "\<exists>b1 b2 b3. i2cdrvr_open 5 idle_i2c = Some (OK, b1) \<and> i2cdrvr_unlink 5 b1 = Some (OK, b2) \<and>
     i2cdrvr_close 5 b2 = Some (OK, b3) \<and> i2cdevs b2 5 \<noteq> None \<and> i2cdevs b3 5 = None"
proof -
  have 0: "i2c_reach no_bus 5 0 False idle_i2c" by (rule Start [of _ _ "[]"]) (simp add: idle_i2c_def)
  obtain b1 where 1: "i2cdrvr_open 5 idle_i2c = Some (OK, b1)"
    by (auto simp: i2cdrvr_open_def idle_i2c_def nxsem_init_def Let_def)
  then have r1: "i2c_reach no_bus 5 1 False b1" using Open [OF 0 _ 1] by simp
  have a1: "i2c_alive 5 1 False b1" using r1 by (rule i2c_reach_alive)
  then obtain b2 where 2: "i2cdrvr_unlink 5 b1 = Some (OK, b2)"
    by (auto simp: i2cdrvr_unlink_def i2c_alive_def Let_def)
  have r2: "i2c_reach no_bus 5 1 True b2" using Unlink [OF r1 2] .
  have a2: "i2c_alive 5 1 True b2" using r2 by (rule i2c_reach_alive)
  then obtain b3 where 3: "i2cdrvr_close 5 b2 = Some (OK, b3)"
    by (auto simp: i2cdrvr_close_def i2c_alive_def Let_def)
  have r3: "i2c_reach no_bus 5 0 True b3" by (rule Close [OF _ 3]) (use r2 in simp)
  show ?thesis using 1 2 3 i2c_device_lifetime [OF r2] i2c_device_lifetime [OF r3] by auto
qed

end
