(* ===== verification/Motor_Laws.thy ===== *)
theory Motor_Laws
  imports Motor Pwm_Driver
begin

text \<open>
  The motor driver against its contract with the operating system.  The throttle constants come
  out as the Kconfig pulse widths ask.  The locale \<^verbatim>\<open>motor_os\<close> is what the driver relies on: the
  phases of a PWM device that open, ioctl and close move through; the driver's own guarantees are
  proved inside it for every system with these laws.
\<close>

section \<open>The throttle values\<close>

lemma double_400: "double (double (1 / 400) * 1000000) = 2500"
proof -
  have 1: "double (1 / 400) = of_int 5764607523034235 * pow2 (- 61)"
    by (rule ieee_round_eq) (simp_all add: pow2_def)
  have 2: "double (of_int 5764607523034235 * pow2 (- 61) * 1000000) = of_int 5497558138880000 * pow2 (- 41)"
    by (rule ieee_round_eq) (simp_all add: pow2_def)
  show ?thesis unfolding 1 2 by (simp add: pow2_def)
qed

lemma duty_400:
  "double (of_nat us / 2500) = x \<Longrightarrow> double (x * 0xffff) = y \<Longrightarrow> PLUSE_US_TO_DUTY us 400 = word_of_int \<lfloor>y\<rfloor>"
  by (simp add: PLUSE_US_TO_DUTY_def double_400)

lemma throttle_values [simp]:
  "ARMED_THROTTLE_DUTY = 23592" "MIN_THROTTLE_DUTY = 26214" "MAX_THROTTLE_DUTY = 52428"
proof -
  have "PLUSE_US_TO_DUTY 900 400 = word_of_int \<lfloor>of_int 6485084507367014 * pow2 (- 38)\<rfloor>"
    by (rule duty_400 [where x = "of_int 6485183463413514 * pow2 (- 54)"]; rule ieee_round_eq; simp add: pow2_def)
  moreover have "\<lfloor>of_int 6485084507367014 * pow2 (- 38)\<rfloor> = 23592"
    by (rule floor_unique) (simp_all add: pow2_def)
  ultimately show "ARMED_THROTTLE_DUTY = 23592" by (simp add: ARMED_THROTTLE_DUTY_def)
  have "PLUSE_US_TO_DUTY 1000 400 = word_of_int \<lfloor>of_int 7205649452630016 * pow2 (- 38)\<rfloor>"
    by (rule duty_400 [where x = "of_int 7205759403792794 * pow2 (- 54)"]; rule ieee_round_eq; simp add: pow2_def)
  then show "MIN_THROTTLE_DUTY = 26214" by (simp add: MIN_THROTTLE_DUTY_def pow2_def)
  have "PLUSE_US_TO_DUTY 2000 400 = word_of_int \<lfloor>of_int 7205649452630016 * pow2 (- 37)\<rfloor>"
    by (rule duty_400 [where x = "of_int 7205759403792794 * pow2 (- 53)"]; rule ieee_round_eq; simp add: pow2_def)
  then show "MAX_THROTTLE_DUTY = 52428" by (simp add: MAX_THROTTLE_DUTY_def pow2_def)
qed

lemma half_throttle [simp]: "HALF_THROTTLE_DUTY = 39321"
proof -
  have "double (26214 * (1 / 2)) = of_int 13107 * pow2 0" "double (26214 + 13107) = of_int 39321 * pow2 0"
    using ieee_round_exact [of 13107 53 0] ieee_round_exact [of 39321 53 0] by simp_all
  then show ?thesis by (simp add: HALF_THROTTLE_DUTY_def)
qed

abbreviation (input) ulp_lo :: rat where "ulp_lo \<equiv> 1 - 1 / 2 ^ 53"
abbreviation (input) ulp_hi :: rat where "ulp_hi \<equiv> 1 + 1 / 2 ^ 53"

text \<open>The four roundings of the conversion change the exact value by less than a part in 2 to the 49.\<close>

lemma duty_roundings:
  assumes "0 < us" "0 < hz"
  defines "x \<equiv> of_nat us * of_nat hz * 65535 / 1000000 :: rat"
    and "y \<equiv> double (double (of_nat us / double (double (1 / of_nat hz) * 1000000)) * 0xffff)"
  shows "x * (1 - 1 / 2 ^ 49) \<le> y" and "y \<le> x * (1 + 1 / 2 ^ 49)"
proof -
  define f u A B :: rat where "f = of_nat hz" and "u = of_nat us" and "A = ulp_hi * ulp_hi" and "B = ulp_lo * ulp_lo"
  have f: "0 < f" "0 < u" and AB: "0 < A" "0 < B" using assms by (simp_all add: f_def u_def A_def B_def)
  define t1 where "t1 = double (1 / f)"
  have f1: "0 < 1 / f" using f by simp
  have t1: "1 / f * ulp_lo \<le> t1" "t1 \<le> 1 / f * ulp_hi"
    unfolding t1_def by (rule ieee_round_between [OF order_refl order_refl f1])+
  define t2 where "t2 = double (t1 * 1000000)"
  have m1: "1 / f * ulp_lo * 1000000 \<le> t1 * 1000000" "t1 * 1000000 \<le> 1 / f * ulp_hi * 1000000"
    "0 < 1 / f * ulp_lo * 1000000" using t1 f by simp_all
  have "1 / f * ulp_lo * 1000000 * ulp_lo \<le> t2" "t2 \<le> 1 / f * ulp_hi * 1000000 * ulp_hi"
    unfolding t2_def by (rule ieee_round_between [OF m1])+
  then have lo2: "1000000 / f * B \<le> t2" and hi2: "t2 \<le> 1000000 / f * A" by (simp_all add: A_def B_def mult_ac)
  have p2: "0 < t2" using lo2 f AB by (meson divide_pos_pos less_le_trans mult_pos_pos zero_less_numeral)
  have "u / (1000000 / f * A) \<le> u / t2" using hi2 f p2 AB by (intro divide_left_mono) simp_all
  then have lo3: "u * f / 1000000 / A \<le> u / t2" by simp
  have "u / t2 \<le> u / (1000000 / f * B)" using lo2 f p2 AB by (intro divide_left_mono) simp_all
  then have hi3: "u / t2 \<le> u * f / 1000000 / B" by simp
  define t3 where "t3 = double (u / t2)"
  have f3: "0 < u * f / 1000000 / A" using f AB by simp
  have t3: "u * f / 1000000 / A * ulp_lo \<le> t3" "t3 \<le> u * f / 1000000 / B * ulp_hi"
    unfolding t3_def by (rule ieee_round_between [OF lo3 hi3 f3])+
  have y: "y = double (t3 * 0xffff)" by (simp add: y_def t3_def t2_def t1_def f_def u_def)
  have l: "0 < u * f / 1000000 / A * ulp_lo * 0xffff" using f AB by simp
  have m: "u * f / 1000000 / A * ulp_lo * 0xffff \<le> t3 * 0xffff" "t3 * 0xffff \<le> u * f / 1000000 / B * ulp_hi * 0xffff"
    by (rule mult_right_mono [OF t3(1)], simp, rule mult_right_mono [OF t3(2)], simp)
  have "u * f / 1000000 / A * ulp_lo * 0xffff * ulp_lo \<le> y" "y \<le> u * f / 1000000 / B * ulp_hi * 0xffff * ulp_hi"
    unfolding y by (rule ieee_round_between [OF m l])+
  then have b: "x * (B / A) \<le> y" "y \<le> x * (A / B)" by (simp_all add: x_def A_def B_def f_def u_def mult_ac)
  have x: "0 \<le> x" by (simp add: x_def)
  have n: "1 - 1 / 2 ^ 49 \<le> B / A" "A / B \<le> 1 + 1 / 2 ^ 49" by (simp_all add: A_def B_def)
  show "x * (1 - 1 / 2 ^ 49) \<le> y" using mult_left_mono [OF n(1) x] b(1) by linarith
  show "y \<le> x * (1 + 1 / 2 ^ 49)" using mult_left_mono [OF n(2) x] b(2) by linarith
qed

lemma pulse_to_duty:
  assumes "0 < us" "0 < hz" "us * hz \<le> 1000000"
  shows "unat (PLUSE_US_TO_DUTY us hz) * 1000000 \<le> us * hz * 65535 \<and>
     us * hz * 65535 \<le> (unat (PLUSE_US_TO_DUTY us hz) + 1) * 1000000"
proof -
  define N where "N = us * hz * 65535"
  define y where "y = double (double (of_nat us / double (double (1 / of_nat hz) * 1000000)) * 0xffff)"
  have N: "(of_nat us * of_nat hz * 65535 / 1000000 :: rat) = of_nat N / 1000000" by (simp add: N_def)
  have b: "of_nat N / 1000000 * (1 - 1 / 2 ^ 49) \<le> y" "y \<le> of_nat N / 1000000 * (1 + 1 / 2 ^ 49)"
    using duty_roundings [OF assms(1,2)] unfolding N y_def by simp_all
  have "us * hz * 65535 \<le> 1000000 * 65535" using assms(3) by (rule mult_le_mono1)
  then have le: "N \<le> 65535000000" by (simp add: N_def)
  then have leq: "(of_nat N :: rat) \<le> 65535000000" by (metis of_nat_le_iff of_nat_numeral)
  have y: "of_nat N - 1 < y * 1000000" "y * 1000000 < of_nat N + 1" using b leq by (simp_all add: field_simps)
  have y0: "0 \<le> y"
  proof -
    have "0 \<le> of_nat N / 1000000 * (1 - 1 / 2 ^ 49 :: rat)" by simp
    then show ?thesis using b(1) by linarith
  qed
  define n where "n = \<lfloor>y\<rfloor>"
  have n: "of_int n \<le> y" "y < of_int n + 1" "0 \<le> n"
    using y0 floor_correct [of y] by (simp_all add: n_def)
  have "of_int (n * 1000000) < (of_int (int N + 1) :: rat)" using n(1) y(2) by simp
  then have up: "n * 1000000 \<le> int N" by (simp only: of_int_less_iff)
  have "of_int (int N - 1) < (of_int ((n + 1) * 1000000) :: rat)" using n(2) y(1) by simp
  then have lo: "int N \<le> (n + 1) * 1000000" by (simp only: of_int_less_iff)
  have "n \<le> 65535" using up le by linarith
  then have "unat (PLUSE_US_TO_DUTY us hz) = nat n"
    using n(3) by (simp add: PLUSE_US_TO_DUTY_def y_def [symmetric] n_def [symmetric] unsigned_of_int take_bit_int_eq_self)
  then have "int (unat (PLUSE_US_TO_DUTY us hz)) = n" using n(3) by simp
  then have "int (unat (PLUSE_US_TO_DUTY us hz) * 1000000) \<le> int N"
    "int N \<le> int ((unat (PLUSE_US_TO_DUTY us hz) + 1) * 1000000)" using up lo by simp_all
  then show ?thesis unfolding N_def [symmetric] of_nat_le_iff by (rule conjI)
qed

text \<open>The conversion of a pulse width to a duty cycle, done in double precision by the
  preprocessor macro, is exact to one unit of the duty cycle: the result is the exact quotient
  rounded down, or one less, for every pulse that fits into the period.\<close>

theorem pulse_to_duty_accuracy:
  assumes "0 < us" "0 < hz" "us * hz \<le> 1000000"
  shows "unat (PLUSE_US_TO_DUTY us hz) * 1000000 \<le> us * hz * 65535 \<and>
     us * hz * 65535 \<le> (unat (PLUSE_US_TO_DUTY us hz) + 1) * 1000000"
  using assms by (rule pulse_to_duty)

theorem pulse_to_duty_accuracy_witness:
  "unat (PLUSE_US_TO_DUTY 1500 400) * 1000000 \<le> 1500 * 400 * 65535 \<and>
   1500 * 400 * 65535 \<le> (unat (PLUSE_US_TO_DUTY 1500 400) + 1) * 1000000"
  by (rule pulse_to_duty_accuracy) simp_all

section \<open>The contract with the operating system\<close>

definition info_of :: "u32 list \<Rightarrow> pwm_info_s" where
  "info_of ds = \<lparr>frequency = 400,
     channels = map2 (\<lambda>d k. \<lparr>duty = d, channel = k\<rparr>) ds [1, 2, 3, 4]\<rparr>"

lemma four_elements:
  assumes "length xs = 4"
  obtains a b c d where "xs = [a, b, c, d]"
  using assms by (auto simp: length_Suc_conv eval_nat_numeral)

lemma info_of_valid [simp]: "length ds = 4 \<Longrightarrow> info_valid (info_of ds)"
  by (erule four_elements) (simp add: info_of_def info_valid_def pwm_info_ok_def)

lemma info_of_frequency [simp]: "frequency (info_of ds) = 400"
  by (simp add: info_of_def)

text \<open>The shape of the static structures: one device with four channels.\<close>

definition motor_shape :: "motor_state_s \<Rightarrow> bool" where
  "motor_shape m \<longleftrightarrow> length (pwms_info m) = 1 \<and> length (channels (hd (pwms_info m))) = 4 \<and>
     length (pwm_devs_fd m) = 1 \<and> length (dutys m) = 4"

lemma num_dev [simp]: "CHEWIE_NUM_OF_MOTOR_PWM_DEV = 1"
  by (simp add: CHEWIE_NUM_OF_MOTOR_PWM_DEV_def)

lemma devpath_0 [simp]: "devpath 0 = ''/dev/pwm_out_motor_0''"
  by (simp add: devpath_def decimal.simps) code_simp

lemma init_state_eq:
  assumes "motor_shape m"
  shows "init_state m =
     \<lparr>pwms_info = [info_of (replicate 4 23592)], pwm_devs_fd = [- 1], freq = 400, dutys = replicate 4 23592\<rparr>"
  using assms
  by (cases m)
     (auto simp: motor_shape_def init_state_def init_dev_state_def set_chan_def info_of_def length_Suc_conv
        numeral_eq_Suc upt_rec Let_def)

lemma limit_duty_eq [simp]: "limit_duty d = max 23592 (min 52428 d)"
proof -
  have "\<not> (52428 < d \<and> d < 23592)" using order.strict_trans [of 52428 d 23592] by auto
  then show ?thesis by (auto simp: limit_duty_def max_def min_def Let_def)
qed

lemma fill_four [simp]: "length ds = 4 \<Longrightarrow> fold (\<lambda>i ds. ds[i := d]) [0..<4] ds = replicate 4 d"
  by (erule four_elements) (simp add: upt_rec numeral_eq_Suc)

text \<open>One pass over the motors of the only device.\<close>

lemma update_loop_one_device:
  assumes m: "pwms_info (mot a) = [info_of [w, x, y, z]]" "dutys (mot a) = ds" and ds: "ds = [p, q, r, t]"
  shows "drv_motor_update sys a =
     (do { (_, s) \<leftarrow> drv_pwm_update_info sys (pwm_devs_fd (mot a) ! 0) (info_of (map limit_duty ds)) (os a);
           Some (0, a\<lparr>mot := (mot a)\<lparr>pwms_info := [info_of (map limit_duty ds)]\<rparr>, os := s\<rparr>) })"
proof -
  have k: "\<not> (3::u8) \<le> 0" "\<not> (3::u8) \<le> 1" "\<not> (3::u8) \<le> 2" by (simp_all add: word_le_nat_alt)
  have ix: "[0..<4] = [0, 1, 2, 3]" by (simp add: upt_rec)
  show ?thesis
    using m ds k by (simp add: drv_motor_update_def ix set_chan_def info_of_def Let_def case_prod_unfold
      del: limit_duty_eq cong: if_weak_cong)
qed

locale motor_os =
  fixes sys :: "'s syscalls"
    and idle :: "'s \<Rightarrow> bool"
    and ready :: "int \<Rightarrow> 's \<Rightarrow> bool"
    and loaded running :: "int \<Rightarrow> pwm_info_s \<Rightarrow> 's \<Rightarrow> bool"
    and stopped :: "int \<Rightarrow> 's \<Rightarrow> bool"
  assumes open_ok: "idle s \<Longrightarrow> \<exists>fd s'. sys_open sys (Some (devpath 0)) 1 s = Some (fd, s') \<and> 0 \<le> fd \<and> ready fd s'"
    and load_ok: "ready fd s \<Longrightarrow> info_valid i \<Longrightarrow>
       \<exists>s'. sys_ioctl sys fd PWMIOC_SETCHARACTERISTICS (Arg_pwm_info i) s = Some (0, Arg_pwm_info i, s') \<and> loaded fd i s'"
    and start_ok: "loaded fd i s \<Longrightarrow>
       \<exists>s'. sys_ioctl sys fd PWMIOC_START (Arg_ulong 0) s = Some (0, Arg_ulong 0, s') \<and> running fd i s'"
    and set_ok: "running fd i s \<Longrightarrow> info_valid j \<Longrightarrow> frequency j = frequency i \<Longrightarrow>
       \<exists>s'. sys_ioctl sys fd PWMIOC_SETCHARACTERISTICS (Arg_pwm_info j) s = Some (0, Arg_pwm_info j, s') \<and> running fd j s'"
    and stop_ok: "running fd i s \<Longrightarrow>
       \<exists>s'. sys_ioctl sys fd PWMIOC_STOP (Arg_ulong 0) s = Some (0, Arg_ulong 0, s') \<and> stopped fd s'"
    and close_ok: "stopped fd s \<Longrightarrow> \<exists>s'. sys_close sys fd s = Some (0, s') \<and> idle s'"
begin

text \<open>The motors run with duty cycles ds, and the application's structures agree with the device.\<close>

definition flying :: "u32 list \<Rightarrow> 's app \<Rightarrow> bool" where
  "flying ds a \<longleftrightarrow> length ds = 4 \<and> length (dutys (mot a)) = 4 \<and> pwms_info (mot a) = [info_of ds] \<and>
     (\<exists>fd. pwm_devs_fd (mot a) = [fd] \<and> 0 \<le> fd \<and> running fd (info_of ds) (os a))"

lemma init_flies:
  assumes "motor_shape (mot a)" "idle (os a)"
  obtains a' where "drv_motor_init sys a = Some (0, a')" "flying (replicate 4 23592) a'" "naps a' = naps a"
    "dutys (mot a') = replicate 4 23592"
proof -
  let ?i = "info_of (replicate 4 23592)"
  obtain fd s1 where 1: "sys_open sys (Some (devpath 0)) 1 (os a) = Some (fd, s1)" "0 \<le> fd" "ready fd s1"
    using open_ok [OF assms(2)] by blast
  obtain s2 where 2: "sys_ioctl sys fd PWMIOC_SETCHARACTERISTICS (Arg_pwm_info ?i) s1 = Some (0, Arg_pwm_info ?i, s2)"
    "loaded fd ?i s2" using load_ok [OF 1(3), of ?i] by auto
  obtain s3 where 3: "sys_ioctl sys fd PWMIOC_START (Arg_ulong 0) s2 = Some (0, Arg_ulong 0, s3)" "running fd ?i s3"
    using start_ok [OF 2(2)] by blast
  let ?a = "a\<lparr>mot := (init_state (mot a))\<lparr>pwm_devs_fd := [fd]\<rparr>, os := s3\<rparr>"
  have "drv_motor_init sys a = Some (0, ?a)"
    using 1 2 3 by (simp add: drv_motor_init_def init_state_eq [OF assms(1)] drv_pwm_init_def drv_pwm_update_info_def
        drv_pwm_start_def Let_def del: devpath_0)
  then show thesis using that [of ?a] 1(2) 3(2) by (simp add: flying_def init_state_eq [OF assms(1)])
qed

lemma update_flies:
  assumes "flying ds a"
  obtains a' where "drv_motor_update sys a = Some (0, a')" "flying (map limit_duty (dutys (mot a))) a'"
    "naps a' = naps a" "dutys (mot a') = dutys (mot a)"
proof -
  obtain fd where fd: "length ds = 4" "length (dutys (mot a)) = 4" "pwms_info (mot a) = [info_of ds]"
    "pwm_devs_fd (mot a) = [fd]" "0 \<le> fd" "running fd (info_of ds) (os a)"
    using assms unfolding flying_def by blast
  let ?i = "info_of (map limit_duty (dutys (mot a)))"
  obtain s' where s': "sys_ioctl sys fd PWMIOC_SETCHARACTERISTICS (Arg_pwm_info ?i) (os a) = Some (0, Arg_pwm_info ?i, s')"
    "running fd ?i s'" using set_ok [OF fd(6), of ?i] fd(2) by auto
  let ?a = "a\<lparr>mot := (mot a)\<lparr>pwms_info := [?i]\<rparr>, os := s'\<rparr>"
  obtain w x y z where ds: "ds = [w, x, y, z]" using fd(1) by (rule four_elements)
  obtain p q r t where es: "dutys (mot a) = [p, q, r, t]" using fd(2) by (rule four_elements)
  have "drv_motor_update sys a = Some (0, ?a)"
    using update_loop_one_device [OF fd(3) [unfolded ds] refl es, of sys] s'(1) fd(4)
    by (simp add: drv_pwm_update_info_def del: limit_duty_eq)
  then show thesis using that [of ?a] fd s'(2) by (simp add: flying_def)
qed


lemma drive_flies:
  assumes "flying ds a"
  obtains a' where "drive sys d a = Some (0, a')" "drv_motor_update sys (set_all_dutys d a) = Some (0, a')"
    "flying (replicate 4 (limit_duty d)) a'" "naps a' = naps a"
proof -
  have l: "length (dutys (mot a)) = 4" using assms by (simp add: flying_def)
  have f: "flying ds (set_all_dutys d a)" using assms by (simp add: flying_def set_all_dutys_def)
  then obtain a' where "drv_motor_update sys (set_all_dutys d a) = Some (0, a')"
    "flying (map limit_duty (dutys (mot (set_all_dutys d a)))) a'" "naps a' = naps (set_all_dutys d a)"
    by (rule update_flies)
  then show thesis using that l by (simp add: drive_def set_all_dutys_def del: limit_duty_eq)
qed

lemma flying_sleep [simp]: "flying ds (sleep n a) = flying ds a"
  by (simp add: flying_def sleep_def)

lemma deinit_stops:
  assumes "flying ds a"
  obtains a' where "drv_motor_deinit sys a = Some a'" "idle (os a')" "naps a' = naps a" "motor_shape (mot a')"
proof -
  obtain fd where fd: "pwm_devs_fd (mot a) = [fd]" "running fd (info_of ds) (os a)"
    using assms unfolding flying_def by blast
  obtain s1 where 1: "sys_ioctl sys fd PWMIOC_STOP (Arg_ulong 0) (os a) = Some (0, Arg_ulong 0, s1)" "stopped fd s1"
    using stop_ok [OF fd(2)] by blast
  obtain s2 where 2: "sys_close sys fd s1 = Some (0, s2)" "idle s2" using close_ok [OF 1(2)] by blast
  let ?a = "a\<lparr>mot := (mot a)\<lparr>pwm_devs_fd := [- 1]\<rparr>, os := s2\<rparr>"
  have "drv_motor_deinit sys a = Some ?a"
    using fd(1) 1(1) 2(1) by (simp add: drv_motor_deinit_def drv_pwm_stop_def drv_pwm_deinit_def)
  moreover have "motor_shape (mot ?a)" using assms by (auto simp: flying_def motor_shape_def info_of_def)
  ultimately show thesis using that [of ?a] 2(2) by simp
qed

text \<open>What the motors did while the program slept.\<close>

definition shows_duty :: "u32 \<Rightarrow> 's \<Rightarrow> bool" where
  "shows_duty d s \<longleftrightarrow> (\<exists>fd. running fd (info_of (replicate 4 d)) s)"

definition rests :: "(nat \<times> u32) list \<Rightarrow> (nat \<times> 's) list \<Rightarrow> bool" where
  "rests ps ns \<longleftrightarrow> list_all2 (\<lambda>(n, d) (n', s). n' = n \<and> shows_duty d s) ps ns"

lemma rests_sleep:
  assumes "rests ps (naps a)" "flying (replicate 4 d) a"
  shows "rests (ps @ [(n, d)]) (naps (sleep n a))"
  using assms by (auto simp: rests_def sleep_def shows_duty_def flying_def intro: list_all2_appendI)

text \<open>Driving and then sleeping extends the record of rests.\<close>

lemma drive_rests:
  assumes "flying ds a" "rests ps (naps a)"
  obtains a' where "drive sys d a = Some (0, a')" "drv_motor_update sys (set_all_dutys d a) = Some (0, a')"
    "flying (replicate 4 (limit_duty d)) (sleep n a')" "rests (ps @ [(n, limit_duty d)]) (naps (sleep n a'))"
  using drive_flies [OF assms(1)] rests_sleep assms(2) that flying_sleep by metis

lemma esc_init_rests:
  assumes "flying ds a" "rests ps (naps a)"
  obtains a' where "drv_motor_esc_init sys a = Some (0, a')" "flying (replicate 4 26214) a'"
    "rests (ps @ [(3, 52428), (3, 26214)]) (naps a')"
proof -
  obtain a1 where 1: "drv_motor_update sys (set_all_dutys 52428 a) = Some (0, a1)"
    "flying (replicate 4 (limit_duty 52428)) (sleep 3 a1)" "rests (ps @ [(3, limit_duty 52428)]) (naps (sleep 3 a1))"
    by (rule drive_rests [OF assms])
  obtain a2 where 2: "drv_motor_update sys (set_all_dutys 26214 (sleep 3 a1)) = Some (0, a2)"
    "flying (replicate 4 (limit_duty 26214)) (sleep 3 a2)"
    "rests ((ps @ [(3, limit_duty 52428)]) @ [(3, limit_duty 26214)]) (naps (sleep 3 a2))"
    by (rule drive_rests [OF 1(2,3)])
  have "drv_motor_esc_init sys a = Some (0, sleep 3 a2)" using 1(1) 2(1) by (simp add: drv_motor_esc_init_def Let_def)
  then show thesis using that [of "sleep 3 a2"] 2(2,3) by simp
qed

lemma test_motor_rests:
  assumes "motor_shape (mot a)" "idle (os a)" "naps a = []"
  shows "\<exists>a'. test_motor sys a = Some (0, a') \<and> idle (os a') \<and>
     rests [(3, 52428), (3, 26214), (1, 24466), (1, 25340), (1, 26214), (5, 39321), (5, 23592)] (naps a')"
proof -
  obtain a0 where 0: "drv_motor_init sys a = Some (0, a0)" "flying (replicate 4 23592) a0" "naps a0 = naps a"
    by (rule init_flies [OF assms(1,2)])
  have "rests [] (naps a0)" by (simp add: 0(3) assms(3) rests_def)
  then obtain a1 where 1: "drv_motor_esc_init sys a0 = Some (0, a1)" "flying (replicate 4 26214) a1"
    "rests ([] @ [(3, 52428), (3, 26214)]) (naps a1)" by (rule esc_init_rests [OF 0(2)])
  note step = drive_rests [where n = 1] drive_rests [where n = 5]
  obtain a2 where 2: "drive sys 24466 a1 = Some (0, a2)" "flying (replicate 4 (limit_duty 24466)) (sleep 1 a2)"
    "rests (([] @ [(3, 52428), (3, 26214)]) @ [(1, limit_duty 24466)]) (naps (sleep 1 a2))" by (rule step(1) [OF 1(2,3)])
  obtain a3 where 3: "drive sys 25340 (sleep 1 a2) = Some (0, a3)" "flying (replicate 4 (limit_duty 25340)) (sleep 1 a3)"
    "rests ((([] @ [(3, 52428), (3, 26214)]) @ [(1, limit_duty 24466)]) @ [(1, limit_duty 25340)]) (naps (sleep 1 a3))"
    by (rule step(1) [OF 2(2,3)])
  obtain a4 where 4: "drive sys 26214 (sleep 1 a3) = Some (0, a4)" "flying (replicate 4 (limit_duty 26214)) (sleep 1 a4)"
    "rests (((([] @ [(3, 52428), (3, 26214)]) @ [(1, limit_duty 24466)]) @ [(1, limit_duty 25340)]) @ [(1, limit_duty 26214)])
       (naps (sleep 1 a4))" by (rule step(1) [OF 3(2,3)])
  obtain a5 where 5: "drive sys 39321 (sleep 1 a4) = Some (0, a5)" "flying (replicate 4 (limit_duty 39321)) (sleep 5 a5)"
    "rests ((((([] @ [(3, 52428), (3, 26214)]) @ [(1, limit_duty 24466)]) @ [(1, limit_duty 25340)]) @ [(1, limit_duty 26214)])
       @ [(5, limit_duty 39321)]) (naps (sleep 5 a5))" by (rule step(2) [OF 4(2,3)])
  obtain a6 where 6: "drive sys 23592 (sleep 5 a5) = Some (0, a6)" "flying (replicate 4 (limit_duty 23592)) (sleep 5 a6)"
    "rests (((((([] @ [(3, 52428), (3, 26214)]) @ [(1, limit_duty 24466)]) @ [(1, limit_duty 25340)]) @ [(1, limit_duty 26214)])
       @ [(5, limit_duty 39321)]) @ [(5, limit_duty 23592)]) (naps (sleep 5 a6))" by (rule step(2) [OF 5(2,3)])
  obtain a7 where 7: "drv_motor_deinit sys (sleep 5 a6) = Some a7" "idle (os a7)" "naps a7 = naps (sleep 5 a6)"
    by (rule deinit_stops [OF 6(2)])
  have "test_motor sys a = Some (0, a7)"
    using 0(1) 1(1) 2(1) 3(1) 4(1) 5(1) 6(1) 7(1) by (simp add: test_motor_def Let_def)
  then show ?thesis using 7(2,3) 6(3) by simp
qed

end

section \<open>Flights\<close>

text \<open>What a program may ask of the motors: take off, set the four duty cycles, land.\<close>

datatype motor_op = Take_off | Throttle "u32 list" | Land

definition motor_do :: "'s syscalls \<Rightarrow> motor_op \<Rightarrow> 's app \<Rightarrow> (int \<times> 's app) option" where
  "motor_do sys op a =
     (case op of
        Take_off \<Rightarrow> drv_motor_init sys a
      | Throttle ds \<Rightarrow> drv_motor_update sys (a\<lparr>mot := (mot a)\<lparr>dutys := ds\<rparr>\<rparr>)
      | Land \<Rightarrow> do { a \<leftarrow> drv_motor_deinit sys a; Some (0, a) })"

fun flight :: "'s syscalls \<Rightarrow> motor_op list \<Rightarrow> 's app \<Rightarrow> 's app option" where
  "flight sys [] a = Some a"
| "flight sys (op # ops) a = do {
     (ret, a) \<leftarrow> motor_do sys op a;
     if ret = 0 then flight sys ops a else None
   }"

text \<open>The specification: motors are off, or turn with four duty cycles within the throttle range.\<close>

fun spec_do :: "motor_op \<Rightarrow> u32 list option \<Rightarrow> u32 list option option" where
  "spec_do Take_off None = Some (Some (replicate 4 23592))"
| "spec_do (Throttle ds) (Some es) = (if length ds = 4 then Some (Some (map (\<lambda>d. max 23592 (min 52428 d)) ds)) else None)"
| "spec_do Land (Some es) = Some None"
| "spec_do _ _ = None"

fun spec_flight :: "motor_op list \<Rightarrow> u32 list option \<Rightarrow> u32 list option option" where
  "spec_flight [] st = Some st"
| "spec_flight (op # ops) st = do { st \<leftarrow> spec_do op st; spec_flight ops st }"

text \<open>A state of the specification never leaves the throttle range.\<close>

definition in_range :: "u32 list option \<Rightarrow> bool" where
  "in_range st \<longleftrightarrow> (\<forall>ds. st = Some ds \<longrightarrow> length ds = 4 \<and> (\<forall>d \<in> set ds. 23592 \<le> d \<and> d \<le> 52428))"

lemma spec_do_in_range: "spec_do op st = Some st' \<Longrightarrow> in_range st'"
  by (cases "(op, st)" rule: spec_do.cases) (auto simp: in_range_def split: if_splits)

lemma spec_flight_in_range: "spec_flight ops st = Some st' \<Longrightarrow> in_range st \<Longrightarrow> in_range st'"
  by (induction ops arbitrary: st) (auto split: bind_splits dest: spec_do_in_range)

context motor_os
begin

lemma flying_shape: "flying ds a \<Longrightarrow> motor_shape (mot a)"
  by (auto simp: flying_def motor_shape_def info_of_def)

definition simulates :: "u32 list option \<Rightarrow> 's app \<Rightarrow> bool" where
  "simulates st a \<longleftrightarrow> (case st of None \<Rightarrow> motor_shape (mot a) \<and> idle (os a) | Some ds \<Rightarrow> flying ds a)"

lemma motor_do_simulates:
  assumes "spec_do op st = Some st'" "simulates st a"
  shows "\<exists>a'. motor_do sys op a = Some (0, a') \<and> simulates st' a'"
  using assms
proof (cases "(op, st)" rule: spec_do.cases)
  case 1
  then have "motor_shape (mot a)" "idle (os a)" using assms by (simp_all add: simulates_def)
  then obtain a' where "drv_motor_init sys a = Some (0, a')" "flying (replicate 4 23592) a'" by (rule init_flies)
  then show ?thesis using assms 1 by (auto simp: simulates_def motor_do_def)
next
  case (2 ds es)
  let ?a = "a\<lparr>mot := (mot a)\<lparr>dutys := ds\<rparr>\<rparr>"
  have "flying es ?a" using assms 2 by (auto simp: simulates_def flying_def split: if_splits)
  then obtain a' where "drv_motor_update sys ?a = Some (0, a')" "flying (map limit_duty (dutys (mot ?a))) a'"
    by (rule update_flies)
  moreover have "limit_duty = (\<lambda>d. max 23592 (min 52428 d))" by (rule ext) simp
  ultimately show ?thesis using assms 2 by (auto simp: simulates_def motor_do_def split: if_splits)
next
  case (3 es)
  then have "flying es a" using assms by (simp add: simulates_def)
  then obtain a' where "drv_motor_deinit sys a = Some a'" "idle (os a')" "motor_shape (mot a')"
    by (rule deinit_stops)
  then show ?thesis using assms 3 by (simp add: simulates_def motor_do_def)
qed auto

lemma flight_simulates:
  "spec_flight ops st = Some st' \<Longrightarrow> simulates st a \<Longrightarrow> \<exists>a'. flight sys ops a = Some a' \<and> simulates st' a'"
proof (induction ops arbitrary: st a)
  case (Cons op ops)
  then obtain st1 where 1: "spec_do op st = Some st1" "spec_flight ops st1 = Some st'" by (auto split: bind_splits)
  then obtain a1 where "motor_do sys op a = Some (0, a1)" "simulates st1 a1"
    using motor_do_simulates Cons.prems(2) by blast
  then show ?case using Cons.IH [OF 1(2)] by simp
qed simp

end

section \<open>A failing start\<close>

text \<open>When the device refuses the first settings, the motor driver closes its file but keeps the
  descriptor, and the test program's clean up then stops and closes that number a second time,
  whatever it stands for by then.\<close>

theorem failed_init_closes_twice:
  assumes "motor_shape (mot a)"
    "sys_open sys (Some (devpath 0)) 1 (os a) = Some (fd, s1)" "0 \<le> fd"
    "sys_ioctl sys fd PWMIOC_SETCHARACTERISTICS (Arg_pwm_info (info_of (replicate 4 ARMED_THROTTLE_DUTY))) s1 = Some (r, arg, s2)"
    "r < 0" "sys_close sys fd s2 = Some (r', s3)"
  shows "test_motor sys a =
     (do { (_, _, s4) \<leftarrow> sys_ioctl sys fd PWMIOC_STOP (Arg_ulong 0) s3;
           (_, s5) \<leftarrow> sys_close sys fd s4;
           Some (- 1, a\<lparr>mot := init_state (mot a), os := s5\<rparr>) })"
proof -
  let ?m = "init_state (mot a)"
  have "drv_motor_init sys a = Some (- 1, a\<lparr>mot := ?m\<lparr>pwm_devs_fd := [fd]\<rparr>, os := s3\<rparr>)"
    using assms(2-) by (simp add: drv_motor_init_def init_state_eq [OF assms(1)] drv_pwm_init_def drv_pwm_update_info_def
      errout_with_dev_def Let_def del: devpath_0)
  then show ?thesis
    by (simp add: test_motor_def errout_def drv_motor_deinit_def drv_pwm_stop_def drv_pwm_deinit_def
        init_state_eq [OF assms(1)] case_prod_unfold)
qed

text \<open>The motor structures as the program is loaded, zeroed, and a system that logs its calls and takes no
  settings.\<close>

definition motor_boot :: motor_state_s where
  "motor_boot = \<lparr>pwms_info = [\<lparr>frequency = 0, channels = replicate 4 \<lparr>duty = 0, channel = 0\<rparr>\<rparr>], pwm_devs_fd = [0],
     freq = 0, dutys = replicate 4 0\<rparr>"

lemma motor_boot_shape [simp]: "motor_shape motor_boot"
  by (simp add: motor_boot_def motor_shape_def)

definition refusing :: "(string \<times> int) list syscalls" where
  "refusing = \<lparr>sys_open = (\<lambda>_ _ s. Some (3, s @ [(''open'', 3)])),
     sys_close = (\<lambda>fd s. Some (0, s @ [(''close'', fd)])),
     sys_ioctl = (\<lambda>fd cmd arg s. Some (if cmd = PWMIOC_SETCHARACTERISTICS then - EBUSY else 0, arg, s @ [(''ioctl'', fd)]))\<rparr>"

theorem failed_init_closes_twice_witness:
  "\<exists>m. test_motor refusing \<lparr>mot = motor_boot, os = [], naps = []\<rparr> =
     Some (- 1, \<lparr>mot = m, os = [(''open'', 3), (''ioctl'', 3), (''close'', 3), (''ioctl'', 3), (''close'', 3)], naps = []\<rparr>)"
  using failed_init_closes_twice [of "\<lparr>mot = motor_boot, os = [], naps = []\<rparr>" refusing 3 "[(''open'', 3)]" "- EBUSY"
      "Arg_pwm_info (info_of (replicate 4 ARMED_THROTTLE_DUTY))" "[(''open'', 3), (''ioctl'', 3)]" 0
      "[(''open'', 3), (''ioctl'', 3), (''close'', 3)]"]
  by (simp add: refusing_def)

end
