(* ===== verification/Motor_System.thy ===== *)
theory Motor_System
  imports Board Motor_Laws
begin

text \<open>
  The motor driver of the application on the board's operating system, down to the registers of the
  timer: the system calls of the virtual file system interpret the contract of the motor driver, and
  flights, pulse widths and the test program are followed from the application to the motor pins.
\<close>

section \<open>The system under the program\<close>

definition nuttx :: "'z board_scheme proxy \<Rightarrow> 'z board_scheme vfs syscalls" where
  "nuttx bp = \<lparr>sys_open = open_call bp, sys_close = close_call, sys_ioctl = ioctl_call\<rparr>"

lemma nuttx_sel [simp]:
  "sys_open (nuttx bp) = open_call bp" "sys_close (nuttx bp) = close_call" "sys_ioctl (nuttx bp) = ioctl_call"
  by (simp_all add: nuttx_def)

interpretation board: motor_os "nuttx bp" motor_idle "\<lambda>fd s. motor_port s fd Ready" "\<lambda>fd i s. motor_port s fd (Loaded i)"
    "\<lambda>fd i s. motor_port s fd (Running i)" "\<lambda>fd s. motor_port s fd Stopped"
  for bp :: "'z board_scheme proxy"
proof unfold_locales
  show "motor_idle s \<Longrightarrow> \<exists>fd s'. sys_open (nuttx bp) (Some (devpath 0)) 1 s = Some (fd, s') \<and> 0 \<le> fd \<and> motor_port s' fd Ready"
    for s :: "'z board_scheme vfs" using port_open by simp
  show "motor_port s fd Stopped \<Longrightarrow> \<exists>s'. sys_close (nuttx bp) fd s = Some (0, s') \<and> motor_idle s'"
    for fd and s :: "'z board_scheme vfs" using port_close [of s fd Stopped] by auto
qed (simp_all add: port_load port_start port_set port_stop)

lemma idle_quiet: "motor_idle s \<Longrightarrow> stm32_quiet (hw (drv s))"
  by (auto simp: motor_idle_def)

lemma running_outputs: "motor_port s fd (Running i) \<Longrightarrow> outputs (hw (drv s)) i"
  by (auto simp: motor_port_def phase_ok_def)

text \<open>What the pins show: silence, or the pulses of four duty cycles at 400 Hz.\<close>

definition motors_show :: "'z board_scheme vfs \<Rightarrow> u32 list option \<Rightarrow> bool" where
  "motors_show s st \<longleftrightarrow>
     (case st of None \<Rightarrow> stm32_quiet (hw (drv s)) | Some ds \<Rightarrow> outputs (hw (drv s)) (info_of ds))"

lemma simulates_shows: "board.simulates st a \<Longrightarrow> motors_show (os a) st"
  by (auto simp: motors_show_def board.simulates_def board.flying_def dest: idle_quiet running_outputs split: option.splits)

section \<open>Flights on the board\<close>

text \<open>C1: The motor driver on the board does what its specification says.  For every sequence of
  take-offs, throttle settings and landings in an allowed order, started on an idle board, every call
  returns success and the motor pins then show the state of the specification: silence when the
  motors are off, else at 400 Hz the four requested duty cycles limited to the throttle range.\<close>

theorem motor_stack_refines:
  assumes "spec_flight ops None = Some st" "motor_idle (os a)" "motor_shape (mot a)"
  shows "\<exists>a'. flight (nuttx bp) ops a = Some a' \<and> motors_show (os a') st"
proof -
  have "board.simulates None a" using assms(2,3) by (simp add: board.simulates_def)
  then show ?thesis using board.flight_simulates [OF assms(1)] simulates_shows by blast
qed


text \<open>The board of the example: reset, set up, and the program loaded.\<close>

lemma boot_setup: "\<exists>s. stm32_pwm_setup ws boot_vfs = Some (0, s) \<and> motor_idle s"
  by (rule setup_idle [OF boot_vfs_ok])

definition loaded_program :: "'s \<Rightarrow> 's app" where
  "loaded_program s = \<lparr>mot = motor_boot, os = s, naps = []\<rparr>"

lemma loaded_program_sel [simp]:
  "mot (loaded_program s) = motor_boot" "os (loaded_program s) = s" "naps (loaded_program s) = []"
  by (simp_all add: loaded_program_def)

theorem motor_stack_refines_witness:
  "\<exists>s. stm32_pwm_setup [] boot_vfs = Some (0, s) \<and>
     (\<exists>a'. flight (nuttx (\<lambda>_ _ _. None)) [Take_off, Throttle [0, 30000, 40000, 0xffffffff]] (loaded_program s) = Some a' \<and>
       motors_show (os a') (Some [23592, 30000, 40000, 52428]))"
proof -
  obtain s where s: "stm32_pwm_setup [] boot_vfs = Some (0, s)" "motor_idle s" using boot_setup by blast
  then show ?thesis
    using motor_stack_refines [of "[Take_off, Throttle [0, 30000, 40000, 0xffffffff]]" _ "loaded_program s"]
    by (simp add: max_def min_def)
qed

section \<open>Pulse widths\<close>

text \<open>The width of the pulses on motor k and their period, in microseconds: the timer counts at
  84 MHz divided by the prescaler.\<close>

definition pulse_us :: "'z board_scheme vfs \<Rightarrow> u8 \<Rightarrow> rat" where
  "pulse_us s k =
     of_nat (unat (tim2_reg (ccr_off k) (mcu_st (hw (drv s)))) * (unat (tim2_reg GTIM_PSC (mcu_st (hw (drv s)))) + 1)) / 84"

definition period_us :: "'z board_scheme vfs \<Rightarrow> rat" where
  "period_us s =
     of_nat ((unat (tim2_reg GTIM_ARR (mcu_st (hw (drv s)))) + 1) * (unat (tim2_reg GTIM_PSC (mcu_st (hw (drv s)))) + 1)) / 84"

lemma rate_400 [simp]: "freq_prescaler 84000000 400 = 4" "freq_reload 84000000 400 = 52499"
  by (simp_all add: freq_prescaler_def freq_reload_def Let_def)

lemma shown_pulses:
  assumes "motors_show s (Some ds)" "length ds = 4" "k < 4"
  shows "pulse_us s (of_nat (k + 1)) = of_nat (unat (duty_to_ccr (ds ! k) 52499)) / 21" "period_us s = 2500"
proof -
  let ?r = "\<lambda>off. tim2_reg off (mcu_st (hw (drv s)))"
  obtain d1 d2 d3 d4 where ds: "ds = [d1, d2, d3, d4]" using assms(2) by (rule four_elements)
  have o: "?r GTIM_ARR = 52499" "unat (?r GTIM_PSC) + 1 = 4"
    "\<forall>c \<in> set (channels (info_of ds)). channel c \<noteq> 0 \<longrightarrow> ?r (ccr_off (channel c)) = duty_to_ccr (duty c) 52499"
    using assms(1) by (simp_all add: motors_show_def outputs_def)
  show "period_us s = 2500" using o(1,2) by (simp add: period_us_def)
  have "k = 0 \<or> k = 1 \<or> k = 2 \<or> k = 3" using assms(3) by linarith
  then have "?r (ccr_off (of_nat (k + 1))) = duty_to_ccr (ds ! k) 52499"
    using o(3) by (auto simp: ds info_of_def)
  then show "pulse_us s (of_nat (k + 1)) = of_nat (unat (duty_to_ccr (ds ! k) 52499)) / 21"
    using o(2) by (simp add: pulse_us_def)
qed

text \<open>The compare value of a duty cycle below 1.0, as a number.\<close>

lemma ccr_400: "d \<le> 0x10000 \<Longrightarrow> unat (duty_to_ccr d 52499) = (unat d * 52499 + 32768) div 65536"
  using duty_to_ccr_nat [of d 52499] by (simp add: word_le_nat_alt)

text \<open>C2: Whatever the program asks for, a motor never sees a pulse outside the range of its
  speed controller: after every flight that has not landed the pulses repeat every 2500 microseconds
  and are between 899.9 and 2000 microseconds wide, on all four motors.\<close>

theorem pulses_within_limits:
  assumes "spec_flight ops None = Some (Some ds)" "motor_idle (os a)" "motor_shape (mot a)" "k < 4"
  shows "\<exists>a'. flight (nuttx bp) ops a = Some a' \<and> period_us (os a') = 2500 \<and>
     899.9 \<le> pulse_us (os a') (of_nat (k + 1)) \<and> pulse_us (os a') (of_nat (k + 1)) \<le> 2000"
proof -
  have "board.simulates None a" using assms(2,3) by (simp add: board.simulates_def)
  then obtain a' where a': "flight (nuttx bp) ops a = Some a'" "motors_show (os a') (Some ds)"
    using board.flight_simulates [OF assms(1)] simulates_shows by blast
  have "in_range (Some ds)" by (rule spec_flight_in_range [OF assms(1)]) (simp add: in_range_def)
  then have ds: "length ds = 4" "23592 \<le> ds ! k" "ds ! k \<le> 52428" using assms(4) by (auto simp: in_range_def)
  let ?u = "unat (duty_to_ccr (ds ! k) 52499)"
  have d: "23592 \<le> unat (ds ! k)" "unat (ds ! k) \<le> 52428" using ds(2,3) by (simp_all add: word_le_nat_alt)
  have "?u = (unat (ds ! k) * 52499 + 32768) div 65536" by (rule ccr_400) (use d in \<open>simp add: word_le_nat_alt\<close>)
  then have "18899 \<le> ?u" "?u \<le> 41999" using d by linarith+
  then have "(18899 :: rat) \<le> of_nat ?u" "of_nat ?u \<le> (41999 :: rat)" by (metis of_nat_le_iff of_nat_numeral)+
  then show ?thesis using a' shown_pulses [OF a'(2) ds(1) assms(4)] by auto
qed

theorem pulses_within_limits_witness:
  "\<exists>s a'. stm32_pwm_setup [] boot_vfs = Some (0, s) \<and>
     flight (nuttx (\<lambda>_ _ _. None)) [Take_off, Throttle [0, 30000, 40000, 0xffffffff]] (loaded_program s) = Some a' \<and>
     pulse_us (os a') 4 \<le> 2000"
proof -
  obtain s where s: "stm32_pwm_setup [] boot_vfs = Some (0, s)" "motor_idle s" using boot_setup by blast
  then show ?thesis
    using pulses_within_limits [of "[Take_off, Throttle [0, 30000, 40000, 0xffffffff]]" _ "loaded_program s" 3]
    by auto
qed

lemma duty_of_pulse:
  assumes "900 \<le> us" "us \<le> 2000"
  defines "d \<equiv> unat (PLUSE_US_TO_DUTY us 400)"
  shows "23592 \<le> d" "d \<le> 52428" "d * 1000 \<le> us * 26214" "us * 26214 \<le> d * 1000 + 1000"
proof -
  have "d * 1000000 \<le> us * 400 * 65535 \<and> us * 400 * 65535 \<le> (d + 1) * 1000000"
    unfolding d_def by (rule pulse_to_duty) (use assms in simp_all)
  then show "d * 1000 \<le> us * 26214" "us * 26214 \<le> d * 1000 + 1000" by simp_all
  then show "23592 \<le> d" "d \<le> 52428" using assms(1,2) by linarith+
qed

lemma pulse_of_duty:
  assumes us: "900 \<le> us" "us \<le> 2000"
  defines "d \<equiv> PLUSE_US_TO_DUTY us 400"
  shows "\<bar>of_nat (unat (duty_to_ccr d 52499)) / 21 - of_nat us\<bar> \<le> (0.14 :: rat)"
proof -
  note b = duty_of_pulse [OF us, folded d_def]
  define u where "u = unat (duty_to_ccr d 52499)"
  have "u = (unat d * 52499 + 32768) div 65536"
    unfolding u_def by (rule ccr_400) (use b in \<open>simp add: word_le_nat_alt\<close>)
  then have "unat d * 52499 + 32768 = 65536 * u + (unat d * 52499 + 32768) mod 65536" by simp
  moreover have "(unat d * 52499 + 32768) mod 65536 < 65536" by simp
  ultimately have "65536 * u \<le> unat d * 52499 + 32768" "unat d * 52499 \<le> 65536 * u + 32768" by linarith+
  then have "100 * u \<le> 2100 * us + 294" "2100 * us \<le> 100 * u + 294" using b(3,4) us by linarith+
  then have "rat_of_nat (100 * u) \<le> of_nat (2100 * us + 294)" "rat_of_nat (2100 * us) \<le> of_nat (100 * u + 294)"
    unfolding of_nat_le_iff .
  then show ?thesis unfolding u_def [symmetric] abs_le_iff by simp
qed

lemma spec_flight_append:
  "spec_flight (ops @ ops') st = do { st \<leftarrow> spec_flight ops st; spec_flight ops' st }"
  by (induction ops arbitrary: st) (simp_all split: bind_split)

text \<open>C3: The pulse that reaches a motor is the pulse that the program computed.  For pulse widths in
  the throttle range, converted with the driver's macro and commanded at any time during a flight, the
  pulses on all four pins are within 0.14 microseconds of them: the rounding of the double precision
  conversion, of the fixed point duty cycle and of the compare register together.\<close>

theorem commanded_pulse_width:
  assumes "spec_flight ops None = Some (Some es)" "motor_idle (os a)" "motor_shape (mot a)"
    "length uss = 4" "\<forall>us \<in> set uss. 900 \<le> us \<and> us \<le> 2000" "k < 4"
  shows "\<exists>a'. flight (nuttx bp) (ops @ [Throttle (map (\<lambda>us. PLUSE_US_TO_DUTY us CONFIG_CHEWIE_MOTOR_PWM_FREQUENCY) uss)]) a = Some a' \<and>
     \<bar>pulse_us (os a') (of_nat (k + 1)) - of_nat (uss ! k)\<bar> \<le> 0.14"
proof -
  let ?ds = "map (\<lambda>us. PLUSE_US_TO_DUTY us 400) uss"
  have lim: "max 23592 (min 52428 (PLUSE_US_TO_DUTY us 400)) = PLUSE_US_TO_DUTY us 400" if "us \<in> set uss" for us
    using duty_of_pulse(1,2) [of us] assms(5) that by (simp add: max_absorb2 min_absorb2 word_le_nat_alt)
  have "spec_flight (ops @ [Throttle ?ds]) None = Some (Some ?ds)"
    using assms(1,4) lim by (simp add: spec_flight_append cong: map_cong)
  moreover have "board.simulates None a" using assms(2,3) by (simp add: board.simulates_def)
  ultimately obtain a' where a': "flight (nuttx bp) (ops @ [Throttle ?ds]) a = Some a'" "motors_show (os a') (Some ?ds)"
    using board.flight_simulates simulates_shows by blast
  have "900 \<le> uss ! k" "uss ! k \<le> 2000" using assms(4-6) by simp_all
  from pulse_of_duty [OF this] have "\<bar>pulse_us (os a') (of_nat (k + 1)) - of_nat (uss ! k)\<bar> \<le> 0.14"
    by (subst shown_pulses(1) [OF a'(2)]) (use assms(4,6) in simp_all)
  then show ?thesis using a'(1) by blast
qed

theorem commanded_pulse_width_witness:
  "\<exists>s a'. stm32_pwm_setup [] boot_vfs = Some (0, s) \<and>
     flight (nuttx (\<lambda>_ _ _. None)) [Take_off, Throttle (map (\<lambda>us. PLUSE_US_TO_DUTY us 400) [900, 1100, 1500, 2000])] (loaded_program s)
       = Some a' \<and> \<bar>pulse_us (os a') 3 - 1500\<bar> \<le> 0.14"
proof -
  obtain s where s: "stm32_pwm_setup [] boot_vfs = Some (0, s)" "motor_idle s" using boot_setup by blast
  then show ?thesis
    using commanded_pulse_width [of "[Take_off]" "replicate 4 23592" "loaded_program s" "[900, 1100, 1500, 2000]" 2]
    by (simp add: numeral_eq_Suc)
qed

section \<open>The test program\<close>

text \<open>C4: The test program of the unit test build, on a board that has just been set up, returns 0.  While
  it sleeps the motors turn with the throttle of each stage: the calibration of the speed controllers
  with the highest and the lowest throttle, three steps of 874 from the armed throttle, half throttle and
  the armed throttle; when it returns, the device is closed and the motor pins are silent.\<close>

theorem test_program_on_board:
  assumes "motor_idle (os a)" "motor_shape (mot a)" "naps a = []"
  shows "\<exists>a'. test_motor (nuttx bp) a = Some (0, a') \<and> stm32_quiet (hw (drv (os a'))) \<and> motor_idle (os a') \<and>
     list_all2 (\<lambda>(n, d) (n', s). n' = n \<and> motors_show s (Some (replicate 4 d)))
       [(3, MAX_THROTTLE_DUTY), (3, MIN_THROTTLE_DUTY), (1, ARMED_THROTTLE_DUTY + 874), (1, ARMED_THROTTLE_DUTY + 1748),
        (1, ARMED_THROTTLE_DUTY + 2622), (5, HALF_THROTTLE_DUTY), (5, ARMED_THROTTLE_DUTY)] (naps a')"
proof -
  obtain a' where a': "test_motor (nuttx bp) a = Some (0, a')" "motor_idle (os a')"
    "board.rests [(3, 52428), (3, 26214), (1, 24466), (1, 25340), (1, 26214), (5, 39321), (5, 23592)] (naps a')"
    using board.test_motor_rests [OF assms(2,1,3)] by blast
  have "board.shows_duty d s \<Longrightarrow> motors_show s (Some (replicate 4 d))" for d and s :: "'z board_scheme vfs"
    by (auto simp: board.shows_duty_def motors_show_def dest: running_outputs)
  then have "list_all2 (\<lambda>(n, d) (n', s). n' = n \<and> motors_show s (Some (replicate 4 d)))
      [(3, 52428), (3, 26214), (1, 24466), (1, 25340), (1, 26214), (5, 39321), (5, 23592)] (naps a')"
    by (intro list_all2_mono [OF a'(3) [unfolded board.rests_def]]) auto
  then show ?thesis using a' idle_quiet by simp
qed

theorem test_program_on_board_witness:
  "\<exists>s a'. stm32_pwm_setup [] boot_vfs = Some (0, s) \<and>
     test_motor (nuttx (\<lambda>_ _ _. None)) (loaded_program s) = Some (0, a') \<and> stm32_quiet (hw (drv (os a')))"
proof -
  obtain s where s: "stm32_pwm_setup [] boot_vfs = Some (0, s)" "motor_idle s" using boot_setup by blast
  then show ?thesis using test_program_on_board [of "loaded_program s"] by fastforce
qed

end
