(* ===== verification/Imu_System.thy ===== *)
theory Imu_System
  imports Imu_Laws I2c_Driver Motor_System
begin

text \<open>
  The sensor driver of the application on the board's operating system: the system calls and the I2C
  character driver interpret its contract for every bus that answers the register read.  The main loop of
  the application is followed from its first call on; the last section is about the life of the I2C device
  structure.
\<close>

section \<open>The I2C device of a program\<close>

definition imu_dev :: "'w i2c_ops_s \<Rightarrow> ('w, 'z) iboard_scheme vfs \<Rightarrow> tree list \<Rightarrow> nat \<Rightarrow> nat \<Rightarrow> i2c_driver_s \<Rightarrow> bool" where
  "imu_dev ops s ts a p d \<longleftrightarrow> char_dev (i2cdrvr_fops ops) IMU_I2C_DEV_PATH s ts a p \<and> i2cdevs (drv s) p = Some d \<and>
     0 < semcount (i2c_exclsem d) \<and> \<not> i2c_unlinked d"

definition imu_idle :: "'w i2c_ops_s \<Rightarrow> ('w, 'z) iboard_scheme vfs \<Rightarrow> bool" where
  "imu_idle ops s \<longleftrightarrow> (\<exists>ts a p d. imu_dev ops s ts a p d \<and> allocate_loop 0 (fl_files s) \<noteq> None)"

definition imu_port :: "'w i2c_ops_s \<Rightarrow> ('w, 'z) iboard_scheme vfs \<Rightarrow> int \<Rightarrow> bool" where
  "imu_port ops s fd \<longleftrightarrow> (\<exists>ts a p d n. fd = int n \<and> n < CONFIG_NFILE_DESCRIPTORS \<and> f_inode (fl_files s ! n) = Some a \<and>
     imu_dev ops s ts a p d)"

text \<open>What the sensor driver needs of the bus: the answer to its register read is the current sample.\<close>

definition bus_serves :: "'w i2c_ops_s \<Rightarrow> ('w \<Rightarrow> 16 word list) \<Rightarrow> bool" where
  "bus_serves ops sens \<longleftrightarrow> (\<forall>w buf. length (sens w) = 12 \<and> (24 \<le> length buf \<longrightarrow>
     (\<exists>m1 m2 w'. op_transfer ops (imu_request buf) w = Some (0, [m1, m2], w') \<and> msg_buffer m2 = sample_bytes (sens w) @ drop 24 buf)))"

lemma imu_port_open:
  assumes "imu_idle ops s"
  shows "\<exists>fd s'. open_call bp (Some IMU_I2C_DEV_PATH) O_RDONLY s = Some (fd, s') \<and> 0 \<le> fd \<and> fd < 8 \<and> imu_port ops s' fd"
proof -
  obtain ts a p d n where d: "char_dev (i2cdrvr_fops ops) IMU_I2C_DEV_PATH s ts a p" "i2cdevs (drv s) p = Some d"
    "0 < semcount (i2c_exclsem d)" "\<not> i2c_unlinked d" "allocate_loop 0 (fl_files s) = Some n"
    using assms unfolding imu_idle_def imu_dev_def by blast
  let ?d = "d\<lparr>i2c_crefs := i2c_crefs d + 1\<rparr>"
  have "i2cdrvr_open p (drv s) = Some (OK, (drv s)\<lparr>i2cdevs := (i2cdevs (drv s))(p \<mapsto> ?d)\<rparr>)"
    using d(2,3) by (simp add: i2cdrvr_open_def Let_def)
  then obtain s' where s': "open_call bp (Some IMU_I2C_DEV_PATH) O_RDONLY s = Some (int n, s')"
    "char_dev (i2cdrvr_fops ops) IMU_I2C_DEV_PATH s' ts a p" "drv s' = (drv s)\<lparr>i2cdevs := (i2cdevs (drv s))(p \<mapsto> ?d)\<rparr>"
    "n < CONFIG_NFILE_DESCRIPTORS" "f_inode (fl_files s' ! n) = Some a"
    by (rule i2cdev.device_open [OF d(1,5)]) simp
  have "imu_dev ops s' ts a p ?d" using s'(2,3) d(3,4) by (simp add: imu_dev_def)
  then have "imu_port ops s' (int n)" unfolding imu_port_def using s'(4,5) by blast
  moreover have "0 \<le> int n" "int n < 8" using s'(4) by simp_all
  ultimately show ?thesis using s'(1) by blast
qed

lemma imu_port_read:
  assumes "imu_port ops s fd" "bus_serves ops sens" "24 \<le> length buf"
  shows "\<exists>m1 m2 s'. ioctl_call fd I2CIOC_TRANSFER (Arg_i2c_transfer (imu_request buf)) s = Some (0, Arg_i2c_transfer [m1, m2], s') \<and>
     msg_buffer m2 = sample_bytes (sens (i2cbus (drv s))) @ drop 24 buf \<and> imu_port ops s' fd"
proof -
  obtain ts a p d n where d: "fd = int n" "n < CONFIG_NFILE_DESCRIPTORS" "f_inode (fl_files s ! n) = Some a"
    "char_dev (i2cdrvr_fops ops) IMU_I2C_DEV_PATH s ts a p" "i2cdevs (drv s) p = Some d"
    "0 < semcount (i2c_exclsem d)" "\<not> i2c_unlinked d" using assms(1) unfolding imu_port_def imu_dev_def by blast
  obtain m1 m2 w' where w: "op_transfer ops (imu_request buf) (i2cbus (drv s)) = Some (0, [m1, m2], w')"
    "msg_buffer m2 = sample_bytes (sens (i2cbus (drv s))) @ drop 24 buf"
    using assms(2,3) unfolding bus_serves_def by blast
  let ?b = "(drv s)\<lparr>i2cdevs := (i2cdevs (drv s))(p \<mapsto> d), i2cbus := w'\<rparr>"
  have "i2cdrvr_ioctl ops p I2CIOC_TRANSFER (Arg_i2c_transfer (imu_request buf)) (drv s) = Some (0, Arg_i2c_transfer [m1, m2], ?b)"
    using d(5,6) w(1) by (simp add: i2cdrvr_ioctl_def i2cdrvr_cmd_def Let_def)
  from i2cdev.device_ioctl [OF d(4,2,3) this]
  have "ioctl_call fd I2CIOC_TRANSFER (Arg_i2c_transfer (imu_request buf)) s = Some (0, Arg_i2c_transfer [m1, m2], s\<lparr>drv := ?b\<rparr>)"
    using d(1) by simp
  moreover have "imu_port ops (s\<lparr>drv := ?b\<rparr>) fd"
    unfolding imu_port_def imu_dev_def using d by (intro exI [of _ ts] exI [of _ a] exI [of _ p] exI [of _ d] exI [of _ n]) simp
  ultimately show ?thesis using w(2) by blast
qed

lemma imu_port_close:
  assumes "imu_port ops s fd"
  shows "\<exists>s'. close_call fd s = Some (0, s') \<and> imu_idle ops s'"
proof -
  obtain ts a p d n where d: "fd = int n" "n < CONFIG_NFILE_DESCRIPTORS" "f_inode (fl_files s ! n) = Some a"
    "char_dev (i2cdrvr_fops ops) IMU_I2C_DEV_PATH s ts a p" "i2cdevs (drv s) p = Some d"
    "0 < semcount (i2c_exclsem d)" "\<not> i2c_unlinked d" using assms unfolding imu_port_def imu_dev_def by blast
  let ?d = "d\<lparr>i2c_crefs := i2c_crefs d - 1\<rparr>"
  have "i2cdrvr_close p (drv s) = Some (OK, (drv s)\<lparr>i2cdevs := (i2cdevs (drv s))(p \<mapsto> ?d)\<rparr>)"
    using d(5-7) by (simp add: i2cdrvr_close_def Let_def)
  then obtain s' where s': "close_call (int n) s = Some (0, s')" "char_dev (i2cdrvr_fops ops) IMU_I2C_DEV_PATH s' ts a p"
    "drv s' = (drv s)\<lparr>i2cdevs := (i2cdevs (drv s))(p \<mapsto> ?d)\<rparr>" "allocate_loop 0 (fl_files s') \<noteq> None"
    by (rule i2cdev.device_close [OF d(4,2,3)]) simp
  have "imu_dev ops s' ts a p ?d" using s'(2,3) d(6,7) by (simp add: imu_dev_def)
  then show ?thesis unfolding imu_idle_def using s'(1,4) d(1) by blast
qed

interpretation board_imu: imu_os "nuttx bp" "\<lambda>s. bus_serves ops sens \<and> imu_idle ops s"
    "\<lambda>fd s. bus_serves ops sens \<and> imu_port ops s fd" "\<lambda>s. sens (i2cbus (drv s))"
  for bp :: "('w, 'z) iboard_scheme proxy" and ops sens
proof unfold_locales
  show "bus_serves ops sens \<and> imu_idle ops s \<Longrightarrow>
      \<exists>fd s'. sys_open (nuttx bp) (Some IMU_I2C_DEV_PATH) 1 s = Some (fd, s') \<and> 0 \<le> fd \<and> fd < 2147483648 \<and> bus_serves ops sens \<and> imu_port ops s' fd"
    for s :: "('w, 'z) iboard_scheme vfs" using imu_port_open [of ops s bp] by fastforce
qed (auto simp: imu_port_read imu_port_close bus_serves_def)

section \<open>Registration of the bus\<close>

lemma i2c2_path: "i2c_devname 2 = IMU_I2C_DEV_PATH" "good_path IMU_I2C_DEV_PATH"
  by (simp add: i2c_devname_def decimal.simps, code_simp, code_simp)

lemma vfs_inv_alloc:
  "vfs_inv s ts \<Longrightarrow> vfs_inv (s\<lparr>brk := Suc (brk s), drv := d\<rparr>) ts"
  by (auto simp: vfs_inv_def wf_tree_def tree_unlocked_def files_ok_def inodes_ok_def less_Suc_eq)

lemma i2c_register_idle:
  assumes "vfs_inv s ts" "\<forall>n. \<not> oom s n" "tfind ts IMU_I2C_DEV_PATH = None" "allocate_loop 0 (fl_files s) \<noteq> None"
  shows "\<exists>s'. i2c_register ops 2 ws s = Some (OK, s') \<and> imu_idle ops s' \<and> oom s' = oom s"
proof -
  let ?p = "brk s"
  let ?d = "\<lparr>i2c_exclsem = nxsem_init 1 ws, i2c_crefs = 0, i2c_unlinked = False\<rparr>"
  let ?s1 = "s\<lparr>brk := Suc (brk s), drv := (drv s)\<lparr>i2cdevs := (i2cdevs (drv s))(?p \<mapsto> ?d)\<rparr>\<rparr>"
  let ?ts = "tinsert ts (skip_slashes IMU_I2C_DEV_PATH) (brk ?s1)"
  have "vfs_inv ?s1 ts" using assms(1) by (rule vfs_inv_alloc)
  then obtain s' a i where r: "register_driver IMU_I2C_DEV_PATH (i2cdrvr_fops ops) ?p ?s1 = Some (OK, s')"
    "vfs_inv s' ?ts" "tfind ?ts IMU_I2C_DEV_PATH = Some a" "inodes s' a = Some i"
    "i_ops i = Some (i2cdrvr_fops ops)" "i_private i = ?p" "i_flags i = 0" "drv s' = drv ?s1" "fl_files s' = fl_files ?s1" "oom s' = oom ?s1"
    by (rule register_vfs [OF _ _ i2c2_path(2) assms(3)]) (use assms(2) in \<open>auto intro: that\<close>)
  have "i2c_register ops 2 ws s = Some (OK, s')"
    using r(1) assms(2) by (simp add: i2c_register_def i2c2_path(1) Let_def)
  moreover have "imu_dev ops s' ?ts a ?p ?d"
    using r i2c2_path(2) by (auto simp: imu_dev_def char_dev_def INODE_IS_TYPE_def nxsem_init_def)
  ultimately show ?thesis unfolding imu_idle_def using r(9,10) assms(4) by fastforce
qed

text \<open>The registration of an I2C bus does not report its failure.  When the device name is taken,
  \<^verbatim>\<open>i2c_register\<close> answers OK, yet the name still leads to the driver that had it and the new device
  structure has been freed: the caller takes a bus for registered that nobody can open.\<close>

theorem i2c_register_hides_failure:
  assumes "vfs_inv s ts" "\<not> oom s (brk s)" "good_path (i2c_devname bus)" "tfind ts (i2c_devname bus) = Some a"
  shows "\<exists>s'. i2c_register ops bus ws s = Some (OK, s') \<and> inodes s' = inodes s \<and> g_root_inode s' = g_root_inode s \<and>
     i2cdevs (drv s') (brk s) = None"
proof -
  let ?d = "\<lparr>i2c_exclsem = nxsem_init 1 ws, i2c_crefs = 0, i2c_unlinked = False\<rparr>"
  let ?s1 = "s\<lparr>brk := Suc (brk s), drv := (drv s)\<lparr>i2cdevs := (i2cdevs (drv s))(brk s \<mapsto> ?d)\<rparr>\<rparr>"
  have "vfs_inv ?s1 ts" using assms(1) by (rule vfs_inv_alloc)
  then have "register_driver (i2c_devname bus) (i2cdrvr_fops ops) (brk s) ?s1 = Some (- EEXIST, ?s1)"
    using assms(3,4) by (intro register_existing) (auto simp: vfs_inv_def)
  then show ?thesis using assms(2) by (simp add: i2c_register_def Let_def)
qed

text \<open>The board with an I2C bus, out of reset; its world is the number of transfers so far, and its sensor
  counts them.\<close>

definition boot_iboard :: "nat iboard vfs" where
  "boot_iboard = \<lparr>inodes = (\<lambda>_. None), g_root_inode = None,
     g_inode_sem = \<lparr>isem = \<lparr>semcount = 1, wakes = []\<rparr>, holder = NO_HOLDER, hcount = 0\<rparr>,
     brk = 0, oom = (\<lambda>_. False), mypid = 3,
     drv = \<lparr>uppers = (\<lambda>_. None), hw = boot_hw, i2cdevs = (\<lambda>_. None), i2cbus = 0\<rparr>,
     fl_sem = \<lparr>semcount = 1, wakes = []\<rparr>, fl_files = replicate 8 closed_file, errno = 0\<rparr>"

definition count_sensor :: "nat \<Rightarrow> 16 word list" where
  "count_sensor n = replicate 12 (of_nat n)"

definition count_bus :: "nat i2c_ops_s" where
  "count_bus = \<lparr>op_transfer = (\<lambda>ms n. case ms of
       [m1, m2] \<Rightarrow> Some (0, [m1, m2\<lparr>msg_buffer := sample_bytes (count_sensor n) @ drop 24 (msg_buffer m2)\<rparr>], n + 1)
     | _ \<Rightarrow> Some (- EINVAL, ms, n)), op_reset = (\<lambda>n. Some (0, 0))\<rparr>"

lemma count_bus_serves: "bus_serves count_bus count_sensor"
  by (simp add: bus_serves_def count_bus_def count_sensor_def imu_request_def read_msgs_def)

lemma boot_iboard_ok:
  "vfs_inv boot_iboard []" "\<forall>n. \<not> oom boot_iboard n" "tfind [] IMU_I2C_DEV_PATH = None"
  "allocate_loop 0 (fl_files boot_iboard) \<noteq> None"
  by (simp_all add: boot_iboard_def vfs_inv_def wf_tree_def tree_unlocked_def files_ok_def inodes_ok_def closed_file_def
      tfind_def allocate_loop_None)

lemma boot_i2c: "\<exists>s. i2c_register ops 2 ws boot_iboard = Some (OK, s) \<and> imu_idle ops s \<and> oom s = oom boot_iboard"
  by (rule i2c_register_idle [OF boot_iboard_ok])

theorem i2c_register_hides_failure_witness:
  "\<exists>s s' :: nat iboard vfs. i2c_register count_bus 2 [] boot_iboard = Some (OK, s) \<and>
     i2c_register count_bus 2 [] s = Some (OK, s') \<and> inodes s' = inodes s \<and> i2cdevs (drv s') (brk s) = None"
proof -
  obtain s where s: "i2c_register count_bus 2 [] boot_iboard = Some (OK, s)" "imu_idle count_bus s" "oom s = oom boot_iboard"
    using boot_i2c by blast
  obtain ts a where "vfs_inv s ts" "tfind ts IMU_I2C_DEV_PATH = Some a"
    using s(2) by (auto simp: imu_idle_def imu_dev_def char_dev_def)
  then show ?thesis
    using i2c_register_hides_failure [of s ts 2 a count_bus "[]"] s(1,3) i2c2_path boot_iboard_ok(2) by auto
qed

section \<open>The main loop\<close>

text \<open>C5: The main loop always works with the present attitude.  On a board whose bus answers, with a heap in order
  that has a free chunk, after any number of passes one more pass succeeds and the values that the program then
  holds are exactly the sample that the sensor had when the pass began; what the stack buffer held before does not
  matter.  The structure of the I2C library is read from the bytes of the heap in every pass; the passes
  themselves do not use the heap, which is damaged once the library is open, and nobody else does so meanwhile.\<close>

theorem main_loop_follows_sensor:
  assumes "bus_serves ops sens" "imu_idle ops (osys a)" "mm_ok R (uheap a)" "frees R \<noteq> {}" "me a \<noteq> NO_HOLDER"
    "\<forall>j \<in> set junks. length j = 30" "length junk = 30"
  shows "\<exists>a0 a1. chewie_main (nuttx bp) junks a = Some a0 \<and> chewie_main (nuttx bp) (junks @ [junk]) a = Some a1 \<and>
     drv_imu_date a1 = exact_sample (sens (i2cbus (drv (osys a0))))"
proof -
  obtain a' where i: "drv_imu_init (nuttx bp) a = Some a'" "board_imu.attached ops sens a'"
    by (rule board_imu.init_attaches [of ops sens a R]) (use assms(1-5) in simp_all)
  have "\<forall>j \<in> set junks. 24 \<le> length j" using assms(6) by auto
  then obtain a0 where a0: "main_loop (nuttx bp) junks a' = Some a0" "board_imu.attached ops sens a0"
    using board_imu.main_loop_runs [OF i(2)] by blast
  have "24 \<le> length junk" using assms(7) by simp
  then obtain a1 where "update (nuttx bp) junk a0 = Some (0, a1)" "drv_imu_date a1 = exact_sample (sens (i2cbus (drv (osys a0))))"
    by (rule board_imu.update_reads [OF a0(2)])
  moreover have "imu_update a0" using a0(2) by (simp add: board_imu.attached_def)
  ultimately show ?thesis using i(1) a0(1) by (simp add: chewie_main_def main_loop_append)
qed

theorem main_loop_follows_sensor_witness:
  "\<exists>s a0 a1. i2c_register count_bus 2 [] boot_iboard = Some (OK, s) \<and>
     chewie_main (nuttx (\<lambda>_ _ _. None)) [replicate 30 7] (loaded_imu s) = Some a0 \<and>
     chewie_main (nuttx (\<lambda>_ _ _. None)) [replicate 30 7, replicate 30 9] (loaded_imu s) = Some a1 \<and>
     drv_imu_date a1 = exact_sample (count_sensor (i2cbus (drv (osys a0))))"
proof -
  obtain s where s: "i2c_register count_bus 2 [] boot_iboard = Some (OK, s)" "imu_idle count_bus s" using boot_i2c by blast
  have "\<exists>a0 a1. chewie_main (nuttx (\<lambda>_ _ _. None)) [replicate 30 7] (loaded_imu s) = Some a0 \<and>
     chewie_main (nuttx (\<lambda>_ _ _. None)) ([replicate 30 7] @ [replicate 30 9]) (loaded_imu s) = Some a1 \<and>
     drv_imu_date a1 = exact_sample (count_sensor (i2cbus (drv (osys a0))))"
    by (rule main_loop_follows_sensor [OF count_bus_serves, of _ "board_regions 0x20001000"])
      (use s(2) started_heap_ok in simp_all)
  then show ?thesis using s(1) by simp
qed

end
