(* ===== verification/Queue.thy ===== *)
theory Queue
  imports Prelude
begin

text \<open>
  The linked queues of the C library (\<^verbatim>\<open>libs/libc/queue\<close>, \<^verbatim>\<open>include/queue.h\<close>).  The nodes live in a heap,
  a partial map from addresses to entries; an access to an address without an entry is not defined.
  A structure that begins with the links, like a task control block, is a record that extends the entry,
  and the functions work on it as the casts of the code do.
\<close>

section \<open>Model\<close>

record dq_entry_s =
  flink :: "nat option"
  blink :: "nat option"

record queue_s =
  qhead :: "nat option"
  qtail :: "nat option"

type_synonym 'z links = "nat \<Rightarrow> 'z dq_entry_s_scheme option"

definition set_flink :: "nat \<Rightarrow> nat option \<Rightarrow> 'z links \<Rightarrow> 'z links option" where
  "set_flink p v h = (case h p of None \<Rightarrow> None | Some e \<Rightarrow> Some (h(p \<mapsto> e\<lparr>flink := v\<rparr>)))"

definition set_blink :: "nat \<Rightarrow> nat option \<Rightarrow> 'z links \<Rightarrow> 'z links option" where
  "set_blink p v h = (case h p of None \<Rightarrow> None | Some e \<Rightarrow> Some (h(p \<mapsto> e\<lparr>blink := v\<rparr>)))"

definition dq_init :: queue_s where
  "dq_init = \<lparr>qhead = None, qtail = None\<rparr>"

definition dq_addfirst :: "nat \<Rightarrow> queue_s \<Rightarrow> 'z links \<Rightarrow> (queue_s \<times> 'z links) option" where
  "dq_addfirst node q h = do {
     h \<leftarrow> set_blink node None h;
     h \<leftarrow> set_flink node (qhead q) h;
     (case qhead q of
        None \<Rightarrow> Some (q\<lparr>qhead := Some node, qtail := Some node\<rparr>, h)
      | Some a \<Rightarrow> do { h \<leftarrow> set_blink a (Some node) h; Some (q\<lparr>qhead := Some node\<rparr>, h) })
   }"

definition dq_addlast :: "nat \<Rightarrow> queue_s \<Rightarrow> 'z links \<Rightarrow> (queue_s \<times> 'z links) option" where
  "dq_addlast node q h = do {
     h \<leftarrow> set_flink node None h;
     h \<leftarrow> set_blink node (qtail q) h;
     if qhead q = None then Some (q\<lparr>qhead := Some node, qtail := Some node\<rparr>, h)
     else do {
       a \<leftarrow> qtail q;
       h \<leftarrow> set_flink a (Some node) h;
       Some (q\<lparr>qtail := Some node\<rparr>, h)
     }
   }"

definition dq_addbefore :: "nat \<Rightarrow> nat \<Rightarrow> queue_s \<Rightarrow> 'z links \<Rightarrow> (queue_s \<times> 'z links) option" where
  "dq_addbefore nxt node q h =
     (if qhead q = None \<or> qhead q = Some nxt then dq_addfirst node q h
      else do {
        e \<leftarrow> h nxt;
        h \<leftarrow> set_flink node (Some nxt) h;
        h \<leftarrow> set_blink node (blink e) h;
        prev \<leftarrow> blink e;
        h \<leftarrow> set_flink prev (Some node) h;
        h \<leftarrow> set_blink nxt (Some node) h;
        Some (q, h)
      })"

definition dq_addafter :: "nat \<Rightarrow> nat \<Rightarrow> queue_s \<Rightarrow> 'z links \<Rightarrow> (queue_s \<times> 'z links) option" where
  "dq_addafter prev node q h =
     (if qhead q = None \<or> qtail q = Some prev then dq_addlast node q h
      else do {
        e \<leftarrow> h prev;
        h \<leftarrow> set_blink node (Some prev) h;
        h \<leftarrow> set_flink node (flink e) h;
        nxt \<leftarrow> flink e;
        h \<leftarrow> set_blink nxt (Some node) h;
        h \<leftarrow> set_flink prev (Some node) h;
        Some (q, h)
      })"

definition dq_rem :: "nat \<Rightarrow> queue_s \<Rightarrow> 'z links \<Rightarrow> (queue_s \<times> 'z links) option" where
  "dq_rem node q h = do {
     e \<leftarrow> h node;
     (q, h) \<leftarrow> (case blink e of
        None \<Rightarrow> Some (q\<lparr>qhead := flink e\<rparr>, h)
      | Some prev \<Rightarrow> do { h \<leftarrow> set_flink prev (flink e) h; Some (q, h) });
     (q, h) \<leftarrow> (case flink e of
        None \<Rightarrow> Some (q\<lparr>qtail := blink e\<rparr>, h)
      | Some nxt \<Rightarrow> do { h \<leftarrow> set_blink nxt (blink e) h; Some (q, h) });
     h \<leftarrow> set_flink node None h;
     h \<leftarrow> set_blink node None h;
     Some (q, h)
   }"

definition dq_remfirst :: "queue_s \<Rightarrow> 'z links \<Rightarrow> (nat option \<times> queue_s \<times> 'z links) option" where
  "dq_remfirst q h =
     (case qhead q of
        None \<Rightarrow> Some (None, q, h)
      | Some ret \<Rightarrow> do {
          e \<leftarrow> h ret;
          (q, h) \<leftarrow> (case flink e of
             None \<Rightarrow> Some (q\<lparr>qhead := None, qtail := None\<rparr>, h)
           | Some nxt \<Rightarrow> do { h \<leftarrow> set_blink nxt None h; Some (q\<lparr>qhead := Some nxt\<rparr>, h) });
          h \<leftarrow> set_flink ret None h;
          h \<leftarrow> set_blink ret None h;
          Some (Some ret, q, h)
        })"

definition dq_remlast :: "queue_s \<Rightarrow> 'z links \<Rightarrow> (nat option \<times> queue_s \<times> 'z links) option" where
  "dq_remlast q h =
     (case qtail q of
        None \<Rightarrow> Some (None, q, h)
      | Some ret \<Rightarrow> do {
          e \<leftarrow> h ret;
          (q, h) \<leftarrow> (case blink e of
             None \<Rightarrow> Some (q\<lparr>qhead := None, qtail := None\<rparr>, h)
           | Some prev \<Rightarrow> do { h \<leftarrow> set_flink prev None h; Some (q\<lparr>qtail := Some prev\<rparr>, h) });
          h \<leftarrow> set_flink ret None h;
          h \<leftarrow> set_blink ret None h;
          Some (Some ret, q, h)
        })"

text \<open>The result is the pair of the two queues.\<close>

definition dq_cat :: "queue_s \<Rightarrow> queue_s \<Rightarrow> 'z links \<Rightarrow> (queue_s \<times> queue_s \<times> 'z links) option" where
  "dq_cat q1 q2 h =
     (if qhead q2 = None then Some (dq_init, q1, h)
      else case qhead q1 of
        None \<Rightarrow> Some (q1, q2, h)
      | Some a \<Rightarrow> do {
          b \<leftarrow> qtail q2;
          h \<leftarrow> set_flink b (Some a) h;
          h \<leftarrow> set_blink a (qtail q2) h;
          Some (dq_init, q2\<lparr>qtail := qtail q1\<rparr>, h)
        })"

partial_function (option) count_loop :: "'z links \<Rightarrow> nat option \<Rightarrow> nat \<Rightarrow> nat option" where
  "count_loop h node n =
     (case node of
        None \<Rightarrow> Some n
      | Some a \<Rightarrow> (case h a of None \<Rightarrow> None | Some e \<Rightarrow> count_loop h (flink e) (n + 1)))"

declare count_loop.simps [code]

definition dq_count :: "queue_s \<Rightarrow> 'z links \<Rightarrow> nat option" where
  "dq_count q h = count_loop h (qhead q) 0"

end
