(* ===== verification/Queue_Laws.thy ===== *)
theory Queue_Laws
  imports Queue
begin

text \<open>
  The queues as lists.  A queue in the heap represents the list of its nodes; each function computes the
  corresponding list operation and keeps everything that is not a link.
\<close>

section \<open>The list behind the links\<close>

text \<open>A segment: entered at p from pr, its last node lst, left towards nx.\<close>

fun dseg :: "'z links \<Rightarrow> nat option \<Rightarrow> nat option \<Rightarrow> nat list \<Rightarrow> nat option \<Rightarrow> nat option \<Rightarrow> bool" where
  "dseg h pr p [] lst nx \<longleftrightarrow> p = nx \<and> lst = pr"
| "dseg h pr p (a # xs) lst nx \<longleftrightarrow>
     p = Some a \<and> (\<exists>e. h a = Some e \<and> blink e = pr \<and> dseg h (Some a) (flink e) xs lst nx)"

definition dqueue :: "'z links \<Rightarrow> queue_s \<Rightarrow> nat list \<Rightarrow> bool" where
  "dqueue h q xs \<longleftrightarrow> dseg h None (qhead q) xs (qtail q) None \<and> distinct xs"

text \<open>What the functions leave alone: entries outside of a set, and everything but the links.\<close>

definition relinked :: "nat set \<Rightarrow> 'z links \<Rightarrow> 'z links \<Rightarrow> bool" where
  "relinked A h h' \<longleftrightarrow> (\<forall>p. p \<notin> A \<longrightarrow> h' p = h p) \<and>
     (\<forall>p. map_option dq_entry_s.more (h' p) = map_option dq_entry_s.more (h p))"

lemma dseg_append:
  "dseg h pr p (xs @ ys) lst nx \<longleftrightarrow> (\<exists>l m. dseg h pr p xs l m \<and> dseg h l m ys lst nx)"
  by (induction xs arbitrary: pr p) auto

lemma dseg_mid:
  "dseg h pr p (xs @ a # ys) lst nx \<longleftrightarrow>
     (\<exists>e. h a = Some e \<and> dseg h pr p xs (blink e) (Some a) \<and> dseg h (Some a) (flink e) ys lst nx)"
  by (auto simp: dseg_append)

lemma dseg_frame: "(\<And>a. a \<in> set xs \<Longrightarrow> h' a = h a) \<Longrightarrow> dseg h' pr p xs lst nx \<longleftrightarrow> dseg h pr p xs lst nx"
  by (induction xs arbitrary: pr p) auto

lemma dseg_upd [simp]: "a \<notin> set xs \<Longrightarrow> dseg (h(a := x)) pr p xs lst nx \<longleftrightarrow> dseg h pr p xs lst nx"
  by (rule dseg_frame) auto

lemma dseg_last: "dseg h pr p xs lst nx \<Longrightarrow> lst = (if xs = [] then pr else Some (last xs))"
  by (induction xs arbitrary: pr p) auto

lemma dseg_first: "dseg h pr p xs lst nx \<Longrightarrow> p = (if xs = [] then nx else Some (hd xs))"
  by (cases xs) auto

lemma dseg_alloc: "dseg h pr p xs lst nx \<Longrightarrow> a \<in> set xs \<Longrightarrow> \<exists>e. h a = Some e"
  by (induction xs arbitrary: pr p) auto

lemma dqueue_empty [simp]: "dqueue h q [] \<longleftrightarrow> q = dq_init"
  by (cases q) (auto simp: dqueue_def dq_init_def)

lemma dqueue_head: "dqueue h q xs \<Longrightarrow> qhead q = (if xs = [] then None else Some (hd xs))"
  by (auto simp: dqueue_def dest: dseg_first)

lemma dqueue_tail: "dqueue h q xs \<Longrightarrow> qtail q = (if xs = [] then None else Some (last xs))"
  by (auto simp: dqueue_def dest: dseg_last)

lemma dqueue_frame: "(\<And>a. a \<in> set xs \<Longrightarrow> h' a = h a) \<Longrightarrow> dqueue h' q xs \<longleftrightarrow> dqueue h q xs"
  using dseg_frame [of xs h' h] by (simp add: dqueue_def)

lemma relinked_refl [simp]: "relinked A h h"
  by (simp add: relinked_def)

lemma relinked_trans: "relinked A h h' \<Longrightarrow> relinked A h' h'' \<Longrightarrow> relinked A h h''"
  by (auto simp: relinked_def)

lemma relinked_superset: "relinked A h h' \<Longrightarrow> A \<subseteq> B \<Longrightarrow> relinked B h h'"
  by (auto simp: relinked_def)

lemma dqueue_relinked: "relinked A h h' \<Longrightarrow> set xs \<inter> A = {} \<Longrightarrow> dqueue h' q xs \<longleftrightarrow> dqueue h q xs"
  by (rule dqueue_frame) (auto simp: relinked_def)

section \<open>The operations\<close>

lemmas link_defs = set_flink_def set_blink_def

lemma dq_addfirst_ok:
  assumes "dqueue h q xs" "node \<notin> set xs" "h node \<noteq> None"
  shows "\<exists>q' h'. dq_addfirst node q h = Some (q', h') \<and> dqueue h' q' (node # xs) \<and> relinked (insert node (set xs)) h h'"
proof (cases xs)
  case Nil
  then show ?thesis using assms by (auto simp: dq_addfirst_def link_defs dqueue_def relinked_def dq_init_def)
next
  case (Cons a ys)
  then obtain e n where "qhead q = Some a" "h a = Some e" "h node = Some n" "a \<noteq> node" "blink e = None"
     "dseg h (Some a) (flink e) ys (qtail q) None" "distinct (node # a # ys)"
    using assms by (auto simp: dqueue_def)
  then show ?thesis using Cons by (auto simp: dq_addfirst_def link_defs dqueue_def relinked_def)
qed

lemma dqueue_split:
  assumes "dqueue h q (xs @ a # ys)"
  obtains e where "h a = Some e" "blink e = (if xs = [] then None else Some (last xs))"
    "flink e = (if ys = [] then None else Some (hd ys))" "distinct (xs @ a # ys)"
    "dseg h None (qhead q) xs (blink e) (Some a)" "dseg h (Some a) (flink e) ys (qtail q) None"
proof -
  obtain e where "h a = Some e" "dseg h None (qhead q) xs (blink e) (Some a)"
    "dseg h (Some a) (flink e) ys (qtail q) None" "distinct (xs @ a # ys)"
    using assms unfolding dqueue_def dseg_mid by blast
  then show thesis using that [of e] dseg_first [of h "Some a" _ ys] dseg_last [of h None _ xs] by simp
qed

lemmas queue_eval = link_defs dqueue_def dseg_mid relinked_def

lemma dq_addlast_ok:
  assumes "dqueue h q xs" "node \<notin> set xs" "h node \<noteq> None"
  shows "\<exists>q' h'. dq_addlast node q h = Some (q', h') \<and> dqueue h' q' (xs @ [node]) \<and> relinked (insert node (set xs)) h h'"
proof (cases xs rule: rev_cases)
  case Nil
  then show ?thesis using assms by (auto simp: dq_addlast_def queue_eval dq_init_def)
next
  case (snoc ys a)
  obtain e where e: "h a = Some e" "flink e = (if [] = [] then None else Some (hd []))" "distinct (ys @ [a])"
    "dseg h None (qhead q) ys (blink e) (Some a)"
    by (rule dqueue_split [of h q ys a "[]"]) (use assms(1) snoc in auto)
  obtain n where n: "h node = Some n" using assms(3) by blast
  obtain y where q: "qtail q = Some a" "qhead q = Some y"
    using dqueue_tail [OF assms(1)] dqueue_head [OF assms(1)] snoc by simp
  show ?thesis using e n q snoc assms(2) by (simp add: dq_addlast_def queue_eval)
qed

lemma dq_addbefore_ok:
  assumes "dqueue h q (xs @ a # ys)" "node \<notin> set (xs @ a # ys)" "h node \<noteq> None"
  shows "\<exists>q' h'. dq_addbefore a node q h = Some (q', h') \<and> dqueue h' q' (xs @ node # a # ys) \<and>
     relinked (insert node (set (xs @ a # ys))) h h'"
proof (cases xs rule: rev_cases)
  case Nil
  then have "qhead q = Some a" using dqueue_head [OF assms(1)] by simp
  then show ?thesis using Nil dq_addfirst_ok [of h q "a # ys" node] assms by (simp add: dq_addbefore_def)
next
  case (snoc zs b)
  obtain e where e: "h a = Some e" "blink e = (if xs = [] then None else Some (last xs))" "distinct (xs @ a # ys)"
    "dseg h None (qhead q) xs (blink e) (Some a)" "dseg h (Some a) (flink e) ys (qtail q) None"
    by (rule dqueue_split [OF assms(1)])
  obtain f where f: "h b = Some f" "flink f = Some a" "dseg h None (qhead q) zs (blink f) (Some b)"
    using e(4) snoc by (auto simp: dseg_mid)
  obtain n where n: "h node = Some n" using assms(3) by blast
  obtain y where q: "qhead q = Some y" "y \<noteq> a" using dqueue_head [OF assms(1)] snoc e(3) by (cases zs; simp)
  show ?thesis using e f n q snoc assms(2) by (simp add: dq_addbefore_def queue_eval)
qed

lemma dq_addafter_ok:
  assumes "dqueue h q (xs @ a # ys)" "node \<notin> set (xs @ a # ys)" "h node \<noteq> None"
  shows "\<exists>q' h'. dq_addafter a node q h = Some (q', h') \<and> dqueue h' q' (xs @ a # node # ys) \<and>
     relinked (insert node (set (xs @ a # ys))) h h'"
proof (cases ys)
  case Nil
  then have "qtail q = Some a" using dqueue_tail [OF assms(1)] by simp
  then show ?thesis using Nil dq_addlast_ok [of h q "xs @ [a]" node] assms by (simp add: dq_addafter_def)
next
  case (Cons b zs)
  obtain e where e: "h a = Some e" "distinct (xs @ a # ys)" "dseg h None (qhead q) xs (blink e) (Some a)"
     "dseg h (Some a) (flink e) ys (qtail q) None" by (rule dqueue_split [OF assms(1)])
  obtain f where f: "flink e = Some b" "h b = Some f" "blink f = Some a" "dseg h (Some b) (flink f) zs (qtail q) None"
    using e(4) Cons by auto
  obtain n where n: "h node = Some n" using assms(3) by blast
  obtain x y where q: "qhead q = Some x" "qtail q = Some y" "y \<noteq> a"
    using dqueue_head [OF assms(1)] dqueue_tail [OF assms(1)] Cons e(2) last_in_set [of ys] by fastforce
  show ?thesis using e f n q Cons assms(2) by (simp add: dq_addafter_def queue_eval)
qed

lemma dq_rem_ok:
  assumes "dqueue h q (xs @ a # ys)"
  shows "\<exists>q' h'. dq_rem a q h = Some (q', h') \<and> dqueue h' q' (xs @ ys) \<and> relinked (set (xs @ a # ys)) h h'"
proof -
  obtain e where e: "h a = Some e" "distinct (xs @ a # ys)" "dseg h None (qhead q) xs (blink e) (Some a)"
     "dseg h (Some a) (flink e) ys (qtail q) None" by (rule dqueue_split [OF assms])
  show ?thesis
  proof (cases xs rule: rev_cases)
    case Nil
    then show ?thesis using e by (cases ys) (auto simp: dq_rem_def queue_eval dq_init_def)
  next
    case (snoc zs b)
    obtain f where f: "blink e = Some b" "h b = Some f" "flink f = Some a" "dseg h None (qhead q) zs (blink f) (Some b)"
      using e(3) snoc by (auto simp: dseg_mid)
    show ?thesis
    proof (cases ys)
      case Nil
      then show ?thesis using e f snoc by (simp add: dq_rem_def queue_eval)
    next
      case (Cons c ws)
      then obtain g where "flink e = Some c" "h c = Some g" "blink g = Some a" "dseg h (Some c) (flink g) ws (qtail q) None"
        using e(4) by auto
      then show ?thesis using e f snoc Cons by (simp add: dq_rem_def queue_eval)
    qed
  qed
qed


lemma dq_remfirst_ok:
  assumes "dqueue h q xs"
  shows "\<exists>q' h'. dq_remfirst q h = Some (if xs = [] then None else Some (hd xs), q', h') \<and> dqueue h' q' (tl xs) \<and>
     relinked (set xs) h h'"
proof (cases xs)
  case Nil
  then show ?thesis using assms by (simp add: dq_remfirst_def dq_init_def)
next
  case (Cons a ys)
  then obtain e where e: "h a = Some e" "blink e = None" "dseg h (Some a) (flink e) ys (qtail q) None" "distinct (a # ys)"
    "qhead q = Some a" using assms by (auto simp: dqueue_def)
  show ?thesis
  proof (cases ys)
    case Nil
    then show ?thesis using Cons e by (simp add: dq_remfirst_def queue_eval dq_init_def)
  next
    case (Cons b zs)
    then obtain f where "flink e = Some b" "h b = Some f" "blink f = Some a" "dseg h (Some b) (flink f) zs (qtail q) None"
      using e(3) by auto
    then show ?thesis using \<open>xs = a # ys\<close> Cons e by (simp add: dq_remfirst_def queue_eval)
  qed
qed

lemma dq_remlast_ok:
  assumes "dqueue h q xs"
  shows "\<exists>q' h'. dq_remlast q h = Some (if xs = [] then None else Some (last xs), q', h') \<and> dqueue h' q' (butlast xs) \<and>
     relinked (set xs) h h'"
proof (cases xs rule: rev_cases)
  case Nil
  then show ?thesis using assms by (simp add: dq_remlast_def dq_init_def)
next
  case (snoc ys a)
  obtain e where e: "h a = Some e" "distinct (ys @ [a])" "dseg h None (qhead q) ys (blink e) (Some a)"
    by (rule dqueue_split [of h q ys a "[]"]) (use assms snoc in auto)
  have q: "qtail q = Some a" "flink e = None" using assms snoc e(1) by (auto simp: dqueue_def dseg_mid)
  show ?thesis
  proof (cases ys rule: rev_cases)
    case Nil
    then show ?thesis using snoc e q by (simp add: dq_remlast_def queue_eval dq_init_def)
  next
    case (snoc zs b)
    then obtain f where "blink e = Some b" "h b = Some f" "flink f = Some a" "dseg h None (qhead q) zs (blink f) (Some b)"
      using e(3) by (auto simp: dseg_mid)
    then show ?thesis using \<open>xs = ys @ [a]\<close> snoc e q by (simp add: dq_remlast_def queue_eval butlast_append)
  qed
qed

lemma dq_cat_ok:
  assumes "dqueue h q1 xs" "dqueue h q2 ys" "set xs \<inter> set ys = {}"
  shows "\<exists>q2' h'. dq_cat q1 q2 h = Some (dq_init, q2', h') \<and> dqueue h' q2' (ys @ xs) \<and> relinked (set xs \<union> set ys) h h'"
proof (cases ys rule: rev_cases)
  case Nil
  then show ?thesis using assms by (simp add: dq_cat_def dq_init_def)
next
  case (snoc zs b)
  obtain e where e: "h b = Some e" "distinct (zs @ [b])" "dseg h None (qhead q2) zs (blink e) (Some b)"
    by (rule dqueue_split [of h q2 zs b "[]"]) (use assms snoc in auto)
  have q: "qtail q2 = Some b" "flink e = None" using assms snoc e(1) by (auto simp: dqueue_def dseg_mid)
  obtain y where y: "qhead q2 = Some y" using dqueue_head [OF assms(2)] snoc by simp
  show ?thesis
  proof (cases xs)
    case Nil
    then show ?thesis using assms y by (simp add: dq_cat_def dq_init_def)
  next
    case (Cons a ws)
    then obtain f where "qhead q1 = Some a" "h a = Some f" "blink f = None" "dseg h (Some a) (flink f) ws (qtail q1) None"
      "distinct (a # ws)" using assms(1) by (auto simp: dqueue_def)
    then show ?thesis using snoc Cons e q y assms(3) by (auto simp: dq_cat_def queue_eval)
  qed
qed

lemma count_loop_dseg: "dseg h pr p xs lst None \<Longrightarrow> count_loop h p n = Some (n + length xs)"
proof (induction xs arbitrary: pr p n)
  case Nil
  then show ?case by (subst count_loop.simps) simp
next
  case (Cons a xs)
  then obtain e where "h a = Some e" "p = Some a" "dseg h (Some a) (flink e) xs lst None" by auto
  then show ?case using Cons.IH by (subst count_loop.simps) simp
qed

section \<open>Sequences of operations\<close>

datatype qop = Addfirst nat | Addlast nat | Addbefore nat nat | Addafter nat nat | Rem nat | Remfirst | Remlast

fun qdo :: "qop \<Rightarrow> queue_s \<Rightarrow> 'z links \<Rightarrow> (queue_s \<times> 'z links) option" where
  "qdo (Addfirst n) q h = dq_addfirst n q h"
| "qdo (Addlast n) q h = dq_addlast n q h"
| "qdo (Addbefore a n) q h = dq_addbefore a n q h"
| "qdo (Addafter a n) q h = dq_addafter a n q h"
| "qdo (Rem a) q h = dq_rem a q h"
| "qdo Remfirst q h = map_option snd (dq_remfirst q h)"
| "qdo Remlast q h = map_option snd (dq_remlast q h)"

fun qrun :: "qop list \<Rightarrow> queue_s \<Rightarrow> 'z links \<Rightarrow> (queue_s \<times> 'z links) option" where
  "qrun [] q h = Some (q, h)"
| "qrun (op # ops) q h = do { (q, h) \<leftarrow> qdo op q h; qrun ops q h }"

text \<open>The same on a list of the nodes; a node must be in the queue or not as the operation needs it.\<close>

fun lspec :: "nat set \<Rightarrow> qop \<Rightarrow> nat list \<Rightarrow> nat list option" where
  "lspec A (Addfirst n) xs = (if n \<in> A - set xs then Some (n # xs) else None)"
| "lspec A (Addlast n) xs = (if n \<in> A - set xs then Some (xs @ [n]) else None)"
| "lspec A (Addbefore a n) xs =
     (if n \<in> A - set xs \<and> a \<in> set xs then Some (takeWhile (\<lambda>x. x \<noteq> a) xs @ n # dropWhile (\<lambda>x. x \<noteq> a) xs) else None)"
| "lspec A (Addafter a n) xs =
     (if n \<in> A - set xs \<and> a \<in> set xs then Some (takeWhile (\<lambda>x. x \<noteq> a) xs @ a # n # tl (dropWhile (\<lambda>x. x \<noteq> a) xs)) else None)"
| "lspec A (Rem a) xs = (if a \<in> set xs then Some (remove1 a xs) else None)"
| "lspec A Remfirst xs = Some (tl xs)"
| "lspec A Remlast xs = Some (butlast xs)"

fun lrun :: "nat set \<Rightarrow> qop list \<Rightarrow> nat list \<Rightarrow> nat list option" where
  "lrun A [] xs = Some xs"
| "lrun A (op # ops) xs = do { xs \<leftarrow> lspec A op xs; lrun A ops xs }"

lemma split_at: "a \<in> set xs \<Longrightarrow> takeWhile (\<lambda>x. x \<noteq> a) xs @ a # tl (dropWhile (\<lambda>x. x \<noteq> a) xs) = xs"
  by (induction xs) auto

lemma dom_relinked: "relinked A h h' \<Longrightarrow> dom h' = dom h"
  unfolding relinked_def dom_def by (metis map_option_is_None)

lemma qdo_ok:
  assumes "dqueue h q xs" "lspec (dom h) op xs = Some xs'"
  shows "\<exists>q' h'. qdo op q h = Some (q', h') \<and> dqueue h' q' xs' \<and> (\<exists>A. relinked A h h')"
proof (cases op)
  case (Addbefore a n)
  let ?ys = "takeWhile (\<lambda>x. x \<noteq> a) xs" and ?zs = "tl (dropWhile (\<lambda>x. x \<noteq> a) xs)"
  have a: "a \<in> set xs" "n \<notin> set xs" "h n \<noteq> None" "xs' = ?ys @ n # dropWhile (\<lambda>x. x \<noteq> a) xs"
    using assms(2) Addbefore by (auto split: if_splits)
  have x: "?ys @ a # ?zs = xs" by (rule split_at [OF a(1)])
  have d: "dropWhile (\<lambda>x. x \<noteq> a) xs = a # ?zs" using a(1) by (induction xs) auto
  show ?thesis using dq_addbefore_ok [of h q ?ys a ?zs n] assms(1) a(2-) x d Addbefore by auto
next
  case (Addafter a n)
  let ?ys = "takeWhile (\<lambda>x. x \<noteq> a) xs" and ?zs = "tl (dropWhile (\<lambda>x. x \<noteq> a) xs)"
  have a: "a \<in> set xs" "n \<notin> set xs" "h n \<noteq> None" "xs' = ?ys @ a # n # ?zs"
    using assms(2) Addafter by (auto split: if_splits)
  have x: "?ys @ a # ?zs = xs" by (rule split_at [OF a(1)])
  show ?thesis using dq_addafter_ok [of h q ?ys a ?zs n] assms(1) a(2-) x Addafter by auto
next
  case (Rem a)
  then have a: "a \<in> set xs" "xs' = remove1 a xs" using assms(2) by (auto split: if_splits)
  then obtain ys zs where x: "xs = ys @ a # zs" "a \<notin> set ys" by (metis split_list_first)
  then show ?thesis using dq_rem_ok [of h q ys a zs] assms(1) a Rem by (fastforce simp: remove1_append)
next
  case Remfirst
  then show ?thesis using dq_remfirst_ok [OF assms(1)] assms(2) by fastforce
next
  case Remlast
  then show ?thesis using dq_remlast_ok [OF assms(1)] assms(2) by fastforce
next
  case (Addfirst n)
  then show ?thesis using dq_addfirst_ok [OF assms(1), of n] assms(2) by (fastforce split: if_splits)
next
  case (Addlast n)
  then show ?thesis using dq_addlast_ok [OF assms(1), of n] assms(2) by (fastforce split: if_splits)
qed


text \<open>C19: The doubly linked queues behave as lists.  For every sequence of insertions and removals that an
  ordinary list allows, the pointer operations succeed and leave a consistent queue whose nodes, in order, are
  those of the list after the same operations; the count is its length, and nothing but links has changed.\<close>

theorem dq_refines_list:
  assumes "dqueue h q xs" "lrun (dom h) ops xs = Some xs'"
  shows "\<exists>q' h'. qrun ops q h = Some (q', h') \<and> dqueue h' q' xs' \<and> dq_count q' h' = Some (length xs') \<and>
     (\<forall>p. map_option dq_entry_s.more (h' p) = map_option dq_entry_s.more (h p))"
  using assms
proof (induction ops arbitrary: q h xs)
  case Nil
  then show ?case using count_loop_dseg [of h None "qhead q" xs "qtail q" 0] by (auto simp: dq_count_def dqueue_def)
next
  case (Cons op ops)
  then obtain ys where ys: "lspec (dom h) op xs = Some ys" "lrun (dom h) ops ys = Some xs'" by (auto split: bind_splits)
  obtain q1 h1 A where 1: "qdo op q h = Some (q1, h1)" "dqueue h1 q1 ys" "relinked A h h1"
    using qdo_ok [OF Cons.prems(1) ys(1)] by blast
  have "lrun (dom h1) ops ys = Some xs'" using ys(2) dom_relinked [OF 1(3)] by simp
  from Cons.IH [OF 1(2) this] show ?case using 1(1,3) by (auto simp: relinked_def)
qed

theorem dq_refines_list_witness:
  "\<exists>q' h'. qrun [Addlast 7, Addlast 5, Addfirst 9, Addbefore 5 4, Rem 7, Remfirst] dq_init
       (\<lambda>p. if p < 10 then Some \<lparr>flink = None, blink = None\<rparr> else None) = Some (q', h') \<and> dqueue h' q' [4, 5]"
proof -
  let ?h = "\<lambda>p :: nat. if p < 10 then Some \<lparr>flink = None, blink = None\<rparr> else None"
  have "dom ?h = {0..<10}" by (auto split: if_splits)
  then have "lrun (dom ?h) [Addlast 7, Addlast 5, Addfirst 9, Addbefore 5 4, Rem 7, Remfirst] [] = Some [4, 5]" by simp
  then show ?thesis using dq_refines_list [of ?h dq_init "[]"] by fastforce
qed

end
