(* ===== verification/Sched.thy ===== *)
theory Sched
  imports Queue
begin

text \<open>
  The task lists of the scheduler (\<^verbatim>\<open>sched/sched\<close>) for one processor, the context switch of the ARMv7-M port
  (\<^verbatim>\<open>arch/arm/src/armv7-m\<close>), and the semaphores between tasks (\<^verbatim>\<open>sched/semaphore\<close>), in the board's
  configuration: round robin enabled, no priority inheritance, no sporadic scheduling, debug assertions
  compiled out.  Each function runs in a critical section.  The register context of a task is a value of a
  type variable; a context switch saves the processor's context in one task control block and loads it
  from another.
\<close>

section \<open>Task control blocks and lists\<close>

datatype tstate =
    TSTATE_TASK_INVALID
  | TSTATE_TASK_PENDING
  | TSTATE_TASK_READYTORUN
  | TSTATE_TASK_RUNNING
  | TSTATE_TASK_INACTIVE
  | TSTATE_WAIT_SEM
  | TSTATE_WAIT_SIG
  | TSTATE_WAIT_MQNOTEMPTY
  | TSTATE_WAIT_MQNOTFULL

record 'c tcb_s = dq_entry_s +
  sched_priority :: u8
  task_state :: tstate
  sched_rr :: bool
  lockcount :: "16 word"
  timeslice :: int
  waitsem :: "nat option"
  pterrno :: int
  xcp :: 'c

type_synonym 'c tcbs = "nat \<Rightarrow> 'c tcb_s option"

datatype tlist = g_pendingtasks | g_readytorun | g_inactivetasks | g_waitingforsemaphore | g_waitingforsignal
  | g_waitingformqnotempty | g_waitingformqnotfull

text \<open>\<^verbatim>\<open>g_tasklisttable\<close>: the list of a task state, and whether it is kept in the order of priorities.\<close>

fun TLIST_HEAD :: "tstate \<Rightarrow> tlist option" where
  "TLIST_HEAD TSTATE_TASK_INVALID = None"
| "TLIST_HEAD TSTATE_TASK_PENDING = Some g_pendingtasks"
| "TLIST_HEAD TSTATE_TASK_READYTORUN = Some g_readytorun"
| "TLIST_HEAD TSTATE_TASK_RUNNING = Some g_readytorun"
| "TLIST_HEAD TSTATE_TASK_INACTIVE = Some g_inactivetasks"
| "TLIST_HEAD TSTATE_WAIT_SEM = Some g_waitingforsemaphore"
| "TLIST_HEAD TSTATE_WAIT_SIG = Some g_waitingforsignal"
| "TLIST_HEAD TSTATE_WAIT_MQNOTEMPTY = Some g_waitingformqnotempty"
| "TLIST_HEAD TSTATE_WAIT_MQNOTFULL = Some g_waitingformqnotfull"

fun TLIST_ISPRIORITIZED :: "tstate \<Rightarrow> bool" where
  "TLIST_ISPRIORITIZED TSTATE_TASK_INVALID = False"
| "TLIST_ISPRIORITIZED TSTATE_TASK_INACTIVE = False"
| "TLIST_ISPRIORITIZED TSTATE_WAIT_SIG = False"
| "TLIST_ISPRIORITIZED _ = True"

text \<open>The kernel: task control blocks, task lists, the counts of the semaphores, whether an interrupt is being
  handled, and the register context of the processor.\<close>

record 'c kernel =
  tcbs :: "'c tcbs"
  lists :: "tlist \<Rightarrow> queue_s"
  sems :: "nat \<Rightarrow> int option"
  in_irq :: bool
  cpu :: 'c

definition this_task :: "'c kernel \<Rightarrow> nat option" where
  "this_task k = qhead (lists k g_readytorun)"

definition upd_tcb :: "nat \<Rightarrow> ('c tcb_s \<Rightarrow> 'c tcb_s) \<Rightarrow> 'c kernel \<Rightarrow> 'c kernel option" where
  "upd_tcb p f k = (case tcbs k p of None \<Rightarrow> None | Some t \<Rightarrow> Some (k\<lparr>tcbs := (tcbs k)(p \<mapsto> f t)\<rparr>))"

definition set_state :: "nat \<Rightarrow> tstate \<Rightarrow> 'c kernel \<Rightarrow> 'c kernel option" where
  "set_state p st = upd_tcb p (\<lambda>t. t\<lparr>task_state := st\<rparr>)"

definition on_list :: "tlist \<Rightarrow> (queue_s \<Rightarrow> 'c tcbs \<Rightarrow> (queue_s \<times> 'c tcbs) option) \<Rightarrow> 'c kernel \<Rightarrow> 'c kernel option" where
  "on_list l f k = do {
     (q, h) \<leftarrow> f (lists k l) (tcbs k);
     Some (k\<lparr>lists := (lists k)(l := q), tcbs := h\<rparr>)
   }"

section \<open>Prioritized lists\<close>

text \<open>The search loop: the first task from next on with a lower priority.\<close>

partial_function (option) find_place :: "'c tcbs \<Rightarrow> u8 \<Rightarrow> nat option \<Rightarrow> nat option option" where
  "find_place h prio nxt =
     (case nxt of
        None \<Rightarrow> Some None
      | Some n \<Rightarrow> (case h n of
          None \<Rightarrow> None
        | Some t \<Rightarrow> if prio \<le> sched_priority t then find_place h prio (flink t) else Some (Some n)))"

declare find_place.simps [code]

definition sched_addprioritized :: "nat \<Rightarrow> queue_s \<Rightarrow> 'c tcbs \<Rightarrow> (bool \<times> queue_s \<times> 'c tcbs) option" where
  "sched_addprioritized tcb list h = do {
     t \<leftarrow> h tcb;
     nxt \<leftarrow> find_place h (sched_priority t) (qhead list);
     (case nxt of
        None \<Rightarrow> (case qtail list of
          None \<Rightarrow> do {
            h \<leftarrow> set_flink tcb None h;
            h \<leftarrow> set_blink tcb None h;
            Some (True, list\<lparr>qhead := Some tcb, qtail := Some tcb\<rparr>, h)
          }
        | Some prev \<Rightarrow> do {
            h \<leftarrow> set_flink tcb None h;
            h \<leftarrow> set_blink tcb (Some prev) h;
            h \<leftarrow> set_flink prev (Some tcb) h;
            Some (False, list\<lparr>qtail := Some tcb\<rparr>, h)
          })
      | Some n \<Rightarrow> do {
          e \<leftarrow> h n;
          (case blink e of
             None \<Rightarrow> do {
               h \<leftarrow> set_flink tcb (Some n) h;
               h \<leftarrow> set_blink tcb None h;
               h \<leftarrow> set_blink n (Some tcb) h;
               Some (True, list\<lparr>qhead := Some tcb\<rparr>, h)
             }
           | Some prev \<Rightarrow> do {
               h \<leftarrow> set_flink tcb (Some n) h;
               h \<leftarrow> set_blink tcb (Some prev) h;
               h \<leftarrow> set_flink prev (Some tcb) h;
               h \<leftarrow> set_blink n (Some tcb) h;
               Some (False, list, h)
             })
        })
   }"

definition add_to :: "tlist \<Rightarrow> nat \<Rightarrow> 'c kernel \<Rightarrow> (bool \<times> 'c kernel) option" where
  "add_to l tcb k = do {
     (ret, q, h) \<leftarrow> sched_addprioritized tcb (lists k l) (tcbs k);
     Some (ret, k\<lparr>lists := (lists k)(l := q), tcbs := h\<rparr>)
   }"

definition sched_addreadytorun :: "nat \<Rightarrow> 'c kernel \<Rightarrow> (bool \<times> 'c kernel) option" where
  "sched_addreadytorun btcb k = do {
     r \<leftarrow> this_task k;
     rtcb \<leftarrow> tcbs k r;
     bt \<leftarrow> tcbs k btcb;
     if 0 < sint (lockcount rtcb) \<and> sched_priority rtcb < sched_priority bt
     then do {
       (_, k) \<leftarrow> add_to g_pendingtasks btcb k;
       k \<leftarrow> set_state btcb TSTATE_TASK_PENDING k;
       Some (False, k)
     }
     else do {
       (ret, k) \<leftarrow> add_to g_readytorun btcb k;
       if ret
       then do {
         k \<leftarrow> set_state btcb TSTATE_TASK_RUNNING k;
         bt \<leftarrow> tcbs k btcb;
         n \<leftarrow> flink bt;
         k \<leftarrow> set_state n TSTATE_TASK_READYTORUN k;
         Some (True, k)
       }
       else do {
         k \<leftarrow> set_state btcb TSTATE_TASK_READYTORUN k;
         Some (False, k)
       }
     }
   }"

definition sched_removereadytorun :: "nat \<Rightarrow> 'c kernel \<Rightarrow> (bool \<times> 'c kernel) option" where
  "sched_removereadytorun rtcb k = do {
     t \<leftarrow> tcbs k rtcb;
     (doswitch, k) \<leftarrow> (if blink t = None
       then do { n \<leftarrow> flink t; k \<leftarrow> set_state n TSTATE_TASK_RUNNING k; Some (True, k) }
       else Some (False, k));
     k \<leftarrow> on_list g_readytorun (dq_rem rtcb) k;
     k \<leftarrow> set_state rtcb TSTATE_TASK_INVALID k;
     Some (doswitch, k)
   }"

definition sched_addblocked :: "nat \<Rightarrow> tstate \<Rightarrow> 'c kernel \<Rightarrow> 'c kernel option" where
  "sched_addblocked btcb st k = do {
     tasklist \<leftarrow> TLIST_HEAD st;
     k \<leftarrow> (if TLIST_ISPRIORITIZED st then map_option snd (add_to tasklist btcb k)
           else on_list tasklist (dq_addlast btcb) k);
     set_state btcb st k
   }"

definition sched_removeblocked :: "nat \<Rightarrow> 'c kernel \<Rightarrow> 'c kernel option" where
  "sched_removeblocked btcb k = do {
     t \<leftarrow> tcbs k btcb;
     tasklist \<leftarrow> TLIST_HEAD (task_state t);
     k \<leftarrow> on_list tasklist (dq_rem btcb) k;
     set_state btcb TSTATE_TASK_INVALID k
   }"

text \<open>One pending task ptcb is put in front of r, the place that the inner loop has found.\<close>

definition merge_one :: "nat \<Rightarrow> nat \<Rightarrow> 'c kernel \<Rightarrow> (bool \<times> 'c kernel) option" where
  "merge_one ptcb r k = do {
     rt \<leftarrow> tcbs k r;
     (case blink rt of
        None \<Rightarrow> do {
          h \<leftarrow> set_flink ptcb (Some r) (tcbs k);
          h \<leftarrow> set_blink ptcb None h;
          h \<leftarrow> set_blink r (Some ptcb) h;
          let k = k\<lparr>lists := (lists k)(g_readytorun := (lists k g_readytorun)\<lparr>qhead := Some ptcb\<rparr>), tcbs := h\<rparr>;
          k \<leftarrow> set_state r TSTATE_TASK_READYTORUN k;
          k \<leftarrow> set_state ptcb TSTATE_TASK_RUNNING k;
          Some (True, k)
        }
      | Some rprev \<Rightarrow> do {
          h \<leftarrow> set_flink ptcb (Some r) (tcbs k);
          h \<leftarrow> set_blink ptcb (Some rprev) h;
          h \<leftarrow> set_flink rprev (Some ptcb) h;
          h \<leftarrow> set_blink r (Some ptcb) h;
          k \<leftarrow> set_state ptcb TSTATE_TASK_READYTORUN (k\<lparr>tcbs := h\<rparr>);
          Some (False, k)
        })
   }"

partial_function (option) merge_loop :: "nat option \<Rightarrow> nat option \<Rightarrow> bool \<Rightarrow> 'c kernel \<Rightarrow> (bool \<times> 'c kernel) option" where
  "merge_loop ptcb rtcb ret k =
     (case ptcb of
        None \<Rightarrow> Some (ret, k)
      | Some p \<Rightarrow> do {
          t \<leftarrow> tcbs k p;
          place \<leftarrow> find_place (tcbs k) (sched_priority t) rtcb;
          r \<leftarrow> place;
          (head, k) \<leftarrow> merge_one p r k;
          merge_loop (flink t) (Some p) (ret \<or> head) k
        })"

declare merge_loop.simps [code]

definition sched_mergepending :: "'c kernel \<Rightarrow> (bool \<times> 'c kernel) option" where
  "sched_mergepending k = do {
     (ret, k) \<leftarrow> merge_loop (qhead (lists k g_pendingtasks)) (this_task k) False k;
     Some (ret, k\<lparr>lists := (lists k)(g_pendingtasks := dq_init)\<rparr>)
   }"

section \<open>Context switches\<close>

abbreviation (input) RR_TICKS :: int where "RR_TICKS \<equiv> 200"

definition sched_resume_scheduler :: "nat \<Rightarrow> 'c kernel \<Rightarrow> 'c kernel option" where
  "sched_resume_scheduler p = upd_tcb p (\<lambda>t. t\<lparr>timeslice := RR_TICKS\<rparr>)"

text \<open>Leaving rtcb for the task at the head of the ready to run list; in an interrupt handler the saved
  registers are exchanged, else \<^verbatim>\<open>up_switchcontext\<close> does it.\<close>

definition switch_from :: "nat \<Rightarrow> 'c kernel \<Rightarrow> 'c kernel option" where
  "switch_from rtcb k = do {
     nexttcb \<leftarrow> this_task k;
     k \<leftarrow> sched_resume_scheduler nexttcb k;
     k \<leftarrow> upd_tcb rtcb (\<lambda>t. t\<lparr>xcp := cpu k\<rparr>) k;
     t \<leftarrow> tcbs k nexttcb;
     Some (k\<lparr>cpu := xcp t\<rparr>)
   }"

definition up_block_task :: "nat \<Rightarrow> tstate \<Rightarrow> 'c kernel \<Rightarrow> 'c kernel option" where
  "up_block_task tcb st k = do {
     rtcb \<leftarrow> this_task k;
     (switch_needed, k) \<leftarrow> sched_removereadytorun tcb k;
     k \<leftarrow> sched_addblocked tcb st k;
     (sw, k) \<leftarrow> (if qhead (lists k g_pendingtasks) \<noteq> None then sched_mergepending k else Some (False, k));
     if switch_needed \<or> sw then switch_from rtcb k else Some k
   }"

definition up_unblock_task :: "nat \<Rightarrow> 'c kernel \<Rightarrow> 'c kernel option" where
  "up_unblock_task tcb k = do {
     rtcb \<leftarrow> this_task k;
     k \<leftarrow> sched_removeblocked tcb k;
     (sw, k) \<leftarrow> sched_addreadytorun tcb k;
     if sw then switch_from rtcb k else Some k
   }"

text \<open>The result says whether the caller has been switched out: what it does after the call is then done when it
  runs again.\<close>

definition up_release_pending :: "'c kernel \<Rightarrow> (bool \<times> 'c kernel) option" where
  "up_release_pending k = do {
     rtcb \<leftarrow> this_task k;
     (sw, k) \<leftarrow> sched_mergepending k;
     k \<leftarrow> (if sw then switch_from rtcb k else Some k);
     Some (sw, k)
   }"

abbreviation (input) SCHED_PRIORITY_MIN :: nat where "SCHED_PRIORITY_MIN \<equiv> 1"
abbreviation (input) SCHED_PRIORITY_MAX :: nat where "SCHED_PRIORITY_MAX \<equiv> 255"

definition up_reprioritize_rtr :: "nat \<Rightarrow> u8 \<Rightarrow> 'c kernel \<Rightarrow> 'c kernel option" where
  "up_reprioritize_rtr tcb priority k = do {
     t \<leftarrow> tcbs k tcb;
     if task_state t \<notin> {TSTATE_TASK_READYTORUN, TSTATE_TASK_RUNNING} \<or> unat priority < SCHED_PRIORITY_MIN then Some k
     else do {
       rtcb \<leftarrow> this_task k;
       (removed, k) \<leftarrow> sched_removereadytorun tcb k;
       k \<leftarrow> upd_tcb tcb (\<lambda>t. t\<lparr>sched_priority := priority\<rparr>) k;
       (added, k) \<leftarrow> sched_addreadytorun tcb k;
       if removed \<noteq> added
       then do {
         k \<leftarrow> (if qhead (lists k g_pendingtasks) \<noteq> None then map_option snd (sched_mergepending k) else Some k);
         switch_from rtcb k
       }
       else Some k
     }
   }"

section \<open>Locking the scheduler\<close>

definition sched_lock :: "'c kernel \<Rightarrow> (int \<times> 'c kernel) option" where
  "sched_lock k =
     (case this_task k of
        None \<Rightarrow> Some (OK, k)
      | Some r \<Rightarrow> if in_irq k then Some (OK, k)
                  else do { k \<leftarrow> upd_tcb r (\<lambda>t. t\<lparr>lockcount := lockcount t + 1\<rparr>) k; Some (OK, k) })"

text \<open>The last part of \<^verbatim>\<open>sched_unlock\<close>, about a time slice that has expired under the lock.\<close>

definition unlock_timeslice :: "nat \<Rightarrow> 'c kernel \<Rightarrow> 'c kernel option" where
  "unlock_timeslice rtcb k = do {
     t \<leftarrow> tcbs k rtcb;
     if sched_rr t \<and> timeslice t = 0 \<and> this_task k \<noteq> Some rtcb
     then upd_tcb rtcb (\<lambda>t. t\<lparr>timeslice := RR_TICKS\<rparr>) k
     else Some k
   }"

text \<open>No value is returned when the caller has been switched out by \<^verbatim>\<open>up_release_pending\<close>; when it runs again it
  goes on with \<^const>\<open>unlock_timeslice\<close>.\<close>

definition sched_unlock :: "'c kernel \<Rightarrow> (int option \<times> 'c kernel) option" where
  "sched_unlock k =
     (case this_task k of
        None \<Rightarrow> Some (Some OK, k)
      | Some r \<Rightarrow> if in_irq k then Some (Some OK, k)
        else do {
          k \<leftarrow> upd_tcb r (\<lambda>t. if 0 < sint (lockcount t) then t\<lparr>lockcount := lockcount t - 1\<rparr> else t) k;
          t \<leftarrow> tcbs k r;
          if sint (lockcount t) \<le> 0
          then do {
            k \<leftarrow> upd_tcb r (\<lambda>t. t\<lparr>lockcount := 0\<rparr>) k;
            (sw, k) \<leftarrow> (if qhead (lists k g_pendingtasks) \<noteq> None then up_release_pending k else Some (False, k));
            if sw then Some (None, k)
            else do { k \<leftarrow> unlock_timeslice r k; Some (Some OK, k) }
          }
          else Some (Some OK, k)
        })"

section \<open>Priorities and time slices\<close>

definition nxsched_running_setpriority :: "nat \<Rightarrow> int \<Rightarrow> 'c kernel \<Rightarrow> 'c kernel option" where
  "nxsched_running_setpriority tcb prio k = do {
     t \<leftarrow> tcbs k tcb;
     n \<leftarrow> flink t;
     nxt \<leftarrow> tcbs k n;
     if prio \<le> uint (sched_priority nxt) then up_reprioritize_rtr tcb (word_of_int prio) k
     else upd_tcb tcb (\<lambda>t. t\<lparr>sched_priority := word_of_int prio\<rparr>) k
   }"

text \<open>Without debug assertions the two calls inside of \<^verbatim>\<open>DEBUGASSERT\<close> are not compiled: only the priority
  is written.\<close>

definition nxsched_readytorun_setpriority :: "nat \<Rightarrow> int \<Rightarrow> 'c kernel \<Rightarrow> 'c kernel option" where
  "nxsched_readytorun_setpriority tcb prio k = do {
     r \<leftarrow> this_task k;
     rtcb \<leftarrow> tcbs k r;
     if uint (sched_priority rtcb) < prio then up_reprioritize_rtr tcb (word_of_int prio) k
     else upd_tcb tcb (\<lambda>t. t\<lparr>sched_priority := word_of_int prio\<rparr>) k
   }"

definition nxsched_blocked_setpriority :: "nat \<Rightarrow> int \<Rightarrow> 'c kernel \<Rightarrow> 'c kernel option" where
  "nxsched_blocked_setpriority tcb prio k = do {
     t \<leftarrow> tcbs k tcb;
     if TLIST_ISPRIORITIZED (task_state t)
     then do {
       tasklist \<leftarrow> TLIST_HEAD (task_state t);
       k \<leftarrow> on_list tasklist (dq_rem tcb) k;
       k \<leftarrow> upd_tcb tcb (\<lambda>t. t\<lparr>sched_priority := word_of_int prio\<rparr>) k;
       map_option snd (add_to tasklist tcb k)
     }
     else upd_tcb tcb (\<lambda>t. t\<lparr>sched_priority := word_of_int prio\<rparr>) k
   }"

definition nxsched_setpriority :: "nat \<Rightarrow> int \<Rightarrow> 'c kernel \<Rightarrow> (int \<times> 'c kernel) option" where
  "nxsched_setpriority tcb prio k =
     (if prio < int SCHED_PRIORITY_MIN \<or> int SCHED_PRIORITY_MAX < prio then Some (- EINVAL, k)
      else do {
        t \<leftarrow> tcbs k tcb;
        k \<leftarrow> (case task_state t of
                TSTATE_TASK_RUNNING \<Rightarrow> nxsched_running_setpriority tcb prio k
              | TSTATE_TASK_READYTORUN \<Rightarrow> nxsched_readytorun_setpriority tcb prio k
              | _ \<Rightarrow> nxsched_blocked_setpriority tcb prio k);
        Some (OK, k)
      })"

definition sched_yield :: "'c kernel \<Rightarrow> (int \<times> 'c kernel) option" where
  "sched_yield k = do {
     r \<leftarrow> this_task k;
     rtcb \<leftarrow> tcbs k r;
     (ret, k) \<leftarrow> nxsched_setpriority r (uint (sched_priority rtcb)) k;
     Some (if ret < 0 then ERROR else OK, k)
   }"

definition sched_roundrobin_process :: "nat \<Rightarrow> nat \<Rightarrow> bool \<Rightarrow> 'c kernel \<Rightarrow> (int \<times> 'c kernel) option" where
  "sched_roundrobin_process tcb ticks noswitches k = do {
     t \<leftarrow> tcbs k tcb;
     k \<leftarrow> upd_tcb tcb (\<lambda>t. t\<lparr>timeslice := timeslice t - min (timeslice t mod 2 ^ 32) (int ticks)\<rparr>) k;
     t \<leftarrow> tcbs k tcb;
     if timeslice t \<le> 0 \<and> \<not> 0 < sint (lockcount t)
     then if noswitches then Some (1, k)
          else do {
            k \<leftarrow> upd_tcb tcb (\<lambda>t. t\<lparr>timeslice := RR_TICKS\<rparr>) k;
            k \<leftarrow> (case flink t of
                    None \<Rightarrow> Some k
                  | Some n \<Rightarrow> do {
                      nxt \<leftarrow> tcbs k n;
                      if sched_priority t \<le> sched_priority nxt then up_reprioritize_rtr tcb (sched_priority t) k else Some k
                    });
            Some (RR_TICKS, k)
          }
     else Some (timeslice t, k)
   }"

definition nxsched_cpu_scheduler :: "'c kernel \<Rightarrow> 'c kernel option" where
  "nxsched_cpu_scheduler k = do {
     r \<leftarrow> this_task k;
     rtcb \<leftarrow> tcbs k r;
     if sched_rr rtcb then map_option snd (sched_roundrobin_process r 1 False k) else Some k
   }"

section \<open>Semaphores between tasks\<close>

text \<open>The count is a 16-bit signed integer.\<close>

definition set_sem :: "nat \<Rightarrow> int \<Rightarrow> 'c kernel \<Rightarrow> 'c kernel" where
  "set_sem s n k = k\<lparr>sems := (sems k)(s \<mapsto> sint (word_of_int n :: 16 word))\<rparr>"

text \<open>A wait of the running task returns at once, or the task is blocked with the errno value that it has saved
  on its stack.\<close>

datatype wait_result = Returned int | Blocked int

definition sem_wait_call :: "nat \<Rightarrow> 'c kernel \<Rightarrow> (wait_result \<times> 'c kernel) option" where
  "sem_wait_call sem k = do {
     r \<leftarrow> this_task k;
     count \<leftarrow> sems k sem;
     if 0 < count
     then do {
       k \<leftarrow> upd_tcb r (\<lambda>t. t\<lparr>waitsem := None\<rparr>) (set_sem sem (count - 1) k);
       Some (Returned OK, k)
     }
     else do {
       k \<leftarrow> upd_tcb r (\<lambda>t. t\<lparr>waitsem := Some sem\<rparr>) (set_sem sem (count - 1) k);
       rtcb \<leftarrow> tcbs k r;
       k \<leftarrow> upd_tcb r (\<lambda>t. t\<lparr>pterrno := OK\<rparr>) k;
       k \<leftarrow> up_block_task r TSTATE_WAIT_SEM k;
       Some (Blocked (pterrno rtcb), k)
     }
   }"

text \<open>The rest of the wait, when the task runs again.\<close>

definition sem_wait_resume :: "int \<Rightarrow> 'c kernel \<Rightarrow> (int \<times> 'c kernel) option" where
  "sem_wait_resume saved_errno k = do {
     r \<leftarrow> this_task k;
     rtcb \<leftarrow> tcbs k r;
     k \<leftarrow> upd_tcb r (\<lambda>t. t\<lparr>pterrno := saved_errno\<rparr>) k;
     Some (if pterrno rtcb \<noteq> OK then - pterrno rtcb else OK, k)
   }"

definition sem_trywait_call :: "nat \<Rightarrow> 'c kernel \<Rightarrow> (int \<times> 'c kernel) option" where
  "sem_trywait_call sem k = do {
     r \<leftarrow> this_task k;
     count \<leftarrow> sems k sem;
     if 0 < count
     then do { k \<leftarrow> upd_tcb r (\<lambda>t. t\<lparr>waitsem := None\<rparr>) (set_sem sem (count - 1) k); Some (OK, k) }
     else Some (- EAGAIN, k)
   }"

partial_function (option) find_waiter :: "'c tcbs \<Rightarrow> nat \<Rightarrow> nat option \<Rightarrow> nat option option" where
  "find_waiter h sem stcb =
     (case stcb of
        None \<Rightarrow> Some None
      | Some p \<Rightarrow> (case h p of
          None \<Rightarrow> None
        | Some t \<Rightarrow> if waitsem t \<noteq> Some sem then find_waiter h sem (flink t) else Some (Some p)))"

declare find_waiter.simps [code]

definition sem_post_call :: "nat \<Rightarrow> 'c kernel \<Rightarrow> (int \<times> 'c kernel) option" where
  "sem_post_call sem k = do {
     count \<leftarrow> sems k sem;
     let k = set_sem sem (count + 1) k;
     count \<leftarrow> sems k sem;
     if count \<le> 0
     then do {
       stcb \<leftarrow> find_waiter (tcbs k) sem (qhead (lists k g_waitingforsemaphore));
       (case stcb of
          None \<Rightarrow> Some (OK, k)
        | Some p \<Rightarrow> do {
            k \<leftarrow> upd_tcb p (\<lambda>t. t\<lparr>waitsem := None\<rparr>) k;
            k \<leftarrow> up_unblock_task p k;
            Some (OK, k)
          })
     }
     else Some (OK, k)
   }"

definition nxsem_wait_irq :: "nat \<Rightarrow> int \<Rightarrow> 'c kernel \<Rightarrow> 'c kernel option" where
  "nxsem_wait_irq wtcb errcode k = do {
     t \<leftarrow> tcbs k wtcb;
     if task_state t = TSTATE_WAIT_SEM
     then do {
       sem \<leftarrow> waitsem t;
       count \<leftarrow> sems k sem;
       k \<leftarrow> upd_tcb wtcb (\<lambda>t. t\<lparr>waitsem := None, pterrno := errcode\<rparr>) (set_sem sem (count + 1) k);
       up_unblock_task wtcb k
     }
     else Some k
   }"

end
