(* ===== verification/Sched_Spec.thy ===== *)
theory Sched_Spec
  imports Queue_Laws Sched
begin

text \<open>
  The scheduler as operations on lists of tasks: what the linked lists of the code compute, and the invariant
  of the lists that every operation keeps.
\<close>

section \<open>Insertion by priority\<close>

text \<open>Behind every task of at least the same priority.\<close>

definition ins :: "('a \<Rightarrow> u8) \<Rightarrow> 'a \<Rightarrow> 'a list \<Rightarrow> 'a list" where
  "ins f x xs = takeWhile (\<lambda>y. f x \<le> f y) xs @ x # dropWhile (\<lambda>y. f x \<le> f y) xs"

abbreviation prio_sorted :: "('a \<Rightarrow> u8) \<Rightarrow> 'a list \<Rightarrow> bool" where
  "prio_sorted f \<equiv> sorted_wrt (\<lambda>x y. f y \<le> f x)"

lemma ins_simps [simp]: "ins f x [] = [x]" "ins f x (y # ys) = (if f x \<le> f y then y # ins f x ys else x # y # ys)"
  by (auto simp: ins_def)

lemma set_ins [simp]: "set (ins f x xs) = insert x (set xs)"
  by (induction xs) auto

lemma distinct_ins [simp]: "distinct (ins f x xs) \<longleftrightarrow> x \<notin> set xs \<and> distinct xs"
  by (induction xs) auto

lemma ins_not_Nil [simp]: "ins f x xs \<noteq> []"
  by (simp add: ins_def)

lemma hd_ins: "hd (ins f x xs) = (if xs = [] \<or> f (hd xs) < f x then x else hd xs)"
  by (cases xs) auto

lemma last_ins: "xs \<noteq> [] \<Longrightarrow> f (last xs) < f x \<Longrightarrow> last (ins f x xs) = last xs"
  by (induction xs) (auto simp: not_less)

lemma sorted_ins [simp]: "prio_sorted f xs \<Longrightarrow> prio_sorted f (ins f x xs)"
  by (induction xs) (auto intro: order_trans)

lemma ins_cong: "(\<And>y. y \<in> set xs \<Longrightarrow> g y = f y) \<Longrightarrow> g x = f x \<Longrightarrow> ins g x xs = ins f x xs"
  by (induction xs) auto

lemma sorted_cong: "(\<And>y. y \<in> set xs \<Longrightarrow> g y = f y) \<Longrightarrow> prio_sorted g xs = prio_sorted f xs"
  by (induction xs) auto

lemma length_ins [simp]: "length (ins f x xs) = Suc (length xs)"
  by (induction xs) auto

text \<open>Insertion keeps the order of the others, and puts the new task last among those of its priority.\<close>

lemma remove1_ins: "x \<notin> set xs \<Longrightarrow> remove1 x (ins f x xs) = xs"
  by (induction xs) auto

lemma filter_ins: "filter P (ins f x xs) = (if P x then ins f x (filter P xs) else filter P xs)" if "prio_sorted f xs"
  using that
proof (induction xs)
  case (Cons y ys)
  have "ins f x zs = x # zs" if "\<forall>z\<in>set zs. f z < f x" for zs using that by (cases zs) auto
  moreover have "f z < f x" if "f y < f x" "z \<in> set ys" for z using that Cons.prems by (auto intro: le_less_trans)
  ultimately show ?case using Cons by (auto simp: not_le)
qed simp

section \<open>The scheduler on lists\<close>

text \<open>The state with the task lists as lists; the links of the task control blocks are not part of it.\<close>

record 'c sys =
  tk :: "'c tcbs"
  qs :: "tlist \<Rightarrow> nat list"
  sm :: "nat \<Rightarrow> int option"
  irq :: bool
  ctx :: 'c

abbreviation ready :: "'c sys \<Rightarrow> nat list" where "ready a \<equiv> qs a g_readytorun"
abbreviation pend :: "'c sys \<Rightarrow> nat list" where "pend a \<equiv> qs a g_pendingtasks"
abbreviation cur :: "'c sys \<Rightarrow> nat" where "cur a \<equiv> hd (ready a)"

definition pr :: "'c sys \<Rightarrow> nat \<Rightarrow> u8" where "pr a p = sched_priority (the (tk a p))"
definition st :: "'c sys \<Rightarrow> nat \<Rightarrow> tstate" where "st a p = task_state (the (tk a p))"
definition locked :: "'c sys \<Rightarrow> bool" where "locked a \<longleftrightarrow> 0 < sint (lockcount (the (tk a (cur a))))"

definition a_upd :: "nat \<Rightarrow> ('c tcb_s \<Rightarrow> 'c tcb_s) \<Rightarrow> 'c sys \<Rightarrow> 'c sys" where
  "a_upd p f a = a\<lparr>tk := (tk a)(p := map_option f (tk a p))\<rparr>"

definition a_set :: "tlist \<Rightarrow> nat list \<Rightarrow> 'c sys \<Rightarrow> 'c sys" where
  "a_set l xs a = a\<lparr>qs := (qs a)(l := xs)\<rparr>"

abbreviation a_state :: "nat \<Rightarrow> tstate \<Rightarrow> 'c sys \<Rightarrow> 'c sys" where
  "a_state p s \<equiv> a_upd p (\<lambda>t. t\<lparr>task_state := s\<rparr>)"

abbreviation a_add :: "tlist \<Rightarrow> nat \<Rightarrow> 'c sys \<Rightarrow> 'c sys" where
  "a_add l p a \<equiv> a_set l (ins (pr a) p (qs a l)) a"

abbreviation a_del :: "tlist \<Rightarrow> nat \<Rightarrow> 'c sys \<Rightarrow> 'c sys" where
  "a_del l p a \<equiv> a_set l (remove1 p (qs a l)) a"

definition a_place :: "nat \<Rightarrow> 'c sys \<Rightarrow> 'c sys" where
  "a_place p a =
     (if pr a (cur a) < pr a p
      then a_state (cur a) TSTATE_TASK_READYTORUN (a_state p TSTATE_TASK_RUNNING (a_add g_readytorun p a))
      else a_state p TSTATE_TASK_READYTORUN (a_add g_readytorun p a))"

definition a_addready :: "nat \<Rightarrow> 'c sys \<Rightarrow> 'c sys" where
  "a_addready p a =
     (if locked a \<and> pr a (cur a) < pr a p then a_state p TSTATE_TASK_PENDING (a_add g_pendingtasks p a) else a_place p a)"

definition a_remready :: "nat \<Rightarrow> 'c sys \<Rightarrow> 'c sys" where
  "a_remready p a = a_state p TSTATE_TASK_INVALID (a_del g_readytorun p
     (if p = cur a then a_state (hd (tl (ready a))) TSTATE_TASK_RUNNING a else a))"

definition a_addblocked :: "nat \<Rightarrow> tstate \<Rightarrow> 'c sys \<Rightarrow> 'c sys" where
  "a_addblocked p s a = a_state p s
     (let l = the (TLIST_HEAD s) in if TLIST_ISPRIORITIZED s then a_add l p a else a_set l (qs a l @ [p]) a)"

definition a_rmblocked :: "nat \<Rightarrow> 'c sys \<Rightarrow> 'c sys" where
  "a_rmblocked p a = a_state p TSTATE_TASK_INVALID (a_del (the (TLIST_HEAD (st a p))) p a)"

text \<open>The pending tasks go to the ready to run list one after the other.\<close>

definition a_merge :: "'c sys \<Rightarrow> 'c sys" where
  "a_merge a = a_set g_pendingtasks [] (fold a_place (pend a) a)"

definition a_switch :: "nat \<Rightarrow> 'c sys \<Rightarrow> 'c sys" where
  "a_switch r a = (let n = cur a; a = a_upd r (\<lambda>t. t\<lparr>xcp := ctx a\<rparr>) (a_upd n (\<lambda>t. t\<lparr>timeslice := RR_TICKS\<rparr>) a)
     in a\<lparr>ctx := xcp (the (tk a n))\<rparr>)"

section \<open>The invariant of the lists\<close>

definition listed :: "'c sys \<Rightarrow> bool" where
  "listed a \<longleftrightarrow> (\<forall>l. distinct (qs a l)) \<and> (\<forall>l p. p \<in> set (qs a l) \<longrightarrow> tk a p \<noteq> None) \<and>
     (\<forall>p t l. tk a p = Some t \<longrightarrow> (p \<in> set (qs a l) \<longleftrightarrow> TLIST_HEAD (task_state t) = Some l))"

definition running_ok :: "'c sys \<Rightarrow> bool" where
  "running_ok a \<longleftrightarrow> ready a \<noteq> [] \<and> (\<forall>p t. tk a p = Some t \<longrightarrow> (task_state t = TSTATE_TASK_RUNNING \<longleftrightarrow> p = cur a))"

definition unordered :: "tlist set" where
  "unordered = {g_inactivetasks, g_waitingforsignal}"

definition ordered :: "'c sys \<Rightarrow> bool" where
  "ordered a \<longleftrightarrow> (\<forall>l. l \<notin> unordered \<longrightarrow> prio_sorted (pr a) (qs a l))"

definition idle_ok :: "nat \<Rightarrow> 'c sys \<Rightarrow> bool" where
  "idle_ok i a \<longleftrightarrow> last (ready a) = i \<and> (\<forall>p t. tk a p = Some t \<longrightarrow> (sched_priority t = 0 \<longleftrightarrow> p = i))"

definition lists_ok :: "nat \<Rightarrow> 'c sys \<Rightarrow> bool" where
  "lists_ok i a \<longleftrightarrow> listed a \<and> running_ok a \<and> ordered a \<and> idle_ok i a"

lemmas sys_defs = a_upd_def a_set_def pr_def st_def
lemmas ok_defs = lists_ok_def listed_def running_ok_def ordered_def idle_ok_def

lemma sys_simps [simp]:
  "tk (a_upd p f a) = (tk a)(p := map_option f (tk a p))" "qs (a_upd p f a) = qs a" "ctx (a_upd p f a) = ctx a"
  "sm (a_upd p f a) = sm a" "irq (a_upd p f a) = irq a"
  "tk (a_set l xs a) = tk a" "qs (a_set l xs a) = (qs a)(l := xs)" "ctx (a_set l xs a) = ctx a"
  "sm (a_set l xs a) = sm a" "irq (a_set l xs a) = irq a"
  by (simp_all add: a_upd_def a_set_def)

lemma pr_simps [simp]: "pr (a_set l xs a) = pr a" "pr (a\<lparr>ctx := c\<rparr>) = pr a" "pr (a\<lparr>sm := m\<rparr>) = pr a"
  by (simp_all add: pr_def fun_eq_iff)

lemma pr_upd [simp]: "tk a p \<noteq> None \<Longrightarrow> pr (a_upd p f a) = (pr a)(p := sched_priority (f (the (tk a p))))"
  by (auto simp: pr_def fun_eq_iff)

lemma pr_upd_same: "(\<And>t. sched_priority (f t) = sched_priority t) \<Longrightarrow> pr (a_upd p f a) q = pr a q"
  by (cases "tk a p") (auto simp: pr_def)

lemma listedD:
  assumes "listed a" "p \<in> set (qs a l)"
  obtains t where "tk a p = Some t" "TLIST_HEAD (task_state t) = Some l"
  using assms unfolding listed_def by (metis option.exhaust)

lemma listed_distinct: "listed a \<Longrightarrow> distinct (qs a l)"
  by (simp add: listed_def)

lemma listed_disjoint: "listed a \<Longrightarrow> l \<noteq> l' \<Longrightarrow> set (qs a l) \<inter> set (qs a l') = {}"
proof (rule equals0I)
  fix p assume "listed a" "l \<noteq> l'" "p \<in> set (qs a l) \<inter> set (qs a l')"
  moreover obtain t where "tk a p = Some t" "TLIST_HEAD (task_state t) = Some l" by (rule listedD) (use calculation in auto)
  ultimately show False by (auto simp: listed_def)
qed

lemma listed_out: "listed a \<Longrightarrow> tk a p = Some t \<Longrightarrow> TLIST_HEAD (task_state t) \<noteq> Some l \<Longrightarrow> p \<notin> set (qs a l)"
  by (auto simp: listed_def)

lemma TLIST_ready: "TLIST_HEAD s = Some g_readytorun \<longleftrightarrow> s = TSTATE_TASK_READYTORUN \<or> s = TSTATE_TASK_RUNNING"
  by (cases s) auto

lemma TLIST_none: "TLIST_HEAD s = None \<longleftrightarrow> s = TSTATE_TASK_INVALID"
  by (cases s) auto

lemma TLIST_pend: "TLIST_HEAD s = Some g_pendingtasks \<longleftrightarrow> s = TSTATE_TASK_PENDING"
  by (cases s) auto

text \<open>A field that is neither the state nor the priority does not matter.\<close>

definition key :: "'c sys \<Rightarrow> nat \<Rightarrow> (tstate \<times> u8) option" where
  "key a p = map_option (\<lambda>t. (task_state t, sched_priority t)) (tk a p)"

lemma lists_ok_key:
  "listed a \<longleftrightarrow> (\<forall>l. distinct (qs a l)) \<and> (\<forall>l p. p \<in> set (qs a l) \<longrightarrow> key a p \<noteq> None) \<and>
     (\<forall>p k l. key a p = Some k \<longrightarrow> (p \<in> set (qs a l) \<longleftrightarrow> TLIST_HEAD (fst k) = Some l))"
  "running_ok a \<longleftrightarrow> ready a \<noteq> [] \<and> (\<forall>p k. key a p = Some k \<longrightarrow> (fst k = TSTATE_TASK_RUNNING \<longleftrightarrow> p = cur a))"
  "idle_ok i a \<longleftrightarrow> last (ready a) = i \<and> (\<forall>p k. key a p = Some k \<longrightarrow> (snd k = 0 \<longleftrightarrow> p = i))"
  "tk a p \<noteq> None \<Longrightarrow> pr a p = snd (the (key a p))"
  by (auto simp: key_def listed_def running_ok_def idle_ok_def pr_def)

lemma lists_ok_cong:
  assumes "qs b = qs a" "key b = key a"
  shows "lists_ok i b = lists_ok i a"
proof (cases "listed a")
  case True
  have *: "tk b p = None \<longleftrightarrow> tk a p = None" for p using fun_cong [OF assms(2), of p] by (auto simp: key_def)
  have "pr b p = pr a p" if in_l: "p \<in> set (qs a l)" for p l
  proof -
    obtain t where "tk a p = Some t" by (rule listedD [OF True in_l])
    with * show ?thesis using lists_ok_key(4) [of a p] lists_ok_key(4) [of b p] assms(2) by simp
  qed
  then have "prio_sorted (pr b) (qs a l) = prio_sorted (pr a) (qs a l)" for l by (rule sorted_cong)
  then show ?thesis by (simp add: lists_ok_def lists_ok_key ordered_def assms)
next
  case False
  then have "\<not> listed b" by (simp add: lists_ok_key assms)
  then show ?thesis using False by (simp add: lists_ok_def)
qed

lemma lists_ok_upd:
  assumes "\<And>t. task_state (f t) = task_state t" "\<And>t. sched_priority (f t) = sched_priority t"
  shows "lists_ok i (a_upd p f a) \<longleftrightarrow> lists_ok i a"
  by (rule lists_ok_cong) (auto simp: key_def fun_eq_iff option.map_comp comp_def assms)

lemma lists_ok_other [simp]: "lists_ok i (a\<lparr>ctx := c\<rparr>) \<longleftrightarrow> lists_ok i a" "lists_ok i (a\<lparr>sm := m\<rparr>) \<longleftrightarrow> lists_ok i a"
  "lists_ok i (a\<lparr>irq := b\<rparr>) \<longleftrightarrow> lists_ok i a"
  by (rule lists_ok_cong; simp add: key_def fun_eq_iff)+

lemma lists_ok_switch [simp]: "lists_ok i (a_switch r a) \<longleftrightarrow> lists_ok i a"
  by (simp add: a_switch_def Let_def lists_ok_upd)

section \<open>Every operation keeps the lists in order\<close>

lemma st_simps [simp]: "st (a_set l xs a) = st a" "tk a p \<noteq> None \<Longrightarrow> st (a_upd p f a) = (st a)(p := task_state (f (the (tk a p))))"
  by (auto simp: st_def fun_eq_iff)

lemma listed_st: "listed a \<longleftrightarrow> (\<forall>l. distinct (qs a l)) \<and> (\<forall>l p. p \<in> set (qs a l) \<longrightarrow> tk a p \<noteq> None) \<and>
     (\<forall>p l. tk a p \<noteq> None \<longrightarrow> (p \<in> set (qs a l) \<longleftrightarrow> TLIST_HEAD (st a p) = Some l))"
  by (auto simp: listed_def st_def)

lemma running_st: "running_ok a \<longleftrightarrow> ready a \<noteq> [] \<and> (\<forall>p. tk a p \<noteq> None \<longrightarrow> (st a p = TSTATE_TASK_RUNNING \<longleftrightarrow> p = cur a))"
  by (auto simp: running_ok_def st_def)

lemma idle_pr: "idle_ok i a \<longleftrightarrow> last (ready a) = i \<and> (\<forall>p. tk a p \<noteq> None \<longrightarrow> (pr a p = 0 \<longleftrightarrow> p = i))"
  by (auto simp: idle_ok_def pr_def)

lemma lists_ok_cur:
  assumes "lists_ok i a"
  obtains t where "tk a (cur a) = Some t" "task_state t = TSTATE_TASK_RUNNING" "ready a = cur a # tl (ready a)"
proof -
  have r: "ready a \<noteq> []" "cur a \<in> set (ready a)" "listed a" using assms by (simp_all add: ok_defs)
  obtain t where "tk a (cur a) = Some t" by (rule listedD [OF r(3,2)])
  then show thesis using that r assms by (auto simp: lists_ok_def running_ok_def)
qed

lemma lists_ok_idle:
  assumes "lists_ok i a"
  shows "i \<in> set (ready a)" "pr a i = 0" "tk a i \<noteq> None" "cur a = i \<Longrightarrow> ready a = [i]"
proof -
  have r: "ready a \<noteq> []" "listed a" "last (ready a) = i" using assms by (simp_all add: ok_defs)
  show i: "i \<in> set (ready a)" using r last_in_set by blast
  then obtain t where t: "tk a i = Some t" by (rule listedD [OF r(2)])
  then show "pr a i = 0" "tk a i \<noteq> None" using assms by (auto simp: lists_ok_def idle_pr)
  show "ready a = [i]" if "cur a = i"
  proof (cases "tl (ready a) = []")
    case True
    then show ?thesis using r that by (cases "ready a") auto
  next
    case False
    then have "last (tl (ready a)) = i" "hd (ready a) = i" using r that by (simp_all add: last_tl)
    then have "\<not> distinct (ready a)" using False r last_in_set [of "tl (ready a)"] by (cases "ready a") auto
    then show ?thesis using r by (simp add: listed_def)
  qed
qed

lemma lists_ok_place:
  assumes ok: "lists_ok i a" and p: "tk a p \<noteq> None" "TLIST_HEAD (st a p) = None"
  shows "lists_ok i (a_place p a)" "ready (a_place p a) = ins (pr a) p (ready a)"
    "cur (a_place p a) = (if pr a (cur a) < pr a p then p else cur a)" "l \<noteq> g_readytorun \<Longrightarrow> qs (a_place p a) l = qs a l"
    "pr (a_place p a) = pr a"
proof -
  obtain t where c: "tk a (cur a) = Some t" "task_state t = TSTATE_TASK_RUNNING" "ready a = cur a # tl (ready a)"
    by (rule lists_ok_cur [OF ok])
  have L: "listed a" "running_ok a" "ordered a" "idle_ok i a" using ok by (simp_all add: lists_ok_def)
  have n: "p \<notin> set (qs a l)" for l using L(1) p by (auto simp: listed_st)
  have i: "p \<noteq> i" using n lists_ok_idle(1) [OF ok] by blast
  have cp: "cur a \<noteq> p" using n [of g_readytorun] c(3) by (metis list.set_intros(1))
  show q: "ready (a_place p a) = ins (pr a) p (ready a)" and r: "l \<noteq> g_readytorun \<Longrightarrow> qs (a_place p a) l = qs a l"
     and P: "pr (a_place p a) = pr a" for l using p(1) c(1) cp by (auto simp: a_place_def pr_def fun_eq_iff)
  show h: "cur (a_place p a) = (if pr a (cur a) < pr a p then p else cur a)" using c(3) by (auto simp: q hd_ins)
  have s: "st (a_place p a) = (if pr a (cur a) < pr a p
      then (st a)(p := TSTATE_TASK_RUNNING, cur a := TSTATE_TASK_READYTORUN) else (st a)(p := TSTATE_TASK_READYTORUN))"
    using p(1) c(1) cp by (auto simp: a_place_def)
  have d: "tk (a_place p a) x = None \<longleftrightarrow> tk a x = None" for x by (auto simp: a_place_def)
  have cs: "TLIST_HEAD (st a (cur a)) = Some g_readytorun" using c by (simp add: st_def)
  have Q: "qs (a_place p a) = (qs a)(g_readytorun := ins (pr a) p (ready a))" using q r by auto
  have "listed (a_place p a)" unfolding listed_st Q d s using L(1) n p cs cp by (auto simp: listed_st)
  moreover have "running_ok (a_place p a)" unfolding running_st d h s using L(2) cp p c(1) by (auto simp: running_st q TLIST_none)
  moreover have "ordered (a_place p a)" unfolding ordered_def Q P using L(3) by (simp add: ordered_def)
  moreover have "last (ready a) = i" "pr a p \<noteq> 0" "ready a \<noteq> []"
    using L(2,4) p i by (simp_all add: idle_pr running_st)
  then have "last (ins (pr a) p (ready a)) = i"
    using last_ins [of "ready a" "pr a" p] lists_ok_idle(2) [OF ok] by (simp add: word_neq_0_conv)
  then have "idle_ok i (a_place p a)" using L(4) by (simp add: idle_pr q d P)
  ultimately show "lists_ok i (a_place p a)" by (simp add: lists_ok_def)
qed


lemma lists_ok_addblocked:
  assumes ok: "lists_ok i a" and p: "tk a p \<noteq> None" "TLIST_HEAD (st a p) = None"
    and s: "TLIST_HEAD s = Some l" "l \<noteq> g_readytorun"
  shows "lists_ok i (a_addblocked p s a)" "pr (a_addblocked p s a) = pr a" 
    "l' \<noteq> l \<Longrightarrow> qs (a_addblocked p s a) l' = qs a l'"
    "set (qs (a_addblocked p s a) l) = insert p (set (qs a l))"
proof -
  have L: "listed a" "running_ok a" "ordered a" "idle_ok i a" using ok by (simp_all add: lists_ok_def)
  have n: "p \<notin> set (qs a l)" for l using L(1) p by (auto simp: listed_st)
  define xs where "xs = (if TLIST_ISPRIORITIZED s then ins (pr a) p (qs a l) else qs a l @ [p])"
  have Q: "qs (a_addblocked p s a) = (qs a)(l := xs)" and S: "st (a_addblocked p s a) = (st a)(p := s)"
    and d: "tk (a_addblocked p s a) x = None \<longleftrightarrow> tk a x = None" for x
    using p(1) s by (auto simp: a_addblocked_def xs_def)
  show P: "pr (a_addblocked p s a) = pr a" using p(1) by (auto simp: a_addblocked_def pr_def fun_eq_iff Let_def)
  show "l' \<noteq> l \<Longrightarrow> qs (a_addblocked p s a) l' = qs a l'" "set (qs (a_addblocked p s a) l) = insert p (set (qs a l))"
    by (auto simp: Q xs_def)
  have x: "distinct xs" "set xs = insert p (set (qs a l))" using n L(1) by (auto simp: xs_def listed_def)
  have c: "p \<noteq> cur a" using n [of g_readytorun] L(2) by (auto simp: running_ok_def)
  have "listed (a_addblocked p s a)" unfolding listed_st Q d S using L(1) n p s x by (auto simp: listed_st)
  moreover have "running_ok (a_addblocked p s a)" unfolding running_st d Q S using L(2) s c by (auto simp: running_st)
  moreover have "prio_sorted (pr a) xs" if "l \<notin> unordered"
    using that L(3) s by (cases s) (auto simp: ordered_def unordered_def xs_def)
  then have "ordered (a_addblocked p s a)" unfolding ordered_def Q P using L(3) by (simp add: ordered_def)
  moreover have "idle_ok i (a_addblocked p s a)" using L(4) s(2) by (simp add: idle_pr Q d P)
  ultimately show "lists_ok i (a_addblocked p s a)" by (simp add: lists_ok_def)
qed

lemma remove1_filter: "distinct xs \<Longrightarrow> remove1 p xs = filter (\<lambda>x. p \<noteq> x) xs"
  by (simp add: distinct_remove1_removeAll removeAll_filter_not_eq)

lemma lists_ok_rmblocked:
  assumes ok: "lists_ok i a" and p: "tk a p \<noteq> None" "TLIST_HEAD (st a p) = Some l" "l \<noteq> g_readytorun"
  shows "lists_ok i (a_rmblocked p a)" "pr (a_rmblocked p a) = pr a" "st (a_rmblocked p a) = (st a)(p := TSTATE_TASK_INVALID)"
    "qs (a_rmblocked p a) = (qs a)(l := remove1 p (qs a l))"
proof -
  have L: "listed a" "running_ok a" "ordered a" "idle_ok i a" using ok by (simp_all add: lists_ok_def)
  show Q: "qs (a_rmblocked p a) = (qs a)(l := remove1 p (qs a l))" using p by (simp add: a_rmblocked_def)
  show S: "st (a_rmblocked p a) = (st a)(p := TSTATE_TASK_INVALID)" using p by (simp add: a_rmblocked_def)
  show P: "pr (a_rmblocked p a) = pr a" using p(1) by (auto simp: a_rmblocked_def pr_def fun_eq_iff)
  have d: "tk (a_rmblocked p a) x = None \<longleftrightarrow> tk a x = None" for x by (auto simp: a_rmblocked_def)
  have f: "remove1 p (qs a l) = filter (\<lambda>x. p \<noteq> x) (qs a l)" by (rule remove1_filter [OF listed_distinct [OF L(1)]])
  have "p \<notin> set (ready a)" using L(1) p by (auto simp: listed_st)
  then have c: "p \<noteq> cur a" using L(2) by (auto simp: running_ok_def)
  have "listed (a_rmblocked p a)" unfolding listed_st Q d S f using L(1) p by (auto simp: listed_st)
  moreover have "running_ok (a_rmblocked p a)" unfolding running_st d Q S using L(2) p c by (auto simp: running_st)
  moreover have "ordered (a_rmblocked p a)" unfolding ordered_def Q P f using L(3) by (simp add: ordered_def sorted_wrt_filter)
  moreover have "idle_ok i (a_rmblocked p a)" using L(4) p(3) by (simp add: idle_pr Q d P)
  ultimately show "lists_ok i (a_rmblocked p a)" by (simp add: lists_ok_def)
qed


lemma last_filter_neq: "xs \<noteq> [] \<Longrightarrow> p \<noteq> last xs \<Longrightarrow> last (filter (\<lambda>x. p \<noteq> x) xs) = last xs"
  by (induction xs rule: rev_induct) auto

lemma lists_ok_remready:
  assumes ok: "lists_ok i a" and p: "p \<in> set (ready a)" "p \<noteq> i"
  shows "lists_ok i (a_remready p a)" "pr (a_remready p a) = pr a" "st (a_remready p a) p = TSTATE_TASK_INVALID"
    "qs (a_remready p a) = (qs a)(g_readytorun := remove1 p (ready a))"
proof -
  have L: "listed a" "running_ok a" "ordered a" "idle_ok i a" using ok by (simp_all add: lists_ok_def)
  obtain y where y: "tk a p = Some y" by (rule listedD [OF L(1) p(1)])
  have f: "remove1 p (ready a) = filter (\<lambda>x. p \<noteq> x) (ready a)" by (rule remove1_filter [OF listed_distinct [OF L(1)]])
  have i: "i \<in> set (remove1 p (ready a))" using f p lists_ok_idle(1) [OF ok] by simp
  have c: "ready a = cur a # tl (ready a)" using L(2) by (simp add: running_ok_def)
  let ?n = "hd (tl (ready a))"
  have n: "?n \<noteq> p" "?n \<in> set (ready a)" "remove1 p (ready a) = tl (ready a)" if "p = cur a"
  proof -
    show r: "remove1 p (ready a) = tl (ready a)" using that c by (metis remove1.simps(2))
    then have t: "?n \<in> set (tl (ready a))" using i by (cases "tl (ready a)") auto
    then show "?n \<in> set (ready a)" by (metis c list.set_intros(2))
    show "?n \<noteq> p" using t c that listed_distinct [OF L(1), of g_readytorun] by (metis distinct.simps(2))
  qed
  show Q: "qs (a_remready p a) = (qs a)(g_readytorun := remove1 p (ready a))" by (simp add: a_remready_def)
  have y': "tk a ?n \<noteq> None" if "p = cur a" using n(2) that L(1) by (auto simp: listed_def)
  then have S: "st (a_remready p a) = (if p = cur a then (st a)(?n := TSTATE_TASK_RUNNING, p := TSTATE_TASK_INVALID) else (st a)(p := TSTATE_TASK_INVALID))"
    using y by (auto simp: a_remready_def)
  then show "st (a_remready p a) p = TSTATE_TASK_INVALID" by simp
  show P: "pr (a_remready p a) = pr a" using y y' by (auto simp: a_remready_def pr_def fun_eq_iff)
  have d: "tk (a_remready p a) x = None \<longleftrightarrow> tk a x = None" for x by (auto simp: a_remready_def)
  have t: "TLIST_HEAD (st a p) = Some g_readytorun" using L(1) p(1) y by (simp add: listed_st)
  have "listed (a_remready p a)" unfolding listed_st Q d S f using L(1) n p t by (auto simp: listed_st TLIST_ready)
  moreover have "hd (remove1 p (ready a)) = (if p = cur a then ?n else cur a)" using n(3) c by (metis list.sel(1) remove1.simps(2))
  then have "running_ok (a_remready p a)" unfolding running_st d Q S using L(2) i n by (auto simp: running_st)
  moreover have "ordered (a_remready p a)" unfolding ordered_def Q P f using L(3) by (simp add: ordered_def sorted_wrt_filter)
  moreover have "last (remove1 p (ready a)) = i"
    using L(2,4) p f last_filter_neq [of "ready a" p] by (auto simp: idle_pr running_ok_def)
  then have "idle_ok i (a_remready p a)" using L(4) by (simp add: idle_pr Q d P)
  ultimately show "lists_ok i (a_remready p a)" by (simp add: lists_ok_def)
qed

lemma a_pending_addblocked: "a_state p TSTATE_TASK_PENDING (a_add g_pendingtasks p a) = a_addblocked p TSTATE_TASK_PENDING a"
  by (simp add: a_addblocked_def Let_def)

lemma lists_ok_addready:
  assumes ok: "lists_ok i a" and p: "tk a p \<noteq> None" "TLIST_HEAD (st a p) = None"
  shows "lists_ok i (a_addready p a)" "pr (a_addready p a) = pr a"
    "cur (a_addready p a) = (if pr a (cur a) < pr a p \<and> \<not> locked a then p else cur a)"
    "l \<notin> {g_readytorun, g_pendingtasks} \<Longrightarrow> qs (a_addready p a) l = qs a l"
  using lists_ok_place [OF ok p] lists_ok_addblocked [OF ok p, of TSTATE_TASK_PENDING]
  unfolding a_addready_def a_pending_addblocked by simp_all

lemma a_place_set: 
  assumes "l \<noteq> g_readytorun"
  shows "a_place p (a_set l xs a) = a_set l xs (a_place p a)"
proof -
  have "pr (a\<lparr>qs := f\<rparr>) = pr a" for f by (simp add: pr_def fun_eq_iff)
  then show ?thesis using assms by (simp add: a_place_def a_upd_def a_set_def fun_upd_twist)
qed

lemma a_set_set [simp]: "a_set l xs (a_set l ys a) = a_set l xs a"
  by (simp add: a_set_def)

lemma fold_place_set: "l \<noteq> g_readytorun \<Longrightarrow> fold a_place ps (a_set l xs a) = a_set l xs (fold a_place ps a)"
  by (induction ps arbitrary: a) (simp_all add: a_place_set)

lemma a_place_state:
  assumes "tk a p \<noteq> None" "p \<noteq> cur a"
  shows "a_place p (a_state p s a) = a_place p a"
proof -
  have "pr (a_state p s a) = pr a" using assms(1) by (auto simp: pr_def fun_eq_iff)
  then show ?thesis using assms by (cases a) (auto simp: a_place_def a_upd_def a_set_def)
qed

text \<open>To merge is to move the pending tasks one by one.\<close>

lemma a_merge_step:
  assumes ok: "lists_ok i a" and ps: "pend a = p # ps"
  shows "a_merge a = a_merge (a_place p (a_rmblocked p a))" "pend (a_place p (a_rmblocked p a)) = ps"
    "lists_ok i (a_place p (a_rmblocked p a))" "pr (a_place p (a_rmblocked p a)) = pr a"
    "ready (a_place p (a_rmblocked p a)) = ins (pr a) p (ready a)"
    "l \<notin> {g_readytorun, g_pendingtasks} \<Longrightarrow> qs (a_place p (a_rmblocked p a)) l = qs a l"
    "a_place p (a_rmblocked p a) = a_set g_pendingtasks ps (a_place p a)"
proof -
  have L: "listed a" "running_ok a" using ok by (simp_all add: lists_ok_def)
  obtain t where t: "tk a p = Some t" "TLIST_HEAD (task_state t) = Some g_pendingtasks"
    by (rule listedD [OF L(1), of p g_pendingtasks]) (simp_all add: ps)
  then have s: "tk a p \<noteq> None" "TLIST_HEAD (st a p) = Some g_pendingtasks" by (auto simp: st_def)
  note r = lists_ok_rmblocked [OF ok s]
  have c: "p \<noteq> cur a" 
  proof -
    have "task_state t \<noteq> TSTATE_TASK_RUNNING" using t(2) by auto
    then show ?thesis using L(2) t(1) by (simp add: running_ok_def)
  qed
  have e: "a_rmblocked p a = a_set g_pendingtasks ps (a_state p TSTATE_TASK_INVALID a)"
    using s ps by (simp add: a_rmblocked_def a_upd_def a_set_def)
  show p: "a_place p (a_rmblocked p a) = a_set g_pendingtasks ps (a_place p a)"
    unfolding e using c s by (simp add: a_place_set a_place_state)
  then show "a_merge a = a_merge (a_place p (a_rmblocked p a))"
    by (simp add: a_merge_def ps fold_place_set)
  show "pend (a_place p (a_rmblocked p a)) = ps" by (simp add: p)
  have s': "tk (a_rmblocked p a) p \<noteq> None" "TLIST_HEAD (st (a_rmblocked p a) p) = None" using s r by (auto simp: a_rmblocked_def)
  show "lists_ok i (a_place p (a_rmblocked p a))" "pr (a_place p (a_rmblocked p a)) = pr a"
    "ready (a_place p (a_rmblocked p a)) = ins (pr a) p (ready a)"
    "l \<notin> {g_readytorun, g_pendingtasks} \<Longrightarrow> qs (a_place p (a_rmblocked p a)) l = qs a l"
    using lists_ok_place [OF _ s'] r by simp_all
qed

lemma lists_ok_merge:
  assumes "lists_ok i a"
  shows "lists_ok i (a_merge a) \<and> pr (a_merge a) = pr a \<and> ready (a_merge a) = fold (ins (pr a)) (pend a) (ready a) \<and>
    pend (a_merge a) = [] \<and> (\<forall>l. l \<notin> {g_readytorun, g_pendingtasks} \<longrightarrow> qs (a_merge a) l = qs a l)"
  using assms
proof (induction "pend a" arbitrary: a)
  case Nil
  then have "a_merge a = a" by (cases a) (auto simp: a_merge_def a_set_def)
  then show ?case using Nil by simp
next
  case (Cons p ps)
  note s = a_merge_step [OF Cons.prems Cons.hyps(2) [symmetric]]
  show ?case using Cons.hyps(1) [of "a_place p (a_rmblocked p a)"] s Cons.hyps(2) [symmetric] by simp
qed

text \<open>A task in no list may get a new priority; so may the running task, as long as it stays the first.\<close>

lemma lists_ok_reprio:
  assumes ok: "lists_ok i a" and p: "tk a p \<noteq> None" "TLIST_HEAD (st a p) = None" "n \<noteq> 0"
  shows "lists_ok i (a_upd p (\<lambda>t. t\<lparr>sched_priority := n\<rparr>) a)" (is "lists_ok i ?b")
proof -
  have L: "listed a" "running_ok a" "ordered a" "idle_ok i a" using ok by (simp_all add: lists_ok_def)
  have o: "p \<notin> set (qs a l)" for l using L(1) p by (auto simp: listed_st)
  have S: "st ?b = st a" and d: "tk ?b x = None \<longleftrightarrow> tk a x = None" for x using p(1) by (auto simp: st_def fun_eq_iff)
  have P: "pr ?b = (pr a)(p := n)" using p(1) by simp
  have "prio_sorted (pr ?b) (qs a l) = prio_sorted (pr a) (qs a l)" for l
    by (rule sorted_cong) (use o P in auto)
  then have "ordered ?b" using L(3) by (simp add: ordered_def)
  moreover have "listed ?b" "running_ok ?b" using L(1,2) unfolding listed_st running_st S d by auto
  moreover have "p \<noteq> i" using o lists_ok_idle(1) [OF ok] by blast
  then have "idle_ok i ?b" using L(4) p(3) unfolding idle_pr P d by auto
  ultimately show ?thesis by (simp add: lists_ok_def)
qed

lemma lists_ok_reprio_running:
  assumes ok: "lists_ok i a" and r: "ready a = p # q # xs" and n: "pr a q < n"
  shows "lists_ok i (a_upd p (\<lambda>t. t\<lparr>sched_priority := n\<rparr>) a)" (is "lists_ok i ?b")
proof -
  have L: "listed a" "running_ok a" "ordered a" "idle_ok i a" using ok by (simp_all add: lists_ok_def)
  obtain t where t: "tk a p = Some t" by (rule listedD [OF L(1), of p g_readytorun]) (simp add: r)
  have S: "st ?b = st a" and d: "tk ?b x = None \<longleftrightarrow> tk a x = None" for x using t by (auto simp: st_def fun_eq_iff)
  have P: "pr ?b = (pr a)(p := n)" using t by simp
  have o: "p \<notin> set (qs a l)" if "l \<noteq> g_readytorun" for l using listed_disjoint [OF L(1) that] r by auto
  have "prio_sorted (pr ?b) (qs a l) = prio_sorted (pr a) (qs a l)" if "l \<noteq> g_readytorun" for l
    by (rule sorted_cong) (use o [OF that] P in auto)
  note others = this
  have x: "prio_sorted (pr a) (q # xs)" "p \<notin> set (q # xs)"
    using L(1,3) r listed_distinct [OF L(1), of g_readytorun] by (auto simp: ordered_def unordered_def dest: spec [of _ g_readytorun])
  have "prio_sorted (pr ?b) (q # xs) = prio_sorted (pr a) (q # xs)" by (rule sorted_cong) (use P x(2) in auto)
  moreover have "\<forall>y\<in>set (q # xs). pr ?b y \<le> pr ?b p" using x n P by (auto intro: order_trans less_imp_le)
  ultimately have "prio_sorted (pr ?b) (ready a)" using x(1) unfolding r by (simp only: sorted_wrt.simps) blast
  then have "ordered ?b" using L(3) others unfolding ordered_def by (metis sys_simps(2))
  moreover have "listed ?b" "running_ok ?b" using L(1,2) unfolding listed_st running_st S d by auto
  moreover have "p \<noteq> i" using lists_ok_idle(4) [OF ok] r by auto
  then have "idle_ok i ?b" using L(4) n unfolding idle_pr P d by (auto simp: word_less_alt)
  ultimately show ?thesis by (simp add: lists_ok_def)
qed

end
