(* ===== verification/Sched_Refine.thy ===== *)
theory Sched_Refine
  imports Sched_Spec
begin

text \<open>
  The linked lists of the kernel implement the scheduler on lists: every function of the code computes its
  counterpart of the specification, and is defined where the lists are in order.
\<close>

section \<open>The lists behind the kernel\<close>

definition strip :: "'c tcb_s \<Rightarrow> 'c tcb_s" where
  "strip t = t\<lparr>flink := None, blink := None\<rparr>"

definition view :: "'c tcbs \<Rightarrow> 'c tcbs" where
  "view h p = map_option strip (h p)"

definition repr :: "'c kernel \<Rightarrow> 'c sys \<Rightarrow> bool" where
  "repr k a \<longleftrightarrow> (\<forall>l. dqueue (tcbs k) (lists k l) (qs a l)) \<and> tk a = view (tcbs k) \<and> sm a = sems k \<and> irq a = in_irq k \<and>
     ctx a = cpu k"

lemma strip_sel [simp]:
  "sched_priority (strip t) = sched_priority t" "task_state (strip t) = task_state t" "sched_rr (strip t) = sched_rr t"
  "lockcount (strip t) = lockcount t" "timeslice (strip t) = timeslice t" "waitsem (strip t) = waitsem t"
  "pterrno (strip t) = pterrno t" "xcp (strip t) = xcp t"
  by (simp_all add: strip_def)

lemma strip_links [simp]: "strip (t\<lparr>flink := x\<rparr>) = strip t" "strip (t\<lparr>blink := x\<rparr>) = strip t"
  by (simp_all add: strip_def)

lemma strip_upd [simp]:
  "strip (t\<lparr>sched_priority := a\<rparr>) = (strip t)\<lparr>sched_priority := a\<rparr>" "strip (t\<lparr>task_state := s\<rparr>) = (strip t)\<lparr>task_state := s\<rparr>"
  "strip (t\<lparr>lockcount := l\<rparr>) = (strip t)\<lparr>lockcount := l\<rparr>" "strip (t\<lparr>timeslice := i\<rparr>) = (strip t)\<lparr>timeslice := i\<rparr>"
  "strip (t\<lparr>waitsem := w\<rparr>) = (strip t)\<lparr>waitsem := w\<rparr>" "strip (t\<lparr>pterrno := e\<rparr>) = (strip t)\<lparr>pterrno := e\<rparr>"
  "strip (t\<lparr>xcp := c\<rparr>) = (strip t)\<lparr>xcp := c\<rparr>"
  by (simp_all add: strip_def)

lemma strip_eq_more: "strip t = strip t' \<longleftrightarrow> dq_entry_s.more t = dq_entry_s.more t'"
  by (cases t; cases t') (auto simp: strip_def)

lemma view_relinked: "relinked A h h' \<Longrightarrow> view h' = view h"
proof (rule ext)
  fix p assume "relinked A h h'"
  then have "map_option dq_entry_s.more (h' p) = map_option dq_entry_s.more (h p)" by (simp add: relinked_def)
  then show "view h' p = view h p" by (cases "h p"; cases "h' p") (simp_all add: view_def strip_eq_more)
qed

lemma view_upd [simp]: "view (h(p := x)) = (view h)(p := map_option strip x)"
  by (auto simp: view_def)

lemma dqueue_upd:
  assumes "h p = Some t" "flink t' = flink t" "blink t' = blink t"
  shows "dqueue (h(p \<mapsto> t')) q xs \<longleftrightarrow> dqueue h q xs"
proof -
  have "dseg (h(p \<mapsto> t')) a b xs c d \<longleftrightarrow> dseg h a b xs c d" for a b c d
    by (induction xs arbitrary: a b) (use assms in auto)
  then show ?thesis by (simp add: dqueue_def)
qed

text \<open>Reading the lists through the links.\<close>

lemma repr_at:
  assumes "repr k a" "qs a l = xs @ p # ys"
  obtains t where "tcbs k p = Some t" "tk a p = Some (strip t)" "blink t = (if xs = [] then None else Some (last xs))"
    "flink t = (if ys = [] then None else Some (hd ys))"
proof -
  have "dqueue (tcbs k) (lists k l) (xs @ p # ys)" "tk a p = view (tcbs k) p" using assms by (simp_all add: repr_def flip: assms(2))
  moreover obtain t where "tcbs k p = Some t" "blink t = (if xs = [] then None else Some (last xs))"
    "flink t = (if ys = [] then None else Some (hd ys))" by (rule dqueue_split [OF calculation(1)])
  ultimately show thesis using that by (simp add: view_def)
qed

lemma repr_head: "repr k a \<Longrightarrow> qhead (lists k l) = (if qs a l = [] then None else Some (hd (qs a l)))"
  using dqueue_head unfolding repr_def by blast

lemma repr_this_task: "repr k a \<Longrightarrow> ready a \<noteq> [] \<Longrightarrow> this_task k = Some (cur a)"
  by (simp add: this_task_def repr_head)

lemma repr_tcb: "repr k a \<Longrightarrow> tk a p = Some s \<Longrightarrow> \<exists>t. tcbs k p = Some t \<and> s = strip t"
  by (auto simp: repr_def view_def)

lemma repr_tcb_None: "repr k a \<Longrightarrow> tcbs k p = None \<longleftrightarrow> tk a p = None"
  by (auto simp: repr_def view_def)

lemma upd_tcb_ok:
  assumes "repr k a" "tk a p \<noteq> None"
    and "\<And>t. flink (f t) = flink t" "\<And>t. blink (f t) = blink t" "\<And>t. strip (f t) = f (strip t)"
  shows "\<exists>k'. upd_tcb p f k = Some k' \<and> repr k' (a_upd p f a)"
proof -
  obtain t where t: "tcbs k p = Some t" "tk a p = Some (strip t)" using assms(1,2) repr_tcb by fastforce
  then have "repr (k\<lparr>tcbs := (tcbs k)(p \<mapsto> f t)\<rparr>) (a_upd p f a)"
    using assms(1,3-5) by (auto simp: repr_def dqueue_upd)
  then show ?thesis using t by (simp add: upd_tcb_def)
qed

lemma set_state_ok: "repr k a \<Longrightarrow> tk a p \<noteq> None \<Longrightarrow> \<exists>k'. set_state p s k = Some k' \<and> repr k' (a_state p s a)"
  unfolding set_state_def by (rule upd_tcb_ok) auto

text \<open>An operation on one list, when the other lists have nothing to do with it.\<close>

lemma repr_on_list:
  assumes "repr k a" "dqueue h' q' xs" "relinked A (tcbs k) h'" "\<And>l'. l' \<noteq> l \<Longrightarrow> set (qs a l') \<inter> A = {}"
  shows "repr (k\<lparr>lists := (lists k)(l := q'), tcbs := h'\<rparr>) (a_set l xs a)"
proof -
  have "dqueue h' (lists k l') (qs a l')" if "l' \<noteq> l" for l'
    using dqueue_relinked [OF assms(3) assms(4) [OF that]] assms(1) by (simp add: repr_def)
  then show ?thesis using assms(1,2) view_relinked [OF assms(3)] by (simp add: repr_def)
qed

section \<open>Each function implements its specification\<close>

lemma find_place_dseg:
  assumes "dseg h b p xs lst None" "\<And>x. x \<in> set xs \<Longrightarrow> f x = sched_priority (the (h x))"
  shows "find_place h n p = Some (case dropWhile (\<lambda>y. n \<le> f y) xs of [] \<Rightarrow> None | y # _ \<Rightarrow> Some y)"
  using assms
proof (induction xs arbitrary: b p)
  case Nil
  then show ?case by (subst find_place.simps) simp
next
  case (Cons x xs)
  then obtain e where "h x = Some e" "p = Some x" "dseg h (Some x) (flink e) xs lst None" by auto
  then show ?case using Cons.IH [of "Some x" "flink e"] Cons.prems(2) by (subst find_place.simps) simp
qed

lemma sched_addprioritized_ok:
  assumes q: "dqueue h q xs" "x \<notin> set xs" "h x = Some t" and f: "\<And>y. y \<in> set (x # xs) \<Longrightarrow> f y = sched_priority (the (h y))"
  shows "\<exists>q' h'. sched_addprioritized x q h = Some (hd (ins f x xs) = x, q', h') \<and> dqueue h' q' (ins f x xs) \<and>
     relinked (insert x (set xs)) h h'"
proof -
  let ?P = "\<lambda>y. f x \<le> f y"
  define us vs where "us = takeWhile ?P xs" and "vs = dropWhile ?P xs"
  have ix: "ins f x xs = us @ x # vs" and xs: "xs = us @ vs" by (simp_all add: ins_def us_def vs_def)
  have hd: "hd (us @ x # vs) = x \<longleftrightarrow> us = []" using q(2) xs by (cases us) auto
  have ft: "sched_priority t = f x" using f [of x] q(3) by simp
  have place: "find_place h (f x) (qhead q) = Some (case vs of [] \<Rightarrow> None | y # _ \<Rightarrow> Some y)"
    unfolding vs_def by (rule find_place_dseg) (use q f in \<open>auto simp: dqueue_def\<close>)
  show ?thesis
  proof (cases vs)
    case Nil
    then have us: "us = xs" using xs by simp
    show ?thesis
    proof (cases xs rule: rev_cases)
      case Nil
      then show ?thesis using us q place \<open>vs = []\<close> by (auto simp: sched_addprioritized_def ix ft queue_eval dq_init_def)
    next
      case (snoc zs b)
      obtain e where e: "h b = Some e" "distinct (zs @ [b])" "dseg h None (qhead q) zs (blink e) (Some b)"
        by (rule dqueue_split [of h q zs b "[]"]) (use q(1) snoc in auto)
      have t: "qtail q = Some b" "flink e = None" using q(1) snoc e(1) by (auto simp: dqueue_def dseg_mid)
      have "ins f x (zs @ [b]) = zs @ [b, x]" using ix us snoc \<open>vs = []\<close> by simp
      then show ?thesis using e t q(2,3) us place hd snoc \<open>vs = []\<close>
        by (simp add: sched_addprioritized_def ft queue_eval)
    qed
  next
    case (Cons n ws)
    obtain e where e: "h n = Some e" "blink e = (if us = [] then None else Some (last us))" "distinct (us @ n # ws)"
      "dseg h None (qhead q) us (blink e) (Some n)" "dseg h (Some n) (flink e) ws (qtail q) None"
      by (rule dqueue_split [of h q us n ws]) (use q(1) xs Cons in auto)
    show ?thesis
    proof (cases us rule: rev_cases)
      case Nil
      then show ?thesis unfolding ix hd using e q(2,3) place Cons xs
        by (simp add: sched_addprioritized_def ft queue_eval)
    next
      case (snoc zs b)
      then obtain g where g: "h b = Some g" "flink g = Some n" "dseg h None (qhead q) zs (blink g) (Some b)"
        using e(4) by (auto simp: dseg_mid)
      show ?thesis unfolding ix hd using e g snoc q(2,3) place Cons xs
        by (simp add: sched_addprioritized_def ft queue_eval)
    qed
  qed
qed


lemma repr_pr: "repr k a \<Longrightarrow> tk a p \<noteq> None \<Longrightarrow> pr a p = sched_priority (the (tcbs k p))"
  by (auto simp: repr_def view_def pr_def)

lemma add_to_free:
  assumes r: "repr k a" "\<And>l'. l' \<noteq> l \<Longrightarrow> set (qs a l') \<inter> set (qs a l) = {}" "\<And>x. x \<in> set (qs a l) \<Longrightarrow> tk a x \<noteq> None"
    and p: "tk a p \<noteq> None" "\<And>l'. p \<notin> set (qs a l')"
  shows "\<exists>k'. add_to l p k = Some (hd (ins (pr a) p (qs a l)) = p, k') \<and> repr k' (a_add l p a)"
proof -
  obtain t where t: "tcbs k p = Some t" using p(1) repr_tcb [OF r(1)] by blast
  have "\<exists>q' h'. sched_addprioritized p (lists k l) (tcbs k) = Some (hd (ins (pr a) p (qs a l)) = p, q', h') \<and>
     dqueue h' q' (ins (pr a) p (qs a l)) \<and> relinked (insert p (set (qs a l))) (tcbs k) h'"
  proof (rule sched_addprioritized_ok)
    show "dqueue (tcbs k) (lists k l) (qs a l)" using r(1) by (simp add: repr_def)
    show "pr a y = sched_priority (the (tcbs k y))" if "y \<in> set (p # qs a l)" for y
      using that p(1) r(3) by (intro repr_pr [OF r(1)]) auto
  qed (use p t in auto)
  then obtain q' h' where s: "sched_addprioritized p (lists k l) (tcbs k) = Some (hd (ins (pr a) p (qs a l)) = p, q', h')"
     "dqueue h' q' (ins (pr a) p (qs a l))" "relinked (insert p (set (qs a l))) (tcbs k) h'" by blast
  have "set (qs a l') \<inter> insert p (set (qs a l)) = {}" if "l' \<noteq> l" for l' using p(2) r(2) [OF that] by auto
  from repr_on_list [OF r(1) s(2,3) this] show ?thesis using s(1) by (simp add: add_to_def)
qed

lemma add_to_ok:
  assumes r: "repr k a" "listed a" and p: "tk a p \<noteq> None" "TLIST_HEAD (st a p) = None"
  shows "\<exists>k'. add_to l p k = Some (hd (ins (pr a) p (qs a l)) = p, k') \<and> repr k' (a_add l p a)"
  by (rule add_to_free [OF r(1) listed_disjoint [OF r(2)] _ p(1)]) (use r(2) p in \<open>auto simp: listed_st\<close>)

lemma on_list_rem_ok:
  assumes r: "repr k a" "\<And>l'. l' \<noteq> l \<Longrightarrow> set (qs a l') \<inter> set (qs a l) = {}" and p: "p \<in> set (qs a l)"
  shows "\<exists>k'. on_list l (dq_rem p) k = Some k' \<and> repr k' (a_del l p a)"
proof -
  obtain xs ys where x: "qs a l = xs @ p # ys" "p \<notin> set xs" using p by (metis split_list_first)
  have "dqueue (tcbs k) (lists k l) (xs @ p # ys)" using r(1) x by (metis repr_def)
  from dq_rem_ok [OF this] obtain q' h' where s: "dq_rem p (lists k l) (tcbs k) = Some (q', h')" "dqueue h' q' (remove1 p (qs a l))"
    "relinked (set (qs a l)) (tcbs k) h'" using x by (auto simp: remove1_append)
  from repr_on_list [OF r(1) s(2,3) r(2)] show ?thesis using s(1) by (simp add: on_list_def)
qed

lemma on_list_addlast_ok:
  assumes r: "repr k a" "listed a" and p: "tk a p \<noteq> None" "TLIST_HEAD (st a p) = None"
  shows "\<exists>k'. on_list l (dq_addlast p) k = Some k' \<and> repr k' (a_set l (qs a l @ [p]) a)"
proof -
  have n: "p \<notin> set (qs a l)" for l using r(2) p by (auto simp: listed_st)
  have "dqueue (tcbs k) (lists k l) (qs a l)" "tcbs k p \<noteq> None"
    using r(1) p(1) repr_tcb_None [OF r(1)] by (simp_all add: repr_def)
  from dq_addlast_ok [OF this(1) n this(2)] obtain q' h' where s: "dq_addlast p (lists k l) (tcbs k) = Some (q', h')"
    "dqueue h' q' (qs a l @ [p])" "relinked (insert p (set (qs a l))) (tcbs k) h'" by blast
  have "set (qs a l') \<inter> insert p (set (qs a l)) = {}" if "l' \<noteq> l" for l' using n listed_disjoint [OF r(2) that] by auto
  from repr_on_list [OF r(1) s(2,3) this] show ?thesis using s(1) by (simp add: on_list_def)
qed

lemma ins_head: "xs \<noteq> [] \<Longrightarrow> f (hd xs) < f x \<Longrightarrow> ins f x xs = x # xs"
  by (cases xs) auto

lemma sched_addreadytorun_ok:
  assumes r: "repr k a" "lists_ok i a" and p: "tk a p \<noteq> None" "TLIST_HEAD (st a p) = None"
  shows "\<exists>k'. sched_addreadytorun p k = Some (cur (a_addready p a) = p, k') \<and> repr k' (a_addready p a)"
proof -
  have L: "listed a" "ready a \<noteq> []" using r(2) by (simp_all add: ok_defs)
  have c: "this_task k = Some (cur a)" by (rule repr_this_task [OF r(1) L(2)])
  obtain tc where tc: "tk a (cur a) = Some tc" by (rule listedD [OF L(1), of "cur a" g_readytorun]) (use L(2) in simp)
  obtain t where t: "tcbs k (cur a) = Some t" "tc = strip t" using repr_tcb [OF r(1) tc] by blast
  obtain b where b: "tcbs k p = Some b" "tk a p = Some (strip b)" using repr_tcb [OF r(1)] p(1) by force
  have "p \<notin> set (ready a)" using L(1) p by (auto simp: listed_st)
  then have cp: "cur a \<noteq> p" using L(2) by auto
  have lk: "locked a \<longleftrightarrow> 0 < sint (lockcount t)" "pr a (cur a) = sched_priority t" "pr a p = sched_priority b"
    using tc t b by (simp_all add: locked_def pr_def)
  note cur = lists_ok_addready(3) [OF r(2) p]
  show ?thesis
  proof (cases "locked a \<and> pr a (cur a) < pr a p")
    case True
    obtain k1 where 1: "add_to g_pendingtasks p k = Some (hd (ins (pr a) p (pend a)) = p, k1)" "repr k1 (a_add g_pendingtasks p a)"
      using add_to_ok [OF r(1) L(1) p] by blast
    obtain k2 where 2: "set_state p TSTATE_TASK_PENDING k1 = Some k2" "repr k2 (a_addready p a)"
      using set_state_ok [OF 1(2), of p TSTATE_TASK_PENDING] p(1) True by (auto simp: a_addready_def)
    then show ?thesis using 1 True lk c t b cur cp by (simp add: sched_addreadytorun_def)
  next
    case False
    obtain k1 where 1: "add_to g_readytorun p k = Some (hd (ins (pr a) p (ready a)) = p, k1)" "repr k1 (a_add g_readytorun p a)"
      using add_to_ok [OF r(1) L(1) p] by blast
    show ?thesis
    proof (cases "pr a (cur a) < pr a p")
      case True
      then have i: "ins (pr a) p (ready a) = p # ready a" by (rule ins_head [OF L(2)])
      obtain k2 where 2: "set_state p TSTATE_TASK_RUNNING k1 = Some k2" "repr k2 (a_state p TSTATE_TASK_RUNNING (a_add g_readytorun p a))"
        using set_state_ok [OF 1(2), of p TSTATE_TASK_RUNNING] p(1) by auto
      obtain t2 where t2: "tcbs k2 p = Some t2" "flink t2 = (if ready a = [] then None else Some (cur a))"
        by (rule repr_at [OF 2(2), of g_readytorun "[]" p "ready a"]) (simp_all add: i)
      obtain k3 where 3: "set_state (cur a) TSTATE_TASK_READYTORUN k2 = Some k3" "repr k3 (a_addready p a)"
        using set_state_ok [OF 2(2), of "cur a" TSTATE_TASK_READYTORUN] tc cp True False by (auto simp: a_addready_def a_place_def)
      show ?thesis using 1(1) 2(1) 3 t2 False True i lk c t b cur L(2) by (simp add: sched_addreadytorun_def)
    next
      case lower: False
      obtain k2 where 2: "set_state p TSTATE_TASK_READYTORUN k1 = Some k2" "repr k2 (a_addready p a)"
        using set_state_ok [OF 1(2), of p TSTATE_TASK_READYTORUN] p(1) lower by (auto simp: a_addready_def a_place_def)
      show ?thesis using 1(1) 2 lower lk c t b cur cp L(2) by (simp add: sched_addreadytorun_def hd_ins)
    qed
  qed
qed

lemma sched_removereadytorun_ok:
  assumes r: "repr k a" "lists_ok i a" and p: "p \<in> set (ready a)" "p \<noteq> i"
  shows "\<exists>k'. sched_removereadytorun p k = Some (p = cur a, k') \<and> repr k' (a_remready p a)"
proof -
  have L: "listed a" "ready a \<noteq> []" using r(2) by (simp_all add: ok_defs)
  have disj: "\<And>l. l \<noteq> g_readytorun \<Longrightarrow> set (qs a l) \<inter> set (ready a) = {}" by (rule listed_disjoint [OF L(1)])
  have tp: "tk a p \<noteq> None" using L(1) p(1) by (auto simp: listed_def)
  obtain xs ys where x: "ready a = xs @ p # ys" "p \<notin> set xs" using p(1) by (metis split_list_first)
  obtain t where t: "tcbs k p = Some t" "blink t = (if xs = [] then None else Some (last xs))"
    "flink t = (if ys = [] then None else Some (hd ys))" by (rule repr_at [OF r(1) x(1)])
  have xc: "p = cur a \<longleftrightarrow> xs = []" using x by (cases xs) auto
  show ?thesis
  proof (cases "p = cur a")
    case True
    have "ready a = p # ys" using x(1) xc True by simp
    moreover have "i \<in> set (ready a)" by (rule lists_ok_idle(1) [OF r(2)])
    ultimately have ys: "ys \<noteq> []" "tl (ready a) = ys" using p(2) by auto
    then have "hd ys \<in> set (ready a)" using x(1) by simp
    then have y: "tk a (hd ys) \<noteq> None" using L(1) unfolding listed_def by blast
    obtain k1 where 1: "set_state (hd ys) TSTATE_TASK_RUNNING k = Some k1" "repr k1 (a_state (hd ys) TSTATE_TASK_RUNNING a)"
      using set_state_ok [OF r(1) y] by blast
    obtain k2 where 2: "on_list g_readytorun (dq_rem p) k1 = Some k2" "repr k2 (a_del g_readytorun p (a_state (hd ys) TSTATE_TASK_RUNNING a))"
      using on_list_rem_ok [OF 1(2), of g_readytorun p] disj p(1) by auto
    have "tk (a_del g_readytorun p (a_state (hd ys) TSTATE_TASK_RUNNING a)) p \<noteq> None" using tp by auto
    then obtain k3 where 3: "set_state p TSTATE_TASK_INVALID k2 = Some k3" "repr k3 (a_remready p a)"
      using set_state_ok [OF 2(2), of p TSTATE_TASK_INVALID] True ys by (auto simp: a_remready_def)
    show ?thesis using 1(1) 2(1) 3 t True ys xc by (simp add: sched_removereadytorun_def)
  next
    case False
    obtain k2 where 2: "on_list g_readytorun (dq_rem p) k = Some k2" "repr k2 (a_del g_readytorun p a)"
      using on_list_rem_ok [OF r(1) disj p(1)] by auto
    obtain k3 where 3: "set_state p TSTATE_TASK_INVALID k2 = Some k3" "repr k3 (a_remready p a)"
      using set_state_ok [OF 2(2), of p TSTATE_TASK_INVALID] tp False by (auto simp: a_remready_def)
    show ?thesis using 2(1) 3 t False xc by (simp add: sched_removereadytorun_def)
  qed
qed

lemma sched_addblocked_ok:
  assumes r: "repr k a" "listed a" and p: "tk a p \<noteq> None" "TLIST_HEAD (st a p) = None" and s: "TLIST_HEAD s = Some l"
  shows "\<exists>k'. sched_addblocked p s k = Some k' \<and> repr k' (a_addblocked p s a)"
proof -
  let ?b = "if TLIST_ISPRIORITIZED s then a_add l p a else a_set l (qs a l @ [p]) a"
  obtain k1 where 1: "(if TLIST_ISPRIORITIZED s then map_option snd (add_to l p k) else on_list l (dq_addlast p) k) = Some k1"
    "repr k1 ?b"
    using add_to_ok [OF r p, of l] on_list_addlast_ok [OF r p, of l] by (cases "TLIST_ISPRIORITIZED s") auto
  have "tk ?b p \<noteq> None" using p(1) by simp
  then obtain k2 where 2: "set_state p s k1 = Some k2" "repr k2 (a_state p s ?b)" using set_state_ok [OF 1(2)] by blast
  then show ?thesis using 1(1) s by (simp add: sched_addblocked_def a_addblocked_def)
qed

lemma sched_removeblocked_ok:
  assumes r: "repr k a" "listed a" and p: "tk a p \<noteq> None" "TLIST_HEAD (st a p) = Some l"
  shows "\<exists>k'. sched_removeblocked p k = Some k' \<and> repr k' (a_rmblocked p a)"
proof -
  obtain b where b: "tcbs k p = Some b" "tk a p = Some (strip b)" using repr_tcb [OF r(1)] p(1) by force
  have in_l: "p \<in> set (qs a l)" using r(2) p by (auto simp: listed_st)
  obtain k1 where 1: "on_list l (dq_rem p) k = Some k1" "repr k1 (a_del l p a)"
    using on_list_rem_ok [OF r(1) listed_disjoint [OF r(2)] in_l] by auto
  obtain k2 where "set_state p TSTATE_TASK_INVALID k1 = Some k2" "repr k2 (a_rmblocked p a)"
    using set_state_ok [OF 1(2), of p TSTATE_TASK_INVALID] p by (auto simp: a_rmblocked_def)
  then show ?thesis using 1 b p by (simp add: sched_removeblocked_def st_def)
qed

section \<open>Merging the pending tasks\<close>

text \<open>While the loop runs, the head of the pending list is stale: the kernel is looked at without that list.\<close>

definition no_pend :: "'c kernel \<Rightarrow> 'c kernel" where
  "no_pend k = k\<lparr>lists := (lists k)(g_pendingtasks := dq_init)\<rparr>"

lemma no_pend_sel [simp]: "tcbs (no_pend k) = tcbs k" "lists (no_pend k) = (lists k)(g_pendingtasks := dq_init)"
  "sems (no_pend k) = sems k" "in_irq (no_pend k) = in_irq k" "cpu (no_pend k) = cpu k"
  by (simp_all add: no_pend_def)

lemma upd_tcb_no_pend: "upd_tcb p f (no_pend k) = map_option no_pend (upd_tcb p f k)"
  by (cases "tcbs k p") (simp_all add: upd_tcb_def no_pend_def)

lemma set_state_no_pend:
  assumes "repr (no_pend k) c" "tk c p \<noteq> None"
  shows "\<exists>k'. set_state p s k = Some k' \<and> repr (no_pend k') (a_state p s c) \<and> (\<forall>x. x \<noteq> p \<longrightarrow> tcbs k' x = tcbs k x)"
proof -
  obtain k1 where 1: "set_state p s (no_pend k) = Some k1" "repr k1 (a_state p s c)" using set_state_ok [OF assms] by blast
  then obtain k' where "set_state p s k = Some k'" "k1 = no_pend k'" by (auto simp: set_state_def upd_tcb_no_pend)
  moreover from this have "\<forall>x. x \<noteq> p \<longrightarrow> tcbs k' x = tcbs k x" by (auto simp: set_state_def upd_tcb_def split: option.splits)
  ultimately show ?thesis using 1(2) by blast
qed

lemma a_upd_commute: "p \<noteq> q \<Longrightarrow> a_upd p f (a_upd q g a) = a_upd q g (a_upd p f a)"
  by (simp add: a_upd_def fun_upd_twist)

text \<open>The links of one insertion.\<close>

definition merge_links :: "nat \<Rightarrow> nat \<Rightarrow> queue_s \<Rightarrow> 'c tcbs \<Rightarrow> (bool \<times> queue_s \<times> 'c tcbs) option" where
  "merge_links p r q h = do {
     rt \<leftarrow> h r;
     (case blink rt of
        None \<Rightarrow> do { h \<leftarrow> set_flink p (Some r) h; h \<leftarrow> set_blink p None h; h \<leftarrow> set_blink r (Some p) h;
          Some (True, q\<lparr>qhead := Some p\<rparr>, h) }
      | Some b \<Rightarrow> do { h \<leftarrow> set_flink p (Some r) h; h \<leftarrow> set_blink p (Some b) h; h \<leftarrow> set_flink b (Some p) h;
          h \<leftarrow> set_blink r (Some p) h; Some (False, q, h) })
   }"

lemma merge_links_ok:
  assumes q: "dqueue h q (us @ r # vs)" "p \<notin> set (us @ r # vs)" "h p \<noteq> None"
  shows "\<exists>q' h'. merge_links p r q h = Some (us = [], q', h') \<and> dqueue h' q' (us @ p # r # vs) \<and>
     relinked (insert p (set (us @ r # vs))) h h'"
proof -
  obtain t where t: "h p = Some t" using q(3) by blast
  obtain e where e: "h r = Some e" "blink e = (if us = [] then None else Some (last us))" "distinct (us @ r # vs)"
    "dseg h None (qhead q) us (blink e) (Some r)" "dseg h (Some r) (flink e) vs (qtail q) None"
    by (rule dqueue_split [OF q(1)])
  show ?thesis
  proof (cases us rule: rev_cases)
    case Nil
    then show ?thesis using e q(2) t by (simp add: merge_links_def queue_eval)
  next
    case (snoc zs b)
    then obtain g where "h b = Some g" "flink g = Some r" "dseg h None (qhead q) zs (blink g) (Some b)"
      using e(4) by (auto simp: dseg_mid)
    then show ?thesis using e snoc q(2) t by (simp add: merge_links_def queue_eval)
  qed
qed

lemma merge_one_links:
  "merge_one p r k = do {
     (hd, q, h) \<leftarrow> merge_links p r (lists k g_readytorun) (tcbs k);
     if hd then do {
       k \<leftarrow> set_state r TSTATE_TASK_READYTORUN (k\<lparr>lists := (lists k)(g_readytorun := q), tcbs := h\<rparr>);
       k \<leftarrow> set_state p TSTATE_TASK_RUNNING k;
       Some (True, k)
     }
     else do {
       k \<leftarrow> set_state p TSTATE_TASK_READYTORUN (k\<lparr>lists := (lists k)(g_readytorun := q), tcbs := h\<rparr>);
       Some (False, k)
     }
   }"
  by (cases "tcbs k r") (auto simp: merge_one_def merge_links_def Let_def split: option.splits bind_splits)


lemma merge_one_ok:
  assumes r: "repr (no_pend k) c" "\<And>l. l \<noteq> g_readytorun \<Longrightarrow> set (qs c l) \<inter> set (ready c) = {}"
    and p: "\<And>l. p \<notin> set (qs c l)" "tk c p \<noteq> None" and s: "ready c = us @ r # vs" "tk c r \<noteq> None"
    and i: "ins (pr c) p (ready c) = us @ p # r # vs" "us = [] \<longleftrightarrow> pr c (cur c) < pr c p"
  shows "\<exists>k'. merge_one p r k = Some (us = [], k') \<and> repr (no_pend k') (a_place p c) \<and>
     (\<forall>x. x \<notin> insert p (set (ready c)) \<longrightarrow> tcbs k' x = tcbs k x)"
proof -
  have "dqueue (tcbs k) (lists k g_readytorun) (us @ r # vs)" "tcbs k p \<noteq> None"
    using r(1) p(2) repr_tcb_None [OF r(1), of p] by (auto simp: repr_def simp flip: s(1) dest: spec [of _ g_readytorun])
  from merge_links_ok [OF this(1) _ this(2)] obtain q h where
    m: "merge_links p r (lists k g_readytorun) (tcbs k) = Some (us = [], q, h)" "dqueue h q (us @ p # r # vs)"
      "relinked (insert p (set (ready c))) (tcbs k) h" using p(1) [of g_readytorun] s(1) by auto
  define k1 where "k1 = k\<lparr>lists := (lists k)(g_readytorun := q), tcbs := h\<rparr>"
  have "set (qs c l) \<inter> insert p (set (ready c)) = {}" if "l \<noteq> g_readytorun" for l using r(2) [OF that] p(1) [of l] by auto
  moreover have "relinked (insert p (set (ready c))) (tcbs (no_pend k)) h" using m(3) by simp
  ultimately have "repr ((no_pend k)\<lparr>lists := (lists (no_pend k))(g_readytorun := q), tcbs := h\<rparr>) (a_set g_readytorun (us @ p # r # vs) c)"
    using repr_on_list [OF r(1) m(2), of _ g_readytorun] by blast
  moreover have "no_pend k1 = (no_pend k)\<lparr>lists := (lists (no_pend k))(g_readytorun := q), tcbs := h\<rparr>"
    by (cases k) (simp add: k1_def no_pend_def fun_upd_twist)
  ultimately have 1: "repr (no_pend k1) (a_add g_readytorun p c)" using i(1) by simp
  have f1: "\<forall>x. x \<notin> insert p (set (ready c)) \<longrightarrow> tcbs k1 x = tcbs k x" using m(3) by (simp add: k1_def relinked_def)
  show ?thesis
  proof (cases "us = []")
    case True
    obtain k2 where 2: "set_state r TSTATE_TASK_READYTORUN k1 = Some k2" "\<forall>x. x \<noteq> r \<longrightarrow> tcbs k2 x = tcbs k1 x"
      "repr (no_pend k2) (a_state r TSTATE_TASK_READYTORUN (a_add g_readytorun p c))"
      using set_state_no_pend [OF 1, of r TSTATE_TASK_READYTORUN] s(2) by auto
    have "p \<noteq> r" "cur c = r" using p(1) [of g_readytorun] s(1) True by auto
    moreover obtain k3 where 3: "set_state p TSTATE_TASK_RUNNING k2 = Some k3" "\<forall>x. x \<noteq> p \<longrightarrow> tcbs k3 x = tcbs k2 x"
      "repr (no_pend k3) (a_state p TSTATE_TASK_RUNNING (a_state r TSTATE_TASK_READYTORUN (a_add g_readytorun p c)))"
      using set_state_no_pend [OF 2(3), of p TSTATE_TASK_RUNNING] p(2) calculation by auto
    ultimately have "repr (no_pend k3) (a_place p c)" using True i(2) by (simp add: a_place_def a_upd_commute)
    then show ?thesis using m(1) 2(1,2) 3(1,2) f1 s(1) True by (auto simp: merge_one_links k1_def)
  next
    case False
    obtain k2 where 2: "set_state p TSTATE_TASK_READYTORUN k1 = Some k2" "\<forall>x. x \<noteq> p \<longrightarrow> tcbs k2 x = tcbs k1 x"
      "repr (no_pend k2) (a_place p c)"
      using set_state_no_pend [OF 1, of p TSTATE_TASK_READYTORUN] p(2) False i(2) by (auto simp: a_place_def)
    then show ?thesis using m(1) f1 False by (auto simp: merge_one_links k1_def)
  qed
qed

lemma hd_fold_ins: "prio_sorted f ps \<Longrightarrow> xs \<noteq> [] \<Longrightarrow>
   hd (fold (ins f) ps xs) = (if ps \<noteq> [] \<and> f (hd xs) < f (hd ps) then hd ps else hd xs)"
proof (induction ps arbitrary: xs)
  case (Cons p ps)
  have "ps \<noteq> [] \<Longrightarrow> \<not> f p < f (hd ps)" "ps \<noteq> [] \<Longrightarrow> f z < f (hd ps) \<Longrightarrow> f z < f p" for z
    using Cons.prems(1) by (cases ps; auto simp: not_less)+
  then show ?case using Cons by (auto simp: hd_ins)
qed simp

lemma cur_merge:
  assumes "lists_ok i a"
  shows "cur (a_merge a) = (if pend a \<noteq> [] \<and> pr a (cur a) < pr a (hd (pend a)) then hd (pend a) else cur a)"
proof -
  have "prio_sorted (pr a) (pend a)" "ready a \<noteq> []" using assms by (simp_all add: ok_defs unordered_def)
  then show ?thesis using lists_ok_merge [OF assms] hd_fold_ins [of "pr a" "pend a" "ready a"] by simp
qed

lemma a_merge_Nil: "pend a = [] \<Longrightarrow> a_merge a = a" "pend a = [] \<Longrightarrow> a_set g_pendingtasks [] a = a"
  by (cases a; auto simp: a_merge_def a_set_def)+

lemma ins_split:
  assumes "ready a = us @ r # vs" "\<forall>u\<in>set us. pr a p \<le> pr a u" "lists_ok i a" "pr a p \<noteq> 0"
  obtains us' r' vs' where "ready a = us' @ r' # vs'" "ins (pr a) p (ready a) = us' @ p # r' # vs'"
    "dropWhile (\<lambda>y. pr a p \<le> pr a y) (r # vs) = r' # vs'" "us' = [] \<longleftrightarrow> pr a (cur a) < pr a p" "\<forall>u\<in>set us'. pr a p \<le> pr a u"
proof -
  let ?P = "\<lambda>y. pr a p \<le> pr a y"
  have d: "dropWhile ?P (ready a) = dropWhile ?P (r # vs)" unfolding assms(1) by (rule dropWhile_append2) (use assms(2) in simp)
  have "\<not> ?P i" "i \<in> set (ready a)" using lists_ok_idle [OF assms(3)] assms(4) by auto
  then have "dropWhile ?P (ready a) \<noteq> []" by auto
  then obtain r' vs' where r: "dropWhile ?P (ready a) = r' # vs'" by (cases "dropWhile ?P (ready a)") auto
  define us' where "us' = takeWhile ?P (ready a)"
  have s: "ready a = us' @ r' # vs'" using r unfolding us'_def by (metis takeWhile_dropWhile_id)
  have "us' = [] \<longleftrightarrow> pr a (cur a) < pr a p" unfolding us'_def by (cases "ready a") (use s in auto)
  then show thesis using that [OF s _ _ _] r d by (auto simp: ins_def us'_def dest: set_takeWhileD)
qed

lemma listed_tk: "listed a \<Longrightarrow> p \<in> set (qs a l) \<Longrightarrow> tk a p \<noteq> None"
  unfolding listed_def by blast

lemma place_from:
  assumes "repr k c" "ready c = us @ r # vs" "\<And>x. x \<in> set (ready c) \<Longrightarrow> tk c x \<noteq> None"
    "dropWhile (\<lambda>y. n \<le> pr c y) (r # vs) = r' # vs'"
  shows "find_place (tcbs k) n (Some r) = Some (Some r')"
proof -
  have "dseg (tcbs k) None (qhead (lists k g_readytorun)) (us @ r # vs) (qtail (lists k g_readytorun)) None"
    using assms(1,2) unfolding repr_def dqueue_def by metis
  then obtain b where "dseg (tcbs k) b (Some r) (r # vs) (qtail (lists k g_readytorun)) None" by (auto simp: dseg_mid)
  moreover have "\<And>x. x \<in> set (r # vs) \<Longrightarrow> pr c x = sched_priority (the (tcbs k x))"
    using repr_pr [OF assms(1) assms(3)] assms(2) by auto
  ultimately show ?thesis
    using find_place_dseg [of "tcbs k" b "Some r" "r # vs" _ "pr c" n] unfolding assms(4) list.case by blast
qed

lemma merge_loop_ok:
  assumes "lists_ok i a" "repr (no_pend k) (a_set g_pendingtasks [] a)" "dseg (tcbs k) b hp (pend a) lst None"
    "ready a = us @ r # vs" "\<forall>u\<in>set us. \<forall>p\<in>set (pend a). pr a p \<le> pr a u"
  shows "\<exists>k'. merge_loop hp (Some r) ret k = Some (ret \<or> cur (a_merge a) \<noteq> cur a, k') \<and> repr (no_pend k') (a_merge a)"
  using assms
proof (induction "pend a" arbitrary: a k b hp us r vs ret)
  case Nil
  then show ?case using a_merge_Nil [of a] by (subst merge_loop.simps) auto
next
  case (Cons p ps)
  let ?c = "a_set g_pendingtasks [] a" and ?a = "a_place p (a_rmblocked p a)"
  note ps = Cons.hyps(2) [symmetric] and ok = Cons.prems(1)
  note step = a_merge_step [OF ok ps]
  have L: "listed a" using ok by (simp add: lists_ok_def)
  obtain t where t: "hp = Some p" "tcbs k p = Some t" "dseg (tcbs k) (Some p) (flink t) ps lst None"
    using Cons.prems(3) ps by auto
  have tp: "tk a p \<noteq> None" "p \<notin> set ps" "\<And>l. l \<noteq> g_pendingtasks \<Longrightarrow> p \<notin> set (qs a l)"
    using L ps listed_disjoint [OF L, of _ g_pendingtasks] listed_distinct [OF L, of g_pendingtasks] listed_tk [OF L, of p g_pendingtasks] by auto
  have "p \<noteq> i" using tp(3) [of g_readytorun] lists_ok_idle(1) [OF ok] by auto
  then have p0: "pr a p \<noteq> 0" using ok tp(1) by (simp add: lists_ok_def idle_pr)
  obtain us' r' vs' where s: "ready a = us' @ r' # vs'" "ins (pr a) p (ready a) = us' @ p # r' # vs'"
    "dropWhile (\<lambda>y. pr a p \<le> pr a y) (r # vs) = r' # vs'" "us' = [] \<longleftrightarrow> pr a (cur a) < pr a p" "\<forall>u\<in>set us'. pr a p \<le> pr a u"
    by (rule ins_split [OF Cons.prems(4) _ ok p0]) (use Cons.prems(5) ps in auto)
  have pt: "sched_priority t = pr a p" using repr_pr [OF Cons.prems(2), of p] tp(1) t(2) by auto
  have place: "find_place (tcbs k) (pr a p) (Some r) = Some (Some r')"
    using place_from [OF Cons.prems(2), of us r vs "pr a p" r' vs'] Cons.prems(4) s(3) listed_tk [OF L, of _ g_readytorun] by simp
  have disj: "set (qs ?c l) \<inter> set (ready ?c) = {}" if "l \<noteq> g_readytorun" for l using listed_disjoint [OF L that] by simp
  have np: "p \<notin> set (qs ?c l)" for l using tp(3) by simp
  have "tk a r' \<noteq> None" using listed_tk [OF L, of r' g_readytorun] s(1) by simp
  then obtain k' where m: "merge_one p r' k = Some (us' = [], k')" "repr (no_pend k') (a_place p ?c)"
     "\<forall>x. x \<notin> insert p (set (ready a)) \<longrightarrow> tcbs k' x = tcbs k x"
    using merge_one_ok [OF Cons.prems(2) disj np, of us' r' vs'] tp(1) s(1,2,4) by auto
  have e: "a_place p ?c = a_set g_pendingtasks [] ?a" by (simp add: step(7) a_place_set)
  have "dseg (tcbs k') (Some p) (flink t) ps lst None \<longleftrightarrow> dseg (tcbs k) (Some p) (flink t) ps lst None"
    using tp(2) ps listed_disjoint [OF L, of g_pendingtasks g_readytorun] m(3) by (intro dseg_frame) auto
  moreover have "prio_sorted (pr a) (p # ps)" using ok ps by (auto simp: lists_ok_def ordered_def unordered_def)
  then have "\<forall>u\<in>set us'. \<forall>q\<in>set ps. pr a q \<le> pr a u" using s(5) by (meson order_trans sorted_wrt.simps(2))
  ultimately obtain k2 where l: "merge_loop (flink t) (Some p) (ret \<or> us' = []) k' = Some ((ret \<or> us' = []) \<or> cur (a_merge ?a) \<noteq> cur ?a, k2)"
      "repr (no_pend k2) (a_merge ?a)"
    using Cons.hyps(1) [of ?a k' "Some p" "flink t" us' p "r' # vs'" "ret \<or> us' = []"] step t(3) m(2) s(2) unfolding e by auto
  have "(us' = [] \<or> cur (a_merge ?a) \<noteq> cur ?a) \<longleftrightarrow> cur (a_merge a) \<noteq> cur a"
  proof (cases "us' = []")
    case True
    then show ?thesis using cur_merge [OF ok] ps s(4) tp(3) [of g_readytorun] s(1) by auto
  next
    case False
    then have "cur ?a = cur a" using step(5) s(1,2) by simp
    then show ?thesis using False step(1) by simp
  qed
  then show ?case using t place m(1) l pt step(1) by (subst merge_loop.simps) auto
qed


lemma sched_mergepending_ok:
  assumes r: "repr k a" and ok: "lists_ok i a"
  shows "\<exists>k'. sched_mergepending k = Some (cur (a_merge a) \<noteq> cur a, k') \<and> repr k' (a_merge a)"
proof -
  have ne: "ready a = [] @ cur a # tl (ready a)" using ok by (simp add: ok_defs)
  have "repr (no_pend k) (a_set g_pendingtasks [] a)" using r by (simp add: repr_def)
  moreover have "dseg (tcbs k) None (qhead (lists k g_pendingtasks)) (pend a) (qtail (lists k g_pendingtasks)) None"
    using r by (simp add: repr_def dqueue_def)
  ultimately obtain k' where "merge_loop (qhead (lists k g_pendingtasks)) (Some (cur a)) False k = Some (cur (a_merge a) \<noteq> cur a, k')"
    "repr (no_pend k') (a_merge a)" using merge_loop_ok [OF ok _ _ ne, of k None _ _ False] by (metis empty_iff empty_set)
  moreover have "this_task k = Some (cur a)" using repr_this_task [OF r] ok by (simp add: ok_defs)
  ultimately show ?thesis by (auto simp: sched_mergepending_def no_pend_def)
qed

lemma switch_from_ok:
  assumes r: "repr k a" and ok: "lists_ok i a" and p: "tk a p \<noteq> None"
  shows "\<exists>k'. switch_from p k = Some k' \<and> repr k' (a_switch p a)"
proof -
  have ne: "ready a \<noteq> []" "tk a (cur a) \<noteq> None" using ok listed_tk [of a "cur a" g_readytorun] by (simp_all add: ok_defs)
  obtain k1 where 1: "sched_resume_scheduler (cur a) k = Some k1" "repr k1 (a_upd (cur a) (\<lambda>t. t\<lparr>timeslice := RR_TICKS\<rparr>) a)"
    unfolding sched_resume_scheduler_def using upd_tcb_ok [OF r ne(2), of "\<lambda>t. t\<lparr>timeslice := RR_TICKS\<rparr>"] by auto
  have c1: "cpu k1 = ctx a" using 1(2) by (simp add: repr_def)
  define b where "b = a_upd p (\<lambda>t. t\<lparr>xcp := ctx a\<rparr>) (a_upd (cur a) (\<lambda>t. t\<lparr>timeslice := RR_TICKS\<rparr>) a)"
  have "tk (a_upd (cur a) (\<lambda>t. t\<lparr>timeslice := RR_TICKS\<rparr>) a) p \<noteq> None" using p by auto
  from upd_tcb_ok [OF 1(2) this, of "\<lambda>t. t\<lparr>xcp := cpu k1\<rparr>"]
  obtain k2 where 2: "upd_tcb p (\<lambda>t. t\<lparr>xcp := cpu k1\<rparr>) k1 = Some k2" "repr k2 b" unfolding b_def c1 by auto
  have "tk b (cur a) \<noteq> None" using ne(2) p by (auto simp: b_def)
  then obtain t where t: "tcbs k2 (cur a) = Some t" "tk b (cur a) = Some (strip t)" using repr_tcb [OF 2(2)] by force
  have "repr (k2\<lparr>cpu := xcp t\<rparr>) (b\<lparr>ctx := xcp (the (tk b (cur a)))\<rparr>)" using 2(2) t by (simp add: repr_def)
  then show ?thesis using 1(1) 2(1) t(1) repr_this_task [OF r ne(1)]
    by (simp add: switch_from_def a_switch_def Let_def b_def)
qed

end
