(* ===== verification/Sched_Ops.thy ===== *)
theory Sched_Ops
  imports Sched_Refine
begin

text \<open>
  Blocking and unblocking a task, releasing the pending tasks and changing a priority, on lists and in the
  kernel: the operations that may switch to another task.
\<close>

section \<open>What the operations on lists leave alone\<close>

definition kept :: "('c tcb_s \<Rightarrow> 'x) \<Rightarrow> 'c sys \<Rightarrow> 'c sys \<Rightarrow> bool" where
  "kept g a b \<longleftrightarrow> (\<forall>p. map_option g (tk b p) = map_option g (tk a p)) \<and> sm b = sm a \<and> irq b = irq a"

lemma kept_refl [simp]: "kept g a a"
  by (simp add: kept_def)

lemma kept_trans: "kept g a b \<Longrightarrow> kept g b c \<Longrightarrow> kept g a c"
  by (simp add: kept_def)

lemma kept_set [simp]: "kept g a (a_set l xs b) = kept g a b"
  by (simp add: kept_def)

lemma kept_upd: "(\<And>t. g (f t) = g t) \<Longrightarrow> kept g a b \<Longrightarrow> kept g a (a_upd p f b)"
  by (auto simp: kept_def option.map_comp comp_def)

lemma kept_ctx [simp]: "kept g a (b\<lparr>ctx := c\<rparr>) = kept g a b"
  by (simp add: kept_def)

lemma keptD: "kept g a b \<Longrightarrow> tk a p \<noteq> None \<Longrightarrow> g (the (tk b p)) = g (the (tk a p))"
  "kept g a b \<Longrightarrow> tk b p = None \<longleftrightarrow> tk a p = None"
  unfolding kept_def by (metis not_None_eq option.map_sel option.map_disc_iff)+

lemma kept_lists:
  assumes "\<And>t s. g (t\<lparr>task_state := s\<rparr>) = g t"
  shows "kept g a (a_place p a)" "kept g a (a_addready p a)" "kept g a (a_remready p a)" "kept g a (a_addblocked p s a)"
    "kept g a (a_rmblocked p a)" "kept g a (a_merge a)"
proof -
  show place: "kept g a (a_place p a)" for a p by (simp add: a_place_def kept_upd assms)
  show "kept g a (a_addready p a)" "kept g a (a_remready p a)" "kept g a (a_addblocked p s a)" "kept g a (a_rmblocked p a)"
    by (simp_all add: a_addready_def a_remready_def a_addblocked_def a_rmblocked_def kept_upd assms place Let_def)
  have "kept g a (fold a_place ps a)" for ps a by (induction ps arbitrary: a) (auto intro: kept_trans [OF place])
  then show "kept g a (a_merge a)" by (simp add: a_merge_def)
qed

lemma tk_None_lists [simp]: "tk (a_place p a) x = None \<longleftrightarrow> tk a x = None" "tk (a_addready p a) x = None \<longleftrightarrow> tk a x = None"
  "tk (a_remready p a) x = None \<longleftrightarrow> tk a x = None" "tk (a_addblocked p s a) x = None \<longleftrightarrow> tk a x = None"
  "tk (a_rmblocked p a) x = None \<longleftrightarrow> tk a x = None" "tk (a_merge a) x = None \<longleftrightarrow> tk a x = None"
  using kept_lists [of "\<lambda>_. ()"] keptD(2) by (metis (no_types, lifting))+

lemma kept_switch:
  assumes "\<And>t c. g (t\<lparr>xcp := c\<rparr>) = g t" "\<And>t n. g (t\<lparr>timeslice := n\<rparr>) = g t"
  shows "kept g a (a_switch r a)"
  by (simp add: a_switch_def Let_def kept_upd assms)

section \<open>Blocking, unblocking and changing priorities\<close>

definition a_block :: "tstate \<Rightarrow> 'c sys \<Rightarrow> 'c sys" where
  "a_block s a = (let r = cur a in a_switch r (a_merge (a_addblocked r s (a_remready r a))))"

definition switch_if_moved :: "nat \<Rightarrow> 'c sys \<Rightarrow> 'c sys" where
  "switch_if_moved r a = (if cur a \<noteq> r then a_switch r a else a)"

definition a_unblock :: "nat \<Rightarrow> 'c sys \<Rightarrow> 'c sys" where
  "a_unblock p a = switch_if_moved (cur a) (a_addready p (a_rmblocked p a))"

definition a_release :: "'c sys \<Rightarrow> 'c sys" where
  "a_release a = switch_if_moved (cur a) (a_merge a)"

definition a_move :: "nat \<Rightarrow> u8 \<Rightarrow> 'c sys \<Rightarrow> 'c sys" where
  "a_move p n a = a_addready p (a_upd p (\<lambda>t. t\<lparr>sched_priority := n\<rparr>) (a_remready p a))"

definition a_reprio :: "nat \<Rightarrow> u8 \<Rightarrow> 'c sys \<Rightarrow> 'c sys" where
  "a_reprio p n a =
     (let b = a_move p n a in if (p = cur a) \<noteq> (p = cur b) then a_switch (cur a) (a_merge b) else b)"

lemma cur_switch [simp]: "qs (a_switch r a) = qs a" "pr (a_switch r a) = pr a" "sm (a_switch r a) = sm a" "irq (a_switch r a) = irq a"
  by (simp_all add: a_switch_def Let_def pr_upd_same fun_eq_iff)

lemma lists_ok_curD:
  assumes "lists_ok i a"
  shows "ready a \<noteq> []" "tk a (cur a) \<noteq> None" "st a (cur a) = TSTATE_TASK_RUNNING" "listed a" "cur a \<in> set (ready a)"
proof -
  show r: "ready a \<noteq> []" "listed a" using assms by (simp_all add: ok_defs)
  then show c: "cur a \<in> set (ready a)" by simp
  show t: "tk a (cur a) \<noteq> None" by (rule listed_tk [OF r(2) c])
  show "st a (cur a) = TSTATE_TASK_RUNNING" using assms t by (simp add: lists_ok_def running_st)
qed

lemma up_unblock_task_ok:
  assumes r: "repr k a" "lists_ok i a" and p: "tk a p \<noteq> None" "TLIST_HEAD (st a p) = Some l" "l \<noteq> g_readytorun"
  shows "\<exists>k'. up_unblock_task p k = Some k' \<and> repr k' (a_unblock p a) \<and> lists_ok i (a_unblock p a)"
proof -
  note L = lists_ok_curD [OF r(2)]
  have c: "this_task k = Some (cur a)" by (rule repr_this_task [OF r(1) L(1)])
  let ?b = "a_rmblocked p a"
  note rm = lists_ok_rmblocked [OF r(2) p]
  have b: "tk ?b p \<noteq> None" "TLIST_HEAD (st ?b p) = None" "cur ?b = cur a" "ready ?b = ready a"
    using p rm by (auto simp: a_rmblocked_def)
  have np: "p \<noteq> cur a" using L(3) p(2,3) by auto
  obtain k1 where 1: "sched_removeblocked p k = Some k1" "repr k1 ?b" using sched_removeblocked_ok [OF r(1) L(4) p(1,2)] by blast
  obtain k2 where 2: "sched_addreadytorun p k1 = Some (cur (a_addready p ?b) = p, k2)" "repr k2 (a_addready p ?b)"
    using sched_addreadytorun_ok [OF 1(2) rm(1) b(1,2)] by blast
  note ar = lists_ok_addready [OF rm(1) b(1,2)]
  have "cur (a_addready p ?b) = p \<longleftrightarrow> cur (a_addready p ?b) \<noteq> cur a" using ar(3) np b(3) by simp
  moreover have "tk (a_addready p ?b) (cur a) \<noteq> None" using L(2) by simp
  then obtain k3 where "switch_from (cur a) k2 = Some k3" "repr k3 (a_switch (cur a) (a_addready p ?b))"
    using switch_from_ok [OF 2(2) ar(1)] by blast
  ultimately show ?thesis using 1(1) 2 c ar(1) by (simp add: up_unblock_task_def a_unblock_def switch_if_moved_def)
qed


lemma up_release_pending_ok:
  assumes r: "repr k a" "lists_ok i a"
  shows "\<exists>k'. up_release_pending k = Some (cur (a_merge a) \<noteq> cur a, k') \<and> repr k' (a_release a) \<and> lists_ok i (a_release a)"
proof -
  note L = lists_ok_curD [OF r(2)]
  have ok: "lists_ok i (a_merge a)" using lists_ok_merge [OF r(2)] by blast
  obtain k1 where 1: "sched_mergepending k = Some (cur (a_merge a) \<noteq> cur a, k1)" "repr k1 (a_merge a)"
    using sched_mergepending_ok [OF r] by blast
  obtain k2 where "switch_from (cur a) k1 = Some k2" "repr k2 (a_switch (cur a) (a_merge a))"
    using switch_from_ok [OF 1(2) ok, of "cur a"] L(2) by auto
  then show ?thesis using 1 ok repr_this_task [OF r(1) L(1)] by (simp add: up_release_pending_def a_release_def switch_if_moved_def)
qed

lemma up_block_task_ok:
  assumes r: "repr k a" "lists_ok i a" and s: "TLIST_HEAD s = Some l" "l \<noteq> g_readytorun" and c: "cur a \<noteq> i"
  shows "\<exists>k'. up_block_task (cur a) s k = Some k' \<and> repr k' (a_block s a) \<and> lists_ok i (a_block s a)"
proof -
  note L = lists_ok_curD [OF r(2)]
  let ?b = "a_remready (cur a) a"
  let ?c = "a_addblocked (cur a) s ?b"
  note rm = lists_ok_remready [OF r(2) L(5) c]
  have b: "tk ?b (cur a) \<noteq> None" "TLIST_HEAD (st ?b (cur a)) = None" using L(2) rm(3) by simp_all
  have okb: "listed ?b" using rm(1) by (simp add: lists_ok_def)
  have okc: "lists_ok i ?c" by (rule lists_ok_addblocked(1) [OF rm(1) b s])
  then have okd: "lists_ok i (a_merge ?c)" using lists_ok_merge by blast
  obtain k1 where 1: "sched_removereadytorun (cur a) k = Some (True, k1)" "repr k1 ?b"
    using sched_removereadytorun_ok [OF r L(5) c] by auto
  obtain k2 where 2: "sched_addblocked (cur a) s k1 = Some k2" "repr k2 ?c" using sched_addblocked_ok [OF 1(2) okb b s(1)] by blast
  obtain sw k3 where 3: "(if qhead (lists k2 g_pendingtasks) \<noteq> None then sched_mergepending k2 else Some (False, k2)) = Some (sw, k3)"
    "repr k3 (a_merge ?c)"
    using sched_mergepending_ok [OF 2(2) okc] 2(2) repr_head [OF 2(2), of g_pendingtasks] a_merge_Nil [of ?c]
    by (cases "pend ?c = []") auto
  obtain k4 where "switch_from (cur a) k3 = Some k4" "repr k4 (a_block s a)"
    using switch_from_ok [OF 3(2) okd, of "cur a"] L(2) by (auto simp: a_block_def Let_def)
  then show ?thesis using 1(1) 2(1) 3(1) okd repr_this_task [OF r(1) L(1)] by (simp add: up_block_task_def a_block_def Let_def)
qed

lemma lists_ok_move:
  assumes r: "lists_ok i a" and p: "p \<in> set (ready a)" "p \<noteq> i" "n \<noteq> 0"
  shows "lists_ok i (a_move p n a)" "tk (a_move p n a) x = None \<longleftrightarrow> tk a x = None"
    "lists_ok i (a_upd p (\<lambda>t. t\<lparr>sched_priority := n\<rparr>) (a_remready p a))"
    "TLIST_HEAD (st (a_upd p (\<lambda>t. t\<lparr>sched_priority := n\<rparr>) (a_remready p a)) p) = None"
proof -
  note L = lists_ok_curD [OF r]
  note rm = lists_ok_remready [OF r p(1,2)]
  have tp: "tk (a_remready p a) p \<noteq> None" using listed_tk [OF L(4) p(1)] by simp
  have b: "TLIST_HEAD (st (a_remready p a) p) = None" using rm(3) by simp
  show ok: "lists_ok i (a_upd p (\<lambda>t. t\<lparr>sched_priority := n\<rparr>) (a_remready p a))" by (rule lists_ok_reprio [OF rm(1) tp b p(3)])
  show s: "TLIST_HEAD (st (a_upd p (\<lambda>t. t\<lparr>sched_priority := n\<rparr>) (a_remready p a)) p) = None"
    using b tp by (auto simp: st_def)
  show "lists_ok i (a_move p n a)" unfolding a_move_def by (rule lists_ok_addready(1) [OF ok _ s]) (use tp in auto)
  show "tk (a_move p n a) x = None \<longleftrightarrow> tk a x = None" by (simp add: a_move_def)
qed

lemma up_reprioritize_rtr_ok:
  assumes r: "repr k a" "lists_ok i a" and p: "p \<in> set (ready a)" "p \<noteq> i" "n \<noteq> 0"
  shows "\<exists>k'. up_reprioritize_rtr p n k = Some k' \<and> repr k' (a_reprio p n a) \<and> lists_ok i (a_reprio p n a)"
proof -
  note L = lists_ok_curD [OF r(2)]
  let ?b = "a_upd p (\<lambda>t. t\<lparr>sched_priority := n\<rparr>) (a_remready p a)" and ?c = "a_move p n a"
  note mv = lists_ok_move [OF r(2) p]
  obtain s where s: "tk a p = Some s" "TLIST_HEAD (task_state s) = Some g_readytorun" by (rule listedD [OF L(4) p(1)])
  then obtain t where t: "tcbs k p = Some t" "s = strip t" using repr_tcb [OF r(1)] by blast
  have "unat n \<noteq> 0" using p(3) by (metis unat_eq_zero)
  then have g: "task_state t \<in> {TSTATE_TASK_READYTORUN, TSTATE_TASK_RUNNING}" "\<not> unat n < 1"
    using s(2) t(2) TLIST_ready [of "task_state t"] by auto
  obtain k1 where 1: "sched_removereadytorun p k = Some (p = cur a, k1)" "repr k1 (a_remready p a)"
    using sched_removereadytorun_ok [OF r p(1,2)] by blast
  obtain k2 where 2: "upd_tcb p (\<lambda>t. t\<lparr>sched_priority := n\<rparr>) k1 = Some k2" "repr k2 ?b"
    using upd_tcb_ok [OF 1(2), of p "\<lambda>t. t\<lparr>sched_priority := n\<rparr>"] s(1) by auto
  obtain k3 where 3: "sched_addreadytorun p k2 = Some (cur ?c = p, k3)" "repr k3 ?c"
    using sched_addreadytorun_ok [OF 2(2) mv(3) _ mv(4)] s(1) by (auto simp: a_move_def)
  have okd: "lists_ok i (a_merge ?c)" using mv(1) lists_ok_merge by blast
  obtain k4 where 4: "(if qhead (lists k3 g_pendingtasks) \<noteq> None then map_option snd (sched_mergepending k3) else Some k3) = Some k4"
    "repr k4 (a_merge ?c)"
    using sched_mergepending_ok [OF 3(2) mv(1)] 3(2) repr_head [OF 3(2), of g_pendingtasks] a_merge_Nil [of ?c]
    by (cases "pend ?c = []") auto
  obtain k5 where 5: "switch_from (cur a) k4 = Some k5" "repr k5 (a_switch (cur a) (a_merge ?c))"
    using switch_from_ok [OF 4(2) okd, of "cur a"] L(2) mv(2) by auto
  show ?thesis using 1(1) 2(1) 3 4(1) 5 okd mv(1) g t(1) repr_this_task [OF r(1) L(1)]
    by (auto simp: up_reprioritize_rtr_def a_reprio_def Let_def)
qed

end
