(* ===== verification/Sched_Inv.thy ===== *)
theory Sched_Inv
  imports Sched_Ops
begin

text \<open>
  The invariant of the kernel: lists in the order of priorities, one running task, tasks held back only under
  a lock, and as many tasks waiting for a semaphore as its count says.
\<close>

section \<open>The invariant of the kernel\<close>

definition waits :: "'c sys \<Rightarrow> nat \<Rightarrow> nat option" where
  "waits a p = waitsem (the (tk a p))"

definition waiters :: "'c sys \<Rightarrow> nat \<Rightarrow> nat list" where
  "waiters a s = filter (\<lambda>p. waits a p = Some s) (qs a g_waitingforsemaphore)"

text \<open>A semaphore with a negative count has that many tasks waiting for it, one with a count has none; only tasks
  in the list of waiting tasks wait for a semaphore.\<close>

definition sem_ok :: "'c sys \<Rightarrow> bool" where
  "sem_ok a \<longleftrightarrow> (\<forall>p. tk a p \<noteq> None \<longrightarrow> (p \<in> set (qs a g_waitingforsemaphore) \<longleftrightarrow> waits a p \<noteq> None)) \<and>
     (\<forall>p \<in> set (qs a g_waitingforsemaphore). sm a (the (waits a p)) \<noteq> None) \<and>
     (\<forall>s n. sm a s = Some n \<longrightarrow> - (2 ^ 15) \<le> n \<and> n < 2 ^ 15 \<and> int (length (waiters a s)) = max 0 (- n))"

text \<open>Tasks are held back only while the running task has locked the scheduler.\<close>

definition pend_ok :: "'c sys \<Rightarrow> bool" where
  "pend_ok a \<longleftrightarrow> (pend a \<noteq> [] \<longrightarrow> locked a)"

definition sys_ok :: "nat \<Rightarrow> 'c sys \<Rightarrow> bool" where
  "sys_ok i a \<longleftrightarrow> lists_ok i a \<and> pend_ok a \<and> sem_ok a"

definition kernel_ok :: "nat \<Rightarrow> 'c kernel \<Rightarrow> bool" where
  "kernel_ok i k \<longleftrightarrow> (\<exists>a. repr k a \<and> sys_ok i a)"

lemma kept_waits: "kept waitsem a b \<Longrightarrow> tk a p \<noteq> None \<Longrightarrow> waits b p = waits a p"
  by (simp add: waits_def keptD)

text \<open>What an operation must keep for the semaphores to be in order.\<close>

lemma sem_ok_cong:
  assumes "sem_ok a" "listed a" "kept waitsem a b" "qs b g_waitingforsemaphore = qs a g_waitingforsemaphore"
  shows "sem_ok b"
proof -
  have w: "waits b p = waits a p" if "p \<in> set (qs a g_waitingforsemaphore)" for p
    using kept_waits [OF assms(3) listed_tk [OF assms(2) that]] .
  then have "waiters b s = waiters a s" for s by (simp add: waiters_def assms(4) cong: filter_cong)
  moreover have "tk b p \<noteq> None \<longleftrightarrow> tk a p \<noteq> None" "sm b = sm a" for p using keptD(2) [OF assms(3)] assms(3) by (auto simp: kept_def)
  ultimately show ?thesis using assms(1,4) w kept_waits [OF assms(3)] unfolding sem_ok_def by auto
qed

lemma kept_all:
  assumes "\<And>t s. g (t\<lparr>task_state := s\<rparr>) = g t" "\<And>t c. g (t\<lparr>xcp := c\<rparr>) = g t" "\<And>t n. g (t\<lparr>timeslice := n\<rparr>) = g t"
    "\<And>t n. g (t\<lparr>sched_priority := n\<rparr>) = g t"
  shows "kept g a (a_block s a)" "kept g a (a_unblock p a)" "kept g a (a_release a)" "kept g a (a_move p n a)" "kept g a (a_reprio p n a)"
proof -
  note l = kept_lists [of g, OF assms(1)] and sw = kept_switch [of g, OF assms(2,3)]
  show "kept g a (a_block s a)" by (auto simp: a_block_def Let_def intro!: kept_trans [OF _ sw] kept_trans [OF _ l(6)] kept_trans [OF l(3) l(4)])
  show "kept g a (a_unblock p a)"
    by (auto simp: a_unblock_def switch_if_moved_def intro!: kept_trans [OF _ sw] kept_trans [OF l(5) l(2)])
  show "kept g a (a_release a)" by (auto simp: a_release_def switch_if_moved_def intro!: kept_trans [OF _ sw] l(6))
  show m: "kept g a (a_move p n a)"
    by (auto simp: a_move_def assms(4) intro!: kept_trans [OF _ l(2)] kept_upd l(3))
  show "kept g a (a_reprio p n a)" by (auto simp: a_reprio_def Let_def intro!: kept_trans [OF _ sw] kept_trans [OF _ l(6)] m)
qed

section \<open>The pending tasks\<close>

lemma locked_kept: "kept lockcount a b \<Longrightarrow> cur b = cur a \<Longrightarrow> tk a (cur a) \<noteq> None \<Longrightarrow> locked b = locked a"
  by (simp add: locked_def keptD)

lemma pend_ok_switch [simp]: "pend_ok (a_switch r a) = pend_ok a" if "tk a (cur a) \<noteq> None"
  unfolding pend_ok_def using locked_kept [of a "a_switch r a"] kept_switch [of lockcount a r] that by simp

lemma pend_ok_addready:
  assumes ok: "lists_ok i a" "pend_ok a" and p: "tk a p \<noteq> None" "TLIST_HEAD (st a p) = None"
  shows "pend_ok (a_addready p a)"
proof (cases "locked a")
  case True
  then have "cur (a_addready p a) = cur a" using lists_ok_addready(3) [OF ok(1) p] by simp
  then have "locked (a_addready p a)" using locked_kept [OF kept_lists(2), of p a] lists_ok_curD(2) [OF ok(1)] True by simp
  then show ?thesis by (simp add: pend_ok_def)
next
  case False
  then show ?thesis using ok(2) lists_ok_place(4) [OF ok(1) p, of g_pendingtasks] by (simp add: pend_ok_def a_addready_def)
qed

lemma pend_ok_unblock:
  assumes ok: "lists_ok i a" "pend_ok a" and p: "tk a p \<noteq> None" "TLIST_HEAD (st a p) = Some l" "l \<noteq> g_readytorun"
  shows "pend_ok (a_unblock p a)"
proof -
  note rm = lists_ok_rmblocked [OF ok(1) p]
  let ?b = "a_rmblocked p a"
  have "locked ?b = locked a" using locked_kept [OF kept_lists(5), of p a] lists_ok_curD(2) [OF ok(1)] p(3) rm(4) by simp
  then have "pend_ok ?b" using ok(2) rm(4) by (auto simp: pend_ok_def)
  moreover have s: "tk ?b p \<noteq> None" "TLIST_HEAD (st ?b p) = None" using p(1) rm(3) by simp_all
  ultimately have "pend_ok (a_addready p ?b)" by (rule pend_ok_addready [OF rm(1)])
  then show ?thesis using lists_ok_curD(2) [OF lists_ok_addready(1) [OF rm(1) s]] by (simp add: a_unblock_def switch_if_moved_def)
qed

lemma pend_ok_reprio:
  assumes ok: "lists_ok i a" "pend_ok a" and p: "p \<in> set (ready a)" "p \<noteq> i" "n \<noteq> 0"
  shows "pend_ok (a_reprio p n a)"
proof -
  let ?b = "a_upd p (\<lambda>t. t\<lparr>sched_priority := n\<rparr>) (a_remready p a)" and ?c = "a_move p n a"
  note mv = lists_ok_move [OF ok(1) p] and cd = lists_ok_curD [OF ok(1)]
  have tp: "tk ?b p \<noteq> None" using listed_tk [OF cd(4) p(1)] by simp
  have Q: "qs ?b = (qs a)(g_readytorun := remove1 p (ready a))" using lists_ok_remready(4) [OF ok(1) p(1,2)] by simp
  have cb: "cur ?b \<noteq> p" using lists_ok_curD(5) [OF mv(3)] Q listed_distinct [OF cd(4), of g_readytorun] by auto
  have merged: "pend_ok (a_switch (cur a) (a_merge ?c))" using lists_ok_merge [OF mv(1)] by (simp add: pend_ok_def)
  have "pend_ok ?c" if same: "(p = cur a) = (p = cur ?c)"
  proof (cases "p = cur a")
    case True
    then have "cur ?c = p" using same by simp
    then have "pr ?b (cur ?b) < pr ?b p \<and> \<not> locked ?b" using lists_ok_addready(3) [OF mv(3) tp mv(4)] cb by (simp add: a_move_def split: if_splits)
    then have "pend ?c = pend a" using lists_ok_place(4) [OF mv(3) tp mv(4), of g_pendingtasks] Q by (simp add: a_move_def a_addready_def)
    moreover have "locked ?c = locked a" using locked_kept [OF kept_all(4), of p n a] same True cd(2) by simp
    ultimately show ?thesis using ok(2) by (simp add: pend_ok_def)
  next
    case False
    have "ready a = cur a # tl (ready a)" using cd(1) by simp
    then have "cur ?b = cur a" using False Q by (metis fun_upd_same list.sel(1) remove1.simps(2))
    moreover have "kept lockcount a ?b" by (rule kept_upd) (simp_all add: kept_lists(3))
    ultimately have "pend_ok ?b" using locked_kept [of a ?b] cd(2) ok(2) Q by (simp add: pend_ok_def)
    then show ?thesis unfolding a_move_def by (rule pend_ok_addready [OF mv(3) _ tp mv(4)])
  qed
  then show ?thesis using merged by (simp add: a_reprio_def Let_def)
qed

section \<open>The semaphores\<close>

lemma length_filter_ins: "length (filter P (ins f x xs)) = length (filter P xs) + (if P x then 1 else 0)"
  by (induction xs) auto

lemma length_filter_remove1:
  "x \<in> set xs \<Longrightarrow> length (filter P xs) = length (filter P (remove1 x xs)) + (if P x then 1 else 0)"
  by (induction xs) auto

lemma sem_ok_count: "sem_ok a \<Longrightarrow> sm a s = Some n \<Longrightarrow> int (length (waiters a s)) = max 0 (- n)"
  "sem_ok a \<Longrightarrow> sm a s = Some n \<Longrightarrow> - (2 ^ 15) \<le> n" "sem_ok a \<Longrightarrow> sm a s = Some n \<Longrightarrow> n < 2 ^ 15"
  by (simp_all add: sem_ok_def)

text \<open>One task leaves the list of its semaphore, and the count goes up.\<close>

lemma sem_ok_leave:
  assumes ok: "sem_ok a" "listed a" and p: "p \<in> set (qs a g_waitingforsemaphore)" "waits a p = Some s" "sm a s = Some n"
    and b: "\<And>x. tk b x \<noteq> None \<longleftrightarrow> tk a x \<noteq> None" "\<And>x. tk a x \<noteq> None \<Longrightarrow> waits b x = (if x = p then None else waits a x)"
      "sm b = (sm a)(s \<mapsto> n + 1)" "qs b g_waitingforsemaphore = remove1 p (qs a g_waitingforsemaphore)"
  shows "sem_ok b" "n < 0" "waiters b s = remove1 p (waiters a s)"
proof -
  let ?l = "qs a g_waitingforsemaphore"
  have d: "distinct ?l" "\<And>x. x \<in> set ?l \<Longrightarrow> tk a x \<noteq> None" using listed_distinct [OF ok(2)] listed_tk [OF ok(2)] by blast+
  have w: "waiters b s' = filter (\<lambda>x. waits a x = Some s') (remove1 p ?l)" for s'
    using b(2) d by (auto simp: waiters_def b(4) set_remove1_eq intro!: filter_cong)
  show ws: "waiters b s = remove1 p (waiters a s)"
    unfolding w unfolding waiters_def using d(1) by (simp add: remove1_filter conj_commute)
  have "p \<in> set (waiters a s)" using p by (simp add: waiters_def)
  then have "length (waiters a s) > 0" by (rule length_pos_if_in_set)
  then show n: "n < 0" using sem_ok_count(1) [OF ok(1) p(3)] by linarith
  have l: "length (waiters a s') = length (waiters b s') + (if s' = s then 1 else 0)" for s'
    unfolding w unfolding waiters_def using length_filter_remove1 [OF p(1)] p(2) by simp
  have "int (length (waiters b s')) = max 0 (- m)" if "sm b s' = Some m" for s' m
    using that sem_ok_count(1) [OF ok(1), of s'] p(3) n l [of s'] by (auto simp: b(3) split: if_splits)
  moreover have "0 \<le> 32769 + n" using sem_ok_count(2) [OF ok(1) p(3)] by simp
  ultimately show "sem_ok b" using ok(1) n p b d unfolding sem_ok_def by (auto simp: set_remove1_eq)
qed

text \<open>The running task enters the list of a semaphore, and the count goes down.\<close>

lemma sem_ok_enter:
  assumes ok: "sem_ok a" "listed a" and p: "tk a p \<noteq> None" "p \<notin> set (qs a g_waitingforsemaphore)" "sm a s = Some n" "n \<le> 0" "- (2 ^ 15) < n"
    and b: "\<And>x. tk b x \<noteq> None \<longleftrightarrow> tk a x \<noteq> None" "\<And>x. tk a x \<noteq> None \<Longrightarrow> waits b x = (if x = p then Some s else waits a x)"
      "sm b = (sm a)(s \<mapsto> n - 1)" "qs b g_waitingforsemaphore = ins f p (qs a g_waitingforsemaphore)"
  shows "sem_ok b"
proof -
  let ?l = "qs a g_waitingforsemaphore"
  have d: "\<And>x. x \<in> set ?l \<Longrightarrow> tk a x \<noteq> None" using listed_tk [OF ok(2)] by blast
  have "filter (\<lambda>x. waits b x = Some s') ?l = waiters a s'" for s'
    using b(2) d p(2) by (auto simp: waiters_def split: if_splits intro!: filter_cong)
  then have l: "length (waiters b s') = length (waiters a s') + (if s' = s then 1 else 0)" for s'
    using b(2) [of p] p(1) by (simp add: waiters_def b(4) length_filter_ins)
  have "int (length (waiters b s')) = max 0 (- m)" if "sm b s' = Some m" for s' m
    using that sem_ok_count(1) [OF ok(1), of s'] p(3,4) l [of s'] by (auto simp: b(3) split: if_splits)
  then show "sem_ok b" using ok(1) p b d unfolding sem_ok_def by auto
qed

section \<open>The operations keep the invariant\<close>

lemma qs_unblock:
  assumes ok: "lists_ok i a" and p: "tk a p \<noteq> None" "TLIST_HEAD (st a p) = Some l" "l \<noteq> g_readytorun" and l': "l' \<notin> {g_readytorun, g_pendingtasks}"
  shows "qs (a_unblock p a) l' = (if l' = l then remove1 p (qs a l) else qs a l')"
proof -
  note rm = lists_ok_rmblocked [OF ok p]
  have "tk (a_rmblocked p a) p \<noteq> None" "TLIST_HEAD (st (a_rmblocked p a) p) = None" using p(1) rm(3) by simp_all
  from lists_ok_addready(4) [OF rm(1) this l'] show ?thesis by (auto simp: a_unblock_def switch_if_moved_def rm(4) split: if_splits)
qed

lemma qs_block:
  assumes ok: "lists_ok i a" and s: "TLIST_HEAD s = Some l" "l \<notin> {g_readytorun, g_pendingtasks}" and c: "cur a \<noteq> i"
  shows "pend (a_block s a) = []" "l' \<notin> {g_readytorun, g_pendingtasks, l} \<Longrightarrow> qs (a_block s a) l' = qs a l'"
    "TLIST_ISPRIORITIZED s \<Longrightarrow> qs (a_block s a) l = ins (pr a) (cur a) (qs a l)"
proof -
  note L = lists_ok_curD [OF ok]
  let ?b = "a_remready (cur a) a"
  note rm = lists_ok_remready [OF ok L(5) c]
  have b: "tk ?b (cur a) \<noteq> None" "TLIST_HEAD (st ?b (cur a)) = None" using L(2) rm(3) by simp_all
  have "lists_ok i (a_addblocked (cur a) s ?b)" by (rule lists_ok_addblocked(1) [OF rm(1) b s(1)]) (use s(2) in auto)
  note m = lists_ok_merge [OF this]
  show "pend (a_block s a) = []" using m by (simp add: a_block_def Let_def)
  have ab: "qs (a_addblocked (cur a) s ?b) l' = qs a l'" if "l' \<notin> {g_readytorun, l}" for l'
    using lists_ok_addblocked(3) [OF rm(1) b s(1), of l'] that s(2) rm(4) by simp
  show "l' \<notin> {g_readytorun, g_pendingtasks, l} \<Longrightarrow> qs (a_block s a) l' = qs a l'" using m ab by (simp add: a_block_def Let_def)
  show "TLIST_ISPRIORITIZED s \<Longrightarrow> qs (a_block s a) l = ins (pr a) (cur a) (qs a l)"
    using m s rm(2,4) by (simp add: a_block_def Let_def a_addblocked_def)
qed

lemma qs_reprio:
  assumes ok: "lists_ok i a" and p: "p \<in> set (ready a)" "p \<noteq> i" "n \<noteq> 0" and l': "l' \<notin> {g_readytorun, g_pendingtasks}"
  shows "qs (a_reprio p n a) l' = qs a l'"
proof -
  note mv = lists_ok_move [OF ok p]
  have "tk (a_upd p (\<lambda>t. t\<lparr>sched_priority := n\<rparr>) (a_remready p a)) p \<noteq> None"
    using listed_tk [OF lists_ok_curD(4) [OF ok] p(1)] by simp
  then have "qs (a_move p n a) l' = qs a l'"
    using lists_ok_addready(4) [OF mv(3) _ mv(4) l'] lists_ok_remready(4) [OF ok p(1,2)] l' by (simp add: a_move_def)
  then show ?thesis using lists_ok_merge [OF mv(1)] l' by (simp add: a_reprio_def Let_def)
qed

lemma sys_ok_block:
  assumes ok: "sys_ok i a" and s: "TLIST_HEAD s = Some l" "l \<notin> {g_readytorun, g_pendingtasks, g_waitingforsemaphore}"
    and c: "cur a \<noteq> i" and r: "repr k a"
  shows "\<exists>k'. up_block_task (cur a) s k = Some k' \<and> repr k' (a_block s a) \<and> sys_ok i (a_block s a)"
proof -
  have o: "lists_ok i a" "sem_ok a" "listed a" using ok by (simp_all add: sys_ok_def lists_ok_def)
  have "sem_ok (a_block s a)"
    by (rule sem_ok_cong [OF o(2,3) kept_all(1)]) (use qs_block(2) [OF o(1) s(1) _ c, of g_waitingforsemaphore] s(2) in auto)
  moreover have "pend_ok (a_block s a)" using qs_block(1) [OF o(1) s(1) _ c] s(2) by (simp add: pend_ok_def)
  moreover obtain k' where "up_block_task (cur a) s k = Some k'" "repr k' (a_block s a)" "lists_ok i (a_block s a)"
    using up_block_task_ok [OF r o(1) s(1) _ c] s(2) by auto
  ultimately show ?thesis by (simp add: sys_ok_def)
qed

lemma sys_ok_unblock:
  assumes ok: "sys_ok i a" and p: "tk a p \<noteq> None" "TLIST_HEAD (st a p) = Some l" "l \<notin> {g_readytorun, g_waitingforsemaphore}"
    and r: "repr k a"
  shows "\<exists>k'. up_unblock_task p k = Some k' \<and> repr k' (a_unblock p a) \<and> sys_ok i (a_unblock p a)"
proof -
  have o: "lists_ok i a" "sem_ok a" "listed a" "pend_ok a" using ok by (simp_all add: sys_ok_def lists_ok_def)
  have l: "l \<noteq> g_readytorun" using p(3) by simp
  have "sem_ok (a_unblock p a)"
    by (rule sem_ok_cong [OF o(2,3) kept_all(2)]) (use qs_unblock [OF o(1) p(1,2) l, of g_waitingforsemaphore] p(3) in auto)
  then show ?thesis using up_unblock_task_ok [OF r o(1) p(1,2) l] pend_ok_unblock [OF o(1,4) p(1,2) l] by (auto simp: sys_ok_def)
qed

lemma sys_ok_reprio:
  assumes ok: "sys_ok i a" and p: "p \<in> set (ready a)" "p \<noteq> i" "n \<noteq> 0" and r: "repr k a"
  shows "\<exists>k'. up_reprioritize_rtr p n k = Some k' \<and> repr k' (a_reprio p n a) \<and> sys_ok i (a_reprio p n a)"
proof -
  have o: "lists_ok i a" "sem_ok a" "listed a" "pend_ok a" using ok by (simp_all add: sys_ok_def lists_ok_def)
  have "sem_ok (a_reprio p n a)"
    by (rule sem_ok_cong [OF o(2,3) kept_all(5)]) (use qs_reprio [OF o(1) p, of g_waitingforsemaphore] in auto)
  then show ?thesis using up_reprioritize_rtr_ok [OF r o(1) p] pend_ok_reprio [OF o(1,4) p] by (auto simp: sys_ok_def)
qed

lemma sys_ok_release:
  assumes ok: "lists_ok i a" "sem_ok a" and r: "repr k a"
  shows "\<exists>k'. up_release_pending k = Some (cur (a_merge a) \<noteq> cur a, k') \<and> repr k' (a_release a) \<and> sys_ok i (a_release a)"
proof -
  have o: "listed a" using ok by (simp add: lists_ok_def)
  note m = lists_ok_merge [OF ok(1)]
  have "pend_ok (a_release a)" using m by (simp add: pend_ok_def a_release_def switch_if_moved_def)
  moreover have "sem_ok (a_release a)"
    by (rule sem_ok_cong [OF ok(2) o kept_all(3)]) (use m in \<open>auto simp: a_release_def switch_if_moved_def\<close>)
  ultimately show ?thesis using up_release_pending_ok [OF r ok(1)] by (auto simp: sys_ok_def)
qed

section \<open>Semaphores in the kernel\<close>

lemma sint16: "- (2 ^ 15) \<le> m \<Longrightarrow> m < 2 ^ 15 \<Longrightarrow> sint (word_of_int m :: 16 word) = m"
  by (simp add: signed_of_int signed_take_bit_int_eq_self)

abbreviation a_sem :: "nat \<Rightarrow> int \<Rightarrow> 'c sys \<Rightarrow> 'c sys" where
  "a_sem s n a \<equiv> a\<lparr>sm := (sm a)(s \<mapsto> n)\<rparr>"

lemma repr_set_sem: "repr k a \<Longrightarrow> - (2 ^ 15) \<le> n \<Longrightarrow> n < 2 ^ 15 \<Longrightarrow> repr (set_sem s n k) (a_sem s n a)"
  using sint16 by (auto simp: repr_def set_sem_def)

lemma repr_sems: "repr k a \<Longrightarrow> sems k = sm a"
  by (simp add: repr_def)

lemma find_waiter_dseg:
  assumes "dseg h b p xs lst None" "\<And>x. x \<in> set xs \<Longrightarrow> w x = waitsem (the (h x))"
  shows "find_waiter h s p = Some (case filter (\<lambda>x. w x = Some s) xs of [] \<Rightarrow> None | y # _ \<Rightarrow> Some y)"
  using assms
proof (induction xs arbitrary: b p)
  case Nil
  then show ?case by (subst find_waiter.simps) simp
next
  case (Cons x xs)
  then obtain e where "h x = Some e" "p = Some x" "dseg h (Some x) (flink e) xs lst None" by auto
  then show ?case using Cons.IH [of "Some x" "flink e"] Cons.prems(2) by (subst find_waiter.simps) simp
qed

lemma repr_waits: "repr k a \<Longrightarrow> tk a p \<noteq> None \<Longrightarrow> waits a p = waitsem (the (tcbs k p))"
  by (auto simp: repr_def view_def waits_def)

lemma find_waiter_ok:
  assumes "repr k a" "listed a"
  shows "find_waiter (tcbs k) s (qhead (lists k g_waitingforsemaphore)) = Some (case waiters a s of [] \<Rightarrow> None | y # _ \<Rightarrow> Some y)"
  unfolding waiters_def
proof (rule find_waiter_dseg)
  show "dseg (tcbs k) None (qhead (lists k g_waitingforsemaphore)) (qs a g_waitingforsemaphore) (qtail (lists k g_waitingforsemaphore)) None"
    using assms(1) by (simp add: repr_def dqueue_def)
  show "waits a x = waitsem (the (tcbs k x))" if "x \<in> set (qs a g_waitingforsemaphore)" for x
    using repr_waits [OF assms(1) listed_tk [OF assms(2) that]] .
qed

lemma listed_stD: "listed a \<Longrightarrow> p \<in> set (qs a l) \<Longrightarrow> TLIST_HEAD (st a p) = Some l"
  using listed_tk [of a p l] by (simp add: listed_st)

text \<open>A task leaves the semaphore it waits for, because of a post or of an interruption.\<close>

lemma leave_semaphore:
  assumes ok: "sys_ok i a" and r: "repr k a" and p: "p \<in> set (waiters a s)" "sm a s = Some n"
    and f: "\<And>t. waitsem (f t) = None" "\<And>t. task_state (f t) = task_state t" "\<And>t. sched_priority (f t) = sched_priority t"
      "\<And>t. lockcount (f t) = lockcount t" "\<And>t. flink (f t) = flink t" "\<And>t. blink (f t) = blink t" "\<And>t. strip (f t) = f (strip t)"
  defines "b \<equiv> a_unblock p (a_upd p f (a_sem s (n + 1) a))"
  shows "\<exists>k1 k'. upd_tcb p f (set_sem s (n + 1) k) = Some k1 \<and> up_unblock_task p k1 = Some k' \<and> repr k' b"
    "sys_ok i b" "waiters b s = remove1 p (waiters a s)" "n < 0" "sm b = (sm a)(s \<mapsto> n + 1)"
proof -
  let ?a = "a_upd p f (a_sem s (n + 1) a)" and ?l = g_waitingforsemaphore
  have o: "lists_ok i a" "sem_ok a" "listed a" "pend_ok a" using ok by (simp_all add: sys_ok_def lists_ok_def)
  have pl: "p \<in> set (qs a ?l)" "waits a p = Some s" using p by (simp_all add: waiters_def)
  have tp: "tk a p \<noteq> None" by (rule listed_tk [OF o(3) pl(1)])
  have n: "- (2 ^ 15) \<le> n" using sem_ok_count(2) [OF o(2) p(2)] .
  have oa: "lists_ok i ?a" using o(1) f(2,3) by (simp add: lists_ok_upd)
  have sp: "tk ?a p \<noteq> None" "TLIST_HEAD (st ?a p) = Some ?l"
    using tp listed_stD [OF o(3) pl(1)] f(2) by (auto simp: st_def)
  have "locked ?a = locked a" using f(4) tp by (auto simp: locked_def)
  then have pa: "pend_ok ?a" using o(4) by (simp add: pend_ok_def)
  have kw: "kept waitsem ?a b" unfolding b_def by (rule kept_all(2)) simp_all
  have wb: "waits b x = (if x = p then None else waits a x)" if "tk a x \<noteq> None" for x
    using kept_waits [OF kw, of x] that tp f(1) by (auto simp: waits_def)
  have qb: "qs b ?l = remove1 p (qs a ?l)" using qs_unblock [OF oa sp, of ?l] by (simp add: b_def)
  have tb: "tk b x \<noteq> None \<longleftrightarrow> tk a x \<noteq> None" for x using keptD(2) [OF kw, of x] by simp
  show sb: "sm b = (sm a)(s \<mapsto> n + 1)" using kw by (simp add: kept_def)
  note leave = sem_ok_leave [OF o(2,3) pl p(2) tb wb sb qb]
  show "waiters b s = remove1 p (waiters a s)" "n < 0" using leave by blast+
  then have "repr (set_sem s (n + 1) k) (a_sem s (n + 1) a)" using repr_set_sem [OF r, of "n + 1" s] n by simp
  then obtain k1 where 1: "upd_tcb p f (set_sem s (n + 1) k) = Some k1" "repr k1 ?a"
    using upd_tcb_ok [of "set_sem s (n + 1) k" "a_sem s (n + 1) a" p f] tp f(5-7) by auto
  then show "\<exists>k1 k'. upd_tcb p f (set_sem s (n + 1) k) = Some k1 \<and> up_unblock_task p k1 = Some k' \<and> repr k' b"
    using up_unblock_task_ok [OF 1(2) oa sp] by (auto simp: b_def)
  show "sys_ok i b" using leave(1) pend_ok_unblock [OF oa pa sp] up_unblock_task_ok [OF 1(2) oa sp] by (auto simp: b_def sys_ok_def)
qed


lemma sem_ok_count_upd:
  assumes "sem_ok a" "sm a s = Some n" "0 \<le> n" "0 \<le> m" "m < 2 ^ 15"
  shows "sem_ok (a_sem s m a)"
proof -
  have "waiters a s = []" using sem_ok_count(1) [OF assms(1,2)] assms(3) by simp
  moreover have "waits (a_sem s m a) = waits a" "waiters (a_sem s m a) = waiters a" by (auto simp: waits_def waiters_def fun_eq_iff)
  ultimately show ?thesis using assms by (auto simp: sem_ok_def)
qed

lemma sys_ok_sem: "sys_ok i a \<Longrightarrow> sem_ok (a_sem s m a) \<Longrightarrow> sys_ok i (a_sem s m a)"
  by (simp add: sys_ok_def pend_ok_def locked_def)

lemma sem_post_ok:
  assumes ok: "sys_ok i a" and r: "repr k a" and s: "sems k s = Some n" "n < 2 ^ 15 - 1"
  shows "\<exists>k' b. sem_post_call s k = Some (OK, k') \<and> repr k' b \<and> sys_ok i b \<and> sm b = (sm a)(s \<mapsto> n + 1) \<and>
     (case waiters a s of [] \<Rightarrow> b = a_sem s (n + 1) a
      | p # ps \<Rightarrow> b = a_unblock p (a_upd p (\<lambda>t. t\<lparr>waitsem := None\<rparr>) (a_sem s (n + 1) a)) \<and> waiters b s = ps)"
proof -
  have o: "sem_ok a" "listed a" using ok by (simp_all add: sys_ok_def lists_ok_def)
  have sn: "sm a s = Some n" using r s(1) by (simp add: repr_def)
  note bounds = sem_ok_count [OF o(1) sn]
  have rs: "repr (set_sem s (n + 1) k) (a_sem s (n + 1) a)" using repr_set_sem [OF r, of "n + 1" s] bounds s(2) by simp
  then have v: "sems (set_sem s (n + 1) k) s = Some (n + 1)" by (simp add: repr_sems [OF rs])
  show ?thesis
  proof (cases "waiters a s")
    case Nil
    then have n: "0 \<le> n" using bounds(1) by simp
    then have "sys_ok i (a_sem s (n + 1) a)" using sys_ok_sem [OF ok sem_ok_count_upd [OF o(1) sn]] s(2) by simp
    then show ?thesis using Nil rs v n s(1) by (auto simp: sem_post_call_def Let_def)
  next
    case (Cons p ps)
    let ?f = "\<lambda>t. t\<lparr>waitsem := None\<rparr>" 
    let ?b = "a_unblock p (a_upd p ?f (a_sem s (n + 1) a))"
    have p: "p \<in> set (waiters a s)" using Cons by simp
    note leave = leave_semaphore [OF ok r p sn, of ?f, simplified]
    have "listed (a_sem s (n + 1) a)" "waiters (a_sem s (n + 1) a) s = p # ps"
      using o(2) Cons by (simp_all add: listed_def waiters_def waits_def)
    then have "find_waiter (tcbs (set_sem s (n + 1) k)) s (qhead (lists (set_sem s (n + 1) k) g_waitingforsemaphore)) = Some (Some p)"
      using find_waiter_ok [OF rs, of s] by simp
    then show ?thesis using leave Cons v s(1) by (auto simp: sem_post_call_def Let_def)
  qed
qed

lemma nxsem_wait_irq_ok:
  assumes ok: "sys_ok i a" and r: "repr k a" and p: "tk a p \<noteq> None"
  shows "\<exists>k' b. nxsem_wait_irq p e k = Some k' \<and> repr k' b \<and> sys_ok i b"
proof (cases "st a p = TSTATE_WAIT_SEM")
  case False
  obtain t where "tcbs k p = Some t" "tk a p = Some (strip t)" using repr_tcb [OF r] p by force
  then show ?thesis using False ok r by (auto simp: nxsem_wait_irq_def st_def)
next
  case True
  have o: "sem_ok a" "listed a" using ok by (simp_all add: sys_ok_def lists_ok_def)
  obtain t where t: "tcbs k p = Some t" "tk a p = Some (strip t)" using repr_tcb [OF r] p by force
  have l: "p \<in> set (qs a g_waitingforsemaphore)" using o(2) p True by (simp add: listed_st)
  then obtain s n where w: "waits a p = Some s" "sm a s = Some n" using o(1) p unfolding sem_ok_def by fastforce
  then have pw: "p \<in> set (waiters a s)" using l by (simp add: waiters_def)
  note leave = leave_semaphore [OF ok r pw w(2), of "\<lambda>t. t\<lparr>waitsem := None, pterrno := e\<rparr>", simplified]
  have "sems k s = Some n" "waitsem t = Some s" "task_state t = TSTATE_WAIT_SEM"
    using r w t True by (simp_all add: repr_def waits_def st_def)
  then show ?thesis using leave t(1) by (auto simp: nxsem_wait_irq_def)
qed

lemma repr_get: "repr k a \<Longrightarrow> tk a p \<noteq> None \<Longrightarrow> \<exists>t. tcbs k p = Some t \<and> tk a p = Some (strip t)"
  by (auto simp: repr_def view_def)

lemma sem_ok_upd:
  assumes "sem_ok a" "tk a p \<noteq> None" "waitsem (f (the (tk a p))) = waits a p"
  shows "sem_ok (a_upd p f a)"
proof -
  have "waits (a_upd p f a) = waits a" using assms(2,3) by (auto simp: waits_def)
  then have "waiters (a_upd p f a) = waiters a" by (simp add: waiters_def fun_eq_iff)
  then show ?thesis using assms \<open>waits (a_upd p f a) = waits a\<close> by (auto simp: sem_ok_def)
qed

lemma sys_ok_upd:
  assumes "sys_ok i a" "tk a p \<noteq> None" "waitsem (f (the (tk a p))) = waits a p"
    "\<And>t. task_state (f t) = task_state t" "\<And>t. sched_priority (f t) = sched_priority t" "\<And>t. lockcount (f t) = lockcount t"
  shows "sys_ok i (a_upd p f a)"
proof -
  have "locked (a_upd p f a) = locked a" using assms(2,6) by (auto simp: locked_def)
  then show ?thesis using assms sem_ok_upd [of a p f] by (simp add: sys_ok_def pend_ok_def lists_ok_upd)
qed

lemma cur_waits: "sys_ok i a \<Longrightarrow> waits a (cur a) = None" 
proof -
  assume ok: "sys_ok i a"
  then have o: "lists_ok i a" "sem_ok a" by (simp_all add: sys_ok_def)
  note c = lists_ok_curD [OF o(1)]
  have "cur a \<notin> set (qs a g_waitingforsemaphore)" using c(2,3,4) by (simp add: listed_st)
  then show ?thesis using o(2) c(2) by (simp add: sem_ok_def)
qed

lemma take_semaphore:
  assumes ok: "sys_ok i a" and r: "repr k a" and s: "sems k s = Some n" "0 < n"
  defines "b \<equiv> a_upd (cur a) (\<lambda>t. t\<lparr>waitsem := None\<rparr>) (a_sem s (n - 1) a)"
  shows "\<exists>k'. upd_tcb (cur a) (\<lambda>t. t\<lparr>waitsem := None\<rparr>) (set_sem s (n - 1) k) = Some k' \<and> repr k' b" "sys_ok i b"
    "sm b = (sm a)(s \<mapsto> n - 1)"
proof -
  show "sm b = (sm a)(s \<mapsto> n - 1)" by (simp add: b_def)
  have o: "lists_ok i a" "sem_ok a" using ok by (simp_all add: sys_ok_def)
  note c = lists_ok_curD [OF o(1)]
  have sn: "sm a s = Some n" using s(1) repr_sems [OF r] by simp
  note bounds = sem_ok_count [OF o(2) sn]
  have rs: "repr (set_sem s (n - 1) k) (a_sem s (n - 1) a)" using repr_set_sem [OF r, of "n - 1" s] bounds s(2) by simp
  show "\<exists>k'. upd_tcb (cur a) (\<lambda>t. t\<lparr>waitsem := None\<rparr>) (set_sem s (n - 1) k) = Some k' \<and> repr k' b"
    using upd_tcb_ok [OF rs, of "cur a" "\<lambda>t. t\<lparr>waitsem := None\<rparr>"] c(2) by (auto simp: b_def)
  have "sem_ok (a_sem s (n - 1) a)" using sem_ok_count_upd [OF o(2) sn, of "n - 1"] s(2) bounds by simp
  from sys_ok_sem [OF ok this] show "sys_ok i b" unfolding b_def
    by (rule sys_ok_upd) (use c(2) cur_waits [OF ok] in \<open>auto simp: waits_def\<close>)
qed

lemma sem_trywait_ok:
  assumes ok: "sys_ok i a" and r: "repr k a" and s: "sems k s = Some n"
  shows "\<exists>k' b. sem_trywait_call s k = Some (if 0 < n then OK else - EAGAIN, k') \<and> repr k' b \<and> sys_ok i b \<and>
     sm b = (sm a)(s \<mapsto> if 0 < n then n - 1 else n)"
proof (cases "0 < n")
  case True
  have "this_task k = Some (cur a)" using repr_this_task [OF r lists_ok_curD(1)] ok by (auto simp: sys_ok_def)
  then show ?thesis using take_semaphore(1) [OF ok r s True] take_semaphore(2,3) [OF ok r s True] True s
    by (fastforce simp: sem_trywait_call_def)
next
  case False
  have "this_task k = Some (cur a)" using repr_this_task [OF r lists_ok_curD(1)] ok by (auto simp: sys_ok_def)
  then show ?thesis using False s ok r repr_sems [OF r] by (auto simp: sem_trywait_call_def fun_upd_idem)
qed

text \<open>The running task waits for a semaphore that is not available.\<close>

lemma block_on_semaphore:
  assumes ok: "sys_ok i a" and r: "repr k a" and s: "sems k s = Some n" "n \<le> 0" "- (2 ^ 15) < n" and c: "cur a \<noteq> i"
  defines "d \<equiv> a_upd (cur a) (\<lambda>t. t\<lparr>pterrno := OK\<rparr>) (a_upd (cur a) (\<lambda>t. t\<lparr>waitsem := Some s\<rparr>) (a_sem s (n - 1) a))"
  shows "\<exists>k'. sem_wait_call s k = Some (Blocked (pterrno (the (tk a (cur a)))), k') \<and> repr k' (a_block TSTATE_WAIT_SEM d)"
    "sys_ok i (a_block TSTATE_WAIT_SEM d)" "waiters (a_block TSTATE_WAIT_SEM d) s = ins (pr a) (cur a) (waiters a s)"
    "sm (a_block TSTATE_WAIT_SEM d) = (sm a)(s \<mapsto> n - 1)"
proof -
  let ?l = g_waitingforsemaphore and ?p = "cur a" and ?b = "a_block TSTATE_WAIT_SEM d"
  have o: "lists_ok i a" "sem_ok a" "listed a" using ok by (simp_all add: sys_ok_def lists_ok_def)
  note cd = lists_ok_curD [OF o(1)]
  have od: "lists_ok i d" "cur d = ?p" "qs d = qs a" using o(1) by (simp_all add: d_def lists_ok_upd)
  have rs: "repr (set_sem s (n - 1) k) (a_sem s (n - 1) a)" using repr_set_sem [OF r, of "n - 1" s] s by simp
  obtain k1 where 1: "upd_tcb ?p (\<lambda>t. t\<lparr>waitsem := Some s\<rparr>) (set_sem s (n - 1) k) = Some k1"
    "repr k1 (a_upd ?p (\<lambda>t. t\<lparr>waitsem := Some s\<rparr>) (a_sem s (n - 1) a))"
    using upd_tcb_ok [OF rs, of ?p "\<lambda>t. t\<lparr>waitsem := Some s\<rparr>"] cd(2) by auto
  obtain t where t: "tcbs k1 ?p = Some t" "pterrno t = pterrno (the (tk a ?p))"
    using repr_get [OF 1(2), of ?p] cd(2) by (auto dest!: arg_cong [of _ _ pterrno])
  obtain k2 where 2: "upd_tcb ?p (\<lambda>t. t\<lparr>pterrno := OK\<rparr>) k1 = Some k2" "repr k2 d"
    using upd_tcb_ok [OF 1(2), of ?p "\<lambda>t. t\<lparr>pterrno := OK\<rparr>"] cd(2) by (auto simp: d_def)
  obtain k3 where 3: "up_block_task ?p TSTATE_WAIT_SEM k2 = Some k3" "repr k3 ?b" "lists_ok i ?b"
    using up_block_task_ok [OF 2(2) od(1), of TSTATE_WAIT_SEM ?l] od(2) c by auto
  have "this_task k = Some ?p" by (rule repr_this_task [OF r cd(1)])
  then show "\<exists>k'. sem_wait_call s k = Some (Blocked (pterrno (the (tk a ?p))), k') \<and> repr k' ?b"
    using 1(1) t 2(1) 3(1,2) s by (simp add: sem_wait_call_def)
  have kw: "kept waitsem d ?b" by (rule kept_all(1)) simp_all
  have prd: "pr d = pr a" using cd(2) by (auto simp: d_def pr_def fun_eq_iff)
  have wb: "waits ?b x = (if x = ?p then Some s else waits a x)" if "tk a x \<noteq> None" for x
    using kept_waits [OF kw, of x] that cd(2) by (auto simp: waits_def d_def)
  have qb: "qs ?b ?l = ins (pr a) ?p (qs a ?l)" using qs_block(3) [OF od(1), of TSTATE_WAIT_SEM ?l] od c prd by simp
  have tb: "tk ?b x \<noteq> None \<longleftrightarrow> tk a x \<noteq> None" for x using keptD(2) [OF kw, of x] by (simp add: d_def)
  show sb: "sm ?b = (sm a)(s \<mapsto> n - 1)" using kw by (simp add: kept_def d_def)
  have np: "?p \<notin> set (qs a ?l)" using cd(2,3,4) by (simp add: listed_st)
  have "sem_ok ?b" by (rule sem_ok_enter [OF o(2,3) cd(2) np _ s(2,3) tb wb sb qb]) (use s(1) repr_sems [OF r] in simp)
  moreover have "pend_ok ?b" using qs_block(1) [OF od(1), of TSTATE_WAIT_SEM ?l] od c by (simp add: pend_ok_def)
  ultimately show "sys_ok i ?b" using 3(3) by (simp add: sys_ok_def)
  have "prio_sorted (pr a) (qs a ?l)" using o(1) by (simp add: lists_ok_def ordered_def unordered_def)
  moreover have "filter (\<lambda>x. waits ?b x = Some s) (qs a ?l) = waiters a s"
    using wb np listed_tk [OF o(3)] by (auto simp: waiters_def split: if_splits intro!: filter_cong)
  ultimately show "waiters ?b s = ins (pr a) ?p (waiters a s)"
    using wb [OF cd(2)] filter_ins [of "pr a" "qs a ?l" "\<lambda>x. waits ?b x = Some s" ?p] by (simp add: waiters_def [of ?b] qb)
qed

end
