(* ===== verification/Sched_Calls.thy ===== *)
theory Sched_Calls
  imports Sched_Inv
begin

text \<open>
  The remaining calls of the scheduler: the lock, priorities and time slices.
\<close>

section \<open>Locking the scheduler\<close>

lemma sint16_inc: "sint w < 2 ^ 15 - 1 \<Longrightarrow> sint (w + 1 :: 16 word) = sint w + 1"
  using sint16 [of "sint w + 1"] sint_ge [of w] by simp

lemma sint16_dec: "0 < sint w \<Longrightarrow> sint (w - 1 :: 16 word) = sint w - 1"
  using sint16 [of "sint w - 1"] sint_lt [of w] by simp

definition a_lock :: "'c sys \<Rightarrow> 'c sys" where
  "a_lock a = a_upd (cur a) (\<lambda>t. t\<lparr>lockcount := lockcount t + 1\<rparr>) a"

lemma sched_lock_irq: "in_irq k \<Longrightarrow> sched_lock k = Some (OK, k)"
  by (simp add: sched_lock_def split: option.splits)

lemma sched_lock_ok:
  assumes ok: "sys_ok i a" and r: "repr k a" and irq: "\<not> in_irq k" and n: "sint (lockcount (the (tk a (cur a)))) < 2 ^ 15 - 1"
  shows "\<exists>k'. sched_lock k = Some (OK, k') \<and> repr k' (a_lock a) \<and> sys_ok i (a_lock a)"
    "locked (a_lock a) \<longleftrightarrow> 0 \<le> sint (lockcount (the (tk a (cur a))))"
proof -
  have o: "lists_ok i a" "sem_ok a" "pend_ok a" using ok by (simp_all add: sys_ok_def)
  note c = lists_ok_curD [OF o(1)]
  let ?f = "\<lambda>t. t\<lparr>lockcount := lockcount t + 1\<rparr>" and ?n = "lockcount (the (tk a (cur a)))"
  have "\<exists>k'. upd_tcb (cur a) ?f k = Some k' \<and> repr k' (a_lock a)" unfolding a_lock_def by (rule upd_tcb_ok [OF r c(2)]) simp_all
  moreover show l: "locked (a_lock a) \<longleftrightarrow> 0 \<le> sint ?n" using c(2) sint16_inc [OF n] by (auto simp: locked_def a_lock_def)
  then have "sys_ok i (a_lock a)"
    using o sem_ok_upd [OF o(2) c(2), of ?f] by (auto simp: sys_ok_def pend_ok_def lists_ok_upd waits_def locked_def a_lock_def)
  ultimately show "\<exists>k'. sched_lock k = Some (OK, k') \<and> repr k' (a_lock a) \<and> sys_ok i (a_lock a)"
    using repr_this_task [OF r c(1)] irq by (auto simp: sched_lock_def)
qed

lemma sched_unlock_irq: "in_irq k \<Longrightarrow> sched_unlock k = Some (Some OK, k)"
  by (simp add: sched_unlock_def split: option.splits)

lemma unlock_timeslice_same: "this_task k = Some r \<Longrightarrow> tcbs k r \<noteq> None \<Longrightarrow> unlock_timeslice r k = Some k"
  by (auto simp: unlock_timeslice_def)

text \<open>The last unlock lets the pending tasks go; if one of them is more important, the caller is switched out.\<close>

definition a_unlock :: "'c sys \<Rightarrow> 'c sys" where
  "a_unlock a = (let n = lockcount (the (tk a (cur a))) in
     if sint n \<le> 1 then a_release (a_upd (cur a) (\<lambda>t. t\<lparr>lockcount := 0\<rparr>) a)
     else a_upd (cur a) (\<lambda>t. t\<lparr>lockcount := n - 1\<rparr>) a)"

lemma sched_unlock_ok:
  assumes ok: "sys_ok i a" and r: "repr k a" and irq: "\<not> in_irq k"
  shows "\<exists>k'. sched_unlock k = Some (if cur (a_unlock a) = cur a then Some OK else None, k') \<and> repr k' (a_unlock a) \<and> sys_ok i (a_unlock a)"
proof -
  have o: "lists_ok i a" "sem_ok a" "pend_ok a" using ok by (simp_all add: sys_ok_def)
  note c = lists_ok_curD [OF o(1)]
  have t: "this_task k = Some (cur a)" by (rule repr_this_task [OF r c(1)])
  let ?f = "\<lambda>t. if 0 < sint (lockcount t) then t\<lparr>lockcount := lockcount t - 1\<rparr> else t" and ?g = "\<lambda>t. t\<lparr>lockcount := 0\<rparr>"
  let ?n = "lockcount (the (tk a (cur a)))" and ?c = "cur a"
  have "\<exists>k'. upd_tcb ?c ?f k = Some k' \<and> repr k' (a_upd ?c ?f a)" by (rule upd_tcb_ok [OF r c(2)]) auto
  then obtain k1 where 1: "upd_tcb ?c ?f k = Some k1" "repr k1 (a_upd ?c ?f a)" by blast
  obtain t1 where t1: "tcbs k1 ?c = Some t1" "tk (a_upd ?c ?f a) ?c = Some (strip t1)" using repr_get [OF 1(2), of ?c] c(2) by auto
  then have l1: "lockcount t1 = (if 0 < sint ?n then ?n - 1 else ?n)" using c(2) by (auto dest!: arg_cong [of _ _ lockcount] split: if_splits)
  show ?thesis
  proof (cases "sint ?n \<le> 1")
    case False
    then have n: "0 < sint ?n" "0 < sint (?n - 1)" using sint16_dec [of ?n] by auto
    then have e: "a_upd ?c ?f a = a_unlock a" using False c(2) by (auto simp: a_unlock_def a_upd_def Let_def)
    have "locked (a_unlock a)" using n c(2) by (auto simp flip: e simp: locked_def)
    moreover have "lists_ok i (a_unlock a)" using o(1) by (simp flip: e add: lists_ok_upd)
    moreover have "sem_ok (a_unlock a)" unfolding e [symmetric] by (rule sem_ok_upd [OF o(2) c(2)]) (simp add: waits_def)
    ultimately show ?thesis using 1 t1(1) l1 n t irq by (simp flip: e add: sched_unlock_def sys_ok_def pend_ok_def)
  next
    case True
    let ?b = "a_upd ?c ?g a"
    have "a_upd ?c ?g (a_upd ?c ?f a) = ?b" using c(2) by (auto simp: a_upd_def)
    then obtain k2 where 2: "upd_tcb ?c ?g k1 = Some k2" "repr k2 ?b"
      using upd_tcb_ok [OF 1(2), of ?c ?g] c(2) by auto
    have b: "lists_ok i ?b" "sem_ok ?b" using o(1) sem_ok_upd [OF o(2) c(2), of ?g] by (simp_all add: lists_ok_upd waits_def)
    obtain k3 where 3: "up_release_pending k2 = Some (cur (a_merge ?b) \<noteq> cur ?b, k3)" "repr k3 (a_release ?b)" "sys_ok i (a_release ?b)"
      using sys_ok_release [OF b 2(2)] by blast
    have rel: "a_release ?b = a_unlock a" "cur (a_release ?b) = cur (a_merge ?b)"
      using True by (auto simp: a_unlock_def a_release_def switch_if_moved_def Let_def)
    have "a_release ?b = ?b" if "pend a = []" using a_merge_Nil(1) [of ?b] that by (simp add: a_release_def switch_if_moved_def)
    then have none: "a_unlock a = ?b" "cur (a_unlock a) = ?c" if "pend a = []" using rel(1) that by auto
    have tt: "this_task k3 = Some (cur (a_release ?b))" "this_task k2 = Some ?c" 
      using repr_this_task [OF 3(2)] repr_this_task [OF 2(2)] 3(3) lists_ok_curD(1) c(1) by (auto simp: sys_ok_def)
    have ex: "tcbs k2 ?c \<noteq> None" "tcbs k3 ?c \<noteq> None"
      using c(2) repr_tcb_None [OF 2(2), of ?c] repr_tcb_None [OF 3(2), of ?c] keptD(2) [OF kept_all(3) [of "\<lambda>_. ()" ?b]] by auto
    have "sint (lockcount t1) \<le> 0" using True l1 sint16_dec [of ?n] by auto
    then have "sched_unlock k = do {
       (sw, k) \<leftarrow> (if pend a \<noteq> [] then up_release_pending k2 else Some (False, k2));
       if sw then Some (None, k) else do { k \<leftarrow> unlock_timeslice ?c k; Some (Some OK, k) } }"
      using 1(1) t1(1) 2(1) t irq repr_head [OF 2(2), of g_pendingtasks] by (simp add: sched_unlock_def)
    moreover have "unlock_timeslice ?c k2 = Some k2" by (rule unlock_timeslice_same [OF tt(2) ex(1)])
    moreover have "cur (a_merge ?b) = ?c \<Longrightarrow> unlock_timeslice ?c k3 = Some k3"
      by (rule unlock_timeslice_same [OF _ ex(2)]) (use tt(1) rel(2) in simp)
    ultimately show ?thesis using 2(2) 3 rel none by (cases "pend a = []") auto
  qed
qed

section \<open>Priorities\<close>

lemma sys_ok_reprio_running:
  assumes ok: "sys_ok i a" and r: "ready a = p # q # xs" and n: "pr a q < n"
  shows "sys_ok i (a_upd p (\<lambda>t. t\<lparr>sched_priority := n\<rparr>) a)"
proof -
  have o: "lists_ok i a" "sem_ok a" "pend_ok a" using ok by (simp_all add: sys_ok_def)
  have tp: "tk a p \<noteq> None" using lists_ok_curD(2) [OF o(1)] r by simp
  have "locked (a_upd p (\<lambda>t. t\<lparr>sched_priority := n\<rparr>) a) = locked a" using tp by (auto simp: locked_def)
  then show ?thesis using o lists_ok_reprio_running [OF o(1) r n] sem_ok_upd [OF o(2) tp, of "\<lambda>t. t\<lparr>sched_priority := n\<rparr>"]
    by (simp add: sys_ok_def pend_ok_def waits_def)
qed

text \<open>A blocked task gets its new place in the list it waits in.\<close>

definition a_requeue :: "nat \<Rightarrow> u8 \<Rightarrow> 'c sys \<Rightarrow> 'c sys" where
  "a_requeue p n a =
     (let b = a_upd p (\<lambda>t. t\<lparr>sched_priority := n\<rparr>) a; l = the (TLIST_HEAD (st a p)) in
      if TLIST_ISPRIORITIZED (st a p) then a_set l (ins (pr b) p (remove1 p (qs a l))) b else b)"

lemma prioritized_unordered: "TLIST_HEAD s = Some l \<Longrightarrow> TLIST_ISPRIORITIZED s \<longleftrightarrow> l \<notin> unordered"
  by (cases s) (auto simp: unordered_def)

lemma lists_ok_requeue:
  assumes ok: "lists_ok i a" and p: "tk a p \<noteq> None" "TLIST_HEAD (st a p) \<noteq> Some g_readytorun" "n \<noteq> 0"
  shows "lists_ok i (a_requeue p n a)" "pr (a_requeue p n a) = (pr a)(p := n)" "ready (a_requeue p n a) = ready a"
    "set (qs (a_requeue p n a) l) = set (qs a l)"
proof -
  let ?b = "a_upd p (\<lambda>t. t\<lparr>sched_priority := n\<rparr>) a" and ?c = "a_requeue p n a"
  have L: "listed a" "running_ok a" "ordered a" "idle_ok i a" using ok by (simp_all add: lists_ok_def)
  have S: "st ?c = st a" and d: "tk ?c x = None \<longleftrightarrow> tk a x = None" for x
    using p(1) by (auto simp: a_requeue_def Let_def st_def fun_eq_iff)
  show P: "pr ?c = (pr a)(p := n)" using p(1) by (auto simp: a_requeue_def Let_def)
  have f: "remove1 p (qs a l) = filter (\<lambda>x. p \<noteq> x) (qs a l)" for l by (rule remove1_filter [OF listed_distinct [OF L(1)]])
  have Q: "qs ?c l = (if TLIST_HEAD (st a p) = Some l \<and> l \<notin> unordered then ins (pr ?c) p (filter (\<lambda>x. p \<noteq> x) (qs a l)) else qs a l)" for l
    using p(1) prioritized_unordered [of "st a p"] f by (cases "TLIST_HEAD (st a p)") (auto simp: a_requeue_def Let_def TLIST_none)
  show R: "ready ?c = ready a" using p(2) by (simp add: Q)
  have sets: "set (qs ?c l) = set (qs a l)" "distinct (qs ?c l)" for l
    using L(1) p(1) by (auto simp: Q listed_st)
  then show "set (qs ?c l) = set (qs a l)" by blast
  have out: "p \<notin> set (qs a l)" if "TLIST_HEAD (st a p) \<noteq> Some l" for l using that L(1) p(1) by (auto simp: listed_st)
  have srt: "prio_sorted (pr ?c) (filter (\<lambda>x. p \<noteq> x) (qs a l))" if "l \<notin> unordered" for l
    using sorted_cong [of "filter (\<lambda>x. p \<noteq> x) (qs a l)" "pr ?c" "pr a"] P L(3) that by (simp add: ordered_def sorted_wrt_filter)
  have "prio_sorted (pr ?c) (qs ?c l)" if "l \<notin> unordered" for l
  proof (cases "TLIST_HEAD (st a p) = Some l")
    case True
    then show ?thesis using Q [of l] srt [OF that] that by simp
  next
    case False
    then have "filter (\<lambda>x. p \<noteq> x) (qs a l) = qs a l" using out [OF False] by (auto intro!: filter_True)
    then show ?thesis using Q [of l] srt [OF that] False by simp
  qed
  then have "ordered ?c" by (simp add: ordered_def)
  moreover have "listed ?c" using L(1) unfolding listed_st S d sets(1) using sets(2) by auto
  moreover have "running_ok ?c" using L(2) unfolding running_st S d R by auto
  moreover have "p \<noteq> i" using out [OF p(2)] lists_ok_idle(1) [OF ok] by blast
  then have "idle_ok i ?c" using L(4) p(3) unfolding idle_pr P d R by auto
  ultimately show "lists_ok i ?c" by (simp add: lists_ok_def)
qed


lemma sem_ok_perm:
  assumes ok: "sem_ok a" "listed a" "listed b" and k: "kept waitsem a b" and s: "set (qs b g_waitingforsemaphore) = set (qs a g_waitingforsemaphore)"
  shows "sem_ok b"
proof -
  have w: "waits b p = waits a p" if "tk a p \<noteq> None" for p by (rule kept_waits [OF k that])
  have d: "tk b p \<noteq> None \<longleftrightarrow> tk a p \<noteq> None" "sm b = sm a" for p using keptD(2) [OF k] k by (auto simp: kept_def)
  have "set (waiters b x) = set (waiters a x)" for x using s w listed_tk [OF ok(2)] by (auto simp: waiters_def)
  moreover have "distinct (waiters b x)" "distinct (waiters a x)" for x using ok(2,3) by (simp_all add: waiters_def listed_def)
  ultimately have "length (waiters b x) = length (waiters a x)" for x by (metis distinct_card)
  moreover have "\<forall>p \<in> set (qs a g_waitingforsemaphore). waits b p = waits a p" using w listed_tk [OF ok(2)] by blast
  ultimately show ?thesis using ok(1) s w unfolding sem_ok_def d by auto
qed

lemma sys_ok_requeue:
  assumes ok: "sys_ok i a" and p: "tk a p \<noteq> None" "TLIST_HEAD (st a p) \<noteq> Some g_readytorun" "n \<noteq> 0"
  shows "sys_ok i (a_requeue p n a)"
proof -
  have o: "lists_ok i a" "sem_ok a" "pend_ok a" "listed a" using ok by (simp_all add: sys_ok_def lists_ok_def)
  note q = lists_ok_requeue [OF o(1) p]
  have k: "kept g a (a_requeue p n a)" if "\<And>t n. g (t\<lparr>sched_priority := n\<rparr>) = g t" for g :: "'a tcb_s \<Rightarrow> 'x"
    by (simp add: a_requeue_def Let_def kept_upd that)
  have "locked (a_requeue p n a) = locked a" by (rule locked_kept [OF k]) (use q(3) lists_ok_curD(2) [OF o(1)] in simp_all)
  moreover have "pend (a_requeue p n a) = [] \<longleftrightarrow> pend a = []" using q(4) [of g_pendingtasks] by (metis set_empty)
  ultimately have "pend_ok (a_requeue p n a)" using o(3) by (simp add: pend_ok_def)
  moreover have "sem_ok (a_requeue p n a)" by (rule sem_ok_perm [OF o(2,4) _ k]) (use q in \<open>simp_all add: lists_ok_def\<close>)
  ultimately show ?thesis using q(1) by (simp add: sys_ok_def)
qed

lemma a_set_upd: "a_set l xs (a_upd p f a) = a_upd p f (a_set l xs a)"
  by (simp add: a_set_def a_upd_def)

lemma nxsched_blocked_setpriority_ok:
  assumes ok: "lists_ok i a" and r: "repr k a" and p: "tk a p \<noteq> None"
  shows "\<exists>k'. nxsched_blocked_setpriority p n k = Some k' \<and> repr k' (a_requeue p (word_of_int n) a)"
proof -
  let ?f = "\<lambda>t. t\<lparr>sched_priority := word_of_int n\<rparr>"
  have L: "listed a" using ok by (simp add: lists_ok_def)
  obtain t where t: "tcbs k p = Some t" "tk a p = Some (strip t)" using repr_get [OF r p] by blast
  then have st: "st a p = task_state t" by (simp add: st_def)
  show ?thesis
  proof (cases "TLIST_ISPRIORITIZED (st a p)")
    case False
    then show ?thesis using upd_tcb_ok [OF r p, of ?f] t st by (auto simp: nxsched_blocked_setpriority_def a_requeue_def Let_def)
  next
    case True
    then obtain l where l: "TLIST_HEAD (st a p) = Some l" by (cases "st a p") auto
    then have pl: "p \<in> set (qs a l)" using L p by (auto simp: listed_st)
    obtain k1 where 1: "on_list l (dq_rem p) k = Some k1" "repr k1 (a_del l p a)"
      using on_list_rem_ok [OF r listed_disjoint [OF L] pl] by auto
    obtain k2 where 2: "upd_tcb p ?f k1 = Some k2" "repr k2 (a_upd p ?f (a_del l p a))"
      using upd_tcb_ok [OF 1(2), of p ?f] p by auto
    let ?b = "a_upd p ?f (a_del l p a)"
    have "\<exists>k'. add_to l p k2 = Some (hd (ins (pr ?b) p (qs ?b l)) = p, k') \<and> repr k' (a_add l p ?b)"
    proof (rule add_to_free [OF 2(2)])
      show "set (qs ?b l') \<inter> set (qs ?b l) = {}" if "l' \<noteq> l" for l'
        using listed_disjoint [OF L that] set_remove1_subset [of p "qs a l"] that by auto
      show "tk ?b x \<noteq> None" if "x \<in> set (qs ?b l)" for x
        using that listed_tk [OF L, of x l] set_remove1_subset [of p "qs a l"] by auto
      show "p \<notin> set (qs ?b l')" for l'
        using listed_distinct [OF L, of l] listed_disjoint [OF L, of l' l] pl by (cases "l' = l") auto
    qed (use p in simp)
    moreover have "a_add l p ?b = a_requeue p (word_of_int n) a" using True l p by (simp add: a_requeue_def Let_def a_set_upd)
    ultimately show ?thesis using 1(1) 2(1) t(1) True l st by (auto simp: nxsched_blocked_setpriority_def)
  qed
qed

definition a_setprio :: "nat \<Rightarrow> u8 \<Rightarrow> 'c sys \<Rightarrow> 'c sys" where
  "a_setprio p n a =
     (if st a p = TSTATE_TASK_RUNNING
      then if n \<le> pr a (hd (tl (ready a))) then a_reprio p n a else a_upd p (\<lambda>t. t\<lparr>sched_priority := n\<rparr>) a
      else if st a p = TSTATE_TASK_READYTORUN then a_reprio p n a else a_requeue p n a)"

lemma lists_ok_second:
  assumes "lists_ok i a" "cur a \<noteq> i"
  obtains q xs where "ready a = cur a # q # xs" "tk a q \<noteq> None"
proof -
  note c = lists_ok_curD [OF assms(1)]
  have r: "ready a = cur a # tl (ready a)" using c(1) by simp
  moreover have "tl (ready a) \<noteq> []" using lists_ok_idle(1) [OF assms(1)] assms(2) r by (metis empty_iff empty_set set_ConsD)
  ultimately obtain q xs where q: "ready a = cur a # q # xs" by (metis neq_Nil_conv)
  moreover have "q \<in> set (ready a)" by (subst q) simp
  then have "tk a q \<noteq> None" by (rule listed_tk [OF c(4)])
  ultimately show thesis using that by blast
qed

lemma u8_of_int: "0 \<le> n \<Longrightarrow> n \<le> 255 \<Longrightarrow> uint (word_of_int n :: u8) = n"
  by (simp add: uint_word_of_int_eq take_bit_int_eq_self)

lemma nxsched_setpriority_ok:
  assumes ok: "sys_ok i a" and r: "repr k a" and p: "tk a p \<noteq> None" "p \<noteq> i" and n: "1 \<le> n" "n \<le> 255"
    and g: "\<not> (st a p = TSTATE_TASK_READYTORUN \<and> n \<le> uint (pr a (cur a)))"
  shows "\<exists>k'. nxsched_setpriority p n k = Some (OK, k') \<and> repr k' (a_setprio p (word_of_int n) a) \<and> sys_ok i (a_setprio p (word_of_int n) a)"
proof -
  let ?n = "word_of_int n :: u8"
  have o: "lists_ok i a" "listed a" using ok by (simp_all add: sys_ok_def lists_ok_def)
  note c = lists_ok_curD [OF o(1)]
  have u: "uint ?n = n" using n by (simp add: u8_of_int)
  then have n0: "?n \<noteq> 0" using n(1) by auto
  obtain t where t: "tcbs k p = Some t" "tk a p = Some (strip t)" using repr_get [OF r p(1)] by blast
  then have st: "st a p = task_state t" by (simp add: st_def)
  have tt: "this_task k = Some (cur a)" by (rule repr_this_task [OF r c(1)])
  consider (run) "st a p = TSTATE_TASK_RUNNING" | (rdy) "st a p = TSTATE_TASK_READYTORUN" | (blk) "TLIST_HEAD (st a p) \<noteq> Some g_readytorun"
    using TLIST_ready [of "st a p"] by blast
  then show ?thesis
  proof cases
    case run
    then have pc: "p = cur a" using o(1) p(1) by (simp add: lists_ok_def running_st)
    then obtain q xs where q: "ready a = p # q # xs" "tk a q \<noteq> None" using lists_ok_second [OF o(1)] p(2) by metis
    obtain t' where t': "tcbs k p = Some t'" "flink t' = (if q # xs = [] then None else Some (hd (q # xs)))"
      by (rule repr_at [OF r, of g_readytorun "[]" p "q # xs"]) (use q in auto)
    obtain tq where tq: "tcbs k q = Some tq" "sched_priority tq = pr a q" using repr_get [OF r q(2)] by (auto simp: pr_def)
    have le: "n \<le> uint (sched_priority tq) \<longleftrightarrow> ?n \<le> pr a q" using u tq(2) by (simp add: word_le_def)
    have pin: "p \<in> set (ready a)" using q(1) by simp
    obtain k1 where 1: "up_reprioritize_rtr p ?n k = Some k1" "repr k1 (a_reprio p ?n a)" "sys_ok i (a_reprio p ?n a)"
      using sys_ok_reprio [OF ok pin p(2) n0 r] by blast
    obtain k2 where 2: "upd_tcb p (\<lambda>t. t\<lparr>sched_priority := ?n\<rparr>) k = Some k2" "repr k2 (a_upd p (\<lambda>t. t\<lparr>sched_priority := ?n\<rparr>) a)"
      using upd_tcb_ok [OF r p(1), of "\<lambda>t. t\<lparr>sched_priority := ?n\<rparr>"] by auto
    show ?thesis using run st t t' tq(1) le 1 2 sys_ok_reprio_running [OF ok q(1), of ?n] n q(1)
      by (auto simp: nxsched_setpriority_def nxsched_running_setpriority_def a_setprio_def)
  next
    case rdy
    then have pin: "p \<in> set (ready a)" using o(2) p(1) by (simp add: listed_st)
    obtain tc where "tcbs k (cur a) = Some tc" "sched_priority tc = pr a (cur a)" using repr_get [OF r c(2)] by (auto simp: pr_def)
    then show ?thesis using sys_ok_reprio [OF ok pin p(2) n0 r] rdy st t(1) tt g n
      by (auto simp: nxsched_setpriority_def nxsched_readytorun_setpriority_def a_setprio_def)
  next
    case blk
    then have "nxsched_setpriority p n k = map_option (\<lambda>k. (OK, k)) (nxsched_blocked_setpriority p n k)"
      using st t(1) n by (cases "task_state t") (auto simp: nxsched_setpriority_def map_option_case split: option.splits)
    moreover have "a_setprio p ?n a = a_requeue p ?n a" using blk by (auto simp: a_setprio_def)
    ultimately show ?thesis using nxsched_blocked_setpriority_ok [OF o(1) r p(1), of n] sys_ok_requeue [OF ok p(1) blk n0] by auto
  qed
qed

section \<open>Yielding and time slices\<close>

definition a_yield :: "'c sys \<Rightarrow> 'c sys" where
  "a_yield a = a_setprio (cur a) (pr a (cur a)) a"

lemma sched_yield_ok:
  assumes ok: "sys_ok i a" and r: "repr k a"
  shows "cur a = i \<Longrightarrow> sched_yield k = Some (ERROR, k)"
    "cur a \<noteq> i \<Longrightarrow> \<exists>k'. sched_yield k = Some (OK, k') \<and> repr k' (a_yield a) \<and> sys_ok i (a_yield a)"
proof -
  have o: "lists_ok i a" using ok by (simp add: sys_ok_def)
  note c = lists_ok_curD [OF o]
  obtain t where t: "tcbs k (cur a) = Some t" "sched_priority t = pr a (cur a)" using repr_get [OF r c(2)] by (auto simp: pr_def)
  have tt: "this_task k = Some (cur a)" by (rule repr_this_task [OF r c(1)])
  show "sched_yield k = Some (ERROR, k)" if "cur a = i"
    using that lists_ok_idle(2) [OF o] t tt by (auto simp: sched_yield_def nxsched_setpriority_def)
  assume i: "cur a \<noteq> i"
  then have "pr a (cur a) \<noteq> 0" using o c(2) by (auto simp: lists_ok_def idle_pr)
  then have "uint (pr a (cur a)) \<noteq> 0" "uint (pr a (cur a)) < 256" using uint_bounded [of "pr a (cur a)"] by (simp_all add: uint_0_iff)
  then have "1 \<le> uint (pr a (cur a))" "uint (pr a (cur a)) \<le> 255" using uint_ge_0 [of "pr a (cur a)"] by linarith+
  from nxsched_setpriority_ok [OF ok r c(2) i this] c(3) show "\<exists>k'. sched_yield k = Some (OK, k') \<and> repr k' (a_yield a) \<and> sys_ok i (a_yield a)"
    using t tt by (auto simp: sched_yield_def a_yield_def)
qed

text \<open>The running task goes behind the others of its priority.\<close>

definition a_rotate :: "'c sys \<Rightarrow> 'c sys" where
  "a_rotate a =
     (if tl (ready a) \<noteq> [] \<and> pr a (cur a) \<le> pr a (hd (tl (ready a))) then a_reprio (cur a) (pr a (cur a)) a else a)"

definition a_tick :: "'c sys \<Rightarrow> 'c sys" where
  "a_tick a = (let c = cur a; t = the (tk a c); n = timeslice t - min (timeslice t mod 2 ^ 32) 1 in
     if \<not> sched_rr t then a
     else if n \<le> 0 \<and> \<not> locked a then a_rotate (a_upd c (\<lambda>t. t\<lparr>timeslice := RR_TICKS\<rparr>) a)
     else a_upd c (\<lambda>t. t\<lparr>timeslice := n\<rparr>) a)"

lemma rotate_ok:
  assumes ok: "sys_ok i a" and r: "repr k a"
  shows "\<exists>k'. (case (if tl (ready a) = [] then None else Some (hd (tl (ready a)))) of None \<Rightarrow> Some k
     | Some n \<Rightarrow> do { nxt \<leftarrow> tcbs k n; if pr a (cur a) \<le> sched_priority nxt then up_reprioritize_rtr (cur a) (pr a (cur a)) k else Some k }) =
       Some k' \<and> repr k' (a_rotate a) \<and> sys_ok i (a_rotate a)"
proof (cases "tl (ready a)")
  case Nil
  then show ?thesis using ok r by (simp add: a_rotate_def)
next
  case (Cons n ns)
  have o: "lists_ok i a" using ok by (simp add: sys_ok_def)
  note c = lists_ok_curD [OF o]
  have i: "cur a \<noteq> i" using lists_ok_idle(4) [OF o] Cons by (metis list.distinct(1) list.sel(3))
  have "n \<in> set (ready a)" using Cons by (metis c(1) list.set_intros(1) list.set_sel(2))
  then have "tk a n \<noteq> None" by (rule listed_tk [OF c(4)])
  then obtain tn where tn: "tcbs k n = Some tn" "sched_priority tn = pr a n"
    using repr_get [OF r, of n] by (auto simp: pr_def)
  have p0: "pr a (cur a) \<noteq> 0" using o c(2) i by (auto simp: lists_ok_def idle_pr)
  show ?thesis using sys_ok_reprio [OF ok c(5) i p0 r] tn Cons ok r by (auto simp: a_rotate_def)
qed

lemma nxsched_cpu_scheduler_ok:
  assumes ok: "sys_ok i a" and r: "repr k a"
  shows "\<exists>k'. nxsched_cpu_scheduler k = Some k' \<and> repr k' (a_tick a) \<and> sys_ok i (a_tick a)"
proof -
  have o: "lists_ok i a" using ok by (simp add: sys_ok_def)
  note c = lists_ok_curD [OF o]
  let ?c = "cur a"
  obtain t where t: "tcbs k ?c = Some t" "tk a ?c = Some (strip t)" using repr_get [OF r c(2)] by blast
  have tt: "this_task k = Some ?c" by (rule repr_this_task [OF r c(1)])
  show ?thesis
  proof (cases "sched_rr t")
    case False
    then show ?thesis using t tt ok r by (auto simp: nxsched_cpu_scheduler_def a_tick_def Let_def)
  next
    case True
    let ?f = "\<lambda>t. t\<lparr>timeslice := timeslice t - min (timeslice t mod 2 ^ 32) (int 1)\<rparr>" and ?g = "\<lambda>t. t\<lparr>timeslice := RR_TICKS\<rparr>"
    let ?b = "a_upd ?c ?f a" and ?d = "a_upd ?c ?g a"
    have "\<exists>k'. upd_tcb ?c ?f k = Some k' \<and> repr k' ?b" by (rule upd_tcb_ok [OF r c(2)]) simp_all
    then obtain k1 where 1: "upd_tcb ?c ?f k = Some k1" "repr k1 ?b" by blast
    have okb: "sys_ok i ?b" "sys_ok i ?d" by (rule sys_ok_upd [OF ok c(2)]; simp add: waits_def)+
    have "ready ?b = [] @ ?c # tl (ready a)" using c(1) by simp
    from repr_at [OF 1(2) this] obtain t1 where t1: "tcbs k1 ?c = Some t1" "tk ?b ?c = Some (strip t1)"
      "flink t1 = (if tl (ready a) = [] then None else Some (hd (tl (ready a))))" by blast
    have eq: "strip t1 = ?f (strip t)" using t1(2) t(2) by simp
    have "timeslice (strip t1) = timeslice t - min (timeslice t mod 2 ^ 32) 1" "lockcount (strip t1) = lockcount t"
      "sched_priority (strip t1) = sched_priority t" unfolding eq by simp_all
    then have t1f: "timeslice t1 = timeslice t - min (timeslice t mod 2 ^ 32) 1" "lockcount t1 = lockcount t"
      "sched_priority t1 = sched_priority t" by simp_all
    have lk: "locked a \<longleftrightarrow> 0 < sint (lockcount t)" "pr a ?c = sched_priority t" using t by (auto simp: locked_def pr_def)
    show ?thesis
    proof (cases "timeslice t1 \<le> 0 \<and> \<not> locked a")
      case False
      then have "a_tick a = ?b" using True t t1f lk by (auto simp: a_tick_def Let_def a_upd_def)
      then show ?thesis using False True t t1 t1f lk 1 tt okb
        by (auto simp: nxsched_cpu_scheduler_def sched_roundrobin_process_def)
    next
      case expired: True
      have "a_upd ?c ?g ?b = ?d" using t by (simp add: a_upd_def)
      then obtain k2 where 2: "upd_tcb ?c ?g k1 = Some k2" "repr k2 ?d" using upd_tcb_ok [OF 1(2), of ?c ?g] c(2) by auto
      have e: "nxsched_cpu_scheduler k = (case flink t1 of None \<Rightarrow> Some k2
          | Some n \<Rightarrow> do { nxt \<leftarrow> tcbs k2 n; if pr a ?c \<le> sched_priority nxt then up_reprioritize_rtr ?c (pr a ?c) k2 else Some k2 })"
        using True t(1) t1(1) t1f lk 1(1) 2(1) tt expired
        by (auto simp: nxsched_cpu_scheduler_def sched_roundrobin_process_def map_option_case split: option.splits bind_splits)
      have d: "pr ?d = pr a" "qs ?d = qs a" using c(2) by (auto simp: pr_def fun_eq_iff)
      have "\<exists>k'. nxsched_cpu_scheduler k = Some k' \<and> repr k' (a_rotate ?d) \<and> sys_ok i (a_rotate ?d)"
        using rotate_ok [OF okb(2) 2(2)] unfolding e t1(3) d by blast
      moreover have "a_tick a = a_rotate ?d" using True t(2) t1f(1) expired by (simp add: a_tick_def Let_def)
      ultimately show ?thesis by simp
    qed
  qed
qed

end
