(* ===== verification/Sched_Laws.thy ===== *)
theory Sched_Laws
  imports Sched_Calls
begin

text \<open>
  The kernel as a transition system, and what holds in every state that it can reach.
\<close>

section \<open>The kernel as a transition system\<close>

text \<open>The calls of the running task and of interrupt handlers, and the computation of the running task itself.\<close>

datatype 'c event =
    Lock | Unlock
  | Wait nat | WaitDone int | Trywait nat | Post nat | Interrupted nat int
  | Block tstate | Unblock nat
  | Setpriority nat int | Yield | Tick
  | EnterIrq | LeaveIrq | Compute 'c

fun kdo :: "'c event \<Rightarrow> 'c kernel \<Rightarrow> 'c kernel option" where
  "kdo Lock k = map_option snd (sched_lock k)"
| "kdo Unlock k = map_option snd (sched_unlock k)"
| "kdo (Wait s) k = map_option snd (sem_wait_call s k)"
| "kdo (WaitDone e) k = map_option snd (sem_wait_resume e k)"
| "kdo (Trywait s) k = map_option snd (sem_trywait_call s k)"
| "kdo (Post s) k = map_option snd (sem_post_call s k)"
| "kdo (Interrupted p e) k = nxsem_wait_irq p e k"
| "kdo (Block s) k = do { r \<leftarrow> this_task k; up_block_task r s k }"
| "kdo (Unblock p) k = up_unblock_task p k"
| "kdo (Setpriority p n) k = map_option snd (nxsched_setpriority p n k)"
| "kdo Yield k = map_option snd (sched_yield k)"
| "kdo Tick k = nxsched_cpu_scheduler k"
| "kdo EnterIrq k = Some (k\<lparr>in_irq := True\<rparr>)"
| "kdo LeaveIrq k = Some (k\<lparr>in_irq := False\<rparr>)"
| "kdo (Compute c) k = Some (k\<lparr>cpu := c\<rparr>)"

definition running :: "'c kernel \<Rightarrow> 'c tcb_s" where
  "running k = the (tcbs k (the (this_task k)))"

text \<open>What the callers have to respect: the idle task never waits, counters stay in their 16 bit ranges, tasks and
  semaphores exist, and a task that is ready but does not run is not given a priority up to that of the running task.
  The last condition leaves out calls that the code accepts but handles wrongly: it writes the new priority without
  moving the task, which breaks the order of the list (\<^verbatim>\<open>setpriority_breaks_order\<close>).\<close>

fun allowed :: "nat \<Rightarrow> 'c event \<Rightarrow> 'c kernel \<Rightarrow> bool" where
  "allowed i Lock k \<longleftrightarrow> sint (lockcount (running k)) < 2 ^ 15 - 1"
| "allowed i (Wait s) k \<longleftrightarrow> this_task k \<noteq> Some i \<and> (case sems k s of None \<Rightarrow> False | Some n \<Rightarrow> - (2 ^ 15) < n)"
| "allowed i (Trywait s) k \<longleftrightarrow> sems k s \<noteq> None"
| "allowed i (Post s) k \<longleftrightarrow> (case sems k s of None \<Rightarrow> False | Some n \<Rightarrow> n < 2 ^ 15 - 1)"
| "allowed i (Interrupted p e) k \<longleftrightarrow> tcbs k p \<noteq> None"
| "allowed i (Block s) k \<longleftrightarrow> this_task k \<noteq> Some i \<and>
     s \<in> {TSTATE_TASK_INACTIVE, TSTATE_WAIT_SIG, TSTATE_WAIT_MQNOTEMPTY, TSTATE_WAIT_MQNOTFULL}"
| "allowed i (Unblock p) k \<longleftrightarrow> (case tcbs k p of None \<Rightarrow> False
     | Some t \<Rightarrow> task_state t \<in> {TSTATE_TASK_INACTIVE, TSTATE_WAIT_SIG, TSTATE_WAIT_MQNOTEMPTY, TSTATE_WAIT_MQNOTFULL})"
| "allowed i (Setpriority p n) k \<longleftrightarrow> p \<noteq> i \<and> (case tcbs k p of None \<Rightarrow> False
     | Some t \<Rightarrow> \<not> (task_state t = TSTATE_TASK_READYTORUN \<and> n \<le> uint (sched_priority (running k))))"
| "allowed i _ k \<longleftrightarrow> True"

inductive reachable :: "nat \<Rightarrow> 'c kernel \<Rightarrow> 'c kernel \<Rightarrow> bool" for i k0 where
  start: "reachable i k0 k0"
| step: "reachable i k0 k \<Longrightarrow> allowed i e k \<Longrightarrow> kdo e k = Some k' \<Longrightarrow> reachable i k0 k'"

lemma repr_running:
  assumes "repr k a" "lists_ok i a"
  obtains t where "this_task k = Some (cur a)" "tcbs k (cur a) = Some t" "tk a (cur a) = Some (strip t)" "running k = t"
proof -
  note c = lists_ok_curD [OF assms(2)]
  have "this_task k = Some (cur a)" by (rule repr_this_task [OF assms(1) c(1)])
  moreover obtain t where "tcbs k (cur a) = Some t" "tk a (cur a) = Some (strip t)" using repr_get [OF assms(1) c(2)] by blast
  ultimately show thesis using that by (simp add: running_def)
qed

lemma kdo_ok_sem:
  assumes r: "repr k a" and ok: "sys_ok i a" and al: "allowed i e k"
    and e: "e \<in> {Wait s, WaitDone n, Trywait s, Post s, Interrupted p n}"
  shows "\<exists>k' b. kdo e k = Some k' \<and> repr k' b \<and> sys_ok i b"
proof -
  have o: "lists_ok i a" using ok by (simp add: sys_ok_def)
  obtain t where t: "this_task k = Some (cur a)" "tcbs k (cur a) = Some t" "tk a (cur a) = Some (strip t)" "running k = t"
    by (rule repr_running [OF r o])
  consider "e = Wait s" | "e = WaitDone n" | "e = Trywait s" | "e = Post s" | "e = Interrupted p n" using e by blast
  then show ?thesis
  proof cases
    case 1
    then obtain m where m: "sems k s = Some m" "- (2 ^ 15) < m" "cur a \<noteq> i" using al t(1) by (auto split: option.splits)
    show ?thesis
    proof (cases "0 < m")
      case True
      then show ?thesis using take_semaphore(1,2) [OF ok r m(1) True] 1 t(1) m by (auto simp: sem_wait_call_def)
    next
      case False
      then show ?thesis using block_on_semaphore(1,2) [OF ok r m(1) _ m(2,3)] 1 by fastforce
    qed
  next
    case 2
    let ?f = "\<lambda>t. t\<lparr>pterrno := n\<rparr>"
    have "sys_ok i (a_upd (cur a) ?f a)" by (rule sys_ok_upd [OF ok]) (use t in \<open>simp_all add: waits_def\<close>)
    moreover obtain k' where "upd_tcb (cur a) ?f k = Some k'" "repr k' (a_upd (cur a) ?f a)"
      using upd_tcb_ok [OF r, of "cur a" ?f] t(3) by auto
    ultimately show ?thesis using 2 t by (auto simp: sem_wait_resume_def)
  next
    case 3
    then show ?thesis using sem_trywait_ok [OF ok r] al by fastforce
  next
    case 4
    then show ?thesis using sem_post_ok [OF ok r] al by (fastforce split: option.splits)
  next
    case 5
    then show ?thesis using nxsem_wait_irq_ok [OF ok r] al repr_tcb_None [OF r] by auto
  qed
qed

lemma kdo_ok_sched:
  assumes r: "repr k a" and ok: "sys_ok i a" and al: "allowed i e k"
    and e: "e \<in> {Lock, Unlock, Block s, Unblock p, Setpriority p n, Yield, Tick}"
  shows "\<exists>k' b. kdo e k = Some k' \<and> repr k' b \<and> sys_ok i b"
proof -
  have o: "lists_ok i a" using ok by (simp add: sys_ok_def)
  obtain t where t: "this_task k = Some (cur a)" "tcbs k (cur a) = Some t" "tk a (cur a) = Some (strip t)" "running k = t"
    by (rule repr_running [OF r o])
  consider "e = Lock" | "e = Unlock" | "e = Block s" | "e = Unblock p" | "e = Setpriority p n" | "e = Yield" | "e = Tick" using e by blast
  then show ?thesis
  proof cases
    case 1
    then show ?thesis using sched_lock_ok(1) [OF ok r] sched_lock_irq [of k] al t ok r by (cases "in_irq k") (auto; blast)+
  next
    case 2
    then show ?thesis using sched_unlock_ok [OF ok r] sched_unlock_irq [of k] ok r by (cases "in_irq k") (auto; blast)+
  next
    case 3
    then have "TLIST_HEAD s \<in> Some ` {g_inactivetasks, g_waitingforsignal, g_waitingformqnotempty, g_waitingformqnotfull}" "cur a \<noteq> i"
      using al t(1) by auto
    then show ?thesis using sys_ok_block [OF ok _ _ _ r, of s] 3 t(1) by (auto; blast)
  next
    case 4
    then obtain u where "tcbs k p = Some u" "TLIST_HEAD (task_state u) \<in> Some ` {g_inactivetasks, g_waitingforsignal, g_waitingformqnotempty, g_waitingformqnotfull}"
      using al by (auto split: option.splits)
    moreover from this have "tk a p \<noteq> None" "st a p = task_state u" using r by (auto simp: repr_def view_def st_def)
    ultimately show ?thesis using sys_ok_unblock [OF ok _ _ _ r, of p] 4 by (auto; blast)
  next
    case 5
    then obtain u where u: "tcbs k p = Some u" "p \<noteq> i" "\<not> (task_state u = TSTATE_TASK_READYTORUN \<and> n \<le> uint (sched_priority t))"
      using al t(4) by (auto split: option.splits)
    then have "tk a p \<noteq> None" "st a p = task_state u" "pr a (cur a) = sched_priority t" using r t(3) by (auto simp: repr_def view_def st_def pr_def)
    then show ?thesis using nxsched_setpriority_ok [OF ok r, of p n] u 5 ok r
      by (cases "1 \<le> n \<and> n \<le> 255") (auto simp: nxsched_setpriority_def; blast)+
  next
    case 6
    then show ?thesis using sched_yield_ok [OF ok r] ok r by (cases "cur a = i") (auto; blast)+
  next
    case 7
    then show ?thesis using nxsched_cpu_scheduler_ok [OF ok r] by (auto; blast)
  qed
qed

lemma kdo_ok:
  assumes "kernel_ok i k" "allowed i e k"
  shows "\<exists>k'. kdo e k = Some k' \<and> kernel_ok i k'"
proof -
  obtain a where a: "repr k a" "sys_ok i a" using assms(1) by (auto simp: kernel_ok_def)
  have other: "sys_ok i (a\<lparr>irq := b\<rparr>)" "sys_ok i (a\<lparr>ctx := c\<rparr>)" "repr (k\<lparr>in_irq := b\<rparr>) (a\<lparr>irq := b\<rparr>)" "repr (k\<lparr>cpu := c\<rparr>) (a\<lparr>ctx := c\<rparr>)" for b c
    using a by (simp_all add: sys_ok_def pend_ok_def locked_def sem_ok_def waiters_def waits_def repr_def)
  show ?thesis
  proof (cases e)
    case (Compute c)
    then show ?thesis using other unfolding kernel_ok_def by (auto; blast)
  next
    case EnterIrq
    then show ?thesis using other unfolding kernel_ok_def by (auto; blast)
  next
    case LeaveIrq
    then show ?thesis using other unfolding kernel_ok_def by (auto; blast)
  qed (use kdo_ok_sem [OF a assms(2)] kdo_ok_sched [OF a assms(2)] in \<open>unfold kernel_ok_def, blast+\<close>)
qed

text \<open>C7: The kernel never does anything undefined, and its task lists stay in order.  From a kernel whose lists are
  in order, whatever calls the tasks and interrupt handlers make, every allowed call is defined and leads to a
  kernel whose lists are in order: linked consistently, sorted by priority, one running task, as many tasks waiting
  for a semaphore as its count says.\<close>

theorem scheduler_invariant:
  assumes "reachable i k0 k" "kernel_ok i k0"
  shows "kernel_ok i k \<and> (\<forall>e. allowed i e k \<longrightarrow> (\<exists>k'. kdo e k = Some k'))"
  using assms
proof (induction rule: reachable.induct)
  case start
  then show ?case using kdo_ok by blast
next
  case (step k e k')
  then show ?case using kdo_ok [of i k e] kdo_ok [of i k'] by auto
qed

section \<open>An example kernel\<close>

text \<open>Tasks 1 and 2 with priority 100 are ready, task 3 with priority 120 waits for semaphore 8, task 0 is idle.\<close>

definition demo_task :: "u8 \<Rightarrow> tstate \<Rightarrow> nat option \<Rightarrow> nat option \<Rightarrow> nat option \<Rightarrow> nat \<Rightarrow> nat tcb_s" where
  "demo_task n s f b w c = \<lparr>flink = f, blink = b, sched_priority = n, task_state = s, sched_rr = True, lockcount = 0,
     timeslice = 1, waitsem = w, pterrno = 0, xcp = c\<rparr>"

definition demo :: "nat kernel" where
  "demo = \<lparr>tcbs = [0 \<mapsto> demo_task 0 TSTATE_TASK_READYTORUN None (Some 2) None 10,
       1 \<mapsto> demo_task 100 TSTATE_TASK_RUNNING (Some 2) None None 11,
       2 \<mapsto> demo_task 100 TSTATE_TASK_READYTORUN (Some 0) (Some 1) None 12,
       3 \<mapsto> demo_task 120 TSTATE_WAIT_SEM None None (Some 8) 13],
     lists = (\<lambda>_. dq_init)(g_readytorun := \<lparr>qhead = Some 1, qtail = Some 0\<rparr>,
       g_waitingforsemaphore := \<lparr>qhead = Some 3, qtail = Some 3\<rparr>),
     sems = [7 \<mapsto> 0, 8 \<mapsto> - 1], in_irq = False, cpu = 21\<rparr>"

definition demo_sys :: "nat sys" where
  "demo_sys = \<lparr>tk = view (tcbs demo), qs = (\<lambda>_. [])(g_readytorun := [1, 2, 0], g_waitingforsemaphore := [3]),
     sm = sems demo, irq = False, ctx = 21\<rparr>"

lemma demo_repr: "repr demo demo_sys"
  by (simp add: repr_def demo_sys_def dqueue_def) (simp add: demo_def demo_task_def dq_init_def)

lemma demo_tk: "tk demo_sys p = (if p = 0 then Some (demo_task 0 TSTATE_TASK_READYTORUN None None None 10)
   else if p = 1 then Some (demo_task 100 TSTATE_TASK_RUNNING None None None 11)
   else if p = 2 then Some (demo_task 100 TSTATE_TASK_READYTORUN None None None 12)
   else if p = 3 then Some (demo_task 120 TSTATE_WAIT_SEM None None (Some 8) 13) else None)"
  by (simp add: demo_sys_def demo_def view_def strip_def demo_task_def)

lemma demo_qs: "qs demo_sys l = (if l = g_readytorun then [1, 2, 0] else if l = g_waitingforsemaphore then [3] else [])"
  by (simp add: demo_sys_def)

lemma demo_task_sel [simp]: "task_state (demo_task n s f b w c) = s" "sched_priority (demo_task n s f b w c) = n"
  "waitsem (demo_task n s f b w c) = w" "lockcount (demo_task n s f b w c) = 0"
  by (simp_all add: demo_task_def)

lemma demo_sys_ok: "sys_ok 0 demo_sys"
proof -
  have "listed demo_sys" by (auto simp: listed_def demo_tk demo_qs split: if_splits)
  moreover have "running_ok demo_sys" by (auto simp: running_ok_def demo_tk demo_qs split: if_splits)
  moreover have "ordered demo_sys" by (auto simp: ordered_def pr_def demo_tk demo_qs)
  moreover have "idle_ok 0 demo_sys" by (auto simp: idle_ok_def demo_tk demo_qs split: if_splits)
  moreover have "pend_ok demo_sys" by (simp add: pend_ok_def demo_qs)
  moreover have "sm demo_sys = [7 \<mapsto> 0, 8 \<mapsto> - 1]" by (simp add: demo_sys_def demo_def)
  then have "sem_ok demo_sys" by (auto simp: sem_ok_def waiters_def waits_def demo_tk demo_qs split: if_splits)
  ultimately show ?thesis by (simp add: sys_ok_def lists_ok_def)
qed

lemma demo_ok: "kernel_ok 0 demo"
  using demo_repr demo_sys_ok by (auto simp: kernel_ok_def)

theorem scheduler_invariant_witness:
  "\<exists>k1 k2. kdo (Wait 7) demo = Some k1 \<and> kdo Tick k1 = Some k2 \<and> kernel_ok 0 k2"
proof -
  have a: "allowed 0 (Wait 7) demo" by (simp add: demo_def this_task_def)
  then obtain k1 where 1: "kdo (Wait 7) demo = Some k1" using scheduler_invariant [OF reachable.start demo_ok] by blast
  note r1 = reachable.step [OF reachable.start a 1]
  have "allowed 0 Tick k1" by simp
  then obtain k2 where 2: "kdo Tick k1 = Some k2" using scheduler_invariant [OF r1 demo_ok] by blast
  have "kernel_ok 0 k2" using scheduler_invariant [OF reachable.step [OF r1 _ 2] demo_ok] by simp
  then show ?thesis using 1 2 by blast
qed


section \<open>Which task runs\<close>

lemma reachable_ok: "reachable i k0 k \<Longrightarrow> kernel_ok i k0 \<Longrightarrow> kernel_ok i k"
  by (induction rule: reachable.induct) (use kdo_ok in fastforce)+

lemma kernel_ok_highest:
  assumes "kernel_ok i k" "this_task k = Some r" "tcbs k r = Some t" "tcbs k p = Some u"
  shows "task_state u \<in> {TSTATE_TASK_READYTORUN, TSTATE_TASK_RUNNING} \<Longrightarrow> sched_priority u \<le> sched_priority t"
    "task_state u = TSTATE_TASK_RUNNING \<longleftrightarrow> p = r" "sint (lockcount t) \<le> 0 \<Longrightarrow> task_state u \<noteq> TSTATE_TASK_PENDING"
proof -
  obtain a where a: "repr k a" "lists_ok i a" "pend_ok a" using assms(1) by (auto simp: kernel_ok_def sys_ok_def)
  note c = lists_ok_curD [OF a(2)]
  have r: "r = cur a" using repr_this_task [OF a(1) c(1)] assms(2) by simp
  have t: "tk a r = Some (strip t)" "tk a p = Some (strip u)" using a(1) assms(3,4) by (simp_all add: repr_def view_def)
  have p: "p \<in> set (qs a l) \<longleftrightarrow> TLIST_HEAD (task_state u) = Some l" for l using c(4) t(2) by (simp add: listed_def)
  have srt: "prio_sorted (pr a) (cur a # tl (ready a))" using a(2) c(1) by (simp add: lists_ok_def ordered_def unordered_def)
  show "sched_priority u \<le> sched_priority t" if "task_state u \<in> {TSTATE_TASK_READYTORUN, TSTATE_TASK_RUNNING}"
  proof -
    have "p \<in> set (ready a)" using p [of g_readytorun] that by auto
    then have "p = cur a \<or> p \<in> set (tl (ready a))" by (cases "ready a") auto
    then have "pr a p \<le> pr a (cur a)" using srt by auto
    then show ?thesis using t r by (simp add: pr_def)
  qed
  have "st a p = task_state u" using t(2) by (simp add: st_def)
  then show "task_state u = TSTATE_TASK_RUNNING \<longleftrightarrow> p = r" using a(2) t(2) r by (auto simp: lists_ok_def running_st)
  show "task_state u \<noteq> TSTATE_TASK_PENDING" if "sint (lockcount t) \<le> 0"
  proof
    assume "task_state u = TSTATE_TASK_PENDING"
    then have "pend a \<noteq> []" using p [of g_pendingtasks] by auto
    then show False using a(3) that t(1) r by (simp add: pend_ok_def locked_def)
  qed
qed

text \<open>C9: The most important task runs.  In every state reached by allowed calls, exactly the task at the head of the
  ready to run list is marked as running, no task that is ready has a higher priority than it, and unless it has locked
  the scheduler no task is held back as pending.  The allowed calls do not include changing the priority of a task that
  is ready but does not run to one that is not above the running task's; after such a call the order may be wrong.\<close>

theorem highest_priority_runs:
  assumes "reachable i k0 k" "kernel_ok i k0" "this_task k = Some r" "tcbs k r = Some t" "tcbs k p = Some u"
  shows "(task_state u \<in> {TSTATE_TASK_READYTORUN, TSTATE_TASK_RUNNING} \<longrightarrow> sched_priority u \<le> sched_priority t) \<and>
    (task_state u = TSTATE_TASK_RUNNING \<longleftrightarrow> p = r) \<and> (sint (lockcount t) \<le> 0 \<longrightarrow> task_state u \<noteq> TSTATE_TASK_PENDING)"
  using kernel_ok_highest [OF reachable_ok [OF assms(1,2)] assms(3-5)] by blast

theorem highest_priority_runs_witness:
  "\<exists>k t u. kdo (Post 8) demo = Some k \<and> this_task k = Some 3 \<and> tcbs k 3 = Some t \<and> tcbs k 1 = Some u \<and>
     task_state u = TSTATE_TASK_READYTORUN \<and> sched_priority u \<le> sched_priority t \<and>
     (\<forall>p v. tcbs k p = Some v \<longrightarrow> task_state v = TSTATE_TASK_RUNNING \<longrightarrow> p = 3)"
proof -
  have al: "allowed 0 (Post 8) demo" by (simp add: demo_def)
  then obtain k where k: "kdo (Post 8) demo = Some k" using kdo_ok [OF demo_ok] by blast
  have "map_option (\<lambda>k. (this_task k, tcbs k 3 = None, map_option task_state (tcbs k 1))) (kdo (Post 8) demo) =
      Some (Some 3, False, Some TSTATE_TASK_READYTORUN)" by code_simp
  then obtain t u where t: "this_task k = Some 3" "tcbs k 3 = Some t" "tcbs k 1 = Some u" "task_state u = TSTATE_TASK_READYTORUN"
    unfolding k by auto
  have "reachable 0 demo k" by (rule reachable.step [OF reachable.start al k])
  note h = highest_priority_runs [OF this demo_ok t(1,2)]
  show ?thesis using k t h [OF t(3)] h by auto
qed

text \<open>The state of a task names the list it is in.  In every reachable state each task control block is in the
  list of \<^verbatim>\<open>g_tasklisttable\<close> for its state and in no other list.\<close>

theorem task_state_names_list:
  assumes "reachable i k0 k" "kernel_ok i k0"
  shows "\<exists>ls. (\<forall>l. dqueue (tcbs k) (lists k l) (ls l)) \<and>
    (\<forall>p t l. tcbs k p = Some t \<longrightarrow> (p \<in> set (ls l) \<longleftrightarrow> TLIST_HEAD (task_state t) = Some l))"
proof -
  obtain a where a: "repr k a" "listed a" using reachable_ok [OF assms] by (auto simp: kernel_ok_def sys_ok_def lists_ok_def)
  have "p \<in> set (qs a l) \<longleftrightarrow> TLIST_HEAD (task_state t) = Some l" if "tcbs k p = Some t" for p t l
    using a that by (auto simp: repr_def view_def listed_def)
  then show ?thesis using a(1) by (auto simp: repr_def)
qed

theorem task_state_names_list_witness:
  "\<exists>ls. dqueue (tcbs demo) (lists demo g_waitingforsemaphore) (ls g_waitingforsemaphore) \<and> (3 :: nat) \<in> set (ls g_waitingforsemaphore)"
proof -
  obtain ls where "\<forall>l. dqueue (tcbs demo) (lists demo l) (ls l)"
    "\<forall>p t l. tcbs demo p = Some t \<longrightarrow> (p \<in> set (ls l) \<longleftrightarrow> TLIST_HEAD (task_state t) = Some l)"
    using task_state_names_list [OF reachable.start demo_ok] by blast
  moreover have "tcbs demo 3 = Some (demo_task 120 TSTATE_WAIT_SEM None None (Some 8) 13)" by (simp add: demo_def)
  ultimately show ?thesis by fastforce
qed

end
