(* ===== verification/Sched_Context.thy ===== *)
theory Sched_Context
  imports Sched_Laws
begin

text \<open>
  The register contexts: a context switch gives every task back exactly the registers it was stopped with.
\<close>

section \<open>The context of a task\<close>

text \<open>The registers of a task: those of the processor while it runs, the saved ones otherwise.\<close>

definition context_of :: "'c kernel \<Rightarrow> nat \<Rightarrow> 'c" where
  "context_of k p = (if this_task k = Some p then cpu k else xcp (the (tcbs k p)))"

definition a_context :: "'c sys \<Rightarrow> nat \<Rightarrow> 'c" where
  "a_context a p = (if cur a = p then ctx a else xcp (the (tk a p)))"

definition ctx_kept :: "'c sys \<Rightarrow> 'c sys \<Rightarrow> bool" where
  "ctx_kept a b \<longleftrightarrow> (\<forall>p. tk a p \<noteq> None \<longrightarrow> tk b p \<noteq> None \<and> a_context b p = a_context a p)"

lemma repr_context:
  assumes "repr k a" "ready a \<noteq> []" "tk a p \<noteq> None"
  shows "context_of k p = a_context a p"
proof -
  obtain t where "tcbs k p = Some t" "tk a p = Some (strip t)" using repr_get [OF assms(1,3)] by blast
  then show ?thesis using repr_this_task [OF assms(1,2)] assms(1) by (simp add: context_of_def a_context_def repr_def)
qed

lemma ctx_kept_refl [simp]: "ctx_kept a a"
  by (simp add: ctx_kept_def)

lemma ctx_kept_trans: "ctx_kept a b \<Longrightarrow> ctx_kept b c \<Longrightarrow> ctx_kept a c"
  unfolding ctx_kept_def by metis

lemma ctx_kept_same: "kept xcp a b \<Longrightarrow> ctx b = ctx a \<Longrightarrow> cur b = cur a \<Longrightarrow> ctx_kept a b"
  unfolding ctx_kept_def a_context_def using keptD [of xcp a b] by auto

lemma ctx_kept_upd: "(\<And>t. xcp (f t) = xcp t) \<Longrightarrow> ctx_kept a (a_upd p f a)"
  by (rule ctx_kept_same) (simp_all add: kept_upd)

lemma ctx_kept_sem: "ctx_kept a (a_sem s n a)"
  by (simp add: ctx_kept_def a_context_def)

lemma ctx_kept_switch:
  assumes "kept xcp a b" "ctx b = ctx a" "tk a (cur a) \<noteq> None" "tk b (cur b) \<noteq> None"
  shows "ctx_kept a (a_switch (cur a) b)"
  unfolding ctx_kept_def
proof (intro allI impI)
  fix p assume p: "tk a p \<noteq> None"
  have x: "xcp (the (tk b q)) = xcp (the (tk a q))" "tk b q \<noteq> None" if "tk a q \<noteq> None" for q
    using keptD [OF assms(1)] that by auto
  have "tk (a_switch (cur a) b) p \<noteq> None" using x(2) [OF p] by (auto simp: a_switch_def Let_def)
  moreover have "a_context (a_switch (cur a) b) p = a_context a p"
    using x [OF p] x [OF assms(3)] assms(2,4) keptD(2) [OF assms(1), of "cur b"] keptD(1) [OF assms(1), of "cur b"]
    by (auto simp: a_context_def a_switch_def Let_def)
  ultimately show "tk (a_switch (cur a) b) p \<noteq> None \<and> a_context (a_switch (cur a) b) p = a_context a p" by blast
qed

lemma ctx_lists [simp]: "ctx (a_place p a) = ctx a" "ctx (a_addready p a) = ctx a" "ctx (a_remready p a) = ctx a"
  "ctx (a_addblocked p s a) = ctx a" "ctx (a_rmblocked p a) = ctx a" "ctx (a_merge a) = ctx a" "ctx (a_move p n a) = ctx a"
proof -
  show place: "ctx (a_place p a) = ctx a" for p a by (simp add: a_place_def)
  have "ctx (fold a_place ps a) = ctx a" for ps a by (induction ps arbitrary: a) (simp_all add: place)
  then show "ctx (a_addready p a) = ctx a" "ctx (a_remready p a) = ctx a" "ctx (a_addblocked p s a) = ctx a" "ctx (a_rmblocked p a) = ctx a"
    "ctx (a_merge a) = ctx a" "ctx (a_move p n a) = ctx a"
    by (simp_all add: a_addready_def a_remready_def a_addblocked_def a_rmblocked_def a_merge_def a_move_def place Let_def)
qed

lemma ctx_kept_unblock:
  assumes ok: "lists_ok i a" and p: "tk a p \<noteq> None" "TLIST_HEAD (st a p) = Some l" "l \<noteq> g_readytorun"
  shows "ctx_kept a (a_unblock p a)"
proof -
  note rm = lists_ok_rmblocked [OF ok p]
  have s: "tk (a_rmblocked p a) p \<noteq> None" "TLIST_HEAD (st (a_rmblocked p a) p) = None" using p(1) rm(3) by simp_all
  have k: "kept xcp a (a_addready p (a_rmblocked p a))" by (rule kept_trans [OF kept_lists(5) kept_lists(2)]) simp_all
  have "tk a (cur a) \<noteq> None" "tk (a_addready p (a_rmblocked p a)) (cur (a_addready p (a_rmblocked p a))) \<noteq> None"
    using lists_ok_curD(2) [OF ok] lists_ok_curD(2) [OF lists_ok_addready(1) [OF rm(1) s]] by blast+
  then show ?thesis using ctx_kept_switch [OF k] ctx_kept_same [OF k] by (simp add: a_unblock_def switch_if_moved_def)
qed

lemma ctx_kept_release:
  assumes ok: "lists_ok i a"
  shows "ctx_kept a (a_release a)"
proof -
  have k: "kept xcp a (a_merge a)" by (rule kept_lists(6)) simp
  have "tk a (cur a) \<noteq> None" "tk (a_merge a) (cur (a_merge a)) \<noteq> None"
    using lists_ok_curD(2) [OF ok] lists_ok_curD(2) [of i "a_merge a"] lists_ok_merge [OF ok] by auto
  then show ?thesis using ctx_kept_switch [OF k] ctx_kept_same [OF k] by (simp add: a_release_def switch_if_moved_def)
qed

lemma ctx_kept_block:
  assumes ok: "lists_ok i a" and s: "TLIST_HEAD s = Some l" "l \<noteq> g_readytorun" and c: "cur a \<noteq> i"
  shows "ctx_kept a (a_block s a)"
proof -
  note cd = lists_ok_curD [OF ok]
  note rm = lists_ok_remready [OF ok cd(5) c]
  let ?b = "a_merge (a_addblocked (cur a) s (a_remready (cur a) a))"
  have "tk (a_remready (cur a) a) (cur a) \<noteq> None" "TLIST_HEAD (st (a_remready (cur a) a) (cur a)) = None" using cd(2) rm(3) by simp_all
  then have b: "lists_ok i ?b" using lists_ok_merge [OF lists_ok_addblocked(1) [OF rm(1) _ _ s]] by blast
  have "kept xcp a ?b" by (rule kept_trans [OF kept_trans [OF kept_lists(3) kept_lists(4)] kept_lists(6)]) simp_all
  then show ?thesis using ctx_kept_switch [of a ?b] lists_ok_curD(2) [OF b] cd(2) by (simp add: a_block_def Let_def)
qed

lemma ctx_kept_reprio:
  assumes ok: "lists_ok i a" and p: "p \<in> set (ready a)" "p \<noteq> i" "n \<noteq> 0"
  shows "ctx_kept a (a_reprio p n a)"
proof -
  let ?b = "a_upd p (\<lambda>t. t\<lparr>sched_priority := n\<rparr>) (a_remready p a)" and ?c = "a_move p n a"
  note mv = lists_ok_move [OF ok p] and cd = lists_ok_curD [OF ok]
  have k: "kept xcp a ?c" unfolding a_move_def by (rule kept_trans [OF kept_upd [OF _ kept_lists(3)] kept_lists(2)]) simp_all
  have tp: "tk ?b p \<noteq> None" using listed_tk [OF cd(4) p(1)] by simp
  have "cur ?b = cur a" if "p \<noteq> cur a"
  proof -
    have "ready a = cur a # tl (ready a)" using cd(1) by simp
    then show ?thesis using that lists_ok_remready(4) [OF ok p(1,2)] by (metis fun_upd_same list.sel(1) remove1.simps(2) sys_simps(2))
  qed
  then have "cur ?c = cur a" if "(p = cur a) = (p = cur ?c)"
    using that lists_ok_addready(3) [OF mv(3) tp mv(4)] by (auto simp: a_move_def split: if_splits)
  moreover have "kept xcp a (a_merge ?c)" by (rule kept_trans [OF k kept_lists(6)]) simp
  moreover have "tk (a_merge ?c) (cur (a_merge ?c)) \<noteq> None" using lists_ok_merge [OF mv(1)] lists_ok_curD(2) by blast
  ultimately show ?thesis using ctx_kept_switch [of a "a_merge ?c"] ctx_kept_same [OF k] cd(2) by (auto simp: a_reprio_def Let_def)
qed


lemma ctx_kept_setprio:
  assumes ok: "lists_ok i a" and p: "tk a p \<noteq> None" "p \<noteq> i" "n \<noteq> 0"
  shows "ctx_kept a (a_setprio p n a)"
proof -
  have L: "listed a" "running_ok a" using ok by (simp_all add: lists_ok_def)
  have r: "p \<in> set (ready a)" if "st a p \<in> {TSTATE_TASK_RUNNING, TSTATE_TASK_READYTORUN}" using that L(1) p(1) by (auto simp: listed_st)
  have u: "ctx_kept a (a_upd p (\<lambda>t. t\<lparr>sched_priority := n\<rparr>) a)" by (rule ctx_kept_upd) simp
  have "ctx_kept a (a_requeue p n a)" if "TLIST_HEAD (st a p) \<noteq> Some g_readytorun"
    by (rule ctx_kept_same) (use lists_ok_requeue(3) [OF ok p(1) that p(3)] in \<open>simp_all add: a_requeue_def Let_def kept_upd\<close>)
  then show ?thesis using u ctx_kept_reprio [OF ok _ p(2,3)] r TLIST_ready [of "st a p"] by (auto simp: a_setprio_def)
qed

lemma ctx_kept_rotate:
  assumes ok: "lists_ok i a"
  shows "ctx_kept a (a_rotate a)"
proof (cases "tl (ready a) = []")
  case False
  then have "cur a \<noteq> i" using lists_ok_idle(4) [OF ok] by (metis list.sel(3))
  moreover from this have "pr a (cur a) \<noteq> 0" using ok lists_ok_curD(2) [OF ok] by (auto simp: lists_ok_def idle_pr)
  ultimately show ?thesis using ctx_kept_reprio [OF ok lists_ok_curD(5) [OF ok]] by (simp add: a_rotate_def)
qed (simp add: a_rotate_def)

lemma ctx_kept_tick:
  assumes ok: "lists_ok i a"
  shows "ctx_kept a (a_tick a)"
proof -
  have u: "ctx_kept a (a_upd (cur a) (\<lambda>t. t\<lparr>timeslice := n\<rparr>) a)" for n by (rule ctx_kept_upd) simp
  have "ctx_kept a (a_rotate (a_upd (cur a) (\<lambda>t. t\<lparr>timeslice := RR_TICKS\<rparr>) a))"
    by (rule ctx_kept_trans [OF u ctx_kept_rotate]) (use ok in \<open>auto simp: lists_ok_upd\<close>)
  then show ?thesis using u by (simp add: a_tick_def Let_def)
qed

lemma ctx_kept_unlock:
  assumes ok: "lists_ok i a"
  shows "ctx_kept a (a_unlock a)"
proof -
  have u: "ctx_kept a (a_upd (cur a) (\<lambda>t. t\<lparr>lockcount := n\<rparr>) a)" for n by (rule ctx_kept_upd) simp
  have "ctx_kept a (a_release (a_upd (cur a) (\<lambda>t. t\<lparr>lockcount := 0\<rparr>) a))"
    by (rule ctx_kept_trans [OF u ctx_kept_release]) (use ok in \<open>auto simp: lists_ok_upd\<close>)
  then show ?thesis using u by (simp add: a_unlock_def Let_def)
qed


lemma ctx_kept_leave:
  assumes ok: "lists_ok i a" and p: "p \<in> set (waiters a s)"
    and f: "\<And>t. xcp (f t) = xcp t" "\<And>t. task_state (f t) = task_state t" "\<And>t. sched_priority (f t) = sched_priority t"
  shows "ctx_kept a (a_unblock p (a_upd p f (a_sem s n a)))"
proof -
  let ?b = "a_upd p f (a_sem s n a)"
  have L: "listed a" using ok by (simp add: lists_ok_def)
  have pl: "p \<in> set (qs a g_waitingforsemaphore)" using p by (simp add: waiters_def)
  have b: "lists_ok i ?b" using ok f(2,3) by (simp add: lists_ok_upd)
  have tp: "tk ?b p \<noteq> None" "TLIST_HEAD (st ?b p) = Some g_waitingforsemaphore"
    using listed_tk [OF L pl] listed_stD [OF L pl] f(2) by (auto simp: st_def)
  have "ctx_kept a ?b" by (rule ctx_kept_trans [OF ctx_kept_sem ctx_kept_upd]) (use f(1) in auto)
  then show ?thesis by (rule ctx_kept_trans [OF _ ctx_kept_unblock [OF b tp]]) auto
qed

text \<open>What the events do to the counts of the semaphores.\<close>

definition sem_effect :: "'c event \<Rightarrow> (nat \<Rightarrow> int option) \<Rightarrow> (nat \<Rightarrow> int option) \<Rightarrow> bool" where
  "sem_effect e m m' \<longleftrightarrow> (case e of
     Wait s \<Rightarrow> m' = m(s \<mapsto> the (m s) - 1)
   | Trywait s \<Rightarrow> m' = m(s \<mapsto> if 0 < the (m s) then the (m s) - 1 else the (m s))
   | Post s \<Rightarrow> m' = m(s \<mapsto> the (m s) + 1)
   | Interrupted p x \<Rightarrow> m' = m \<or> (\<exists>s n. m s = Some n \<and> n < 0 \<and> m' = m(s \<mapsto> n + 1))
   | _ \<Rightarrow> m' = m)"

lemma sm_ops [simp]:
  fixes a :: "'c sys"
  shows "sm (a_block s a) = sm a" "sm (a_unblock p a) = sm a" "sm (a_release a) = sm a" "sm (a_reprio p n a) = sm a"
  "sm (a_rotate a) = sm a" "sm (a_tick a) = sm a" "sm (a_setprio p n a) = sm a" "sm (a_lock a) = sm a" "sm (a_unlock a) = sm a"
  "sm (a_yield a) = sm a"
proof -
  show "sm (a_block s a) = sm a" using kept_all(1) [of "\<lambda>_. ()" a s] by (simp add: kept_def)
  show "sm (a_unblock p a) = sm a" using kept_all(2) [of "\<lambda>_. ()" a p] by (simp add: kept_def)
  have r: "sm (a_release b) = sm b" "sm (a_reprio p n b) = sm b" for b :: "'c sys" and p n
    using kept_all(3) [of "\<lambda>_. ()" b] kept_all(5) [of "\<lambda>_. ()" b p n] by (simp_all add: kept_def)
  show ro: "sm (a_rotate a) = sm a" for a :: "'c sys" by (simp add: a_rotate_def r)
  show se: "sm (a_setprio p n a) = sm a" for p n and a :: "'c sys" by (simp add: a_setprio_def a_requeue_def Let_def r)
  show "sm (a_release a) = sm a" "sm (a_reprio p n a) = sm a" by (rule r)+
  show "sm (a_tick a) = sm a" "sm (a_lock a) = sm a" "sm (a_unlock a) = sm a" "sm (a_yield a) = sm a"
    by (simp_all add: a_tick_def a_lock_def a_unlock_def a_yield_def Let_def r ro se)
qed

definition effect :: "'c event \<Rightarrow> 'c sys \<Rightarrow> 'c sys \<Rightarrow> bool" where
  "effect e a b \<longleftrightarrow> ctx_kept a b \<and> sem_effect e (sm a) (sm b)"

lemma effect_quiet: "ctx_kept a b \<Longrightarrow> sm b = sm a \<Longrightarrow> sem_effect e (sm a) (sm a) \<Longrightarrow> effect e a b"
  by (simp add: effect_def)

lemma sem_effect_simps [simp]: "sem_effect Lock m m" "sem_effect Unlock m m" "sem_effect (WaitDone n) m m" "sem_effect (Block s) m m"
  "sem_effect (Unblock p) m m" "sem_effect Yield m m" "sem_effect Tick m m" "sem_effect (Setpriority p x) m m" "sem_effect EnterIrq m m"
  "sem_effect LeaveIrq m m" "sem_effect (Interrupted p x) m m"
  by (simp_all add: sem_effect_def)

definition ctx_step :: "nat \<Rightarrow> 'c event \<Rightarrow> 'c kernel \<Rightarrow> 'c sys \<Rightarrow> bool" where
  "ctx_step i e k a \<longleftrightarrow> (\<exists>k' b. kdo e k = Some k' \<and> repr k' b \<and> sys_ok i b \<and> effect e a b)"

lemma ctx_take:
  assumes r: "repr k a" and ok: "sys_ok i a" and s: "sems k s = Some n" "0 < n" "e \<in> {Wait s, Trywait s}"
  shows "ctx_step i e k a"
proof -
  let ?b = "a_upd (cur a) (\<lambda>t. t\<lparr>waitsem := None\<rparr>) (a_sem s (n - 1) a)"
  have "this_task k = Some (cur a)" using repr_this_task [OF r lists_ok_curD(1)] ok by (auto simp: sys_ok_def)
  moreover have "ctx_kept a ?b" by (rule ctx_kept_trans [OF ctx_kept_sem ctx_kept_upd]) simp
  then have "effect e a ?b" using s repr_sems [OF r] by (auto simp: effect_def sem_effect_def)
  ultimately show ?thesis using take_semaphore(1,2) [OF ok r s(1,2)] s
    by (auto simp: ctx_step_def sem_wait_call_def sem_trywait_call_def; blast)
qed

lemma ctx_wait:
  assumes r: "repr k a" and ok: "sys_ok i a" and al: "allowed i e k" "e \<in> {Wait s, Trywait s}"
  shows "ctx_step i e k a"
proof -
  have o: "lists_ok i a" using ok by (simp add: sys_ok_def)
  have tt: "this_task k = Some (cur a)" using repr_this_task [OF r lists_ok_curD(1) [OF o]] .
  obtain m where m: "sems k s = Some m" using al by (auto split: option.splits)
  show ?thesis
  proof (cases "0 < m")
    case True
    then show ?thesis by (rule ctx_take [OF r ok m _ al(2)])
  next
    case False
    show ?thesis
    proof (cases "e = Wait s")
      case True
      then have w: "- (2 ^ 15) < m" "cur a \<noteq> i" using al(1) tt m by auto
      let ?d = "a_upd (cur a) (\<lambda>t. t\<lparr>pterrno := OK\<rparr>) (a_upd (cur a) (\<lambda>t. t\<lparr>waitsem := Some s\<rparr>) (a_sem s (m - 1) a))"
      have "ctx_kept a ?d" by (rule ctx_kept_trans [OF ctx_kept_trans [OF ctx_kept_sem ctx_kept_upd] ctx_kept_upd]) simp_all
      moreover have "lists_ok i ?d" "cur ?d \<noteq> i" using o w(2) by (simp_all add: lists_ok_upd)
      ultimately have "ctx_kept a (a_block TSTATE_WAIT_SEM ?d)"
        using ctx_kept_trans [OF _ ctx_kept_block [of i ?d TSTATE_WAIT_SEM]] by simp
      then have "effect e a (a_block TSTATE_WAIT_SEM ?d)" using True m repr_sems [OF r] by (simp add: effect_def sem_effect_def)
      then show ?thesis using block_on_semaphore(1,2) [OF ok r m _ w] False True unfolding ctx_step_def by fastforce
    next
      case trywait: False
      then have "effect e a a" using False al(2) m repr_sems [OF r] by (simp add: effect_def sem_effect_def fun_upd_idem)
      then show ?thesis using trywait False al(2) m tt r ok by (auto simp: ctx_step_def sem_trywait_call_def; fastforce)
    qed
  qed
qed

lemma ctx_post:
  assumes r: "repr k a" and ok: "sys_ok i a" and al: "allowed i (Post s) k"
  shows "ctx_step i (Post s) k a"
proof -
  have o: "lists_ok i a" using ok by (simp add: sys_ok_def)
  obtain n where n: "sems k s = Some n" "n < 2 ^ 15 - 1" using al by (auto split: option.splits)
  obtain k' b where b: "sem_post_call s k = Some (OK, k')" "repr k' b" "sys_ok i b" "sm b = (sm a)(s \<mapsto> n + 1)"
    "case waiters a s of [] \<Rightarrow> b = a_sem s (n + 1) a
      | p # ps \<Rightarrow> b = a_unblock p (a_upd p (\<lambda>t. t\<lparr>waitsem := None\<rparr>) (a_sem s (n + 1) a)) \<and> waiters b s = ps"
    using sem_post_ok [OF ok r n] by blast
  have "ctx_kept a b"
    using b(5) ctx_kept_sem [of a s "n + 1"] ctx_kept_leave [OF o, of _ s "\<lambda>t. t\<lparr>waitsem := None\<rparr>" "n + 1"] by (cases "waiters a s") auto
  then have "effect (Post s) a b" using b(4) n(1) repr_sems [OF r] by (simp add: effect_def sem_effect_def)
  then show ?thesis using b(1-3) by (auto simp: ctx_step_def)
qed

lemma ctx_interrupted:
  assumes r: "repr k a" and ok: "sys_ok i a" and p: "tcbs k p = Some t"
  shows "ctx_step i (Interrupted p e) k a"
proof -
  have o: "lists_ok i a" "sem_ok a" "listed a" using ok by (simp_all add: sys_ok_def lists_ok_def)
  have t: "tk a p = Some (strip t)" using r p by (simp add: repr_def view_def)
  show ?thesis
  proof (cases "task_state t = TSTATE_WAIT_SEM")
    case False
    then have "nxsem_wait_irq p e k = Some k" using p by (simp add: nxsem_wait_irq_def)
    then show ?thesis using r ok effect_quiet [of a a "Interrupted p e"] unfolding ctx_step_def by fastforce
  next
    case True
    then have l: "p \<in> set (qs a g_waitingforsemaphore)" using o(3) t by (simp add: listed_def)
    then obtain s n where w: "waits a p = Some s" "sm a s = Some n" using o(2) t unfolding sem_ok_def by fastforce
    then have pw: "p \<in> set (waiters a s)" using l by (simp add: waiters_def)
    let ?f = "\<lambda>t. t\<lparr>waitsem := None, pterrno := e\<rparr>"
    note leave = leave_semaphore [OF ok r pw w(2), of ?f, simplified]
    have "sems k s = Some n" "waitsem t = Some s" using r w t by (simp_all add: repr_def waits_def)
    moreover have "ctx_kept a (a_unblock p (a_upd p ?f (a_sem s (n + 1) a)))" by (rule ctx_kept_leave [OF o(1) pw]) simp_all
    then have "effect (Interrupted p e) a (a_unblock p (a_upd p ?f (a_sem s (n + 1) a)))"
      using w(2) leave(4) by (auto simp: effect_def sem_effect_def)
    ultimately show ?thesis using leave(1,2) p True unfolding ctx_step_def by (auto simp: nxsem_wait_irq_def; blast)
  qed
qed

lemma ctx_sched:
  assumes r: "repr k a" and ok: "sys_ok i a" and al: "allowed i e k"
    and e: "e \<in> {Lock, Unlock, WaitDone n, Block s, Unblock p, Yield, Tick}"
  shows "ctx_step i e k a"
proof -
  have o: "lists_ok i a" using ok by (simp add: sys_ok_def)
  obtain t where t: "this_task k = Some (cur a)" "tcbs k (cur a) = Some t" "tk a (cur a) = Some (strip t)" "running k = t"
    by (rule repr_running [OF r o])
  consider "e = Lock" | "e = Unlock" | "e = WaitDone n" | "e = Block s" | "e = Unblock p" | "e = Yield" | "e = Tick" using e by blast
  then show ?thesis
  proof cases
    case 1
    have "ctx_kept a (a_lock a)" unfolding a_lock_def by (rule ctx_kept_upd) simp
    then have "effect Lock a (a_lock a)" "effect Lock a a" by (simp_all add: effect_quiet)
    then show ?thesis using sched_lock_ok(1) [OF ok r] sched_lock_irq [of k] al t ok r 1 unfolding ctx_step_def
      by (cases "in_irq k") (auto; blast)+
  next
    case 2
    have "effect Unlock a (a_unlock a)" "effect Unlock a a" using ctx_kept_unlock [OF o] by (simp_all add: effect_quiet)
    then show ?thesis using 2 sched_unlock_ok [OF ok r] sched_unlock_irq [of k] ok r unfolding ctx_step_def
      by (cases "in_irq k") (auto; blast)+
  next
    case 3
    let ?f = "\<lambda>t. t\<lparr>pterrno := n\<rparr>"
    have "sys_ok i (a_upd (cur a) ?f a)" by (rule sys_ok_upd [OF ok]) (use t in \<open>simp_all add: waits_def\<close>)
    moreover have "effect (WaitDone n) a (a_upd (cur a) ?f a)" by (rule effect_quiet [OF ctx_kept_upd]) simp_all
    moreover obtain k' where "upd_tcb (cur a) ?f k = Some k'" "repr k' (a_upd (cur a) ?f a)"
      using upd_tcb_ok [OF r, of "cur a" ?f] t(3) by auto
    ultimately show ?thesis using 3 t unfolding ctx_step_def by (auto simp: sem_wait_resume_def; blast)
  next
    case 4
    then obtain l where l: "TLIST_HEAD s = Some l" "l \<notin> {g_readytorun, g_pendingtasks, g_waitingforsemaphore}" "cur a \<noteq> i"
      using al t(1) by auto
    have "effect (Block s) a (a_block s a)" by (rule effect_quiet [OF ctx_kept_block [OF o l(1) _ l(3)]]) (use l(2) in simp_all)
    then show ?thesis using sys_ok_block [OF ok l(1,2,3) r] 4 t(1) unfolding ctx_step_def by (auto; blast)
  next
    case 5
    then obtain u l where u: "tcbs k p = Some u" "TLIST_HEAD (task_state u) = Some l" "l \<notin> {g_readytorun, g_waitingforsemaphore}"
      using al by (auto split: option.splits)
    have p: "tk a p \<noteq> None" "TLIST_HEAD (st a p) = Some l" using r u by (auto simp: repr_def view_def st_def)
    have "effect (Unblock p) a (a_unblock p a)" by (rule effect_quiet [OF ctx_kept_unblock [OF o p]]) (use u(3) in simp_all)
    then show ?thesis using sys_ok_unblock [OF ok p u(3) r] 5 unfolding ctx_step_def by (auto; blast)
  next
    case 6
    have "pr a (cur a) \<noteq> 0" if "cur a \<noteq> i" using o t(3) that by (auto simp: lists_ok_def idle_pr)
    then have "ctx_kept a (a_yield a)" if "cur a \<noteq> i" unfolding a_yield_def using ctx_kept_setprio [OF o, of "cur a"] t(3) that by auto
    then have "effect Yield a (a_yield a)" if "cur a \<noteq> i" using that by (simp add: effect_quiet)
    then show ?thesis using sched_yield_ok [OF ok r] ok r 6 effect_quiet [of a a Yield] unfolding ctx_step_def by (cases "cur a = i") (auto; blast)+
  next
    case 7
    have "effect Tick a (a_tick a)" by (rule effect_quiet [OF ctx_kept_tick [OF o]]) simp_all
    then show ?thesis using 7 nxsched_cpu_scheduler_ok [OF ok r] unfolding ctx_step_def by (auto; blast)
  qed
qed

lemma ctx_setpriority:
  assumes r: "repr k a" and ok: "sys_ok i a" and al: "allowed i (Setpriority p n) k"
  shows "ctx_step i (Setpriority p n) k a"
proof (cases "1 \<le> n \<and> n \<le> 255")
  case False
  then show ?thesis using r ok effect_quiet [of a a "Setpriority p n"] unfolding ctx_step_def by (auto simp: nxsched_setpriority_def; blast)
next
  case True
  have o: "lists_ok i a" using ok by (simp add: sys_ok_def)
  obtain t where t: "this_task k = Some (cur a)" "tcbs k (cur a) = Some t" "tk a (cur a) = Some (strip t)" "running k = t"
    by (rule repr_running [OF r o])
  obtain u where u: "tcbs k p = Some u" "p \<noteq> i" "\<not> (task_state u = TSTATE_TASK_READYTORUN \<and> n \<le> uint (sched_priority t))"
    using al t(4) by (auto split: option.splits)
  then have a: "tk a p \<noteq> None" "st a p = task_state u" "pr a (cur a) = sched_priority t" using r t(3) by (auto simp: repr_def view_def st_def pr_def)
  have "uint (word_of_int n :: u8) = n" using True by (simp add: u8_of_int)
  then have "(word_of_int n :: u8) \<noteq> 0" using True by auto
  then have "effect (Setpriority p n) a (a_setprio p (word_of_int n) a)" using ctx_kept_setprio [OF o a(1) u(2)] by (simp add: effect_quiet)
  then show ?thesis using nxsched_setpriority_ok [OF ok r a(1) u(2)] True a u(3) unfolding ctx_step_def by (auto; blast)
qed

lemma ctx_events:
  assumes r: "repr k a" and ok: "sys_ok i a" and al: "allowed i e k" and nc: "\<And>c. e \<noteq> Compute c"
  shows "ctx_step i e k a"
proof -
  have "ctx_kept a (a\<lparr>irq := b\<rparr>)" for b by (simp add: ctx_kept_def a_context_def)
  then have ef: "effect EnterIrq a (a\<lparr>irq := b\<rparr>)" "effect LeaveIrq a (a\<lparr>irq := b\<rparr>)" for b by (simp_all add: effect_quiet)
  have irq: "repr (k\<lparr>in_irq := b\<rparr>) (a\<lparr>irq := b\<rparr>)" "sys_ok i (a\<lparr>irq := b\<rparr>)" for b
    using r ok by (simp_all add: repr_def sys_ok_def pend_ok_def locked_def sem_ok_def waiters_def waits_def)
  show ?thesis
  proof (cases e)
    case EnterIrq
    then show ?thesis using irq ef unfolding ctx_step_def by (auto; blast)
  next
    case LeaveIrq
    then show ?thesis using irq ef unfolding ctx_step_def by (auto; blast)
  next
    case (Interrupted p n)
    then show ?thesis using ctx_interrupted [OF r ok] al by auto
  qed (use nc al ctx_wait [OF r ok al] ctx_post [OF r ok] ctx_setpriority [OF r ok] ctx_sched [OF r ok al] in auto)
qed

lemma ctx_kernel:
  assumes "kernel_ok i k" "allowed i e k" "kdo e k = Some k'" "tcbs k p \<noteq> None"
  shows "tcbs k' p \<noteq> None" "context_of k' p = (case e of Compute c \<Rightarrow> if this_task k = Some p then c else context_of k p | _ \<Rightarrow> context_of k p)"
proof -
  obtain a where a: "repr k a" "sys_ok i a" using assms(1) by (auto simp: kernel_ok_def)
  have ne: "ready b \<noteq> []" if "sys_ok i b" for b :: "'a sys" using that lists_ok_curD(1) by (auto simp: sys_ok_def)
  have p: "tk a p \<noteq> None" using assms(4) repr_tcb_None [OF a(1), of p] by simp
  have "tcbs k' p \<noteq> None \<and> context_of k' p = context_of k p" if nc: "\<And>c. e \<noteq> Compute c"
  proof -
    obtain b where b: "repr k' b" "sys_ok i b" "ctx_kept a b" using ctx_events [OF a assms(2) nc] assms(3) by (auto simp: ctx_step_def effect_def)
    then have "tk b p \<noteq> None" "a_context b p = a_context a p" using p by (auto simp: ctx_kept_def)
    then show ?thesis using repr_context [OF b(1) ne [OF b(2)]] repr_context [OF a(1) ne [OF a(2)] p] repr_tcb_None [OF b(1)] by simp
  qed
  moreover have "tcbs k' p \<noteq> None \<and> context_of k' p = (if this_task k = Some p then c else context_of k p)" if "e = Compute c" for c
    using that assms(3,4) by (auto simp: context_of_def this_task_def)
  ultimately show "tcbs k' p \<noteq> None" "context_of k' p = (case e of Compute c \<Rightarrow> if this_task k = Some p then c else context_of k p | _ \<Rightarrow> context_of k p)"
    by (cases e; simp)+
qed

section \<open>Tasks do not disturb each other\<close>

fun krun :: "nat \<Rightarrow> 'c event list \<Rightarrow> 'c kernel \<Rightarrow> 'c kernel option" where
  "krun i [] k = Some k"
| "krun i (e # es) k = (if allowed i e k then do { k \<leftarrow> kdo e k; krun i es k } else Some k)"

text \<open>The last registers that task p has computed itself while it was running.\<close>

fun own :: "nat \<Rightarrow> nat \<Rightarrow> 'c event list \<Rightarrow> 'c kernel \<Rightarrow> 'c \<Rightarrow> 'c" where
  "own i p [] k x = x"
| "own i p (e # es) k x = (if allowed i e k then (case kdo e k of None \<Rightarrow> x
     | Some k' \<Rightarrow> own i p es k' (case e of Compute c \<Rightarrow> if this_task k = Some p then c else x | _ \<Rightarrow> x)) else x)"

lemma contexts_own:
  assumes "kernel_ok i k" "tcbs k p \<noteq> None"
  shows "\<exists>k'. krun i es k = Some k' \<and> context_of k' p = own i p es k (context_of k p)"
  using assms
proof (induction es arbitrary: k)
  case (Cons e es)
  show ?case
  proof (cases "allowed i e k")
    case True
    then obtain k1 where k1: "kdo e k = Some k1" "kernel_ok i k1" using kdo_ok Cons.prems(1) by blast
    note c = ctx_kernel [OF Cons.prems(1) True k1(1) Cons.prems(2)]
    show ?thesis using Cons.IH [OF k1(2) c(1)] True k1(1) c(2) by simp
  qed simp
qed simp

text \<open>C8: Context switches are invisible.  Whatever sequence of calls, interrupts and switches happens, the
  registers of a task are always the ones that the task itself has computed last: a switch saves them and
  restores them unchanged, and nothing else touches them.\<close>

theorem context_switches_invisible:
  assumes "kernel_ok i k" "tcbs k p \<noteq> None"
  shows "\<exists>k'. krun i es k = Some k' \<and> context_of k' p = own i p es k (context_of k p)"
  using assms by (rule contexts_own)

theorem context_switches_invisible_witness:
  "\<exists>k'. krun 0 [Compute 5, Post 8, Wait 7, Compute 6, Tick] demo = Some k' \<and> context_of k' 1 = 6"
proof -
  have "own 0 1 [Compute 5, Post 8, Wait 7, Compute 6, Tick] demo 21 = 6" by code_simp
  moreover have "context_of demo 1 = 21" "tcbs demo 1 \<noteq> None" by (simp_all add: demo_def context_of_def this_task_def)
  ultimately show ?thesis using context_switches_invisible [OF demo_ok, of 1] by metis
qed

end
