(* ===== verification/Sched_Props.thy ===== *)
theory Sched_Props
  imports Sched_Context
begin

text \<open>
  What the scheduler and the semaphores guarantee to tasks, and two places where they do not keep a promise.
\<close>

section \<open>Semaphores\<close>

definition waiting_for :: "'c kernel \<Rightarrow> nat \<Rightarrow> nat \<Rightarrow> bool" where
  "waiting_for k s p \<longleftrightarrow> (case tcbs k p of None \<Rightarrow> False | Some t \<Rightarrow> task_state t = TSTATE_WAIT_SEM \<and> waitsem t = Some s)"

definition may_run :: "'c kernel \<Rightarrow> nat \<Rightarrow> bool" where
  "may_run k p \<longleftrightarrow> (case tcbs k p of None \<Rightarrow> False
     | Some t \<Rightarrow> task_state t \<in> {TSTATE_TASK_PENDING, TSTATE_TASK_READYTORUN, TSTATE_TASK_RUNNING})"

definition prio_of :: "'c kernel \<Rightarrow> nat \<Rightarrow> u8" where
  "prio_of k p = sched_priority (the (tcbs k p))"

lemma repr_waiting:
  assumes "repr k a" "listed a"
  shows "waiting_for k s p \<longleftrightarrow> p \<in> set (waiters a s)"
proof (cases "tcbs k p")
  case None
  then have "tk a p = None" using repr_tcb_None [OF assms(1)] by simp
  then show ?thesis using None listed_tk [OF assms(2), of p] by (auto simp: waiting_for_def waiters_def)
next
  case (Some t)
  then have t: "tk a p = Some (strip t)" using assms(1) by (simp add: repr_def view_def)
  have "p \<in> set (qs a g_waitingforsemaphore) \<longleftrightarrow> TLIST_HEAD (task_state t) = Some g_waitingforsemaphore" using assms(2) t by (simp add: listed_def)
  moreover have "TLIST_HEAD (task_state t) = Some g_waitingforsemaphore \<longleftrightarrow> task_state t = TSTATE_WAIT_SEM" by (cases "task_state t") auto
  ultimately show ?thesis using Some t by (auto simp: waiting_for_def waiters_def waits_def)
qed

lemma repr_may_run:
  assumes "repr k a" "listed a" "p \<in> set (pend a) \<or> p \<in> set (ready a)"
  shows "may_run k p"
proof -
  obtain l where l: "l \<in> {g_pendingtasks, g_readytorun}" "p \<in> set (qs a l)" using assms(3) by auto
  obtain s where s: "tk a p = Some s" "TLIST_HEAD (task_state s) = Some l" by (rule listedD [OF assms(2) l(2)])
  obtain t where "tcbs k p = Some t" "s = strip t" using repr_tcb [OF assms(1) s(1)] by blast
  then show ?thesis using s(2) l(1) by (cases "task_state t") (auto simp: may_run_def)
qed

lemma unblock_placed:
  assumes ok: "lists_ok i a" and p: "tk a p \<noteq> None" "TLIST_HEAD (st a p) = Some l" "l \<noteq> g_readytorun"
  shows "p \<in> set (pend (a_unblock p a)) \<or> p \<in> set (ready (a_unblock p a))"
proof -
  note rm = lists_ok_rmblocked [OF ok p]
  have s: "tk (a_rmblocked p a) p \<noteq> None" "TLIST_HEAD (st (a_rmblocked p a) p) = None" using p(1) rm(3) by simp_all
  show ?thesis using lists_ok_place(2) [OF rm(1) s] by (auto simp: a_addready_def a_unblock_def switch_if_moved_def)
qed

lemma post_ok:
  assumes k: "kernel_ok i k" and s: "sems k s = Some n" "n < 0"
  shows "\<exists>k' p. sem_post_call s k = Some (OK, k') \<and> sems k' s = Some (n + 1) \<and> waiting_for k s p \<and> may_run k' p \<and>
    (\<forall>q. waiting_for k s q \<longrightarrow> prio_of k q \<le> prio_of k p) \<and> (\<forall>q. waiting_for k' s q \<longleftrightarrow> waiting_for k s q \<and> q \<noteq> p)"
proof -
  obtain a where a: "repr k a" "sys_ok i a" using k by (auto simp: kernel_ok_def)
  have o: "lists_ok i a" "sem_ok a" "listed a" using a(2) by (simp_all add: sys_ok_def lists_ok_def)
  have sn: "sm a s = Some n" using s(1) repr_sems [OF a(1)] by simp
  have "waiters a s \<noteq> []" using sem_ok_count(1) [OF o(2) sn] s(2) by auto
  then obtain p ps where w: "waiters a s = p # ps" by (cases "waiters a s") auto
  let ?d = "a_upd p (\<lambda>t. t\<lparr>waitsem := None\<rparr>) (a_sem s (n + 1) a)" 
  let ?b = "a_unblock p ?d"
  obtain k' where k': "sem_post_call s k = Some (OK, k')" "repr k' ?b" "sys_ok i ?b" "sm ?b = (sm a)(s \<mapsto> n + 1)" "waiters ?b s = ps"
    using sem_post_ok [OF a(2,1) s(1)] s(2) w by auto
  have lb: "listed ?b" using k'(3) by (simp add: sys_ok_def lists_ok_def)
  have "p \<in> set (waiters a s)" using w by simp
  then have pl: "p \<in> set (qs a g_waitingforsemaphore)" by (simp add: waiters_def)
  have tp: "tk ?d p \<noteq> None" "TLIST_HEAD (st ?d p) = Some g_waitingforsemaphore"
    using listed_tk [OF o(3) pl] listed_stD [OF o(3) pl] by (auto simp: st_def)
  have "lists_ok i ?d" using o(1) by (simp add: lists_ok_upd)
  from unblock_placed [OF this tp] have run: "may_run k' p" using repr_may_run [OF k'(2) lb] by simp
  have "distinct (waiters a s)" "prio_sorted (pr a) (waiters a s)"
    using o(1,3) by (auto simp: waiters_def listed_def lists_ok_def ordered_def unordered_def sorted_wrt_filter)
  moreover have "pr a q = prio_of k q" if "q \<in> set (waiters a s)" for q
    using that repr_pr [OF a(1) listed_tk [OF o(3), of q g_waitingforsemaphore]] by (simp add: prio_of_def waiters_def)
  ultimately have "p \<notin> set ps" "\<forall>q\<in>set ps. prio_of k q \<le> prio_of k p" using w by auto
  then show ?thesis using k' run w repr_sems [OF k'(2)] by (auto simp: repr_waiting [OF a(1) o(3)] repr_waiting [OF k'(2) lb])
qed


text \<open>C15: A post wakes the right task.  When tasks wait for the semaphore, the post lets exactly one of them go on:
  one such that no other task waiting for this semaphore has a higher priority.  All the others keep waiting, and the
  count goes up by one.\<close>

theorem post_wakes_highest_waiter:
  assumes "kernel_ok i k" "sems k s = Some n" "n < 0"
  shows "\<exists>k' p. sem_post_call s k = Some (OK, k') \<and> sems k' s = Some (n + 1) \<and> waiting_for k s p \<and> may_run k' p \<and>
    (\<forall>q. waiting_for k s q \<longrightarrow> prio_of k q \<le> prio_of k p) \<and> (\<forall>q. waiting_for k' s q \<longleftrightarrow> waiting_for k s q \<and> q \<noteq> p)"
  using assms by (rule post_ok)

theorem post_wakes_highest_waiter_witness:
  "\<exists>k' p. sem_post_call 8 demo = Some (OK, k') \<and> waiting_for demo 8 p \<and> may_run k' p \<and> \<not> waiting_for k' 8 p"
  using post_wakes_highest_waiter [OF demo_ok, of 8 "- 1"] by (auto simp: demo_def)

text \<open>C18: No wakeup is lost.  In every reachable state a semaphore with a negative count has exactly that many tasks
  waiting for it, and a semaphore with a count of zero or more has none.\<close>

theorem semaphore_count_exact:
  assumes "reachable i k0 k" "kernel_ok i k0" "sems k s = Some n"
  shows "finite {p. waiting_for k s p} \<and> int (card {p. waiting_for k s p}) = max 0 (- n)"
proof -
  obtain a where a: "repr k a" "listed a" "sem_ok a" using reachable_ok [OF assms(1,2)] by (auto simp: kernel_ok_def sys_ok_def lists_ok_def)
  have "{p. waiting_for k s p} = set (waiters a s)" using repr_waiting [OF a(1,2)] by auto
  moreover have "distinct (waiters a s)" using a(2) by (simp add: waiters_def listed_def)
  ultimately show ?thesis using sem_ok_count(1) [OF a(3), of s n] assms(3) repr_sems [OF a(1)] by (simp add: distinct_card)
qed

theorem semaphore_count_exact_witness: "int (card {p. waiting_for demo 8 p}) = 1"
  using semaphore_count_exact [OF reachable.start demo_ok, of 8 "- 1"] by (simp add: demo_def)

section \<open>The pending tasks\<close>

text \<open>The way the comment in \<^verbatim>\<open>sched_mergepending\<close> proposes: take each task from the pending list and add it to
  the ready to run list.\<close>

partial_function (option) readd_pending :: "'c kernel \<Rightarrow> 'c kernel option" where
  "readd_pending k =
     (case qhead (lists k g_pendingtasks) of
        None \<Rightarrow> Some k
      | Some p \<Rightarrow> do { k \<leftarrow> sched_removeblocked p k; (_, k) \<leftarrow> sched_addreadytorun p k; readd_pending k })"

declare readd_pending.simps [code]

lemma readd_pending_ok:
  assumes "repr k a" "lists_ok i a" "locked a \<longrightarrow> (\<forall>q\<in>set (pend a). pr a q \<le> pr a (cur a))"
  shows "\<exists>k'. readd_pending k = Some k' \<and> repr k' (a_merge a)"
  using assms
proof (induction "pend a" arbitrary: a k)
  case Nil
  then show ?case using a_merge_Nil [of a] repr_head [OF Nil.prems(1), of g_pendingtasks] by (subst readd_pending.simps) simp
next
  case (Cons p ps)
  note ps = Cons.hyps(2) [symmetric] and ok = Cons.prems(2)
  note step = a_merge_step [OF ok ps] and c = lists_ok_curD [OF ok]
  let ?r = "a_rmblocked p a"
  have "p \<in> set (pend a)" using ps by simp
  then have p: "tk a p \<noteq> None" "TLIST_HEAD (st a p) = Some g_pendingtasks" using listed_tk [OF c(4)] listed_stD [OF c(4)] by blast+
  note rm = lists_ok_rmblocked [OF ok p]
  have r: "tk ?r p \<noteq> None" "TLIST_HEAD (st ?r p) = None" "cur ?r = cur a" using p(1) rm(3,4) by simp_all
  have "locked ?r = locked a" by (rule locked_kept [OF kept_lists(5)]) (use r(3) c(2) in simp_all)
  then have pl: "a_addready p ?r = a_place p ?r" using Cons.prems(3) ps rm(2) r(3) by (auto simp: a_addready_def not_less)
  obtain k1 where 1: "sched_removeblocked p k = Some k1" "repr k1 ?r" using sched_removeblocked_ok [OF Cons.prems(1) c(4) p] by blast
  obtain k2 x where 2: "sched_addreadytorun p k1 = Some (x, k2)" "repr k2 (a_place p ?r)"
    using sched_addreadytorun_ok [OF 1(2) rm(1) r(1,2)] pl by auto
  have "prio_sorted (pr a) (p # ps)" using ok ps by (auto simp: lists_ok_def ordered_def unordered_def)
  then have srt: "\<forall>q\<in>set ps. pr a q \<le> pr a p" by simp
  have cur: "cur (a_place p ?r) = (if pr a (cur a) < pr a p then p else cur a)" using lists_ok_place(3) [OF rm(1) r(1,2)] rm(2) r(3) by simp
  have lk: "locked (a_place p ?r) = locked a" if "\<not> pr a (cur a) < pr a p"
    by (rule locked_kept [OF kept_trans [OF kept_lists(5) kept_lists(1)]]) (use that cur c(2) in simp_all)
  have "locked (a_place p ?r) \<longrightarrow> (\<forall>q\<in>set ps. pr a q \<le> pr a (cur (a_place p ?r)))"
    using Cons.prems(3) ps srt lk cur by auto
  then obtain k3 where "readd_pending k2 = Some k3" "repr k3 (a_merge a)"
    using Cons.hyps(1) [of "a_place p ?r" k2] step 2(2) by auto
  then show ?case using 1(1) 2(1) repr_head [OF Cons.prems(1), of g_pendingtasks] ps by (subst readd_pending.simps) simp
qed

text \<open>C16: The merge of the pending tasks is an optimisation.  When the running task has not locked the scheduler, the
  hand-written merge of the two sorted lists gives the same lists, in the same order and with the same contents of the
  task control blocks, as removing every pending task from its list and calling \<^verbatim>\<open>sched_addreadytorun\<close> for it.\<close>

theorem mergepending_equals_readding:
  assumes "repr k a" "lists_ok i a" "\<not> locked a"
  shows "\<exists>r k1 k2 b. sched_mergepending k = Some (r, k1) \<and> readd_pending k = Some k2 \<and> repr k1 b \<and> repr k2 b"
  using sched_mergepending_ok [OF assms(1,2)] readd_pending_ok [OF assms(1,2)] assms(3) by blast


text \<open>The example with task 3 pending.\<close>

definition demo_pend :: "nat kernel" where
  "demo_pend = demo\<lparr>tcbs := (tcbs demo)(3 \<mapsto> demo_task 120 TSTATE_TASK_PENDING None None None 13),
     lists := (lists demo)(g_waitingforsemaphore := dq_init, g_pendingtasks := \<lparr>qhead = Some 3, qtail = Some 3\<rparr>)\<rparr>"

definition demo_pend_sys :: "nat sys" where
  "demo_pend_sys = \<lparr>tk = view (tcbs demo_pend), qs = (\<lambda>_. [])(g_readytorun := [1, 2, 0], g_pendingtasks := [3]),
     sm = sems demo, irq = False, ctx = 21\<rparr>"

lemma demo_pend_repr: "repr demo_pend demo_pend_sys"
  by (simp add: repr_def demo_pend_sys_def dqueue_def) (simp add: demo_pend_def demo_def demo_task_def dq_init_def)

lemma demo_pend_tk: "tk demo_pend_sys p = (if p = 0 then Some (demo_task 0 TSTATE_TASK_READYTORUN None None None 10)
   else if p = 1 then Some (demo_task 100 TSTATE_TASK_RUNNING None None None 11)
   else if p = 2 then Some (demo_task 100 TSTATE_TASK_READYTORUN None None None 12)
   else if p = 3 then Some (demo_task 120 TSTATE_TASK_PENDING None None None 13) else None)"
  by (simp add: demo_pend_sys_def demo_pend_def demo_def view_def strip_def demo_task_def)

lemma demo_pend_qs: "qs demo_pend_sys l = (if l = g_readytorun then [1, 2, 0] else if l = g_pendingtasks then [3] else [])"
  by (simp add: demo_pend_sys_def)

lemma demo_pend_ok: "lists_ok 0 demo_pend_sys" "\<not> locked demo_pend_sys"
proof -
  have "listed demo_pend_sys" by (auto simp: listed_def demo_pend_tk demo_pend_qs split: if_splits)
  moreover have "running_ok demo_pend_sys" by (auto simp: running_ok_def demo_pend_tk demo_pend_qs split: if_splits)
  moreover have "ordered demo_pend_sys" by (auto simp: ordered_def pr_def demo_pend_tk demo_pend_qs)
  moreover have "idle_ok 0 demo_pend_sys" by (auto simp: idle_ok_def demo_pend_tk demo_pend_qs split: if_splits)
  ultimately show "lists_ok 0 demo_pend_sys" by (simp add: lists_ok_def)
  show "\<not> locked demo_pend_sys" by (simp add: locked_def demo_pend_tk demo_pend_qs)
qed

theorem mergepending_equals_readding_witness:
  "\<exists>r k1 k2 b. sched_mergepending demo_pend = Some (r, k1) \<and> readd_pending demo_pend = Some k2 \<and> repr k1 b \<and> repr k2 b"
  using mergepending_equals_readding [OF demo_pend_repr demo_pend_ok] .

section \<open>Round robin\<close>

lemma dseg_unique: "dseg h a p xs l None \<Longrightarrow> dseg h a p ys l' None \<Longrightarrow> xs = ys"
proof (induction xs arbitrary: a p ys)
  case Nil
  then show ?case by (cases ys) auto
next
  case (Cons x xs)
  then show ?case by (cases ys) auto
qed

lemma repr_list: "repr k a \<Longrightarrow> dqueue (tcbs k) (lists k l) xs \<Longrightarrow> qs a l = xs"
  unfolding repr_def dqueue_def using dseg_unique by metis

text \<open>The running task goes behind the tasks of its priority and the next of them runs.\<close>

lemma move_behind:
  assumes ok: "lists_ok i a" and r: "ready a = c # n # xs" and e: "pr a n = pr a c"
  shows "cur (a_move c (pr a c) a) = n" "ready (a_move c (pr a c) a) = ins (pr a) c (n # xs)" "pend (a_move c (pr a c) a) = pend a"
    "pr (a_move c (pr a c) a) = pr a" "c \<noteq> i" "c \<noteq> n" "pr a c \<noteq> 0" "lists_ok i (a_move c (pr a c) a)"
proof -
  note cd = lists_ok_curD [OF ok]
  show ci: "c \<noteq> i" using lists_ok_idle(4) [OF ok] r by auto
  show cn: "c \<noteq> n" using listed_distinct [OF cd(4), of g_readytorun] r by auto
  have c: "c \<in> set (ready a)" "cur a = c" "tk a c \<noteq> None" using r cd(2) by auto
  show c0: "pr a c \<noteq> 0" using ok c(3) ci by (auto simp: lists_ok_def idle_pr)
  note mv = lists_ok_move [OF ok c(1) ci c0] and rm = lists_ok_remready [OF ok c(1) ci]
  show "lists_ok i (a_move c (pr a c) a)" by (rule mv(1))
  let ?b = "a_upd c (\<lambda>t. t\<lparr>sched_priority := pr a c\<rparr>) (a_remready c a)"
  have b: "pr ?b = pr a" "ready ?b = n # xs" "pend ?b = pend a" "tk ?b c \<noteq> None" using c(3) rm(2,4) r by auto
  note pl = lists_ok_place [OF mv(3) b(4) mv(4)]
  have m: "a_move c (pr a c) a = a_place c ?b" using b e by (simp add: a_move_def a_addready_def)
  show "cur (a_move c (pr a c) a) = n" "ready (a_move c (pr a c) a) = ins (pr a) c (n # xs)" "pr (a_move c (pr a c) a) = pr a"
    "pend (a_move c (pr a c) a) = pend a"
    unfolding m using pl(3,2,5,4) b e by simp_all
qed

lemma repr_dqueue: "repr k a \<Longrightarrow> dqueue (tcbs k) (lists k l) (qs a l)"
  by (simp add: repr_def)

lemma rotate_equal:
  assumes ok: "lists_ok i a" and r: "ready a = c # n # xs" and e: "pr a n = pr a c" and p: "pend a = []"
  shows "ready (a_rotate a) = ins (pr a) c (n # xs)" 
proof -
  note m = move_behind [OF ok r e]
  have "a_merge (a_move c (pr a c) a) = a_move c (pr a c) a" using m(3) p by (simp add: a_merge_Nil)
  then show ?thesis using m(1,2,6) r e by (simp add: a_rotate_def a_reprio_def Let_def)
qed

text \<open>C17: Tasks of the same priority take turns.  When the time slice of the running round robin task is used up, it
  has not locked the scheduler and the next ready task has the same priority, the timer tick puts it behind all the
  tasks of its priority, keeps the order of the others, and the next task runs.\<close>

theorem round_robin_rotates:
  assumes "kernel_ok i k" "dqueue (tcbs k) (lists k g_readytorun) (c # n # xs)" "tcbs k c = Some t"
    and "sched_rr t" "0 \<le> timeslice t" "timeslice t \<le> 1" "sint (lockcount t) \<le> 0" "prio_of k n = prio_of k c"
  shows "\<exists>k'. nxsched_cpu_scheduler k = Some k' \<and> this_task k' = Some n \<and>
    dqueue (tcbs k') (lists k' g_readytorun) (ins (prio_of k) c (n # xs))"
proof -
  obtain a where a: "repr k a" "sys_ok i a" using assms(1) by (auto simp: kernel_ok_def)
  have o: "lists_ok i a" "pend_ok a" "listed a" using a(2) by (simp_all add: sys_ok_def lists_ok_def)
  have r: "ready a = c # n # xs" by (rule repr_list [OF a(1) assms(2)])
  have t: "tk a c = Some (strip t)" using a(1) assms(3) by (simp add: repr_def view_def)
  have pr: "pr a x = prio_of k x" if "x \<in> set (c # n # xs)" for x
    using that repr_pr [OF a(1) listed_tk [OF o(3), of x g_readytorun]] r by (simp add: prio_of_def)
  have nl: "\<not> locked a" using t r assms(7) by (simp add: locked_def)
  then have pe: "pend a = []" using o(2) by (auto simp: pend_ok_def)
  let ?d = "a_upd c (\<lambda>t. t\<lparr>timeslice := RR_TICKS\<rparr>) a"
  have d: "lists_ok i ?d" "ready ?d = c # n # xs" "pend ?d = []" "pr ?d = pr a"
    using o(1) r pe t by (auto simp: lists_ok_upd pr_def fun_eq_iff)
  have eq: "pr ?d n = pr ?d c" using pr assms(8) d(4) by simp
  have "a_tick a = a_rotate ?d" using t r assms(4-6) nl by (simp add: a_tick_def Let_def)
  moreover have "ready (a_rotate ?d) = ins (pr a) c (n # xs)" using rotate_equal [OF d(1,2) eq d(3)] d(4) by simp
  moreover obtain k' where k': "nxsched_cpu_scheduler k = Some k'" "repr k' (a_tick a)" "lists_ok i (a_tick a)"
    using nxsched_cpu_scheduler_ok [OF a(2,1)] by (auto simp: sys_ok_def)
  ultimately have rd: "ready (a_tick a) = ins (pr a) c (n # xs)" by simp
  have "ins (pr a) c (n # xs) = ins (prio_of k) c (n # xs)" by (rule ins_cong) (use pr in auto)
  moreover have "this_task k' = Some n" using repr_this_task [OF k'(2)] rd pr assms(8) by simp
  ultimately show ?thesis using k'(1) repr_dqueue [OF k'(2), of g_readytorun] rd by metis
qed

theorem round_robin_rotates_witness:
  "\<exists>k'. nxsched_cpu_scheduler demo = Some k' \<and> this_task k' = Some 2 \<and> dqueue (tcbs k') (lists k' g_readytorun) [2, 1, 0]"
proof -
  have "dqueue (tcbs demo) (lists demo g_readytorun) [1, 2, 0]"
    using repr_dqueue [OF demo_repr, of g_readytorun] by (simp add: demo_qs)
  moreover have "ins (prio_of demo) 1 [2, 0] = [2, 1, 0]" by (simp add: prio_of_def demo_def)
  ultimately show ?thesis using round_robin_rotates [OF demo_ok, of 1 2 "[0]"] by (simp add: demo_def demo_task_def prio_of_def)
qed

section \<open>Broken promises\<close>

text \<open>C38: Yielding gives up the processor although the scheduler is locked.  \<^verbatim>\<open>sched_lock\<close> promises that the caller is the
  only task that runs until it unlocks the scheduler or blocks itself; but when the next ready task has the same
  priority, \<^verbatim>\<open>sched_yield\<close> under the lock returns with another task running.\<close>

theorem yield_ignores_lock:
  assumes "kernel_ok i k" "dqueue (tcbs k) (lists k g_readytorun) (c # n # xs)" "tcbs k c = Some t"
    and "0 < sint (lockcount t)" "prio_of k n = prio_of k c"
  shows "\<exists>k' d. sched_yield k = Some (OK, k') \<and> this_task k' = Some d \<and> d \<noteq> c"
proof -
  obtain a where a: "repr k a" "sys_ok i a" using assms(1) by (auto simp: kernel_ok_def)
  have o: "lists_ok i a" "listed a" using a(2) by (simp_all add: sys_ok_def lists_ok_def)
  have r: "ready a = c # n # xs" by (rule repr_list [OF a(1) assms(2)])
  have eq: "pr a n = pr a c"
    using repr_pr [OF a(1) listed_tk [OF o(2), of n g_readytorun]] repr_pr [OF a(1) listed_tk [OF o(2), of c g_readytorun]] r assms(5)
    by (simp add: prio_of_def)
  let ?m = "a_move c (pr a c) a"
  note m = move_behind [OF o(1) r eq]
  have st: "st a c = TSTATE_TASK_RUNNING" using lists_ok_curD(3) [OF o(1)] r by simp
  have y: "a_yield a = a_switch c (a_merge ?m)" using st r eq m(1,6) by (simp add: a_yield_def a_setprio_def a_reprio_def Let_def)
  have "c \<notin> set (pend a)" using listed_disjoint [OF o(2), of g_readytorun g_pendingtasks] r by auto
  then have "cur (a_yield a) \<noteq> c" unfolding y using cur_merge [OF m(8)] m(1,3,6) by auto
  moreover obtain k' where "sched_yield k = Some (OK, k')" "repr k' (a_yield a)" "lists_ok i (a_yield a)"
    using sched_yield_ok(2) [OF a(2,1)] m(5) r by (auto simp: sys_ok_def)
  ultimately show ?thesis using repr_this_task lists_ok_curD(1) by blast
qed


theorem yield_ignores_lock_witness:
  "\<exists>k1 k2 d. sched_lock demo = Some (OK, k1) \<and> sched_yield k1 = Some (OK, k2) \<and> this_task k2 = Some d \<and> d \<noteq> 1"
proof -
  have "kdo Lock demo \<noteq> None" "allowed 0 Lock demo" by (simp_all add: demo_def sched_lock_def this_task_def upd_tcb_def running_def demo_task_def)
  then obtain k1 where k: "kdo Lock demo = Some k1" "kernel_ok 0 k1" using kdo_ok [OF demo_ok] by blast
  have l: "sched_lock demo = Some (OK, k1)" using k(1) by (simp add: sched_lock_def demo_def this_task_def upd_tcb_def)
  have k1: "k1 = demo\<lparr>tcbs := (tcbs demo)(1 \<mapsto> (demo_task 100 TSTATE_TASK_RUNNING (Some 2) None None 11)\<lparr>lockcount := 1\<rparr>)\<rparr>"
    using k(1) by (simp add: sched_lock_def demo_def this_task_def upd_tcb_def)
  have "dqueue (tcbs k1) (lists k1 g_readytorun) [1, 2, 0]" by (simp add: k1 dqueue_def demo_def demo_task_def)
  then show ?thesis using yield_ignores_lock [OF k(2), of 1 2 "[0]"] l by (simp add: k1 prio_of_def demo_def)
qed

text \<open>C37: The priority of a ready task is changed without moving the task.  In a build without debug assertions,
  giving a ready task a priority that is not above the running task's only writes the field; when the new priority is
  above that of the task before it in the list, the ready to run list is out of order afterwards, and the
  invariant of the scheduler is broken.\<close>

theorem setpriority_breaks_order:
  assumes "kernel_ok i k" "tcbs k p = Some t" "task_state t = TSTATE_TASK_READYTORUN" "blink t = Some q" "tcbs k q = Some u"
    and "uint (sched_priority u) < n" "n \<le> uint (sched_priority (running k))"
  shows "nxsched_setpriority p n k = Some (OK, k\<lparr>tcbs := (tcbs k)(p \<mapsto> t\<lparr>sched_priority := word_of_int n\<rparr>)\<rparr>) \<and>
    \<not> kernel_ok j (k\<lparr>tcbs := (tcbs k)(p \<mapsto> t\<lparr>sched_priority := word_of_int n\<rparr>)\<rparr>)"
proof -
  obtain a where a: "repr k a" "lists_ok i a" using assms(1) by (auto simp: kernel_ok_def sys_ok_def)
  obtain r where r: "this_task k = Some (cur a)" "tcbs k (cur a) = Some r" "running k = r" by (rule repr_running [OF a])
  have "1 \<le> n" using assms(6) uint_ge_0 [of "sched_priority u"] by linarith
  moreover have "n \<le> 255" using assms(7) uint_bounded [of "sched_priority (running k)"] by simp
  ultimately have n: "1 \<le> n" "n \<le> 255" .
  let ?k = "k\<lparr>tcbs := (tcbs k)(p \<mapsto> t\<lparr>sched_priority := word_of_int n\<rparr>)\<rparr>"
  have "\<not> kernel_ok j ?k"
  proof
    assume "kernel_ok j ?k"
    then obtain b where b: "repr ?k b" "lists_ok j b" "listed b" by (auto simp: kernel_ok_def sys_ok_def lists_ok_def)
    have tb: "tk b p = Some (strip (t\<lparr>sched_priority := word_of_int n\<rparr>))" using b(1) by (simp add: repr_def view_def)
    then have "p \<in> set (ready b)" using b(3) assms(3) by (simp add: listed_def)
    then obtain xs ys where x: "ready b = xs @ p # ys" "p \<notin> set xs" by (metis split_list_first)
    obtain t' where "tcbs ?k p = Some t'" "blink t' = (if xs = [] then None else Some (last xs))" by (rule repr_at [OF b(1) x(1)])
    then have xs: "xs \<noteq> []" "last xs = q" using assms(4) by (auto split: if_splits)
    then have q: "q \<in> set xs" "q \<noteq> p" using x(2) last_in_set [of xs] by auto
    have "prio_sorted (pr b) (xs @ p # ys)" using b(2) x(1) by (metis lists_ok_def ordered_def unordered_def insert_iff empty_iff tlist.distinct)
    then have "pr b p \<le> pr b q" using q(1) by (auto simp: sorted_wrt_append)
    moreover have "pr b p = word_of_int n" "pr b q = sched_priority u" using tb b(1) q(2) assms(5) by (auto simp: pr_def repr_def view_def)
    ultimately have "n \<le> uint (sched_priority u)" using n u8_of_int [of n] by (simp add: word_le_def)
    then show False using assms(6) by simp
  qed
  then show ?thesis using assms(2,3,7) r n by (simp add: nxsched_setpriority_def nxsched_readytorun_setpriority_def upd_tcb_def)
qed


theorem setpriority_breaks_order_witness:
  "\<exists>k k'. kdo (Post 8) demo = Some k \<and> kernel_ok 0 k \<and> nxsched_setpriority 2 110 k = Some (OK, k') \<and> \<not> kernel_ok 0 k'"
proof -
  have "allowed 0 (Post 8) demo" by (simp add: demo_def)
  then obtain k where k: "kdo (Post 8) demo = Some k" "kernel_ok 0 k" using kdo_ok [OF demo_ok] by blast
  have "map_option (\<lambda>k. (map_option (\<lambda>t. (task_state t, blink t)) (tcbs k 2), map_option (\<lambda>t. uint (sched_priority t)) (tcbs k 1),
      uint (sched_priority (running k)))) (kdo (Post 8) demo) = Some (Some (TSTATE_TASK_READYTORUN, Some 1), Some 100, 120)" by code_simp
  then obtain t u where "tcbs k 2 = Some t" "task_state t = TSTATE_TASK_READYTORUN" "blink t = Some 1" "tcbs k 1 = Some u"
    "uint (sched_priority u) = 100" "uint (sched_priority (running k)) = 120" unfolding k(1) by auto
  then show ?thesis using setpriority_breaks_order [OF k(2), of 2 t 1 u 110] k by auto
qed

section \<open>How many tasks a semaphore lets in\<close>

text \<open>The tasks that get past the semaphore in a call, seen from outside: the caller of a wait, if the call does not
  leave it waiting for the semaphore; the caller of a trywait that returns success; and the tasks that wait for the
  semaphore before a post and no longer wait after it.  A task whose wait an interruption ends gets an error
  instead and does not count.\<close>

definition admitted :: "nat \<Rightarrow> 'c event \<Rightarrow> 'c kernel \<Rightarrow> nat set" where
  "admitted s e k = (case e of
     Wait s' \<Rightarrow> {r. s' = s \<and> this_task k = Some r \<and> (\<exists>x k'. sem_wait_call s k = Some (x, k') \<and> \<not> waiting_for k' s r)}
   | Trywait s' \<Rightarrow> {r. s' = s \<and> this_task k = Some r \<and> (\<exists>k'. sem_trywait_call s k = Some (OK, k'))}
   | Post s' \<Rightarrow> {p. s' = s \<and> waiting_for k s p \<and> (\<exists>x k'. sem_post_call s k = Some (x, k') \<and> \<not> waiting_for k' s p)}
   | _ \<Rightarrow> {})"

definition posts :: "nat \<Rightarrow> 'c event \<Rightarrow> nat" where
  "posts s e = (case e of Post s' \<Rightarrow> if s' = s then 1 else 0 | _ \<Rightarrow> 0)"

text \<open>The sum of a count over the events of a run.\<close>

fun run_total :: "nat \<Rightarrow> ('c event \<Rightarrow> 'c kernel \<Rightarrow> nat) \<Rightarrow> 'c event list \<Rightarrow> 'c kernel \<Rightarrow> int" where
  "run_total i f [] k = 0"
| "run_total i f (e # es) k = (if allowed i e k
     then int (f e k) + (case kdo e k of None \<Rightarrow> 0 | Some k' \<Rightarrow> run_total i f es k') else 0)"

lemma admitted_wait:
  assumes k: "kernel_ok i k" and al: "allowed i (Wait s) k" and s: "sems k s = Some n"
  shows "card (admitted s (Wait s) k) = (if 0 < n then 1 else 0)"
proof -
  obtain a where a: "repr k a" "sys_ok i a" using k by (auto simp: kernel_ok_def)
  have o: "lists_ok i a" "listed a" using a(2) by (simp_all add: sys_ok_def lists_ok_def)
  obtain t where t: "this_task k = Some (cur a)" "tcbs k (cur a) = Some t" by (rule repr_running [OF a(1) o(1)])
  show ?thesis
  proof (cases "0 < n")
    case True
    then have "admitted s (Wait s) k = {cur a}"
      using t s by (auto simp: admitted_def sem_wait_call_def upd_tcb_def set_sem_def waiting_for_def)
    then show ?thesis using True by simp
  next
    case False
    then have w: "n \<le> 0" "- (2 ^ 15) < n" "cur a \<noteq> i" using al s t(1) by auto
    note b = block_on_semaphore [OF a(2,1) s w]
    let ?b = "a_block TSTATE_WAIT_SEM (a_upd (cur a) (\<lambda>t. t\<lparr>pterrno := OK\<rparr>) (a_upd (cur a) (\<lambda>t. t\<lparr>waitsem := Some s\<rparr>) (a_sem s (n - 1) a)))"
    have "listed ?b" using b(2) by (simp add: sys_ok_def lists_ok_def)
    moreover obtain k' where k': "sem_wait_call s k = Some (Blocked (pterrno (the (tk a (cur a)))), k')" "repr k' ?b" using b(1) by blast
    ultimately have "waiting_for k' s (cur a)" using repr_waiting [OF k'(2)] b(3) by simp
    then show ?thesis using False t(1) k'(1) by (simp add: admitted_def)
  qed
qed

lemma admitted_post:
  assumes k: "kernel_ok i k" and s: "sems k s = Some n"
  shows "card (admitted s (Post s) k) = (if n < 0 then 1 else 0)"
proof (cases "n < 0")
  case True
  obtain k' p where "sem_post_call s k = Some (OK, k')" "waiting_for k s p" "\<forall>q. waiting_for k' s q \<longleftrightarrow> waiting_for k s q \<and> q \<noteq> p"
    using post_ok [OF k s True] by blast
  then have "admitted s (Post s) k = {p}" by (auto simp: admitted_def)
  then show ?thesis using True by simp
next
  case False
  obtain a where a: "repr k a" "listed a" "sem_ok a" using k by (auto simp: kernel_ok_def sys_ok_def lists_ok_def)
  have "waiters a s = []" using sem_ok_count(1) [OF a(3), of s n] s repr_sems [OF a(1)] False by simp
  then show ?thesis using False repr_waiting [OF a(1,2)] by (simp add: admitted_def)
qed

lemma admitted_trywait:
  assumes k: "kernel_ok i k" and s: "sems k s = Some n"
  shows "card (admitted s (Trywait s) k) = (if 0 < n then 1 else 0)"
proof -
  obtain a where a: "repr k a" "lists_ok i a" using k by (auto simp: kernel_ok_def sys_ok_def)
  obtain t where t: "this_task k = Some (cur a)" "tcbs k (cur a) = Some t" by (rule repr_running [OF a])
  have "admitted s (Trywait s) k = (if 0 < n then {cur a} else {})"
    using t s by (auto simp: admitted_def sem_trywait_call_def upd_tcb_def set_sem_def)
  then show ?thesis by simp
qed

lemma available_step:
  assumes "kernel_ok i k" "allowed i e k" "kdo e k = Some k'" "sems k s = Some n"
  shows "\<exists>m. sems k' s = Some m \<and> max 0 m + int (card (admitted s e k)) = max 0 n + int (posts s e)"
proof (cases "\<exists>c. e = Compute c")
  case True
  then show ?thesis using assms(3,4) by (auto simp: admitted_def posts_def)
next
  case False
  obtain a where a: "repr k a" "sys_ok i a" using assms(1) by (auto simp: kernel_ok_def)
  obtain b where b: "repr k' b" "sem_effect e (sm a) (sm b)" using ctx_events [OF a assms(2)] False assms(3) by (auto simp: ctx_step_def effect_def)
  have eff: "sem_effect e (sems k) (sems k')" using b repr_sems [OF a(1)] repr_sems [OF b(1)] by simp
  consider "e = Wait s" | "e = Trywait s" | "e = Post s" | "admitted s e k = {}" "posts s e = 0" "e \<notin> {Wait s, Trywait s, Post s}"
    by (cases e) (auto simp: admitted_def posts_def)
  then show ?thesis
  proof cases
    case 1
    then show ?thesis using eff admitted_wait [OF assms(1) assms(2) [unfolded 1] assms(4)] assms(4) by (auto simp: sem_effect_def posts_def split: if_splits)
  next
    case 2
    then show ?thesis using eff admitted_trywait [OF assms(1,4)] assms(4) by (auto simp: sem_effect_def posts_def split: if_splits)
  next
    case 3
    then show ?thesis using eff admitted_post [OF assms(1,4)] assms(4) by (auto simp: sem_effect_def posts_def split: if_splits)
  next
    case 4
    then show ?thesis using eff assms(4) by (cases e) (auto simp: sem_effect_def split: if_splits)
  qed
qed

text \<open>C10: A semaphore lets in as many tasks as it has counts.  In every run of allowed calls, the number of tasks that
  got past the semaphore, callers that were not left waiting and waiting tasks that a post released, plus the count
  left at the end is the count at the start plus the number of posts.  No call lets in a task for which there is no
  count, and no post is lost.\<close>

theorem semaphore_admits_its_count:
  assumes "kernel_ok i k" "sems k s = Some n"
  shows "\<exists>k' m. krun i es k = Some k' \<and> sems k' s = Some m \<and>
    run_total i (\<lambda>e k. card (admitted s e k)) es k + max 0 m = max 0 n + run_total i (\<lambda>e _. posts s e) es k"
  using assms
proof (induction es arbitrary: k n)
  case (Cons e es)
  show ?case
  proof (cases "allowed i e k")
    case True
    then obtain k1 where k1: "kdo e k = Some k1" "kernel_ok i k1" using kdo_ok Cons.prems(1) by blast
    obtain m where m: "sems k1 s = Some m" "max 0 m + int (card (admitted s e k)) = max 0 n + int (posts s e)"
      using available_step [OF Cons.prems(1) True k1(1) Cons.prems(2)] by blast
    show ?thesis using Cons.IH [OF k1(2) m(1)] True k1(1) m(2) by auto
  next
    case False
    then show ?thesis using Cons.prems(2) by simp
  qed
qed simp

theorem semaphore_admits_its_count_witness:
  "\<exists>k' m. krun 0 [Wait 7, Post 7, Trywait 7, Post 7, Trywait 7] demo = Some k' \<and> sems k' 7 = Some m \<and>
     run_total 0 (\<lambda>e k. card (admitted 7 e k)) [Wait 7, Post 7, Trywait 7, Post 7, Trywait 7] demo + max 0 m = 2"
proof -
  have "run_total 0 (\<lambda>e _. posts 7 e) [Wait 7, Post 7, Trywait 7, Post 7, Trywait 7] demo = 2" by code_simp
  then show ?thesis
    using semaphore_admits_its_count [OF demo_ok, of 7 0 "[Wait 7, Post 7, Trywait 7, Post 7, Trywait 7]"] by (simp add: demo_def)
qed

end
