(* ===== verification/Mm_Run.thy ===== *)
theory Mm_Run
  imports Mm_System
begin

text \<open>
  Programs on the heap: sequences of calls and stores into the blocks the program holds. Every allowed call returns and keeps the heap in order; the program and the heap agree on the blocks.
\<close>

section \<open>Programs that use the heap\<close>

text \<open>The calls of a program and its stores. The program knows the blocks it holds, by address and requested size.\<close>

datatype heap_call = Malloc nat | Zalloc nat | Calloc nat nat | Memalign nat nat | Realloc nat nat | Free nat | Store nat u8

type_synonym client = "mm_state \<times> (nat \<rightharpoonup> nat)"

definition note_block :: "nat \<Rightarrow> nat \<Rightarrow> (nat \<rightharpoonup> nat) \<Rightarrow> (nat \<rightharpoonup> nat)" where
  "note_block p n L = (if p = 0 then L else L(p \<mapsto> n))"

fun run_call :: "int \<Rightarrow> heap_call \<Rightarrow> client \<Rightarrow> client option" where
  "run_call pid (Malloc sz) (s, L) = do { (p, s) \<leftarrow> umm_malloc pid sz s; Some (s, note_block p sz L) }"
| "run_call pid (Zalloc sz) (s, L) = do { (p, s) \<leftarrow> umm_zalloc pid sz s; Some (s, note_block p sz L) }"
| "run_call pid (Calloc n sz) (s, L) = do { (p, s) \<leftarrow> umm_calloc pid n sz s; Some (s, note_block p (n * sz) L) }"
| "run_call pid (Memalign al sz) (s, L) = do { (p, s) \<leftarrow> umm_memalign pid al sz s; Some (s, note_block p sz L) }"
| "run_call pid (Realloc p sz) (s, L) = do { (q, s) \<leftarrow> umm_realloc pid p sz s; Some (s, if q = 0 then L else L(p := None, q \<mapsto> sz)) }"
| "run_call pid (Free p) (s, L) = do { s \<leftarrow> umm_free pid p s; Some (s, L(p := None)) }"
| "run_call pid (Store a v) ((heap, m), L) = Some ((heap, m(a := v)), L)"

text \<open>What the program may do: requests that do not come near the size of the address space, release of what it holds,
  and stores into its own blocks.\<close>

fun call_allowed :: "heap_call \<Rightarrow> (nat \<rightharpoonup> nat) \<Rightarrow> bool" where
  "call_allowed (Malloc sz) L \<longleftrightarrow> 0 < sz \<and> sz + 23 < 4294967296"
| "call_allowed (Zalloc sz) L \<longleftrightarrow> 0 < sz \<and> sz + 23 < 4294967296"
| "call_allowed (Calloc n sz) L \<longleftrightarrow> 0 < n \<and> 0 < sz \<and> n < 4294967296 \<and> sz < 4294967296 \<and> (n * sz + 23 < 4294967296 \<or> 4294967296 \<le> n * sz)"
| "call_allowed (Memalign al sz) L \<longleftrightarrow> list_ex (\<lambda>j. al = 2 ^ j) [5..<32] \<and> sz + 2 * al + 40 < 4294967296"
| "call_allowed (Realloc p sz) L \<longleftrightarrow> p \<in> dom L \<and> 0 < sz \<and> sz + 23 < 4294967296"
| "call_allowed (Free p) L \<longleftrightarrow> p \<in> dom L"
| "call_allowed (Store a v) L \<longleftrightarrow> (\<exists>p n. L p = Some n \<and> p \<le> a \<and> a < p + n)"

inductive heap_step :: "heap_call \<Rightarrow> client \<Rightarrow> client \<Rightarrow> bool" where
  "pid \<noteq> NO_HOLDER \<Longrightarrow> call_allowed c L \<Longrightarrow> run_call pid c (s, L) = Some t \<Longrightarrow> heap_step c (s, L) t"

inductive_cases heap_stepE: "heap_step c (s, L) t"

section \<open>The blocks of the program are blocks of the heap\<close>

definition live_ok :: "region list \<Rightarrow> (nat \<rightharpoonup> nat) \<Rightarrow> bool" where
  "live_ok R L \<longleftrightarrow> dom L = fst ` blocks R \<and> (\<forall>(p, k) \<in> blocks R. the (L p) \<le> k)"

definition touches :: "heap_call \<Rightarrow> nat set" where
  "touches c = (case c of Free p \<Rightarrow> {p} | Realloc p n \<Rightarrow> {p} | _ \<Rightarrow> {})"

definition call_ok :: "heap_call \<Rightarrow> region list \<Rightarrow> client \<Rightarrow> client \<Rightarrow> bool" where
  "call_ok c R x y \<longleftrightarrow> fst (fst y) = fst (fst x) \<and> (\<exists>R'. mm_ok R' (fst y) \<and> live_ok R' (snd y) \<and> extent R' = extent R) \<and>
     (\<forall>q \<in> dom (snd x) - touches c. snd y q = snd x q \<and>
       (\<forall>i < the (snd x q). (\<forall>v. c \<noteq> Store (q + i) v) \<longrightarrow> snd (fst y) (q + i) = snd (fst x) (q + i)))"

lemma live_block: "live_ok R L \<Longrightarrow> q \<in> dom L \<Longrightarrow> \<exists>k. (q, k) \<in> blocks R \<and> the (L q) \<le> k"
  by (fastforce simp: live_ok_def)

lemma live_alloc:
  assumes v: "live_ok R L" and l: "layout nl R'" and b: "blocks R' = insert (p, k) (blocks R)" "(p, k) \<notin> blocks R" and n: "n \<le> k"
  shows "live_ok R' (L(p \<mapsto> n))" "p \<notin> dom L"
proof -
  show p: "p \<notin> dom L"
  proof
    assume "p \<in> dom L"
    then obtain k' where "(p, k') \<in> blocks R" using live_block [OF v] by blast
    then show False using blocks_disjoint(2) [OF l, of "(p, k)" "(p, k')"] b by auto
  qed
  have "q \<noteq> p" if "(q, k') \<in> blocks R" for q k' using that p v by (force simp: live_ok_def)
  then show "live_ok R' (L(p \<mapsto> n))" using v n b(1) by (auto simp: live_ok_def)
qed

lemma live_free:
  assumes v: "live_ok R L" and l: "layout nl R" and b: "blocks R' = blocks R - {(p, k)}" "(p, k) \<in> blocks R"
  shows "live_ok R' (L(p := None))"
proof -
  have u: "q \<noteq> p" if "(q, k') \<in> blocks R'" for q k' using blocks_disjoint(2) [OF l, of "(p, k)" "(q, k')"] that b by auto
  have "fst ` blocks R' = fst ` blocks R - {p}" using b u by force
  moreover have "the ((L(p := None)) q) \<le> k'" if "(q, k') \<in> blocks R'" for q k' using u [OF that] that v b(1) by (auto simp: live_ok_def)
  ultimately show ?thesis using v unfolding live_ok_def by auto
qed

text \<open>The contents of the blocks that stay.\<close>

lemma kept_block:
  assumes v: "live_ok R L" and t: "heap_to nl R m R' m'" and q: "q \<in> dom L" "\<And>k. (q, k) \<in> blocks R \<Longrightarrow> (q, k) \<in> blocks R'" and i: "i < the (L q)"
  shows "m' (q + i) = m (q + i)"
proof -
  obtain k where k: "(q, k) \<in> blocks R" "the (L q) \<le> k" using live_block [OF v q(1)] by blast
  have "q + i \<in> bytes_of (q, k)" using i k(2) by (simp add: bytes_of_def)
  then show ?thesis using t q(2) [OF k(1)] k(1) unfolding heap_to_def by blast
qed

lemma alloc_call_ok:
  assumes ok: "mm_ok R (heap, m)" and v: "live_ok R L" and t: "heap_to (mm_nodelist heap) R m R' m'"
    and b: "blocks R' = insert (p, k) (blocks R)" "(p, k) \<notin> blocks R" and n: "n \<le> k"
  shows "call_ok c R ((heap, m), L) ((heap, m'), note_block p n L)"
proof -
  have l: "layout (mm_nodelist heap) R'" using t by (auto simp: heap_to_def heap_ok_def heap_at_def)
  have p: "p \<noteq> 0" using block_aligned [OF l, of p k] b by auto
  note A = live_alloc [OF v l b n]
  have "mm_ok R' (heap, m')" by (rule mm_ok_to [OF ok t])
  moreover have "m' (q + i) = m (q + i)" if "q \<in> dom L" "i < the (L q)" for q i by (rule kept_block [OF v t that(1) _ that(2)]) (simp add: b)
  ultimately show ?thesis using A p t by (auto simp: call_ok_def note_block_def heap_to_def)
qed

lemma same_call_ok: "mm_ok R s \<Longrightarrow> live_ok R L \<Longrightarrow> call_ok c R (s, L) (s, L)"
  by (auto simp: call_ok_def)

lemma alloc_calls:
  assumes ok: "mm_ok R (heap, m)" and v: "live_ok R L" and pid: "pid \<noteq> NO_HOLDER"
  shows "call_allowed (Malloc sz) L \<Longrightarrow> \<exists>t. run_call pid (Malloc sz) ((heap, m), L) = Some t \<and> call_ok (Malloc sz) R ((heap, m), L) t"
    "call_allowed (Zalloc sz) L \<Longrightarrow> \<exists>t. run_call pid (Zalloc sz) ((heap, m), L) = Some t \<and> call_ok (Zalloc sz) R ((heap, m), L) t"
    "call_allowed (Memalign al sz) L \<Longrightarrow> \<exists>t. run_call pid (Memalign al sz) ((heap, m), L) = Some t \<and> call_ok (Memalign al sz) R ((heap, m), L) t"
proof -
  have h: "heap_ok (mm_nodelist heap) R m" "sem_ready pid heap" using ok sem_idle_ready pid by (auto simp: mm_ok_def)
  have same: "call_ok c R ((heap, m), L) ((heap, m), note_block 0 n L)" for c n using same_call_ok [OF ok v] by (simp add: note_block_def)
  {
    assume a: "call_allowed (Malloc sz) L"
    then have sz: "0 < sz" "sz + 23 < 4294967296" by auto
    have n: "sz \<le> MM_ALIGN_UP (sz + 8) - 8" using align_chunk(1) [OF sz] by simp
    show "\<exists>t. run_call pid (Malloc sz) ((heap, m), L) = Some t \<and> call_ok (Malloc sz) R ((heap, m), L) t"
      by (rule malloc_block [OF h(1) refl h(2) sz]) (use same alloc_call_ok [OF ok v _ _ _ n] in \<open>auto simp: umm_defs\<close>)
  }
  {
    assume a: "call_allowed (Zalloc sz) L"
    then have sz: "0 < sz" "sz + 23 < 4294967296" by auto
    have n: "sz \<le> MM_ALIGN_UP (sz + 8) - 8" using align_chunk(1) [OF sz] by simp
    show "\<exists>t. run_call pid (Zalloc sz) ((heap, m), L) = Some t \<and> call_ok (Zalloc sz) R ((heap, m), L) t"
      by (rule zalloc_block [OF h(1) refl h(2) sz]) (use same alloc_call_ok [OF ok v _ _ _ n] in \<open>auto simp: umm_defs\<close>)
  }
  assume "call_allowed (Memalign al sz) L"
  then obtain j where j: "al = 2 ^ j" "5 \<le> j" and sz: "sz + 2 * al + 40 < 4294967296"
    unfolding call_allowed.simps list_ex_iff set_upt atLeastLessThan_iff Bex_def by blast
  have al: "16 < al" using j power_increasing [of 5 j "2 :: nat"] by simp
  have n: "sz \<le> MM_ALIGN_UP sz + 8" using align_up_bounds [of sz] sz by simp
  show "\<exists>t. run_call pid (Memalign al sz) ((heap, m), L) = Some t \<and> call_ok (Memalign al sz) R ((heap, m), L) t"
    by (rule memalign_block [OF h(1) refl h(2) j(1) al sz]) (use same alloc_call_ok [OF ok v _ _ _ n] in \<open>auto simp: umm_defs\<close>)
qed

lemma calloc_call:
  assumes ok: "mm_ok R (heap, m)" and v: "live_ok R L" and pid: "pid \<noteq> NO_HOLDER" and a: "call_allowed (Calloc n sz) L"
  shows "\<exists>t. run_call pid (Calloc n sz) ((heap, m), L) = Some t \<and> call_ok (Calloc n sz) R ((heap, m), L) t"
proof (cases "n * sz < 4294967296")
  case True
  then have z: "0 < n * sz" "n * sz + 23 < 4294967296" using a by auto
  have e: "mm_calloc pid n sz s = mm_zalloc pid (n * sz) s" for s using calloc_zalloc [of n sz] a True by simp
  have "run_call pid (Calloc n sz) ((heap, m), L) = run_call pid (Zalloc (n * sz)) ((heap, m), L)" by (simp add: umm_defs e)
  then show ?thesis using alloc_calls(2) [OF ok v pid, of "n * sz"] z by (simp add: call_ok_def touches_def)
next
  case False
  then have "mm_calloc pid n sz (heap, m) = Some (0, heap, m)" using calloc_zalloc [of n sz] a by simp
  then show ?thesis using same_call_ok [OF ok v] by (simp add: umm_defs note_block_def)
qed

lemma free_call:
  assumes ok: "mm_ok R (heap, m)" and v: "live_ok R L" and pid: "pid \<noteq> NO_HOLDER" and a: "call_allowed (Free p) L"
  shows "\<exists>t. run_call pid (Free p) ((heap, m), L) = Some t \<and> call_ok (Free p) R ((heap, m), L) t"
proof -
  have h: "heap_ok (mm_nodelist heap) R m" "sem_ready pid heap" using ok sem_idle_ready pid by (auto simp: mm_ok_def)
  have l: "layout (mm_nodelist heap) R" using h(1) by (simp add: heap_ok_def heap_at_def)
  obtain k where k: "(p, k) \<in> blocks R" using live_block [OF v, of p] a by auto
  obtain R' m' where f: "mm_free pid p (heap, m) = Some (heap, m')" "heap_to (mm_nodelist heap) R m R' m'" "blocks R' = blocks R - {(p, k)}"
    using free_block [OF h(1) refl h(2) k] by blast
  have "mm_ok R' (heap, m')" by (rule mm_ok_to [OF ok f(2)])
  moreover have "live_ok R' (L(p := None))" by (rule live_free [OF v l f(3) k])
  moreover have "m' (q + i) = m (q + i)" if "q \<in> dom L" "q \<noteq> p" "i < the (L q)" for q i
    by (rule kept_block [OF v f(2) that(1) _ that(3)]) (use f(3) that(2) in auto)
  ultimately show ?thesis using f(1,2) by (auto simp: umm_defs call_ok_def touches_def heap_to_def)
qed

lemma store_call:
  assumes ok: "mm_ok R (heap, m)" and v: "live_ok R L" and a: "call_allowed (Store a w) L"
  shows "\<exists>t. run_call pid (Store a w) ((heap, m), L) = Some t \<and> call_ok (Store a w) R ((heap, m), L) t"
proof -
  have h: "heap_ok (mm_nodelist heap) R m" using ok by (auto simp: mm_ok_def)
  obtain p n where p: "L p = Some n" "p \<le> a" "a < p + n" using a by auto
  obtain k where k: "(p, k) \<in> blocks R" "n \<le> k" using live_block [OF v, of p] p(1) by force
  have "heap_ok (mm_nodelist heap) R (m(a := w))"
    by (rule heap_ok_block_write [OF h k(1)]) (use p k(2) in \<open>auto simp: frame_def bytes_of_def\<close>)
  then have "mm_ok R (heap, m(a := w))" using ok by (simp add: mm_ok_def)
  then show ?thesis using v by (auto simp: call_ok_def touches_def)
qed

lemma live_resize:
  assumes v: "live_ok R L" and l: "layout nl R" "layout nl R'" and p: "(p, n) \<in> blocks R" and k: "sz \<le> k"
    and b: "blocks R' = insert (q, k) (blocks R - {(p, n)})" "(q, k) \<notin> blocks R - {(p, n)}"
  shows "live_ok R' (L(p := None, q \<mapsto> sz))" "c \<in> dom L \<Longrightarrow> c \<noteq> p \<Longrightarrow> c \<noteq> q"
proof -
  have u: "c \<noteq> p \<and> c \<noteq> q" if "(c, k') \<in> blocks R - {(p, n)}" for c k'
    using blocks_disjoint(2) [OF l(1) p, of "(c, k')"] blocks_disjoint(2) [OF l(2), of "(q, k)" "(c, k')"] that b by auto
  have "fst ` (blocks R - {(p, n)}) = fst ` blocks R - {p}" using u by force
  moreover have "dom L = fst ` blocks R" using v by (simp add: live_ok_def)
  moreover have "fst ` blocks R' = insert q (fst ` (blocks R - {(p, n)}))" unfolding b(1) by simp
  ultimately have "dom (L(p := None, q \<mapsto> sz)) = fst ` blocks R'" by simp
  moreover have "the ((L(p := None, q \<mapsto> sz)) c) \<le> k'" if "(c, k') \<in> blocks R'" for c k'
  proof (cases "(c, k') = (q, k)")
    case False
    then have c: "(c, k') \<in> blocks R - {(p, n)}" using that unfolding b(1) by blast
    then have "the (L c) \<le> k'" using v unfolding live_ok_def by blast
    then show ?thesis using u [OF c] by simp
  qed (use k in simp)
  ultimately show "live_ok R' (L(p := None, q \<mapsto> sz))" unfolding live_ok_def by blast
  assume c: "c \<in> dom L" "c \<noteq> p"
  then obtain k' where "(c, k') \<in> blocks R" using live_block [OF v] by blast
  then show "c \<noteq> q" using u [of c k'] c(2) by simp
qed

lemma realloc_call:
  assumes ok: "mm_ok R (heap, m)" and v: "live_ok R L" and pid: "pid \<noteq> NO_HOLDER" and a: "call_allowed (Realloc p sz) L"
  shows "\<exists>t. run_call pid (Realloc p sz) ((heap, m), L) = Some t \<and> call_ok (Realloc p sz) R ((heap, m), L) t"
proof -
  let ?nl = "mm_nodelist heap" and ?k = "MM_ALIGN_UP (sz + 8) - 8"
  have h: "heap_ok ?nl R m" "sem_ready pid heap" using ok sem_idle_ready pid by (auto simp: mm_ok_def)
  have l: "layout ?nl R" using h(1) by (simp add: heap_ok_def heap_at_def)
  have sz: "0 < sz" "sz + 23 < 4294967296" using a by auto
  obtain n where n: "(p, n) \<in> blocks R" using live_block [OF v, of p] a by auto
  show ?thesis
  proof (rule realloc_block [OF h(1) refl h(2) n sz])
    assume "mm_realloc pid p sz (heap, m) = Some (0, heap, m)"
    then show ?thesis using same_call_ok [OF ok v] by (simp add: umm_defs)
  next
    fix q R' m'
    assume r: "mm_realloc pid p sz (heap, m) = Some (q, heap, m')" and z: "resized ?nl R m p n R' m' q ?k"
    have t: "heap_to ?nl R m R' m'" and b: "blocks R' = insert (q, ?k) (blocks R - {(p, n)})" "(q, ?k) \<notin> blocks R - {(p, n)}"
      using z by (auto simp: resized_def)
    have l': "layout ?nl R'" using t by (auto simp: heap_to_def heap_ok_def heap_at_def)
    have k: "sz \<le> ?k" using align_chunk(1) [OF sz] by simp
    note A = live_resize [OF v l l' n k b]
    have q: "q \<noteq> 0" using block_aligned [OF l', of q ?k] b(1) by auto
    have "mm_ok R' (heap, m')" by (rule mm_ok_to [OF ok t])
    moreover have "m' (c + i) = m (c + i)" if "c \<in> dom L" "c \<noteq> p" "i < the (L c)" for c i
      by (rule kept_block [OF v t that(1) _ that(3)]) (use b(1) that(2) in auto)
    ultimately show ?thesis using r q A t by (auto simp: umm_defs call_ok_def touches_def heap_to_def)
  qed
qed

lemma call_returns:
  assumes ok: "mm_ok R s" and v: "live_ok R L" and pid: "pid \<noteq> NO_HOLDER" and a: "call_allowed c L"
  shows "\<exists>t. run_call pid c (s, L) = Some t \<and> call_ok c R (s, L) t"
proof -
  obtain heap m where s: "s = (heap, m)" by force
  note ok' = ok [unfolded s]
  show ?thesis unfolding s
  proof (cases c)
    case (Calloc n sz)
    then show "\<exists>t. run_call pid c ((heap, m), L) = Some t \<and> call_ok c R ((heap, m), L) t" using calloc_call [OF ok' v pid] a by blast
  next
    case (Realloc p sz)
    then show "\<exists>t. run_call pid c ((heap, m), L) = Some t \<and> call_ok c R ((heap, m), L) t" using realloc_call [OF ok' v pid] a by blast
  next
    case (Free p)
    then show "\<exists>t. run_call pid c ((heap, m), L) = Some t \<and> call_ok c R ((heap, m), L) t" using free_call [OF ok' v pid] a by blast
  next
    case (Store b w)
    then show "\<exists>t. run_call pid c ((heap, m), L) = Some t \<and> call_ok c R ((heap, m), L) t" using store_call [OF ok' v] a by blast
  qed (use alloc_calls [OF ok' v pid] a in blast)+
qed

text \<open>All states of a program on the board, from the start of the system on.\<close>

inductive heap_run :: "nat \<Rightarrow> client \<Rightarrow> bool" for brk where
  start: "length (mm_heapstart heap) = 2 \<Longrightarrow> length (mm_heapend heap) = 2 \<Longrightarrow> 0x20000000 \<le> mm_nodelist heap \<Longrightarrow>
    mm_nodelist heap + 304 \<le> brk \<Longrightarrow> brk + 64 \<le> SRAM1_END \<Longrightarrow> heap_startup ws brk (heap, m) = Some s \<Longrightarrow> heap_run brk (s, Map.empty)"
| step: "heap_run brk x \<Longrightarrow> heap_step c x y \<Longrightarrow> heap_run brk y"

lemma step_ok:
  assumes "heap_step c (s, L) t" "mm_ok R s" "live_ok R L"
  shows "call_ok c R (s, L) t"
  using assms(1) by (rule heap_stepE) (use call_returns [OF assms(2,3)] in force)

lemma run_ok:
  assumes "heap_run brk x"
  shows "\<exists>R. mm_ok R (fst x) \<and> live_ok R (snd x) \<and> extent R = extent (board_regions brk) \<and>
    mm_heapsize (fst (fst x)) = SRAM1_END - MM_ALIGN_UP brk + 65536 \<and> brk + 64 \<le> SRAM1_END \<and> 0x20000000 \<le> brk"
  using assms
proof induction
  case (start heap ws m s)
  obtain heap' m' where "s = (heap', m')" "mm_ok (board_regions brk) (heap', m')" "mm_heapsize heap' = SRAM1_END - MM_ALIGN_UP brk + 65536"
    using startup_ok [OF start(1-5), of ws m] start(6) by auto
  moreover have "live_ok (board_regions brk) Map.empty" by (simp add: live_ok_def blocks_def board_regions_def)
  ultimately show ?case using start(3,4,5) by auto
next
  case (step x c y)
  obtain s L where x: "x = (s, L)" by (cases x)
  show ?case using step step_ok [of c s L y] unfolding x by (fastforce simp: call_ok_def)
qed

end
