(* ===== verification/Mm_Props.thy ===== *)
theory Mm_Props
  imports Mm_Run
begin

text \<open>
  What the heap guarantees to programs: the interface of allocation and release as a locale, and properties of all
  programs on the board.
\<close>

section \<open>The interface of the heap\<close>

text \<open>What a program relies on: rep s B says that the state s has the blocks B.\<close>

locale allocator =
  fixes rep :: "'s \<Rightarrow> (nat \<times> nat) set \<Rightarrow> bool"
    and contents :: "'s \<Rightarrow> nat \<Rightarrow> u8"
    and caller :: "int \<Rightarrow> bool"
    and request :: "nat \<Rightarrow> bool"
    and alloc :: "int \<Rightarrow> nat \<Rightarrow> 's \<Rightarrow> (nat \<times> 's) option"
    and release :: "int \<Rightarrow> nat \<Rightarrow> 's \<Rightarrow> 's option"
  assumes rep_apart: "rep s B \<Longrightarrow> x \<in> B \<Longrightarrow> y \<in> B \<Longrightarrow> x \<noteq> y \<Longrightarrow> bytes_of x \<inter> bytes_of y = {} \<and> fst x \<noteq> fst y"
    and alloc_law: "rep s B \<Longrightarrow> caller pid \<Longrightarrow> request n \<Longrightarrow> alloc pid n s = Some (0, s) \<or>
      (\<exists>p k s'. alloc pid n s = Some (p, s') \<and> p \<noteq> 0 \<and> n \<le> k \<and> (p, k) \<notin> B \<and> rep s' (insert (p, k) B) \<and>
        (\<forall>q \<in> B. \<forall>a \<in> bytes_of q. contents s' a = contents s a))"
    and release_law: "rep s B \<Longrightarrow> caller pid \<Longrightarrow> (p, k) \<in> B \<Longrightarrow>
      \<exists>s'. release pid p s = Some s' \<and> rep s' (B - {(p, k)}) \<and> (\<forall>q \<in> B - {(p, k)}. \<forall>a \<in> bytes_of q. contents s' a = contents s a)"
begin

lemma alloc_apart:
  assumes "rep s B" "caller pid" "request n" "alloc pid n s = Some (p, s')" "p \<noteq> 0" "q \<in> B"
  shows "{p ..< p + n} \<inter> bytes_of q = {}" "p \<noteq> fst q"
proof -
  obtain k where k: "n \<le> k" "(p, k) \<notin> B" "rep s' (insert (p, k) B)" using alloc_law [OF assms(1-3)] assms(4,5) by auto
  have "bytes_of (p, k) \<inter> bytes_of q = {} \<and> fst (p, k) \<noteq> fst q" by (rule rep_apart [OF k(3)]) (use assms(6) k(2) in auto)
  then show "{p ..< p + n} \<inter> bytes_of q = {}" "p \<noteq> fst q" using k(1) by (auto simp: bytes_of_def)
qed

lemma alloc_release:
  assumes "rep s B" "caller pid" "caller pid'" "request n" "alloc pid n s = Some (p, s')" "p \<noteq> 0"
  shows "\<exists>s''. release pid' p s' = Some s'' \<and> rep s'' B \<and> (\<forall>q \<in> B. \<forall>a \<in> bytes_of q. contents s'' a = contents s a)"
proof -
  obtain k where k: "(p, k) \<notin> B" "rep s' (insert (p, k) B)" "\<forall>q \<in> B. \<forall>a \<in> bytes_of q. contents s' a = contents s a"
    using alloc_law [OF assms(1,2,4)] assms(5,6) by auto
  have "insert (p, k) B - {(p, k)} = B" using k(1) by simp
  then show ?thesis using release_law [OF k(2) assms(3), of p k] k(3) by auto
qed

end

definition heap_rep :: "mm_state \<Rightarrow> (nat \<times> nat) set \<Rightarrow> bool" where
  "heap_rep s B \<longleftrightarrow> (\<exists>R. mm_ok R s \<and> blocks R = B)"

lemma heap_rep_layout: "heap_rep s B \<Longrightarrow> \<exists>R. mm_ok R s \<and> blocks R = B \<and> layout (mm_nodelist (fst s)) R \<and> heap_ok (mm_nodelist (fst s)) R (snd s)"
  by (auto simp: heap_rep_def mm_ok_def heap_ok_def heap_at_def split: prod.splits)

interpretation user_heap: allocator heap_rep snd "\<lambda>pid. pid \<noteq> NO_HOLDER" "\<lambda>n. 0 < n \<and> n + 23 < 4294967296" umm_malloc umm_free
proof
  fix s :: mm_state and B p q
  assume "heap_rep s B" "p \<in> B" "q \<in> B" "p \<noteq> q"
  then show "bytes_of p \<inter> bytes_of q = {} \<and> fst p \<noteq> fst q" using heap_rep_layout blocks_disjoint by blast
next
  fix s :: mm_state and B and pid :: int and n :: nat
  assume r: "heap_rep s B" and pid: "pid \<noteq> NO_HOLDER" and n: "0 < n \<and> n + 23 < 4294967296"
  obtain heap m where s: "s = (heap, m)" by (cases s)
  obtain R where R: "mm_ok R (heap, m)" "blocks R = B" "heap_ok (mm_nodelist heap) R m" using heap_rep_layout [OF r] s by auto
  have sem: "sem_ready pid heap" using R(1) sem_idle_ready pid by (auto simp: mm_ok_def)
  have n': "0 < n" "n + 23 < 4294967296" using n by auto
  show "umm_malloc pid n s = Some (0, s) \<or> (\<exists>p k s'. umm_malloc pid n s = Some (p, s') \<and> p \<noteq> 0 \<and> n \<le> k \<and> (p, k) \<notin> B \<and>
      heap_rep s' (insert (p, k) B) \<and> (\<forall>q \<in> B. \<forall>a \<in> bytes_of q. snd s' a = snd s a))"
  proof (rule malloc_block [OF R(3) refl sem n'])
    fix p R' m'
    assume r: "mm_malloc pid n (heap, m) = Some (p, heap, m')" and t: "heap_to (mm_nodelist heap) R m R' m'"
      and b: "blocks R' = insert (p, MM_ALIGN_UP (n + 8) - 8) (blocks R)" "(p, MM_ALIGN_UP (n + 8) - 8) \<notin> blocks R"
    have "p \<noteq> 0" using block_aligned [of "mm_nodelist heap" R' p] t b(1) by (auto simp: heap_to_def heap_ok_def heap_at_def)
    moreover have "n \<le> MM_ALIGN_UP (n + 8) - 8" using align_chunk(1) [OF n'] by simp
    moreover have "heap_rep (heap, m') (insert (p, MM_ALIGN_UP (n + 8) - 8) B)" using mm_ok_to [OF R(1) t] b(1) R(2) by (auto simp: heap_rep_def)
    moreover have "\<forall>q \<in> B. \<forall>a \<in> bytes_of q. m' a = m a" using t b(1) R(2) unfolding heap_to_def by blast
    ultimately show ?thesis using r b(2) R(2) s by (auto simp: umm_malloc_def)
  qed (simp add: umm_malloc_def s)
next
  fix s :: mm_state and B and pid :: int and p k :: nat
  assume r: "heap_rep s B" and pid: "pid \<noteq> NO_HOLDER" and p: "(p, k) \<in> B"
  obtain heap m where s: "s = (heap, m)" by (cases s)
  obtain R where R: "mm_ok R (heap, m)" "blocks R = B" "heap_ok (mm_nodelist heap) R m" using heap_rep_layout [OF r] s by auto
  have sem: "sem_ready pid heap" using R(1) sem_idle_ready pid by (auto simp: mm_ok_def)
  obtain R' m' where f: "mm_free pid p (heap, m) = Some (heap, m')" "heap_to (mm_nodelist heap) R m R' m'" "blocks R' = B - {(p, k)}"
    using free_block [OF R(3) refl sem] p R(2) by blast
  have "\<forall>q \<in> B - {(p, k)}. \<forall>a \<in> bytes_of q. m' a = m a" using f(2,3) R(2) unfolding heap_to_def by blast
  then show "\<exists>s'. umm_free pid p s = Some s' \<and> heap_rep s' (B - {(p, k)}) \<and> (\<forall>q \<in> B - {(p, k)}. \<forall>a \<in> bytes_of q. snd s' a = snd s a)"
    using f mm_ok_to [OF R(1) f(2)] s by (auto simp: umm_free_def heap_rep_def)
qed



section \<open>An example\<close>

lemma started_run: "heap_run 0x20001000 (started_heap, Map.empty)"
  by (rule heap_run.start [OF _ _ _ _ _ started_heap_ok(1)]) (simp_all add: loaded_heap_def)

lemma started_block:
  obtains heap m p m' where "started_heap = (heap, m)" "p \<noteq> 0" "run_call 3 (Malloc 4) (started_heap, Map.empty) = Some ((heap, m'), [p \<mapsto> 4])"
    "heap_run 0x20001000 ((heap, m'), [p \<mapsto> 4])"
proof -
  obtain heap m where h: "started_heap = (heap, m)" by fastforce
  obtain p m' where m: "umm_malloc 3 4 started_heap = Some (p, heap, m')" "p \<noteq> 0"
    unfolding h by (rule malloc_4 [OF started_heap_ok(2) [unfolded h], of 3]) (use started_heap_ok(3) in auto)
  have r: "run_call 3 (Malloc 4) (started_heap, Map.empty) = Some ((heap, m'), [p \<mapsto> 4])"
    using m by (simp add: note_block_def)
  have "heap_step (Malloc 4) (started_heap, Map.empty) ((heap, m'), [p \<mapsto> 4])" by (rule heap_step.intros [OF _ _ r]) simp_all
  then have "heap_run 0x20001000 ((heap, m'), [p \<mapsto> 4])" by (rule heap_run.step [OF started_run])
  then show thesis by (rule that [OF h m(2) r])
qed

section \<open>Properties\<close>

lemma run_blocks:
  assumes "heap_run brk ((heap, m), L)"
  obtains R where "mm_ok R (heap, m)" "live_ok R L" "layout (mm_nodelist heap) R" "extent R = extent (board_regions brk)"
  using run_ok [OF assms] by (auto simp: mm_ok_def heap_ok_def heap_at_def)

lemma held_blocks_apart:
  assumes l: "layout nl R" and v: "live_ok R L" and p: "L p = Some n" and q: "L q = Some k" and ne: "p \<noteq> q"
  shows "{p ..< p + n} \<inter> {q ..< q + k} = {}"
proof -
  have pq: "p \<in> dom L" "q \<in> dom L" using p q by auto
  obtain j i where b: "(p, j) \<in> blocks R" "n \<le> j" "(q, i) \<in> blocks R" "k \<le> i"
    using live_block [OF v pq(1)] live_block [OF v pq(2)] p q by auto
  have "bytes_of (p, j) \<inter> bytes_of (q, i) = {}" by (rule blocks_disjoint(1) [OF l b(1,3)]) (use ne in simp)
  then show ?thesis using b(2,4) by (fastforce simp: bytes_of_def)
qed

text \<open>C11: A program on the heap is safe.  In every state that a program on the board reaches from the start of the system
  by allocating, resizing and releasing blocks and storing into blocks it holds, every block it holds is aligned to 16
  bytes, no two of them overlap, and every further such call returns and keeps every block that it does not resize
  or release, with its contents.\<close>

theorem heap_program_safe:
  assumes "heap_run brk ((heap, m), L)"
  shows "(\<forall>p n. L p = Some n \<longrightarrow> p \<noteq> 0 \<and> p mod 16 = 0) \<and>
    (\<forall>p n q k. L p = Some n \<longrightarrow> L q = Some k \<longrightarrow> p \<noteq> q \<longrightarrow> {p ..< p + n} \<inter> {q ..< q + k} = {}) \<and>
    (\<forall>pid c. pid \<noteq> NO_HOLDER \<longrightarrow> call_allowed c L \<longrightarrow>
       (\<exists>m' L'. run_call pid c ((heap, m), L) = Some ((heap, m'), L') \<and> heap_run brk ((heap, m'), L') \<and>
          (\<forall>q n. L q = Some n \<longrightarrow> q \<in> touches c \<or> L' q = Some n \<and>
             (\<forall>i < n. (\<forall>v. c \<noteq> Store (q + i) v) \<longrightarrow> m' (q + i) = m (q + i)))))"
proof -
  obtain R where R: "mm_ok R (heap, m)" "live_ok R L" "layout (mm_nodelist heap) R" by (rule run_blocks [OF assms])
  have "p \<noteq> 0 \<and> p mod 16 = 0" if "L p = Some n" for p n
    using live_block [OF R(2), of p] block_aligned [OF R(3), of p] that by force
  moreover have "\<exists>m' L'. run_call pid c ((heap, m), L) = Some ((heap, m'), L') \<and> heap_run brk ((heap, m'), L') \<and>
          (\<forall>q n. L q = Some n \<longrightarrow> q \<in> touches c \<or> L' q = Some n \<and>
             (\<forall>i < n. (\<forall>v. c \<noteq> Store (q + i) v) \<longrightarrow> m' (q + i) = m (q + i)))"
    if a: "pid \<noteq> NO_HOLDER" "call_allowed c L" for pid c
  proof -
    obtain t where t: "run_call pid c ((heap, m), L) = Some t" "call_ok c R ((heap, m), L) t"
      using call_returns [OF R(1,2) a] by blast
    obtain m' L' where e: "t = ((heap, m'), L')" using t(2) by (cases t) (auto simp: call_ok_def)
    have "heap_step c ((heap, m), L) t" by (rule heap_step.intros [OF a t(1)])
    then have "heap_run brk t" by (rule heap_run.step [OF assms])
    moreover have "q \<in> touches c \<or> L' q = Some n \<and> (\<forall>i < n. (\<forall>v. c \<noteq> Store (q + i) v) \<longrightarrow> m' (q + i) = m (q + i))"
      if "L q = Some n" for q n
    proof (cases "q \<in> touches c")
      case False
      then have "q \<in> dom L - touches c" using that by auto
      with t(2) have "L' q = L q \<and> (\<forall>i < the (L q). (\<forall>v. c \<noteq> Store (q + i) v) \<longrightarrow> m' (q + i) = m (q + i))"
        unfolding call_ok_def e by auto
      then show ?thesis using that by simp
    qed simp
    ultimately show ?thesis using t(1) unfolding e by blast
  qed
  ultimately show ?thesis using held_blocks_apart [OF R(3,2)] by blast
qed

theorem heap_program_safe_witness:
  "\<exists>heap m p m1 m2 L. started_heap = (heap, m) \<and> p \<noteq> 0 \<and> p mod 16 = 0 \<and>
     run_call 3 (Malloc 4) (started_heap, Map.empty) = Some ((heap, m1), [p \<mapsto> 4]) \<and>
     run_call 3 (Malloc 100) ((heap, m1), [p \<mapsto> 4]) = Some ((heap, m2), L) \<and> L p = Some 4 \<and> m2 p = m1 p"
proof -
  obtain heap m p m1 where h: "started_heap = (heap, m)" "p \<noteq> 0"
    "run_call 3 (Malloc 4) (started_heap, Map.empty) = Some ((heap, m1), [p \<mapsto> 4])" "heap_run 0x20001000 ((heap, m1), [p \<mapsto> 4])"
    by (rule started_block)
  note s = heap_program_safe [OF h(4)]
  have al: "p mod 16 = 0" using s by simp
  have a: "call_allowed (Malloc 100) [p \<mapsto> 4]" "(3 :: int) \<noteq> NO_HOLDER" by simp_all
  obtain m2 L where r: "run_call 3 (Malloc 100) ((heap, m1), [p \<mapsto> 4]) = Some ((heap, m2), L)"
    and k: "\<forall>q n. [p \<mapsto> 4] q = Some n \<longrightarrow> q \<in> touches (Malloc 100) \<or> L q = Some n \<and>
             (\<forall>i < n. (\<forall>v. Malloc 100 \<noteq> Store (q + i) v) \<longrightarrow> m2 (q + i) = m1 (q + i))"
    using s [THEN conjunct2, THEN conjunct2, rule_format, OF a(2,1)] by blast
  have k4: "L p = Some 4" "\<forall>i < 4. m2 (p + i) = m1 (p + i)" using k by (simp_all add: touches_def)
  then have "m2 p = m1 p" using spec [OF k4(2), of 0] by simp
  then show ?thesis using h(1-3) al r k4(1)
    by (intro exI [of _ heap] exI [of _ m] exI [of _ p] exI [of _ m1] exI [of _ m2] exI [of _ L] conjI)
qed



text \<open>C13: The information about the heap is exact.  In every state of a program on the board, used and free bytes add up
  to the size of the arena, and an allocation succeeds if and only if the size of its chunk is at most that of the
  largest free chunk.\<close>

theorem mallinfo_predicts_malloc:
  assumes "heap_run brk (s, L)" "pid \<noteq> NO_HOLDER"
  shows "\<exists>info. umm_mallinfo pid s = Some (info, s) \<and> uordblks info + fordblks info = arena info \<and>
    (\<forall>sz p s'. 0 < sz \<longrightarrow> sz + 23 < 4294967296 \<longrightarrow> umm_malloc pid sz s = Some (p, s') \<longrightarrow>
       (p \<noteq> 0 \<longleftrightarrow> MM_ALIGN_UP (sz + 8) \<le> mxordblk info))"
proof -
  obtain heap m where s: "s = (heap, m)" by (cases s)
  obtain R where R: "mm_ok R (heap, m)" "extent R = extent (board_regions brk)" "mm_heapsize heap = SRAM1_END - MM_ALIGN_UP brk + 65536"
    "brk + 64 \<le> SRAM1_END" "0x20000000 \<le> brk" using run_ok [OF assms(1) [unfolded s]] by auto
  have b: "brk \<le> MM_ALIGN_UP brk" "MM_ALIGN_UP brk < brk + 16" using align_up_bounds [of brk] R(4) by auto
  let ?info = "\<lparr>arena = mm_heapsize heap, ordblks = int (length (sizes False (all_chunks R))),
    mxordblk = fold max (sizes False (all_chunks R)) 0, uordblks = sum_list (sizes True (all_chunks R)) mod 4294967296,
    fordblks = sum_list (sizes False (all_chunks R)) mod 4294967296\<rparr>"
  have i: "mm_mallinfo pid (heap, m) = Some (OK, ?info, heap, m)" by (rule mallinfo_ok [OF R(1) assms(2)])
  have "sum_list (sizes True (all_chunks R)) + sum_list (sizes False (all_chunks R)) = SRAM1_END - MM_ALIGN_UP brk + 65536"
    using sizes_sum [of "all_chunks R"] b R(4) unfolding all_chunks_sum R(2) by (simp add: space_def extent_def board_regions_def csum_def)
  then have "uordblks ?info + fordblks ?info = arena ?info" using R(3,5) b by simp
  moreover have "p \<noteq> 0 \<longleftrightarrow> MM_ALIGN_UP (sz + 8) \<le> mxordblk ?info"
    if "0 < sz" "sz + 23 < 4294967296" "umm_malloc pid sz s = Some (p, s')" for sz p s'
    using malloc_info [OF R(1) assms(2) that(1,2)] that(3) i by (auto simp: umm_defs s)
  ultimately show ?thesis using i by (intro exI [of _ ?info]) (simp add: umm_defs s)
qed

theorem mallinfo_predicts_malloc_witness:
  "\<exists>info. umm_mallinfo 3 started_heap = Some (info, started_heap) \<and> uordblks info + fordblks info = arena info"
  using mallinfo_predicts_malloc [OF started_run, of 3] by auto

text \<open>C14: Nothing is lost to fragmentation.  When a program has released all that it allocated, in whatever order, each
  region of the heap is one free chunk again, as after the start of the system.\<close>

theorem release_all_restores:
  assumes "heap_run brk (s, Map.empty)"
  shows "mm_ok (board_regions brk) s"
proof -
  obtain R where R: "mm_ok R s" "live_ok R Map.empty" "extent R = extent (board_regions brk)" "brk + 64 \<le> SRAM1_END"
    using run_ok [OF assms] by auto
  have b: "MM_ALIGN_UP brk < brk + 16" using align_up_bounds [of brk] R(4) by auto
  have bl: "blocks R = {}" using R(2) by (auto simp: live_ok_def)
  have one: "cs = [(csum cs, False)]" if r: "(x, cs) \<in> set R" "0 < csum cs" for x cs
  proof -
    have f: "\<not> snd c" if "c \<in> set cs" for c
    proof
      assume c: "snd c"
      obtain pre post where "cs = pre @ c # post" using split_list [OF \<open>c \<in> set cs\<close>] by blast
      then have "(x + 8 + csum pre + 8, fst c - 8) \<in> blocks_at (x + 8) cs" using c by (cases c) simp
      then show False using bl r(1) by (auto simp: blocks_def)
    qed
    have co: "successively (\<lambda>c d. snd c \<or> snd d) cs" using R(1) r(1) by (auto simp: mm_ok_def coalesced_def split: prod.splits)
    show ?thesis
    proof (cases cs)
      case (Cons c ds)
      then have "ds = []" using co f by (cases ds) auto
      then show ?thesis using Cons f by (cases c) auto
    qed (use r(2) in simp)
  qed
  obtain x1 c1 x2 c2 where Rs: "R = [(x1, c1), (x2, c2)]"
    using R(3) by (auto simp: extent_def board_regions_def map_eq_Cons_conv)
  then have "R = board_regions brk"
    using R(3,4) b one [of x1 c1] one [of x2 c2] by (auto simp: extent_def board_regions_def csum_def)
  then show ?thesis using R(1) by simp
qed

theorem release_all_restores_witness:
  "\<exists>p s s'. run_call 3 (Malloc 4) (started_heap, Map.empty) = Some (s, [p \<mapsto> 4]) \<and>
     run_call 3 (Free p) (s, [p \<mapsto> 4]) = Some (s', Map.empty) \<and> mm_ok (board_regions 0x20001000) s'"
proof -
  obtain heap m p m1 where h: "started_heap = (heap, m)" "p \<noteq> 0"
    "run_call 3 (Malloc 4) (started_heap, Map.empty) = Some ((heap, m1), [p \<mapsto> 4])" "heap_run 0x20001000 ((heap, m1), [p \<mapsto> 4])"
    by (rule started_block)
  obtain R where R: "mm_ok R (heap, m1)" "live_ok R [p \<mapsto> 4]" by (rule run_blocks [OF h(4)])
  obtain t where t: "run_call 3 (Free p) ((heap, m1), [p \<mapsto> 4]) = Some t"
    using call_returns [OF R, of 3 "Free p"] by auto
  then obtain s' where s': "t = (s', Map.empty)" by (auto split: bind_splits)
  have "heap_step (Free p) ((heap, m1), [p \<mapsto> 4]) (s', Map.empty)" by (rule heap_step.intros [of 3]) (use t s' in simp_all)
  then have "heap_run 0x20001000 (s', Map.empty)" by (rule heap_run.step [OF h(4)])
  from release_all_restores [OF this] show ?thesis using h(3) t s'
    by (intro exI [of _ p] exI [of _ "(heap, m1)"] exI [of _ s'] conjI) simp_all
qed

end
