(* ===== verification/Spec2Isabelle.thy ===== *)
theory Spec2Isabelle
  imports Imu_System Sched_Props Mm_Props
begin

text \<open>
  Chewie: a quadcopter flight controller on the NuttX real-time operating system.  The board is the
  xingtong-pyboard (STM32F405).  The application is in \<^verbatim>\<open>src/apps/chewie\<close>, the operating system in
  \<^verbatim>\<open>src/nuttx\<close>.  The development models the program in three slices: the path from the application to the
  hardware, the scheduler with its semaphores, and the memory manager.

  \<^bold>\<open>The parts and how they interact.\<close>

  A motor command goes down this path.  The test program (\<^verbatim>\<open>chewie_main.c\<close>) calls the motor driver
  (\<^verbatim>\<open>drv_motor.c\<close>), which limits the duty cycle and calls the PWM wrapper (\<^verbatim>\<open>drv_pwm_out.c\<close>).  The
  wrapper makes the system calls open, close and ioctl.  The file system looks the device up in the inode
  tree, keeps the table of open files and calls the methods of the character driver (\<^verbatim>\<open>drivers/pwm/pwm.c\<close>).
  The driver calls its lower half (\<^verbatim>\<open>stm32_pwm.c\<close>), which writes the registers of timer 2 and, through
  \<^verbatim>\<open>stm32_gpio.c\<close>, those of the pins.  A sensor sample goes up a similar path: the main loop calls the JY901B driver
  (\<^verbatim>\<open>drv_imu_jy901b.c\<close>), which reads registers of the sensor through \<^verbatim>\<open>lib_i2c.c\<close> and the I2C character
  driver (\<^verbatim>\<open>drivers/i2c/i2c_driver.c\<close>).

  Below these paths is the kernel: the scheduler keeps the tasks in linked queues, switches between them,
  and blocks and wakes them on semaphores; the memory manager hands out the blocks of the heap, which in this
  build the kernel and the application share.

  \<^bold>\<open>Conventions.\<close>

  A C structure is a record, a pointer an address (a number or an option of one), a 32 bit register a word of
  that width.  A function that changes state takes it and returns it.  The value None of an option
  stands for undefined behaviour or for a call that does not return; errors of the code are negated error
  numbers in the result.  Debug assertions are off in the configuration of the board, so they are not part of
  the definitions.

  \<^bold>\<open>Theories, by part.\<close>

  \<^item> \<^verbatim>\<open>Prelude\<close>: integer types, error numbers, lemmas on options and words.
  \<^item> \<^verbatim>\<open>Mmio\<close>, \<^verbatim>\<open>Gpio\<close>: register access (\<^verbatim>\<open>up_arch.h\<close>, \<^verbatim>\<open>up_modifyreg16.c\<close>, \<^verbatim>\<open>up_modifyreg32.c\<close>) on a
    register file with the reaction of the peripherals; pin configuration.  A configuration
    changes the settings of one pin only.
  \<^item> \<^verbatim>\<open>Pwm_Types\<close>, \<^verbatim>\<open>Stm32_Pwm\<close>, \<^verbatim>\<open>Stm32_Pwm_Laws\<close>: the lower half of the PWM driver on the registers of
    the timer.  The laws give the registers after setup, start, stop and shutdown, the accuracy of frequency and duty
    cycle with all wrap-around of 32 and 64 bit arithmetic, and that no output is driven before a start.
  \<^item> \<^verbatim>\<open>Ioctl_Arg\<close>, \<^verbatim>\<open>Pwm_Driver\<close>, \<^verbatim>\<open>Pwm_Stack\<close>: the upper half, over a table of lower half operations;
    its invariant over all sequences of calls when it is put on the model of the lower half.
  \<^item> \<^verbatim>\<open>Semaphore\<close>: semaphores as one caller sees them, with the future of each blocking wait as a list.
  \<^item> \<^verbatim>\<open>Path\<close>, \<^verbatim>\<open>Inode\<close>, \<^verbatim>\<open>Inode_Laws\<close>, \<^verbatim>\<open>Registry\<close>: path names, the inode tree as a pointer structure
    (\<^verbatim>\<open>fs/inode\<close>), registration of drivers (\<^verbatim>\<open>fs/driver\<close>).  The pointer structure refines a list of
    trees: search agrees with a search by path segments, registering and finding are inverse, removal takes
    a whole subtree out and is deferred while its node is in use.
  \<^item> \<^verbatim>\<open>Vfs\<close>, \<^verbatim>\<open>Vfs_Laws\<close>, \<^verbatim>\<open>Char_Device\<close>: open, close, ioctl, read and write on the table of open files.
    Open and close refine operations on a table of descriptors; reference counts are exact.
  \<^item> \<^verbatim>\<open>Pwm_Output\<close>, \<^verbatim>\<open>Board\<close>: the wrapper of the application; the board set-up that registers the motor device.
  \<^item> \<^verbatim>\<open>Ieee\<close>, \<^verbatim>\<open>Motor\<close>, \<^verbatim>\<open>Motor_Laws\<close>, \<^verbatim>\<open>Motor_System\<close>: double and single precision arithmetic on rational
    numbers with rounding to nearest even; the motor driver and the test program; the theorems about the whole stack from a
    motor command to the compare registers.
  \<^item> \<^verbatim>\<open>I2c_Driver\<close>, \<^verbatim>\<open>Imu\<close>, \<^verbatim>\<open>Imu_Laws\<close>, \<^verbatim>\<open>Imu_System\<close>: the I2C character driver and its library, the sensor
    driver, and the main loop on the whole stack.  The structure of the library is in the bytes of the heap of the
    memory manager; opening the library overwrites the header of the chunk behind its block, which the main loop
    does not notice because it does not use the heap again.
  \<^item> \<^verbatim>\<open>Queue\<close>, \<^verbatim>\<open>Queue_Laws\<close>: the doubly linked queues of \<^verbatim>\<open>libs/libc/queue\<close> on a heap of nodes, which
    refine lists.
  \<^item> \<^verbatim>\<open>Sched\<close>: task lists, scheduler lock, priorities, time slices (\<^verbatim>\<open>sched/sched\<close>), the
    context switches of the ARMv7-M port (\<^verbatim>\<open>up_blocktask.c\<close> and its siblings), and semaphores between tasks
    (\<^verbatim>\<open>sched/semaphore\<close>).  \<^verbatim>\<open>Sched_Spec\<close> has the same operations on lists of tasks, \<^verbatim>\<open>Sched_Refine\<close>, \<^verbatim>\<open>Sched_Ops\<close>
    and \<^verbatim>\<open>Sched_Calls\<close> the simulation, \<^verbatim>\<open>Sched_Inv\<close> the invariant of scheduler and semaphores,
    \<^verbatim>\<open>Sched_Laws\<close>, \<^verbatim>\<open>Sched_Context\<close> and \<^verbatim>\<open>Sched_Props\<close> the theorems over all reachable states.
  \<^item> \<^verbatim>\<open>Mm_Memory\<close>, \<^verbatim>\<open>Mm_Heap\<close>, \<^verbatim>\<open>Mm_User\<close>: the bytes of the memory; the memory manager (\<^verbatim>\<open>mm/mm_heap\<close>) on
    them, whose chunk headers and free lists are words in memory; the calls of the C library (\<^verbatim>\<open>mm/umm_heap\<close>).
    \<^verbatim>\<open>Mm_Spec\<close>, \<^verbatim>\<open>Mm_Regions\<close> and \<^verbatim>\<open>Mm_Ops\<close> describe a heap in order: regions tiled by chunks, no two free chunks
    side by side, every free chunk in the list of its size class.  \<^verbatim>\<open>Mm_Laws\<close>, \<^verbatim>\<open>Mm_Blocks\<close>, \<^verbatim>\<open>Mm_Realloc\<close>,
    \<^verbatim>\<open>Mm_Client\<close>, \<^verbatim>\<open>Mm_Align\<close>, \<^verbatim>\<open>Mm_Init\<close> and \<^verbatim>\<open>Mm_Info\<close> show what each call does to the blocks and that it
    keeps the heap in order; \<^verbatim>\<open>Mm_System\<close> the heap of the board (\<^verbatim>\<open>stm32_allocateheap.c\<close>); \<^verbatim>\<open>Mm_Run\<close> and
    \<^verbatim>\<open>Mm_Props\<close> the theorems over all programs.

  \<^bold>\<open>Loops.\<close>

  Loops over data that gets smaller are recursive functions with a termination proof.  Loops that follow pointers
  are partial functions into an option (\<^verbatim>\<open>search_loop\<close>, \<^verbatim>\<open>inode_free\<close>, \<^verbatim>\<open>count_loop\<close>, \<^verbatim>\<open>find_place\<close>,
  \<^verbatim>\<open>merge_loop\<close>, \<^verbatim>\<open>find_waiter\<close>,
  \<^verbatim>\<open>chunk_place\<close>, \<^verbatim>\<open>find_chunk\<close>, \<^verbatim>\<open>count_nodes\<close>); the theorems state that the calls return, since
  their conclusions give the value Some.  There is no fuel.  The list of interrupted waits in \<^verbatim>\<open>Semaphore\<close> is finite and of any length.

  \<^bold>\<open>Assumptions.\<close>

  The reaction of the timer to register writes is part of \<^verbatim>\<open>Mmio\<close> as the reference manual of the chip
  documents it.  The methods of the I2C bus driver are a parameter; the theorems about the sensor assume that a
  transfer gives the registers of the sensor.  A register context of the processor is a value of any type that is
  saved and restored as a whole.  In the file system and the drivers an allocation gives a
  fresh address or fails; the application allocates on the bytes of the heap.  While a program of the slices runs, no
  other task uses the heap.  The callers of the scheduler do not change the priority of a task that is ready but
  does not run to one that is not above the running task's: the code then breaks the order of the list, which is a
  theorem of its own.  The 16 bit counters of semaphores and of references to inodes are integers: in the
  scheduler the range is a condition on the calls, elsewhere the counts stay within the number of descriptors of a
  task, which is 8, and of nested calls.

  \<^bold>\<open>Not modelled.\<close>

  The I2C bus driver of the chip (interrupts and timing); the board bring-up beyond the PWM and I2C devices, since the
  set-up of SD card, USB, clock and the process file system is I/O of parts outside of both slices; task creation
  and exit, signals, message queues and timers; sockets, block devices and the other file systems; the
  duplication of descriptors (\<^verbatim>\<open>file_dup2\<close>); \<^verbatim>\<open>mm_sbrk\<close>, which this build does not have; console output.
\<close>

end
